(* ===== verification/Prelude.thy ===== *)
theory Prelude
  imports Main "HOL-Library.Word"
begin

text \<open>
  Shared vocabulary of the development: the C integer types as fixed-width
  words, the byte-level idioms the headers repeat (splitting a 16 or 24 bit
  quantity into bytes, binary coded decimal), C strings, bounded stores into a
  C array, and the generic lemmas on words and lists the components use.

  A C expression over \<open>__u8\<close>/\<open>__u16\<close> operands is computed in \<open>int\<close> and truncated
  when it is stored.  Shifts to the left, \<open>|\<close>, \<open>&\<close>, \<open>+\<close> and \<open>*\<close> commute with
  that truncation, so the model computes them at the width of the destination.
\<close>

unbundle bit_operations_syntax

named_theorems word_lits \<open>literal bit masks as \<^const>\<open>take_bit\<close>\<close>

type_synonym u8 = "8 word"
type_synonym u16 = "16 word"
type_synonym u32 = "32 word"
type_synonym u64 = "64 word"
type_synonym c_int = "32 word"

section \<open>Statement sequences\<close>

text \<open>The statements \<open>s1; s2; ...\<close> of a C function body, each a function on the state, in order.\<close>

primrec stmts :: "('s \<Rightarrow> 's) list \<Rightarrow> 's \<Rightarrow> 's" where
  "stmts [] s = s"
| "stmts (f # fs) s = stmts fs (f s)"

section \<open>Bytes of wider integers\<close>

definition hi8 :: "u16 \<Rightarrow> u8" where
  "hi8 x = ucast (drop_bit 8 x)"

definition lo8 :: "u16 \<Rightarrow> u8" where
  "lo8 x = ucast (x AND 0xFF)"

definition be16 :: "u8 \<Rightarrow> u8 \<Rightarrow> u16" where
  "be16 h l = push_bit 8 (ucast h) OR ucast l"

definition be24 :: "u8 \<Rightarrow> u8 \<Rightarrow> u8 \<Rightarrow> u32" where
  "be24 a b c = push_bit 16 (ucast a) OR push_bit 8 (ucast b) OR ucast c"

definition to_bcd :: "u8 \<Rightarrow> u8" where
  "to_bcd x = push_bit 4 (x div 10) OR (x mod 10)"

definition of_bcd :: "u8 \<Rightarrow> u8" where
  "of_bcd x = drop_bit 4 x * 10 + (x AND 0xF)"

section \<open>Arrays and strings\<close>

text \<open>
  A store outside a C array is undefined behaviour.  The model makes it visible:
  the array collapses to the empty list, so that a length invariant proved of
  the result shows that every store was in range.
\<close>

definition store :: "'a list \<Rightarrow> nat \<Rightarrow> 'a \<Rightarrow> 'a list" where
  "store xs i x = (if i < length xs then xs[i := x] else [])"

definition memcpy_at :: "'a list \<Rightarrow> nat \<Rightarrow> 'a list \<Rightarrow> 'a list" where
  "memcpy_at xs off src =
     (if off + length src \<le> length xs
      then take off xs @ src @ drop (off + length src) xs else [])"

definition strlen :: "u8 list \<Rightarrow> nat" where
  "strlen s = length (takeWhile (\<lambda>c. c \<noteq> 0) s)"

definition c_string :: "u8 list \<Rightarrow> u8 list" where
  "c_string s = takeWhile (\<lambda>c. c \<noteq> 0) s"

section \<open>Lemmas on words\<close>

lemma and_lits [word_lits]:
  "(x :: 'a::len word) AND 0xFF = take_bit 8 x"
  "(x :: 'a::len word) AND 0x7F = take_bit 7 x"
  "(x :: 'a::len word) AND 0x3F = take_bit 6 x"
  "(x :: 'a::len word) AND 0xF = take_bit 4 x"
  "(x :: 'a::len word) AND 3 = take_bit 2 x"
  "(x :: 'a::len word) AND 1 = take_bit 1 x"
  by (simp_all add: take_bit_eq_mask mask_eq_exp_minus_1)

lemma be16_hi_lo [simp]: "be16 (hi8 x) (lo8 x) = x"
  unfolding be16_def hi8_def lo8_def word_lits
  by (rule bit_word_eqI) (auto simp: bit_simps)

lemma hi8_be16 [simp]: "hi8 (be16 h l) = h"
  unfolding be16_def hi8_def
  by (rule bit_word_eqI) (auto simp: bit_simps dest: bit_imp_le_length)

lemma lo8_be16 [simp]: "lo8 (be16 h l) = l"
  unfolding be16_def lo8_def word_lits
  by (rule bit_word_eqI) (auto simp: bit_simps dest: bit_imp_le_length)

lemma be16_0_0 [simp]: "be16 0 0 = 0"
  by (simp add: be16_def)

lemma be24_split:
  "be24 (ucast (drop_bit 16 x)) (ucast (drop_bit 8 x AND 0xFF)) (ucast (x AND 0xFF)) = take_bit 24 x"
proof (rule bit_word_eqI)
  fix n
  show "bit (be24 (ucast (drop_bit 16 x)) (ucast (drop_bit 8 x AND 0xFF)) (ucast (x AND 0xFF))) n =
        bit (take_bit 24 x) n"
    unfolding be24_def word_lits
    by (cases "n < 16") (auto simp: bit_simps)
qed

lemma be24_split' :
  "be24 (ucast (drop_bit 16 x AND 0xFF)) (ucast (drop_bit 8 x AND 0xFF)) (ucast (x AND 0xFF)) = take_bit 24 x"
proof (rule bit_word_eqI)
  fix n
  show "bit (be24 (ucast (drop_bit 16 x AND 0xFF)) (ucast (drop_bit 8 x AND 0xFF)) (ucast (x AND 0xFF))) n =
        bit (take_bit 24 x) n"
    unfolding be24_def word_lits
    by (cases "n < 16") (auto simp: bit_simps)
qed

lemma take_bit_word_small: "(x :: 'a::len word) < 2 ^ n \<Longrightarrow> n < LENGTH('a) \<Longrightarrow> take_bit n x = x"
  by (simp add: take_bit_eq_mask less_mask_eq)

lemma unat_ucast_up: "LENGTH('a::len) \<le> LENGTH('b::len) \<Longrightarrow> unat (ucast (x :: 'a word) :: 'b word) = unat x"
  by (simp add: unsigned_ucast_eq take_bit_nat_eq_self less_le_trans [OF unsigned_less])

text \<open>Two fields packed into one word, the upper one shifted by \<open>n\<close>.\<close>

lemma bit_below: "(x :: 'a::len word) < 2 ^ n \<Longrightarrow> n < LENGTH('a) \<Longrightarrow> bit x i \<Longrightarrow> i < n"
  using take_bit_word_small [of x n] by (metis bit_take_bit_iff)

lemma drop_pack:
  fixes a b :: "'a::len word"
  assumes "a < 2 ^ k" and "b < 2 ^ n" and "k + n \<le> LENGTH('a)" and "0 < k" and "0 < n"
  shows "drop_bit n (push_bit n a OR b) = a"
proof (rule bit_word_eqI)
  fix i
  show "bit (drop_bit n (push_bit n a OR b)) i = bit a i"
    using bit_below [OF assms(1), of i] bit_below [OF assms(2), of "i + n"] assms(3-5)
    by (auto simp: bit_simps add.commute)
qed

lemma take_pack:
  fixes a b :: "'a::len word"
  assumes "b < 2 ^ n" and "n < LENGTH('a)"
  shows "take_bit n (push_bit n a OR b) = b"
proof (rule bit_word_eqI)
  fix i
  show "bit (take_bit n (push_bit n a OR b)) i = bit b i"
    using bit_below [OF assms, of i] by (auto simp: bit_simps)
qed

lemma pack_less:
  fixes a b :: "'a::len word"
  assumes "a < 2 ^ k" and "b < 2 ^ n" and "k + n < LENGTH('a)" and "0 < k" and "0 < n"
  shows "push_bit n a OR b < 2 ^ (k + n)"
proof -
  have "take_bit (k + n) (push_bit n a OR b) = push_bit n a OR b"
  proof (rule bit_word_eqI)
    fix i
    show "bit (take_bit (k + n) (push_bit n a OR b)) i = bit (push_bit n a OR b) i"
      using bit_below [OF assms(1), of "i - n"] bit_below [OF assms(2), of i] assms(3-5)
      by (auto simp: bit_simps)
  qed
  then show ?thesis
    using assms(3) by (metis and_mask_less' take_bit_eq_mask)
qed

lemmas u8_pack =
  drop_pack [where 'a = 8 and k = 1 and n = 7, simplified]
  drop_pack [where 'a = 8 and k = 2 and n = 6, simplified]
  drop_pack [where 'a = 8 and k = 4 and n = 4, simplified]
  drop_pack [where 'a = 8 and k = 6 and n = 2, simplified]
  take_pack [where 'a = 8 and n = 7, simplified]
  take_pack [where 'a = 8 and n = 6, simplified]
  take_pack [where 'a = 8 and n = 4, simplified]
  take_pack [where 'a = 8 and n = 2, simplified]

text \<open>
  A statement about the words below a literal bound is a finite check, which
  \<open>code_simp\<close> carries out in the kernel.
\<close>

lemma word_exhaust_below:
  fixes x :: "'a::len word"
  assumes "list_all (\<lambda>n. P (word_of_nat n :: 'a word)) [0..<k]" and "unat x < k"
  shows "P x"
proof -
  have "unat x \<in> set [0..<k]"
    using assms(2) by simp
  with assms(1) have "P (word_of_nat (unat x))"
    unfolding list_all_iff by (rule bspec)
  then show ?thesis by simp
qed

lemma of_bcd_to_bcd [simp]:
  assumes "x < 100"
  shows "of_bcd (to_bcd x) = x"
proof (rule word_exhaust_below [where k = 100])
  show "list_all (\<lambda>n. of_bcd (to_bcd (word_of_nat n)) = word_of_nat n) [0..<100]"
    by code_simp
  show "unat x < 100"
    using assms by (simp add: word_less_nat_alt)
qed

section \<open>Lemmas on arrays and strings\<close>

lemma length_store [simp]: "i < length xs \<Longrightarrow> length (store xs i x) = length xs"
  by (simp add: store_def)

lemma nth_store: "i < length xs \<Longrightarrow> store xs i x ! j = (if i = j then x else xs ! j)"
  by (simp add: store_def)

lemma fold_store:
  "n \<le> length ds \<Longrightarrow> fold (\<lambda>i ds. store ds i (f i)) [0..<n] ds = map f [0..<n] @ drop n ds"
proof (induction n)
  case 0
  then show ?case by simp
next
  case (Suc n)
  then have "drop n ds = ds ! n # drop (Suc n) ds"
    by (simp add: Cons_nth_drop_Suc)
  with Suc show ?case
    by (simp add: store_def list_update_append)
qed

lemma length_memcpy_at [simp]:
  "off + length src \<le> length xs \<Longrightarrow> length (memcpy_at xs off src) = length xs"
  by (simp add: memcpy_at_def)

lemma nth_memcpy_at:
  "off + length src \<le> length xs \<Longrightarrow> j < length xs \<Longrightarrow>
   memcpy_at xs off src ! j =
     (if off \<le> j \<and> j < off + length src then src ! (j - off) else xs ! j)"
  by (auto simp: memcpy_at_def nth_append min_def)

lemma take_drop_memcpy_at [simp]:
  "off + length src \<le> length xs \<Longrightarrow> n = length src \<Longrightarrow> take n (drop off (memcpy_at xs off src)) = src"
  by (simp add: memcpy_at_def)

lemma strlen_c_string: "strlen s = length (c_string s)"
  by (simp add: strlen_def c_string_def)

lemma c_string_nonzero: "c \<in> set (c_string s) \<Longrightarrow> c \<noteq> 0"
  by (auto simp: c_string_def dest: set_takeWhileD)

lemma take_strlen [simp]: "take (strlen s) s = c_string s"
  unfolding strlen_def c_string_def by (rule takeWhile_eq_take [symmetric])

lemma take_min_strlen: "n \<le> strlen s \<Longrightarrow> take n s = take n (c_string s)"
  unfolding take_strlen [symmetric] take_take by (simp only: min.absorb1)

lemma c_string_append_0 [simp]: "0 \<notin> set p \<Longrightarrow> c_string (p @ 0 # ys) = p"
  unfolding c_string_def by (subst takeWhile_append2) auto

lemma strlen_append_0 [simp]: "0 \<notin> set p \<Longrightarrow> strlen (p @ 0 # ys) = length p"
  by (simp add: strlen_c_string)

lemma zero_notin_c_string [simp]: "0 \<notin> set (c_string s)"
  using c_string_nonzero by blast

text \<open>Copying a string without its terminator to the front of a buffer and terminating it.\<close>

lemma c_string_store_memcpy [simp]:
  assumes "length p < length buf" and "0 \<notin> set p"
  shows "c_string (store (memcpy_at buf 0 p) (length p) 0) = p"
proof -
  obtain y ys where "drop (length p) buf = y # ys"
    using assms(1) by (metis Cons_nth_drop_Suc)
  with assms have "store (memcpy_at buf 0 p) (length p) 0 = p @ 0 # ys"
    by (simp add: store_def memcpy_at_def)
  with assms(2) show ?thesis by simp
qed

end
