(* ===== verification/Cec_Base.thy ===== *)
theory Cec_Base
  imports Prelude
begin

text \<open>
  The HDMI-CEC message object of \<open>uapi/linux/cec.h\<close>: the structure, its header
  accessors, \<open>cec_msg_init\<close>, \<open>cec_msg_set_reply_to\<close>, the status test, the logical
  address masks and the opcode and operand constants.  The last sections hold
  what the encoders and decoders of \<open>cec-funcs.h\<close> share: the field writers they
  are composed of, with their algebra, and the locale \<open>cec_codec\<close>, the contract
  between an encoder \<open>cec_msg_x\<close> and its decoder \<open>cec_ops_x\<close>.
\<close>

unbundle bit_operations_syntax

named_theorems cec_defs \<open>definitions of the message encoders and decoders\<close>
named_theorems cec_const \<open>values of the header's constants\<close>

section \<open>The message structure\<close>

definition CEC_MAX_MSG_SIZE :: nat where
  [cec_const]: "CEC_MAX_MSG_SIZE = 16"

record cec_msg =
  m_tx_ts :: u64
  m_rx_ts :: u64
  m_len :: u32
  m_timeout :: u32
  m_sequence :: u32
  m_flags :: u32
  m_msg :: "u8 list"
  m_reply :: u8
  m_rx_status :: u8
  m_tx_status :: u8
  m_tx_arb_lost_cnt :: u8
  m_tx_nack_cnt :: u8
  m_tx_low_drive_cnt :: u8
  m_tx_error_cnt :: u8

text \<open>The array member has its declared size.\<close>

definition cec_wf :: "cec_msg \<Rightarrow> bool" where
  "cec_wf m \<longleftrightarrow> length (m_msg m) = CEC_MAX_MSG_SIZE"

definition byte :: "cec_msg \<Rightarrow> nat \<Rightarrow> u8" where
  "byte m i = m_msg m ! i"

definition cec_msg_initiator :: "cec_msg \<Rightarrow> u8" where
  "cec_msg_initiator m = drop_bit 4 (byte m 0)"

definition cec_msg_destination :: "cec_msg \<Rightarrow> u8" where
  "cec_msg_destination m = byte m 0 AND 0xF"

definition cec_msg_opcode :: "cec_msg \<Rightarrow> int" where
  "cec_msg_opcode m = (if m_len m > 1 then uint (byte m 1) else -1)"

definition cec_msg_is_broadcast :: "cec_msg \<Rightarrow> bool" where
  "cec_msg_is_broadcast m \<longleftrightarrow> byte m 0 AND 0xF = 0xF"

text \<open>\<open>memset\<close> of the whole structure, then byte 0 and the length.\<close>

definition cec_msg_init :: "u8 \<Rightarrow> u8 \<Rightarrow> cec_msg" where
  "cec_msg_init initiator destination =
     \<lparr>m_tx_ts = 0, m_rx_ts = 0, m_len = 1, m_timeout = 0, m_sequence = 0, m_flags = 0,
      m_msg = store (replicate CEC_MAX_MSG_SIZE 0) 0 (push_bit 4 initiator OR destination),
      m_reply = 0, m_rx_status = 0, m_tx_status = 0, m_tx_arb_lost_cnt = 0,
      m_tx_nack_cnt = 0, m_tx_low_drive_cnt = 0, m_tx_error_cnt = 0\<rparr>"

definition cec_msg_set_reply_to :: "cec_msg \<Rightarrow> cec_msg \<Rightarrow> cec_msg" where
  "cec_msg_set_reply_to orig m =
     m\<lparr>m_msg := store (m_msg m) 0 (push_bit 4 (cec_msg_destination orig) OR cec_msg_initiator orig),
       m_reply := 0, m_timeout := 0\<rparr>"

section \<open>Transmit and receive status\<close>

definition CEC_TX_STATUS_OK :: u8 where
  [cec_const]: "CEC_TX_STATUS_OK = push_bit 0 1"

definition CEC_RX_STATUS_OK :: u8 where
  [cec_const]: "CEC_RX_STATUS_OK = push_bit 0 1"

definition CEC_RX_STATUS_FEATURE_ABORT :: u8 where
  [cec_const]: "CEC_RX_STATUS_FEATURE_ABORT = push_bit 2 1"

definition cec_msg_status_is_ok :: "cec_msg \<Rightarrow> bool" where
  "cec_msg_status_is_ok m =
     (if m_tx_status m \<noteq> 0 \<and> m_tx_status m AND CEC_TX_STATUS_OK = 0 then False
      else if m_rx_status m \<noteq> 0 \<and> m_rx_status m AND CEC_RX_STATUS_OK = 0 then False
      else if m_tx_status m = 0 \<and> m_rx_status m = 0 then False
      else m_rx_status m AND CEC_RX_STATUS_FEATURE_ABORT = 0)"

section \<open>Logical addresses\<close>

definition CEC_LOG_ADDR_TV :: nat where
  [cec_const]: "CEC_LOG_ADDR_TV = 0"

definition CEC_LOG_ADDR_RECORD_1 :: nat where
  [cec_const]: "CEC_LOG_ADDR_RECORD_1 = 1"

definition CEC_LOG_ADDR_RECORD_2 :: nat where
  [cec_const]: "CEC_LOG_ADDR_RECORD_2 = 2"

definition CEC_LOG_ADDR_TUNER_1 :: nat where
  [cec_const]: "CEC_LOG_ADDR_TUNER_1 = 3"

definition CEC_LOG_ADDR_PLAYBACK_1 :: nat where
  [cec_const]: "CEC_LOG_ADDR_PLAYBACK_1 = 4"

definition CEC_LOG_ADDR_AUDIOSYSTEM :: nat where
  [cec_const]: "CEC_LOG_ADDR_AUDIOSYSTEM = 5"

definition CEC_LOG_ADDR_TUNER_2 :: nat where
  [cec_const]: "CEC_LOG_ADDR_TUNER_2 = 6"

definition CEC_LOG_ADDR_TUNER_3 :: nat where
  [cec_const]: "CEC_LOG_ADDR_TUNER_3 = 7"

definition CEC_LOG_ADDR_PLAYBACK_2 :: nat where
  [cec_const]: "CEC_LOG_ADDR_PLAYBACK_2 = 8"

definition CEC_LOG_ADDR_RECORD_3 :: nat where
  [cec_const]: "CEC_LOG_ADDR_RECORD_3 = 9"

definition CEC_LOG_ADDR_TUNER_4 :: nat where
  [cec_const]: "CEC_LOG_ADDR_TUNER_4 = 10"

definition CEC_LOG_ADDR_PLAYBACK_3 :: nat where
  [cec_const]: "CEC_LOG_ADDR_PLAYBACK_3 = 11"

definition CEC_LOG_ADDR_BACKUP_1 :: nat where
  [cec_const]: "CEC_LOG_ADDR_BACKUP_1 = 12"

definition CEC_LOG_ADDR_BACKUP_2 :: nat where
  [cec_const]: "CEC_LOG_ADDR_BACKUP_2 = 13"

definition CEC_LOG_ADDR_SPECIFIC :: nat where
  [cec_const]: "CEC_LOG_ADDR_SPECIFIC = 14"

definition CEC_LOG_ADDR_UNREGISTERED :: nat where
  [cec_const]: "CEC_LOG_ADDR_UNREGISTERED = 15"

definition CEC_LOG_ADDR_MASK_TV :: u16 where
  [cec_const]: "CEC_LOG_ADDR_MASK_TV =
     push_bit CEC_LOG_ADDR_TV 1"

definition CEC_LOG_ADDR_MASK_RECORD :: u16 where
  [cec_const]: "CEC_LOG_ADDR_MASK_RECORD =
     push_bit CEC_LOG_ADDR_RECORD_1 1 OR push_bit CEC_LOG_ADDR_RECORD_2 1 OR push_bit CEC_LOG_ADDR_RECORD_3 1"

definition CEC_LOG_ADDR_MASK_TUNER :: u16 where
  [cec_const]: "CEC_LOG_ADDR_MASK_TUNER =
     push_bit CEC_LOG_ADDR_TUNER_1 1 OR push_bit CEC_LOG_ADDR_TUNER_2 1 OR push_bit CEC_LOG_ADDR_TUNER_3 1 OR push_bit CEC_LOG_ADDR_TUNER_4 1"

definition CEC_LOG_ADDR_MASK_PLAYBACK :: u16 where
  [cec_const]: "CEC_LOG_ADDR_MASK_PLAYBACK =
     push_bit CEC_LOG_ADDR_PLAYBACK_1 1 OR push_bit CEC_LOG_ADDR_PLAYBACK_2 1 OR push_bit CEC_LOG_ADDR_PLAYBACK_3 1"

definition CEC_LOG_ADDR_MASK_AUDIOSYSTEM :: u16 where
  [cec_const]: "CEC_LOG_ADDR_MASK_AUDIOSYSTEM =
     push_bit CEC_LOG_ADDR_AUDIOSYSTEM 1"

definition CEC_LOG_ADDR_MASK_BACKUP :: u16 where
  [cec_const]: "CEC_LOG_ADDR_MASK_BACKUP =
     push_bit CEC_LOG_ADDR_BACKUP_1 1 OR push_bit CEC_LOG_ADDR_BACKUP_2 1"

definition CEC_LOG_ADDR_MASK_SPECIFIC :: u16 where
  [cec_const]: "CEC_LOG_ADDR_MASK_SPECIFIC =
     push_bit CEC_LOG_ADDR_SPECIFIC 1"

definition CEC_LOG_ADDR_MASK_UNREGISTERED :: u16 where
  [cec_const]: "CEC_LOG_ADDR_MASK_UNREGISTERED =
     push_bit CEC_LOG_ADDR_UNREGISTERED 1"

definition cec_has_tv :: "u16 \<Rightarrow> c_int" where
  "cec_has_tv log_addr_mask = ucast (log_addr_mask AND CEC_LOG_ADDR_MASK_TV)"

definition cec_has_record :: "u16 \<Rightarrow> c_int" where
  "cec_has_record log_addr_mask = ucast (log_addr_mask AND CEC_LOG_ADDR_MASK_RECORD)"

definition cec_has_tuner :: "u16 \<Rightarrow> c_int" where
  "cec_has_tuner log_addr_mask = ucast (log_addr_mask AND CEC_LOG_ADDR_MASK_TUNER)"

definition cec_has_playback :: "u16 \<Rightarrow> c_int" where
  "cec_has_playback log_addr_mask = ucast (log_addr_mask AND CEC_LOG_ADDR_MASK_PLAYBACK)"

definition cec_has_audiosystem :: "u16 \<Rightarrow> c_int" where
  "cec_has_audiosystem log_addr_mask = ucast (log_addr_mask AND CEC_LOG_ADDR_MASK_AUDIOSYSTEM)"

definition cec_has_backup :: "u16 \<Rightarrow> c_int" where
  "cec_has_backup log_addr_mask = ucast (log_addr_mask AND CEC_LOG_ADDR_MASK_BACKUP)"

definition cec_has_specific :: "u16 \<Rightarrow> c_int" where
  "cec_has_specific log_addr_mask = ucast (log_addr_mask AND CEC_LOG_ADDR_MASK_SPECIFIC)"

definition cec_is_unregistered :: "u16 \<Rightarrow> c_int" where
  "cec_is_unregistered log_addr_mask = ucast (log_addr_mask AND CEC_LOG_ADDR_MASK_UNREGISTERED)"

definition cec_is_unconfigured :: "u16 \<Rightarrow> bool" where
  "cec_is_unconfigured log_addr_mask \<longleftrightarrow> log_addr_mask = 0"

section \<open>Opcodes and operands\<close>

definition CEC_PHYS_ADDR_INVALID :: u16 where
  [cec_const]: "CEC_PHYS_ADDR_INVALID = 0xFFFF"

definition CEC_MSG_ACTIVE_SOURCE :: u8 where
  [cec_const]: "CEC_MSG_ACTIVE_SOURCE = 0x82"

definition CEC_MSG_IMAGE_VIEW_ON :: u8 where
  [cec_const]: "CEC_MSG_IMAGE_VIEW_ON = 0x4"

definition CEC_MSG_TEXT_VIEW_ON :: u8 where
  [cec_const]: "CEC_MSG_TEXT_VIEW_ON = 0xD"

definition CEC_MSG_INACTIVE_SOURCE :: u8 where
  [cec_const]: "CEC_MSG_INACTIVE_SOURCE = 0x9D"

definition CEC_MSG_REQUEST_ACTIVE_SOURCE :: u8 where
  [cec_const]: "CEC_MSG_REQUEST_ACTIVE_SOURCE = 0x85"

definition CEC_MSG_ROUTING_CHANGE :: u8 where
  [cec_const]: "CEC_MSG_ROUTING_CHANGE = 0x80"

definition CEC_MSG_ROUTING_INFORMATION :: u8 where
  [cec_const]: "CEC_MSG_ROUTING_INFORMATION = 0x81"

definition CEC_MSG_SET_STREAM_PATH :: u8 where
  [cec_const]: "CEC_MSG_SET_STREAM_PATH = 0x86"

definition CEC_MSG_STANDBY :: u8 where
  [cec_const]: "CEC_MSG_STANDBY = 0x36"

definition CEC_MSG_RECORD_OFF :: u8 where
  [cec_const]: "CEC_MSG_RECORD_OFF = 0xB"

definition CEC_MSG_RECORD_ON :: u8 where
  [cec_const]: "CEC_MSG_RECORD_ON = 0x9"

definition CEC_OP_RECORD_SRC_OWN :: u8 where
  [cec_const]: "CEC_OP_RECORD_SRC_OWN = 1"

definition CEC_OP_RECORD_SRC_DIGITAL :: u8 where
  [cec_const]: "CEC_OP_RECORD_SRC_DIGITAL = 2"

definition CEC_OP_RECORD_SRC_ANALOG :: u8 where
  [cec_const]: "CEC_OP_RECORD_SRC_ANALOG = 3"

definition CEC_OP_RECORD_SRC_EXT_PLUG :: u8 where
  [cec_const]: "CEC_OP_RECORD_SRC_EXT_PLUG = 4"

definition CEC_OP_RECORD_SRC_EXT_PHYS_ADDR :: u8 where
  [cec_const]: "CEC_OP_RECORD_SRC_EXT_PHYS_ADDR = 5"

definition CEC_OP_SERVICE_ID_METHOD_BY_CHANNEL :: u8 where
  [cec_const]: "CEC_OP_SERVICE_ID_METHOD_BY_CHANNEL = 1"

definition CEC_OP_DIG_SERVICE_BCAST_SYSTEM_ATSC_GEN :: u8 where
  [cec_const]: "CEC_OP_DIG_SERVICE_BCAST_SYSTEM_ATSC_GEN = 0x1"

definition CEC_OP_DIG_SERVICE_BCAST_SYSTEM_ATSC_CABLE :: u8 where
  [cec_const]: "CEC_OP_DIG_SERVICE_BCAST_SYSTEM_ATSC_CABLE = 0x10"

definition CEC_OP_DIG_SERVICE_BCAST_SYSTEM_ATSC_SAT :: u8 where
  [cec_const]: "CEC_OP_DIG_SERVICE_BCAST_SYSTEM_ATSC_SAT = 0x11"

definition CEC_OP_DIG_SERVICE_BCAST_SYSTEM_ATSC_T :: u8 where
  [cec_const]: "CEC_OP_DIG_SERVICE_BCAST_SYSTEM_ATSC_T = 0x12"

definition CEC_MSG_RECORD_STATUS :: u8 where
  [cec_const]: "CEC_MSG_RECORD_STATUS = 0xA"

definition CEC_MSG_RECORD_TV_SCREEN :: u8 where
  [cec_const]: "CEC_MSG_RECORD_TV_SCREEN = 0xF"

definition CEC_MSG_CLEAR_ANALOGUE_TIMER :: u8 where
  [cec_const]: "CEC_MSG_CLEAR_ANALOGUE_TIMER = 0x33"

definition CEC_MSG_CLEAR_DIGITAL_TIMER :: u8 where
  [cec_const]: "CEC_MSG_CLEAR_DIGITAL_TIMER = 0x99"

definition CEC_MSG_CLEAR_EXT_TIMER :: u8 where
  [cec_const]: "CEC_MSG_CLEAR_EXT_TIMER = 0xA1"

definition CEC_MSG_SET_ANALOGUE_TIMER :: u8 where
  [cec_const]: "CEC_MSG_SET_ANALOGUE_TIMER = 0x34"

definition CEC_MSG_SET_DIGITAL_TIMER :: u8 where
  [cec_const]: "CEC_MSG_SET_DIGITAL_TIMER = 0x97"

definition CEC_MSG_SET_EXT_TIMER :: u8 where
  [cec_const]: "CEC_MSG_SET_EXT_TIMER = 0xA2"

definition CEC_MSG_SET_TIMER_PROGRAM_TITLE :: u8 where
  [cec_const]: "CEC_MSG_SET_TIMER_PROGRAM_TITLE = 0x67"

definition CEC_MSG_TIMER_CLEARED_STATUS :: u8 where
  [cec_const]: "CEC_MSG_TIMER_CLEARED_STATUS = 0x43"

definition CEC_MSG_TIMER_STATUS :: u8 where
  [cec_const]: "CEC_MSG_TIMER_STATUS = 0x35"

definition CEC_OP_PROG_INFO_NOT_ENOUGH_SPACE :: u8 where
  [cec_const]: "CEC_OP_PROG_INFO_NOT_ENOUGH_SPACE = 0x9"

definition CEC_OP_PROG_INFO_MIGHT_NOT_BE_ENOUGH_SPACE :: u8 where
  [cec_const]: "CEC_OP_PROG_INFO_MIGHT_NOT_BE_ENOUGH_SPACE = 0xB"

definition CEC_OP_PROG_ERROR_DUPLICATE :: u8 where
  [cec_const]: "CEC_OP_PROG_ERROR_DUPLICATE = 0xE"

definition CEC_MSG_CEC_VERSION :: u8 where
  [cec_const]: "CEC_MSG_CEC_VERSION = 0x9E"

definition CEC_MSG_GET_CEC_VERSION :: u8 where
  [cec_const]: "CEC_MSG_GET_CEC_VERSION = 0x9F"

definition CEC_MSG_GIVE_PHYSICAL_ADDR :: u8 where
  [cec_const]: "CEC_MSG_GIVE_PHYSICAL_ADDR = 0x83"

definition CEC_MSG_GET_MENU_LANGUAGE :: u8 where
  [cec_const]: "CEC_MSG_GET_MENU_LANGUAGE = 0x91"

definition CEC_MSG_REPORT_PHYSICAL_ADDR :: u8 where
  [cec_const]: "CEC_MSG_REPORT_PHYSICAL_ADDR = 0x84"

definition CEC_MSG_SET_MENU_LANGUAGE :: u8 where
  [cec_const]: "CEC_MSG_SET_MENU_LANGUAGE = 0x32"

definition CEC_MSG_REPORT_FEATURES :: u8 where
  [cec_const]: "CEC_MSG_REPORT_FEATURES = 0xA6"

definition CEC_OP_FEAT_EXT :: u8 where
  [cec_const]: "CEC_OP_FEAT_EXT = 0x80"

definition CEC_MSG_GIVE_FEATURES :: u8 where
  [cec_const]: "CEC_MSG_GIVE_FEATURES = 0xA5"

definition CEC_MSG_DECK_CONTROL :: u8 where
  [cec_const]: "CEC_MSG_DECK_CONTROL = 0x42"

definition CEC_MSG_DECK_STATUS :: u8 where
  [cec_const]: "CEC_MSG_DECK_STATUS = 0x1B"

definition CEC_MSG_GIVE_DECK_STATUS :: u8 where
  [cec_const]: "CEC_MSG_GIVE_DECK_STATUS = 0x1A"

definition CEC_OP_STATUS_REQ_OFF :: u8 where
  [cec_const]: "CEC_OP_STATUS_REQ_OFF = 2"

definition CEC_MSG_PLAY :: u8 where
  [cec_const]: "CEC_MSG_PLAY = 0x41"

definition CEC_MSG_GIVE_TUNER_DEVICE_STATUS :: u8 where
  [cec_const]: "CEC_MSG_GIVE_TUNER_DEVICE_STATUS = 0x8"

definition CEC_MSG_SELECT_ANALOGUE_SERVICE :: u8 where
  [cec_const]: "CEC_MSG_SELECT_ANALOGUE_SERVICE = 0x92"

definition CEC_MSG_SELECT_DIGITAL_SERVICE :: u8 where
  [cec_const]: "CEC_MSG_SELECT_DIGITAL_SERVICE = 0x93"

definition CEC_MSG_TUNER_DEVICE_STATUS :: u8 where
  [cec_const]: "CEC_MSG_TUNER_DEVICE_STATUS = 0x7"

definition CEC_MSG_TUNER_STEP_DECREMENT :: u8 where
  [cec_const]: "CEC_MSG_TUNER_STEP_DECREMENT = 0x6"

definition CEC_MSG_TUNER_STEP_INCREMENT :: u8 where
  [cec_const]: "CEC_MSG_TUNER_STEP_INCREMENT = 0x5"

definition CEC_MSG_DEVICE_VENDOR_ID :: u8 where
  [cec_const]: "CEC_MSG_DEVICE_VENDOR_ID = 0x87"

definition CEC_MSG_GIVE_DEVICE_VENDOR_ID :: u8 where
  [cec_const]: "CEC_MSG_GIVE_DEVICE_VENDOR_ID = 0x8C"

definition CEC_MSG_VENDOR_COMMAND :: u8 where
  [cec_const]: "CEC_MSG_VENDOR_COMMAND = 0x89"

definition CEC_MSG_VENDOR_COMMAND_WITH_ID :: u8 where
  [cec_const]: "CEC_MSG_VENDOR_COMMAND_WITH_ID = 0xA0"

definition CEC_MSG_VENDOR_REMOTE_BUTTON_DOWN :: u8 where
  [cec_const]: "CEC_MSG_VENDOR_REMOTE_BUTTON_DOWN = 0x8A"

definition CEC_MSG_VENDOR_REMOTE_BUTTON_UP :: u8 where
  [cec_const]: "CEC_MSG_VENDOR_REMOTE_BUTTON_UP = 0x8B"

definition CEC_MSG_SET_OSD_STRING :: u8 where
  [cec_const]: "CEC_MSG_SET_OSD_STRING = 0x64"

definition CEC_MSG_GIVE_OSD_NAME :: u8 where
  [cec_const]: "CEC_MSG_GIVE_OSD_NAME = 0x46"

definition CEC_MSG_SET_OSD_NAME :: u8 where
  [cec_const]: "CEC_MSG_SET_OSD_NAME = 0x47"

definition CEC_MSG_MENU_REQUEST :: u8 where
  [cec_const]: "CEC_MSG_MENU_REQUEST = 0x8D"

definition CEC_MSG_MENU_STATUS :: u8 where
  [cec_const]: "CEC_MSG_MENU_STATUS = 0x8E"

definition CEC_MSG_USER_CONTROL_PRESSED :: u8 where
  [cec_const]: "CEC_MSG_USER_CONTROL_PRESSED = 0x44"

definition CEC_OP_UI_CMD_SELECT_BROADCAST_TYPE :: u8 where
  [cec_const]: "CEC_OP_UI_CMD_SELECT_BROADCAST_TYPE = 0x56"

definition CEC_OP_UI_CMD_SELECT_SOUND_PRESENTATION :: u8 where
  [cec_const]: "CEC_OP_UI_CMD_SELECT_SOUND_PRESENTATION = 0x57"

definition CEC_OP_UI_CMD_PLAY_FUNCTION :: u8 where
  [cec_const]: "CEC_OP_UI_CMD_PLAY_FUNCTION = 0x60"

definition CEC_OP_UI_CMD_TUNE_FUNCTION :: u8 where
  [cec_const]: "CEC_OP_UI_CMD_TUNE_FUNCTION = 0x67"

definition CEC_OP_UI_CMD_SELECT_MEDIA_FUNCTION :: u8 where
  [cec_const]: "CEC_OP_UI_CMD_SELECT_MEDIA_FUNCTION = 0x68"

definition CEC_OP_UI_CMD_SELECT_AV_INPUT_FUNCTION :: u8 where
  [cec_const]: "CEC_OP_UI_CMD_SELECT_AV_INPUT_FUNCTION = 0x69"

definition CEC_OP_UI_CMD_SELECT_AUDIO_INPUT_FUNCTION :: u8 where
  [cec_const]: "CEC_OP_UI_CMD_SELECT_AUDIO_INPUT_FUNCTION = 0x6A"

definition CEC_MSG_USER_CONTROL_RELEASED :: u8 where
  [cec_const]: "CEC_MSG_USER_CONTROL_RELEASED = 0x45"

definition CEC_MSG_GIVE_DEVICE_POWER_STATUS :: u8 where
  [cec_const]: "CEC_MSG_GIVE_DEVICE_POWER_STATUS = 0x8F"

definition CEC_MSG_REPORT_POWER_STATUS :: u8 where
  [cec_const]: "CEC_MSG_REPORT_POWER_STATUS = 0x90"

definition CEC_MSG_FEATURE_ABORT :: u8 where
  [cec_const]: "CEC_MSG_FEATURE_ABORT = 0"

definition CEC_MSG_ABORT :: u8 where
  [cec_const]: "CEC_MSG_ABORT = 0xFF"

definition CEC_MSG_GIVE_AUDIO_STATUS :: u8 where
  [cec_const]: "CEC_MSG_GIVE_AUDIO_STATUS = 0x71"

definition CEC_MSG_GIVE_SYSTEM_AUDIO_MODE_STATUS :: u8 where
  [cec_const]: "CEC_MSG_GIVE_SYSTEM_AUDIO_MODE_STATUS = 0x7D"

definition CEC_MSG_REPORT_AUDIO_STATUS :: u8 where
  [cec_const]: "CEC_MSG_REPORT_AUDIO_STATUS = 0x7A"

definition CEC_MSG_REPORT_SHORT_AUDIO_DESCRIPTOR :: u8 where
  [cec_const]: "CEC_MSG_REPORT_SHORT_AUDIO_DESCRIPTOR = 0xA3"

definition CEC_MSG_REQUEST_SHORT_AUDIO_DESCRIPTOR :: u8 where
  [cec_const]: "CEC_MSG_REQUEST_SHORT_AUDIO_DESCRIPTOR = 0xA4"

definition CEC_MSG_SET_SYSTEM_AUDIO_MODE :: u8 where
  [cec_const]: "CEC_MSG_SET_SYSTEM_AUDIO_MODE = 0x72"

definition CEC_MSG_SYSTEM_AUDIO_MODE_REQUEST :: u8 where
  [cec_const]: "CEC_MSG_SYSTEM_AUDIO_MODE_REQUEST = 0x70"

definition CEC_MSG_SYSTEM_AUDIO_MODE_STATUS :: u8 where
  [cec_const]: "CEC_MSG_SYSTEM_AUDIO_MODE_STATUS = 0x7E"

definition CEC_MSG_SET_AUDIO_RATE :: u8 where
  [cec_const]: "CEC_MSG_SET_AUDIO_RATE = 0x9A"

definition CEC_MSG_INITIATE_ARC :: u8 where
  [cec_const]: "CEC_MSG_INITIATE_ARC = 0xC0"

definition CEC_MSG_REPORT_ARC_INITIATED :: u8 where
  [cec_const]: "CEC_MSG_REPORT_ARC_INITIATED = 0xC1"

definition CEC_MSG_REPORT_ARC_TERMINATED :: u8 where
  [cec_const]: "CEC_MSG_REPORT_ARC_TERMINATED = 0xC2"

definition CEC_MSG_REQUEST_ARC_INITIATION :: u8 where
  [cec_const]: "CEC_MSG_REQUEST_ARC_INITIATION = 0xC3"

definition CEC_MSG_REQUEST_ARC_TERMINATION :: u8 where
  [cec_const]: "CEC_MSG_REQUEST_ARC_TERMINATION = 0xC4"

definition CEC_MSG_TERMINATE_ARC :: u8 where
  [cec_const]: "CEC_MSG_TERMINATE_ARC = 0xC5"

definition CEC_MSG_REQUEST_CURRENT_LATENCY :: u8 where
  [cec_const]: "CEC_MSG_REQUEST_CURRENT_LATENCY = 0xA7"

definition CEC_MSG_REPORT_CURRENT_LATENCY :: u8 where
  [cec_const]: "CEC_MSG_REPORT_CURRENT_LATENCY = 0xA8"

definition CEC_MSG_CDC_MESSAGE :: u8 where
  [cec_const]: "CEC_MSG_CDC_MESSAGE = 0xF8"

definition CEC_MSG_CDC_HEC_INQUIRE_STATE :: u8 where
  [cec_const]: "CEC_MSG_CDC_HEC_INQUIRE_STATE = 0"

definition CEC_MSG_CDC_HEC_REPORT_STATE :: u8 where
  [cec_const]: "CEC_MSG_CDC_HEC_REPORT_STATE = 0x1"

definition CEC_MSG_CDC_HEC_SET_STATE_ADJACENT :: u8 where
  [cec_const]: "CEC_MSG_CDC_HEC_SET_STATE_ADJACENT = 0x2"

definition CEC_MSG_CDC_HEC_SET_STATE :: u8 where
  [cec_const]: "CEC_MSG_CDC_HEC_SET_STATE = 0x3"

definition CEC_MSG_CDC_HEC_REQUEST_DEACTIVATION :: u8 where
  [cec_const]: "CEC_MSG_CDC_HEC_REQUEST_DEACTIVATION = 0x4"

definition CEC_MSG_CDC_HEC_NOTIFY_ALIVE :: u8 where
  [cec_const]: "CEC_MSG_CDC_HEC_NOTIFY_ALIVE = 0x5"

definition CEC_MSG_CDC_HEC_DISCOVER :: u8 where
  [cec_const]: "CEC_MSG_CDC_HEC_DISCOVER = 0x6"

definition CEC_MSG_CDC_HPD_SET_STATE :: u8 where
  [cec_const]: "CEC_MSG_CDC_HPD_SET_STATE = 0x10"

definition CEC_MSG_CDC_HPD_REPORT_STATE :: u8 where
  [cec_const]: "CEC_MSG_CDC_HPD_REPORT_STATE = 0x11"

section \<open>Field writers\<close>

text \<open>
  An encoder is a sequence of assignments to the message.  Each writer below is
  one assignment; \<open>stmts\<close> runs them in the order of the source.
\<close>

definition set_len :: "u32 \<Rightarrow> cec_msg \<Rightarrow> cec_msg" where
  "set_len n m = m\<lparr>m_len := n\<rparr>"

definition put :: "nat \<Rightarrow> u8 \<Rightarrow> cec_msg \<Rightarrow> cec_msg" where
  "put i b m = m\<lparr>m_msg := store (m_msg m) i b\<rparr>"

definition set_broadcast :: "cec_msg \<Rightarrow> cec_msg" where
  "set_broadcast m = put 0 (byte m 0 OR 0xF) m"

definition set_reply :: "c_int \<Rightarrow> u8 \<Rightarrow> cec_msg \<Rightarrow> cec_msg" where
  "set_reply reply op m = m\<lparr>m_reply := (if reply \<noteq> 0 then op else 0)\<rparr>"

definition put_bytes :: "nat \<Rightarrow> u8 list \<Rightarrow> cec_msg \<Rightarrow> cec_msg" where
  "put_bytes off src m = m\<lparr>m_msg := memcpy_at (m_msg m) off src\<rparr>"

definition push_byte :: "u8 \<Rightarrow> cec_msg \<Rightarrow> cec_msg" where
  "push_byte b m = set_len (m_len m + 1) (put (unat (m_len m)) b m)"

text \<open>The members no encoder of \<open>cec-funcs.h\<close> writes.\<close>

definition cec_meta :: "cec_msg \<Rightarrow> cec_msg" where
  "cec_meta m = m\<lparr>m_len := 0, m_msg := [], m_reply := 0\<rparr>"

section \<open>The algebra of the field writers\<close>

lemma wf_set_len [simp]: "cec_wf (set_len n m) = cec_wf m"
  by (simp add: cec_wf_def set_len_def)

lemma wf_set_reply [simp]: "cec_wf (set_reply r op m) = cec_wf m"
  by (simp add: cec_wf_def set_reply_def)

lemma wf_put [simp]: "i < 16 \<Longrightarrow> cec_wf m \<Longrightarrow> cec_wf (put i b m)"
  by (simp add: cec_wf_def put_def cec_const)

lemma wf_set_broadcast [simp]: "cec_wf m \<Longrightarrow> cec_wf (set_broadcast m)"
  by (simp add: set_broadcast_def)

lemma wf_put_bytes [simp]: "off + length src \<le> 16 \<Longrightarrow> cec_wf m \<Longrightarrow> cec_wf (put_bytes off src m)"
  by (simp add: cec_wf_def put_bytes_def cec_const)

lemma wf_push_byte [simp]: "m_len m < 16 \<Longrightarrow> cec_wf m \<Longrightarrow> cec_wf (push_byte b m)"
  by (simp add: push_byte_def word_less_nat_alt)

lemma wf_init [simp]: "cec_wf (cec_msg_init i d)"
  by (simp add: cec_wf_def cec_msg_init_def cec_const)

lemma wf_set_reply_to [simp]: "cec_wf m \<Longrightarrow> cec_wf (cec_msg_set_reply_to orig m)"
  by (simp add: cec_wf_def cec_msg_set_reply_to_def cec_const)

lemma len_writers [simp]:
  "m_len (set_len n m) = n"
  "m_len (put i b m) = m_len m"
  "m_len (set_broadcast m) = m_len m"
  "m_len (set_reply r op m) = m_len m"
  "m_len (put_bytes off src m) = m_len m"
  "m_len (push_byte b m) = m_len m + 1"
  by (simp_all add: set_len_def put_def set_broadcast_def set_reply_def put_bytes_def push_byte_def)

lemma reply_writers [simp]:
  "m_reply (set_len n m) = m_reply m"
  "m_reply (put i b m) = m_reply m"
  "m_reply (set_broadcast m) = m_reply m"
  "m_reply (set_reply r op m) = (if r \<noteq> 0 then op else 0)"
  "m_reply (put_bytes off src m) = m_reply m"
  "m_reply (push_byte b m) = m_reply m"
  by (simp_all add: set_len_def put_def set_broadcast_def set_reply_def put_bytes_def push_byte_def)

lemma meta_writers [simp]:
  "cec_meta (set_len n m) = cec_meta m"
  "cec_meta (put i b m) = cec_meta m"
  "cec_meta (set_broadcast m) = cec_meta m"
  "cec_meta (set_reply r op m) = cec_meta m"
  "cec_meta (put_bytes off src m) = cec_meta m"
  "cec_meta (push_byte b m) = cec_meta m"
  by (simp_all add: cec_meta_def set_len_def put_def set_broadcast_def set_reply_def
      put_bytes_def push_byte_def)

lemma byte_set_len [simp]: "byte (set_len n m) j = byte m j"
  by (simp add: byte_def set_len_def)

lemma byte_set_reply [simp]: "byte (set_reply r op m) j = byte m j"
  by (simp add: byte_def set_reply_def)

lemma byte_put [simp]:
  "i < 16 \<Longrightarrow> cec_wf m \<Longrightarrow> byte (put i b m) j = (if i = j then b else byte m j)"
  by (simp add: byte_def put_def cec_wf_def nth_store cec_const)

lemma byte_set_broadcast [simp]:
  "cec_wf m \<Longrightarrow> byte (set_broadcast m) j = (if j = 0 then byte m 0 OR 0xF else byte m j)"
  by (simp add: set_broadcast_def)

lemma byte_put_bytes [simp]:
  "off + length src \<le> 16 \<Longrightarrow> cec_wf m \<Longrightarrow> j < 16 \<Longrightarrow>
   byte (put_bytes off src m) j =
     (if off \<le> j \<and> j < off + length src then src ! (j - off) else byte m j)"
  by (simp add: byte_def put_bytes_def cec_wf_def nth_memcpy_at cec_const)

lemma byte_push_byte [simp]:
  "m_len m < 16 \<Longrightarrow> cec_wf m \<Longrightarrow>
   byte (push_byte b m) j = (if j = unat (m_len m) then b else byte m j)"
  by (simp add: push_byte_def word_less_nat_alt)

lemma payload_put_bytes:
  "off + length src \<le> 16 \<Longrightarrow> cec_wf m \<Longrightarrow> n = length src \<Longrightarrow>
   take n (drop off (m_msg (put_bytes off src m))) = src"
  by (simp add: put_bytes_def cec_wf_def cec_const)

lemma msg_writers [simp]:
  "m_msg (set_len n m) = m_msg m"
  "m_msg (set_reply r op m) = m_msg m"
  by (simp_all add: set_len_def set_reply_def)

lemma length_m_msg [simp]: "cec_wf m \<Longrightarrow> length (m_msg m) = 16"
  by (simp add: cec_wf_def cec_const)

section \<open>String operands\<close>

text \<open>
  \<open>unsigned int len = strlen(s); if (len > k) len = k;\<close> and the length computation
  of the decoders.
\<close>

lemma clamp_u32:
  assumes "n < 2 ^ 32"
  shows "(if (word_of_nat n :: u32) > k then k else word_of_nat n) = word_of_nat (min (unat k) n)"
proof -
  have "unat (word_of_nat n :: u32) = n"
    using assms by (simp add: unat_of_nat)
  then have "(word_of_nat n :: u32) > k \<longleftrightarrow> n > unat k"
    by (simp only: word_less_nat_alt)
  then show ?thesis by (simp add: min_def)
qed

lemma clamp_le: "unat (if (x :: 'a::len word) > k then k else x) \<le> unat k"
  by (simp add: word_less_nat_alt)

lemma unat_len [simp]: "n \<le> 16 \<Longrightarrow> unat (word_of_nat n :: u32) = n"
  by (simp add: unat_of_nat)

lemma len_minus:
  "n \<le> 16 \<Longrightarrow> (if (2 + word_of_nat n :: u32) > 2 then 2 + word_of_nat n - 2 else 0) = word_of_nat n"
  "n \<le> 16 \<Longrightarrow> (if (3 + word_of_nat n :: u32) > 3 then 3 + word_of_nat n - 3 else 0) = word_of_nat n"
  by (simp_all add: word_less_nat_alt unat_word_ariths)

lemma take_c_string:
  fixes k :: nat
  shows "take (min k (strlen s)) s = take k (c_string s)"
    and "length (take k (c_string s)) = min k (strlen s)"
    and "0 \<notin> set (take k (c_string s))"
  by (auto simp: take_min_strlen strlen_c_string min_def dest: in_set_takeD)

section \<open>The codec contract\<close>

text \<open>
  What the header functions say of every encoded message: it has the length \<open>n\<close>, fits the 16 byte array,
  carries the opcode, keeps the initiator, goes to the destination of the caller's message or to everyone,
  announces the reply \<open>r\<close> and leaves the bookkeeping fields of the caller alone.  A store outside the array
  would lose \<open>cec_wf\<close>.
\<close>

definition cec_framed :: "u8 \<Rightarrow> bool \<Rightarrow> nat \<Rightarrow> u8 \<Rightarrow> cec_msg \<Rightarrow> cec_msg \<Rightarrow> bool" where
  "cec_framed opc bc n r m m' \<longleftrightarrow>
     cec_wf m' \<and> 2 \<le> n \<and> n \<le> 16 \<and> m_len m' = word_of_nat n \<and>
     cec_msg_opcode m' = uint opc \<and>
     cec_msg_initiator m' = cec_msg_initiator m \<and>
     (if bc then cec_msg_is_broadcast m' else cec_msg_destination m' = cec_msg_destination m) \<and>
     m_reply m' = r \<and>
     cec_meta m' = cec_meta m"

text \<open>The reply a request waits for, when the caller asks for one.\<close>

definition expected :: "c_int \<Rightarrow> u8 \<Rightarrow> u8" where
  "expected reply op = (if reply \<noteq> 0 then op else 0)"

lemma cec_framedI:
  assumes "cec_wf m'" and "m_len m' = word_of_nat n" and "2 \<le> n" and "n \<le> 16"
    and "byte m' (Suc 0) = opc" and "byte m' 0 = (if bc then byte m 0 OR 0xF else byte m 0)"
    and "m_reply m' = r" and "cec_meta m' = cec_meta m"
  shows "cec_framed opc bc n r m m'"
proof -
  have "unat (m_len m') = n"
    using assms(2,4) by simp
  then have "cec_msg_opcode m' = uint opc"
    using assms(3,5) by (simp add: cec_msg_opcode_def word_less_nat_alt)
  moreover have "drop_bit 4 (b OR 0xF) = drop_bit 4 b" for b :: u8
    by simp
  then have "cec_msg_initiator m' = cec_msg_initiator m"
    by (simp add: cec_msg_initiator_def assms(6))
  ultimately show ?thesis
    using assms by (simp add: cec_framed_def cec_msg_is_broadcast_def cec_msg_destination_def)
qed

text \<open>
  What a client of an encoder/decoder pair relies on.  \<open>p\<close> is the tuple of the
  operands, \<open>ok\<close> the operand values the wire format can carry, \<open>op\<close> the opcode and
  \<open>bc\<close> tells whether the message is broadcast.
\<close>

locale cec_codec =
  fixes enc :: "'p \<Rightarrow> cec_msg \<Rightarrow> cec_msg"
    and dec :: "cec_msg \<Rightarrow> 'p"
    and ok :: "'p \<Rightarrow> bool"
    and opc :: u8
    and bc :: bool
  assumes enc_wf: "cec_wf m \<Longrightarrow> cec_wf (enc p m)"
    and enc_len: "cec_wf m \<Longrightarrow> ok p \<Longrightarrow> 2 \<le> m_len (enc p m) \<and> m_len (enc p m) \<le> 16"
    and enc_op: "cec_wf m \<Longrightarrow> ok p \<Longrightarrow> byte (enc p m) 1 = opc"
    and enc_hdr: "cec_wf m \<Longrightarrow> byte (enc p m) 0 = (if bc then byte m 0 OR 0xF else byte m 0)"
    and enc_meta: "cec_meta (enc p m) = cec_meta m"
    and dec_enc: "cec_wf m \<Longrightarrow> ok p \<Longrightarrow> dec (enc p m) = p"
begin

lemma inj: "cec_wf m \<Longrightarrow> cec_wf m' \<Longrightarrow> ok p \<Longrightarrow> ok q \<Longrightarrow> enc p m = enc q m' \<Longrightarrow> p = q"
  using dec_enc by metis

lemma overwrite: "cec_wf m \<Longrightarrow> ok p \<Longrightarrow> dec (enc p (enc q m)) = p"
  by (simp add: enc_wf dec_enc)

end

end
