(* ===== verification/Cec_Control.thy ===== *)
theory Cec_Control
  imports Cec_Base
begin

text \<open>
  The encoders \<open>cec_msg_*\<close> and decoders \<open>cec_ops_*\<close> of \<open>uapi/linux/cec-funcs.h\<close>
  for One Touch Play, Routing Control, Standby, One Touch Record and Timer
  Programming, and an interpretation of \<open>cec_codec\<close> for every pair of them.
\<close>

unbundle bit_operations_syntax

named_theorems dig_views \<open>the members of the digital service union as views of its storage\<close>

section \<open>One Touch Play Feature\<close>

definition cec_msg_active_source :: "u16 \<Rightarrow> cec_msg \<Rightarrow> cec_msg" where
  [cec_defs]: "cec_msg_active_source phys_addr =
     stmts [set_len 4,
            set_broadcast,
            put 1 CEC_MSG_ACTIVE_SOURCE,
            put 2 (hi8 phys_addr),
            put 3 (lo8 phys_addr)]"

definition cec_ops_active_source :: "cec_msg \<Rightarrow> u16" where
  [cec_defs]: "cec_ops_active_source m = be16 (byte m 2) (byte m 3)"

definition cec_msg_image_view_on :: "cec_msg \<Rightarrow> cec_msg" where
  [cec_defs]: "cec_msg_image_view_on =
     stmts [set_len 2,
            put 1 CEC_MSG_IMAGE_VIEW_ON]"

definition cec_msg_text_view_on :: "cec_msg \<Rightarrow> cec_msg" where
  [cec_defs]: "cec_msg_text_view_on =
     stmts [set_len 2,
            put 1 CEC_MSG_TEXT_VIEW_ON]"

section \<open>Routing Control Feature\<close>

definition cec_msg_inactive_source :: "u16 \<Rightarrow> cec_msg \<Rightarrow> cec_msg" where
  [cec_defs]: "cec_msg_inactive_source phys_addr =
     stmts [set_len 4,
            put 1 CEC_MSG_INACTIVE_SOURCE,
            put 2 (hi8 phys_addr),
            put 3 (lo8 phys_addr)]"

definition cec_ops_inactive_source :: "cec_msg \<Rightarrow> u16" where
  [cec_defs]: "cec_ops_inactive_source m = be16 (byte m 2) (byte m 3)"

definition cec_msg_request_active_source :: "c_int \<Rightarrow> cec_msg \<Rightarrow> cec_msg" where
  [cec_defs]: "cec_msg_request_active_source reply =
     stmts [set_len 2,
            set_broadcast,
            put 1 CEC_MSG_REQUEST_ACTIVE_SOURCE,
            set_reply reply CEC_MSG_ACTIVE_SOURCE]"

definition cec_msg_routing_information :: "u16 \<Rightarrow> cec_msg \<Rightarrow> cec_msg" where
  [cec_defs]: "cec_msg_routing_information phys_addr =
     stmts [set_len 4,
            set_broadcast,
            put 1 CEC_MSG_ROUTING_INFORMATION,
            put 2 (hi8 phys_addr),
            put 3 (lo8 phys_addr)]"

definition cec_ops_routing_information :: "cec_msg \<Rightarrow> u16" where
  [cec_defs]: "cec_ops_routing_information m = be16 (byte m 2) (byte m 3)"

definition cec_msg_routing_change :: "c_int \<Rightarrow> u16 \<Rightarrow> u16 \<Rightarrow> cec_msg \<Rightarrow> cec_msg" where
  [cec_defs]: "cec_msg_routing_change reply orig_phys_addr new_phys_addr =
     stmts [set_len 6,
            set_broadcast,
            put 1 CEC_MSG_ROUTING_CHANGE,
            put 2 (hi8 orig_phys_addr),
            put 3 (lo8 orig_phys_addr),
            put 4 (hi8 new_phys_addr),
            put 5 (lo8 new_phys_addr),
            set_reply reply CEC_MSG_ROUTING_INFORMATION]"

definition cec_ops_routing_change :: "cec_msg \<Rightarrow> u16 \<times> u16" where
  [cec_defs]: "cec_ops_routing_change m =
     (be16 (byte m 2) (byte m 3),
      be16 (byte m 4) (byte m 5))"

definition cec_msg_set_stream_path :: "u16 \<Rightarrow> cec_msg \<Rightarrow> cec_msg" where
  [cec_defs]: "cec_msg_set_stream_path phys_addr =
     stmts [set_len 4,
            set_broadcast,
            put 1 CEC_MSG_SET_STREAM_PATH,
            put 2 (hi8 phys_addr),
            put 3 (lo8 phys_addr)]"

definition cec_ops_set_stream_path :: "cec_msg \<Rightarrow> u16" where
  [cec_defs]: "cec_ops_set_stream_path m = be16 (byte m 2) (byte m 3)"

section \<open>Standby Feature\<close>

definition cec_msg_standby :: "cec_msg \<Rightarrow> cec_msg" where
  [cec_defs]: "cec_msg_standby =
     stmts [set_len 2,
            put 1 CEC_MSG_STANDBY]"

section \<open>One Touch Record Feature\<close>

definition cec_msg_record_off :: "c_int \<Rightarrow> cec_msg \<Rightarrow> cec_msg" where
  [cec_defs]: "cec_msg_record_off reply =
     stmts [set_len 2,
            put 1 CEC_MSG_RECORD_OFF,
            set_reply reply CEC_MSG_RECORD_STATUS]"

text \<open>
  The union of the four service descriptions is six bytes that all members
  share, kept as three 16 bit units; the members are views of them.
  \<open>channel_number_fmt\<close> is the byte at offset 0, on the little-endian layout.
\<close>

record cec_op_digital_service_id =
  service_id_method :: u8
  dig_bcast_system :: u8
  dig_w0 :: u16
  dig_w1 :: u16
  dig_w2 :: u16

definition atsc_transport_id :: "cec_op_digital_service_id \<Rightarrow> u16" where
  [dig_views]: "atsc_transport_id d = dig_w0 d"

definition atsc_program_number :: "cec_op_digital_service_id \<Rightarrow> u16" where
  [dig_views]: "atsc_program_number d = dig_w1 d"

definition dvb_transport_id :: "cec_op_digital_service_id \<Rightarrow> u16" where
  [dig_views]: "dvb_transport_id d = dig_w0 d"

definition dvb_service_id :: "cec_op_digital_service_id \<Rightarrow> u16" where
  [dig_views]: "dvb_service_id d = dig_w1 d"

definition dvb_orig_network_id :: "cec_op_digital_service_id \<Rightarrow> u16" where
  [dig_views]: "dvb_orig_network_id d = dig_w2 d"

definition channel_number_fmt :: "cec_op_digital_service_id \<Rightarrow> u8" where
  [dig_views]: "channel_number_fmt d = lo8 (dig_w0 d)"

definition channel_major :: "cec_op_digital_service_id \<Rightarrow> u16" where
  [dig_views]: "channel_major d = dig_w1 d"

definition channel_minor :: "cec_op_digital_service_id \<Rightarrow> u16" where
  [dig_views]: "channel_minor d = dig_w2 d"

text \<open>
  The members of the recording source union are kept apart: the functions
  below only read the member that \<open>rec_type\<close> selects.
\<close>

record cec_op_record_src =
  rec_type :: u8
  rec_digital :: cec_op_digital_service_id
  rec_ana_bcast_type :: u8
  rec_ana_freq :: u16
  rec_bcast_system :: u8
  rec_plug :: u8
  rec_phys_addr :: u16

text \<open>\<open>off\<close> is the offset of the byte pointer argument in the message array.\<close>

definition cec_set_digital_service_id ::
  "nat \<Rightarrow> cec_op_digital_service_id \<Rightarrow> cec_msg \<Rightarrow> cec_msg" where
  [cec_defs]: "cec_set_digital_service_id off digital =
     stmts [put off (push_bit 7 (service_id_method digital) OR dig_bcast_system digital),
            (if service_id_method digital = CEC_OP_SERVICE_ID_METHOD_BY_CHANNEL then
               stmts [put (off + 1) (push_bit 2 (channel_number_fmt digital) OR hi8 (channel_major digital)),
                      put (off + 2) (lo8 (channel_major digital)),
                      put (off + 3) (hi8 (channel_minor digital)),
                      put (off + 4) (lo8 (channel_minor digital)),
                      put (off + 5) 0,
                      put (off + 6) 0]
             else if dig_bcast_system digital = CEC_OP_DIG_SERVICE_BCAST_SYSTEM_ATSC_GEN \<or>
                     dig_bcast_system digital = CEC_OP_DIG_SERVICE_BCAST_SYSTEM_ATSC_CABLE \<or>
                     dig_bcast_system digital = CEC_OP_DIG_SERVICE_BCAST_SYSTEM_ATSC_SAT \<or>
                     dig_bcast_system digital = CEC_OP_DIG_SERVICE_BCAST_SYSTEM_ATSC_T then
               stmts [put (off + 1) (hi8 (atsc_transport_id digital)),
                      put (off + 2) (lo8 (atsc_transport_id digital)),
                      put (off + 3) (hi8 (atsc_program_number digital)),
                      put (off + 4) (lo8 (atsc_program_number digital)),
                      put (off + 5) 0,
                      put (off + 6) 0]
             else
               stmts [put (off + 1) (hi8 (dvb_transport_id digital)),
                      put (off + 2) (lo8 (dvb_transport_id digital)),
                      put (off + 3) (hi8 (dvb_service_id digital)),
                      put (off + 4) (lo8 (dvb_service_id digital)),
                      put (off + 5) (hi8 (dvb_orig_network_id digital)),
                      put (off + 6) (lo8 (dvb_orig_network_id digital))])]"

definition cec_get_digital_service_id ::
  "nat \<Rightarrow> cec_msg \<Rightarrow> cec_op_digital_service_id \<Rightarrow> cec_op_digital_service_id" where
  [cec_defs]: "cec_get_digital_service_id off m digital =
     (let d = digital\<lparr>service_id_method := drop_bit 7 (byte m off),
                      dig_bcast_system := byte m off AND 0x7F\<rparr>
      in if service_id_method d = CEC_OP_SERVICE_ID_METHOD_BY_CHANNEL then
           d\<lparr>dig_w0 := be16 (hi8 (dig_w0 d)) (drop_bit 2 (byte m (off + 1))),
             dig_w1 := push_bit 6 (ucast (byte m (off + 1) AND 3)) OR ucast (byte m (off + 2)),
             dig_w2 := be16 (byte m (off + 3)) (byte m (off + 4))\<rparr>
         else
           d\<lparr>dig_w0 := be16 (byte m (off + 1)) (byte m (off + 2)),
             dig_w1 := be16 (byte m (off + 3)) (byte m (off + 4)),
             dig_w2 := be16 (byte m (off + 5)) (byte m (off + 6))\<rparr>)"

definition cec_msg_record_on_own :: "cec_msg \<Rightarrow> cec_msg" where
  [cec_defs]: "cec_msg_record_on_own =
     stmts [set_len 3,
            put 1 CEC_MSG_RECORD_ON,
            put 2 CEC_OP_RECORD_SRC_OWN]"

definition cec_msg_record_on_digital ::
  "cec_op_digital_service_id \<Rightarrow> cec_msg \<Rightarrow> cec_msg" where
  [cec_defs]: "cec_msg_record_on_digital digital =
     stmts [set_len 10,
            put 1 CEC_MSG_RECORD_ON,
            put 2 CEC_OP_RECORD_SRC_DIGITAL,
            cec_set_digital_service_id 3 digital]"

definition cec_msg_record_on_analog :: "u8 \<Rightarrow> u16 \<Rightarrow> u8 \<Rightarrow> cec_msg \<Rightarrow> cec_msg" where
  [cec_defs]: "cec_msg_record_on_analog ana_bcast_type ana_freq bcast_system =
     stmts [set_len 7,
            put 1 CEC_MSG_RECORD_ON,
            put 2 CEC_OP_RECORD_SRC_ANALOG,
            put 3 ana_bcast_type,
            put 4 (hi8 ana_freq),
            put 5 (lo8 ana_freq),
            put 6 bcast_system]"

definition cec_msg_record_on_plug :: "u8 \<Rightarrow> cec_msg \<Rightarrow> cec_msg" where
  [cec_defs]: "cec_msg_record_on_plug plug =
     stmts [set_len 4,
            put 1 CEC_MSG_RECORD_ON,
            put 2 CEC_OP_RECORD_SRC_EXT_PLUG,
            put 3 plug]"

definition cec_msg_record_on_phys_addr :: "u16 \<Rightarrow> cec_msg \<Rightarrow> cec_msg" where
  [cec_defs]: "cec_msg_record_on_phys_addr phys_addr =
     stmts [set_len 5,
            put 1 CEC_MSG_RECORD_ON,
            put 2 CEC_OP_RECORD_SRC_EXT_PHYS_ADDR,
            put 3 (hi8 phys_addr),
            put 4 (lo8 phys_addr)]"

definition cec_msg_record_on :: "c_int \<Rightarrow> cec_op_record_src \<Rightarrow> cec_msg \<Rightarrow> cec_msg" where
  [cec_defs]: "cec_msg_record_on reply rec_src =
     stmts [(if rec_type rec_src = CEC_OP_RECORD_SRC_OWN then
               cec_msg_record_on_own
             else if rec_type rec_src = CEC_OP_RECORD_SRC_DIGITAL then
               cec_msg_record_on_digital (rec_digital rec_src)
             else if rec_type rec_src = CEC_OP_RECORD_SRC_ANALOG then
               cec_msg_record_on_analog (rec_ana_bcast_type rec_src) (rec_ana_freq rec_src)
                 (rec_bcast_system rec_src)
             else if rec_type rec_src = CEC_OP_RECORD_SRC_EXT_PLUG then
               cec_msg_record_on_plug (rec_plug rec_src)
             else if rec_type rec_src = CEC_OP_RECORD_SRC_EXT_PHYS_ADDR then
               cec_msg_record_on_phys_addr (rec_phys_addr rec_src)
             else id),
            set_reply reply CEC_MSG_RECORD_STATUS]"

definition cec_ops_record_on :: "cec_msg \<Rightarrow> cec_op_record_src \<Rightarrow> cec_op_record_src" where
  [cec_defs]: "cec_ops_record_on m rec_src =
     (let r = rec_src\<lparr>rec_type := byte m 2\<rparr>
      in if rec_type r = CEC_OP_RECORD_SRC_OWN then r
         else if rec_type r = CEC_OP_RECORD_SRC_DIGITAL then
           r\<lparr>rec_digital := cec_get_digital_service_id 3 m (rec_digital r)\<rparr>
         else if rec_type r = CEC_OP_RECORD_SRC_ANALOG then
           r\<lparr>rec_ana_bcast_type := byte m 3,
             rec_ana_freq := be16 (byte m 4) (byte m 5),
             rec_bcast_system := byte m 6\<rparr>
         else if rec_type r = CEC_OP_RECORD_SRC_EXT_PLUG then
           r\<lparr>rec_plug := byte m 3\<rparr>
         else if rec_type r = CEC_OP_RECORD_SRC_EXT_PHYS_ADDR then
           r\<lparr>rec_phys_addr := be16 (byte m 3) (byte m 4)\<rparr>
         else r)"

definition cec_msg_record_status :: "u8 \<Rightarrow> cec_msg \<Rightarrow> cec_msg" where
  [cec_defs]: "cec_msg_record_status rec_status =
     stmts [set_len 3,
            put 1 CEC_MSG_RECORD_STATUS,
            put 2 rec_status]"

definition cec_ops_record_status :: "cec_msg \<Rightarrow> u8" where
  [cec_defs]: "cec_ops_record_status m = byte m 2"

definition cec_msg_record_tv_screen :: "c_int \<Rightarrow> cec_msg \<Rightarrow> cec_msg" where
  [cec_defs]: "cec_msg_record_tv_screen reply =
     stmts [set_len 2,
            put 1 CEC_MSG_RECORD_TV_SCREEN,
            set_reply reply CEC_MSG_RECORD_ON]"

section \<open>Timer Programming Feature\<close>

definition cec_msg_timer_status ::
  "u8 \<Rightarrow> u8 \<Rightarrow> u8 \<Rightarrow> u8 \<Rightarrow> u8 \<Rightarrow> u8 \<Rightarrow> cec_msg \<Rightarrow> cec_msg" where
  [cec_defs]: "cec_msg_timer_status timer_overlap_warning media_info prog_info prog_error
       duration_hr duration_min =
     stmts [set_len 3,
            put 1 CEC_MSG_TIMER_STATUS,
            put 2 (push_bit 7 timer_overlap_warning OR
                   push_bit 5 media_info OR
                   (if prog_info \<noteq> 0 then 0x10 else 0) OR
                   (if prog_info \<noteq> 0 then prog_info else prog_error)),
            (if prog_info = CEC_OP_PROG_INFO_NOT_ENOUGH_SPACE \<or>
                prog_info = CEC_OP_PROG_INFO_MIGHT_NOT_BE_ENOUGH_SPACE \<or>
                prog_error = CEC_OP_PROG_ERROR_DUPLICATE then
               stmts [(\<lambda>m. set_len (m_len m + 2) m),
                      put 3 (to_bcd duration_hr),
                      put 4 (to_bcd duration_min)]
             else id)]"

definition cec_ops_timer_status :: "cec_msg \<Rightarrow> u8 \<times> u8 \<times> u8 \<times> u8 \<times> u8 \<times> u8" where
  [cec_defs]: "cec_ops_timer_status m =
     (let timer_overlap_warning = drop_bit 7 (byte m 2);
          media_info = drop_bit 5 (byte m 2) AND 3;
          (prog_info, prog_error) =
            (if byte m 2 AND 0x10 \<noteq> 0 then (byte m 2 AND 0xF, 0) else (0, byte m 2 AND 0xF))
      in if prog_info = CEC_OP_PROG_INFO_NOT_ENOUGH_SPACE \<or>
            prog_info = CEC_OP_PROG_INFO_MIGHT_NOT_BE_ENOUGH_SPACE \<or>
            prog_error = CEC_OP_PROG_ERROR_DUPLICATE then
           (timer_overlap_warning, media_info, prog_info, prog_error,
            of_bcd (byte m 3), of_bcd (byte m 4))
         else (timer_overlap_warning, media_info, prog_info, prog_error, 0, 0))"

definition cec_msg_timer_cleared_status :: "u8 \<Rightarrow> cec_msg \<Rightarrow> cec_msg" where
  [cec_defs]: "cec_msg_timer_cleared_status timer_cleared_status =
     stmts [set_len 3,
            put 1 CEC_MSG_TIMER_CLEARED_STATUS,
            put 2 timer_cleared_status]"

definition cec_ops_timer_cleared_status :: "cec_msg \<Rightarrow> u8" where
  [cec_defs]: "cec_ops_timer_cleared_status m = byte m 2"

definition cec_msg_clear_analogue_timer :: "c_int \<Rightarrow> u8 \<Rightarrow> u8 \<Rightarrow> u8 \<Rightarrow> u8 \<Rightarrow> u8 \<Rightarrow> u8 \<Rightarrow> u8 \<Rightarrow> u8 \<Rightarrow> u16 \<Rightarrow> u8 \<Rightarrow> cec_msg \<Rightarrow> cec_msg" where
  [cec_defs]: "cec_msg_clear_analogue_timer reply day month start_hr start_min duration_hr duration_min recording_seq ana_bcast_type ana_freq bcast_system =
     stmts [set_len 13,
            put 1 CEC_MSG_CLEAR_ANALOGUE_TIMER,
            put 2 day,
            put 3 month,
            put 4 (to_bcd start_hr),
            put 5 (to_bcd start_min),
            put 6 (to_bcd duration_hr),
            put 7 (to_bcd duration_min),
            put 8 recording_seq,
            put 9 ana_bcast_type,
            put 10 (hi8 ana_freq),
            put 11 (lo8 ana_freq),
            put 12 bcast_system,
            set_reply reply CEC_MSG_TIMER_CLEARED_STATUS]"

definition cec_ops_clear_analogue_timer :: "cec_msg \<Rightarrow> u8 \<times> u8 \<times> u8 \<times> u8 \<times> u8 \<times> u8 \<times> u8 \<times> u8 \<times> u16 \<times> u8" where
  [cec_defs]: "cec_ops_clear_analogue_timer m =
     (byte m 2,
      byte m 3,
      of_bcd (byte m 4),
      of_bcd (byte m 5),
      of_bcd (byte m 6),
      of_bcd (byte m 7),
      byte m 8,
      byte m 9,
      be16 (byte m 10) (byte m 11),
      byte m 12)"

definition cec_msg_clear_digital_timer ::
  "c_int \<Rightarrow> u8 \<Rightarrow> u8 \<Rightarrow> u8 \<Rightarrow> u8 \<Rightarrow> u8 \<Rightarrow> u8 \<Rightarrow> u8 \<Rightarrow> cec_op_digital_service_id \<Rightarrow>
   cec_msg \<Rightarrow> cec_msg" where
  [cec_defs]: "cec_msg_clear_digital_timer reply day month start_hr start_min duration_hr
       duration_min recording_seq digital =
     stmts [set_len 16,
            set_reply reply CEC_MSG_TIMER_CLEARED_STATUS,
            put 1 CEC_MSG_CLEAR_DIGITAL_TIMER,
            put 2 day,
            put 3 month,
            put 4 (to_bcd start_hr),
            put 5 (to_bcd start_min),
            put 6 (to_bcd duration_hr),
            put 7 (to_bcd duration_min),
            put 8 recording_seq,
            cec_set_digital_service_id 9 digital]"

definition cec_ops_clear_digital_timer ::
  "cec_msg \<Rightarrow> cec_op_digital_service_id \<Rightarrow>
   u8 \<times> u8 \<times> u8 \<times> u8 \<times> u8 \<times> u8 \<times> u8 \<times> cec_op_digital_service_id" where
  [cec_defs]: "cec_ops_clear_digital_timer m digital =
     (byte m 2,
      byte m 3,
      of_bcd (byte m 4),
      of_bcd (byte m 5),
      of_bcd (byte m 6),
      of_bcd (byte m 7),
      byte m 8,
      cec_get_digital_service_id 9 m digital)"

definition cec_msg_clear_ext_timer :: "c_int \<Rightarrow> u8 \<Rightarrow> u8 \<Rightarrow> u8 \<Rightarrow> u8 \<Rightarrow> u8 \<Rightarrow> u8 \<Rightarrow> u8 \<Rightarrow> u8 \<Rightarrow> u8 \<Rightarrow> u16 \<Rightarrow> cec_msg \<Rightarrow> cec_msg" where
  [cec_defs]: "cec_msg_clear_ext_timer reply day month start_hr start_min duration_hr duration_min recording_seq ext_src_spec plug phys_addr =
     stmts [set_len 13,
            put 1 CEC_MSG_CLEAR_EXT_TIMER,
            put 2 day,
            put 3 month,
            put 4 (to_bcd start_hr),
            put 5 (to_bcd start_min),
            put 6 (to_bcd duration_hr),
            put 7 (to_bcd duration_min),
            put 8 recording_seq,
            put 9 ext_src_spec,
            put 10 plug,
            put 11 (hi8 phys_addr),
            put 12 (lo8 phys_addr),
            set_reply reply CEC_MSG_TIMER_CLEARED_STATUS]"

definition cec_ops_clear_ext_timer :: "cec_msg \<Rightarrow> u8 \<times> u8 \<times> u8 \<times> u8 \<times> u8 \<times> u8 \<times> u8 \<times> u8 \<times> u8 \<times> u16" where
  [cec_defs]: "cec_ops_clear_ext_timer m =
     (byte m 2,
      byte m 3,
      of_bcd (byte m 4),
      of_bcd (byte m 5),
      of_bcd (byte m 6),
      of_bcd (byte m 7),
      byte m 8,
      byte m 9,
      byte m 10,
      be16 (byte m 11) (byte m 12))"

definition cec_msg_set_analogue_timer :: "c_int \<Rightarrow> u8 \<Rightarrow> u8 \<Rightarrow> u8 \<Rightarrow> u8 \<Rightarrow> u8 \<Rightarrow> u8 \<Rightarrow> u8 \<Rightarrow> u8 \<Rightarrow> u16 \<Rightarrow> u8 \<Rightarrow> cec_msg \<Rightarrow> cec_msg" where
  [cec_defs]: "cec_msg_set_analogue_timer reply day month start_hr start_min duration_hr duration_min recording_seq ana_bcast_type ana_freq bcast_system =
     stmts [set_len 13,
            put 1 CEC_MSG_SET_ANALOGUE_TIMER,
            put 2 day,
            put 3 month,
            put 4 (to_bcd start_hr),
            put 5 (to_bcd start_min),
            put 6 (to_bcd duration_hr),
            put 7 (to_bcd duration_min),
            put 8 recording_seq,
            put 9 ana_bcast_type,
            put 10 (hi8 ana_freq),
            put 11 (lo8 ana_freq),
            put 12 bcast_system,
            set_reply reply CEC_MSG_TIMER_STATUS]"

definition cec_ops_set_analogue_timer :: "cec_msg \<Rightarrow> u8 \<times> u8 \<times> u8 \<times> u8 \<times> u8 \<times> u8 \<times> u8 \<times> u8 \<times> u16 \<times> u8" where
  [cec_defs]: "cec_ops_set_analogue_timer m =
     (byte m 2,
      byte m 3,
      of_bcd (byte m 4),
      of_bcd (byte m 5),
      of_bcd (byte m 6),
      of_bcd (byte m 7),
      byte m 8,
      byte m 9,
      be16 (byte m 10) (byte m 11),
      byte m 12)"

definition cec_msg_set_digital_timer ::
  "c_int \<Rightarrow> u8 \<Rightarrow> u8 \<Rightarrow> u8 \<Rightarrow> u8 \<Rightarrow> u8 \<Rightarrow> u8 \<Rightarrow> u8 \<Rightarrow> cec_op_digital_service_id \<Rightarrow>
   cec_msg \<Rightarrow> cec_msg" where
  [cec_defs]: "cec_msg_set_digital_timer reply day month start_hr start_min duration_hr
       duration_min recording_seq digital =
     stmts [set_len 16,
            set_reply reply CEC_MSG_TIMER_STATUS,
            put 1 CEC_MSG_SET_DIGITAL_TIMER,
            put 2 day,
            put 3 month,
            put 4 (to_bcd start_hr),
            put 5 (to_bcd start_min),
            put 6 (to_bcd duration_hr),
            put 7 (to_bcd duration_min),
            put 8 recording_seq,
            cec_set_digital_service_id 9 digital]"

definition cec_ops_set_digital_timer ::
  "cec_msg \<Rightarrow> cec_op_digital_service_id \<Rightarrow>
   u8 \<times> u8 \<times> u8 \<times> u8 \<times> u8 \<times> u8 \<times> u8 \<times> cec_op_digital_service_id" where
  [cec_defs]: "cec_ops_set_digital_timer m digital =
     (byte m 2,
      byte m 3,
      of_bcd (byte m 4),
      of_bcd (byte m 5),
      of_bcd (byte m 6),
      of_bcd (byte m 7),
      byte m 8,
      cec_get_digital_service_id 9 m digital)"

definition cec_msg_set_ext_timer :: "c_int \<Rightarrow> u8 \<Rightarrow> u8 \<Rightarrow> u8 \<Rightarrow> u8 \<Rightarrow> u8 \<Rightarrow> u8 \<Rightarrow> u8 \<Rightarrow> u8 \<Rightarrow> u8 \<Rightarrow> u16 \<Rightarrow> cec_msg \<Rightarrow> cec_msg" where
  [cec_defs]: "cec_msg_set_ext_timer reply day month start_hr start_min duration_hr duration_min recording_seq ext_src_spec plug phys_addr =
     stmts [set_len 13,
            put 1 CEC_MSG_SET_EXT_TIMER,
            put 2 day,
            put 3 month,
            put 4 (to_bcd start_hr),
            put 5 (to_bcd start_min),
            put 6 (to_bcd duration_hr),
            put 7 (to_bcd duration_min),
            put 8 recording_seq,
            put 9 ext_src_spec,
            put 10 plug,
            put 11 (hi8 phys_addr),
            put 12 (lo8 phys_addr),
            set_reply reply CEC_MSG_TIMER_STATUS]"

definition cec_ops_set_ext_timer :: "cec_msg \<Rightarrow> u8 \<times> u8 \<times> u8 \<times> u8 \<times> u8 \<times> u8 \<times> u8 \<times> u8 \<times> u8 \<times> u16" where
  [cec_defs]: "cec_ops_set_ext_timer m =
     (byte m 2,
      byte m 3,
      of_bcd (byte m 4),
      of_bcd (byte m 5),
      of_bcd (byte m 6),
      of_bcd (byte m 7),
      byte m 8,
      byte m 9,
      byte m 10,
      be16 (byte m 11) (byte m 12))"

text \<open>
  A \<open>char *\<close> argument is the buffer it points to.  \<open>unsigned int len = strlen(s)\<close>
  truncates the length to 32 bits.
\<close>

definition cec_msg_set_timer_program_title :: "u8 list \<Rightarrow> cec_msg \<Rightarrow> cec_msg" where
  [cec_defs]: "cec_msg_set_timer_program_title prog_title =
     (let len = (word_of_nat (strlen prog_title) :: u32);
          len = (if len > 14 then 14 else len)
      in stmts [set_len (2 + len),
                put 1 CEC_MSG_SET_TIMER_PROGRAM_TITLE,
                put_bytes 2 (take (unat len) prog_title)])"

definition cec_ops_set_timer_program_title :: "cec_msg \<Rightarrow> u8 list \<Rightarrow> u8 list" where
  [cec_defs]: "cec_ops_set_timer_program_title m prog_title =
     (let len = (if m_len m > 2 then m_len m - 2 else 0);
          len = (if len > 14 then 14 else len)
      in store (memcpy_at prog_title 0 (take (unat len) (drop 2 (m_msg m)))) (unat len) 0)"

section \<open>Digital services\<close>

text \<open>
  The services the wire format carries: one bit for the method, seven for the
  broadcast system, a channel number of at most eight bits (see
  \<open>major_recovered\<close>), and the union bytes the chosen member does not
  use are zero.
\<close>

definition is_atsc :: "u8 \<Rightarrow> bool" where
  "is_atsc sys \<longleftrightarrow> sys = CEC_OP_DIG_SERVICE_BCAST_SYSTEM_ATSC_GEN \<or>
     sys = CEC_OP_DIG_SERVICE_BCAST_SYSTEM_ATSC_CABLE \<or>
     sys = CEC_OP_DIG_SERVICE_BCAST_SYSTEM_ATSC_SAT \<or>
     sys = CEC_OP_DIG_SERVICE_BCAST_SYSTEM_ATSC_T"

definition digital_ok :: "cec_op_digital_service_id \<Rightarrow> bool" where
  "digital_ok d \<longleftrightarrow> service_id_method d < 2 \<and> dig_bcast_system d < 128 \<and>
     (if service_id_method d = CEC_OP_SERVICE_ID_METHOD_BY_CHANNEL
      then dig_w0 d < 64 \<and> channel_major d < 256
      else is_atsc (dig_bcast_system d) \<longrightarrow> dvb_orig_network_id d = 0)"

definition digital0 :: cec_op_digital_service_id where
  "digital0 = \<lparr>service_id_method = 0, dig_bcast_system = 0, dig_w0 = 0, dig_w1 = 0, dig_w2 = 0\<rparr>"

lemma hi8_digital0 [simp]: "hi8 (dig_w0 digital0) = 0"
  by (simp add: digital0_def hi8_def)

lemma set_digital_writers [simp]:
  "m_len (cec_set_digital_service_id off d m) = m_len m"
  "m_reply (cec_set_digital_service_id off d m) = m_reply m"
  "cec_meta (cec_set_digital_service_id off d m) = cec_meta m"
  by (simp_all add: cec_set_digital_service_id_def)

lemma wf_set_digital [simp]:
  "off + 7 \<le> 16 \<Longrightarrow> cec_wf m \<Longrightarrow> cec_wf (cec_set_digital_service_id off d m)"
  by (simp add: cec_set_digital_service_id_def)

lemma byte_set_digital [simp]:
  "off + 7 \<le> 16 \<Longrightarrow> cec_wf m \<Longrightarrow> j < off \<Longrightarrow> byte (cec_set_digital_service_id off d m) j = byte m j"
  by (simp add: cec_set_digital_service_id_def)

lemma get_digital_set_reply [simp]:
  "cec_get_digital_service_id off (set_reply r op m) d = cec_get_digital_service_id off m d"
  by (simp add: cec_get_digital_service_id_def Let_def)

lemma hi8_small: "x < 256 \<Longrightarrow> hi8 x = 0"
  unfolding hi8_def by (rule bit_word_eqI) (auto simp: bit_simps dest: bit_below [where n = 8, simplified])

lemma ucast_lo8_small: "x < 256 \<Longrightarrow> ucast (lo8 x) = (x :: u16)"
  unfolding lo8_def word_lits
  by (rule bit_word_eqI) (auto simp: bit_simps dest: bit_below [where n = 8, simplified])

lemma be16_0_lo8: "x < 64 \<Longrightarrow> be16 0 (lo8 x) = x"
  using hi8_small [of x] be16_hi_lo [of x] by (simp add: word_less_nat_alt)

lemma lo8_less_64: "x < 64 \<Longrightarrow> lo8 x < 64"
proof -
  assume "x < 64"
  then have "x AND 0xFF = x"
    unfolding word_lits by (simp add: take_bit_word_small word_less_nat_alt)
  with \<open>x < 64\<close> show ?thesis
    by (simp add: lo8_def word_less_nat_alt unsigned_ucast_eq take_bit_eq_mod)
qed

lemma get_set_digital [simp]:
  assumes "off + 7 \<le> 16" and "cec_wf m" and "digital_ok d" and "hi8 (dig_w0 d0) = 0"
  shows "cec_get_digital_service_id off (cec_set_digital_service_id off d m) d0 = d"
proof (cases "service_id_method d = CEC_OP_SERVICE_ID_METHOD_BY_CHANNEL")
  case True
  with assms have w: "dig_w0 d < 64" "dig_w1 d < 256" and "dig_bcast_system d < 128"
    by (auto simp: digital_ok_def dig_views)
  then have
    "drop_bit 7 (push_bit 7 CEC_OP_SERVICE_ID_METHOD_BY_CHANNEL OR dig_bcast_system d) =
       CEC_OP_SERVICE_ID_METHOD_BY_CHANNEL"
    "take_bit 7 (push_bit 7 CEC_OP_SERVICE_ID_METHOD_BY_CHANNEL OR dig_bcast_system d) =
       dig_bcast_system d"
    by (simp_all add: u8_pack CEC_OP_SERVICE_ID_METHOD_BY_CHANNEL_def del: push_bit_of_1)
  moreover have
    "drop_bit 2 (push_bit 2 (lo8 (dig_w0 d))) = lo8 (dig_w0 d)"
    "take_bit 2 (push_bit 2 (lo8 (dig_w0 d))) = 0"
    using u8_pack(4) [of "lo8 (dig_w0 d)" 0] u8_pack(8) [of 0 "lo8 (dig_w0 d)"] w
    by (simp_all add: lo8_less_64)
  ultimately show ?thesis
    using assms w True by (simp add: cec_defs dig_views Let_def word_lits hi8_small
        be16_0_lo8 ucast_lo8_small)
next
  case False
  with assms have "service_id_method d < 2" "dig_bcast_system d < 128"
    "is_atsc (dig_bcast_system d) \<Longrightarrow> dig_w2 d = 0"
    by (auto simp: digital_ok_def dig_views)
  with assms(1,2) False show ?thesis
    by (cases "is_atsc (dig_bcast_system d)")
      (simp_all add: cec_defs dig_views Let_def word_lits u8_pack is_atsc_def)
qed

text \<open>What the decoder makes of a ten bit channel number.\<close>

definition decoded_major :: "u16 \<Rightarrow> u16" where
  "decoded_major x = push_bit 6 (ucast (hi8 x AND 3)) OR ucast (lo8 x)"

lemma decoded_major_less: "decoded_major x < 256"
proof -
  have "take_bit 8 (decoded_major x) = decoded_major x"
    unfolding decoded_major_def word_lits
    by (rule bit_word_eqI) (auto simp: bit_simps dest: bit_imp_le_length)
  then show ?thesis
    using and_mask_less' [of 8 "decoded_major x"] by (simp add: take_bit_eq_mask)
qed

lemma major_recovered: "decoded_major x = x \<longleftrightarrow> x < 256"
  using decoded_major_less [of x]
  by (auto simp: decoded_major_def hi8_small ucast_lo8_small)

lemma hi8_less_4: "x < 1024 \<Longrightarrow> hi8 x < 4"
  by (simp add: hi8_def word_less_nat_alt unsigned_ucast_eq drop_bit_eq_div unat_div take_bit_eq_mod)

lemma fmt_major_and_3:
  fixes f h :: u8
  assumes "h < 4"
  shows "(push_bit 2 f OR h) AND 3 = h AND 3"
  using take_pack [of h 2 f] take_bit_word_small [of h 2] assms by (simp add: word_lits)

lemma channel_major_decoded:
  assumes "off + 7 \<le> 16" and "cec_wf m" and "dig_bcast_system d < 128" and "channel_major d < 1024"
    and c: "service_id_method d = CEC_OP_SERVICE_ID_METHOD_BY_CHANNEL"
  shows "channel_major (cec_get_digital_service_id off (cec_set_digital_service_id off d m) d0) =
         decoded_major (channel_major d)"
proof -
  let ?m = "cec_set_digital_service_id off d m"
  have b: "byte ?m off = push_bit 7 CEC_OP_SERVICE_ID_METHOD_BY_CHANNEL OR dig_bcast_system d"
    "byte ?m (off + 1) = push_bit 2 (channel_number_fmt d) OR hi8 (channel_major d)"
    "byte ?m (off + 2) = lo8 (channel_major d)"
    using assms by (simp_all add: cec_set_digital_service_id_def)
  have "drop_bit 7 (byte ?m off) = CEC_OP_SERVICE_ID_METHOD_BY_CHANNEL"
    unfolding b by (rule drop_pack [where k = 1]) (use assms in \<open>simp_all add: cec_const\<close>)
  moreover have "byte ?m (off + 1) AND 3 = hi8 (channel_major d) AND 3"
    unfolding b using fmt_major_and_3 hi8_less_4 assms(4) by blast
  ultimately show ?thesis
    using b(3) by (simp add: cec_get_digital_service_id_def channel_major_def decoded_major_def Let_def)
qed

section \<open>The codecs\<close>

interpretation active_source: cec_codec
  "cec_msg_active_source"
  "cec_ops_active_source"
  "\<lambda>_. True" CEC_MSG_ACTIVE_SOURCE True
  by unfold_locales (auto simp: cec_defs)

interpretation image_view_on: cec_codec
  "\<lambda>_ :: unit. cec_msg_image_view_on"
  "\<lambda>_. ()"
  "\<lambda>_. True" CEC_MSG_IMAGE_VIEW_ON False
  by unfold_locales (auto simp: cec_defs)

interpretation text_view_on: cec_codec
  "\<lambda>_ :: unit. cec_msg_text_view_on"
  "\<lambda>_. ()"
  "\<lambda>_. True" CEC_MSG_TEXT_VIEW_ON False
  by unfold_locales (auto simp: cec_defs)

interpretation inactive_source: cec_codec
  "cec_msg_inactive_source"
  "cec_ops_inactive_source"
  "\<lambda>_. True" CEC_MSG_INACTIVE_SOURCE False
  by unfold_locales (auto simp: cec_defs)

interpretation request_active_source: cec_codec
  "\<lambda>_ :: unit. cec_msg_request_active_source reply"
  "\<lambda>_. ()"
  "\<lambda>_. True" CEC_MSG_REQUEST_ACTIVE_SOURCE True for reply
  by unfold_locales (auto simp: cec_defs)

interpretation routing_information: cec_codec
  "cec_msg_routing_information"
  "cec_ops_routing_information"
  "\<lambda>_. True" CEC_MSG_ROUTING_INFORMATION True
  by unfold_locales (auto simp: cec_defs)

interpretation routing_change: cec_codec
  "\<lambda>(orig, new). cec_msg_routing_change reply orig new"
  "cec_ops_routing_change"
  "\<lambda>_. True" CEC_MSG_ROUTING_CHANGE True for reply
  by unfold_locales (auto simp: cec_defs)

interpretation set_stream_path: cec_codec
  "cec_msg_set_stream_path"
  "cec_ops_set_stream_path"
  "\<lambda>_. True" CEC_MSG_SET_STREAM_PATH True
  by unfold_locales (auto simp: cec_defs)

interpretation standby: cec_codec
  "\<lambda>_ :: unit. cec_msg_standby"
  "\<lambda>_. ()"
  "\<lambda>_. True" CEC_MSG_STANDBY False
  by unfold_locales (auto simp: cec_defs)

interpretation record_off: cec_codec
  "\<lambda>_ :: unit. cec_msg_record_off reply"
  "\<lambda>_. ()"
  "\<lambda>_. True" CEC_MSG_RECORD_OFF False for reply
  by unfold_locales (auto simp: cec_defs)

interpretation record_status: cec_codec
  "cec_msg_record_status"
  "cec_ops_record_status"
  "\<lambda>_. True" CEC_MSG_RECORD_STATUS False
  by unfold_locales (auto simp: cec_defs)

interpretation record_tv_screen: cec_codec
  "\<lambda>_ :: unit. cec_msg_record_tv_screen reply"
  "\<lambda>_. ()"
  "\<lambda>_. True" CEC_MSG_RECORD_TV_SCREEN False for reply
  by unfold_locales (auto simp: cec_defs)

interpretation timer_cleared_status: cec_codec
  "cec_msg_timer_cleared_status"
  "cec_ops_timer_cleared_status"
  "\<lambda>_. True" CEC_MSG_TIMER_CLEARED_STATUS False
  by unfold_locales (auto simp: cec_defs)

interpretation clear_analogue_timer: cec_codec
  "\<lambda>(day, month, sh, sm, dh, dm, seq, bt, fr, bs).
     cec_msg_clear_analogue_timer reply day month sh sm dh dm seq bt fr bs"
  "cec_ops_clear_analogue_timer"
  "\<lambda>(_, _, sh, sm, dh, dm, _). sh < 100 \<and> sm < 100 \<and> dh < 100 \<and> dm < 100" CEC_MSG_CLEAR_ANALOGUE_TIMER False for reply
  by unfold_locales (auto simp: cec_defs)

interpretation clear_ext_timer: cec_codec
  "\<lambda>(day, month, sh, sm, dh, dm, seq, spec, plug, pa).
     cec_msg_clear_ext_timer reply day month sh sm dh dm seq spec plug pa"
  "cec_ops_clear_ext_timer"
  "\<lambda>(_, _, sh, sm, dh, dm, _). sh < 100 \<and> sm < 100 \<and> dh < 100 \<and> dm < 100" CEC_MSG_CLEAR_EXT_TIMER False for reply
  by unfold_locales (auto simp: cec_defs)

interpretation clear_digital_timer: cec_codec
  "\<lambda>(day, month, sh, sm, dh, dm, seq, d).
     cec_msg_clear_digital_timer reply day month sh sm dh dm seq d"
  "\<lambda>m. cec_ops_clear_digital_timer m digital0"
  "\<lambda>(_, _, sh, sm, dh, dm, _, d). sh < 100 \<and> sm < 100 \<and> dh < 100 \<and> dm < 100 \<and> digital_ok d" CEC_MSG_CLEAR_DIGITAL_TIMER False for reply
  by unfold_locales (auto simp: cec_msg_clear_digital_timer_def cec_ops_clear_digital_timer_def)

interpretation set_analogue_timer: cec_codec
  "\<lambda>(day, month, sh, sm, dh, dm, seq, bt, fr, bs).
     cec_msg_set_analogue_timer reply day month sh sm dh dm seq bt fr bs"
  "cec_ops_set_analogue_timer"
  "\<lambda>(_, _, sh, sm, dh, dm, _). sh < 100 \<and> sm < 100 \<and> dh < 100 \<and> dm < 100" CEC_MSG_SET_ANALOGUE_TIMER False for reply
  by unfold_locales (auto simp: cec_defs)

interpretation set_ext_timer: cec_codec
  "\<lambda>(day, month, sh, sm, dh, dm, seq, spec, plug, pa).
     cec_msg_set_ext_timer reply day month sh sm dh dm seq spec plug pa"
  "cec_ops_set_ext_timer"
  "\<lambda>(_, _, sh, sm, dh, dm, _). sh < 100 \<and> sm < 100 \<and> dh < 100 \<and> dm < 100" CEC_MSG_SET_EXT_TIMER False for reply
  by unfold_locales (auto simp: cec_defs)

interpretation set_digital_timer: cec_codec
  "\<lambda>(day, month, sh, sm, dh, dm, seq, d).
     cec_msg_set_digital_timer reply day month sh sm dh dm seq d"
  "\<lambda>m. cec_ops_set_digital_timer m digital0"
  "\<lambda>(_, _, sh, sm, dh, dm, _, d). sh < 100 \<and> sm < 100 \<and> dh < 100 \<and> dm < 100 \<and> digital_ok d" CEC_MSG_SET_DIGITAL_TIMER False for reply
  by unfold_locales (auto simp: cec_msg_set_digital_timer_def cec_ops_set_digital_timer_def)

section \<open>Recording sources\<close>

text \<open>A recording source whose unselected members are zero.\<close>

definition record_src0 :: cec_op_record_src where
  "record_src0 = \<lparr>rec_type = 0, rec_digital = digital0, rec_ana_bcast_type = 0, rec_ana_freq = 0,
     rec_bcast_system = 0, rec_plug = 0, rec_phys_addr = 0\<rparr>"

definition record_src_ok :: "cec_op_record_src \<Rightarrow> bool" where
  "record_src_ok r \<longleftrightarrow>
     (if rec_type r = CEC_OP_RECORD_SRC_DIGITAL then digital_ok (rec_digital r)
      else rec_digital r = digital0) \<and>
     (rec_type r \<noteq> CEC_OP_RECORD_SRC_ANALOG \<longrightarrow>
        rec_ana_bcast_type r = 0 \<and> rec_ana_freq r = 0 \<and> rec_bcast_system r = 0) \<and>
     (rec_type r \<noteq> CEC_OP_RECORD_SRC_EXT_PLUG \<longrightarrow> rec_plug r = 0) \<and>
     (rec_type r \<noteq> CEC_OP_RECORD_SRC_EXT_PHYS_ADDR \<longrightarrow> rec_phys_addr r = 0) \<and>
     (rec_type r = CEC_OP_RECORD_SRC_OWN \<or> rec_type r = CEC_OP_RECORD_SRC_DIGITAL \<or>
      rec_type r = CEC_OP_RECORD_SRC_ANALOG \<or> rec_type r = CEC_OP_RECORD_SRC_EXT_PLUG \<or>
      rec_type r = CEC_OP_RECORD_SRC_EXT_PHYS_ADDR)"

lemma record_src_cases [consumes 1, case_names own digital analog plug phys_addr]:
  assumes "record_src_ok r"
  obtains "r = record_src0\<lparr>rec_type := CEC_OP_RECORD_SRC_OWN\<rparr>"
  | d where "digital_ok d"
      "r = record_src0\<lparr>rec_type := CEC_OP_RECORD_SRC_DIGITAL, rec_digital := d\<rparr>"
  | bt fr bs where "r = record_src0\<lparr>rec_type := CEC_OP_RECORD_SRC_ANALOG,
      rec_ana_bcast_type := bt, rec_ana_freq := fr, rec_bcast_system := bs\<rparr>"
  | pl where "r = record_src0\<lparr>rec_type := CEC_OP_RECORD_SRC_EXT_PLUG, rec_plug := pl\<rparr>"
  | pa where "r = record_src0\<lparr>rec_type := CEC_OP_RECORD_SRC_EXT_PHYS_ADDR, rec_phys_addr := pa\<rparr>"
  using assms by (cases r) (auto simp: record_src_ok_def record_src0_def cec_const)

lemmas record_on_defs =
  cec_msg_record_on_def cec_msg_record_on_own_def cec_msg_record_on_digital_def
  cec_msg_record_on_analog_def cec_msg_record_on_plug_def cec_msg_record_on_phys_addr_def
  cec_ops_record_on_def

lemma record_on_own [simp]:
  "cec_msg_record_on reply (record_src0\<lparr>rec_type := CEC_OP_RECORD_SRC_OWN\<rparr>) =
     stmts [cec_msg_record_on_own, set_reply reply CEC_MSG_RECORD_STATUS]"
  by (simp add: cec_msg_record_on_def)

lemma record_on_roundtrip:
  assumes "cec_wf m" and "record_src_ok r"
  shows "cec_ops_record_on (cec_msg_record_on reply r m) record_src0 = r"
  using assms(2)
proof (cases r rule: record_src_cases)
  case digital
  with assms(1) show ?thesis
    by (simp add: record_on_defs Let_def record_src0_def CEC_OP_RECORD_SRC_DIGITAL_def
        CEC_OP_RECORD_SRC_OWN_def)
qed (use assms(1) in \<open>simp_all add: record_on_defs Let_def record_src0_def cec_const\<close>)

interpretation record_on: cec_codec
  "cec_msg_record_on reply"
  "\<lambda>m. cec_ops_record_on m record_src0"
  record_src_ok CEC_MSG_RECORD_ON False for reply
proof
  show "cec_wf m \<Longrightarrow> record_src_ok r \<Longrightarrow> cec_ops_record_on (cec_msg_record_on reply r m) record_src0 = r" for m r
    by (rule record_on_roundtrip)
qed (auto simp: record_on_defs record_src_ok_def)

section \<open>Timer status\<close>

lemma timer_status_byte:
  fixes w mi g x :: u8
  assumes "w < 2" and "mi < 4" and "g < 2" and "x < 16"
  shows "drop_bit 7 (push_bit 7 w OR push_bit 5 mi OR push_bit 4 g OR x) = w" (is "drop_bit _ ?b = _")
    and "take_bit 2 (drop_bit 5 (push_bit 7 w OR push_bit 5 mi OR push_bit 4 g OR x)) = mi"
    and "take_bit 4 (push_bit 7 w OR push_bit 5 mi OR push_bit 4 g OR x) = x"
    and "drop_bit 4 (push_bit 7 w OR push_bit 5 mi OR push_bit 4 g OR x) AND 1 = g"
proof -
  have s: "push_bit 4 g OR x < 32"
    using pack_less [of g 1 x 4] assms by simp
  have r: "push_bit 5 mi OR push_bit 4 g OR x < 128"
    using pack_less [of mi 2 _ 5] assms s by simp
  show "drop_bit 7 ?b = w"
    by (rule drop_pack [where k = 1]) (use r assms in simp_all)
  have t7: "take_bit 7 ?b = push_bit 5 mi OR push_bit 4 g OR x"
    by (rule take_pack) (use r in simp_all)
  have "take_bit 2 (drop_bit 5 ?b) = drop_bit 5 (take_bit 7 ?b)"
    by (simp only: take_bit_drop_bit) simp
  also have "\<dots> = mi"
    unfolding t7 by (rule drop_pack [where k = 2]) (use s assms in simp_all)
  finally show "take_bit 2 (drop_bit 5 ?b) = mi" .
  have t5: "take_bit 5 ?b = push_bit 4 g OR x"
  proof -
    have "take_bit 5 ?b = take_bit 5 (take_bit 7 ?b)"
      by (simp only: take_bit_take_bit) simp
    also have "\<dots> = push_bit 4 g OR x"
      unfolding t7 by (rule take_pack) (use s in simp_all)
    finally show ?thesis .
  qed
  have "take_bit 4 ?b = take_bit 4 (take_bit 5 ?b)"
    by (simp only: take_bit_take_bit) simp
  also have "\<dots> = x"
    unfolding t5 by (rule take_pack) (use assms in simp_all)
  finally show "take_bit 4 ?b = x" .
  have "drop_bit 4 ?b AND 1 = drop_bit 4 (take_bit 5 ?b)"
    unfolding and_lits take_bit_drop_bit by simp
  also have "\<dots> = g"
    unfolding t5 by (rule drop_pack [where k = 1]) (use assms in simp_all)
  finally show "drop_bit 4 ?b AND 1 = g" .
qed

lemma and_0x10_bit: "(b :: u8) AND 0x10 \<noteq> 0 \<longleftrightarrow> drop_bit 4 b AND 1 = 1"
  using and_exp_eq_0_iff_not_bit [of b 4] by (simp add: bit_iff_odd_drop_bit and_one_eq odd_iff_mod_2_eq_one)

definition timer_status_ok :: "u8 \<times> u8 \<times> u8 \<times> u8 \<times> u8 \<times> u8 \<Rightarrow> bool" where
  "timer_status_ok = (\<lambda>(warn, media, prog_info, prog_error, hr, mn).
     warn < 2 \<and> media < 4 \<and> prog_info < 16 \<and> prog_error < 16 \<and> (prog_info = 0 \<or> prog_error = 0) \<and>
     (if prog_info = CEC_OP_PROG_INFO_NOT_ENOUGH_SPACE \<or>
         prog_info = CEC_OP_PROG_INFO_MIGHT_NOT_BE_ENOUGH_SPACE \<or>
         prog_error = CEC_OP_PROG_ERROR_DUPLICATE
      then hr < 100 \<and> mn < 100 else hr = 0 \<and> mn = 0))"

lemma timer_status_fields:
  fixes w mi pi pe :: u8
  defines "b \<equiv> push_bit 7 w OR push_bit 5 mi OR (if pi \<noteq> 0 then 0x10 else 0) OR
                (if pi \<noteq> 0 then pi else pe)"
  assumes "w < 2" and "mi < 4" and "pi < 16" and "pe < 16"
  shows "drop_bit 7 b = w" and "take_bit 2 (drop_bit 5 b) = mi"
    and "take_bit 4 b = (if pi \<noteq> 0 then pi else pe)" and "b AND 0x10 \<noteq> 0 \<longleftrightarrow> pi \<noteq> 0"
proof -
  let ?g = "if pi \<noteq> 0 then 1 else 0 :: u8" and ?x = "if pi \<noteq> 0 then pi else pe"
  have b: "b = push_bit 7 w OR push_bit 5 mi OR push_bit 4 ?g OR ?x"
    by (simp add: b_def)
  have "?g < 2" "?x < 16"
    using assms by auto
  note f = timer_status_byte [OF assms(2,3) this]
  show "drop_bit 7 b = w" "take_bit 2 (drop_bit 5 b) = mi" "take_bit 4 b = ?x"
    unfolding b by (fact f)+
  have "drop_bit 4 b AND 1 = ?g"
    unfolding b by (fact f)
  then show "b AND 0x10 \<noteq> 0 \<longleftrightarrow> pi \<noteq> 0"
    unfolding and_0x10_bit by simp
qed

lemma timer_status_roundtrip:
  assumes "cec_wf m" and "timer_status_ok (w, mi, pi, pe, h, mn)"
  shows "cec_ops_timer_status (cec_msg_timer_status w mi pi pe h mn m) = (w, mi, pi, pe, h, mn)"
proof -
  let ?m = "cec_msg_timer_status w mi pi pe h mn m"
  let ?dur = "pi = CEC_OP_PROG_INFO_NOT_ENOUGH_SPACE \<or>
     pi = CEC_OP_PROG_INFO_MIGHT_NOT_BE_ENOUGH_SPACE \<or> pe = CEC_OP_PROG_ERROR_DUPLICATE"
  have ok: "w < 2" "mi < 4" "pi < 16" "pe < 16" "pi = 0 \<or> pe = 0"
    using assms(2) by (auto simp: timer_status_ok_def)
  have "byte ?m 2 = push_bit 7 w OR push_bit 5 mi OR (if pi \<noteq> 0 then 0x10 else 0) OR
      (if pi \<noteq> 0 then pi else pe)"
    using assms(1) by (simp add: cec_msg_timer_status_def)
  note f = timer_status_fields [OF ok(1-4), folded this]
  have d: "?dur \<Longrightarrow> byte ?m 3 = to_bcd h \<and> byte ?m 4 = to_bcd mn"
    using assms(1) by (auto simp: cec_msg_timer_status_def)
  have "(if byte ?m 2 AND 0x10 \<noteq> 0 then (byte ?m 2 AND 0xF, 0) else (0, byte ?m 2 AND 0xF)) = (pi, pe)"
    using f ok(5) by (auto simp: word_lits)
  then show ?thesis
    using assms(2) d f unfolding cec_ops_timer_status_def word_lits timer_status_ok_def
    by (cases ?dur) auto
qed

interpretation timer_status: cec_codec
  "\<lambda>(w, mi, pi, pe, h, mn). cec_msg_timer_status w mi pi pe h mn"
  cec_ops_timer_status timer_status_ok CEC_MSG_TIMER_STATUS False
proof
  fix m :: cec_msg and p
  assume "cec_wf m" and "timer_status_ok p"
  then show "cec_ops_timer_status ((case p of (w, mi, pi, pe, h, mn) \<Rightarrow>
      cec_msg_timer_status w mi pi pe h mn) m) = p"
    by (cases p) (simp add: timer_status_roundtrip)
qed (auto simp: cec_msg_timer_status_def)

section \<open>Program titles\<close>

lemma title_enc:
  assumes "strlen s < 2 ^ 32"
  shows "cec_msg_set_timer_program_title s =
     stmts [set_len (2 + word_of_nat (min 14 (strlen s))),
            put 1 CEC_MSG_SET_TIMER_PROGRAM_TITLE,
            put_bytes 2 (take 14 (c_string s))]"
  unfolding cec_msg_set_timer_program_title_def Let_def clamp_u32 [OF assms]
  by (simp add: take_c_string)

lemma title_dec:
  assumes "n \<le> 14" and "m_len m = 2 + word_of_nat n"
  shows "cec_ops_set_timer_program_title m buf =
         store (memcpy_at buf 0 (take n (drop 2 (m_msg m)))) n 0"
proof -
  have n: "n \<le> 16" "n < 2 ^ 32"
    using assms(1) by simp_all
  show ?thesis
    unfolding cec_ops_set_timer_program_title_def Let_def assms(2) len_minus(1) [OF n(1)] clamp_u32 [OF n(2)]
    using assms(1) by (simp add: min_absorb2)
qed

lemma title_roundtrip:
  assumes "cec_wf m" and "strlen s < 2 ^ 32" and "15 \<le> length buf"
  shows "c_string (cec_ops_set_timer_program_title (cec_msg_set_timer_program_title s m) buf) =
         take 14 (c_string s)"
proof -
  let ?p = "take 14 (c_string s)" and ?m = "cec_msg_set_timer_program_title s m"
  have "m_len ?m = 2 + word_of_nat (length ?p)" "take (length ?p) (drop 2 (m_msg ?m)) = ?p"
    using assms(1) unfolding title_enc [OF assms(2)] 
    by (simp_all add: take_c_string(2) payload_put_bytes del: length_take)
  then show ?thesis
    using assms(3) c_string_store_memcpy [of ?p buf]
    by (simp add: title_dec [of "length ?p"] take_c_string(3))
qed

lemma meta_title [simp]: "cec_meta (cec_msg_set_timer_program_title s m) = cec_meta m"
  by (simp add: cec_msg_set_timer_program_title_def Let_def)

lemma title_safe:
  fixes s :: "u8 list" and m :: cec_msg
  defines "m' \<equiv> cec_msg_set_timer_program_title s m"
  assumes "cec_wf m"
  shows "cec_wf m'" and "2 \<le> m_len m' \<and> m_len m' \<le> 16"
    and "byte m' 1 = CEC_MSG_SET_TIMER_PROGRAM_TITLE" and "byte m' 0 = byte m 0"
proof -
  obtain n :: u32 where n: "unat n \<le> 14" and m': "m' = (stmts [set_len (2 + n),
             put 1 CEC_MSG_SET_TIMER_PROGRAM_TITLE, put_bytes 2 (take (unat n) s)]) m"
    using clamp_le [of 14 "word_of_nat (strlen s) :: u32"]
    unfolding m'_def cec_msg_set_timer_program_title_def Let_def by auto
  show "cec_wf m'" and "2 \<le> m_len m' \<and> m_len m' \<le> 16"
    and "byte m' 1 = CEC_MSG_SET_TIMER_PROGRAM_TITLE" and "byte m' 0 = byte m 0"
    unfolding m' using n assms(2) by (simp_all add: word_le_nat_alt unat_word_ariths)
qed

interpretation set_timer_program_title: cec_codec
  "\<lambda>p. cec_msg_set_timer_program_title (p @ [0])"
  "\<lambda>m. c_string (cec_ops_set_timer_program_title m (replicate 15 0))"
  "\<lambda>p. length p \<le> 14 \<and> 0 \<notin> set p" CEC_MSG_SET_TIMER_PROGRAM_TITLE False
proof
  fix m :: cec_msg and p :: "u8 list"
  assume m: "cec_wf m" and p: "length p \<le> 14 \<and> 0 \<notin> set p"
  then have "strlen (p @ [0]) < 2 ^ 32"
    by simp
  with m p show
    "c_string (cec_ops_set_timer_program_title (cec_msg_set_timer_program_title (p @ [0]) m) (replicate 15 0)) = p"
    by (simp add: title_roundtrip)
qed (auto simp: title_safe [unfolded One_nat_def])

end
