(* ===== verification/Cec_System.thy ===== *)
theory Cec_System
  imports Cec_Control
begin

text \<open>
  The encoders and decoders of \<open>uapi/linux/cec-funcs.h\<close> for System Information,
  Deck Control, Tuner Control, Vendor Specific Commands, the OSD, Device Menu
  Control, Remote Control, Power Status and the General Protocol Messages.
\<close>

unbundle bit_operations_syntax

section \<open>System Information Feature\<close>

definition cec_msg_cec_version :: "u8 \<Rightarrow> cec_msg \<Rightarrow> cec_msg" where
  [cec_defs]: "cec_msg_cec_version cec_version =
     stmts [set_len 3,
            put 1 CEC_MSG_CEC_VERSION,
            put 2 cec_version]"

definition cec_ops_cec_version :: "cec_msg \<Rightarrow> u8" where
  [cec_defs]: "cec_ops_cec_version m = byte m 2"

definition cec_msg_get_cec_version :: "c_int \<Rightarrow> cec_msg \<Rightarrow> cec_msg" where
  [cec_defs]: "cec_msg_get_cec_version reply =
     stmts [set_len 2,
            put 1 CEC_MSG_GET_CEC_VERSION,
            set_reply reply CEC_MSG_CEC_VERSION]"

definition cec_msg_report_physical_addr :: "u16 \<Rightarrow> u8 \<Rightarrow> cec_msg \<Rightarrow> cec_msg" where
  [cec_defs]: "cec_msg_report_physical_addr phys_addr prim_devtype =
     stmts [set_len 5,
            set_broadcast,
            put 1 CEC_MSG_REPORT_PHYSICAL_ADDR,
            put 2 (hi8 phys_addr),
            put 3 (lo8 phys_addr),
            put 4 prim_devtype]"

definition cec_ops_report_physical_addr :: "cec_msg \<Rightarrow> u16 \<times> u8" where
  [cec_defs]: "cec_ops_report_physical_addr m =
     (be16 (byte m 2) (byte m 3),
      byte m 4)"

definition cec_msg_give_physical_addr :: "c_int \<Rightarrow> cec_msg \<Rightarrow> cec_msg" where
  [cec_defs]: "cec_msg_give_physical_addr reply =
     stmts [set_len 2,
            put 1 CEC_MSG_GIVE_PHYSICAL_ADDR,
            set_reply reply CEC_MSG_REPORT_PHYSICAL_ADDR]"

definition cec_msg_set_menu_language :: "u8 list \<Rightarrow> cec_msg \<Rightarrow> cec_msg" where
  [cec_defs]: "cec_msg_set_menu_language language =
     stmts [set_len 5,
            set_broadcast,
            put 1 CEC_MSG_SET_MENU_LANGUAGE,
            put_bytes 2 (take 3 language)]"

definition cec_ops_set_menu_language :: "cec_msg \<Rightarrow> u8 list \<Rightarrow> u8 list" where
  [cec_defs]: "cec_ops_set_menu_language m language =
     store (memcpy_at language 0 (take 3 (drop 2 (m_msg m)))) 3 0"

definition cec_msg_get_menu_language :: "c_int \<Rightarrow> cec_msg \<Rightarrow> cec_msg" where
  [cec_defs]: "cec_msg_get_menu_language reply =
     stmts [set_len 2,
            put 1 CEC_MSG_GET_MENU_LANGUAGE,
            set_reply reply CEC_MSG_SET_MENU_LANGUAGE]"

definition cec_msg_report_features :: "u8 \<Rightarrow> u8 \<Rightarrow> u8 \<Rightarrow> u8 \<Rightarrow> cec_msg \<Rightarrow> cec_msg" where
  [cec_defs]: "cec_msg_report_features cec_version all_device_types rc_profile dev_features =
     stmts [set_len 6,
            set_broadcast,
            put 1 CEC_MSG_REPORT_FEATURES,
            put 2 cec_version,
            put 3 all_device_types,
            put 4 rc_profile,
            put 5 dev_features]"

text \<open>
  The byte pointers the decoder returns are offsets into the message array,
  \<open>None\<close> for \<open>NULL\<close>; \<open>feat_scan\<close> is its loop
  \<open>while (p < &msg->msg[lim] && (*p & CEC_OP_FEAT_EXT)) p++\<close>.
\<close>

function feat_scan :: "cec_msg \<Rightarrow> nat \<Rightarrow> nat \<Rightarrow> nat" where
  "feat_scan m lim p =
     (if p < lim \<and> byte m p AND CEC_OP_FEAT_EXT \<noteq> 0 then feat_scan m lim (Suc p) else p)"
  by pat_completeness auto
termination
  by (relation "measure (\<lambda>(m, lim, p). lim - p)") auto

declare feat_scan.simps [simp del]

definition cec_ops_report_features ::
  "cec_msg \<Rightarrow> u8 \<times> u8 \<times> nat option \<times> nat option" where
  [cec_defs]: "cec_ops_report_features m =
     (let p = 4;
          cec_version = byte m 2;
          all_device_types = byte m 3;
          rc_profile = Some p;
          dev_features = None;
          p = feat_scan m 14 p;
          (dev_features, p) =
            (if byte m p AND CEC_OP_FEAT_EXT = 0 then (Some (p + 1), feat_scan m 15 p)
             else (dev_features, p));
          (rc_profile, dev_features) =
            (if byte m p AND CEC_OP_FEAT_EXT \<noteq> 0 then (None, None)
             else (rc_profile, dev_features))
      in (cec_version, all_device_types, rc_profile, dev_features))"

definition cec_msg_give_features :: "c_int \<Rightarrow> cec_msg \<Rightarrow> cec_msg" where
  [cec_defs]: "cec_msg_give_features reply =
     stmts [set_len 2,
            put 1 CEC_MSG_GIVE_FEATURES,
            set_reply reply CEC_MSG_REPORT_FEATURES]"

section \<open>Deck Control Feature\<close>

definition cec_msg_deck_control :: "u8 \<Rightarrow> cec_msg \<Rightarrow> cec_msg" where
  [cec_defs]: "cec_msg_deck_control deck_control_mode =
     stmts [set_len 3,
            put 1 CEC_MSG_DECK_CONTROL,
            put 2 deck_control_mode]"

definition cec_ops_deck_control :: "cec_msg \<Rightarrow> u8" where
  [cec_defs]: "cec_ops_deck_control m = byte m 2"

definition cec_msg_deck_status :: "u8 \<Rightarrow> cec_msg \<Rightarrow> cec_msg" where
  [cec_defs]: "cec_msg_deck_status deck_info =
     stmts [set_len 3,
            put 1 CEC_MSG_DECK_STATUS,
            put 2 deck_info]"

definition cec_ops_deck_status :: "cec_msg \<Rightarrow> u8" where
  [cec_defs]: "cec_ops_deck_status m = byte m 2"

definition cec_msg_give_deck_status :: "c_int \<Rightarrow> u8 \<Rightarrow> cec_msg \<Rightarrow> cec_msg" where
  [cec_defs]: "cec_msg_give_deck_status reply status_req =
     stmts [set_len 3,
            put 1 CEC_MSG_GIVE_DECK_STATUS,
            put 2 status_req,
            set_reply (if reply \<noteq> 0 \<and> status_req \<noteq> CEC_OP_STATUS_REQ_OFF then 1 else 0)
              CEC_MSG_DECK_STATUS]"

definition cec_ops_give_deck_status :: "cec_msg \<Rightarrow> u8" where
  [cec_defs]: "cec_ops_give_deck_status m = byte m 2"

definition cec_msg_play :: "u8 \<Rightarrow> cec_msg \<Rightarrow> cec_msg" where
  [cec_defs]: "cec_msg_play play_mode =
     stmts [set_len 3,
            put 1 CEC_MSG_PLAY,
            put 2 play_mode]"

definition cec_ops_play :: "cec_msg \<Rightarrow> u8" where
  [cec_defs]: "cec_ops_play m = byte m 2"

section \<open>Tuner Control Feature\<close>

text \<open>As in the recording source, the union members are kept apart: \<open>tun_is_analog\<close> selects one.\<close>

record cec_op_tuner_device_info =
  tun_rec_flag :: u8
  tun_display_info :: u8
  tun_is_analog :: u8
  tun_digital :: cec_op_digital_service_id
  tun_ana_bcast_type :: u8
  tun_ana_freq :: u16
  tun_bcast_system :: u8

definition cec_msg_tuner_device_status_analog :: "u8 \<Rightarrow> u8 \<Rightarrow> u8 \<Rightarrow> u16 \<Rightarrow> u8 \<Rightarrow> cec_msg \<Rightarrow> cec_msg" where
  [cec_defs]: "cec_msg_tuner_device_status_analog rec_flag tuner_display_info ana_bcast_type ana_freq bcast_system =
     stmts [set_len 7,
            put 1 CEC_MSG_TUNER_DEVICE_STATUS,
            put 2 (push_bit 7 rec_flag OR tuner_display_info),
            put 3 ana_bcast_type,
            put 4 (hi8 ana_freq),
            put 5 (lo8 ana_freq),
            put 6 bcast_system]"

definition cec_msg_tuner_device_status_digital ::
  "u8 \<Rightarrow> u8 \<Rightarrow> cec_op_digital_service_id \<Rightarrow> cec_msg \<Rightarrow> cec_msg" where
  [cec_defs]: "cec_msg_tuner_device_status_digital rec_flag tuner_display_info digital =
     stmts [set_len 10,
            put 1 CEC_MSG_TUNER_DEVICE_STATUS,
            put 2 (push_bit 7 rec_flag OR tuner_display_info),
            cec_set_digital_service_id 3 digital]"

definition cec_msg_tuner_device_status :: "cec_op_tuner_device_info \<Rightarrow> cec_msg \<Rightarrow> cec_msg" where
  [cec_defs]: "cec_msg_tuner_device_status tuner_dev_info =
     (if tun_is_analog tuner_dev_info \<noteq> 0 then
        cec_msg_tuner_device_status_analog
          (tun_rec_flag tuner_dev_info)
          (tun_display_info tuner_dev_info)
          (tun_ana_bcast_type tuner_dev_info)
          (tun_ana_freq tuner_dev_info)
          (tun_bcast_system tuner_dev_info)
      else
        cec_msg_tuner_device_status_digital
          (tun_rec_flag tuner_dev_info)
          (tun_display_info tuner_dev_info)
          (tun_digital tuner_dev_info))"

definition cec_ops_tuner_device_status ::
  "cec_msg \<Rightarrow> cec_op_tuner_device_info \<Rightarrow> cec_op_tuner_device_info" where
  [cec_defs]: "cec_ops_tuner_device_status m tuner_dev_info =
     (let t = tuner_dev_info\<lparr>tun_is_analog := (if m_len m < 10 then 1 else 0),
                             tun_rec_flag := drop_bit 7 (byte m 2),
                             tun_display_info := byte m 2 AND 0x7F\<rparr>
      in if tun_is_analog t \<noteq> 0 then
           t\<lparr>tun_ana_bcast_type := byte m 3,
             tun_ana_freq := be16 (byte m 4) (byte m 5),
             tun_bcast_system := byte m 6\<rparr>
         else t\<lparr>tun_digital := cec_get_digital_service_id 3 m (tun_digital t)\<rparr>)"

definition cec_msg_give_tuner_device_status :: "c_int \<Rightarrow> u8 \<Rightarrow> cec_msg \<Rightarrow> cec_msg" where
  [cec_defs]: "cec_msg_give_tuner_device_status reply status_req =
     stmts [set_len 3,
            put 1 CEC_MSG_GIVE_TUNER_DEVICE_STATUS,
            put 2 status_req,
            set_reply (if reply \<noteq> 0 \<and> status_req \<noteq> CEC_OP_STATUS_REQ_OFF then 1 else 0)
              CEC_MSG_TUNER_DEVICE_STATUS]"

definition cec_ops_give_tuner_device_status :: "cec_msg \<Rightarrow> u8" where
  [cec_defs]: "cec_ops_give_tuner_device_status m = byte m 2"

definition cec_msg_select_analogue_service :: "u8 \<Rightarrow> u16 \<Rightarrow> u8 \<Rightarrow> cec_msg \<Rightarrow> cec_msg" where
  [cec_defs]: "cec_msg_select_analogue_service ana_bcast_type ana_freq bcast_system =
     stmts [set_len 6,
            put 1 CEC_MSG_SELECT_ANALOGUE_SERVICE,
            put 2 ana_bcast_type,
            put 3 (hi8 ana_freq),
            put 4 (lo8 ana_freq),
            put 5 bcast_system]"

definition cec_ops_select_analogue_service :: "cec_msg \<Rightarrow> u8 \<times> u16 \<times> u8" where
  [cec_defs]: "cec_ops_select_analogue_service m =
     (byte m 2,
      be16 (byte m 3) (byte m 4),
      byte m 5)"

definition cec_msg_select_digital_service ::
  "cec_op_digital_service_id \<Rightarrow> cec_msg \<Rightarrow> cec_msg" where
  [cec_defs]: "cec_msg_select_digital_service digital =
     stmts [set_len 9,
            put 1 CEC_MSG_SELECT_DIGITAL_SERVICE,
            cec_set_digital_service_id 2 digital]"

definition cec_ops_select_digital_service ::
  "cec_msg \<Rightarrow> cec_op_digital_service_id \<Rightarrow> cec_op_digital_service_id" where
  [cec_defs]: "cec_ops_select_digital_service m digital = cec_get_digital_service_id 2 m digital"

definition cec_msg_tuner_step_decrement :: "cec_msg \<Rightarrow> cec_msg" where
  [cec_defs]: "cec_msg_tuner_step_decrement =
     stmts [set_len 2,
            put 1 CEC_MSG_TUNER_STEP_DECREMENT]"

definition cec_msg_tuner_step_increment :: "cec_msg \<Rightarrow> cec_msg" where
  [cec_defs]: "cec_msg_tuner_step_increment =
     stmts [set_len 2,
            put 1 CEC_MSG_TUNER_STEP_INCREMENT]"

section \<open>Vendor Specific Commands Feature\<close>

definition cec_msg_device_vendor_id :: "u32 \<Rightarrow> cec_msg \<Rightarrow> cec_msg" where
  [cec_defs]: "cec_msg_device_vendor_id vendor_id =
     stmts [set_len 5,
            set_broadcast,
            put 1 CEC_MSG_DEVICE_VENDOR_ID,
            put 2 (ucast (drop_bit 16 vendor_id)),
            put 3 (ucast (drop_bit 8 vendor_id AND 0xFF)),
            put 4 (ucast (vendor_id AND 0xFF))]"

definition cec_ops_device_vendor_id :: "cec_msg \<Rightarrow> u32" where
  [cec_defs]: "cec_ops_device_vendor_id m = be24 (byte m 2) (byte m 3) (byte m 4)"

definition cec_msg_give_device_vendor_id :: "c_int \<Rightarrow> cec_msg \<Rightarrow> cec_msg" where
  [cec_defs]: "cec_msg_give_device_vendor_id reply =
     stmts [set_len 2,
            put 1 CEC_MSG_GIVE_DEVICE_VENDOR_ID,
            set_reply reply CEC_MSG_DEVICE_VENDOR_ID]"

definition cec_msg_vendor_command :: "u8 \<Rightarrow> u8 list \<Rightarrow> cec_msg \<Rightarrow> cec_msg" where
  [cec_defs]: "cec_msg_vendor_command sz vendor_cmd =
     (let sz = (if sz > 14 then 14 else sz)
      in stmts [set_len (2 + ucast sz),
                put 1 CEC_MSG_VENDOR_COMMAND,
                put_bytes 2 (take (unat sz) vendor_cmd)])"

text \<open>The second result is the offset of the returned pointer in the message array.\<close>

definition cec_ops_vendor_command :: "cec_msg \<Rightarrow> u8 \<times> nat" where
  [cec_defs]: "cec_ops_vendor_command m =
     (let sz = (ucast (m_len m - 2) :: u8);
          sz = (if sz > 14 then 14 else sz)
      in (sz, 2))"

definition cec_msg_vendor_command_with_id :: "u32 \<Rightarrow> u8 \<Rightarrow> u8 list \<Rightarrow> cec_msg \<Rightarrow> cec_msg" where
  [cec_defs]: "cec_msg_vendor_command_with_id vendor_id sz vendor_cmd =
     (let sz = (if sz > 11 then 11 else sz)
      in stmts [set_len (5 + ucast sz),
                put 1 CEC_MSG_VENDOR_COMMAND_WITH_ID,
                put 2 (ucast (drop_bit 16 vendor_id)),
                put 3 (ucast (drop_bit 8 vendor_id AND 0xFF)),
                put 4 (ucast (vendor_id AND 0xFF)),
                put_bytes 5 (take (unat sz) vendor_cmd)])"

definition cec_ops_vendor_command_with_id :: "cec_msg \<Rightarrow> u32 \<times> u8 \<times> nat" where
  [cec_defs]: "cec_ops_vendor_command_with_id m =
     (let sz = (ucast (m_len m - 5) :: u8);
          sz = (if sz > 11 then 11 else sz)
      in (be24 (byte m 2) (byte m 3) (byte m 4), sz, 5))"

definition cec_msg_vendor_remote_button_down :: "u8 \<Rightarrow> u8 list \<Rightarrow> cec_msg \<Rightarrow> cec_msg" where
  [cec_defs]: "cec_msg_vendor_remote_button_down sz rc_code =
     (let sz = (if sz > 14 then 14 else sz)
      in stmts [set_len (2 + ucast sz),
                put 1 CEC_MSG_VENDOR_REMOTE_BUTTON_DOWN,
                put_bytes 2 (take (unat sz) rc_code)])"

definition cec_ops_vendor_remote_button_down :: "cec_msg \<Rightarrow> u8 \<times> nat" where
  [cec_defs]: "cec_ops_vendor_remote_button_down m =
     (let sz = (ucast (m_len m - 2) :: u8);
          sz = (if sz > 14 then 14 else sz)
      in (sz, 2))"

definition cec_msg_vendor_remote_button_up :: "cec_msg \<Rightarrow> cec_msg" where
  [cec_defs]: "cec_msg_vendor_remote_button_up =
     stmts [set_len 2,
            put 1 CEC_MSG_VENDOR_REMOTE_BUTTON_UP]"

section \<open>OSD Display Feature\<close>

definition cec_msg_set_osd_string :: "u8 \<Rightarrow> u8 list \<Rightarrow> cec_msg \<Rightarrow> cec_msg" where
  [cec_defs]: "cec_msg_set_osd_string disp_ctl osd =
     (let len = (word_of_nat (strlen osd) :: u32);
          len = (if len > 13 then 13 else len)
      in stmts [set_len (3 + len),
                put 1 CEC_MSG_SET_OSD_STRING,
                put 2 disp_ctl,
                put_bytes 3 (take (unat len) osd)])"

definition cec_ops_set_osd_string :: "cec_msg \<Rightarrow> u8 list \<Rightarrow> u8 \<times> u8 list" where
  [cec_defs]: "cec_ops_set_osd_string m osd =
     (let len = (if m_len m > 3 then m_len m - 3 else 0);
          disp_ctl = byte m 2;
          len = (if len > 13 then 13 else len)
      in (disp_ctl, store (memcpy_at osd 0 (take (unat len) (drop 3 (m_msg m)))) (unat len) 0))"

section \<open>Device OSD Transfer Feature\<close>

definition cec_msg_set_osd_name :: "u8 list \<Rightarrow> cec_msg \<Rightarrow> cec_msg" where
  [cec_defs]: "cec_msg_set_osd_name name =
     (let len = (word_of_nat (strlen name) :: u32);
          len = (if len > 14 then 14 else len)
      in stmts [set_len (2 + len),
                put 1 CEC_MSG_SET_OSD_NAME,
                put_bytes 2 (take (unat len) name)])"

definition cec_ops_set_osd_name :: "cec_msg \<Rightarrow> u8 list \<Rightarrow> u8 list" where
  [cec_defs]: "cec_ops_set_osd_name m name =
     (let len = (if m_len m > 2 then m_len m - 2 else 0);
          len = (if len > 14 then 14 else len)
      in store (memcpy_at name 0 (take (unat len) (drop 2 (m_msg m)))) (unat len) 0)"

definition cec_msg_give_osd_name :: "c_int \<Rightarrow> cec_msg \<Rightarrow> cec_msg" where
  [cec_defs]: "cec_msg_give_osd_name reply =
     stmts [set_len 2,
            put 1 CEC_MSG_GIVE_OSD_NAME,
            set_reply reply CEC_MSG_SET_OSD_NAME]"

section \<open>Device Menu Control Feature\<close>

definition cec_msg_menu_status :: "u8 \<Rightarrow> cec_msg \<Rightarrow> cec_msg" where
  [cec_defs]: "cec_msg_menu_status menu_state =
     stmts [set_len 3,
            put 1 CEC_MSG_MENU_STATUS,
            put 2 menu_state]"

definition cec_ops_menu_status :: "cec_msg \<Rightarrow> u8" where
  [cec_defs]: "cec_ops_menu_status m = byte m 2"

definition cec_msg_menu_request :: "c_int \<Rightarrow> u8 \<Rightarrow> cec_msg \<Rightarrow> cec_msg" where
  [cec_defs]: "cec_msg_menu_request reply menu_req =
     stmts [set_len 3,
            put 1 CEC_MSG_MENU_REQUEST,
            put 2 menu_req,
            set_reply reply CEC_MSG_MENU_STATUS]"

definition cec_ops_menu_request :: "cec_msg \<Rightarrow> u8" where
  [cec_defs]: "cec_ops_menu_request m = byte m 2"

section \<open>Remote Control Passthrough Feature\<close>

text \<open>
  All one-byte members of the operand union and \<open>channel_number_fmt\<close> are the byte
  at offset 0, here \<open>ui_operand\<close>.
\<close>

record cec_op_ui_command =
  ui_cmd :: u8
  ui_has_opt_arg :: u8
  ui_operand :: u8
  ui_channel_major :: u16
  ui_channel_minor :: u16

definition ui_one_byte :: "u8 \<Rightarrow> bool" where
  [cec_defs]: "ui_one_byte cmd \<longleftrightarrow>
     cmd = CEC_OP_UI_CMD_SELECT_BROADCAST_TYPE \<or>
     cmd = CEC_OP_UI_CMD_SELECT_SOUND_PRESENTATION \<or>
     cmd = CEC_OP_UI_CMD_PLAY_FUNCTION \<or>
     cmd = CEC_OP_UI_CMD_SELECT_MEDIA_FUNCTION \<or>
     cmd = CEC_OP_UI_CMD_SELECT_AV_INPUT_FUNCTION \<or>
     cmd = CEC_OP_UI_CMD_SELECT_AUDIO_INPUT_FUNCTION"

definition cec_msg_user_control_pressed :: "cec_op_ui_command \<Rightarrow> cec_msg \<Rightarrow> cec_msg" where
  [cec_defs]: "cec_msg_user_control_pressed ui =
     stmts [set_len 3,
            put 1 CEC_MSG_USER_CONTROL_PRESSED,
            put 2 (ui_cmd ui),
            (if ui_has_opt_arg ui = 0 then id
             else if ui_one_byte (ui_cmd ui) then
               stmts [(\<lambda>m. set_len (m_len m + 1) m),
                      put 3 (ui_operand ui)]
             else if ui_cmd ui = CEC_OP_UI_CMD_TUNE_FUNCTION then
               stmts [(\<lambda>m. set_len (m_len m + 4) m),
                      put 3 (push_bit 2 (ui_operand ui) OR hi8 (ui_channel_major ui)),
                      put 4 (lo8 (ui_channel_major ui)),
                      put 5 (hi8 (ui_channel_minor ui)),
                      put 6 (lo8 (ui_channel_minor ui))]
             else id)]"

definition cec_ops_user_control_pressed ::
  "cec_msg \<Rightarrow> cec_op_ui_command \<Rightarrow> cec_op_ui_command" where
  [cec_defs]: "cec_ops_user_control_pressed m ui =
     (let ui = ui\<lparr>ui_cmd := byte m 2, ui_has_opt_arg := 0\<rparr>
      in if m_len m = 3 then ui
         else if ui_one_byte (ui_cmd ui) then
           ui\<lparr>ui_operand := byte m 3, ui_has_opt_arg := 1\<rparr>
         else if ui_cmd ui = CEC_OP_UI_CMD_TUNE_FUNCTION then
           if m_len m < 7 then ui
           else ui\<lparr>ui_has_opt_arg := 1,
                   ui_operand := drop_bit 2 (byte m 3),
                   ui_channel_major := push_bit 6 (ucast (byte m 3 AND 3)) OR ucast (byte m 4),
                   ui_channel_minor := be16 (byte m 5) (byte m 6)\<rparr>
         else ui)"

definition cec_msg_user_control_released :: "cec_msg \<Rightarrow> cec_msg" where
  [cec_defs]: "cec_msg_user_control_released =
     stmts [set_len 2,
            put 1 CEC_MSG_USER_CONTROL_RELEASED]"

section \<open>Power Status Feature\<close>

definition cec_msg_report_power_status :: "u8 \<Rightarrow> cec_msg \<Rightarrow> cec_msg" where
  [cec_defs]: "cec_msg_report_power_status pwr_state =
     stmts [set_len 3,
            put 1 CEC_MSG_REPORT_POWER_STATUS,
            put 2 pwr_state]"

definition cec_ops_report_power_status :: "cec_msg \<Rightarrow> u8" where
  [cec_defs]: "cec_ops_report_power_status m = byte m 2"

definition cec_msg_give_device_power_status :: "c_int \<Rightarrow> cec_msg \<Rightarrow> cec_msg" where
  [cec_defs]: "cec_msg_give_device_power_status reply =
     stmts [set_len 2,
            put 1 CEC_MSG_GIVE_DEVICE_POWER_STATUS,
            set_reply reply CEC_MSG_REPORT_POWER_STATUS]"

section \<open>General Protocol Messages\<close>

definition cec_msg_feature_abort :: "u8 \<Rightarrow> u8 \<Rightarrow> cec_msg \<Rightarrow> cec_msg" where
  [cec_defs]: "cec_msg_feature_abort abort_msg reason =
     stmts [set_len 4,
            put 1 CEC_MSG_FEATURE_ABORT,
            put 2 abort_msg,
            put 3 reason]"

definition cec_ops_feature_abort :: "cec_msg \<Rightarrow> u8 \<times> u8" where
  [cec_defs]: "cec_ops_feature_abort m =
     (byte m 2,
      byte m 3)"

definition cec_msg_reply_feature_abort :: "u8 \<Rightarrow> cec_msg \<Rightarrow> cec_msg" where
  [cec_defs]: "cec_msg_reply_feature_abort reason =
     stmts [(\<lambda>m. cec_msg_set_reply_to m m),
            set_len 4,
            (\<lambda>m. put 2 (byte m 1) m),
            put 3 reason,
            put 1 CEC_MSG_FEATURE_ABORT]"

definition cec_msg_abort :: "cec_msg \<Rightarrow> cec_msg" where
  [cec_defs]: "cec_msg_abort =
     stmts [set_len 2,
            put 1 CEC_MSG_ABORT]"

section \<open>The codecs with fixed layout\<close>

interpretation cec_version: cec_codec
  "cec_msg_cec_version"
  "cec_ops_cec_version"
  "\<lambda>_. True" CEC_MSG_CEC_VERSION False
  by unfold_locales (auto simp: cec_defs)

interpretation deck_control: cec_codec
  "cec_msg_deck_control"
  "cec_ops_deck_control"
  "\<lambda>_. True" CEC_MSG_DECK_CONTROL False
  by unfold_locales (auto simp: cec_defs)

interpretation deck_status: cec_codec
  "cec_msg_deck_status"
  "cec_ops_deck_status"
  "\<lambda>_. True" CEC_MSG_DECK_STATUS False
  by unfold_locales (auto simp: cec_defs)

interpretation play: cec_codec
  "cec_msg_play"
  "cec_ops_play"
  "\<lambda>_. True" CEC_MSG_PLAY False
  by unfold_locales (auto simp: cec_defs)

interpretation menu_status: cec_codec
  "cec_msg_menu_status"
  "cec_ops_menu_status"
  "\<lambda>_. True" CEC_MSG_MENU_STATUS False
  by unfold_locales (auto simp: cec_defs)

interpretation report_power_status: cec_codec
  "cec_msg_report_power_status"
  "cec_ops_report_power_status"
  "\<lambda>_. True" CEC_MSG_REPORT_POWER_STATUS False
  by unfold_locales (auto simp: cec_defs)

interpretation get_cec_version: cec_codec
  "\<lambda>_ :: unit. cec_msg_get_cec_version reply"
  "\<lambda>_. ()"
  "\<lambda>_. True" CEC_MSG_GET_CEC_VERSION False for reply
  by unfold_locales (auto simp: cec_defs)

interpretation give_physical_addr: cec_codec
  "\<lambda>_ :: unit. cec_msg_give_physical_addr reply"
  "\<lambda>_. ()"
  "\<lambda>_. True" CEC_MSG_GIVE_PHYSICAL_ADDR False for reply
  by unfold_locales (auto simp: cec_defs)

interpretation get_menu_language: cec_codec
  "\<lambda>_ :: unit. cec_msg_get_menu_language reply"
  "\<lambda>_. ()"
  "\<lambda>_. True" CEC_MSG_GET_MENU_LANGUAGE False for reply
  by unfold_locales (auto simp: cec_defs)

interpretation give_features: cec_codec
  "\<lambda>_ :: unit. cec_msg_give_features reply"
  "\<lambda>_. ()"
  "\<lambda>_. True" CEC_MSG_GIVE_FEATURES False for reply
  by unfold_locales (auto simp: cec_defs)

interpretation give_device_vendor_id: cec_codec
  "\<lambda>_ :: unit. cec_msg_give_device_vendor_id reply"
  "\<lambda>_. ()"
  "\<lambda>_. True" CEC_MSG_GIVE_DEVICE_VENDOR_ID False for reply
  by unfold_locales (auto simp: cec_defs)

interpretation give_osd_name: cec_codec
  "\<lambda>_ :: unit. cec_msg_give_osd_name reply"
  "\<lambda>_. ()"
  "\<lambda>_. True" CEC_MSG_GIVE_OSD_NAME False for reply
  by unfold_locales (auto simp: cec_defs)

interpretation give_device_power_status: cec_codec
  "\<lambda>_ :: unit. cec_msg_give_device_power_status reply"
  "\<lambda>_. ()"
  "\<lambda>_. True" CEC_MSG_GIVE_DEVICE_POWER_STATUS False for reply
  by unfold_locales (auto simp: cec_defs)

interpretation tuner_step_decrement: cec_codec
  "\<lambda>_ :: unit. cec_msg_tuner_step_decrement"
  "\<lambda>_. ()"
  "\<lambda>_. True" CEC_MSG_TUNER_STEP_DECREMENT False
  by unfold_locales (auto simp: cec_defs)

interpretation tuner_step_increment: cec_codec
  "\<lambda>_ :: unit. cec_msg_tuner_step_increment"
  "\<lambda>_. ()"
  "\<lambda>_. True" CEC_MSG_TUNER_STEP_INCREMENT False
  by unfold_locales (auto simp: cec_defs)

interpretation vendor_remote_button_up: cec_codec
  "\<lambda>_ :: unit. cec_msg_vendor_remote_button_up"
  "\<lambda>_. ()"
  "\<lambda>_. True" CEC_MSG_VENDOR_REMOTE_BUTTON_UP False
  by unfold_locales (auto simp: cec_defs)

interpretation user_control_released: cec_codec
  "\<lambda>_ :: unit. cec_msg_user_control_released"
  "\<lambda>_. ()"
  "\<lambda>_. True" CEC_MSG_USER_CONTROL_RELEASED False
  by unfold_locales (auto simp: cec_defs)

interpretation msg_abort: cec_codec
  "\<lambda>_ :: unit. cec_msg_abort"
  "\<lambda>_. ()"
  "\<lambda>_. True" CEC_MSG_ABORT False
  by unfold_locales (auto simp: cec_defs)

interpretation give_deck_status: cec_codec
  "cec_msg_give_deck_status reply"
  "cec_ops_give_deck_status"
  "\<lambda>_. True" CEC_MSG_GIVE_DECK_STATUS False for reply
  by unfold_locales (auto simp: cec_defs)

interpretation give_tuner_device_status: cec_codec
  "cec_msg_give_tuner_device_status reply"
  "cec_ops_give_tuner_device_status"
  "\<lambda>_. True" CEC_MSG_GIVE_TUNER_DEVICE_STATUS False for reply
  by unfold_locales (auto simp: cec_defs)

interpretation menu_request: cec_codec
  "cec_msg_menu_request reply"
  "cec_ops_menu_request"
  "\<lambda>_. True" CEC_MSG_MENU_REQUEST False for reply
  by unfold_locales (auto simp: cec_defs)

interpretation report_physical_addr: cec_codec
  "\<lambda>(a, b). cec_msg_report_physical_addr a b"
  "cec_ops_report_physical_addr"
  "\<lambda>_. True" CEC_MSG_REPORT_PHYSICAL_ADDR True
  by unfold_locales (auto simp: cec_defs)

interpretation feature_abort: cec_codec
  "\<lambda>(a, b). cec_msg_feature_abort a b"
  "cec_ops_feature_abort"
  "\<lambda>_. True" CEC_MSG_FEATURE_ABORT False
  by unfold_locales (auto simp: cec_defs)

interpretation select_analogue_service: cec_codec
  "\<lambda>(bt, fr, bs). cec_msg_select_analogue_service bt fr bs"
  "cec_ops_select_analogue_service"
  "\<lambda>_. True" CEC_MSG_SELECT_ANALOGUE_SERVICE False
  by unfold_locales (auto simp: cec_defs)

interpretation select_digital_service: cec_codec
  "cec_msg_select_digital_service"
  "\<lambda>m. cec_ops_select_digital_service m digital0"
  "digital_ok" CEC_MSG_SELECT_DIGITAL_SERVICE False
  by unfold_locales (auto simp: cec_msg_select_digital_service_def cec_ops_select_digital_service_def)

interpretation device_vendor_id: cec_codec
  "cec_msg_device_vendor_id"
  "cec_ops_device_vendor_id"
  "\<lambda>v. v < 2 ^ 24" CEC_MSG_DEVICE_VENDOR_ID True
  by unfold_locales (auto simp: cec_defs be24_split take_bit_word_small)

interpretation set_menu_language: cec_codec
  cec_msg_set_menu_language
  "\<lambda>m. c_string (cec_ops_set_menu_language m (replicate 4 0))"
  "\<lambda>p. length p = 3 \<and> 0 \<notin> set p" CEC_MSG_SET_MENU_LANGUAGE True
proof
  fix m :: cec_msg and p :: "u8 list"
  assume m: "cec_wf m" and p: "length p = 3 \<and> 0 \<notin> set p"
  then have "take 3 (drop 2 (m_msg (cec_msg_set_menu_language p m))) = p"
    by (simp add: cec_msg_set_menu_language_def payload_put_bytes)
  then show "c_string (cec_ops_set_menu_language (cec_msg_set_menu_language p m) (replicate 4 0)) = p"
    using p c_string_store_memcpy [of p "replicate 4 0"] by (simp add: cec_ops_set_menu_language_def)
qed (auto simp: cec_msg_set_menu_language_def)

section \<open>Feature reports\<close>

lemma feat_scan_bounds: "p \<le> lim \<Longrightarrow> p \<le> feat_scan m lim p \<and> feat_scan m lim p \<le> lim"
proof (induction m lim p rule: feat_scan.induct)
  case (1 m lim p)
  then show ?case
    by (subst (1 2) feat_scan.simps) (auto simp: Suc_le_eq)
qed

lemma feat_scan_stop: "byte m p AND CEC_OP_FEAT_EXT = 0 \<Longrightarrow> feat_scan m lim p = p"
  by (simp add: feat_scan.simps)

lemma feat_scan_ends: "p \<le> lim \<Longrightarrow> byte m (feat_scan m lim p) AND CEC_OP_FEAT_EXT \<noteq> 0 \<Longrightarrow> feat_scan m lim p = lim"
proof (induction m lim p rule: feat_scan.induct)
  case (1 m lim p)
  show ?case
  proof (cases "p < lim \<and> byte m p AND CEC_OP_FEAT_EXT \<noteq> 0")
    case True
    with 1 show ?thesis by (simp add: feat_scan.simps [of m lim p])
  next
    case False
    then have "feat_scan m lim p = p" by (subst feat_scan.simps) auto
    with 1 False show ?thesis by auto
  qed
qed

lemma feat_scan_before: "p \<le> lim \<Longrightarrow> list_all (\<lambda>j. byte m j AND CEC_OP_FEAT_EXT \<noteq> 0) [p..<feat_scan m lim p]"
proof (induction m lim p rule: feat_scan.induct)
  case (1 m lim p)
  show ?case
  proof (cases "p < lim \<and> byte m p AND CEC_OP_FEAT_EXT \<noteq> 0")
    case True
    moreover have "p < feat_scan m lim (Suc p)"
      using feat_scan_bounds [of "Suc p" lim m] True by simp
    ultimately show ?thesis
      using 1 by (simp add: feat_scan.simps [of m lim p] upt_conv_Cons)
  qed (simp add: feat_scan.simps)
qed

lemma report_features_result:
  "cec_ops_report_features m =
     (let p = feat_scan m 14 4
      in if byte m p AND CEC_OP_FEAT_EXT = 0 then (byte m 2, byte m 3, Some 4, Some (p + 1))
         else (byte m 2, byte m 3, None, None))"
  by (simp add: cec_ops_report_features_def Let_def feat_scan_stop)

definition features_of :: "cec_msg \<Rightarrow> u8 \<times> u8 \<times> u8 \<times> u8" where
  "features_of m = (case cec_ops_report_features m of
     (v, t, Some i, Some j) \<Rightarrow> (v, t, byte m i, byte m j) | (v, t, _, _) \<Rightarrow> (v, t, 0, 0))"

interpretation report_features: cec_codec
  "\<lambda>(v, t, rc, df). cec_msg_report_features v t rc df"
  features_of
  "\<lambda>(v, t, rc, df). rc AND CEC_OP_FEAT_EXT = 0" CEC_MSG_REPORT_FEATURES True
  by unfold_locales
    (auto simp: cec_msg_report_features_def features_of_def report_features_result feat_scan_stop Let_def)

section \<open>Tuner status\<close>

definition tuner0 :: cec_op_tuner_device_info where
  "tuner0 = \<lparr>tun_rec_flag = 0, tun_display_info = 0, tun_is_analog = 0, tun_digital = digital0,
     tun_ana_bcast_type = 0, tun_ana_freq = 0, tun_bcast_system = 0\<rparr>"

definition tuner_ok :: "cec_op_tuner_device_info \<Rightarrow> bool" where
  "tuner_ok t \<longleftrightarrow> tun_rec_flag t < 2 \<and> tun_display_info t < 128 \<and>
     (tun_is_analog t = 1 \<and> tun_digital t = digital0 \<or>
      tun_is_analog t = 0 \<and> digital_ok (tun_digital t) \<and>
        tun_ana_bcast_type t = 0 \<and> tun_ana_freq t = 0 \<and> tun_bcast_system t = 0)"

lemma tuner_roundtrip:
  assumes "cec_wf m" and "tuner_ok t"
  shows "cec_ops_tuner_device_status (cec_msg_tuner_device_status t m) tuner0 = t"
proof (cases "tun_is_analog t = 0")
  case True
  then show ?thesis
    using assms by (cases t) (auto simp: cec_msg_tuner_device_status_def tuner_ok_def tuner0_def
        cec_msg_tuner_device_status_digital_def cec_ops_tuner_device_status_def Let_def word_lits u8_pack)
next
  case False
  then show ?thesis
    using assms by (cases t) (auto simp: cec_msg_tuner_device_status_def tuner_ok_def tuner0_def
        cec_msg_tuner_device_status_analog_def cec_ops_tuner_device_status_def Let_def word_lits u8_pack)
qed

interpretation tuner_device_status: cec_codec
  cec_msg_tuner_device_status
  "\<lambda>m. cec_ops_tuner_device_status m tuner0"
  tuner_ok CEC_MSG_TUNER_DEVICE_STATUS False
proof
  show "cec_wf m \<Longrightarrow> tuner_ok t \<Longrightarrow>
      cec_ops_tuner_device_status (cec_msg_tuner_device_status t m) tuner0 = t" for m t
    by (rule tuner_roundtrip)
qed (auto simp: cec_msg_tuner_device_status_def cec_msg_tuner_device_status_analog_def
    cec_msg_tuner_device_status_digital_def)

section \<open>Vendor commands\<close>

lemma ucast_len [simp]: "ucast (ucast (x :: u8) :: u32) = x"
  by (rule bit_word_eqI) (auto simp: bit_simps dest: bit_imp_le_length)

lemma unat_ucast_u8 [simp]: "unat (ucast (x :: u8) :: u32) = unat x"
  by (simp add: unsigned_ucast_eq take_bit_nat_eq_self less_trans [OF unsigned_less])

lemma clamp_id [simp]: "(if (if (x :: 'a::linorder) > k then k else x) > k then k else
    (if x > k then k else x)) = (if x > k then k else x)"
  by simp

text \<open>The bytes a decoder's size and pointer denote.\<close>

definition payload :: "cec_msg \<Rightarrow> u8 \<times> nat \<Rightarrow> u8 list" where
  "payload m r = (case r of (sz, off) \<Rightarrow> take (unat sz) (drop off (m_msg m)))"

lemmas vendor_defs = cec_msg_vendor_command_def cec_msg_vendor_remote_button_down_def
  cec_msg_vendor_command_with_id_def Let_def

lemma vendor_safe:
  assumes "cec_wf m"
  shows "cec_wf (cec_msg_vendor_command sz bs m)"
    and "cec_wf (cec_msg_vendor_remote_button_down sz bs m)"
    and "cec_wf (cec_msg_vendor_command_with_id v sz bs m)"
  using assms by (cases "sz > 14"; cases "sz > 11"; simp add: vendor_defs word_less_nat_alt)+

lemma vendor_len:
  "2 \<le> m_len (cec_msg_vendor_command sz bs m) \<and> m_len (cec_msg_vendor_command sz bs m) \<le> 16"
  "2 \<le> m_len (cec_msg_vendor_remote_button_down sz bs m) \<and>
   m_len (cec_msg_vendor_remote_button_down sz bs m) \<le> 16"
  "2 \<le> m_len (cec_msg_vendor_command_with_id v sz bs m) \<and>
   m_len (cec_msg_vendor_command_with_id v sz bs m) \<le> 16"
  by (simp_all add: vendor_defs word_less_nat_alt word_le_nat_alt unat_word_ariths)

lemma vendor_meta [simp]:
  "cec_meta (cec_msg_vendor_command sz bs m) = cec_meta m"
  "cec_meta (cec_msg_vendor_remote_button_down sz bs m) = cec_meta m"
  "cec_meta (cec_msg_vendor_command_with_id v sz bs m) = cec_meta m"
  by (simp_all add: vendor_defs)

lemma vendor_hdr:
  assumes "cec_wf m"
  shows "byte (cec_msg_vendor_command sz bs m) 0 = byte m 0"
    and "byte (cec_msg_vendor_command sz bs m) (Suc 0) = CEC_MSG_VENDOR_COMMAND"
    and "byte (cec_msg_vendor_remote_button_down sz bs m) 0 = byte m 0"
    and "byte (cec_msg_vendor_remote_button_down sz bs m) (Suc 0) = CEC_MSG_VENDOR_REMOTE_BUTTON_DOWN"
    and "byte (cec_msg_vendor_command_with_id v sz bs m) 0 = byte m 0"
    and "byte (cec_msg_vendor_command_with_id v sz bs m) (Suc 0) = CEC_MSG_VENDOR_COMMAND_WITH_ID"
  using assms by (cases "sz > 14"; cases "sz > 11"; simp add: vendor_defs word_less_nat_alt)+

lemma vendor_roundtrip:
  assumes "cec_wf m" and "length p = unat sz" and "sz \<le> 14"
  shows "payload (cec_msg_vendor_command sz p m)
           (cec_ops_vendor_command (cec_msg_vendor_command sz p m)) = p"
    and "payload (cec_msg_vendor_remote_button_down sz p m)
           (cec_ops_vendor_remote_button_down (cec_msg_vendor_remote_button_down sz p m)) = p"
  using assms by (simp_all add: vendor_defs payload_def cec_ops_vendor_command_def
      cec_ops_vendor_remote_button_down_def payload_put_bytes word_le_nat_alt word_less_nat_alt)

lemma vendor_with_id_roundtrip:
  assumes "cec_wf m" and "length p = unat sz" and "sz \<le> 11" and "v < 2 ^ 24"
  shows "(case cec_ops_vendor_command_with_id (cec_msg_vendor_command_with_id v sz p m) of
      (v', r) \<Rightarrow> (v', payload (cec_msg_vendor_command_with_id v sz p m) r)) = (v, p)"
  using assms by (simp add: vendor_defs payload_def cec_ops_vendor_command_with_id_def
      payload_put_bytes be24_split take_bit_word_small word_le_nat_alt word_less_nat_alt)

text \<open>A size above the limit of the message is cut to it, and so are the bytes.\<close>

lemma vendor_clamped:
  "cec_msg_vendor_command sz p m =
     cec_msg_vendor_command (if sz > 14 then 14 else sz) (take (unat (if sz > 14 then 14 else sz)) p) m"
  "cec_msg_vendor_remote_button_down sz p m =
     cec_msg_vendor_remote_button_down (if sz > 14 then 14 else sz) (take (unat (if sz > 14 then 14 else sz)) p) m"
  "cec_msg_vendor_command_with_id v sz p m =
     cec_msg_vendor_command_with_id v (if sz > 11 then 11 else sz) (take (unat (if sz > 11 then 11 else sz)) p) m"
  by (simp_all add: vendor_defs)

lemma vendor_payload:
  assumes "cec_wf m" and "unat sz \<le> length p"
  shows "payload (cec_msg_vendor_command sz p m) (cec_ops_vendor_command (cec_msg_vendor_command sz p m)) =
           take (min 14 (unat sz)) p"
    and "payload (cec_msg_vendor_remote_button_down sz p m)
           (cec_ops_vendor_remote_button_down (cec_msg_vendor_remote_button_down sz p m)) = take (min 14 (unat sz)) p"
    and "v < 2 ^ 24 \<Longrightarrow>
         (case cec_ops_vendor_command_with_id (cec_msg_vendor_command_with_id v sz p m) of
            (v', r) \<Rightarrow> (v', payload (cec_msg_vendor_command_with_id v sz p m) r)) = (v, take (min 11 (unat sz)) p)"
proof -
  let ?s14 = "if sz > 14 then 14 else sz" and ?s11 = "if sz > 11 then 11 else sz"
  have u: "unat ?s14 = min 14 (unat sz)" "unat ?s11 = min 11 (unat sz)"
    by (simp_all add: word_less_nat_alt min_def)
  then have l: "length (take (unat ?s14) p) = unat ?s14" "length (take (unat ?s11) p) = unat ?s11"
    using assms(2) by simp_all
  note v = vendor_roundtrip [OF assms(1) l(1)] vendor_with_id_roundtrip [OF assms(1) l(2)]
  show "payload (cec_msg_vendor_command sz p m) (cec_ops_vendor_command (cec_msg_vendor_command sz p m)) =
      take (min 14 (unat sz)) p"
    unfolding vendor_clamped(1) [of sz] u(1) [symmetric] by (rule v(1)) (simp add: not_less)
  show "payload (cec_msg_vendor_remote_button_down sz p m)
      (cec_ops_vendor_remote_button_down (cec_msg_vendor_remote_button_down sz p m)) = take (min 14 (unat sz)) p"
    unfolding vendor_clamped(2) [of sz] u(1) [symmetric] by (rule v(2)) (simp add: not_less)
  show "v < 2 ^ 24 \<Longrightarrow>
      (case cec_ops_vendor_command_with_id (cec_msg_vendor_command_with_id v sz p m) of
         (v', r) \<Rightarrow> (v', payload (cec_msg_vendor_command_with_id v sz p m) r)) = (v, take (min 11 (unat sz)) p)"
    unfolding vendor_clamped(3) [of v sz] u(2) [symmetric] by (rule v(3)) (simp_all add: not_less)
qed

lemma size_of_list: "length p \<le> 255 \<Longrightarrow> unat (word_of_nat (length p) :: u8) = length p"
  by (simp add: unat_of_nat)

lemma size_le: "length p \<le> 14 \<Longrightarrow> (word_of_nat (length p) :: u8) \<le> 14"
  by (simp add: word_le_nat_alt size_of_list)

interpretation vendor_command: cec_codec
  "\<lambda>p. cec_msg_vendor_command (word_of_nat (length p)) p"
  "\<lambda>m. payload m (cec_ops_vendor_command m)"
  "\<lambda>p. length p \<le> 14" CEC_MSG_VENDOR_COMMAND False
  by unfold_locales
    (auto simp: vendor_safe vendor_len vendor_hdr vendor_roundtrip size_of_list size_le)

interpretation vendor_remote_button_down: cec_codec
  "\<lambda>p. cec_msg_vendor_remote_button_down (word_of_nat (length p)) p"
  "\<lambda>m. payload m (cec_ops_vendor_remote_button_down m)"
  "\<lambda>p. length p \<le> 14" CEC_MSG_VENDOR_REMOTE_BUTTON_DOWN False
  by unfold_locales
    (auto simp: vendor_safe vendor_len vendor_hdr vendor_roundtrip size_of_list size_le)

interpretation vendor_command_with_id: cec_codec
  "\<lambda>(v, p). cec_msg_vendor_command_with_id v (word_of_nat (length p)) p"
  "\<lambda>m. case cec_ops_vendor_command_with_id m of (v, r) \<Rightarrow> (v, payload m r)"
  "\<lambda>(v, p). v < 2 ^ 24 \<and> length p \<le> 11" CEC_MSG_VENDOR_COMMAND_WITH_ID False
proof
  fix m :: cec_msg and vp :: "u32 \<times> u8 list"
  assume m: "cec_wf m" and ok: "case vp of (v, p) \<Rightarrow> v < 2 ^ 24 \<and> length p \<le> 11"
  obtain v p where vp: "vp = (v, p)" by force
  have "unat (word_of_nat (length p) :: u8) = length p"
    using ok vp by (intro size_of_list) auto
  with m ok vp show "(case cec_ops_vendor_command_with_id
        ((case vp of (v, p) \<Rightarrow> cec_msg_vendor_command_with_id v (word_of_nat (length p)) p) m) of
      (v, r) \<Rightarrow> (v, payload ((case vp of (v, p) \<Rightarrow>
        cec_msg_vendor_command_with_id v (word_of_nat (length p)) p) m) r)) = vp"
    using vendor_with_id_roundtrip [of m p "word_of_nat (length p)" v] by (simp add: word_le_nat_alt)
qed (auto simp: vendor_safe vendor_len vendor_hdr)

section \<open>On screen display strings\<close>

lemma osd_name_title:
  "cec_ops_set_osd_name = cec_ops_set_timer_program_title"
  by (simp add: fun_eq_iff cec_ops_set_osd_name_def cec_ops_set_timer_program_title_def)

lemma osd_name_enc:
  assumes "strlen s < 2 ^ 32"
  shows "cec_msg_set_osd_name s =
     stmts [set_len (2 + word_of_nat (min 14 (strlen s))),
            put 1 CEC_MSG_SET_OSD_NAME,
            put_bytes 2 (take 14 (c_string s))]"
  unfolding cec_msg_set_osd_name_def Let_def clamp_u32 [OF assms] by (simp add: take_c_string)

lemma osd_name_roundtrip:
  assumes "cec_wf m" and "strlen s < 2 ^ 32" and "15 \<le> length buf"
  shows "c_string (cec_ops_set_osd_name (cec_msg_set_osd_name s m) buf) = take 14 (c_string s)"
proof -
  let ?p = "take 14 (c_string s)" and ?m = "cec_msg_set_osd_name s m"
  have "m_len ?m = 2 + word_of_nat (length ?p)" "take (length ?p) (drop 2 (m_msg ?m)) = ?p"
    using assms(1) unfolding osd_name_enc [OF assms(2)]
    by (simp_all add: take_c_string(2) payload_put_bytes del: length_take)
  then show ?thesis
    using assms(3) c_string_store_memcpy [of ?p buf]
    by (simp add: osd_name_title title_dec [of "length ?p"] take_c_string(3))
qed

lemma osd_string_enc:
  assumes "strlen s < 2 ^ 32"
  shows "cec_msg_set_osd_string ctl s =
     stmts [set_len (3 + word_of_nat (min 13 (strlen s))),
            put 1 CEC_MSG_SET_OSD_STRING,
            put 2 ctl,
            put_bytes 3 (take 13 (c_string s))]"
  unfolding cec_msg_set_osd_string_def Let_def clamp_u32 [OF assms] by (simp add: take_c_string)

lemma osd_string_dec:
  assumes "n \<le> 13" and "m_len m = 3 + word_of_nat n"
  shows "cec_ops_set_osd_string m buf =
         (byte m 2, store (memcpy_at buf 0 (take n (drop 3 (m_msg m)))) n 0)"
proof -
  have n: "n \<le> 16" "n < 2 ^ 32"
    using assms(1) by simp_all
  show ?thesis
    unfolding cec_ops_set_osd_string_def Let_def assms(2) len_minus(2) [OF n(1)] clamp_u32 [OF n(2)]
    using assms(1) by (simp add: min_absorb2)
qed

lemma osd_string_roundtrip:
  assumes "cec_wf m" and "strlen s < 2 ^ 32" and "14 \<le> length buf"
  shows "map_prod id c_string (cec_ops_set_osd_string (cec_msg_set_osd_string ctl s m) buf) =
         (ctl, take 13 (c_string s))"
proof -
  let ?p = "take 13 (c_string s)" and ?m = "cec_msg_set_osd_string ctl s m"
  have "m_len ?m = 3 + word_of_nat (length ?p)" "take (length ?p) (drop 3 (m_msg ?m)) = ?p" "byte ?m 2 = ctl"
    using assms(1) unfolding osd_string_enc [OF assms(2)]
    by (simp_all add: take_c_string(2) payload_put_bytes del: length_take)
  then show ?thesis
    using assms(3) c_string_store_memcpy [of ?p buf]
    by (simp add: osd_string_dec [of "length ?p"] take_c_string(3))
qed

lemma osd_safe:
  assumes "cec_wf m"
  shows "cec_wf (cec_msg_set_osd_name s m)" and "cec_wf (cec_msg_set_osd_string ctl s m)"
    and "byte (cec_msg_set_osd_name s m) 0 = byte m 0"
    and "byte (cec_msg_set_osd_string ctl s m) 0 = byte m 0"
    and "byte (cec_msg_set_osd_name s m) (Suc 0) = CEC_MSG_SET_OSD_NAME"
    and "byte (cec_msg_set_osd_string ctl s m) (Suc 0) = CEC_MSG_SET_OSD_STRING"
  using assms clamp_le [of 14 "word_of_nat (strlen s) :: u32"] clamp_le [of 13 "word_of_nat (strlen s) :: u32"]
  unfolding cec_msg_set_osd_name_def cec_msg_set_osd_string_def Let_def by simp_all

lemma osd_len:
  "2 \<le> m_len (cec_msg_set_osd_name s m) \<and> m_len (cec_msg_set_osd_name s m) \<le> 16"
  "2 \<le> m_len (cec_msg_set_osd_string ctl s m) \<and> m_len (cec_msg_set_osd_string ctl s m) \<le> 16"
  by (simp_all add: cec_msg_set_osd_name_def cec_msg_set_osd_string_def Let_def
      word_less_nat_alt word_le_nat_alt unat_word_ariths)

interpretation set_osd_name: cec_codec
  "\<lambda>p. cec_msg_set_osd_name (p @ [0])"
  "\<lambda>m. c_string (cec_ops_set_osd_name m (replicate 15 0))"
  "\<lambda>p. length p \<le> 14 \<and> 0 \<notin> set p" CEC_MSG_SET_OSD_NAME False
proof
  fix m :: cec_msg and p :: "u8 list"
  assume m: "cec_wf m" and p: "length p \<le> 14 \<and> 0 \<notin> set p"
  then have "strlen (p @ [0]) < 2 ^ 32" by simp
  with m p show "c_string (cec_ops_set_osd_name (cec_msg_set_osd_name (p @ [0]) m) (replicate 15 0)) = p"
    by (simp add: osd_name_roundtrip)
qed (auto simp: osd_safe osd_len, simp add: cec_msg_set_osd_name_def Let_def)

interpretation set_osd_string: cec_codec
  "\<lambda>(ctl, p). cec_msg_set_osd_string ctl (p @ [0])"
  "\<lambda>m. map_prod id c_string (cec_ops_set_osd_string m (replicate 14 0))"
  "\<lambda>(ctl, p). length p \<le> 13 \<and> 0 \<notin> set p" CEC_MSG_SET_OSD_STRING False
proof
  fix m :: cec_msg and cp :: "u8 \<times> u8 list"
  assume m: "cec_wf m" and p: "case cp of (ctl, p) \<Rightarrow> length p \<le> 13 \<and> 0 \<notin> set p"
  obtain ctl p where cp: "cp = (ctl, p)" by force
  with p have "strlen (p @ [0]) < 2 ^ 32" by simp
  with m p cp show "map_prod id c_string (cec_ops_set_osd_string
      ((case cp of (ctl, p) \<Rightarrow> cec_msg_set_osd_string ctl (p @ [0])) m) (replicate 14 0)) = cp"
    by (simp add: osd_string_roundtrip)
qed (auto simp: osd_safe osd_len, simp add: cec_msg_set_osd_string_def Let_def)

section \<open>Remote control commands\<close>

definition ui0 :: cec_op_ui_command where
  "ui0 = \<lparr>ui_cmd = 0, ui_has_opt_arg = 0, ui_operand = 0, ui_channel_major = 0, ui_channel_minor = 0\<rparr>"

definition ui_ok :: "cec_op_ui_command \<Rightarrow> bool" where
  "ui_ok ui \<longleftrightarrow>
     (if ui_has_opt_arg ui = 0 then ui_operand ui = 0 \<and> ui_channel_major ui = 0 \<and> ui_channel_minor ui = 0
      else ui_has_opt_arg ui = 1 \<and>
        (ui_one_byte (ui_cmd ui) \<and> ui_channel_major ui = 0 \<and> ui_channel_minor ui = 0 \<or>
         ui_cmd ui = CEC_OP_UI_CMD_TUNE_FUNCTION \<and> ui_operand ui < 64 \<and> ui_channel_major ui < 256))"

lemma tune_not_one_byte [simp]: "\<not> ui_one_byte CEC_OP_UI_CMD_TUNE_FUNCTION"
  by (simp add: ui_one_byte_def cec_const)

lemma tune_byte:
  "x < 64 \<Longrightarrow> drop_bit 2 (push_bit 2 x) = (x :: u8)"
  "x < 64 \<Longrightarrow> take_bit 2 (push_bit 2 x) = (0 :: u8)"
  using u8_pack(4) [of x 0] u8_pack(8) [of 0 x] by simp_all

lemma ui_roundtrip:
  assumes "cec_wf m" and "ui_ok ui"
  shows "cec_ops_user_control_pressed (cec_msg_user_control_pressed ui m) ui0 = ui"
proof -
  consider (none) "ui_has_opt_arg ui = 0"
    | (one) "ui_has_opt_arg ui = 1" "ui_one_byte (ui_cmd ui)"
    | (tune) "ui_has_opt_arg ui = 1" "ui_cmd ui = CEC_OP_UI_CMD_TUNE_FUNCTION"
    using assms(2) by (auto simp: ui_ok_def split: if_splits)
  then show ?thesis
  proof cases
    case none
    with assms show ?thesis
      by (cases ui) (simp add: cec_msg_user_control_pressed_def cec_ops_user_control_pressed_def
          ui_ok_def ui0_def Let_def)
  next
    case one
    then have "ui_cmd ui \<noteq> CEC_OP_UI_CMD_TUNE_FUNCTION"
      by auto
    with one assms show ?thesis
      by (cases ui) (simp add: cec_msg_user_control_pressed_def cec_ops_user_control_pressed_def
          ui_ok_def ui0_def Let_def)
  next
    case tune
    with assms show ?thesis
      by (cases ui) (simp add: cec_msg_user_control_pressed_def cec_ops_user_control_pressed_def
          ui_ok_def ui0_def Let_def hi8_small word_lits tune_byte ucast_lo8_small)
  qed
qed

lemma tune_major_decoded:
  assumes "cec_wf m" and "ui_has_opt_arg ui = 1" and "ui_cmd ui = CEC_OP_UI_CMD_TUNE_FUNCTION"
    and "ui_channel_major ui < 1024"
  shows "ui_channel_major (cec_ops_user_control_pressed (cec_msg_user_control_pressed ui m) u0) =
         decoded_major (ui_channel_major ui)"
proof -
  let ?m = "cec_msg_user_control_pressed ui m"
  have b: "byte ?m 2 = CEC_OP_UI_CMD_TUNE_FUNCTION" "m_len ?m = 7"
    "byte ?m 3 = push_bit 2 (ui_operand ui) OR hi8 (ui_channel_major ui)"
    "byte ?m 4 = lo8 (ui_channel_major ui)"
    using assms by (simp_all add: cec_msg_user_control_pressed_def)
  have "byte ?m 3 AND 3 = hi8 (ui_channel_major ui) AND 3"
    unfolding b using fmt_major_and_3 hi8_less_4 assms(4) by blast
  then show ?thesis
    by (simp add: cec_ops_user_control_pressed_def b(1,2,4) decoded_major_def Let_def)
qed

interpretation user_control_pressed: cec_codec
  cec_msg_user_control_pressed
  "\<lambda>m. cec_ops_user_control_pressed m ui0"
  ui_ok CEC_MSG_USER_CONTROL_PRESSED False
proof
  show "cec_wf m \<Longrightarrow> ui_ok ui \<Longrightarrow>
      cec_ops_user_control_pressed (cec_msg_user_control_pressed ui m) ui0 = ui" for m ui
    by (rule ui_roundtrip)
qed (auto simp: cec_msg_user_control_pressed_def)

end
