(* ===== verification/Cec_Audio.thy ===== *)
theory Cec_Audio
  imports Cec_Control
begin

text \<open>
  The encoders and decoders of \<open>uapi/linux/cec-funcs.h\<close> for System Audio Control,
  Audio Rate Control, the Audio Return Channel, Dynamic Audio Lipsync and
  Capability Discovery and Control (HDMI Ethernet channel and hot plug).
\<close>

unbundle bit_operations_syntax

section \<open>System Audio Control Feature\<close>

definition cec_msg_report_audio_status :: "u8 \<Rightarrow> u8 \<Rightarrow> cec_msg \<Rightarrow> cec_msg" where
  [cec_defs]: "cec_msg_report_audio_status aud_mute_status aud_vol_status =
     stmts [set_len 3,
            put 1 CEC_MSG_REPORT_AUDIO_STATUS,
            put 2 (push_bit 7 aud_mute_status OR (aud_vol_status AND 0x7F))]"

definition cec_ops_report_audio_status :: "cec_msg \<Rightarrow> u8 \<times> u8" where
  [cec_defs]: "cec_ops_report_audio_status m =
     (drop_bit 7 (byte m 2),
      byte m 2 AND 0x7F)"

definition cec_msg_give_audio_status :: "c_int \<Rightarrow> cec_msg \<Rightarrow> cec_msg" where
  [cec_defs]: "cec_msg_give_audio_status reply =
     stmts [set_len 2,
            put 1 CEC_MSG_GIVE_AUDIO_STATUS,
            set_reply reply CEC_MSG_REPORT_AUDIO_STATUS]"

definition cec_msg_set_system_audio_mode :: "u8 \<Rightarrow> cec_msg \<Rightarrow> cec_msg" where
  [cec_defs]: "cec_msg_set_system_audio_mode sys_aud_status =
     stmts [set_len 3,
            put 1 CEC_MSG_SET_SYSTEM_AUDIO_MODE,
            put 2 sys_aud_status]"

definition cec_ops_set_system_audio_mode :: "cec_msg \<Rightarrow> u8" where
  [cec_defs]: "cec_ops_set_system_audio_mode m = byte m 2"

definition cec_msg_system_audio_mode_request :: "c_int \<Rightarrow> u16 \<Rightarrow> cec_msg \<Rightarrow> cec_msg" where
  [cec_defs]: "cec_msg_system_audio_mode_request reply phys_addr =
     stmts [set_len (if phys_addr = 0xFFFF then 2 else 4),
            put 1 CEC_MSG_SYSTEM_AUDIO_MODE_REQUEST,
            put 2 (hi8 phys_addr),
            put 3 (lo8 phys_addr),
            set_reply reply CEC_MSG_SET_SYSTEM_AUDIO_MODE]"

definition cec_ops_system_audio_mode_request :: "cec_msg \<Rightarrow> u16" where
  [cec_defs]: "cec_ops_system_audio_mode_request m =
     (if m_len m < 4 then 0xFFFF else be16 (byte m 2) (byte m 3))"

definition cec_msg_system_audio_mode_status :: "u8 \<Rightarrow> cec_msg \<Rightarrow> cec_msg" where
  [cec_defs]: "cec_msg_system_audio_mode_status sys_aud_status =
     stmts [set_len 3,
            put 1 CEC_MSG_SYSTEM_AUDIO_MODE_STATUS,
            put 2 sys_aud_status]"

definition cec_ops_system_audio_mode_status :: "cec_msg \<Rightarrow> u8" where
  [cec_defs]: "cec_ops_system_audio_mode_status m = byte m 2"

definition cec_msg_give_system_audio_mode_status :: "c_int \<Rightarrow> cec_msg \<Rightarrow> cec_msg" where
  [cec_defs]: "cec_msg_give_system_audio_mode_status reply =
     stmts [set_len 2,
            put 1 CEC_MSG_GIVE_SYSTEM_AUDIO_MODE_STATUS,
            set_reply reply CEC_MSG_SYSTEM_AUDIO_MODE_STATUS]"

definition cec_msg_report_short_audio_descriptor :: "u8 \<Rightarrow> u32 list \<Rightarrow> cec_msg \<Rightarrow> cec_msg" where
  [cec_defs]: "cec_msg_report_short_audio_descriptor num_descriptors descriptors =
     (let num_descriptors = (if num_descriptors > 4 then 4 else num_descriptors)
      in stmts [set_len (2 + ucast num_descriptors * 3),
                put 1 CEC_MSG_REPORT_SHORT_AUDIO_DESCRIPTOR,
                fold (\<lambda>i. stmts [
                         put (2 + i * 3) (ucast (drop_bit 16 (descriptors ! i) AND 0xFF)),
                         put (3 + i * 3) (ucast (drop_bit 8 (descriptors ! i) AND 0xFF)),
                         put (4 + i * 3) (ucast (descriptors ! i AND 0xFF))]) [0..<unat num_descriptors]])"

definition cec_ops_report_short_audio_descriptor :: "cec_msg \<Rightarrow> u32 list \<Rightarrow> u8 \<times> u32 list" where
  [cec_defs]: "cec_ops_report_short_audio_descriptor m descriptors =
     (let num_descriptors = (ucast ((m_len m - 2) div 3) :: u8);
          num_descriptors = (if num_descriptors > 4 then 4 else num_descriptors)
      in (num_descriptors,
          fold (\<lambda>i ds. store ds i (be24 (byte m (2 + i * 3)) (byte m (3 + i * 3)) (byte m (4 + i * 3))))
            [0..<unat num_descriptors] descriptors))"

definition cec_msg_request_short_audio_descriptor ::
  "c_int \<Rightarrow> u8 \<Rightarrow> u8 list \<Rightarrow> u8 list \<Rightarrow> cec_msg \<Rightarrow> cec_msg" where
  [cec_defs]: "cec_msg_request_short_audio_descriptor reply num_descriptors audio_format_id
       audio_format_code =
     (let num_descriptors = (if num_descriptors > 4 then 4 else num_descriptors)
      in stmts [set_len (2 + ucast num_descriptors),
                put 1 CEC_MSG_REQUEST_SHORT_AUDIO_DESCRIPTOR,
                set_reply reply CEC_MSG_REPORT_SHORT_AUDIO_DESCRIPTOR,
                fold (\<lambda>i. put (2 + i) (push_bit 6 (audio_format_id ! i) OR (audio_format_code ! i AND 0x3F)))
                  [0..<unat num_descriptors]])"

definition cec_ops_request_short_audio_descriptor ::
  "cec_msg \<Rightarrow> u8 list \<Rightarrow> u8 list \<Rightarrow> u8 \<times> u8 list \<times> u8 list" where
  [cec_defs]: "cec_ops_request_short_audio_descriptor m audio_format_id audio_format_code =
     (let num_descriptors = (ucast (m_len m - 2) :: u8);
          num_descriptors = (if num_descriptors > 4 then 4 else num_descriptors)
      in (num_descriptors,
          fold (\<lambda>i ids. store ids i (drop_bit 6 (byte m (2 + i))))
            [0..<unat num_descriptors] audio_format_id,
          fold (\<lambda>i codes. store codes i (byte m (2 + i) AND 0x3F))
            [0..<unat num_descriptors] audio_format_code))"

section \<open>Audio Rate Control Feature\<close>

definition cec_msg_set_audio_rate :: "u8 \<Rightarrow> cec_msg \<Rightarrow> cec_msg" where
  [cec_defs]: "cec_msg_set_audio_rate audio_rate =
     stmts [set_len 3,
            put 1 CEC_MSG_SET_AUDIO_RATE,
            put 2 audio_rate]"

definition cec_ops_set_audio_rate :: "cec_msg \<Rightarrow> u8" where
  [cec_defs]: "cec_ops_set_audio_rate m = byte m 2"

section \<open>Audio Return Channel Control Feature\<close>

definition cec_msg_report_arc_initiated :: "cec_msg \<Rightarrow> cec_msg" where
  [cec_defs]: "cec_msg_report_arc_initiated =
     stmts [set_len 2,
            put 1 CEC_MSG_REPORT_ARC_INITIATED]"

definition cec_msg_initiate_arc :: "c_int \<Rightarrow> cec_msg \<Rightarrow> cec_msg" where
  [cec_defs]: "cec_msg_initiate_arc reply =
     stmts [set_len 2,
            put 1 CEC_MSG_INITIATE_ARC,
            set_reply reply CEC_MSG_REPORT_ARC_INITIATED]"

definition cec_msg_request_arc_initiation :: "c_int \<Rightarrow> cec_msg \<Rightarrow> cec_msg" where
  [cec_defs]: "cec_msg_request_arc_initiation reply =
     stmts [set_len 2,
            put 1 CEC_MSG_REQUEST_ARC_INITIATION,
            set_reply reply CEC_MSG_INITIATE_ARC]"

definition cec_msg_report_arc_terminated :: "cec_msg \<Rightarrow> cec_msg" where
  [cec_defs]: "cec_msg_report_arc_terminated =
     stmts [set_len 2,
            put 1 CEC_MSG_REPORT_ARC_TERMINATED]"

definition cec_msg_terminate_arc :: "c_int \<Rightarrow> cec_msg \<Rightarrow> cec_msg" where
  [cec_defs]: "cec_msg_terminate_arc reply =
     stmts [set_len 2,
            put 1 CEC_MSG_TERMINATE_ARC,
            set_reply reply CEC_MSG_REPORT_ARC_TERMINATED]"

definition cec_msg_request_arc_termination :: "c_int \<Rightarrow> cec_msg \<Rightarrow> cec_msg" where
  [cec_defs]: "cec_msg_request_arc_termination reply =
     stmts [set_len 2,
            put 1 CEC_MSG_REQUEST_ARC_TERMINATION,
            set_reply reply CEC_MSG_TERMINATE_ARC]"

section \<open>Dynamic Audio Lipsync Feature\<close>

definition cec_msg_report_current_latency ::
  "u16 \<Rightarrow> u8 \<Rightarrow> u8 \<Rightarrow> u8 \<Rightarrow> u8 \<Rightarrow> cec_msg \<Rightarrow> cec_msg" where
  [cec_defs]: "cec_msg_report_current_latency phys_addr video_latency low_latency_mode
       audio_out_compensated audio_out_delay =
     stmts [set_len 6,
            set_broadcast,
            put 1 CEC_MSG_REPORT_CURRENT_LATENCY,
            put 2 (hi8 phys_addr),
            put 3 (lo8 phys_addr),
            put 4 video_latency,
            put 5 (push_bit 2 low_latency_mode OR audio_out_compensated),
            (if audio_out_compensated = 3 then push_byte audio_out_delay else id)]"

definition cec_ops_report_current_latency :: "cec_msg \<Rightarrow> u16 \<times> u8 \<times> u8 \<times> u8 \<times> u8" where
  [cec_defs]: "cec_ops_report_current_latency m =
     (be16 (byte m 2) (byte m 3),
      byte m 4,
      drop_bit 2 (byte m 5) AND 1,
      byte m 5 AND 3,
      (if byte m 5 AND 3 = 3 \<and> m_len m \<ge> 7 then byte m 6 else 0))"

definition cec_msg_request_current_latency :: "c_int \<Rightarrow> u16 \<Rightarrow> cec_msg \<Rightarrow> cec_msg" where
  [cec_defs]: "cec_msg_request_current_latency reply phys_addr =
     stmts [set_len 4,
            set_broadcast,
            put 1 CEC_MSG_REQUEST_CURRENT_LATENCY,
            put 2 (hi8 phys_addr),
            put 3 (lo8 phys_addr),
            set_reply reply CEC_MSG_REPORT_CURRENT_LATENCY]"

definition cec_ops_request_current_latency :: "cec_msg \<Rightarrow> u16" where
  [cec_defs]: "cec_ops_request_current_latency m = be16 (byte m 2) (byte m 3)"

section \<open>Capability Discovery and Control Feature\<close>

definition cec_msg_cdc_hec_inquire_state :: "u16 \<Rightarrow> u16 \<Rightarrow> cec_msg \<Rightarrow> cec_msg" where
  [cec_defs]: "cec_msg_cdc_hec_inquire_state phys_addr1 phys_addr2 =
     stmts [set_len 9,
            set_broadcast,
            put 1 CEC_MSG_CDC_MESSAGE,
            put 4 CEC_MSG_CDC_HEC_INQUIRE_STATE,
            put 5 (hi8 phys_addr1),
            put 6 (lo8 phys_addr1),
            put 7 (hi8 phys_addr2),
            put 8 (lo8 phys_addr2)]"

definition cec_ops_cdc_hec_inquire_state :: "cec_msg \<Rightarrow> u16 \<times> u16 \<times> u16" where
  [cec_defs]: "cec_ops_cdc_hec_inquire_state m =
     (be16 (byte m 2) (byte m 3),
      be16 (byte m 5) (byte m 6),
      be16 (byte m 7) (byte m 8))"

definition cec_msg_cdc_hec_report_state ::
  "u16 \<Rightarrow> u8 \<Rightarrow> u8 \<Rightarrow> u8 \<Rightarrow> u8 \<Rightarrow> u8 \<Rightarrow> u16 \<Rightarrow> cec_msg \<Rightarrow> cec_msg" where
  [cec_defs]: "cec_msg_cdc_hec_report_state target_phys_addr hec_func_state host_func_state
       enc_func_state cdc_errcode has_field hec_field =
     stmts [set_len (if has_field \<noteq> 0 then 10 else 8),
            set_broadcast,
            put 1 CEC_MSG_CDC_MESSAGE,
            put 4 CEC_MSG_CDC_HEC_REPORT_STATE,
            put 5 (hi8 target_phys_addr),
            put 6 (lo8 target_phys_addr),
            put 7 (push_bit 6 hec_func_state OR
                   push_bit 4 host_func_state OR
                   push_bit 2 enc_func_state OR
                   cdc_errcode),
            (if has_field \<noteq> 0 then
               stmts [put 8 (hi8 hec_field),
                      put 9 (lo8 hec_field)]
             else id)]"

definition cec_ops_cdc_hec_report_state ::
  "cec_msg \<Rightarrow> u16 \<times> u16 \<times> u8 \<times> u8 \<times> u8 \<times> u8 \<times> u8 \<times> u16" where
  [cec_defs]: "cec_ops_cdc_hec_report_state m =
     (let has_field = (if m_len m \<ge> 10 then 1 else 0)
      in (be16 (byte m 2) (byte m 3),
          be16 (byte m 5) (byte m 6),
          drop_bit 6 (byte m 7),
          drop_bit 4 (byte m 7) AND 3,
          drop_bit 4 (byte m 7) AND 3,
          byte m 7 AND 3,
          has_field,
          (if has_field \<noteq> 0 then be16 (byte m 8) (byte m 9) else 0)))"

definition cec_msg_cdc_hec_set_state ::
  "u16 \<Rightarrow> u16 \<Rightarrow> u8 \<Rightarrow> u16 \<Rightarrow> u16 \<Rightarrow> u16 \<Rightarrow> cec_msg \<Rightarrow> cec_msg" where
  [cec_defs]: "cec_msg_cdc_hec_set_state phys_addr1 phys_addr2 hec_set_state phys_addr3 phys_addr4
       phys_addr5 =
     stmts [set_len 10,
            set_broadcast,
            put 1 CEC_MSG_CDC_MESSAGE,
            put 4 CEC_MSG_CDC_HEC_INQUIRE_STATE,
            put 5 (hi8 phys_addr1),
            put 6 (lo8 phys_addr1),
            put 7 (hi8 phys_addr2),
            put 8 (lo8 phys_addr2),
            put 9 hec_set_state,
            (if phys_addr3 \<noteq> CEC_PHYS_ADDR_INVALID then
               stmts [push_byte (hi8 phys_addr3),
                      push_byte (lo8 phys_addr3),
                      (if phys_addr4 \<noteq> CEC_PHYS_ADDR_INVALID then
                         stmts [push_byte (hi8 phys_addr4),
                                push_byte (lo8 phys_addr4),
                                (if phys_addr5 \<noteq> CEC_PHYS_ADDR_INVALID then
                                   stmts [push_byte (hi8 phys_addr5),
                                          push_byte (lo8 phys_addr5)]
                                 else id)]
                       else id)]
             else id)]"

definition cec_ops_cdc_hec_set_state ::
  "cec_msg \<Rightarrow> u16 \<times> u16 \<times> u16 \<times> u8 \<times> u16 \<times> u16 \<times> u16" where
  [cec_defs]: "cec_ops_cdc_hec_set_state m =
     (be16 (byte m 2) (byte m 3),
      be16 (byte m 5) (byte m 6),
      be16 (byte m 7) (byte m 8),
      byte m 9,
      (if m_len m \<ge> 12 then be16 (byte m 10) (byte m 11) else CEC_PHYS_ADDR_INVALID),
      (if m_len m \<ge> 14 then be16 (byte m 12) (byte m 13) else CEC_PHYS_ADDR_INVALID),
      (if m_len m \<ge> 16 then be16 (byte m 14) (byte m 15) else CEC_PHYS_ADDR_INVALID))"

definition cec_msg_cdc_hec_set_state_adjacent :: "u16 \<Rightarrow> u8 \<Rightarrow> cec_msg \<Rightarrow> cec_msg" where
  [cec_defs]: "cec_msg_cdc_hec_set_state_adjacent phys_addr1 hec_set_state =
     stmts [set_len 8,
            set_broadcast,
            put 1 CEC_MSG_CDC_MESSAGE,
            put 4 CEC_MSG_CDC_HEC_SET_STATE_ADJACENT,
            put 5 (hi8 phys_addr1),
            put 6 (lo8 phys_addr1),
            put 7 hec_set_state]"

definition cec_ops_cdc_hec_set_state_adjacent :: "cec_msg \<Rightarrow> u16 \<times> u16 \<times> u8" where
  [cec_defs]: "cec_ops_cdc_hec_set_state_adjacent m =
     (be16 (byte m 2) (byte m 3),
      be16 (byte m 5) (byte m 6),
      byte m 7)"

definition cec_msg_cdc_hec_request_deactivation :: "u16 \<Rightarrow> u16 \<Rightarrow> u16 \<Rightarrow> cec_msg \<Rightarrow> cec_msg" where
  [cec_defs]: "cec_msg_cdc_hec_request_deactivation phys_addr1 phys_addr2 phys_addr3 =
     stmts [set_len 11,
            set_broadcast,
            put 1 CEC_MSG_CDC_MESSAGE,
            put 4 CEC_MSG_CDC_HEC_REQUEST_DEACTIVATION,
            put 5 (hi8 phys_addr1),
            put 6 (lo8 phys_addr1),
            put 7 (hi8 phys_addr2),
            put 8 (lo8 phys_addr2),
            put 9 (hi8 phys_addr3),
            put 10 (lo8 phys_addr3)]"

definition cec_ops_cdc_hec_request_deactivation :: "cec_msg \<Rightarrow> u16 \<times> u16 \<times> u16 \<times> u16" where
  [cec_defs]: "cec_ops_cdc_hec_request_deactivation m =
     (be16 (byte m 2) (byte m 3),
      be16 (byte m 5) (byte m 6),
      be16 (byte m 7) (byte m 8),
      be16 (byte m 9) (byte m 10))"

definition cec_msg_cdc_hec_notify_alive :: "cec_msg \<Rightarrow> cec_msg" where
  [cec_defs]: "cec_msg_cdc_hec_notify_alive =
     stmts [set_len 5,
            set_broadcast,
            put 1 CEC_MSG_CDC_MESSAGE,
            put 4 CEC_MSG_CDC_HEC_NOTIFY_ALIVE]"

definition cec_ops_cdc_hec_notify_alive :: "cec_msg \<Rightarrow> u16" where
  [cec_defs]: "cec_ops_cdc_hec_notify_alive m = be16 (byte m 2) (byte m 3)"

definition cec_msg_cdc_hec_discover :: "cec_msg \<Rightarrow> cec_msg" where
  [cec_defs]: "cec_msg_cdc_hec_discover =
     stmts [set_len 5,
            set_broadcast,
            put 1 CEC_MSG_CDC_MESSAGE,
            put 4 CEC_MSG_CDC_HEC_DISCOVER]"

definition cec_ops_cdc_hec_discover :: "cec_msg \<Rightarrow> u16" where
  [cec_defs]: "cec_ops_cdc_hec_discover m = be16 (byte m 2) (byte m 3)"

definition cec_msg_cdc_hpd_set_state :: "u8 \<Rightarrow> u8 \<Rightarrow> cec_msg \<Rightarrow> cec_msg" where
  [cec_defs]: "cec_msg_cdc_hpd_set_state input_port hpd_state =
     stmts [set_len 6,
            set_broadcast,
            put 1 CEC_MSG_CDC_MESSAGE,
            put 4 CEC_MSG_CDC_HPD_SET_STATE,
            put 5 (push_bit 4 input_port OR hpd_state)]"

definition cec_ops_cdc_hpd_set_state :: "cec_msg \<Rightarrow> u16 \<times> u8 \<times> u8" where
  [cec_defs]: "cec_ops_cdc_hpd_set_state m =
     (be16 (byte m 2) (byte m 3),
      drop_bit 4 (byte m 5),
      byte m 5 AND 0xF)"

definition cec_msg_cdc_hpd_report_state :: "u8 \<Rightarrow> u8 \<Rightarrow> cec_msg \<Rightarrow> cec_msg" where
  [cec_defs]: "cec_msg_cdc_hpd_report_state hpd_state hpd_error =
     stmts [set_len 6,
            set_broadcast,
            put 1 CEC_MSG_CDC_MESSAGE,
            put 4 CEC_MSG_CDC_HPD_REPORT_STATE,
            put 5 (push_bit 4 hpd_state OR hpd_error)]"

definition cec_ops_cdc_hpd_report_state :: "cec_msg \<Rightarrow> u16 \<times> u8 \<times> u8" where
  [cec_defs]: "cec_ops_cdc_hpd_report_state m =
     (be16 (byte m 2) (byte m 3),
      drop_bit 4 (byte m 5),
      byte m 5 AND 0xF)"

section \<open>The codecs with fixed layout\<close>

interpretation set_system_audio_mode: cec_codec
  "cec_msg_set_system_audio_mode"
  "cec_ops_set_system_audio_mode"
  "\<lambda>_. True" CEC_MSG_SET_SYSTEM_AUDIO_MODE False
  by unfold_locales (auto simp: cec_defs)

interpretation system_audio_mode_status: cec_codec
  "cec_msg_system_audio_mode_status"
  "cec_ops_system_audio_mode_status"
  "\<lambda>_. True" CEC_MSG_SYSTEM_AUDIO_MODE_STATUS False
  by unfold_locales (auto simp: cec_defs)

interpretation set_audio_rate: cec_codec
  "cec_msg_set_audio_rate"
  "cec_ops_set_audio_rate"
  "\<lambda>_. True" CEC_MSG_SET_AUDIO_RATE False
  by unfold_locales (auto simp: cec_defs)

interpretation give_audio_status: cec_codec
  "\<lambda>_ :: unit. cec_msg_give_audio_status reply"
  "\<lambda>_. ()"
  "\<lambda>_. True" CEC_MSG_GIVE_AUDIO_STATUS False for reply
  by unfold_locales (auto simp: cec_defs)

interpretation give_system_audio_mode_status: cec_codec
  "\<lambda>_ :: unit. cec_msg_give_system_audio_mode_status reply"
  "\<lambda>_. ()"
  "\<lambda>_. True" CEC_MSG_GIVE_SYSTEM_AUDIO_MODE_STATUS False for reply
  by unfold_locales (auto simp: cec_defs)

interpretation initiate_arc: cec_codec
  "\<lambda>_ :: unit. cec_msg_initiate_arc reply"
  "\<lambda>_. ()"
  "\<lambda>_. True" CEC_MSG_INITIATE_ARC False for reply
  by unfold_locales (auto simp: cec_defs)

interpretation request_arc_initiation: cec_codec
  "\<lambda>_ :: unit. cec_msg_request_arc_initiation reply"
  "\<lambda>_. ()"
  "\<lambda>_. True" CEC_MSG_REQUEST_ARC_INITIATION False for reply
  by unfold_locales (auto simp: cec_defs)

interpretation terminate_arc: cec_codec
  "\<lambda>_ :: unit. cec_msg_terminate_arc reply"
  "\<lambda>_. ()"
  "\<lambda>_. True" CEC_MSG_TERMINATE_ARC False for reply
  by unfold_locales (auto simp: cec_defs)

interpretation request_arc_termination: cec_codec
  "\<lambda>_ :: unit. cec_msg_request_arc_termination reply"
  "\<lambda>_. ()"
  "\<lambda>_. True" CEC_MSG_REQUEST_ARC_TERMINATION False for reply
  by unfold_locales (auto simp: cec_defs)

interpretation report_arc_initiated: cec_codec
  "\<lambda>_ :: unit. cec_msg_report_arc_initiated"
  "\<lambda>_. ()"
  "\<lambda>_. True" CEC_MSG_REPORT_ARC_INITIATED False
  by unfold_locales (auto simp: cec_defs)

interpretation report_arc_terminated: cec_codec
  "\<lambda>_ :: unit. cec_msg_report_arc_terminated"
  "\<lambda>_. ()"
  "\<lambda>_. True" CEC_MSG_REPORT_ARC_TERMINATED False
  by unfold_locales (auto simp: cec_defs)

interpretation request_current_latency: cec_codec
  "cec_msg_request_current_latency reply"
  "cec_ops_request_current_latency"
  "\<lambda>_. True" CEC_MSG_REQUEST_CURRENT_LATENCY True for reply
  by unfold_locales (auto simp: cec_defs)

interpretation system_audio_mode_request: cec_codec
  "cec_msg_system_audio_mode_request reply"
  "cec_ops_system_audio_mode_request"
  "\<lambda>_. True" CEC_MSG_SYSTEM_AUDIO_MODE_REQUEST False for reply
  by unfold_locales (auto simp: cec_defs)

text \<open>
  Bytes 2 and 3 of a CDC message hold the physical address of the sender, which
  the framework fills in after the encoder; the decoders return it first.
\<close>

interpretation cdc_hec_inquire_state: cec_codec
  "\<lambda>(a, b). cec_msg_cdc_hec_inquire_state a b"
  "\<lambda>m. snd (cec_ops_cdc_hec_inquire_state m)"
  "\<lambda>_. True" CEC_MSG_CDC_MESSAGE True
  by unfold_locales (auto simp: cec_defs)

interpretation cdc_hec_set_state_adjacent: cec_codec
  "\<lambda>(a, b). cec_msg_cdc_hec_set_state_adjacent a b"
  "\<lambda>m. snd (cec_ops_cdc_hec_set_state_adjacent m)"
  "\<lambda>_. True" CEC_MSG_CDC_MESSAGE True
  by unfold_locales (auto simp: cec_defs)

interpretation cdc_hec_request_deactivation: cec_codec
  "\<lambda>(a, b, c). cec_msg_cdc_hec_request_deactivation a b c"
  "\<lambda>m. snd (cec_ops_cdc_hec_request_deactivation m)"
  "\<lambda>_. True" CEC_MSG_CDC_MESSAGE True
  by unfold_locales (auto simp: cec_defs)

interpretation cdc_hec_notify_alive: cec_codec
  "\<lambda>_ :: unit. cec_msg_cdc_hec_notify_alive"
  "\<lambda>_. ()"
  "\<lambda>_. True" CEC_MSG_CDC_MESSAGE True
  by unfold_locales (auto simp: cec_defs)

interpretation cdc_hec_discover: cec_codec
  "\<lambda>_ :: unit. cec_msg_cdc_hec_discover"
  "\<lambda>_. ()"
  "\<lambda>_. True" CEC_MSG_CDC_MESSAGE True
  by unfold_locales (auto simp: cec_defs)

interpretation cdc_hpd_set_state: cec_codec
  "\<lambda>(a, b). cec_msg_cdc_hpd_set_state a b"
  "\<lambda>m. snd (cec_ops_cdc_hpd_set_state m)"
  "\<lambda>(a, b). a < 16 \<and> b < 16" CEC_MSG_CDC_MESSAGE True
  by unfold_locales (auto simp: cec_msg_cdc_hpd_set_state_def cec_ops_cdc_hpd_set_state_def word_lits u8_pack)

interpretation cdc_hpd_report_state: cec_codec
  "\<lambda>(a, b). cec_msg_cdc_hpd_report_state a b"
  "\<lambda>m. snd (cec_ops_cdc_hpd_report_state m)"
  "\<lambda>(a, b). a < 16 \<and> b < 16" CEC_MSG_CDC_MESSAGE True
  by unfold_locales (auto simp: cec_msg_cdc_hpd_report_state_def cec_ops_cdc_hpd_report_state_def word_lits u8_pack)

section \<open>Audio status\<close>

lemma audio_status_roundtrip:
  assumes "cec_wf m" and "mute < 2" and "vol < 128"
  shows "cec_ops_report_audio_status (cec_msg_report_audio_status mute vol m) = (mute, vol)"
proof -
  have "byte (cec_msg_report_audio_status mute vol m) 2 = push_bit 7 mute OR vol"
    using assms by (simp add: cec_msg_report_audio_status_def word_lits take_bit_word_small)
  then show ?thesis
    unfolding cec_ops_report_audio_status_def word_lits
    using u8_pack(1) [of mute vol] u8_pack(5) [of vol mute] assms by simp
qed

interpretation report_audio_status: cec_codec
  "\<lambda>(mute, vol). cec_msg_report_audio_status mute vol" cec_ops_report_audio_status
  "\<lambda>(mute, vol). mute < 2 \<and> vol < 128" CEC_MSG_REPORT_AUDIO_STATUS False
proof
  fix m :: cec_msg and p :: "u8 \<times> u8"
  assume "cec_wf m" and "case p of (mute, vol) \<Rightarrow> mute < 2 \<and> vol < 128"
  then show "cec_ops_report_audio_status ((case p of (mute, vol) \<Rightarrow>
      cec_msg_report_audio_status mute vol) m) = p"
    by (cases p) (simp add: audio_status_roundtrip)
qed (auto simp: cec_msg_report_audio_status_def)

section \<open>Lipsync latency\<close>

definition latency_ok :: "u16 \<times> u8 \<times> u8 \<times> u8 \<times> u8 \<Rightarrow> bool" where
  "latency_ok = (\<lambda>(phys_addr, video, low, cmp, delay).
     low < 2 \<and> cmp < 4 \<and> (cmp = 3 \<or> delay = 0))"

lemma latency_roundtrip:
  assumes "cec_wf m" and "latency_ok (pa, video, low, cmp, delay)"
  shows "cec_ops_report_current_latency
           (cec_msg_report_current_latency pa video low cmp delay m) = (pa, video, low, cmp, delay)"
proof -
  let ?m = "cec_msg_report_current_latency pa video low cmp delay m"
  have ok: "low < 2" "cmp < 4" "cmp = 3 \<or> delay = 0"
    using assms(2) by (auto simp: latency_ok_def)
  have "low < 64"
    using ok(1) by (simp add: word_less_nat_alt)
  have b: "byte ?m 5 = push_bit 2 low OR cmp"
    using assms(1) by (simp add: cec_msg_report_current_latency_def)
  have "drop_bit 2 (byte ?m 5) = low"
    unfolding b by (rule drop_pack [where k = 6]) (use ok \<open>low < 64\<close> in simp_all)
  then have "drop_bit 2 (byte ?m 5) AND 1 = low"
    unfolding word_lits using take_bit_word_small [of low 1] ok(1) by simp
  moreover have "byte ?m 5 AND 3 = cmp"
    unfolding b word_lits by (rule take_pack) (use ok in simp_all)
  moreover have "m_len ?m = (if cmp = 3 then 7 else 6)" "cmp = 3 \<Longrightarrow> byte ?m 6 = delay"
    "byte ?m 2 = hi8 pa" "byte ?m 3 = lo8 pa" "byte ?m 4 = video"
    using assms(1) by (simp_all add: cec_msg_report_current_latency_def)
  ultimately show ?thesis
    unfolding cec_ops_report_current_latency_def using ok(3) by auto
qed

interpretation report_current_latency: cec_codec
  "\<lambda>(pa, video, low, cmp, delay). cec_msg_report_current_latency pa video low cmp delay"
  cec_ops_report_current_latency latency_ok CEC_MSG_REPORT_CURRENT_LATENCY True
proof
  fix m :: cec_msg and p :: "u16 \<times> u8 \<times> u8 \<times> u8 \<times> u8"
  assume "cec_wf m" and "latency_ok p"
  then show "cec_ops_report_current_latency
      ((case p of (pa, video, low, cmp, delay) \<Rightarrow>
         cec_msg_report_current_latency pa video low cmp delay) m) = p"
    by (cases p) (simp add: latency_roundtrip)
qed (auto simp: cec_msg_report_current_latency_def)

section \<open>HDMI Ethernet channel state\<close>

definition hec_set_ok :: "u16 \<times> u16 \<times> u8 \<times> u16 \<times> u16 \<times> u16 \<Rightarrow> bool" where
  "hec_set_ok = (\<lambda>(a1, a2, st, a3, a4, a5).
     (a3 = CEC_PHYS_ADDR_INVALID \<longrightarrow> a4 = CEC_PHYS_ADDR_INVALID) \<and>
     (a4 = CEC_PHYS_ADDR_INVALID \<longrightarrow> a5 = CEC_PHYS_ADDR_INVALID))"

lemma hec_set_roundtrip:
  assumes "cec_wf m" and "hec_set_ok (a1, a2, st, a3, a4, a5)"
  shows "snd (cec_ops_cdc_hec_set_state (cec_msg_cdc_hec_set_state a1 a2 st a3 a4 a5 m)) =
         (a1, a2, st, a3, a4, a5)"
proof -
  consider "a3 = CEC_PHYS_ADDR_INVALID" "a4 = CEC_PHYS_ADDR_INVALID" "a5 = CEC_PHYS_ADDR_INVALID"
    | "a3 \<noteq> CEC_PHYS_ADDR_INVALID" "a4 = CEC_PHYS_ADDR_INVALID" "a5 = CEC_PHYS_ADDR_INVALID"
    | "a3 \<noteq> CEC_PHYS_ADDR_INVALID" "a4 \<noteq> CEC_PHYS_ADDR_INVALID" "a5 = CEC_PHYS_ADDR_INVALID"
    | "a3 \<noteq> CEC_PHYS_ADDR_INVALID" "a4 \<noteq> CEC_PHYS_ADDR_INVALID" "a5 \<noteq> CEC_PHYS_ADDR_INVALID"
    using assms(2) by (auto simp: hec_set_ok_def)
  then show ?thesis
    by cases (simp_all add: assms(1) cec_msg_cdc_hec_set_state_def cec_ops_cdc_hec_set_state_def)
qed

interpretation cdc_hec_set_state: cec_codec
  "\<lambda>(a1, a2, st, a3, a4, a5). cec_msg_cdc_hec_set_state a1 a2 st a3 a4 a5"
  "\<lambda>m. snd (cec_ops_cdc_hec_set_state m)"
  hec_set_ok CEC_MSG_CDC_MESSAGE True
proof
  fix m :: cec_msg and p :: "u16 \<times> u16 \<times> u8 \<times> u16 \<times> u16 \<times> u16"
  assume "cec_wf m" and "hec_set_ok p"
  then show "snd (cec_ops_cdc_hec_set_state ((case p of (a1, a2, st, a3, a4, a5) \<Rightarrow>
      cec_msg_cdc_hec_set_state a1 a2 st a3 a4 a5) m)) = p"
    by (cases p) (simp add: hec_set_roundtrip)
qed (auto simp: cec_msg_cdc_hec_set_state_def)

lemma hec_byte:
  fixes a b c d :: u8
  assumes "a < 4" and "b < 4" and "c < 4" and "d < 4"
  shows "drop_bit 6 (push_bit 6 a OR push_bit 4 b OR push_bit 2 c OR d) = a" (is "drop_bit _ ?x = _")
    and "take_bit 2 (drop_bit 4 (push_bit 6 a OR push_bit 4 b OR push_bit 2 c OR d)) = b"
    and "take_bit 2 (push_bit 6 a OR push_bit 4 b OR push_bit 2 c OR d) = d"
proof -
  have cd: "push_bit 2 c OR d < 16"
    using pack_less [of c 2 d 2] assms by simp
  have bcd: "push_bit 4 b OR push_bit 2 c OR d < 64"
    using pack_less [of b 2 _ 4] assms cd by simp
  show "drop_bit 6 ?x = a"
    by (rule drop_pack [where k = 2]) (use bcd assms in simp_all)
  have t6: "take_bit 6 ?x = push_bit 4 b OR push_bit 2 c OR d"
    by (rule take_pack) (use bcd in simp_all)
  have "take_bit 2 (drop_bit 4 ?x) = drop_bit 4 (take_bit 6 ?x)"
    by (simp only: take_bit_drop_bit) simp
  also have "\<dots> = b"
    unfolding t6 by (rule drop_pack [where k = 2]) (use cd assms in simp_all)
  finally show "take_bit 2 (drop_bit 4 ?x) = b" .
  have "take_bit 2 ?x = take_bit 2 (take_bit 4 (take_bit 6 ?x))"
    by (simp only: take_bit_take_bit) simp
  also have "take_bit 4 (take_bit 6 ?x) = push_bit 2 c OR d"
    unfolding t6 by (rule take_pack) (use cd in simp_all)
  also have "take_bit 2 (push_bit 2 c OR d) = d"
    by (rule take_pack) (use assms in simp_all)
  finally show "take_bit 2 ?x = d" .
qed

lemma hec_report_decoded:
  assumes "cec_wf m" and "hec < 4" and "host < 4" and "en < 4" and "err < 4"
  shows "snd (cec_ops_cdc_hec_report_state
           (cec_msg_cdc_hec_report_state target hec host en err has_field field m)) =
         (target, hec, host, host, err, if has_field \<noteq> 0 then 1 else 0,
          if has_field \<noteq> 0 then field else 0)"
proof -
  let ?m = "cec_msg_cdc_hec_report_state target hec host en err has_field field m"
  have "byte ?m 7 = push_bit 6 hec OR push_bit 4 host OR push_bit 2 en OR err"
    using assms(1) by (simp add: cec_msg_cdc_hec_report_state_def)
  note f = hec_byte [OF assms(2-5), folded this]
  have "m_len ?m = (if has_field \<noteq> 0 then 10 else 8)" "byte ?m 5 = hi8 target" "byte ?m 6 = lo8 target"
    "has_field \<noteq> 0 \<Longrightarrow> byte ?m 8 = hi8 field \<and> byte ?m 9 = lo8 field"
    using assms(1) by (simp_all add: cec_msg_cdc_hec_report_state_def)
  then show ?thesis
    unfolding cec_ops_cdc_hec_report_state_def word_lits f Let_def by simp
qed

definition hec_report_ok :: "u16 \<times> u8 \<times> u8 \<times> u8 \<times> u8 \<times> u8 \<times> u16 \<Rightarrow> bool" where
  "hec_report_ok = (\<lambda>(target, hec, host, en, err, has_field, field).
     hec < 4 \<and> host < 4 \<and> en = host \<and> err < 4 \<and>
     (has_field = 0 \<and> field = 0 \<or> has_field = 1))"

interpretation cdc_hec_report_state: cec_codec
  "\<lambda>(t, hec, host, en, err, hf, f). cec_msg_cdc_hec_report_state t hec host en err hf f"
  "\<lambda>m. snd (cec_ops_cdc_hec_report_state m)"
  hec_report_ok CEC_MSG_CDC_MESSAGE True
proof
  fix m :: cec_msg and p :: "u16 \<times> u8 \<times> u8 \<times> u8 \<times> u8 \<times> u8 \<times> u16"
  assume "cec_wf m" and "hec_report_ok p"
  then show "snd (cec_ops_cdc_hec_report_state ((case p of (t, hec, host, en, err, hf, f) \<Rightarrow>
      cec_msg_cdc_hec_report_state t hec host en err hf f) m)) = p"
    by (cases p) (auto simp: hec_report_decoded hec_report_ok_def)
qed (auto simp: cec_msg_cdc_hec_report_state_def)

section \<open>Short audio descriptors\<close>

lemma sad_count: "unat n < 5 \<Longrightarrow> (ucast ((2 + ucast (n :: u8) * 3 - 2 :: u32) div 3) :: u8) = n"
  by (rule word_exhaust_below [where k = 5]) code_simp

definition put3 :: "u32 list \<Rightarrow> nat \<Rightarrow> cec_msg \<Rightarrow> cec_msg" where
  "put3 ds i = stmts [put (2 + i * 3) (ucast (drop_bit 16 (ds ! i) AND 0xFF)),
            put (3 + i * 3) (ucast (drop_bit 8 (ds ! i) AND 0xFF)),
            put (4 + i * 3) (ucast (ds ! i AND 0xFF))]"

lemma put3_writers [simp]:
  "m_len (put3 ds i m) = m_len m" "m_reply (put3 ds i m) = m_reply m" "cec_meta (put3 ds i m) = cec_meta m"
  by (simp_all add: put3_def)

lemma fold_put3:
  assumes "cec_wf m" and "n \<le> 4"
  shows "cec_wf (fold (put3 ds) [0..<n] m)"
    and "m_len (fold (put3 ds) [0..<n] m) = m_len m"
    and "cec_meta (fold (put3 ds) [0..<n] m) = cec_meta m"
    and "j < 2 \<Longrightarrow> byte (fold (put3 ds) [0..<n] m) j = byte m j"
    and "i < n \<Longrightarrow> be24 (byte (fold (put3 ds) [0..<n] m) (2 + i * 3))
           (byte (fold (put3 ds) [0..<n] m) (3 + i * 3))
           (byte (fold (put3 ds) [0..<n] m) (4 + i * 3)) = take_bit 24 (ds ! i)"
  using assms(2)
proof (induction n)
  case 0
  { case 1 with assms show ?case by simp next
    case 2 show ?case by simp next
    case 3 show ?case by simp next
    case 4 then show ?case by simp next
    case 5 then show ?case by simp }
next
  case (Suc n)
  { case 1 with Suc show ?case by (simp add: put3_def) next
    case 2 with Suc show ?case by simp next
    case 3 with Suc show ?case by simp next
    case 4 with Suc show ?case by (simp add: put3_def) next
    case 5
    then show ?case
      using Suc by (cases "i = n") (auto simp: put3_def be24_split' less_Suc_eq) }
qed

definition sads_ok :: "u32 list \<Rightarrow> bool" where
  "sads_ok ds \<longleftrightarrow> length ds \<le> 4 \<and> list_all (\<lambda>d. d < 2 ^ 24) ds"

definition sad_clamp :: "u8 \<Rightarrow> u8" where
  "sad_clamp n = (if n > 4 then 4 else n)"

lemma sad_clamp [simp]:
  "unat (sad_clamp n) \<le> 4" "unat (sad_clamp n) < 5"
  by (auto simp: sad_clamp_def word_less_nat_alt)

lemma sad_clamp_length:
  assumes "length ds \<le> 4"
  shows "sad_clamp (word_of_nat (length ds)) = word_of_nat (length ds)"
    and "unat (sad_clamp (word_of_nat (length ds))) = length ds"
  using assms by (simp_all add: sad_clamp_def word_less_nat_alt unat_of_nat)

lemma report_sad_fold:
  "cec_msg_report_short_audio_descriptor n ds m =
     fold (put3 ds) [0..<unat (sad_clamp n)]
       (put 1 CEC_MSG_REPORT_SHORT_AUDIO_DESCRIPTOR (set_len (2 + ucast (sad_clamp n) * 3) m))"
  by (simp add: cec_msg_report_short_audio_descriptor_def put3_def [abs_def] Let_def sad_clamp_def)

lemma sad_len:
  assumes "unat n < 5"
  shows "2 \<le> (2 + ucast (n :: u8) * 3 :: u32) \<and> (2 + ucast n * 3 :: u32) \<le> 16"
  by (rule word_exhaust_below [where k = 5, OF _ assms]) code_simp

lemma report_sad_facts:
  assumes "cec_wf m"
  shows "cec_wf (cec_msg_report_short_audio_descriptor n ds m)" and "m_len (cec_msg_report_short_audio_descriptor n ds m) = 2 + ucast (sad_clamp n) * 3"
    and "byte (cec_msg_report_short_audio_descriptor n ds m) 0 = byte m 0"
    and "byte (cec_msg_report_short_audio_descriptor n ds m) 1 = CEC_MSG_REPORT_SHORT_AUDIO_DESCRIPTOR"
    and "i < unat (sad_clamp n) \<Longrightarrow> be24 (byte (cec_msg_report_short_audio_descriptor n ds m) (2 + i * 3)) (byte (cec_msg_report_short_audio_descriptor n ds m) (3 + i * 3))
           (byte (cec_msg_report_short_audio_descriptor n ds m) (4 + i * 3)) = take_bit 24 (ds ! i)"
proof -
  let ?m' = "cec_msg_report_short_audio_descriptor n ds m"
  let ?m = "put 1 CEC_MSG_REPORT_SHORT_AUDIO_DESCRIPTOR (set_len (2 + ucast (sad_clamp n) * 3) m)"
  have w: "cec_wf ?m" using assms(1) by simp
  note f = fold_put3 [OF w sad_clamp(1) [of n], where ds = ds, folded report_sad_fold [of n ds m]]
  show "cec_wf ?m'" by (rule f)
  show "m_len ?m' = 2 + ucast (sad_clamp n) * 3" using f(2) by simp
  show "byte ?m' 0 = byte m 0" using f(4) [of 0] assms(1) by simp
  show "byte ?m' 1 = CEC_MSG_REPORT_SHORT_AUDIO_DESCRIPTOR" using f(4) [of 1] assms(1) by simp
  show "i < unat (sad_clamp n) \<Longrightarrow> be24 (byte ?m' (2 + i * 3)) (byte ?m' (3 + i * 3))
           (byte ?m' (4 + i * 3)) = take_bit 24 (ds ! i)" by (rule f(5))
qed

lemma report_sad_meta: "cec_meta (cec_msg_report_short_audio_descriptor n ds m) = cec_meta m"
proof -
  have "cec_meta (fold (put3 ds) xs m) = cec_meta m" for xs m
    by (induction xs arbitrary: m) simp_all
  then show ?thesis by (simp add: report_sad_fold)
qed

text \<open>The decoder fills as many entries of the caller's array as the message carries.\<close>

lemma report_sad_roundtrip:
  assumes "cec_wf m" and "sads_ok ds" and "length buf = 4"
  shows "cec_ops_report_short_audio_descriptor
           (cec_msg_report_short_audio_descriptor (word_of_nat (length ds)) ds m) buf =
         (word_of_nat (length ds), ds @ drop (length ds) buf)"
proof -
  let ?n = "word_of_nat (length ds) :: u8"
  let ?m = "cec_msg_report_short_audio_descriptor ?n ds m"
  have l: "length ds \<le> 4" using assms(2) by (simp add: sads_ok_def)
  note c = sad_clamp_length [OF l]
  have n: "(ucast ((m_len ?m - 2) div 3) :: u8) = ?n"
    unfolding report_sad_facts(2) [OF assms(1)]
    using sad_count [of "sad_clamp ?n"] c l by simp
  have "map (\<lambda>i. be24 (byte ?m (2 + i * 3)) (byte ?m (3 + i * 3)) (byte ?m (4 + i * 3))) [0..<length ds] =
        map (\<lambda>i. ds ! i) [0..<length ds]"
  proof (rule map_cong [OF refl])
    fix i assume "i \<in> set [0..<length ds]"
    then have "i < unat (sad_clamp ?n)" "ds ! i < 2 ^ 24"
      using assms(2) c by (auto simp: sads_ok_def list_all_length)
    then show "be24 (byte ?m (2 + i * 3)) (byte ?m (3 + i * 3)) (byte ?m (4 + i * 3)) = ds ! i"
      using report_sad_facts(5) [OF assms(1)] take_bit_word_small [of "ds ! i" 24] by simp
  qed
  moreover have "\<not> ?n > 4" "unat ?n = length ds"
    using l c by (simp_all add: word_less_nat_alt)
  ultimately show ?thesis
    using l assms(3) unfolding cec_ops_report_short_audio_descriptor_def n Let_def
    by (simp add: fold_store map_nth)
qed

interpretation report_short_audio_descriptor: cec_codec
  "\<lambda>ds. cec_msg_report_short_audio_descriptor (word_of_nat (length ds)) ds"
  "\<lambda>m. case cec_ops_report_short_audio_descriptor m (replicate 4 0) of (n, ds) \<Rightarrow> take (unat n) ds"
  sads_ok CEC_MSG_REPORT_SHORT_AUDIO_DESCRIPTOR False
proof
  fix m :: cec_msg and ds :: "u32 list"
  assume "cec_wf m" and "sads_ok ds"
  moreover from this have "unat (word_of_nat (length ds) :: u8) = length ds"
    using sad_clamp_length [of ds] by (simp add: sads_ok_def)
  ultimately show "(case cec_ops_report_short_audio_descriptor
      (cec_msg_report_short_audio_descriptor (word_of_nat (length ds)) ds m) (replicate 4 0) of
      (n, ds) \<Rightarrow> take (unat n) ds) = ds"
    by (simp add: report_sad_roundtrip)
qed (simp_all add: report_sad_facts report_sad_facts(4) [unfolded One_nat_def] report_sad_meta sad_len)

lemma put_loop:
  assumes "cec_wf m" and "n \<le> 4"
  shows "cec_wf (fold (\<lambda>i. put (2 + i) (f i)) [0..<n] m)"
    and "m_len (fold (\<lambda>i. put (2 + i) (f i)) [0..<n] m) = m_len m"
    and "j < 2 \<Longrightarrow> byte (fold (\<lambda>i. put (2 + i) (f i)) [0..<n] m) j = byte m j"
    and "i < n \<Longrightarrow> byte (fold (\<lambda>i. put (2 + i) (f i)) [0..<n] m) (2 + i) = f i"
  using assms(2)
proof (induction n)
  case 0
  { case 1 with assms show ?case by simp next
    case 2 show ?case by simp next
    case 3 then show ?case by simp next
    case 4 then show ?case by simp }
next
  case (Suc n)
  { case 1 with Suc show ?case by simp next
    case 2 with Suc show ?case by simp next
    case 3 with Suc show ?case by simp next
    case 4 then show ?case
      using Suc by (cases "i = n") (auto simp: less_Suc_eq) }
qed

definition sad_ids_ok :: "(u8 \<times> u8) list \<Rightarrow> bool" where
  "sad_ids_ok fs \<longleftrightarrow> length fs \<le> 4 \<and> list_all (\<lambda>(id, code). id < 4 \<and> code < 64) fs"

definition request_sad_msg :: "u8 \<Rightarrow> cec_msg \<Rightarrow> c_int \<Rightarrow> cec_msg" where
  "request_sad_msg n m reply = set_reply reply CEC_MSG_REPORT_SHORT_AUDIO_DESCRIPTOR
     (put 1 CEC_MSG_REQUEST_SHORT_AUDIO_DESCRIPTOR (set_len (2 + ucast (sad_clamp n)) m))"

lemma request_sad_fold:
  "cec_msg_request_short_audio_descriptor reply n ids codes m =
     fold (\<lambda>i. put (2 + i) (push_bit 6 (ids ! i) OR (codes ! i AND 0x3F))) [0..<unat (sad_clamp n)]
       (request_sad_msg n m reply)"
  by (simp add: cec_msg_request_short_audio_descriptor_def request_sad_msg_def Let_def sad_clamp_def)

lemma request_sad_len:
  assumes "unat n < 5"
  shows "2 \<le> (2 + ucast (n :: u8) :: u32) \<and> (2 + ucast n :: u32) \<le> 16 \<and> (ucast (2 + ucast n - 2 :: u32) :: u8) = n"
  by (rule word_exhaust_below [where k = 5, OF _ assms]) code_simp

lemma request_sad_facts:
  fixes reply :: c_int
  assumes "cec_wf m"
  shows "cec_wf (cec_msg_request_short_audio_descriptor reply n ids codes m)" and "m_len (cec_msg_request_short_audio_descriptor reply n ids codes m) = 2 + ucast (sad_clamp n)"
    and "byte (cec_msg_request_short_audio_descriptor reply n ids codes m) 0 = byte m 0"
    and "byte (cec_msg_request_short_audio_descriptor reply n ids codes m) 1 = CEC_MSG_REQUEST_SHORT_AUDIO_DESCRIPTOR"
    and "i < unat (sad_clamp n) \<Longrightarrow>
           byte (cec_msg_request_short_audio_descriptor reply n ids codes m) (2 + i) = push_bit 6 (ids ! i) OR (codes ! i AND 0x3F)"
proof -
  let ?m' = "cec_msg_request_short_audio_descriptor reply n ids codes m"
  have w: "cec_wf (request_sad_msg n m reply)" using assms(1) by (simp add: request_sad_msg_def)
  note f = put_loop [OF w sad_clamp(1) [of n], where f = "\<lambda>i. push_bit 6 (ids ! i) OR (codes ! i AND 0x3F)",
      folded request_sad_fold [of reply n ids codes m]]
  show "cec_wf ?m'" by (rule f)
  show "m_len ?m' = 2 + ucast (sad_clamp n)" using f(2) by (simp add: request_sad_msg_def)
  show "byte ?m' 0 = byte m 0"
    using f(3) [of 0] assms(1) by (simp add: request_sad_msg_def)
  show "byte ?m' 1 = CEC_MSG_REQUEST_SHORT_AUDIO_DESCRIPTOR"
    using f(3) [of 1] assms(1) by (simp add: request_sad_msg_def)
  show "i < unat (sad_clamp n) \<Longrightarrow>
           byte ?m' (2 + i) = push_bit 6 (ids ! i) OR (codes ! i AND 0x3F)" by (rule f(4))
qed

lemma request_sad_meta:
  "cec_meta (cec_msg_request_short_audio_descriptor reply n ids codes m) = cec_meta m"
proof -
  have "cec_meta (fold (\<lambda>i. put (2 + i) (f i)) xs m) = cec_meta m" for f xs m
    by (induction xs arbitrary: m) simp_all
  then show ?thesis by (simp add: request_sad_fold request_sad_msg_def)
qed

lemma request_sad_roundtrip:
  assumes "cec_wf m" and "sad_ids_ok fs" and "length ids = 4" and "length codes = 4"
  shows "cec_ops_request_short_audio_descriptor
           (cec_msg_request_short_audio_descriptor reply (word_of_nat (length fs)) (map fst fs) (map snd fs) m)
           ids codes =
         (word_of_nat (length fs), map fst fs @ drop (length fs) ids, map snd fs @ drop (length fs) codes)"
proof -
  let ?n = "word_of_nat (length fs) :: u8"
  let ?m = "cec_msg_request_short_audio_descriptor reply ?n (map fst fs) (map snd fs) m"
  have l: "length fs \<le> 4" using assms(2) by (simp add: sad_ids_ok_def)
  note c = sad_clamp_length [OF l]
  have n: "(ucast (m_len ?m - 2) :: u8) = ?n"
    unfolding request_sad_facts(2) [OF assms(1)]
    using request_sad_len [of "sad_clamp ?n"] c l by simp
  have u: "drop_bit 6 (byte ?m (2 + i)) = fst (fs ! i) \<and> byte ?m (2 + i) AND 0x3F = snd (fs ! i)"
    if "i < length fs" for i
  proof -
    have lt: "fst (fs ! i) < 4" "snd (fs ! i) < 64"
      using assms(2) that by (auto simp: sad_ids_ok_def list_all_length case_prod_beta)
    have b: "byte ?m (2 + i) = push_bit 6 (fst (fs ! i)) OR snd (fs ! i)"
      using request_sad_facts(5) [OF assms(1), of i ?n reply "map fst fs" "map snd fs"] c that
        take_bit_word_small [of "snd (fs ! i)" 6] lt by (simp add: word_lits)
    show ?thesis
      unfolding b word_lits
      using drop_pack [of "fst (fs ! i)" 2 "snd (fs ! i)" 6] take_pack [of "snd (fs ! i)" 6 "fst (fs ! i)"] lt
      by simp
  qed
  have "map (\<lambda>i. drop_bit 6 (byte ?m (2 + i))) [0..<length fs] = map (\<lambda>i. map fst fs ! i) [0..<length fs]"
    "map (\<lambda>i. byte ?m (2 + i) AND 0x3F) [0..<length fs] = map (\<lambda>i. map snd fs ! i) [0..<length fs]"
    using u by auto
  moreover have "map (\<lambda>i. map fst fs ! i) [0..<length fs] = map fst fs"
    "map (\<lambda>i. map snd fs ! i) [0..<length fs] = map snd fs"
    using map_nth [of "map fst fs"] map_nth [of "map snd fs"] by simp_all
  moreover have "\<not> ?n > 4" "unat ?n = length fs"
    using l c by (simp_all add: word_less_nat_alt)
  ultimately show ?thesis
    using l assms(3-4) unfolding cec_ops_request_short_audio_descriptor_def n Let_def
    by (simp add: fold_store)
qed

interpretation request_short_audio_descriptor: cec_codec
  "\<lambda>fs. cec_msg_request_short_audio_descriptor reply (word_of_nat (length fs)) (map fst fs) (map snd fs)"
  "\<lambda>m. case cec_ops_request_short_audio_descriptor m (replicate 4 0) (replicate 4 0) of
     (n, ids, codes) \<Rightarrow> zip (take (unat n) ids) (take (unat n) codes)"
  sad_ids_ok CEC_MSG_REQUEST_SHORT_AUDIO_DESCRIPTOR False for reply
proof
  fix m :: cec_msg and fs :: "(u8 \<times> u8) list"
  assume "cec_wf m" and "sad_ids_ok fs"
  moreover from this have "unat (word_of_nat (length fs) :: u8) = length fs"
    using sad_clamp_length [of fs] by (simp add: sad_ids_ok_def)
  ultimately show "(case cec_ops_request_short_audio_descriptor
      (cec_msg_request_short_audio_descriptor reply (word_of_nat (length fs)) (map fst fs) (map snd fs) m)
      (replicate 4 0) (replicate 4 0) of
      (n, ids, codes) \<Rightarrow> zip (take (unat n) ids) (take (unat n) codes)) = fs"
    by (simp add: request_sad_roundtrip zip_map_fst_snd)
qed (simp_all add: request_sad_facts request_sad_facts(4) [unfolded One_nat_def] request_sad_meta request_sad_len)

end
