(* ===== verification/Cec_Framing.thy ===== *)
theory Cec_Framing
  imports Cec_System Cec_Audio
begin

text \<open>
  How the encoders of \<open>cec-funcs.h\<close> frame a message: the exact length, the opcode, the header byte, the
  announced reply and the members of the caller's message they leave alone, for every operand, whether
  the wire format can carry it or not.
\<close>

unbundle bit_operations_syntax

named_theorems cec_framing \<open>framing of the messages\<close>

section \<open>Headers and replies\<close>

text \<open>
  \<open>cec_msg_init\<close> addresses the message: for four bit logical addresses the initiator
  and destination are read back, and the message has no opcode yet.
\<close>

lemma init_addresses:
  assumes "initiator < 16" and "destination < 16"
  shows "cec_wf (cec_msg_init initiator destination) \<and>
         cec_msg_initiator (cec_msg_init initiator destination) = initiator \<and>
         cec_msg_destination (cec_msg_init initiator destination) = destination \<and>
         (cec_msg_is_broadcast (cec_msg_init initiator destination) \<longleftrightarrow> destination = 15) \<and>
         cec_msg_opcode (cec_msg_init initiator destination) = -1"
proof -
  have b: "byte (cec_msg_init initiator destination) 0 = push_bit 4 initiator OR destination"
    by (simp add: cec_msg_init_def byte_def store_def cec_const)
  have "drop_bit 4 (byte (cec_msg_init initiator destination) 0) = initiator"
    unfolding b by (rule drop_pack [where k = 4]) (use assms in simp_all)
  moreover have "byte (cec_msg_init initiator destination) 0 AND 0xF = destination"
    unfolding b word_lits by (rule take_pack) (use assms in simp_all)
  ultimately show ?thesis
    by (simp add: cec_msg_initiator_def cec_msg_destination_def cec_msg_is_broadcast_def
        cec_msg_opcode_def) (simp add: cec_msg_init_def)
qed

lemma header_small: "cec_msg_initiator m < 16" "cec_msg_destination m < 16"
proof -
  show "cec_msg_initiator m < 16"
    unfolding cec_msg_initiator_def
    using unsigned_less [of "byte m 0", where 'a = nat] by (simp add: word_less_nat_alt drop_bit_eq_div unat_div)
  show "cec_msg_destination m < 16"
    unfolding cec_msg_destination_def and_lits
    using and_mask_less' [of 4 "byte m 0"] by (simp add: take_bit_eq_mask)
qed

lemma reply_to_header:
  assumes "cec_wf m"
  shows "cec_msg_initiator (cec_msg_set_reply_to orig m) = cec_msg_destination orig"
    and "cec_msg_destination (cec_msg_set_reply_to orig m) = cec_msg_initiator orig"
proof -
  have b: "byte (cec_msg_set_reply_to orig m) 0 = push_bit 4 (cec_msg_destination orig) OR cec_msg_initiator orig"
    using assms by (simp add: cec_msg_set_reply_to_def byte_def store_def cec_wf_def cec_const)
  show "cec_msg_initiator (cec_msg_set_reply_to orig m) = cec_msg_destination orig"
    unfolding cec_msg_initiator_def [of "cec_msg_set_reply_to orig m"] b
    by (rule drop_pack [where k = 4]) (simp_all add: header_small)
  show "cec_msg_destination (cec_msg_set_reply_to orig m) = cec_msg_initiator orig"
    unfolding cec_msg_destination_def [of "cec_msg_set_reply_to orig m"] b and_lits
    by (rule take_pack) (simp_all add: header_small)
qed

lemma reply_to_rest:
  assumes "cec_wf m"
  shows "cec_wf (cec_msg_set_reply_to orig m)" and "m_len (cec_msg_set_reply_to orig m) = m_len m"
    and "0 < j \<Longrightarrow> byte (cec_msg_set_reply_to orig m) j = byte m j"
    and "m_reply (cec_msg_set_reply_to orig m) = 0" and "m_timeout (cec_msg_set_reply_to orig m) = 0"
  using assms by (simp_all add: cec_msg_set_reply_to_def byte_def nth_store cec_wf_def cec_const store_def)

text \<open>
  A Feature Abort reply goes back where the rejected message came from: initiator and
  destination are swapped, the first operand is the opcode that was rejected (also when the
  reply is built in the received message itself), the second one the reason, and no further
  reply is expected.
\<close>

lemma reply_feature_abort_correct:
  assumes "cec_wf m"
  shows "cec_wf (cec_msg_reply_feature_abort reason m) \<and>
         cec_msg_opcode (cec_msg_reply_feature_abort reason m) = uint CEC_MSG_FEATURE_ABORT \<and>
         cec_msg_initiator (cec_msg_reply_feature_abort reason m) = cec_msg_destination m \<and>
         cec_msg_destination (cec_msg_reply_feature_abort reason m) = cec_msg_initiator m \<and>
         cec_ops_feature_abort (cec_msg_reply_feature_abort reason m) = (byte m 1, reason) \<and>
         m_reply (cec_msg_reply_feature_abort reason m) = 0"
  using assms reply_to_header [OF assms, where orig = m] reply_to_rest [OF assms, where orig = m]
  by (simp add: cec_msg_reply_feature_abort_def cec_ops_feature_abort_def cec_msg_opcode_def
      cec_msg_initiator_def cec_msg_destination_def)


lemma request_sad_reply:
  "m_reply (cec_msg_request_short_audio_descriptor reply n ids codes m) =
     (if reply \<noteq> 0 then CEC_MSG_REPORT_SHORT_AUDIO_DESCRIPTOR else 0)"
proof -
  have "m_reply (fold (\<lambda>i. put (2 + i) (f i)) xs m) = m_reply m" for f xs m
    by (induction xs arbitrary: m) simp_all
  then show ?thesis by (simp add: request_sad_fold request_sad_msg_def)
qed

section \<open>Messages of fixed length\<close>

text \<open>The lengths that depend on an operand.\<close>

definition timer_has_duration :: "u8 \<Rightarrow> u8 \<Rightarrow> bool" where
  "timer_has_duration prog_info prog_error \<longleftrightarrow>
     prog_info = CEC_OP_PROG_INFO_NOT_ENOUGH_SPACE \<or> prog_info = CEC_OP_PROG_INFO_MIGHT_NOT_BE_ENOUGH_SPACE \<or>
     prog_error = CEC_OP_PROG_ERROR_DUPLICATE"

definition record_on_len :: "u8 \<Rightarrow> nat option" where
  "record_on_len t =
     (if t = CEC_OP_RECORD_SRC_OWN then Some 3
      else if t = CEC_OP_RECORD_SRC_DIGITAL then Some 10
      else if t = CEC_OP_RECORD_SRC_ANALOG then Some 7
      else if t = CEC_OP_RECORD_SRC_EXT_PLUG then Some 4
      else if t = CEC_OP_RECORD_SRC_EXT_PHYS_ADDR then Some 5
      else None)"

definition ui_len :: "cec_op_ui_command \<Rightarrow> nat" where
  "ui_len ui =
     (if ui_has_opt_arg ui = 0 then 3
      else if ui_one_byte (ui_cmd ui) then 4
      else if ui_cmd ui = CEC_OP_UI_CMD_TUNE_FUNCTION then 7
      else 3)"

definition hec_set_len :: "u16 \<Rightarrow> u16 \<Rightarrow> u16 \<Rightarrow> nat" where
  "hec_set_len addr3 addr4 addr5 =
     (if addr3 = CEC_PHYS_ADDR_INVALID then 10
      else if addr4 = CEC_PHYS_ADDR_INVALID then 12
      else if addr5 = CEC_PHYS_ADDR_INVALID then 14
      else 16)"

lemmas framing_lens = timer_has_duration_def ui_len_def hec_set_len_def expected_def

lemma control_framing [cec_framing]:
  assumes "cec_wf m"
  shows "cec_framed CEC_MSG_ACTIVE_SOURCE True 4 (m_reply m) m (cec_msg_active_source pa m)"
    and "cec_framed CEC_MSG_IMAGE_VIEW_ON False 2 (m_reply m) m (cec_msg_image_view_on m)"
    and "cec_framed CEC_MSG_TEXT_VIEW_ON False 2 (m_reply m) m (cec_msg_text_view_on m)"
    and "cec_framed CEC_MSG_INACTIVE_SOURCE False 4 (m_reply m) m (cec_msg_inactive_source pa m)"
    and "cec_framed CEC_MSG_REQUEST_ACTIVE_SOURCE True 2 (expected reply CEC_MSG_ACTIVE_SOURCE) m
      (cec_msg_request_active_source reply m)"
    and "cec_framed CEC_MSG_ROUTING_INFORMATION True 4 (m_reply m) m (cec_msg_routing_information pa m)"
    and "cec_framed CEC_MSG_ROUTING_CHANGE True 6 (expected reply CEC_MSG_ROUTING_INFORMATION) m
      (cec_msg_routing_change reply pa pb m)"
    and "cec_framed CEC_MSG_SET_STREAM_PATH True 4 (m_reply m) m (cec_msg_set_stream_path pa m)"
    and "cec_framed CEC_MSG_STANDBY False 2 (m_reply m) m (cec_msg_standby m)"
    and "cec_framed CEC_MSG_RECORD_OFF False 2 (expected reply CEC_MSG_RECORD_STATUS) m (cec_msg_record_off reply m)"
    and "cec_framed CEC_MSG_RECORD_STATUS False 3 (m_reply m) m (cec_msg_record_status st m)"
    and "cec_framed CEC_MSG_RECORD_TV_SCREEN False 2 (expected reply CEC_MSG_RECORD_ON) m
      (cec_msg_record_tv_screen reply m)"
    and "cec_framed CEC_MSG_TIMER_CLEARED_STATUS False 3 (m_reply m) m (cec_msg_timer_cleared_status st m)"
    and "cec_framed CEC_MSG_CLEAR_ANALOGUE_TIMER False 13 (expected reply CEC_MSG_TIMER_CLEARED_STATUS) m
      (cec_msg_clear_analogue_timer reply day month sh sm dh dm seq bt fr bs m)"
    and "cec_framed CEC_MSG_CLEAR_DIGITAL_TIMER False 16 (expected reply CEC_MSG_TIMER_CLEARED_STATUS) m
      (cec_msg_clear_digital_timer reply day month sh sm dh dm seq d m)"
    and "cec_framed CEC_MSG_CLEAR_EXT_TIMER False 13 (expected reply CEC_MSG_TIMER_CLEARED_STATUS) m
      (cec_msg_clear_ext_timer reply day month sh sm dh dm seq spec plug pa m)"
    and "cec_framed CEC_MSG_SET_ANALOGUE_TIMER False 13 (expected reply CEC_MSG_TIMER_STATUS) m
      (cec_msg_set_analogue_timer reply day month sh sm dh dm seq bt fr bs m)"
    and "cec_framed CEC_MSG_SET_DIGITAL_TIMER False 16 (expected reply CEC_MSG_TIMER_STATUS) m
      (cec_msg_set_digital_timer reply day month sh sm dh dm seq d m)"
    and "cec_framed CEC_MSG_SET_EXT_TIMER False 13 (expected reply CEC_MSG_TIMER_STATUS) m
      (cec_msg_set_ext_timer reply day month sh sm dh dm seq spec plug pa m)"
    and "cec_framed CEC_MSG_TIMER_STATUS False (if timer_has_duration pi pe then 5 else 3) (m_reply m) m
      (cec_msg_timer_status w mi pi pe h mn m)"
  by (rule cec_framedI; simp add: assms cec_defs framing_lens del: cec_set_digital_service_id_def)+

lemma system_framing [cec_framing]:
  assumes "cec_wf m"
  shows "cec_framed CEC_MSG_CEC_VERSION False 3 (m_reply m) m (cec_msg_cec_version v m)"
    and "cec_framed CEC_MSG_GET_CEC_VERSION False 2 (expected reply CEC_MSG_CEC_VERSION) m
      (cec_msg_get_cec_version reply m)"
    and "cec_framed CEC_MSG_REPORT_PHYSICAL_ADDR True 5 (m_reply m) m (cec_msg_report_physical_addr pa v m)"
    and "cec_framed CEC_MSG_GIVE_PHYSICAL_ADDR False 2 (expected reply CEC_MSG_REPORT_PHYSICAL_ADDR) m
      (cec_msg_give_physical_addr reply m)"
    and "cec_framed CEC_MSG_GET_MENU_LANGUAGE False 2 (expected reply CEC_MSG_SET_MENU_LANGUAGE) m
      (cec_msg_get_menu_language reply m)"
    and "cec_framed CEC_MSG_GIVE_FEATURES False 2 (expected reply CEC_MSG_REPORT_FEATURES) m
      (cec_msg_give_features reply m)"
    and "cec_framed CEC_MSG_DECK_CONTROL False 3 (m_reply m) m (cec_msg_deck_control v m)"
    and "cec_framed CEC_MSG_DECK_STATUS False 3 (m_reply m) m (cec_msg_deck_status v m)"
    and "cec_framed CEC_MSG_GIVE_DECK_STATUS False 3 (if v \<noteq> CEC_OP_STATUS_REQ_OFF then expected reply CEC_MSG_DECK_STATUS else 0) m
      (cec_msg_give_deck_status reply v m)"
    and "cec_framed CEC_MSG_PLAY False 3 (m_reply m) m (cec_msg_play v m)"
    and "cec_framed CEC_MSG_GIVE_TUNER_DEVICE_STATUS False 3 (if v \<noteq> CEC_OP_STATUS_REQ_OFF then expected reply CEC_MSG_TUNER_DEVICE_STATUS else 0) m
      (cec_msg_give_tuner_device_status reply v m)"
    and "cec_framed CEC_MSG_SELECT_ANALOGUE_SERVICE False 6 (m_reply m) m (cec_msg_select_analogue_service v fr w m)"
    and "cec_framed CEC_MSG_TUNER_STEP_DECREMENT False 2 (m_reply m) m (cec_msg_tuner_step_decrement m)"
    and "cec_framed CEC_MSG_TUNER_STEP_INCREMENT False 2 (m_reply m) m (cec_msg_tuner_step_increment m)"
    and "cec_framed CEC_MSG_GIVE_DEVICE_VENDOR_ID False 2 (expected reply CEC_MSG_DEVICE_VENDOR_ID) m
      (cec_msg_give_device_vendor_id reply m)"
    and "cec_framed CEC_MSG_VENDOR_REMOTE_BUTTON_UP False 2 (m_reply m) m (cec_msg_vendor_remote_button_up m)"
    and "cec_framed CEC_MSG_GIVE_OSD_NAME False 2 (expected reply CEC_MSG_SET_OSD_NAME) m
      (cec_msg_give_osd_name reply m)"
    and "cec_framed CEC_MSG_MENU_STATUS False 3 (m_reply m) m (cec_msg_menu_status v m)"
    and "cec_framed CEC_MSG_MENU_REQUEST False 3 (expected reply CEC_MSG_MENU_STATUS) m
      (cec_msg_menu_request reply v m)"
    and "cec_framed CEC_MSG_USER_CONTROL_RELEASED False 2 (m_reply m) m (cec_msg_user_control_released m)"
    and "cec_framed CEC_MSG_REPORT_POWER_STATUS False 3 (m_reply m) m (cec_msg_report_power_status v m)"
    and "cec_framed CEC_MSG_GIVE_DEVICE_POWER_STATUS False 2 (expected reply CEC_MSG_REPORT_POWER_STATUS) m
      (cec_msg_give_device_power_status reply m)"
    and "cec_framed CEC_MSG_FEATURE_ABORT False 4 (m_reply m) m (cec_msg_feature_abort v w m)"
    and "cec_framed CEC_MSG_ABORT False 2 (m_reply m) m (cec_msg_abort m)"
    and "cec_framed CEC_MSG_SELECT_DIGITAL_SERVICE False 9 (m_reply m) m (cec_msg_select_digital_service d m)"
    and "cec_framed CEC_MSG_DEVICE_VENDOR_ID True 5 (m_reply m) m (cec_msg_device_vendor_id vid m)"
    and "cec_framed CEC_MSG_SET_MENU_LANGUAGE True 5 (m_reply m) m (cec_msg_set_menu_language lang m)"
    and "cec_framed CEC_MSG_REPORT_FEATURES True 6 (m_reply m) m (cec_msg_report_features v w rc df m)"
    and "cec_framed CEC_MSG_TUNER_DEVICE_STATUS False (if tun_is_analog t \<noteq> 0 then 7 else 10) (m_reply m) m
      (cec_msg_tuner_device_status t m)"
    and "cec_framed CEC_MSG_USER_CONTROL_PRESSED False (ui_len ui) (m_reply m) m (cec_msg_user_control_pressed ui m)"
  by (rule cec_framedI; simp add: assms cec_defs framing_lens del: cec_set_digital_service_id_def)+

lemma audio_framing [cec_framing]:
  assumes "cec_wf m"
  shows "cec_framed CEC_MSG_GIVE_AUDIO_STATUS False 2 (expected reply CEC_MSG_REPORT_AUDIO_STATUS) m
      (cec_msg_give_audio_status reply m)"
    and "cec_framed CEC_MSG_SET_SYSTEM_AUDIO_MODE False 3 (m_reply m) m (cec_msg_set_system_audio_mode v m)"
    and "cec_framed CEC_MSG_SYSTEM_AUDIO_MODE_REQUEST False (if pa = 0xFFFF then 2 else 4) (expected reply CEC_MSG_SET_SYSTEM_AUDIO_MODE) m
      (cec_msg_system_audio_mode_request reply pa m)"
    and "cec_framed CEC_MSG_SYSTEM_AUDIO_MODE_STATUS False 3 (m_reply m) m (cec_msg_system_audio_mode_status v m)"
    and "cec_framed CEC_MSG_GIVE_SYSTEM_AUDIO_MODE_STATUS False 2 (expected reply CEC_MSG_SYSTEM_AUDIO_MODE_STATUS) m
      (cec_msg_give_system_audio_mode_status reply m)"
    and "cec_framed CEC_MSG_SET_AUDIO_RATE False 3 (m_reply m) m (cec_msg_set_audio_rate v m)"
    and "cec_framed CEC_MSG_REPORT_ARC_INITIATED False 2 (m_reply m) m (cec_msg_report_arc_initiated m)"
    and "cec_framed CEC_MSG_INITIATE_ARC False 2 (expected reply CEC_MSG_REPORT_ARC_INITIATED) m
      (cec_msg_initiate_arc reply m)"
    and "cec_framed CEC_MSG_REQUEST_ARC_INITIATION False 2 (expected reply CEC_MSG_INITIATE_ARC) m
      (cec_msg_request_arc_initiation reply m)"
    and "cec_framed CEC_MSG_REPORT_ARC_TERMINATED False 2 (m_reply m) m (cec_msg_report_arc_terminated m)"
    and "cec_framed CEC_MSG_TERMINATE_ARC False 2 (expected reply CEC_MSG_REPORT_ARC_TERMINATED) m
      (cec_msg_terminate_arc reply m)"
    and "cec_framed CEC_MSG_REQUEST_ARC_TERMINATION False 2 (expected reply CEC_MSG_TERMINATE_ARC) m
      (cec_msg_request_arc_termination reply m)"
    and "cec_framed CEC_MSG_REQUEST_CURRENT_LATENCY True 4 (expected reply CEC_MSG_REPORT_CURRENT_LATENCY) m
      (cec_msg_request_current_latency reply pa m)"
    and "cec_framed CEC_MSG_REPORT_AUDIO_STATUS False 3 (m_reply m) m (cec_msg_report_audio_status mute vol m)"
    and "cec_framed CEC_MSG_REPORT_CURRENT_LATENCY True (if cmp = 3 then 7 else 6) (m_reply m) m
      (cec_msg_report_current_latency pa v low cmp delay m)"
    and "cec_framed CEC_MSG_CDC_MESSAGE True 9 (m_reply m) m (cec_msg_cdc_hec_inquire_state pa pb m)"
    and "cec_framed CEC_MSG_CDC_MESSAGE True 8 (m_reply m) m (cec_msg_cdc_hec_set_state_adjacent pa v m)"
    and "cec_framed CEC_MSG_CDC_MESSAGE True 11 (m_reply m) m (cec_msg_cdc_hec_request_deactivation pa pb pc m)"
    and "cec_framed CEC_MSG_CDC_MESSAGE True 6 (m_reply m) m (cec_msg_cdc_hpd_set_state x y m)"
    and "cec_framed CEC_MSG_CDC_MESSAGE True 6 (m_reply m) m (cec_msg_cdc_hpd_report_state x y m)"
    and "cec_framed CEC_MSG_CDC_MESSAGE True (hec_set_len pc pd pe) (m_reply m) m
      (cec_msg_cdc_hec_set_state pa pb v pc pd pe m)"
    and "cec_framed CEC_MSG_CDC_MESSAGE True (if hf \<noteq> 0 then 10 else 8) (m_reply m) m
      (cec_msg_cdc_hec_report_state pa hec host en err hf field m)"
    and "cec_framed CEC_MSG_CDC_MESSAGE True 5 (m_reply m) m (cec_msg_cdc_hec_notify_alive m)"
    and "cec_framed CEC_MSG_CDC_MESSAGE True 5 (m_reply m) m (cec_msg_cdc_hec_discover m)"
  by (rule cec_framedI; simp add: assms cec_defs framing_lens)+

section \<open>Messages with operands of variable length\<close>

lemma unat_clamp_strlen:
  "unat (if (word_of_nat (strlen t) :: u32) > k then k else word_of_nat (strlen t)) = min (unat k) (strlen t mod 2 ^ 32)"
  by (simp add: word_less_nat_alt unat_of_nat min_def)

lemma unat_clamp: "unat (if (x :: 'a::len word) > k then k else x) = min (unat k) (unat x)"
  by (simp add: word_less_nat_alt min_def)

lemma of_unat_byte: "unat (x :: u8) = k \<Longrightarrow> (ucast x :: u32) = word_of_nat k"
  by auto

text \<open>The two kinds of string messages, with the length after the clamp.\<close>

lemma bytes_framing:
  fixes m :: cec_msg and n :: u32
  assumes "cec_wf m" and "unat n = k" and "k \<le> 14"
  shows "cec_framed opc False (2 + k) (m_reply m) m
      (stmts [set_len (2 + n), put 1 opc, put_bytes 2 (take (unat n) b)] m)"
  by (rule cec_framedI) (use assms in auto)

lemma byte_bytes_framing:
  fixes m :: cec_msg and n :: u32
  assumes "cec_wf m" and "unat n = k" and "k \<le> 13"
  shows "cec_framed opc False (3 + k) (m_reply m) m
      (stmts [set_len (3 + n), put 1 opc, put 2 c, put_bytes 3 (take (unat n) b)] m)"
  by (rule cec_framedI) (use assms in auto)

lemma string_framing [cec_framing]:
  assumes "cec_wf m"
  shows "cec_framed CEC_MSG_SET_TIMER_PROGRAM_TITLE False (2 + min 14 (strlen title mod 2 ^ 32)) (m_reply m) m
      (cec_msg_set_timer_program_title title m)"
    and "cec_framed CEC_MSG_SET_OSD_NAME False (2 + min 14 (strlen str mod 2 ^ 32)) (m_reply m) m
      (cec_msg_set_osd_name str m)"
    and "cec_framed CEC_MSG_SET_OSD_STRING False (3 + min 13 (strlen str mod 2 ^ 32)) (m_reply m) m
      (cec_msg_set_osd_string v str m)"
  unfolding cec_msg_set_timer_program_title_def cec_msg_set_osd_name_def cec_msg_set_osd_string_def Let_def
  by (rule bytes_framing [OF assms] byte_bytes_framing [OF assms], subst unat_clamp_strlen, simp, simp)+

lemma vendor_framing [cec_framing]:
  assumes "cec_wf m"
  shows "cec_framed CEC_MSG_VENDOR_COMMAND False (2 + min 14 (unat n)) (m_reply m) m (cec_msg_vendor_command n cmd m)"
    and "cec_framed CEC_MSG_VENDOR_REMOTE_BUTTON_DOWN False (2 + min 14 (unat n)) (m_reply m) m
      (cec_msg_vendor_remote_button_down n cmd m)"
    and "cec_framed CEC_MSG_VENDOR_COMMAND_WITH_ID False (5 + min 11 (unat n)) (m_reply m) m
      (cec_msg_vendor_command_with_id vid n cmd m)"
  using of_unat_byte [OF unat_clamp [of 14 n]] of_unat_byte [OF unat_clamp [of 11 n]] unat_clamp [of 14 n] unat_clamp [of 11 n]
  by (rule_tac [!] cec_framedI) (simp_all add: vendor_defs assms)

lemma report_sad_framing [cec_framing]:
  assumes "cec_wf m"
  shows "cec_framed CEC_MSG_REPORT_SHORT_AUDIO_DESCRIPTOR False (2 + 3 * min 4 (unat n)) (m_reply m) m
      (cec_msg_report_short_audio_descriptor n sads m)"
proof (rule cec_framedI)
  have "unat (sad_clamp n) = min 4 (unat n)"
    unfolding sad_clamp_def by (subst unat_clamp) simp
  from of_unat_byte [OF this] show "m_len (cec_msg_report_short_audio_descriptor n sads m) =
      word_of_nat (2 + 3 * min 4 (unat n))"
    by (simp add: report_sad_facts(2) [OF assms] mult.commute)
  have "m_reply (fold (put3 sads) xs m') = m_reply m'" for xs m'
    by (induction xs arbitrary: m') simp_all
  then show "m_reply (cec_msg_report_short_audio_descriptor n sads m) = m_reply m"
    by (simp add: report_sad_fold)
qed (simp_all add: report_sad_facts [OF assms, unfolded One_nat_def] report_sad_meta)

lemma request_sad_framing [cec_framing]:
  assumes "cec_wf m"
  shows "cec_framed CEC_MSG_REQUEST_SHORT_AUDIO_DESCRIPTOR False (2 + min 4 (unat n))
      (expected reply CEC_MSG_REPORT_SHORT_AUDIO_DESCRIPTOR) m
      (cec_msg_request_short_audio_descriptor reply n ids codes m)"
proof (rule cec_framedI)
  have "unat (sad_clamp n) = min 4 (unat n)"
    unfolding sad_clamp_def by (subst unat_clamp) simp
  from of_unat_byte [OF this] show "m_len (cec_msg_request_short_audio_descriptor reply n ids codes m) =
      word_of_nat (2 + min 4 (unat n))"
    by (simp add: request_sad_facts(2) [OF assms])
qed (simp_all add: request_sad_facts [OF assms, unfolded One_nat_def] request_sad_meta request_sad_reply expected_def)

section \<open>Other messages\<close>

lemmas record_src_types = CEC_OP_RECORD_SRC_OWN_def CEC_OP_RECORD_SRC_DIGITAL_def CEC_OP_RECORD_SRC_ANALOG_def
  CEC_OP_RECORD_SRC_EXT_PLUG_def CEC_OP_RECORD_SRC_EXT_PHYS_ADDR_def

lemma record_on_framing [cec_framing]:
  assumes "cec_wf m"
  shows "case record_on_len (rec_type r) of
      Some n \<Rightarrow> cec_framed CEC_MSG_RECORD_ON False n (expected reply CEC_MSG_RECORD_STATUS) m (cec_msg_record_on reply r m)
    | None \<Rightarrow> cec_msg_record_on reply r m = m\<lparr>m_reply := expected reply CEC_MSG_RECORD_STATUS\<rparr>"
proof -
  consider "rec_type r = CEC_OP_RECORD_SRC_OWN" | "rec_type r = CEC_OP_RECORD_SRC_DIGITAL"
    | "rec_type r = CEC_OP_RECORD_SRC_ANALOG" | "rec_type r = CEC_OP_RECORD_SRC_EXT_PLUG"
    | "rec_type r = CEC_OP_RECORD_SRC_EXT_PHYS_ADDR" | "record_on_len (rec_type r) = None"
    unfolding record_on_len_def by presburger
  then show ?thesis
  proof cases
    case 6
    then show ?thesis
      by (simp add: record_on_len_def record_on_defs expected_def set_reply_def split: if_splits)
  qed (simp_all add: record_on_len_def record_src_types, (rule cec_framedI; simp add: assms record_on_defs expected_def record_src_types)+)
qed

lemma init_reply [simp]: "m_reply (cec_msg_init i d) = 0"
  by (simp add: cec_msg_init_def)

lemma reply_feature_abort_framing:
  assumes "cec_wf m"
  shows "cec_framed CEC_MSG_FEATURE_ABORT False 4 0 (cec_msg_set_reply_to m m) (cec_msg_reply_feature_abort reason m)"
  by (rule cec_framedI) (simp_all add: cec_msg_reply_feature_abort_def reply_to_rest [OF assms, where orig = m])

lemma cdc_opcode_bytes:
  assumes "cec_wf m"
  shows "byte (cec_msg_cdc_hec_inquire_state pa pb m) 4 = CEC_MSG_CDC_HEC_INQUIRE_STATE"
    and "byte (cec_msg_cdc_hec_report_state pa hec host en err hf field m) 4 = CEC_MSG_CDC_HEC_REPORT_STATE"
    and "byte (cec_msg_cdc_hec_set_state_adjacent pa v m) 4 = CEC_MSG_CDC_HEC_SET_STATE_ADJACENT"
    and "byte (cec_msg_cdc_hec_request_deactivation pa pb pc m) 4 = CEC_MSG_CDC_HEC_REQUEST_DEACTIVATION"
    and "byte (cec_msg_cdc_hec_notify_alive m) 4 = CEC_MSG_CDC_HEC_NOTIFY_ALIVE"
    and "byte (cec_msg_cdc_hec_discover m) 4 = CEC_MSG_CDC_HEC_DISCOVER"
    and "byte (cec_msg_cdc_hpd_set_state x y m) 4 = CEC_MSG_CDC_HPD_SET_STATE"
    and "byte (cec_msg_cdc_hpd_report_state x y m) 4 = CEC_MSG_CDC_HPD_REPORT_STATE"
    and "byte (cec_msg_cdc_hec_set_state pa pb v pc pd pe m) 4 = CEC_MSG_CDC_HEC_INQUIRE_STATE"
  using assms by (simp_all add: cec_defs)

end
