(* ===== verification/Cec_Properties.thy ===== *)
theory Cec_Properties
  imports Cec_Framing
begin

text \<open>
  What the CEC headers guarantee, stated over their functions: the messages the
  encoders build are well formed and addressed correctly, every decoder returns
  the operands its encoder was given, requests announce the reply they expect, and
  the places where the code falls short of that.
\<close>

unbundle bit_operations_syntax

section \<open>Facts of the codec interpretations\<close>

lemmas control_dec_enc =
  active_source.dec_enc
  inactive_source.dec_enc
  routing_information.dec_enc
  routing_change.dec_enc [where p = "(pa, pb)" for pa pb, unfolded prod.case]
  set_stream_path.dec_enc
  record_status.dec_enc
  timer_cleared_status.dec_enc
  clear_analogue_timer.dec_enc [where p = "(day, month, sh, sm, dh, dm, seq, bt, fr, bs)" for day month sh sm dh dm seq bt fr bs, unfolded prod.case]
  clear_digital_timer.dec_enc [where p = "(day, month, sh, sm, dh, dm, seq, d)" for day month sh sm dh dm seq d, unfolded prod.case]
  clear_ext_timer.dec_enc [where p = "(day, month, sh, sm, dh, dm, seq, spec, plug, pa)" for day month sh sm dh dm seq spec plug pa, unfolded prod.case]
  set_analogue_timer.dec_enc [where p = "(day, month, sh, sm, dh, dm, seq, bt, fr, bs)" for day month sh sm dh dm seq bt fr bs, unfolded prod.case]
  set_digital_timer.dec_enc [where p = "(day, month, sh, sm, dh, dm, seq, d)" for day month sh sm dh dm seq d, unfolded prod.case]
  set_ext_timer.dec_enc [where p = "(day, month, sh, sm, dh, dm, seq, spec, plug, pa)" for day month sh sm dh dm seq spec plug pa, unfolded prod.case]
  timer_status.dec_enc [where p = "(w, mi, pi, pe, h, mn)" for w mi pi pe h mn, unfolded prod.case]

lemmas system_dec_enc =
  cec_version.dec_enc
  report_physical_addr.dec_enc [where p = "(pa, v)" for pa v, unfolded prod.case]
  deck_control.dec_enc
  deck_status.dec_enc
  give_deck_status.dec_enc
  play.dec_enc
  give_tuner_device_status.dec_enc
  select_analogue_service.dec_enc [where p = "(v, fr, w)" for v fr w, unfolded prod.case]
  menu_status.dec_enc
  menu_request.dec_enc
  report_power_status.dec_enc
  feature_abort.dec_enc [where p = "(v, w)" for v w, unfolded prod.case]
  select_digital_service.dec_enc
  device_vendor_id.dec_enc
  report_features.dec_enc [where p = "(v, w, rc, df)" for v w rc df, unfolded prod.case]

lemmas audio_dec_enc =
  set_system_audio_mode.dec_enc
  system_audio_mode_request.dec_enc
  system_audio_mode_status.dec_enc
  set_audio_rate.dec_enc
  request_current_latency.dec_enc
  report_audio_status.dec_enc [where p = "(mute, vol)" for mute vol, unfolded prod.case]
  report_current_latency.dec_enc [where p = "(pa, v, low, cmp, delay)" for pa v low cmp delay, unfolded prod.case]
  cdc_hec_inquire_state.dec_enc [where p = "(pa, pb)" for pa pb, unfolded prod.case]
  cdc_hec_set_state_adjacent.dec_enc [where p = "(pa, v)" for pa v, unfolded prod.case]
  cdc_hec_request_deactivation.dec_enc [where p = "(pa, pb, pc)" for pa pb pc, unfolded prod.case]
  cdc_hpd_set_state.dec_enc [where p = "(x, y)" for x y, unfolded prod.case]
  cdc_hpd_report_state.dec_enc [where p = "(x, y)" for x y, unfolded prod.case]
  cdc_hec_set_state.dec_enc [where p = "(pa, pb, v, pc, pd, pe)" for pa pb v pc pd pe, unfolded prod.case]
  cdc_hec_report_state.dec_enc [where p = "(pa, hec, host, en, err, hf, field)" for pa hec host en err hf field, unfolded prod.case]

lemmas sample_defs = digital_ok_def digital0_def dig_views is_atsc_def record_src_ok_def record_src0_def
  timer_status_ok_def tuner_ok_def tuner0_def ui_ok_def ui0_def latency_ok_def sads_ok_def sad_ids_ok_def
  hec_set_ok_def hec_report_ok_def cec_const strlen_def

section \<open>Framing and round trips\<close>

text \<open>
  C1. How the encoders of One Touch Play, Routing Control, Standby, One Touch Record and Timer Programming frame
  a message, for every operand: no store leaves the 16 byte array, the length is the one given here, byte 1 is the
  opcode of the message, the initiator is kept, and the destination is either the caller's or the broadcast
  address, as the message type demands; a request announces the reply exactly when the caller asks for one, the
  other messages leave that member alone.  A program title of any length is cut to 14 bytes.  A recording
  source of an unknown type writes no message at all, only the reply member.
\<close>

theorem control_messages_framed:
  assumes "cec_wf m"
  shows "cec_framed CEC_MSG_ACTIVE_SOURCE True 4 (m_reply m) m (cec_msg_active_source pa m) \<and>
         cec_framed CEC_MSG_IMAGE_VIEW_ON False 2 (m_reply m) m (cec_msg_image_view_on m) \<and>
         cec_framed CEC_MSG_TEXT_VIEW_ON False 2 (m_reply m) m (cec_msg_text_view_on m) \<and>
         cec_framed CEC_MSG_INACTIVE_SOURCE False 4 (m_reply m) m (cec_msg_inactive_source pa m) \<and>
         cec_framed CEC_MSG_REQUEST_ACTIVE_SOURCE True 2 (expected reply CEC_MSG_ACTIVE_SOURCE) m
           (cec_msg_request_active_source reply m) \<and>
         cec_framed CEC_MSG_ROUTING_INFORMATION True 4 (m_reply m) m (cec_msg_routing_information pa m) \<and>
         cec_framed CEC_MSG_ROUTING_CHANGE True 6 (expected reply CEC_MSG_ROUTING_INFORMATION) m
           (cec_msg_routing_change reply pa pb m) \<and>
         cec_framed CEC_MSG_SET_STREAM_PATH True 4 (m_reply m) m (cec_msg_set_stream_path pa m) \<and>
         cec_framed CEC_MSG_STANDBY False 2 (m_reply m) m (cec_msg_standby m) \<and>
         cec_framed CEC_MSG_RECORD_OFF False 2 (expected reply CEC_MSG_RECORD_STATUS) m (cec_msg_record_off reply m) \<and>
         cec_framed CEC_MSG_RECORD_STATUS False 3 (m_reply m) m (cec_msg_record_status st m) \<and>
         cec_framed CEC_MSG_RECORD_TV_SCREEN False 2 (expected reply CEC_MSG_RECORD_ON) m
           (cec_msg_record_tv_screen reply m) \<and>
         cec_framed CEC_MSG_TIMER_CLEARED_STATUS False 3 (m_reply m) m (cec_msg_timer_cleared_status st m) \<and>
         cec_framed CEC_MSG_CLEAR_ANALOGUE_TIMER False 13 (expected reply CEC_MSG_TIMER_CLEARED_STATUS) m
           (cec_msg_clear_analogue_timer reply day month sh sm dh dm seq bt fr bs m) \<and>
         cec_framed CEC_MSG_CLEAR_DIGITAL_TIMER False 16 (expected reply CEC_MSG_TIMER_CLEARED_STATUS) m
           (cec_msg_clear_digital_timer reply day month sh sm dh dm seq d m) \<and>
         cec_framed CEC_MSG_CLEAR_EXT_TIMER False 13 (expected reply CEC_MSG_TIMER_CLEARED_STATUS) m
           (cec_msg_clear_ext_timer reply day month sh sm dh dm seq spec plug pa m) \<and>
         cec_framed CEC_MSG_SET_ANALOGUE_TIMER False 13 (expected reply CEC_MSG_TIMER_STATUS) m
           (cec_msg_set_analogue_timer reply day month sh sm dh dm seq bt fr bs m) \<and>
         cec_framed CEC_MSG_SET_DIGITAL_TIMER False 16 (expected reply CEC_MSG_TIMER_STATUS) m
           (cec_msg_set_digital_timer reply day month sh sm dh dm seq d m) \<and>
         cec_framed CEC_MSG_SET_EXT_TIMER False 13 (expected reply CEC_MSG_TIMER_STATUS) m
           (cec_msg_set_ext_timer reply day month sh sm dh dm seq spec plug pa m) \<and>
         (case record_on_len (rec_type r) of
            Some n \<Rightarrow> cec_framed CEC_MSG_RECORD_ON False n (expected reply CEC_MSG_RECORD_STATUS) m (cec_msg_record_on reply r m)
          | None \<Rightarrow> cec_msg_record_on reply r m = m\<lparr>m_reply := expected reply CEC_MSG_RECORD_STATUS\<rparr>) \<and>
         cec_framed CEC_MSG_TIMER_STATUS False (if timer_has_duration pi pe then 5 else 3) (m_reply m) m
           (cec_msg_timer_status w mi pi pe h mn m) \<and>
         cec_framed CEC_MSG_SET_TIMER_PROGRAM_TITLE False (2 + min 14 (strlen title mod 2 ^ 32)) (m_reply m) m
           (cec_msg_set_timer_program_title title m)"
  by (intro conjI; rule cec_framing [OF assms])

theorem control_messages_framed_witness:
  "cec_framed CEC_MSG_ROUTING_CHANGE True 6 CEC_MSG_ROUTING_INFORMATION (cec_msg_init 4 0)
     (cec_msg_routing_change 1 0x1000 0x2000 (cec_msg_init 4 0)) \<and>
   cec_framed CEC_MSG_SET_TIMER_PROGRAM_TITLE False 16 0 (cec_msg_init 4 0)
     (cec_msg_set_timer_program_title (replicate 20 65 @ [0]) (cec_msg_init 4 0))"
  using control_messages_framed [where m = "cec_msg_init 4 0" and title = "replicate 20 65 @ [0]" and reply = 1 and
      pa = "0x1000" and pb = "0x2000"]
  by (simp add: expected_def)

text \<open>
  C2. The same for System Information, Deck Control, Tuner Control, Vendor Specific Commands, the OSD, Device
  Menu Control, Remote Control, Power Status and the General Protocol Messages.  Vendor commands and button
  codes are cut to 14 bytes, or 11 after a vendor id, OSD names to 14 and OSD strings to 13, whatever size the
  caller gives.  A request for deck or tuner status announces no reply when it switches the reports off.  The
  Feature Abort reply is built in place, in the message it rejects: initiator and destination are swapped, and the
  first operand is the opcode that was rejected.
\<close>

theorem system_messages_framed:
  assumes "cec_wf m"
  shows "cec_framed CEC_MSG_CEC_VERSION False 3 (m_reply m) m (cec_msg_cec_version v m) \<and>
         cec_framed CEC_MSG_GET_CEC_VERSION False 2 (expected reply CEC_MSG_CEC_VERSION) m
           (cec_msg_get_cec_version reply m) \<and>
         cec_framed CEC_MSG_REPORT_PHYSICAL_ADDR True 5 (m_reply m) m (cec_msg_report_physical_addr pa v m) \<and>
         cec_framed CEC_MSG_GIVE_PHYSICAL_ADDR False 2 (expected reply CEC_MSG_REPORT_PHYSICAL_ADDR) m
           (cec_msg_give_physical_addr reply m) \<and>
         cec_framed CEC_MSG_GET_MENU_LANGUAGE False 2 (expected reply CEC_MSG_SET_MENU_LANGUAGE) m
           (cec_msg_get_menu_language reply m) \<and>
         cec_framed CEC_MSG_GIVE_FEATURES False 2 (expected reply CEC_MSG_REPORT_FEATURES) m
           (cec_msg_give_features reply m) \<and>
         cec_framed CEC_MSG_DECK_CONTROL False 3 (m_reply m) m (cec_msg_deck_control v m) \<and>
         cec_framed CEC_MSG_DECK_STATUS False 3 (m_reply m) m (cec_msg_deck_status v m) \<and>
         cec_framed CEC_MSG_GIVE_DECK_STATUS False 3 (if v \<noteq> CEC_OP_STATUS_REQ_OFF then expected reply CEC_MSG_DECK_STATUS else 0) m
           (cec_msg_give_deck_status reply v m) \<and>
         cec_framed CEC_MSG_PLAY False 3 (m_reply m) m (cec_msg_play v m) \<and>
         cec_framed CEC_MSG_GIVE_TUNER_DEVICE_STATUS False 3 (if v \<noteq> CEC_OP_STATUS_REQ_OFF then expected reply CEC_MSG_TUNER_DEVICE_STATUS else 0) m
           (cec_msg_give_tuner_device_status reply v m) \<and>
         cec_framed CEC_MSG_SELECT_ANALOGUE_SERVICE False 6 (m_reply m) m (cec_msg_select_analogue_service v fr w m) \<and>
         cec_framed CEC_MSG_TUNER_STEP_DECREMENT False 2 (m_reply m) m (cec_msg_tuner_step_decrement m) \<and>
         cec_framed CEC_MSG_TUNER_STEP_INCREMENT False 2 (m_reply m) m (cec_msg_tuner_step_increment m) \<and>
         cec_framed CEC_MSG_GIVE_DEVICE_VENDOR_ID False 2 (expected reply CEC_MSG_DEVICE_VENDOR_ID) m
           (cec_msg_give_device_vendor_id reply m) \<and>
         cec_framed CEC_MSG_VENDOR_REMOTE_BUTTON_UP False 2 (m_reply m) m (cec_msg_vendor_remote_button_up m) \<and>
         cec_framed CEC_MSG_GIVE_OSD_NAME False 2 (expected reply CEC_MSG_SET_OSD_NAME) m
           (cec_msg_give_osd_name reply m) \<and>
         cec_framed CEC_MSG_MENU_STATUS False 3 (m_reply m) m (cec_msg_menu_status v m) \<and>
         cec_framed CEC_MSG_MENU_REQUEST False 3 (expected reply CEC_MSG_MENU_STATUS) m
           (cec_msg_menu_request reply v m) \<and>
         cec_framed CEC_MSG_USER_CONTROL_RELEASED False 2 (m_reply m) m (cec_msg_user_control_released m) \<and>
         cec_framed CEC_MSG_REPORT_POWER_STATUS False 3 (m_reply m) m (cec_msg_report_power_status v m) \<and>
         cec_framed CEC_MSG_GIVE_DEVICE_POWER_STATUS False 2 (expected reply CEC_MSG_REPORT_POWER_STATUS) m
           (cec_msg_give_device_power_status reply m) \<and>
         cec_framed CEC_MSG_FEATURE_ABORT False 4 (m_reply m) m (cec_msg_feature_abort v w m) \<and>
         cec_framed CEC_MSG_ABORT False 2 (m_reply m) m (cec_msg_abort m) \<and>
         cec_framed CEC_MSG_SELECT_DIGITAL_SERVICE False 9 (m_reply m) m (cec_msg_select_digital_service d m) \<and>
         cec_framed CEC_MSG_DEVICE_VENDOR_ID True 5 (m_reply m) m (cec_msg_device_vendor_id vid m) \<and>
         cec_framed CEC_MSG_SET_MENU_LANGUAGE True 5 (m_reply m) m (cec_msg_set_menu_language lang m) \<and>
         cec_framed CEC_MSG_REPORT_FEATURES True 6 (m_reply m) m (cec_msg_report_features v w rc df m) \<and>
         cec_framed CEC_MSG_TUNER_DEVICE_STATUS False (if tun_is_analog t \<noteq> 0 then 7 else 10) (m_reply m) m
           (cec_msg_tuner_device_status t m) \<and>
         cec_framed CEC_MSG_VENDOR_COMMAND False (2 + min 14 (unat n)) (m_reply m) m (cec_msg_vendor_command n cmd m) \<and>
         cec_framed CEC_MSG_VENDOR_REMOTE_BUTTON_DOWN False (2 + min 14 (unat n)) (m_reply m) m
           (cec_msg_vendor_remote_button_down n cmd m) \<and>
         cec_framed CEC_MSG_VENDOR_COMMAND_WITH_ID False (5 + min 11 (unat n)) (m_reply m) m
           (cec_msg_vendor_command_with_id vid n cmd m) \<and>
         cec_framed CEC_MSG_SET_OSD_NAME False (2 + min 14 (strlen str mod 2 ^ 32)) (m_reply m) m
           (cec_msg_set_osd_name str m) \<and>
         cec_framed CEC_MSG_SET_OSD_STRING False (3 + min 13 (strlen str mod 2 ^ 32)) (m_reply m) m
           (cec_msg_set_osd_string v str m) \<and>
         cec_framed CEC_MSG_USER_CONTROL_PRESSED False (ui_len ui) (m_reply m) m (cec_msg_user_control_pressed ui m) \<and>
         cec_framed CEC_MSG_FEATURE_ABORT False 4 0 (cec_msg_set_reply_to m m) (cec_msg_reply_feature_abort v m) \<and>
         cec_msg_initiator (cec_msg_reply_feature_abort v m) = cec_msg_destination m \<and>
         cec_msg_destination (cec_msg_reply_feature_abort v m) = cec_msg_initiator m \<and>
         cec_ops_feature_abort (cec_msg_reply_feature_abort v m) = (byte m 1, v)"
  by (intro conjI; (rule cec_framing [OF assms] reply_feature_abort_framing [OF assms]
      | simp add: reply_feature_abort_correct [OF assms, unfolded One_nat_def]))

theorem system_messages_framed_witness:
  "cec_framed CEC_MSG_REPORT_PHYSICAL_ADDR True 5 0 (cec_msg_init 4 0)
     (cec_msg_report_physical_addr 0x1000 4 (cec_msg_init 4 0)) \<and>
   cec_framed CEC_MSG_VENDOR_COMMAND False 16 0 (cec_msg_init 4 0)
     (cec_msg_vendor_command 20 (replicate 20 1) (cec_msg_init 4 0)) \<and>
   cec_framed CEC_MSG_SET_OSD_NAME False 4 0 (cec_msg_init 4 0) (cec_msg_set_osd_name [84, 86, 0] (cec_msg_init 4 0))"
  using system_messages_framed [where m = "cec_msg_init 4 0" and n = 20 and cmd = "replicate 20 1" and str = "[84, 86, 0]" and
      pa = "0x1000" and v = 4]
  by (simp add: strlen_def)

text \<open>
  C3. The same for System Audio Control, Audio Rate Control, the Audio Return Channel and Dynamic Audio Lipsync:
  at most four short audio descriptors are sent, the latency report carries its delay byte only when the
  compensation says so, a system audio mode request without a physical address is two bytes long.  In Capability
  Discovery and Control every message is a broadcast \<open>CEC_MSG_CDC_MESSAGE\<close> with its CDC opcode in byte 4, and the
  length of an HEC state change follows the optional addresses that are valid.  The exception is
  \<open>cec_msg_cdc_hec_set_state\<close> itself: it announces an HEC state inquiry, so a receiver that dispatches on the CDC
  opcode takes a request to change the state for a question about it.
\<close>

theorem audio_cdc_messages_framed:
  assumes "cec_wf m"
  shows "cec_framed CEC_MSG_GIVE_AUDIO_STATUS False 2 (expected reply CEC_MSG_REPORT_AUDIO_STATUS) m
           (cec_msg_give_audio_status reply m) \<and>
         cec_framed CEC_MSG_SET_SYSTEM_AUDIO_MODE False 3 (m_reply m) m (cec_msg_set_system_audio_mode v m) \<and>
         cec_framed CEC_MSG_SYSTEM_AUDIO_MODE_REQUEST False (if pa = 0xFFFF then 2 else 4) (expected reply CEC_MSG_SET_SYSTEM_AUDIO_MODE) m
           (cec_msg_system_audio_mode_request reply pa m) \<and>
         cec_framed CEC_MSG_SYSTEM_AUDIO_MODE_STATUS False 3 (m_reply m) m (cec_msg_system_audio_mode_status v m) \<and>
         cec_framed CEC_MSG_GIVE_SYSTEM_AUDIO_MODE_STATUS False 2 (expected reply CEC_MSG_SYSTEM_AUDIO_MODE_STATUS) m
           (cec_msg_give_system_audio_mode_status reply m) \<and>
         cec_framed CEC_MSG_SET_AUDIO_RATE False 3 (m_reply m) m (cec_msg_set_audio_rate v m) \<and>
         cec_framed CEC_MSG_REPORT_ARC_INITIATED False 2 (m_reply m) m (cec_msg_report_arc_initiated m) \<and>
         cec_framed CEC_MSG_INITIATE_ARC False 2 (expected reply CEC_MSG_REPORT_ARC_INITIATED) m
           (cec_msg_initiate_arc reply m) \<and>
         cec_framed CEC_MSG_REQUEST_ARC_INITIATION False 2 (expected reply CEC_MSG_INITIATE_ARC) m
           (cec_msg_request_arc_initiation reply m) \<and>
         cec_framed CEC_MSG_REPORT_ARC_TERMINATED False 2 (m_reply m) m (cec_msg_report_arc_terminated m) \<and>
         cec_framed CEC_MSG_TERMINATE_ARC False 2 (expected reply CEC_MSG_REPORT_ARC_TERMINATED) m
           (cec_msg_terminate_arc reply m) \<and>
         cec_framed CEC_MSG_REQUEST_ARC_TERMINATION False 2 (expected reply CEC_MSG_TERMINATE_ARC) m
           (cec_msg_request_arc_termination reply m) \<and>
         cec_framed CEC_MSG_REQUEST_CURRENT_LATENCY True 4 (expected reply CEC_MSG_REPORT_CURRENT_LATENCY) m
           (cec_msg_request_current_latency reply pa m) \<and>
         cec_framed CEC_MSG_REPORT_AUDIO_STATUS False 3 (m_reply m) m (cec_msg_report_audio_status mute vol m) \<and>
         cec_framed CEC_MSG_REPORT_CURRENT_LATENCY True (if cmp = 3 then 7 else 6) (m_reply m) m
           (cec_msg_report_current_latency pa v low cmp delay m) \<and>
         cec_framed CEC_MSG_REPORT_SHORT_AUDIO_DESCRIPTOR False (2 + 3 * min 4 (unat n)) (m_reply m) m
           (cec_msg_report_short_audio_descriptor n sads m) \<and>
         cec_framed CEC_MSG_REQUEST_SHORT_AUDIO_DESCRIPTOR False (2 + min 4 (unat n)) (expected reply CEC_MSG_REPORT_SHORT_AUDIO_DESCRIPTOR) m
           (cec_msg_request_short_audio_descriptor reply n ids codes m) \<and>
         cec_framed CEC_MSG_CDC_MESSAGE True 9 (m_reply m) m (cec_msg_cdc_hec_inquire_state pa pb m) \<and>
         cec_framed CEC_MSG_CDC_MESSAGE True 8 (m_reply m) m (cec_msg_cdc_hec_set_state_adjacent pa v m) \<and>
         cec_framed CEC_MSG_CDC_MESSAGE True 11 (m_reply m) m (cec_msg_cdc_hec_request_deactivation pa pb pc m) \<and>
         cec_framed CEC_MSG_CDC_MESSAGE True 6 (m_reply m) m (cec_msg_cdc_hpd_set_state x y m) \<and>
         cec_framed CEC_MSG_CDC_MESSAGE True 6 (m_reply m) m (cec_msg_cdc_hpd_report_state x y m) \<and>
         cec_framed CEC_MSG_CDC_MESSAGE True (hec_set_len pc pd pe) (m_reply m) m
           (cec_msg_cdc_hec_set_state pa pb v pc pd pe m) \<and>
         cec_framed CEC_MSG_CDC_MESSAGE True (if hf \<noteq> 0 then 10 else 8) (m_reply m) m
           (cec_msg_cdc_hec_report_state pa hec host en err hf field m) \<and>
         cec_framed CEC_MSG_CDC_MESSAGE True 5 (m_reply m) m (cec_msg_cdc_hec_notify_alive m) \<and>
         cec_framed CEC_MSG_CDC_MESSAGE True 5 (m_reply m) m (cec_msg_cdc_hec_discover m) \<and>
         byte (cec_msg_cdc_hec_inquire_state pa pb m) 4 = CEC_MSG_CDC_HEC_INQUIRE_STATE \<and>
         byte (cec_msg_cdc_hec_report_state pa hec host en err hf field m) 4 = CEC_MSG_CDC_HEC_REPORT_STATE \<and>
         byte (cec_msg_cdc_hec_set_state_adjacent pa v m) 4 = CEC_MSG_CDC_HEC_SET_STATE_ADJACENT \<and>
         byte (cec_msg_cdc_hec_request_deactivation pa pb pc m) 4 = CEC_MSG_CDC_HEC_REQUEST_DEACTIVATION \<and>
         byte (cec_msg_cdc_hec_notify_alive m) 4 = CEC_MSG_CDC_HEC_NOTIFY_ALIVE \<and>
         byte (cec_msg_cdc_hec_discover m) 4 = CEC_MSG_CDC_HEC_DISCOVER \<and>
         byte (cec_msg_cdc_hpd_set_state x y m) 4 = CEC_MSG_CDC_HPD_SET_STATE \<and>
         byte (cec_msg_cdc_hpd_report_state x y m) 4 = CEC_MSG_CDC_HPD_REPORT_STATE \<and>
         byte (cec_msg_cdc_hec_set_state pa pb v pc pd pe m) 4 = CEC_MSG_CDC_HEC_INQUIRE_STATE \<and>
         CEC_MSG_CDC_HEC_INQUIRE_STATE \<noteq> CEC_MSG_CDC_HEC_SET_STATE"
  by (intro conjI; (rule cec_framing [OF assms] cdc_opcode_bytes [OF assms] | simp add: cec_const))

theorem audio_cdc_messages_framed_witness:
  "cec_framed CEC_MSG_INITIATE_ARC False 2 CEC_MSG_REPORT_ARC_INITIATED (cec_msg_init 5 0)
     (cec_msg_initiate_arc 1 (cec_msg_init 5 0)) \<and>
   cec_framed CEC_MSG_REPORT_SHORT_AUDIO_DESCRIPTOR False 8 0 (cec_msg_init 5 0)
     (cec_msg_report_short_audio_descriptor 2 [0x090701, 0x150750] (cec_msg_init 5 0))"
  using audio_cdc_messages_framed [where m = "cec_msg_init 5 0" and n = 2 and sads = "[0x090701, 0x150750]" and reply = 1]
  by (simp add: expected_def)

text \<open>
  Decoding what was encoded returns the operands, for every physical
  address and status byte of One Touch Play, Routing Control and the recording and timer
  acknowledgements, and for each of the five kinds of recording source (own, digital, analogue,
  external plug, external physical address).
\<close>

lemma control_roundtrip_part:
  assumes "cec_wf m" and "record_src_ok r"
  shows "cec_ops_active_source (cec_msg_active_source pa m) = pa \<and>
         cec_ops_inactive_source (cec_msg_inactive_source pa m) = pa \<and>
         cec_ops_routing_information (cec_msg_routing_information pa m) = pa \<and>
         cec_ops_routing_change (cec_msg_routing_change reply pa pb m) = (pa, pb) \<and>
         cec_ops_set_stream_path (cec_msg_set_stream_path pa m) = pa \<and>
         cec_ops_record_status (cec_msg_record_status st m) = st \<and>
         cec_ops_timer_cleared_status (cec_msg_timer_cleared_status st m) = st \<and>
         cec_ops_record_on (cec_msg_record_on reply r m) record_src0 = r"
  using assms by (simp add: control_dec_enc record_on_roundtrip)


text \<open>
  A timer survives the wire: for hours and minutes below 100 the binary
  coded decimal conversion loses nothing, in all six messages that set or clear a timer;
  a timer status report returns exactly one of program info and program error, with the
  duration only where the code defines it; a program title comes back cut to 14
  characters, whatever the string was.
\<close>

lemma timer_roundtrip_part:
  assumes "cec_wf m"
    and "sh < 100 \<and> sm < 100 \<and> dh < 100 \<and> dm < 100"
    and "digital_ok d"
    and "timer_status_ok (w, mi, pi, pe, h, mn)"
    and "strlen title < 2 ^ 32"
    and "15 \<le> length buf"
  shows "cec_ops_clear_analogue_timer
           (cec_msg_clear_analogue_timer reply day month sh sm dh dm seq bt fr bs m) =
             (day, month, sh, sm, dh, dm, seq, bt, fr, bs) \<and>
         cec_ops_clear_digital_timer
           (cec_msg_clear_digital_timer reply day month sh sm dh dm seq d m) digital0 =
             (day, month, sh, sm, dh, dm, seq, d) \<and>
         cec_ops_clear_ext_timer
           (cec_msg_clear_ext_timer reply day month sh sm dh dm seq spec plug pa m) =
             (day, month, sh, sm, dh, dm, seq, spec, plug, pa) \<and>
         cec_ops_set_analogue_timer
           (cec_msg_set_analogue_timer reply day month sh sm dh dm seq bt fr bs m) =
             (day, month, sh, sm, dh, dm, seq, bt, fr, bs) \<and>
         cec_ops_set_digital_timer
           (cec_msg_set_digital_timer reply day month sh sm dh dm seq d m) digital0 =
             (day, month, sh, sm, dh, dm, seq, d) \<and>
         cec_ops_set_ext_timer
           (cec_msg_set_ext_timer reply day month sh sm dh dm seq spec plug pa m) =
             (day, month, sh, sm, dh, dm, seq, spec, plug, pa) \<and>
         cec_ops_timer_status (cec_msg_timer_status w mi pi pe h mn m) = (w, mi, pi, pe, h, mn) \<and>
         c_string (cec_ops_set_timer_program_title (cec_msg_set_timer_program_title title m) buf) =
           take 14 (c_string title)"
  using assms by (simp add: control_dec_enc title_roundtrip)

text \<open>
  C4. Decoding what was encoded returns the operands: physical addresses and status bytes of One Touch Play, Routing
  Control and the acknowledgements, each of the five kinds of recording source, the timers with decimal coded times below 100,
  the timer status with exactly one of program info and error, and program titles, cut at 14 characters.
\<close>

theorem control_timer_roundtrip:
  assumes "cec_wf m"
    and "record_src_ok r"
    and "sh < 100 \<and> sm < 100 \<and> dh < 100 \<and> dm < 100"
    and "digital_ok d"
    and "timer_status_ok (w, mi, pi, pe, h, mn)"
    and "strlen title < 2 ^ 32"
    and "15 \<le> length buf"
  shows "(cec_ops_active_source (cec_msg_active_source pa m) = pa \<and>
         cec_ops_inactive_source (cec_msg_inactive_source pa m) = pa \<and>
         cec_ops_routing_information (cec_msg_routing_information pa m) = pa \<and>
         cec_ops_routing_change (cec_msg_routing_change reply pa pb m) = (pa, pb) \<and>
         cec_ops_set_stream_path (cec_msg_set_stream_path pa m) = pa \<and>
         cec_ops_record_status (cec_msg_record_status st m) = st \<and>
         cec_ops_timer_cleared_status (cec_msg_timer_cleared_status st m) = st \<and>
         cec_ops_record_on (cec_msg_record_on reply r m) record_src0 = r) \<and>
    (cec_ops_clear_analogue_timer
           (cec_msg_clear_analogue_timer reply day month sh sm dh dm seq bt fr bs m) =
             (day, month, sh, sm, dh, dm, seq, bt, fr, bs) \<and>
         cec_ops_clear_digital_timer
           (cec_msg_clear_digital_timer reply day month sh sm dh dm seq d m) digital0 =
             (day, month, sh, sm, dh, dm, seq, d) \<and>
         cec_ops_clear_ext_timer
           (cec_msg_clear_ext_timer reply day month sh sm dh dm seq spec plug pa m) =
             (day, month, sh, sm, dh, dm, seq, spec, plug, pa) \<and>
         cec_ops_set_analogue_timer
           (cec_msg_set_analogue_timer reply day month sh sm dh dm seq bt fr bs m) =
             (day, month, sh, sm, dh, dm, seq, bt, fr, bs) \<and>
         cec_ops_set_digital_timer
           (cec_msg_set_digital_timer reply day month sh sm dh dm seq d m) digital0 =
             (day, month, sh, sm, dh, dm, seq, d) \<and>
         cec_ops_set_ext_timer
           (cec_msg_set_ext_timer reply day month sh sm dh dm seq spec plug pa m) =
             (day, month, sh, sm, dh, dm, seq, spec, plug, pa) \<and>
         cec_ops_timer_status (cec_msg_timer_status w mi pi pe h mn m) = (w, mi, pi, pe, h, mn) \<and>
         c_string (cec_ops_set_timer_program_title (cec_msg_set_timer_program_title title m) buf) =
           take 14 (c_string title))"
  by (rule conjI [OF control_roundtrip_part [OF assms(1,2)] timer_roundtrip_part [OF assms(1,3,4,5,6,7)]])

theorem control_timer_roundtrip_witness:
  "cec_ops_routing_change (cec_msg_routing_change 1 0x1000 0x2000 (cec_msg_init 4 0)) = (0x1000, 0x2000) \<and>
   cec_ops_set_analogue_timer (cec_msg_set_analogue_timer 1 24 12 20 15 1 30 0 1 0x2A30 2 (cec_msg_init 4 0)) =
     (24, 12, 20, 15, 1, 30, 0, 1, 0x2A30, 2)"
  using control_timer_roundtrip [where m = "cec_msg_init 4 0" and sh = 20 and sm = 15 and dh = 1 and dm = 30 and d = digital0 and
    w = 1 and mi = 2 and pi = 0 and pe = "0xE" and h = 1 and mn = 30 and title = "[72, 105, 0]" and
    buf = "replicate 15 0" and reply = 1 and day = 24 and month = 12 and seq = 0 and bt = 1 and fr = "0x2A30" and bs = 2 and
    pa = "0x1000" and pb = "0x2000" and r = "record_src0\<lparr>rec_type := CEC_OP_RECORD_SRC_EXT_PLUG, rec_plug := 3\<rparr>"]
  by (simp add: sample_defs)

text \<open>
  Decoding what was encoded returns the operands in System Information,
  Deck Control, Tuner Control, menu, power and abort messages, a digital service and both
  kinds of tuner status included.
\<close>

lemma system_roundtrip_part:
  assumes "cec_wf m"
    and "digital_ok d"
    and "tuner_ok t"
    and "rc AND CEC_OP_FEAT_EXT = 0"
  shows "cec_ops_cec_version (cec_msg_cec_version v m) = v \<and>
         cec_ops_report_physical_addr (cec_msg_report_physical_addr pa v m) = (pa, v) \<and>
         cec_ops_deck_control (cec_msg_deck_control v m) = v \<and>
         cec_ops_deck_status (cec_msg_deck_status v m) = v \<and>
         cec_ops_give_deck_status (cec_msg_give_deck_status reply v m) = v \<and>
         cec_ops_play (cec_msg_play v m) = v \<and>
         cec_ops_give_tuner_device_status (cec_msg_give_tuner_device_status reply v m) = v \<and>
         cec_ops_select_analogue_service (cec_msg_select_analogue_service v fr w m) = (v, fr, w) \<and>
         cec_ops_menu_status (cec_msg_menu_status v m) = v \<and>
         cec_ops_menu_request (cec_msg_menu_request reply v m) = v \<and>
         cec_ops_report_power_status (cec_msg_report_power_status v m) = v \<and>
         cec_ops_feature_abort (cec_msg_feature_abort v w m) = (v, w) \<and>
         cec_ops_select_digital_service (cec_msg_select_digital_service d m) digital0 = d \<and>
         features_of (cec_msg_report_features v w rc df m) = (v, w, rc, df) \<and>
         cec_ops_tuner_device_status (cec_msg_tuner_device_status t m) tuner0 = t"
  using assms by (simp add: system_dec_enc tuner_roundtrip)


lemma operand_bytes_roundtrip_part:
  assumes "cec_wf m"
    and "vid < 2 ^ 24"
    and "length lang = 3 \<and> 0 \<notin> set lang"
    and "unat n \<le> length cmd"
    and "strlen str < 2 ^ 32"
    and "15 \<le> length buf"
    and "ui_ok ui"
  shows "cec_ops_device_vendor_id (cec_msg_device_vendor_id vid m) = vid \<and>
         c_string (cec_ops_set_menu_language (cec_msg_set_menu_language lang m) (replicate 4 0)) = lang \<and>
         payload (cec_msg_vendor_command n cmd m) (cec_ops_vendor_command (cec_msg_vendor_command n cmd m)) =
           take (min 14 (unat n)) cmd \<and>
         payload (cec_msg_vendor_remote_button_down n cmd m)
           (cec_ops_vendor_remote_button_down (cec_msg_vendor_remote_button_down n cmd m)) = take (min 14 (unat n)) cmd \<and>
         (case cec_ops_vendor_command_with_id (cec_msg_vendor_command_with_id vid n cmd m) of
            (i, ptr) \<Rightarrow> (i, payload (cec_msg_vendor_command_with_id vid n cmd m) ptr)) = (vid, take (min 11 (unat n)) cmd) \<and>
         c_string (cec_ops_set_osd_name (cec_msg_set_osd_name str m) buf) = take 14 (c_string str) \<and>
         map_prod id c_string (cec_ops_set_osd_string (cec_msg_set_osd_string v str m) buf) = (v, take 13 (c_string str)) \<and>
         cec_ops_user_control_pressed (cec_msg_user_control_pressed ui m) ui0 = ui"
  using assms by (simp add: system_dec_enc set_menu_language.dec_enc vendor_payload osd_name_roundtrip
      osd_string_roundtrip ui_roundtrip)

text \<open>
  C5. Decoding what was encoded returns the operands in System Information, Deck Control, Tuner Control, menu, power
  and abort messages, a digital service and both kinds of tuner status included.  Operands of variable length come back
  up to the room of their message, whatever size the caller gives: the first 14 bytes of vendor commands and remote button
  codes, the first 11 of a vendor command that follows a 24 bit vendor id, the first 14 characters of an OSD name and 13 of an
  OSD string.  So do three letter menu languages and the optional operand of a pressed remote control key.
\<close>

theorem system_operands_roundtrip:
  assumes "cec_wf m"
    and "digital_ok d"
    and "tuner_ok t"
    and "rc AND CEC_OP_FEAT_EXT = 0"
    and "vid < 2 ^ 24"
    and "length lang = 3 \<and> 0 \<notin> set lang"
    and "unat n \<le> length cmd"
    and "strlen str < 2 ^ 32"
    and "15 \<le> length buf"
    and "ui_ok ui"
  shows "(cec_ops_cec_version (cec_msg_cec_version v m) = v \<and>
         cec_ops_report_physical_addr (cec_msg_report_physical_addr pa v m) = (pa, v) \<and>
         cec_ops_deck_control (cec_msg_deck_control v m) = v \<and>
         cec_ops_deck_status (cec_msg_deck_status v m) = v \<and>
         cec_ops_give_deck_status (cec_msg_give_deck_status reply v m) = v \<and>
         cec_ops_play (cec_msg_play v m) = v \<and>
         cec_ops_give_tuner_device_status (cec_msg_give_tuner_device_status reply v m) = v \<and>
         cec_ops_select_analogue_service (cec_msg_select_analogue_service v fr w m) = (v, fr, w) \<and>
         cec_ops_menu_status (cec_msg_menu_status v m) = v \<and>
         cec_ops_menu_request (cec_msg_menu_request reply v m) = v \<and>
         cec_ops_report_power_status (cec_msg_report_power_status v m) = v \<and>
         cec_ops_feature_abort (cec_msg_feature_abort v w m) = (v, w) \<and>
         cec_ops_select_digital_service (cec_msg_select_digital_service d m) digital0 = d \<and>
         features_of (cec_msg_report_features v w rc df m) = (v, w, rc, df) \<and>
         cec_ops_tuner_device_status (cec_msg_tuner_device_status t m) tuner0 = t) \<and>
    (cec_ops_device_vendor_id (cec_msg_device_vendor_id vid m) = vid \<and>
         c_string (cec_ops_set_menu_language (cec_msg_set_menu_language lang m) (replicate 4 0)) = lang \<and>
         payload (cec_msg_vendor_command n cmd m) (cec_ops_vendor_command (cec_msg_vendor_command n cmd m)) =
           take (min 14 (unat n)) cmd \<and>
         payload (cec_msg_vendor_remote_button_down n cmd m)
           (cec_ops_vendor_remote_button_down (cec_msg_vendor_remote_button_down n cmd m)) = take (min 14 (unat n)) cmd \<and>
         (case cec_ops_vendor_command_with_id (cec_msg_vendor_command_with_id vid n cmd m) of
            (i, ptr) \<Rightarrow> (i, payload (cec_msg_vendor_command_with_id vid n cmd m) ptr)) = (vid, take (min 11 (unat n)) cmd) \<and>
         c_string (cec_ops_set_osd_name (cec_msg_set_osd_name str m) buf) = take 14 (c_string str) \<and>
         map_prod id c_string (cec_ops_set_osd_string (cec_msg_set_osd_string v str m) buf) = (v, take 13 (c_string str)) \<and>
         cec_ops_user_control_pressed (cec_msg_user_control_pressed ui m) ui0 = ui)"
  by (rule conjI [OF system_roundtrip_part [OF assms(1,2,3,4)] operand_bytes_roundtrip_part [OF assms(1,5,6,7,8,9,10)]])

theorem system_operands_roundtrip_witness:
  "cec_ops_tuner_device_status (cec_msg_tuner_device_status (tuner0\<lparr>tun_rec_flag := 1, tun_display_info := 2\<rparr>)
     (cec_msg_init 4 0)) tuner0 = tuner0\<lparr>tun_rec_flag := 1, tun_display_info := 2\<rparr> \<and>
   features_of (cec_msg_report_features 6 0x20 0x42 0x10 (cec_msg_init 4 0)) = (6, 0x20, 0x42, 0x10) \<and>
   cec_ops_device_vendor_id (cec_msg_device_vendor_id 0x000c03 (cec_msg_init 4 0)) = 0x000c03 \<and>
   payload (cec_msg_vendor_command 20 (replicate 20 1) (cec_msg_init 4 0))
     (cec_ops_vendor_command (cec_msg_vendor_command 20 (replicate 20 1) (cec_msg_init 4 0))) = replicate 14 1 \<and>
   c_string (cec_ops_set_osd_name (cec_msg_set_osd_name [84, 86, 0] (cec_msg_init 4 0)) (replicate 15 0)) = [84, 86]"
  using system_operands_roundtrip [where m = "cec_msg_init 4 0" and d = digital0 and
    t = "tuner0\<lparr>tun_rec_flag := 1, tun_display_info := 2\<rparr>" and v = 6 and w = "0x20" and rc = "0x42" and df = "0x10" and
    vid = "0x000c03" and lang = "[101, 110, 103]" and n = 20 and cmd = "replicate 20 1" and str = "[84, 86, 0]" and
    buf = "replicate 15 0" and ui = ui0]
  by (simp add: sample_defs c_string_def)

text \<open>
  Decoding what was encoded returns the operands in the audio messages,
  down to the packed mute/volume and latency bytes; up to four short audio descriptors (or
  format requests) are delivered in order and the rest of the caller's array is untouched.
\<close>

lemma audio_roundtrip_part:
  assumes "cec_wf m"
    and "mute < 2 \<and> vol < 128"
    and "latency_ok (pa, v, low, cmp, delay)"
    and "sads_ok sads"
    and "sad_ids_ok fs"
    and "length buf = 4"
    and "length ids = 4 \<and> length codes = 4"
  shows "cec_ops_set_system_audio_mode (cec_msg_set_system_audio_mode v m) = v \<and>
         cec_ops_system_audio_mode_request (cec_msg_system_audio_mode_request reply pa m) = pa \<and>
         cec_ops_system_audio_mode_status (cec_msg_system_audio_mode_status v m) = v \<and>
         cec_ops_set_audio_rate (cec_msg_set_audio_rate v m) = v \<and>
         cec_ops_request_current_latency (cec_msg_request_current_latency reply pa m) = pa \<and>
         cec_ops_report_audio_status (cec_msg_report_audio_status mute vol m) = (mute, vol) \<and>
         cec_ops_report_current_latency (cec_msg_report_current_latency pa v low cmp delay m) =
           (pa, v, low, cmp, delay) \<and>
         cec_ops_report_short_audio_descriptor (cec_msg_report_short_audio_descriptor (word_of_nat
           (length sads)) sads m) buf = (word_of_nat (length sads), sads @ drop (length sads) buf) \<and>
         cec_ops_request_short_audio_descriptor (cec_msg_request_short_audio_descriptor reply
           (word_of_nat (length fs)) (map fst fs) (map snd fs) m) ids codes =
             (word_of_nat (length fs), map fst fs @ drop (length fs) ids, map snd fs @ drop
               (length fs) codes)"
  using assms by (simp add: audio_dec_enc report_sad_roundtrip request_sad_roundtrip)


text \<open>
  Decoding what was encoded returns the operands of the CDC messages, the optional trailing
  addresses of an HEC state change included.  An HEC state report is the exception: its decoder
  reads the ENC functionality state from the bits of the host functionality state, so the host
  state comes back in its place and the ENC state is lost.
\<close>

lemma cdc_roundtrip_part:
  assumes "cec_wf m"
    and "x < 16 \<and> y < 16"
    and "hec_set_ok (pa, pb, v, pc, pd, pe)"
    and "hec < 4" and "host < 4" and "en < 4" and "err < 4"
  shows "snd (cec_ops_cdc_hec_inquire_state (cec_msg_cdc_hec_inquire_state pa pb m)) = (pa, pb) \<and>
         snd (cec_ops_cdc_hec_set_state_adjacent (cec_msg_cdc_hec_set_state_adjacent pa v m)) =
           (pa, v) \<and>
         snd (cec_ops_cdc_hec_request_deactivation
           (cec_msg_cdc_hec_request_deactivation pa pb pc m)) = (pa, pb, pc) \<and>
         snd (cec_ops_cdc_hpd_set_state (cec_msg_cdc_hpd_set_state x y m)) = (x, y) \<and>
         snd (cec_ops_cdc_hpd_report_state (cec_msg_cdc_hpd_report_state x y m)) = (x, y) \<and>
         snd (cec_ops_cdc_hec_set_state (cec_msg_cdc_hec_set_state pa pb v pc pd pe m)) =
           (pa, pb, v, pc, pd, pe) \<and>
         snd (cec_ops_cdc_hec_report_state
           (cec_msg_cdc_hec_report_state pa hec host en err hf field m)) =
             (pa, hec, host, host, err, if hf \<noteq> 0 then 1 else 0, if hf \<noteq> 0 then field else 0)"
  using assms by (simp add: audio_dec_enc hec_report_decoded)

text \<open>
  C6. Decoding what was encoded returns the operands in the audio messages, down to the packed mute/volume and latency bytes; up to
  four short audio descriptors (or format requests) are delivered in order and the rest of the caller's array is untouched.  The
  operands of the CDC messages come back too, the optional trailing addresses of an HEC state change included.  An HEC state
  report is the exception: its decoder reads the ENC functionality state from the bits of the host functionality state, so
  the host state comes back in its place and the ENC state is lost.
\<close>

theorem audio_cdc_roundtrip:
  assumes "cec_wf m"
    and "mute < 2 \<and> vol < 128"
    and "latency_ok (pa, v, low, cmp, delay)"
    and "sads_ok sads"
    and "sad_ids_ok fs"
    and "length buf = 4"
    and "length ids = 4 \<and> length codes = 4"
    and "x < 16 \<and> y < 16"
    and "hec_set_ok (ha, pb, hv, pc, pd, pe)"
    and "hec < 4"
    and "host < 4"
    and "en < 4"
    and "err < 4"
  shows "(cec_ops_set_system_audio_mode (cec_msg_set_system_audio_mode v m) = v \<and>
         cec_ops_system_audio_mode_request (cec_msg_system_audio_mode_request reply pa m) = pa \<and>
         cec_ops_system_audio_mode_status (cec_msg_system_audio_mode_status v m) = v \<and>
         cec_ops_set_audio_rate (cec_msg_set_audio_rate v m) = v \<and>
         cec_ops_request_current_latency (cec_msg_request_current_latency reply pa m) = pa \<and>
         cec_ops_report_audio_status (cec_msg_report_audio_status mute vol m) = (mute, vol) \<and>
         cec_ops_report_current_latency (cec_msg_report_current_latency pa v low cmp delay m) =
           (pa, v, low, cmp, delay) \<and>
         cec_ops_report_short_audio_descriptor (cec_msg_report_short_audio_descriptor (word_of_nat
           (length sads)) sads m) buf = (word_of_nat (length sads), sads @ drop (length sads) buf) \<and>
         cec_ops_request_short_audio_descriptor (cec_msg_request_short_audio_descriptor reply
           (word_of_nat (length fs)) (map fst fs) (map snd fs) m) ids codes =
             (word_of_nat (length fs), map fst fs @ drop (length fs) ids, map snd fs @ drop
               (length fs) codes)) \<and>
    (snd (cec_ops_cdc_hec_inquire_state (cec_msg_cdc_hec_inquire_state ha pb m)) = (ha, pb) \<and>
         snd (cec_ops_cdc_hec_set_state_adjacent (cec_msg_cdc_hec_set_state_adjacent ha hv m)) =
           (ha, hv) \<and>
         snd (cec_ops_cdc_hec_request_deactivation
           (cec_msg_cdc_hec_request_deactivation ha pb pc m)) = (ha, pb, pc) \<and>
         snd (cec_ops_cdc_hpd_set_state (cec_msg_cdc_hpd_set_state x y m)) = (x, y) \<and>
         snd (cec_ops_cdc_hpd_report_state (cec_msg_cdc_hpd_report_state x y m)) = (x, y) \<and>
         snd (cec_ops_cdc_hec_set_state (cec_msg_cdc_hec_set_state ha pb hv pc pd pe m)) =
           (ha, pb, hv, pc, pd, pe) \<and>
         snd (cec_ops_cdc_hec_report_state
           (cec_msg_cdc_hec_report_state ha hec host en err hf field m)) =
             (ha, hec, host, host, err, if hf \<noteq> 0 then 1 else 0, if hf \<noteq> 0 then field else 0))"
  by (rule conjI [OF audio_roundtrip_part [OF assms(1,2,3,4,5,6,7)] cdc_roundtrip_part [OF assms(1,8,9,10,11,12,13)]])

theorem audio_cdc_roundtrip_witness:
  "cec_ops_report_audio_status (cec_msg_report_audio_status 1 30 (cec_msg_init 5 0)) = (1, 30) \<and>
   cec_ops_report_short_audio_descriptor (cec_msg_report_short_audio_descriptor (word_of_nat (length [0x090701]))
     [0x090701] (cec_msg_init 5 0)) [7, 7, 7, 7] = (1, [0x090701, 7, 7, 7]) \<and>
   snd (cec_ops_cdc_hec_report_state (cec_msg_cdc_hec_report_state 0x1000 1 2 3 0 0 0 (cec_msg_init 5 0))) =
     (0x1000, 1, 2, 2, 0, 0, 0)"
  using audio_cdc_roundtrip [where m = "cec_msg_init 5 0" and mute = 1 and vol = 30 and pa = 0 and v = 2 and low = 1 and cmp = 3 and
    delay = 9 and sads = "[0x090701]" and fs = "[(0, 1), (0, 2)]" and reply = 1 and buf = "[7, 7, 7, 7]" and
    ids = "replicate 4 0" and codes = "replicate 4 0" and x = 1 and y = 2 and ha = "0x1000" and pb = "0x1100" and
    hv = 1 and pc = "0x1200" and pd = CEC_PHYS_ADDR_INVALID and pe = CEC_PHYS_ADDR_INVALID and hec = 1 and
    host = 2 and en = 3 and err = 0 and hf = 0 and field = 0]
  by (simp add: sample_defs)

section \<open>Status\<close>

text \<open>
  A transmitted message whose status is reported as fine has left the bus without error
  (the OK bit of a non-zero transmit status), has got any reply it waited for (the OK bit of a
  non-zero receive status), was actually processed, and was not answered by a Feature Abort;
  and conversely.
\<close>

lemma status_is_ok_iff:
  "cec_msg_status_is_ok m \<longleftrightarrow>
     (m_tx_status m = 0 \<or> bit (m_tx_status m) 0) \<and>
     (m_rx_status m = 0 \<or> bit (m_rx_status m) 0) \<and>
     \<not> (m_tx_status m = 0 \<and> m_rx_status m = 0) \<and>
     \<not> bit (m_rx_status m) 2"
proof -
  have "(x :: u8) AND 1 = 0 \<longleftrightarrow> \<not> bit x 0" "(x :: u8) AND 4 = 0 \<longleftrightarrow> \<not> bit x 2" for x
    using and_exp_eq_0_iff_not_bit [of x 0] and_exp_eq_0_iff_not_bit [of x 2] by simp_all
  then show ?thesis
    by (simp add: cec_msg_status_is_ok_def cec_const push_bit_eq_mult)
qed

section \<open>Addresses and opcodes\<close>

lemmas has_defs = cec_has_tv_def cec_has_record_def cec_has_tuner_def cec_has_playback_def
  cec_has_audiosystem_def cec_has_backup_def cec_has_specific_def cec_is_unregistered_def

lemma ucast_0_iff: "(ucast (x :: u16) :: c_int) = 0 \<longleftrightarrow> x = 0"
  by transfer (simp add: take_bit_eq_0_iff min_def)

lemma masks_cover:
  "x = 0 \<longleftrightarrow>
     x AND CEC_LOG_ADDR_MASK_TV = 0 \<and> x AND CEC_LOG_ADDR_MASK_RECORD = 0 \<and>
     x AND CEC_LOG_ADDR_MASK_TUNER = 0 \<and> x AND CEC_LOG_ADDR_MASK_PLAYBACK = 0 \<and>
     x AND CEC_LOG_ADDR_MASK_AUDIOSYSTEM = 0 \<and> x AND CEC_LOG_ADDR_MASK_BACKUP = 0 \<and>
     x AND CEC_LOG_ADDR_MASK_SPECIFIC = 0 \<and> x AND CEC_LOG_ADDR_MASK_UNREGISTERED = 0"
  (is "_ \<longleftrightarrow> ?none")
proof
  assume ?none
  then have "x AND (CEC_LOG_ADDR_MASK_TV OR CEC_LOG_ADDR_MASK_RECORD OR CEC_LOG_ADDR_MASK_TUNER OR
      CEC_LOG_ADDR_MASK_PLAYBACK OR CEC_LOG_ADDR_MASK_AUDIOSYSTEM OR CEC_LOG_ADDR_MASK_BACKUP OR
      CEC_LOG_ADDR_MASK_SPECIFIC OR CEC_LOG_ADDR_MASK_UNREGISTERED) = 0"
    by (simp only: bit.conj_disj_distrib bit.disj_zero_right)
  moreover have "(CEC_LOG_ADDR_MASK_TV OR CEC_LOG_ADDR_MASK_RECORD OR CEC_LOG_ADDR_MASK_TUNER OR
      CEC_LOG_ADDR_MASK_PLAYBACK OR CEC_LOG_ADDR_MASK_AUDIOSYSTEM OR CEC_LOG_ADDR_MASK_BACKUP OR
      CEC_LOG_ADDR_MASK_SPECIFIC OR CEC_LOG_ADDR_MASK_UNREGISTERED) = -1"
    by code_simp
  ultimately show "x = 0"
    by simp
qed simp

text \<open>
  The eight address classes partition the sixteen logical addresses: the mask of a single
  address is recognised by exactly one of the class tests, and a mask passes none of them only
  when it is empty, which is what \<open>cec_is_unconfigured\<close> tests.
\<close>

lemma address_classes_partition:
  "list_all (\<lambda>a. length (filter (\<lambda>has. has (push_bit a 1) \<noteq> 0)
       [cec_has_tv, cec_has_record, cec_has_tuner, cec_has_playback, cec_has_audiosystem,
        cec_has_backup, cec_has_specific, cec_is_unregistered]) = 1) [0..<16] \<and>
   (cec_is_unconfigured addrs \<longleftrightarrow>
      list_all (\<lambda>has. has addrs = 0)
       [cec_has_tv, cec_has_record, cec_has_tuner, cec_has_playback, cec_has_audiosystem,
        cec_has_backup, cec_has_specific, cec_is_unregistered])"
proof
  show "list_all (\<lambda>a. length (filter (\<lambda>has. has (push_bit a 1) \<noteq> 0)
       [cec_has_tv, cec_has_record, cec_has_tuner, cec_has_playback, cec_has_audiosystem,
        cec_has_backup, cec_has_specific, cec_is_unregistered]) = 1) [0..<16]"
    by code_simp
  show "cec_is_unconfigured addrs \<longleftrightarrow>
      list_all (\<lambda>has. has addrs = 0)
       [cec_has_tv, cec_has_record, cec_has_tuner, cec_has_playback, cec_has_audiosystem,
        cec_has_backup, cec_has_specific, cec_is_unregistered]"
    by (simp add: cec_is_unconfigured_def has_defs ucast_0_iff masks_cover [of addrs])
qed

section \<open>Decoders against what the wire carries\<close>

text \<open>
  \<open>cec_ops_report_features\<close> reads inside the array and finds the two feature lists: the
  RC profile starts at byte 4, its last byte is the first one from there without the extension
  bit, at offset 14 at most, and the device features start right after it; when there is no
  such byte both pointers are \<open>NULL\<close>.  The device feature list itself is never scanned: the
  second loop of the function starts at the byte that ended the first one, so it stops at
  once, and a device feature list that runs off the end of the message is accepted.
\<close>

lemma report_features_lists_part:
  "(case cec_ops_report_features m of
      (version, types, Some rc, Some df) \<Rightarrow>
        version = byte m 2 \<and> types = byte m 3 \<and> rc = 4 \<and> 5 \<le> df \<and> df \<le> 15 \<and>
        byte m (df - 1) AND CEC_OP_FEAT_EXT = 0 \<and>
        list_all (\<lambda>j. byte m j AND CEC_OP_FEAT_EXT \<noteq> 0) [4..<df - 1]
    | (version, types, rc, df) \<Rightarrow>
        version = byte m 2 \<and> types = byte m 3 \<and> rc = None \<and> df = None \<and>
        list_all (\<lambda>j. byte m j AND CEC_OP_FEAT_EXT \<noteq> 0) [4..<15])"
proof -
  let ?p = "feat_scan m 14 4"
  have b: "4 \<le> ?p" "?p \<le> 14"
    using feat_scan_bounds [of 4 14 m] by simp_all
  have before: "list_all (\<lambda>j. byte m j AND CEC_OP_FEAT_EXT \<noteq> 0) [4..<?p]"
    by (rule feat_scan_before) simp
  show ?thesis
  proof (cases "byte m ?p AND CEC_OP_FEAT_EXT = 0")
    case True
    with b before show ?thesis
      by (simp add: report_features_result Let_def)
  next
    case False
    then have "?p = 14"
      using feat_scan_ends [of 4 14 m] by simp
    with False before show ?thesis
      by (simp add: report_features_result Let_def upt_rec_numeral)
  qed
qed

text \<open>
  A channel selected by number is recovered exactly when its major number is below 256.
  The encoder writes all ten bits, the decoders shift the upper two of them to bit 6 instead
  of bit 8.  The same holds of the tune function of the remote control.
\<close>

lemma channel_major_recovered_iff_part:
  assumes "cec_wf m" and "off + 7 \<le> 16" and "dig_bcast_system d < 128" and "dig_w0 d < 64"
    and "service_id_method d = CEC_OP_SERVICE_ID_METHOD_BY_CHANNEL" and "channel_major d < 1024"
    and "ui_has_opt_arg ui = 1" and "ui_cmd ui = CEC_OP_UI_CMD_TUNE_FUNCTION"
    and "ui_operand ui < 64" and "ui_channel_major ui < 1024"
  shows "(channel_major (cec_get_digital_service_id off (cec_set_digital_service_id off d m) digital0) =
            channel_major d \<longleftrightarrow> channel_major d < 256) \<and>
         (ui_channel_major (cec_ops_user_control_pressed (cec_msg_user_control_pressed ui m) ui0) =
            ui_channel_major ui \<longleftrightarrow> ui_channel_major ui < 256)"
  using assms by (simp add: channel_major_decoded tune_major_decoded major_recovered [symmetric])

text \<open>
  C7. \<open>cec_ops_report_features\<close> reads inside the array and finds the two feature lists: the RC profile starts at byte 4, its last byte
  is the first one from there without the extension bit, at offset 14 at most, and the device features start right after it; when
  there is no such byte both pointers are \<open>NULL\<close>.  The device feature list itself is never scanned: the second loop of the function
  starts at the byte that ended the first one, so a device feature list that runs off the end of the message is accepted.  A channel
  selected by number is recovered exactly when its major number is below 256: the encoder writes all ten bits, the decoders shift the
  upper two of them to bit 6 instead of bit 8.  The same holds of the tune function of the remote control.
\<close>

theorem feature_list_and_channel_decoding:
  assumes "cec_wf m"
    and "off + 7 \<le> 16"
    and "dig_bcast_system d < 128"
    and "dig_w0 d < 64"
    and "service_id_method d = CEC_OP_SERVICE_ID_METHOD_BY_CHANNEL"
    and "channel_major d < 1024"
    and "ui_has_opt_arg ui = 1"
    and "ui_cmd ui = CEC_OP_UI_CMD_TUNE_FUNCTION"
    and "ui_operand ui < 64"
    and "ui_channel_major ui < 1024"
  shows "((case cec_ops_report_features msg of
      (version, types, Some rc, Some df) \<Rightarrow>
        version = byte msg 2 \<and> types = byte msg 3 \<and> rc = 4 \<and> 5 \<le> df \<and> df \<le> 15 \<and>
        byte msg (df - 1) AND CEC_OP_FEAT_EXT = 0 \<and>
        list_all (\<lambda>j. byte msg j AND CEC_OP_FEAT_EXT \<noteq> 0) [4..<df - 1]
    | (version, types, rc, df) \<Rightarrow>
        version = byte msg 2 \<and> types = byte msg 3 \<and> rc = None \<and> df = None \<and>
        list_all (\<lambda>j. byte msg j AND CEC_OP_FEAT_EXT \<noteq> 0) [4..<15])) \<and>
    ((channel_major (cec_get_digital_service_id off (cec_set_digital_service_id off d m) digital0) =
            channel_major d \<longleftrightarrow> channel_major d < 256) \<and>
         (ui_channel_major (cec_ops_user_control_pressed (cec_msg_user_control_pressed ui m) ui0) =
            ui_channel_major ui \<longleftrightarrow> ui_channel_major ui < 256))"
  by (rule conjI [OF report_features_lists_part channel_major_recovered_iff_part [OF assms(1,2,3,4,5,6,7,8,9,10)]])

theorem feature_list_and_channel_decoding_witness:
  "channel_major (cec_get_digital_service_id 2 (cec_set_digital_service_id 2
      (digital0\<lparr>service_id_method := CEC_OP_SERVICE_ID_METHOD_BY_CHANNEL, dig_w0 := 1, dig_w1 := 300\<rparr>)
      (cec_msg_init 4 0)) digital0) \<noteq> 300"
  using feature_list_and_channel_decoding [where m = "cec_msg_init 4 0" and off = 2 and
      d = "digital0\<lparr>service_id_method := CEC_OP_SERVICE_ID_METHOD_BY_CHANNEL, dig_w0 := 1, dig_w1 := 300\<rparr>" and
      ui = "ui0\<lparr>ui_cmd := CEC_OP_UI_CMD_TUNE_FUNCTION, ui_has_opt_arg := 1\<rparr>"]
  by (simp add: digital0_def ui0_def dig_views)

end
