(* ===== verification/Xor_Block.thy ===== *)
theory Xor_Block
  imports Prelude
begin

text \<open>
  The RAID-5 checksumming routines of \<open>asm-generic/xor.h\<close>: sixteen routines that xor
  one to four source blocks into a destination block, unrolled by eight words, with
  the loads and stores through registers or in memory, with and without prefetching,
  and the four tables that offer them to \<open>linux/raid/xor.h\<close>.

  Memory is a function from word addresses to \<open>unsigned long\<close> of 64 bits; a pointer is
  the address of the word it points to, so \<open>p[i]\<close> is \<open>m (p + i)\<close> and \<open>p += 8\<close> adds 8.
  Every assignment of the source is one update of the memory, in the order of the
  source, so overlapping blocks behave as they do in C.  \<open>lines\<close> is a signed \<open>long\<close>; it
  starts below \<open>2 ^ 58\<close>, and counts down to \<open>-2\<close> at least, so an \<open>int\<close> represents it exactly.
  \<open>prefetch\<close> and \<open>prefetchw\<close> are hints without effect on the memory.
\<close>

unbundle bit_operations_syntax

type_synonym xmem = "nat \<Rightarrow> u64"

section \<open>Loops\<close>

text \<open>\<open>do body while (--lines > 0);\<close>, with the final value of \<open>lines\<close>.\<close>

function do_lines :: "('s \<Rightarrow> 's) \<Rightarrow> int \<Rightarrow> 's \<Rightarrow> int \<times> 's" where
  "do_lines body lines s =
     (let s = body s; lines = lines - 1
      in if lines > 0 then do_lines body lines s else (lines, s))"
  by pat_completeness auto
termination
  by (relation "measure (\<lambda>(_, lines, _). nat lines)") auto

declare do_lines.simps [simp del]

lemma fst_do_lines: "fst (do_lines body lines s) = (if lines > 0 then 0 else lines - 1)"
proof (induction body lines s rule: do_lines.induct)
  case (1 body lines s)
  then show ?case
    by (subst do_lines.simps) (auto simp: Let_def)
qed

lemma do_lines_zero: "(0, s') = do_lines body lines s \<Longrightarrow> lines > 0"
  using fst_do_lines [of body lines s] by (auto split: if_splits dest: arg_cong [where f = fst])

text \<open>
  The prefetching routines: after the loop, \<open>if (lines == 0) goto once_more;\<close> enters the body
  of the loop again behind its prefetches.
\<close>

function do_lines_p :: "('s \<Rightarrow> 's) \<Rightarrow> int \<Rightarrow> 's \<Rightarrow> 's" where
  "do_lines_p body lines s =
     (case do_lines body lines s of (lines, s) \<Rightarrow> if lines = 0 then do_lines_p body lines s else s)"
  by pat_completeness auto
termination
  by (relation "measure (\<lambda>(_, lines, _). if lines > 0 then 2 else if lines = 0 then 1 else 0)")
    (auto dest: do_lines_zero split: prod.splits)

declare do_lines_p.simps [simp del]

definition lines_of :: "u64 \<Rightarrow> int" where
  "lines_of bytes = int (unat (bytes div 8 div 8))"

definition assign :: "nat \<Rightarrow> (xmem \<Rightarrow> u64) \<Rightarrow> xmem \<Rightarrow> xmem" where
  "assign a e m = m(a := e m)"

section \<open>Eight words at a time, in memory\<close>

definition line_8regs_2 :: "nat \<Rightarrow> nat \<Rightarrow> xmem \<Rightarrow> xmem" where
  "line_8regs_2 p1 p2 =
     stmts [assign (p1 + 0) (\<lambda>m. m (p1 + 0) XOR m (p2 + 0)),
            assign (p1 + 1) (\<lambda>m. m (p1 + 1) XOR m (p2 + 1)),
            assign (p1 + 2) (\<lambda>m. m (p1 + 2) XOR m (p2 + 2)),
            assign (p1 + 3) (\<lambda>m. m (p1 + 3) XOR m (p2 + 3)),
            assign (p1 + 4) (\<lambda>m. m (p1 + 4) XOR m (p2 + 4)),
            assign (p1 + 5) (\<lambda>m. m (p1 + 5) XOR m (p2 + 5)),
            assign (p1 + 6) (\<lambda>m. m (p1 + 6) XOR m (p2 + 6)),
            assign (p1 + 7) (\<lambda>m. m (p1 + 7) XOR m (p2 + 7))]"

definition line_8regs_3 :: "nat \<Rightarrow> nat \<Rightarrow> nat \<Rightarrow> xmem \<Rightarrow> xmem" where
  "line_8regs_3 p1 p2 p3 =
     stmts [assign (p1 + 0) (\<lambda>m. m (p1 + 0) XOR (m (p2 + 0) XOR m (p3 + 0))),
            assign (p1 + 1) (\<lambda>m. m (p1 + 1) XOR (m (p2 + 1) XOR m (p3 + 1))),
            assign (p1 + 2) (\<lambda>m. m (p1 + 2) XOR (m (p2 + 2) XOR m (p3 + 2))),
            assign (p1 + 3) (\<lambda>m. m (p1 + 3) XOR (m (p2 + 3) XOR m (p3 + 3))),
            assign (p1 + 4) (\<lambda>m. m (p1 + 4) XOR (m (p2 + 4) XOR m (p3 + 4))),
            assign (p1 + 5) (\<lambda>m. m (p1 + 5) XOR (m (p2 + 5) XOR m (p3 + 5))),
            assign (p1 + 6) (\<lambda>m. m (p1 + 6) XOR (m (p2 + 6) XOR m (p3 + 6))),
            assign (p1 + 7) (\<lambda>m. m (p1 + 7) XOR (m (p2 + 7) XOR m (p3 + 7)))]"

definition line_8regs_4 :: "nat \<Rightarrow> nat \<Rightarrow> nat \<Rightarrow> nat \<Rightarrow> xmem \<Rightarrow> xmem" where
  "line_8regs_4 p1 p2 p3 p4 =
     stmts [assign (p1 + 0) (\<lambda>m. m (p1 + 0) XOR (m (p2 + 0) XOR m (p3 + 0) XOR m (p4 + 0))),
            assign (p1 + 1) (\<lambda>m. m (p1 + 1) XOR (m (p2 + 1) XOR m (p3 + 1) XOR m (p4 + 1))),
            assign (p1 + 2) (\<lambda>m. m (p1 + 2) XOR (m (p2 + 2) XOR m (p3 + 2) XOR m (p4 + 2))),
            assign (p1 + 3) (\<lambda>m. m (p1 + 3) XOR (m (p2 + 3) XOR m (p3 + 3) XOR m (p4 + 3))),
            assign (p1 + 4) (\<lambda>m. m (p1 + 4) XOR (m (p2 + 4) XOR m (p3 + 4) XOR m (p4 + 4))),
            assign (p1 + 5) (\<lambda>m. m (p1 + 5) XOR (m (p2 + 5) XOR m (p3 + 5) XOR m (p4 + 5))),
            assign (p1 + 6) (\<lambda>m. m (p1 + 6) XOR (m (p2 + 6) XOR m (p3 + 6) XOR m (p4 + 6))),
            assign (p1 + 7) (\<lambda>m. m (p1 + 7) XOR (m (p2 + 7) XOR m (p3 + 7) XOR m (p4 + 7)))]"

definition line_8regs_5 :: "nat \<Rightarrow> nat \<Rightarrow> nat \<Rightarrow> nat \<Rightarrow> nat \<Rightarrow> xmem \<Rightarrow> xmem" where
  "line_8regs_5 p1 p2 p3 p4 p5 =
     stmts [assign (p1 + 0) (\<lambda>m. m (p1 + 0) XOR (m (p2 + 0) XOR m (p3 + 0) XOR m (p4 + 0) XOR m (p5 + 0))),
            assign (p1 + 1) (\<lambda>m. m (p1 + 1) XOR (m (p2 + 1) XOR m (p3 + 1) XOR m (p4 + 1) XOR m (p5 + 1))),
            assign (p1 + 2) (\<lambda>m. m (p1 + 2) XOR (m (p2 + 2) XOR m (p3 + 2) XOR m (p4 + 2) XOR m (p5 + 2))),
            assign (p1 + 3) (\<lambda>m. m (p1 + 3) XOR (m (p2 + 3) XOR m (p3 + 3) XOR m (p4 + 3) XOR m (p5 + 3))),
            assign (p1 + 4) (\<lambda>m. m (p1 + 4) XOR (m (p2 + 4) XOR m (p3 + 4) XOR m (p4 + 4) XOR m (p5 + 4))),
            assign (p1 + 5) (\<lambda>m. m (p1 + 5) XOR (m (p2 + 5) XOR m (p3 + 5) XOR m (p4 + 5) XOR m (p5 + 5))),
            assign (p1 + 6) (\<lambda>m. m (p1 + 6) XOR (m (p2 + 6) XOR m (p3 + 6) XOR m (p4 + 6) XOR m (p5 + 6))),
            assign (p1 + 7) (\<lambda>m. m (p1 + 7) XOR (m (p2 + 7) XOR m (p3 + 7) XOR m (p4 + 7) XOR m (p5 + 7)))]"

definition xor_8regs_2 :: "u64 \<Rightarrow> nat \<Rightarrow> nat \<Rightarrow> xmem \<Rightarrow> xmem" where
  "xor_8regs_2 bytes p1 p2 m =
     (let lines = lines_of bytes;
          (lines, p1, p2, m) = do_lines (\<lambda>(p1, p2, m). (p1 + 8, p2 + 8, line_8regs_2 p1 p2 m))
            lines (p1, p2, m)
      in m)"

definition xor_8regs_3 :: "u64 \<Rightarrow> nat \<Rightarrow> nat \<Rightarrow> nat \<Rightarrow> xmem \<Rightarrow> xmem" where
  "xor_8regs_3 bytes p1 p2 p3 m =
     (let lines = lines_of bytes;
          (lines, p1, p2, p3, m) = do_lines (\<lambda>(p1, p2, p3, m). (p1 + 8, p2 + 8, p3 + 8, line_8regs_3 p1 p2 p3 m))
            lines (p1, p2, p3, m)
      in m)"

definition xor_8regs_4 :: "u64 \<Rightarrow> nat \<Rightarrow> nat \<Rightarrow> nat \<Rightarrow> nat \<Rightarrow> xmem \<Rightarrow> xmem" where
  "xor_8regs_4 bytes p1 p2 p3 p4 m =
     (let lines = lines_of bytes;
          (lines, p1, p2, p3, p4, m) = do_lines (\<lambda>(p1, p2, p3, p4, m). (p1 + 8, p2 + 8, p3 + 8, p4 + 8, line_8regs_4 p1 p2 p3 p4 m))
            lines (p1, p2, p3, p4, m)
      in m)"

definition xor_8regs_5 :: "u64 \<Rightarrow> nat \<Rightarrow> nat \<Rightarrow> nat \<Rightarrow> nat \<Rightarrow> nat \<Rightarrow> xmem \<Rightarrow> xmem" where
  "xor_8regs_5 bytes p1 p2 p3 p4 p5 m =
     (let lines = lines_of bytes;
          (lines, p1, p2, p3, p4, p5, m) = do_lines (\<lambda>(p1, p2, p3, p4, p5, m). (p1 + 8, p2 + 8, p3 + 8, p4 + 8, p5 + 8, line_8regs_5 p1 p2 p3 p4 p5 m))
            lines (p1, p2, p3, p4, p5, m)
      in m)"

definition xor_8regs_p_2 :: "u64 \<Rightarrow> nat \<Rightarrow> nat \<Rightarrow> xmem \<Rightarrow> xmem" where
  "xor_8regs_p_2 bytes p1 p2 m =
     (let lines = lines_of bytes - 1;
          (p1, p2, m) = do_lines_p (\<lambda>(p1, p2, m). (p1 + 8, p2 + 8, line_8regs_2 p1 p2 m))
            lines (p1, p2, m)
      in m)"

definition xor_8regs_p_3 :: "u64 \<Rightarrow> nat \<Rightarrow> nat \<Rightarrow> nat \<Rightarrow> xmem \<Rightarrow> xmem" where
  "xor_8regs_p_3 bytes p1 p2 p3 m =
     (let lines = lines_of bytes - 1;
          (p1, p2, p3, m) = do_lines_p (\<lambda>(p1, p2, p3, m). (p1 + 8, p2 + 8, p3 + 8, line_8regs_3 p1 p2 p3 m))
            lines (p1, p2, p3, m)
      in m)"

definition xor_8regs_p_4 :: "u64 \<Rightarrow> nat \<Rightarrow> nat \<Rightarrow> nat \<Rightarrow> nat \<Rightarrow> xmem \<Rightarrow> xmem" where
  "xor_8regs_p_4 bytes p1 p2 p3 p4 m =
     (let lines = lines_of bytes - 1;
          (p1, p2, p3, p4, m) = do_lines_p (\<lambda>(p1, p2, p3, p4, m). (p1 + 8, p2 + 8, p3 + 8, p4 + 8, line_8regs_4 p1 p2 p3 p4 m))
            lines (p1, p2, p3, p4, m)
      in m)"

definition xor_8regs_p_5 :: "u64 \<Rightarrow> nat \<Rightarrow> nat \<Rightarrow> nat \<Rightarrow> nat \<Rightarrow> nat \<Rightarrow> xmem \<Rightarrow> xmem" where
  "xor_8regs_p_5 bytes p1 p2 p3 p4 p5 m =
     (let lines = lines_of bytes - 1;
          (p1, p2, p3, p4, p5, m) = do_lines_p (\<lambda>(p1, p2, p3, p4, p5, m). (p1 + 8, p2 + 8, p3 + 8, p4 + 8, p5 + 8, line_8regs_5 p1 p2 p3 p4 p5 m))
            lines (p1, p2, p3, p4, p5, m)
      in m)"

section \<open>Eight words at a time, through registers\<close>

definition line_32regs_2 :: "nat \<Rightarrow> nat \<Rightarrow> xmem \<Rightarrow> xmem" where
  "line_32regs_2 p1 p2 m =
     (let d0 = m (p1 + 0); d1 = m (p1 + 1); d2 = m (p1 + 2); d3 = m (p1 + 3);
          d4 = m (p1 + 4); d5 = m (p1 + 5); d6 = m (p1 + 6); d7 = m (p1 + 7);
          d0 = d0 XOR m (p2 + 0); d1 = d1 XOR m (p2 + 1); d2 = d2 XOR m (p2 + 2); d3 = d3 XOR m (p2 + 3);
          d4 = d4 XOR m (p2 + 4); d5 = d5 XOR m (p2 + 5); d6 = d6 XOR m (p2 + 6); d7 = d7 XOR m (p2 + 7)
      in m(p1 + 0 := d0, p1 + 1 := d1, p1 + 2 := d2, p1 + 3 := d3,
           p1 + 4 := d4, p1 + 5 := d5, p1 + 6 := d6, p1 + 7 := d7))"

definition line_32regs_3 :: "nat \<Rightarrow> nat \<Rightarrow> nat \<Rightarrow> xmem \<Rightarrow> xmem" where
  "line_32regs_3 p1 p2 p3 m =
     (let d0 = m (p1 + 0); d1 = m (p1 + 1); d2 = m (p1 + 2); d3 = m (p1 + 3);
          d4 = m (p1 + 4); d5 = m (p1 + 5); d6 = m (p1 + 6); d7 = m (p1 + 7);
          d0 = d0 XOR m (p2 + 0); d1 = d1 XOR m (p2 + 1); d2 = d2 XOR m (p2 + 2); d3 = d3 XOR m (p2 + 3);
          d4 = d4 XOR m (p2 + 4); d5 = d5 XOR m (p2 + 5); d6 = d6 XOR m (p2 + 6); d7 = d7 XOR m (p2 + 7);
          d0 = d0 XOR m (p3 + 0); d1 = d1 XOR m (p3 + 1); d2 = d2 XOR m (p3 + 2); d3 = d3 XOR m (p3 + 3);
          d4 = d4 XOR m (p3 + 4); d5 = d5 XOR m (p3 + 5); d6 = d6 XOR m (p3 + 6); d7 = d7 XOR m (p3 + 7)
      in m(p1 + 0 := d0, p1 + 1 := d1, p1 + 2 := d2, p1 + 3 := d3,
           p1 + 4 := d4, p1 + 5 := d5, p1 + 6 := d6, p1 + 7 := d7))"

definition line_32regs_4 :: "nat \<Rightarrow> nat \<Rightarrow> nat \<Rightarrow> nat \<Rightarrow> xmem \<Rightarrow> xmem" where
  "line_32regs_4 p1 p2 p3 p4 m =
     (let d0 = m (p1 + 0); d1 = m (p1 + 1); d2 = m (p1 + 2); d3 = m (p1 + 3);
          d4 = m (p1 + 4); d5 = m (p1 + 5); d6 = m (p1 + 6); d7 = m (p1 + 7);
          d0 = d0 XOR m (p2 + 0); d1 = d1 XOR m (p2 + 1); d2 = d2 XOR m (p2 + 2); d3 = d3 XOR m (p2 + 3);
          d4 = d4 XOR m (p2 + 4); d5 = d5 XOR m (p2 + 5); d6 = d6 XOR m (p2 + 6); d7 = d7 XOR m (p2 + 7);
          d0 = d0 XOR m (p3 + 0); d1 = d1 XOR m (p3 + 1); d2 = d2 XOR m (p3 + 2); d3 = d3 XOR m (p3 + 3);
          d4 = d4 XOR m (p3 + 4); d5 = d5 XOR m (p3 + 5); d6 = d6 XOR m (p3 + 6); d7 = d7 XOR m (p3 + 7);
          d0 = d0 XOR m (p4 + 0); d1 = d1 XOR m (p4 + 1); d2 = d2 XOR m (p4 + 2); d3 = d3 XOR m (p4 + 3);
          d4 = d4 XOR m (p4 + 4); d5 = d5 XOR m (p4 + 5); d6 = d6 XOR m (p4 + 6); d7 = d7 XOR m (p4 + 7)
      in m(p1 + 0 := d0, p1 + 1 := d1, p1 + 2 := d2, p1 + 3 := d3,
           p1 + 4 := d4, p1 + 5 := d5, p1 + 6 := d6, p1 + 7 := d7))"

definition line_32regs_5 :: "nat \<Rightarrow> nat \<Rightarrow> nat \<Rightarrow> nat \<Rightarrow> nat \<Rightarrow> xmem \<Rightarrow> xmem" where
  "line_32regs_5 p1 p2 p3 p4 p5 m =
     (let d0 = m (p1 + 0); d1 = m (p1 + 1); d2 = m (p1 + 2); d3 = m (p1 + 3);
          d4 = m (p1 + 4); d5 = m (p1 + 5); d6 = m (p1 + 6); d7 = m (p1 + 7);
          d0 = d0 XOR m (p2 + 0); d1 = d1 XOR m (p2 + 1); d2 = d2 XOR m (p2 + 2); d3 = d3 XOR m (p2 + 3);
          d4 = d4 XOR m (p2 + 4); d5 = d5 XOR m (p2 + 5); d6 = d6 XOR m (p2 + 6); d7 = d7 XOR m (p2 + 7);
          d0 = d0 XOR m (p3 + 0); d1 = d1 XOR m (p3 + 1); d2 = d2 XOR m (p3 + 2); d3 = d3 XOR m (p3 + 3);
          d4 = d4 XOR m (p3 + 4); d5 = d5 XOR m (p3 + 5); d6 = d6 XOR m (p3 + 6); d7 = d7 XOR m (p3 + 7);
          d0 = d0 XOR m (p4 + 0); d1 = d1 XOR m (p4 + 1); d2 = d2 XOR m (p4 + 2); d3 = d3 XOR m (p4 + 3);
          d4 = d4 XOR m (p4 + 4); d5 = d5 XOR m (p4 + 5); d6 = d6 XOR m (p4 + 6); d7 = d7 XOR m (p4 + 7);
          d0 = d0 XOR m (p5 + 0); d1 = d1 XOR m (p5 + 1); d2 = d2 XOR m (p5 + 2); d3 = d3 XOR m (p5 + 3);
          d4 = d4 XOR m (p5 + 4); d5 = d5 XOR m (p5 + 5); d6 = d6 XOR m (p5 + 6); d7 = d7 XOR m (p5 + 7)
      in m(p1 + 0 := d0, p1 + 1 := d1, p1 + 2 := d2, p1 + 3 := d3,
           p1 + 4 := d4, p1 + 5 := d5, p1 + 6 := d6, p1 + 7 := d7))"

definition xor_32regs_2 :: "u64 \<Rightarrow> nat \<Rightarrow> nat \<Rightarrow> xmem \<Rightarrow> xmem" where
  "xor_32regs_2 bytes p1 p2 m =
     (let lines = lines_of bytes;
          (lines, p1, p2, m) = do_lines (\<lambda>(p1, p2, m). (p1 + 8, p2 + 8, line_32regs_2 p1 p2 m))
            lines (p1, p2, m)
      in m)"

definition xor_32regs_3 :: "u64 \<Rightarrow> nat \<Rightarrow> nat \<Rightarrow> nat \<Rightarrow> xmem \<Rightarrow> xmem" where
  "xor_32regs_3 bytes p1 p2 p3 m =
     (let lines = lines_of bytes;
          (lines, p1, p2, p3, m) = do_lines (\<lambda>(p1, p2, p3, m). (p1 + 8, p2 + 8, p3 + 8, line_32regs_3 p1 p2 p3 m))
            lines (p1, p2, p3, m)
      in m)"

definition xor_32regs_4 :: "u64 \<Rightarrow> nat \<Rightarrow> nat \<Rightarrow> nat \<Rightarrow> nat \<Rightarrow> xmem \<Rightarrow> xmem" where
  "xor_32regs_4 bytes p1 p2 p3 p4 m =
     (let lines = lines_of bytes;
          (lines, p1, p2, p3, p4, m) = do_lines (\<lambda>(p1, p2, p3, p4, m). (p1 + 8, p2 + 8, p3 + 8, p4 + 8, line_32regs_4 p1 p2 p3 p4 m))
            lines (p1, p2, p3, p4, m)
      in m)"

definition xor_32regs_5 :: "u64 \<Rightarrow> nat \<Rightarrow> nat \<Rightarrow> nat \<Rightarrow> nat \<Rightarrow> nat \<Rightarrow> xmem \<Rightarrow> xmem" where
  "xor_32regs_5 bytes p1 p2 p3 p4 p5 m =
     (let lines = lines_of bytes;
          (lines, p1, p2, p3, p4, p5, m) = do_lines (\<lambda>(p1, p2, p3, p4, p5, m). (p1 + 8, p2 + 8, p3 + 8, p4 + 8, p5 + 8, line_32regs_5 p1 p2 p3 p4 p5 m))
            lines (p1, p2, p3, p4, p5, m)
      in m)"

definition xor_32regs_p_2 :: "u64 \<Rightarrow> nat \<Rightarrow> nat \<Rightarrow> xmem \<Rightarrow> xmem" where
  "xor_32regs_p_2 bytes p1 p2 m =
     (let lines = lines_of bytes - 1;
          (p1, p2, m) = do_lines_p (\<lambda>(p1, p2, m). (p1 + 8, p2 + 8, line_32regs_2 p1 p2 m))
            lines (p1, p2, m)
      in m)"

definition xor_32regs_p_3 :: "u64 \<Rightarrow> nat \<Rightarrow> nat \<Rightarrow> nat \<Rightarrow> xmem \<Rightarrow> xmem" where
  "xor_32regs_p_3 bytes p1 p2 p3 m =
     (let lines = lines_of bytes - 1;
          (p1, p2, p3, m) = do_lines_p (\<lambda>(p1, p2, p3, m). (p1 + 8, p2 + 8, p3 + 8, line_32regs_3 p1 p2 p3 m))
            lines (p1, p2, p3, m)
      in m)"

definition xor_32regs_p_4 :: "u64 \<Rightarrow> nat \<Rightarrow> nat \<Rightarrow> nat \<Rightarrow> nat \<Rightarrow> xmem \<Rightarrow> xmem" where
  "xor_32regs_p_4 bytes p1 p2 p3 p4 m =
     (let lines = lines_of bytes - 1;
          (p1, p2, p3, p4, m) = do_lines_p (\<lambda>(p1, p2, p3, p4, m). (p1 + 8, p2 + 8, p3 + 8, p4 + 8, line_32regs_4 p1 p2 p3 p4 m))
            lines (p1, p2, p3, p4, m)
      in m)"

definition xor_32regs_p_5 :: "u64 \<Rightarrow> nat \<Rightarrow> nat \<Rightarrow> nat \<Rightarrow> nat \<Rightarrow> nat \<Rightarrow> xmem \<Rightarrow> xmem" where
  "xor_32regs_p_5 bytes p1 p2 p3 p4 p5 m =
     (let lines = lines_of bytes - 1;
          (p1, p2, p3, p4, p5, m) = do_lines_p (\<lambda>(p1, p2, p3, p4, p5, m). (p1 + 8, p2 + 8, p3 + 8, p4 + 8, p5 + 8, line_32regs_5 p1 p2 p3 p4 p5 m))
            lines (p1, p2, p3, p4, p5, m)
      in m)"

section \<open>The template tables\<close>

text \<open>\<open>next\<close>, which links the registered templates, is not set in the tables.\<close>

record xor_block_template =
  xt_name :: string
  xt_speed :: int
  do_2 :: "u64 \<Rightarrow> nat \<Rightarrow> nat \<Rightarrow> xmem \<Rightarrow> xmem"
  do_3 :: "u64 \<Rightarrow> nat \<Rightarrow> nat \<Rightarrow> nat \<Rightarrow> xmem \<Rightarrow> xmem"
  do_4 :: "u64 \<Rightarrow> nat \<Rightarrow> nat \<Rightarrow> nat \<Rightarrow> nat \<Rightarrow> xmem \<Rightarrow> xmem"
  do_5 :: "u64 \<Rightarrow> nat \<Rightarrow> nat \<Rightarrow> nat \<Rightarrow> nat \<Rightarrow> nat \<Rightarrow> xmem \<Rightarrow> xmem"

definition xor_block_8regs :: xor_block_template where
  "xor_block_8regs =
     \<lparr>xt_name = ''8regs'', xt_speed = 0,
      do_2 = xor_8regs_2, do_3 = xor_8regs_3, do_4 = xor_8regs_4, do_5 = xor_8regs_5\<rparr>"

definition xor_block_32regs :: xor_block_template where
  "xor_block_32regs =
     \<lparr>xt_name = ''32regs'', xt_speed = 0,
      do_2 = xor_32regs_2, do_3 = xor_32regs_3, do_4 = xor_32regs_4, do_5 = xor_32regs_5\<rparr>"

definition xor_block_8regs_p :: xor_block_template where
  "xor_block_8regs_p =
     \<lparr>xt_name = ''8regs_prefetch'', xt_speed = 0,
      do_2 = xor_8regs_p_2, do_3 = xor_8regs_p_3, do_4 = xor_8regs_p_4, do_5 = xor_8regs_p_5\<rparr>"

definition xor_block_32regs_p :: xor_block_template where
  "xor_block_32regs_p =
     \<lparr>xt_name = ''32regs_prefetch'', xt_speed = 0,
      do_2 = xor_32regs_p_2, do_3 = xor_32regs_p_3, do_4 = xor_32regs_p_4, do_5 = xor_32regs_p_5\<rparr>"

text \<open>\<open>XOR_TRY_TEMPLATES\<close> offers the templates to the benchmark in this order.\<close>

definition xor_templates :: "xor_block_template list" where
  "xor_templates = [xor_block_8regs, xor_block_8regs_p, xor_block_32regs, xor_block_32regs_p]"

section \<open>Reference semantics\<close>

text \<open>\<open>n\<close> words at \<open>p\<close> xored with the words at the same offsets of the blocks \<open>qs\<close>.\<close>

definition xor_words :: "nat \<Rightarrow> nat \<Rightarrow> nat list \<Rightarrow> xmem \<Rightarrow> xmem" where
  "xor_words n p qs m = (\<lambda>a.
     if p \<le> a \<and> a < p + n then foldl (XOR) (m a) (map (\<lambda>q. m (q + (a - p))) qs) else m a)"

definition disjoint :: "nat \<Rightarrow> nat \<Rightarrow> nat list \<Rightarrow> bool" where
  "disjoint n p qs \<longleftrightarrow> list_all (\<lambda>q. p + n \<le> q \<or> q + n \<le> p) qs"

text \<open>The routines round down to lines of 64 bytes, but never below one line.\<close>

definition num_words :: "u64 \<Rightarrow> nat" where
  "num_words bytes = 8 * max 1 (unat bytes div 64)"

lemma xor_words_outside [simp]: "\<not> (p \<le> a \<and> a < p + n) \<Longrightarrow> xor_words n p qs m a = m a"
  by (auto simp: xor_words_def)

lemma xor_words_0 [simp]: "xor_words 0 p qs m = m"
  by (rule ext) simp

lemma xor_words_source:
  "disjoint n p qs \<Longrightarrow> q \<in> set qs \<Longrightarrow> i < n \<Longrightarrow> k \<le> n \<Longrightarrow> xor_words k p qs m (q + i) = m (q + i)"
  by (auto simp: disjoint_def list_all_iff xor_words_def)

lemma disjoint_mono: "disjoint n p qs \<Longrightarrow> k \<le> n \<Longrightarrow> disjoint k p qs"
  by (auto simp: disjoint_def list_all_iff)

lemma disjoint_shift: "disjoint (n + k) p qs \<Longrightarrow> disjoint k (p + n) (map (\<lambda>q. q + n) qs)"
  by (auto simp: disjoint_def list_all_iff)

lemma xor_words_add:
  assumes "disjoint (n + k) p qs"
  shows "xor_words k (p + n) (map (\<lambda>q. q + n) qs) (xor_words n p qs m) = xor_words (n + k) p qs m"
proof
  fix a
  have *: "xor_words n p qs m (q + n + (a - (p + n))) = m (q + (a - p))"
    if "q \<in> set qs" "p + n \<le> a" "a < p + n + k" for q
    using xor_words_source [OF assms that(1), of "a - p" n m] that by (simp add: algebra_simps)
  consider "a < p" | "p \<le> a" "a < p + n" | "p + n \<le> a" "a < p + n + k" | "p + n + k \<le> a"
    by linarith
  then show "xor_words k (p + n) (map (\<lambda>q. q + n) qs) (xor_words n p qs m) a = xor_words (n + k) p qs m a"
  proof cases
    case 3
    then have "map (\<lambda>q. xor_words n p qs m (q + n + (a - (p + n)))) qs = map (\<lambda>q. m (q + (a - p))) qs"
      using * by simp
    moreover have "xor_words n p qs m a = m a"
      using 3 by simp
    ultimately show ?thesis
      using 3 by (simp add: xor_words_def [of k] xor_words_def [of "n + k"] comp_def cong: map_cong)
  qed (auto simp: xor_words_def)
qed

section \<open>Iteration\<close>

lemma snd_do_lines: "snd (do_lines body lines s) = (body ^^ (if lines > 0 then nat lines else 1)) s"
proof (induction body lines s rule: do_lines.induct)
  case (1 body lines s)
  show ?case
  proof (cases "lines - 1 > 0")
    case True
    then have "nat lines = Suc (nat (lines - 1))" by simp
    with 1 True show ?thesis
      by (subst do_lines.simps) (simp add: Let_def funpow_swap1)
  next
    case False
    then have "(if lines > 0 then nat lines else 1) = 1" by auto
    with False show ?thesis
      by (subst do_lines.simps) (simp add: Let_def)
  qed
qed

lemma do_lines_eq:
  "do_lines body lines s =
     (if lines > 0 then 0 else lines - 1, (body ^^ (if lines > 0 then nat lines else 1)) s)"
  by (rule prod_eqI) (simp_all only: fst_do_lines snd_do_lines fst_conv snd_conv)

lemma do_lines_p_eq: "do_lines_p body lines s = (body ^^ max 1 (nat (lines + 1))) s"
proof (cases "lines > 0")
  case True
  then have "max 1 (nat (lines + 1)) = Suc (nat lines)" by simp
  moreover have "do_lines_p body 0 t = body t" for t
    by (subst do_lines_p.simps) (simp add: do_lines_eq)
  ultimately show ?thesis
    using True by (subst do_lines_p.simps) (simp add: do_lines_eq)
next
  case False
  then have "max 1 (nat (lines + 1)) = 1" by simp
  with False show ?thesis
    by (subst do_lines_p.simps) (simp add: do_lines_eq)
qed

text \<open>Both forms of the loop run the body once per line, and at least once.\<close>

lemma do_lines_bytes:
  "snd (do_lines body (lines_of bytes) s) = (body ^^ max 1 (unat bytes div 64)) s"
  "do_lines_p body (lines_of bytes - 1) s = (body ^^ max 1 (unat bytes div 64)) s"
proof -
  have "unat (bytes div 8 div 8) = unat bytes div 64"
    by (simp add: unat_div div_mult2_eq [symmetric])
  then have l: "lines_of bytes = int (unat bytes div 64)"
    by (simp add: lines_of_def)
  show "snd (do_lines body (lines_of bytes) s) = (body ^^ max 1 (unat bytes div 64)) s"
    unfolding l snd_do_lines by (simp add: max_def Suc_le_eq)
  show "do_lines_p body (lines_of bytes - 1) s = (body ^^ max 1 (unat bytes div 64)) s"
    unfolding l do_lines_p_eq by simp
qed


section \<open>The routines from their lines\<close>

text \<open>
  What a routine needs of the unrolled body of its loop, and what both forms of the loop
  then do; one interface per number of blocks.
\<close>

locale xor_line_2 =
  fixes line :: "nat \<Rightarrow> nat \<Rightarrow> xmem \<Rightarrow> xmem"
  assumes line: "disjoint 8 p1 [p2] \<Longrightarrow> line p1 p2 m = xor_words 8 p1 [p2] m"
begin

lemma steps:
  "disjoint (8 * n) p1 [p2] \<Longrightarrow>
   ((\<lambda>(p1, p2, m). (p1 + 8, p2 + 8, line p1 p2 m)) ^^ n) (p1, p2, m) =
     (p1 + 8 * n, p2 + 8 * n, xor_words (8 * n) p1 [p2] m)"
proof (induction n)
  case (Suc n)
  then show ?case
    using disjoint_mono [OF Suc.prems, of "8 * n"] disjoint_shift [of "8 * n" 8 p1 "[p2]"]
      xor_words_add [of "8 * n" 8 p1 "[p2]" m]
    by (simp add: line add.commute)
qed simp

lemma plain:
  "disjoint (num_words bytes) p1 [p2] \<Longrightarrow>
   (case snd (do_lines (\<lambda>(p1, p2, m). (p1 + 8, p2 + 8, line p1 p2 m))
      (lines_of bytes) (p1, p2, m)) of (p1, p2, m) \<Rightarrow> m) =
   xor_words (num_words bytes) p1 [p2] m"
  unfolding do_lines_bytes num_words_def by (simp add: steps)

lemma prefetch:
  "disjoint (num_words bytes) p1 [p2] \<Longrightarrow>
   (case do_lines_p (\<lambda>(p1, p2, m). (p1 + 8, p2 + 8, line p1 p2 m))
      (lines_of bytes - 1) (p1, p2, m) of (p1, p2, m) \<Rightarrow> m) =
   xor_words (num_words bytes) p1 [p2] m"
  unfolding do_lines_bytes num_words_def by (simp add: steps)

end

locale xor_line_3 =
  fixes line :: "nat \<Rightarrow> nat \<Rightarrow> nat \<Rightarrow> xmem \<Rightarrow> xmem"
  assumes line: "disjoint 8 p1 [p2, p3] \<Longrightarrow> line p1 p2 p3 m = xor_words 8 p1 [p2, p3] m"
begin

lemma steps:
  "disjoint (8 * n) p1 [p2, p3] \<Longrightarrow>
   ((\<lambda>(p1, p2, p3, m). (p1 + 8, p2 + 8, p3 + 8, line p1 p2 p3 m)) ^^ n) (p1, p2, p3, m) =
     (p1 + 8 * n, p2 + 8 * n, p3 + 8 * n, xor_words (8 * n) p1 [p2, p3] m)"
proof (induction n)
  case (Suc n)
  then show ?case
    using disjoint_mono [OF Suc.prems, of "8 * n"] disjoint_shift [of "8 * n" 8 p1 "[p2, p3]"]
      xor_words_add [of "8 * n" 8 p1 "[p2, p3]" m]
    by (simp add: line add.commute)
qed simp

lemma plain:
  "disjoint (num_words bytes) p1 [p2, p3] \<Longrightarrow>
   (case snd (do_lines (\<lambda>(p1, p2, p3, m). (p1 + 8, p2 + 8, p3 + 8, line p1 p2 p3 m))
      (lines_of bytes) (p1, p2, p3, m)) of (p1, p2, p3, m) \<Rightarrow> m) =
   xor_words (num_words bytes) p1 [p2, p3] m"
  unfolding do_lines_bytes num_words_def by (simp add: steps)

lemma prefetch:
  "disjoint (num_words bytes) p1 [p2, p3] \<Longrightarrow>
   (case do_lines_p (\<lambda>(p1, p2, p3, m). (p1 + 8, p2 + 8, p3 + 8, line p1 p2 p3 m))
      (lines_of bytes - 1) (p1, p2, p3, m) of (p1, p2, p3, m) \<Rightarrow> m) =
   xor_words (num_words bytes) p1 [p2, p3] m"
  unfolding do_lines_bytes num_words_def by (simp add: steps)

end

locale xor_line_4 =
  fixes line :: "nat \<Rightarrow> nat \<Rightarrow> nat \<Rightarrow> nat \<Rightarrow> xmem \<Rightarrow> xmem"
  assumes line: "disjoint 8 p1 [p2, p3, p4] \<Longrightarrow> line p1 p2 p3 p4 m = xor_words 8 p1 [p2, p3, p4] m"
begin

lemma steps:
  "disjoint (8 * n) p1 [p2, p3, p4] \<Longrightarrow>
   ((\<lambda>(p1, p2, p3, p4, m). (p1 + 8, p2 + 8, p3 + 8, p4 + 8, line p1 p2 p3 p4 m)) ^^ n) (p1, p2, p3, p4, m) =
     (p1 + 8 * n, p2 + 8 * n, p3 + 8 * n, p4 + 8 * n, xor_words (8 * n) p1 [p2, p3, p4] m)"
proof (induction n)
  case (Suc n)
  then show ?case
    using disjoint_mono [OF Suc.prems, of "8 * n"] disjoint_shift [of "8 * n" 8 p1 "[p2, p3, p4]"]
      xor_words_add [of "8 * n" 8 p1 "[p2, p3, p4]" m]
    by (simp add: line add.commute)
qed simp

lemma plain:
  "disjoint (num_words bytes) p1 [p2, p3, p4] \<Longrightarrow>
   (case snd (do_lines (\<lambda>(p1, p2, p3, p4, m). (p1 + 8, p2 + 8, p3 + 8, p4 + 8, line p1 p2 p3 p4 m))
      (lines_of bytes) (p1, p2, p3, p4, m)) of (p1, p2, p3, p4, m) \<Rightarrow> m) =
   xor_words (num_words bytes) p1 [p2, p3, p4] m"
  unfolding do_lines_bytes num_words_def by (simp add: steps)

lemma prefetch:
  "disjoint (num_words bytes) p1 [p2, p3, p4] \<Longrightarrow>
   (case do_lines_p (\<lambda>(p1, p2, p3, p4, m). (p1 + 8, p2 + 8, p3 + 8, p4 + 8, line p1 p2 p3 p4 m))
      (lines_of bytes - 1) (p1, p2, p3, p4, m) of (p1, p2, p3, p4, m) \<Rightarrow> m) =
   xor_words (num_words bytes) p1 [p2, p3, p4] m"
  unfolding do_lines_bytes num_words_def by (simp add: steps)

end

locale xor_line_5 =
  fixes line :: "nat \<Rightarrow> nat \<Rightarrow> nat \<Rightarrow> nat \<Rightarrow> nat \<Rightarrow> xmem \<Rightarrow> xmem"
  assumes line: "disjoint 8 p1 [p2, p3, p4, p5] \<Longrightarrow> line p1 p2 p3 p4 p5 m = xor_words 8 p1 [p2, p3, p4, p5] m"
begin

lemma steps:
  "disjoint (8 * n) p1 [p2, p3, p4, p5] \<Longrightarrow>
   ((\<lambda>(p1, p2, p3, p4, p5, m). (p1 + 8, p2 + 8, p3 + 8, p4 + 8, p5 + 8, line p1 p2 p3 p4 p5 m)) ^^ n) (p1, p2, p3, p4, p5, m) =
     (p1 + 8 * n, p2 + 8 * n, p3 + 8 * n, p4 + 8 * n, p5 + 8 * n, xor_words (8 * n) p1 [p2, p3, p4, p5] m)"
proof (induction n)
  case (Suc n)
  then show ?case
    using disjoint_mono [OF Suc.prems, of "8 * n"] disjoint_shift [of "8 * n" 8 p1 "[p2, p3, p4, p5]"]
      xor_words_add [of "8 * n" 8 p1 "[p2, p3, p4, p5]" m]
    by (simp add: line add.commute)
qed simp

lemma plain:
  "disjoint (num_words bytes) p1 [p2, p3, p4, p5] \<Longrightarrow>
   (case snd (do_lines (\<lambda>(p1, p2, p3, p4, p5, m). (p1 + 8, p2 + 8, p3 + 8, p4 + 8, p5 + 8, line p1 p2 p3 p4 p5 m))
      (lines_of bytes) (p1, p2, p3, p4, p5, m)) of (p1, p2, p3, p4, p5, m) \<Rightarrow> m) =
   xor_words (num_words bytes) p1 [p2, p3, p4, p5] m"
  unfolding do_lines_bytes num_words_def by (simp add: steps)

lemma prefetch:
  "disjoint (num_words bytes) p1 [p2, p3, p4, p5] \<Longrightarrow>
   (case do_lines_p (\<lambda>(p1, p2, p3, p4, p5, m). (p1 + 8, p2 + 8, p3 + 8, p4 + 8, p5 + 8, line p1 p2 p3 p4 p5 m))
      (lines_of bytes - 1) (p1, p2, p3, p4, p5, m) of (p1, p2, p3, p4, p5, m) \<Rightarrow> m) =
   xor_words (num_words bytes) p1 [p2, p3, p4, p5] m"
  unfolding do_lines_bytes num_words_def by (simp add: steps)

end

section \<open>The unrolled lines\<close>

text \<open>One assignment of a line in memory extends the part of the block that is done.\<close>

lemma assign_step:
  assumes "disjoint 8 p qs" and "n < 8"
    and "\<And>m. e m = foldl (XOR) (m (p + n)) (map (\<lambda>q. m (q + n)) qs)"
  shows "assign (p + n) e (xor_words n p qs m) = xor_words (n + 1) p qs m"
proof -
  have "disjoint (n + 1) p qs"
    using assms(1,2) by (auto intro: disjoint_mono)
  moreover have "assign (p + n) e = xor_words 1 (p + n) (map (\<lambda>q. q + n) qs)"
    by (intro ext) (auto simp: assign_def xor_words_def assms(3) comp_def)
  ultimately show ?thesis
    by (simp only: xor_words_add)
qed

lemma eight_assigns:
  assumes "disjoint 8 p qs"
    and "\<And>n m. n < 8 \<Longrightarrow> e n m = foldl (XOR) (m (p + n)) (map (\<lambda>q. m (q + n)) qs)"
  shows "(stmts [assign (p + 0) (e 0), assign (p + 1) (e 1), assign (p + 2) (e 2),
                 assign (p + 3) (e 3), assign (p + 4) (e 4), assign (p + 5) (e 5),
                 assign (p + 6) (e 6), assign (p + 7) (e 7)]) m = xor_words 8 p qs m"
proof -
  have s: "assign (p + n) (e n) (xor_words n p qs m) = xor_words k p qs m" if "n < 8" "k = n + 1" for n k
    using assign_step [OF assms(1) that(1) assms(2) [OF that(1)]] that(2) by simp
  have "assign (p + 0) (e 0) m = xor_words 1 p qs m"
    using s [of 0 1] by simp
  moreover have "assign (p + 1) (e 1) (xor_words 1 p qs m) = xor_words 2 p qs m"
    "assign (p + 2) (e 2) (xor_words 2 p qs m) = xor_words 3 p qs m"
    "assign (p + 3) (e 3) (xor_words 3 p qs m) = xor_words 4 p qs m"
    "assign (p + 4) (e 4) (xor_words 4 p qs m) = xor_words 5 p qs m"
    "assign (p + 5) (e 5) (xor_words 5 p qs m) = xor_words 6 p qs m"
    "assign (p + 6) (e 6) (xor_words 6 p qs m) = xor_words 7 p qs m"
    "assign (p + 7) (e 7) (xor_words 7 p qs m) = xor_words 8 p qs m"
    by (rule s; simp)+
  ultimately show ?thesis
    by (simp only: stmts.simps)
qed

text \<open>A line through registers reads everything before the first store.\<close>

lemma eight_stores:
  assumes "\<And>n. n < 8 \<Longrightarrow> v n = foldl (XOR) (m (p + n)) (map (\<lambda>q. m (q + n)) qs)"
  shows "m(p + 0 := v 0, p + 1 := v 1, p + 2 := v 2, p + 3 := v 3,
           p + 4 := v 4, p + 5 := v 5, p + 6 := v 6, p + 7 := v 7) = xor_words 8 p qs m"
    (is "?m = _")
proof
  fix a
  show "?m a = xor_words 8 p qs m a"
  proof (cases "p \<le> a \<and> a < p + 8")
    case True
    then obtain n where n: "a = p + n" "n < 8"
      by (metis le_Suc_ex nat_add_left_cancel_less)
    then have "n = 0 \<or> n = 1 \<or> n = 2 \<or> n = 3 \<or> n = 4 \<or> n = 5 \<or> n = 6 \<or> n = 7"
      by linarith
    then have "?m a = v n"
      using n(1) by (elim disjE) simp_all
    with n show ?thesis
      by (simp add: xor_words_def assms)
  qed auto
qed

interpretation l8_2: xor_line_2 line_8regs_2
proof
  show "disjoint 8 p1 [p2] \<Longrightarrow> line_8regs_2 p1 p2 m = xor_words 8 p1 [p2] m" for p1 p2 m
    unfolding line_8regs_2_def
    by (rule eight_assigns [where e = "(\<lambda>n m. m (p1 + n) XOR m (p2 + n))"])
      (simp_all add: xor.assoc)
qed

interpretation l8_3: xor_line_3 line_8regs_3
proof
  show "disjoint 8 p1 [p2, p3] \<Longrightarrow> line_8regs_3 p1 p2 p3 m = xor_words 8 p1 [p2, p3] m" for p1 p2 p3 m
    unfolding line_8regs_3_def
    by (rule eight_assigns [where e = "(\<lambda>n m. m (p1 + n) XOR (m (p2 + n) XOR m (p3 + n)))"])
      (simp_all add: xor.assoc)
qed

interpretation l8_4: xor_line_4 line_8regs_4
proof
  show "disjoint 8 p1 [p2, p3, p4] \<Longrightarrow> line_8regs_4 p1 p2 p3 p4 m = xor_words 8 p1 [p2, p3, p4] m" for p1 p2 p3 p4 m
    unfolding line_8regs_4_def
    by (rule eight_assigns [where e = "(\<lambda>n m. m (p1 + n) XOR (m (p2 + n) XOR m (p3 + n) XOR m (p4 + n)))"])
      (simp_all add: xor.assoc)
qed

interpretation l8_5: xor_line_5 line_8regs_5
proof
  show "disjoint 8 p1 [p2, p3, p4, p5] \<Longrightarrow> line_8regs_5 p1 p2 p3 p4 p5 m = xor_words 8 p1 [p2, p3, p4, p5] m" for p1 p2 p3 p4 p5 m
    unfolding line_8regs_5_def
    by (rule eight_assigns [where e = "(\<lambda>n m. m (p1 + n) XOR (m (p2 + n) XOR m (p3 + n) XOR m (p4 + n) XOR m (p5 + n)))"])
      (simp_all add: xor.assoc)
qed

interpretation l32_2: xor_line_2 line_32regs_2
proof
  show "line_32regs_2 p1 p2 m = xor_words 8 p1 [p2] m" for p1 p2 m
    unfolding line_32regs_2_def Let_def
    by (rule eight_stores [where v = "\<lambda>n. m (p1 + n) XOR m (p2 + n)"]) simp
qed

interpretation l32_3: xor_line_3 line_32regs_3
proof
  show "line_32regs_3 p1 p2 p3 m = xor_words 8 p1 [p2, p3] m" for p1 p2 p3 m
    unfolding line_32regs_3_def Let_def
    by (rule eight_stores [where v = "\<lambda>n. (m (p1 + n) XOR m (p2 + n)) XOR m (p3 + n)"]) simp
qed

interpretation l32_4: xor_line_4 line_32regs_4
proof
  show "line_32regs_4 p1 p2 p3 p4 m = xor_words 8 p1 [p2, p3, p4] m" for p1 p2 p3 p4 m
    unfolding line_32regs_4_def Let_def
    by (rule eight_stores [where v = "\<lambda>n. ((m (p1 + n) XOR m (p2 + n)) XOR m (p3 + n)) XOR m (p4 + n)"]) simp
qed

interpretation l32_5: xor_line_5 line_32regs_5
proof
  show "line_32regs_5 p1 p2 p3 p4 p5 m = xor_words 8 p1 [p2, p3, p4, p5] m" for p1 p2 p3 p4 p5 m
    unfolding line_32regs_5_def Let_def
    by (rule eight_stores [where v = "\<lambda>n. (((m (p1 + n) XOR m (p2 + n)) XOR m (p3 + n)) XOR m (p4 + n)) XOR m (p5 + n)"]) simp
qed

section \<open>Properties\<close>

lemma xor_8regs_words:
  "disjoint (num_words bytes) p1 [p2] \<Longrightarrow>
     xor_8regs_2 bytes p1 p2 m = xor_words (num_words bytes) p1 [p2] m"
  "disjoint (num_words bytes) p1 [p2, p3] \<Longrightarrow>
     xor_8regs_3 bytes p1 p2 p3 m = xor_words (num_words bytes) p1 [p2, p3] m"
  "disjoint (num_words bytes) p1 [p2, p3, p4] \<Longrightarrow>
     xor_8regs_4 bytes p1 p2 p3 p4 m = xor_words (num_words bytes) p1 [p2, p3, p4] m"
  "disjoint (num_words bytes) p1 [p2, p3, p4, p5] \<Longrightarrow>
     xor_8regs_5 bytes p1 p2 p3 p4 p5 m = xor_words (num_words bytes) p1 [p2, p3, p4, p5] m"
  using l8_2.plain l8_3.plain l8_4.plain l8_5.plain
  by (simp_all add: xor_8regs_2_def xor_8regs_3_def xor_8regs_4_def xor_8regs_5_def Let_def case_prod_beta)

lemma xor_8regs_p_words:
  "disjoint (num_words bytes) p1 [p2] \<Longrightarrow>
     xor_8regs_p_2 bytes p1 p2 m = xor_words (num_words bytes) p1 [p2] m"
  "disjoint (num_words bytes) p1 [p2, p3] \<Longrightarrow>
     xor_8regs_p_3 bytes p1 p2 p3 m = xor_words (num_words bytes) p1 [p2, p3] m"
  "disjoint (num_words bytes) p1 [p2, p3, p4] \<Longrightarrow>
     xor_8regs_p_4 bytes p1 p2 p3 p4 m = xor_words (num_words bytes) p1 [p2, p3, p4] m"
  "disjoint (num_words bytes) p1 [p2, p3, p4, p5] \<Longrightarrow>
     xor_8regs_p_5 bytes p1 p2 p3 p4 p5 m = xor_words (num_words bytes) p1 [p2, p3, p4, p5] m"
  using l8_2.prefetch l8_3.prefetch l8_4.prefetch l8_5.prefetch
  by (simp_all add: xor_8regs_p_2_def xor_8regs_p_3_def xor_8regs_p_4_def xor_8regs_p_5_def Let_def case_prod_beta)

lemma xor_32regs_words:
  "disjoint (num_words bytes) p1 [p2] \<Longrightarrow>
     xor_32regs_2 bytes p1 p2 m = xor_words (num_words bytes) p1 [p2] m"
  "disjoint (num_words bytes) p1 [p2, p3] \<Longrightarrow>
     xor_32regs_3 bytes p1 p2 p3 m = xor_words (num_words bytes) p1 [p2, p3] m"
  "disjoint (num_words bytes) p1 [p2, p3, p4] \<Longrightarrow>
     xor_32regs_4 bytes p1 p2 p3 p4 m = xor_words (num_words bytes) p1 [p2, p3, p4] m"
  "disjoint (num_words bytes) p1 [p2, p3, p4, p5] \<Longrightarrow>
     xor_32regs_5 bytes p1 p2 p3 p4 p5 m = xor_words (num_words bytes) p1 [p2, p3, p4, p5] m"
  using l32_2.plain l32_3.plain l32_4.plain l32_5.plain
  by (simp_all add: xor_32regs_2_def xor_32regs_3_def xor_32regs_4_def xor_32regs_5_def Let_def case_prod_beta)

lemma xor_32regs_p_words:
  "disjoint (num_words bytes) p1 [p2] \<Longrightarrow>
     xor_32regs_p_2 bytes p1 p2 m = xor_words (num_words bytes) p1 [p2] m"
  "disjoint (num_words bytes) p1 [p2, p3] \<Longrightarrow>
     xor_32regs_p_3 bytes p1 p2 p3 m = xor_words (num_words bytes) p1 [p2, p3] m"
  "disjoint (num_words bytes) p1 [p2, p3, p4] \<Longrightarrow>
     xor_32regs_p_4 bytes p1 p2 p3 p4 m = xor_words (num_words bytes) p1 [p2, p3, p4] m"
  "disjoint (num_words bytes) p1 [p2, p3, p4, p5] \<Longrightarrow>
     xor_32regs_p_5 bytes p1 p2 p3 p4 p5 m = xor_words (num_words bytes) p1 [p2, p3, p4, p5] m"
  using l32_2.prefetch l32_3.prefetch l32_4.prefetch l32_5.prefetch
  by (simp_all add: xor_32regs_p_2_def xor_32regs_p_3_def xor_32regs_p_4_def xor_32regs_p_5_def Let_def case_prod_beta)

lemmas xor_words_facts = xor_8regs_words xor_32regs_words xor_8regs_p_words xor_32regs_p_words

lemmas template_defs = xor_block_8regs_def xor_block_32regs_def xor_block_8regs_p_def xor_block_32regs_p_def

lemma disjoint_Cons: "disjoint n p (q # qs) \<longleftrightarrow> (p + n \<le> q \<or> q + n \<le> p) \<and> disjoint n p qs"
  by (simp add: disjoint_def)

lemma disjoint_Nil [simp]: "disjoint n p []"
  by (simp add: disjoint_def)

lemma template_words:
  assumes "T \<in> set xor_templates"
  shows "disjoint (num_words bytes) p1 [p2] \<Longrightarrow>
           do_2 T bytes p1 p2 m = xor_words (num_words bytes) p1 [p2] m"
    and "disjoint (num_words bytes) p1 [p2, p3] \<Longrightarrow>
           do_3 T bytes p1 p2 p3 m = xor_words (num_words bytes) p1 [p2, p3] m"
    and "disjoint (num_words bytes) p1 [p2, p3, p4] \<Longrightarrow>
           do_4 T bytes p1 p2 p3 p4 m = xor_words (num_words bytes) p1 [p2, p3, p4] m"
    and "disjoint (num_words bytes) p1 [p2, p3, p4, p5] \<Longrightarrow>
           do_5 T bytes p1 p2 p3 p4 p5 m = xor_words (num_words bytes) p1 [p2, p3, p4, p5] m"
  using assms by (auto simp: xor_templates_def template_defs xor_words_facts)

text \<open>Prefetching changes nothing, whatever the size and the placement of the blocks.\<close>

lemma prefetch_same:
  "do_2 xor_block_8regs_p = do_2 xor_block_8regs \<and>
   do_3 xor_block_8regs_p = do_3 xor_block_8regs \<and>
   do_4 xor_block_8regs_p = do_4 xor_block_8regs \<and>
   do_5 xor_block_8regs_p = do_5 xor_block_8regs \<and>
   do_2 xor_block_32regs_p = do_2 xor_block_32regs \<and>
   do_3 xor_block_32regs_p = do_3 xor_block_32regs \<and>
   do_4 xor_block_32regs_p = do_4 xor_block_32regs \<and>
   do_5 xor_block_32regs_p = do_5 xor_block_32regs"
  by (simp add: template_defs fun_eq_iff case_prod_beta Let_def do_lines_bytes
      xor_8regs_2_def xor_8regs_3_def xor_8regs_4_def xor_8regs_5_def
      xor_8regs_p_2_def xor_8regs_p_3_def xor_8regs_p_4_def xor_8regs_p_5_def
      xor_32regs_2_def xor_32regs_3_def xor_32regs_4_def xor_32regs_5_def
      xor_32regs_p_2_def xor_32regs_p_3_def xor_32regs_p_4_def xor_32regs_p_5_def)

text \<open>
  C8. Each of the sixteen routines computes the reference: with a destination that does not
  overlap a source, the words of the destination become the xor of all blocks, word by word,
  and no other word changes.  The number of words is the size rounded down to lines of 64
  bytes, but at least one line: a size below 64 still processes 8 words.  Prefetching changes
  nothing: for every size and every placement of the blocks, overlapping ones included, a prefetching
  routine does exactly what the plain one does, so the \<open>goto once_more\<close> makes up for the line the
  loop leaves out.
\<close>

theorem xor_routines_correct:
  assumes "disjoint (num_words bytes) p1 [p2, p3, p4, p5]"
  shows "xor_8regs_2 bytes p1 p2 m = xor_words (num_words bytes) p1 [p2] m \<and>
         xor_8regs_3 bytes p1 p2 p3 m = xor_words (num_words bytes) p1 [p2, p3] m \<and>
         xor_8regs_4 bytes p1 p2 p3 p4 m = xor_words (num_words bytes) p1 [p2, p3, p4] m \<and>
         xor_8regs_5 bytes p1 p2 p3 p4 p5 m = xor_words (num_words bytes) p1 [p2, p3, p4, p5] m \<and>
         xor_32regs_2 bytes p1 p2 m = xor_words (num_words bytes) p1 [p2] m \<and>
         xor_32regs_3 bytes p1 p2 p3 m = xor_words (num_words bytes) p1 [p2, p3] m \<and>
         xor_32regs_4 bytes p1 p2 p3 p4 m = xor_words (num_words bytes) p1 [p2, p3, p4] m \<and>
         xor_32regs_5 bytes p1 p2 p3 p4 p5 m = xor_words (num_words bytes) p1 [p2, p3, p4, p5] m \<and>
         xor_8regs_p_2 bytes p1 p2 m = xor_words (num_words bytes) p1 [p2] m \<and>
         xor_8regs_p_3 bytes p1 p2 p3 m = xor_words (num_words bytes) p1 [p2, p3] m \<and>
         xor_8regs_p_4 bytes p1 p2 p3 p4 m = xor_words (num_words bytes) p1 [p2, p3, p4] m \<and>
         xor_8regs_p_5 bytes p1 p2 p3 p4 p5 m = xor_words (num_words bytes) p1 [p2, p3, p4, p5] m \<and>
         xor_32regs_p_2 bytes p1 p2 m = xor_words (num_words bytes) p1 [p2] m \<and>
         xor_32regs_p_3 bytes p1 p2 p3 m = xor_words (num_words bytes) p1 [p2, p3] m \<and>
         xor_32regs_p_4 bytes p1 p2 p3 p4 m = xor_words (num_words bytes) p1 [p2, p3, p4] m \<and>
         xor_32regs_p_5 bytes p1 p2 p3 p4 p5 m = xor_words (num_words bytes) p1 [p2, p3, p4, p5] m \<and>
    do_2 xor_block_8regs_p = do_2 xor_block_8regs \<and>
         do_3 xor_block_8regs_p = do_3 xor_block_8regs \<and>
         do_4 xor_block_8regs_p = do_4 xor_block_8regs \<and>
         do_5 xor_block_8regs_p = do_5 xor_block_8regs \<and>
         do_2 xor_block_32regs_p = do_2 xor_block_32regs \<and>
         do_3 xor_block_32regs_p = do_3 xor_block_32regs \<and>
         do_4 xor_block_32regs_p = do_4 xor_block_32regs \<and>
         do_5 xor_block_32regs_p = do_5 xor_block_32regs"
  using assms prefetch_same by (simp add: xor_words_facts disjoint_Cons)

theorem xor_routines_correct_witness:
  "xor_32regs_p_3 128 0 16 32 (\<lambda>a. word_of_nat a) 17 = 17 \<and>
   xor_32regs_p_3 128 0 16 32 (\<lambda>a. word_of_nat a) 5 = 5 XOR 21 XOR 37"
  using xor_routines_correct [of 128 0 16 32 48 64 "\<lambda>a. word_of_nat a"]
  by (simp add: num_words_def disjoint_def xor_words_def)

text \<open>
  The sources of a checksum are processed \<open>MAX_XOR_BLOCKS\<close>, that is four, at a time, by the routine of the
  template for their number.
\<close>

fun xor_into :: "xor_block_template \<Rightarrow> u64 \<Rightarrow> nat \<Rightarrow> nat list \<Rightarrow> xmem \<Rightarrow> xmem" where
  "xor_into T bytes p [] m = m"
| "xor_into T bytes p [p2] m = do_2 T bytes p p2 m"
| "xor_into T bytes p [p2, p3] m = do_3 T bytes p p2 p3 m"
| "xor_into T bytes p [p2, p3, p4] m = do_4 T bytes p p2 p3 p4 m"
| "xor_into T bytes p (p2 # p3 # p4 # p5 # ps) m = xor_into T bytes p ps (do_5 T bytes p p2 p3 p4 p5 m)"

lemma disjoint_append: "disjoint n p (ps @ qs) \<longleftrightarrow> disjoint n p ps \<and> disjoint n p qs"
  by (auto simp: disjoint_def)

lemma xor_words_Nil [simp]: "xor_words n p [] m = m"
  by (auto simp: xor_words_def)

lemma xor_words_inside:
  "p \<le> a \<and> a < p + n \<Longrightarrow> xor_words n p qs m a = foldl (XOR) (m a) (map (\<lambda>q. m (q + (a - p))) qs)"
  by (simp add: xor_words_def)

lemma xor_words_append:
  assumes "disjoint n p (ps @ qs)"
  shows "xor_words n p qs (xor_words n p ps m) = xor_words n p (ps @ qs) m"
proof
  fix a
  show "xor_words n p qs (xor_words n p ps m) a = xor_words n p (ps @ qs) m a"
  proof (cases "p \<le> a \<and> a < p + n")
    case True
    have "p + n \<le> q \<or> q + n \<le> p" if "q \<in> set qs" for q
      using assms that by (simp add: disjoint_def list_all_iff)
    with True have "\<not> (p \<le> q + (a - p) \<and> q + (a - p) < p + n)" if "q \<in> set qs" for q
      using that by fastforce
    then have "map (\<lambda>q. xor_words n p ps m (q + (a - p))) qs = map (\<lambda>q. m (q + (a - p))) qs"
      by simp
    with True show ?thesis
      by (simp only: xor_words_inside map_append foldl_append)
  qed simp
qed

lemma xor_into_words:
  assumes "T \<in> set xor_templates" and "disjoint (num_words bytes) p ps"
  shows "xor_into T bytes p ps m = xor_words (num_words bytes) p ps m"
  using assms(2,1)
proof (induction T bytes p ps m rule: xor_into.induct [case_names nil one two three more])
  case (more T bytes p p2 p3 p4 p5 ps m)
  then have "disjoint (num_words bytes) p ([p2, p3, p4, p5] @ ps)"
    by simp
  with more show ?case
    using xor_words_append [of "num_words bytes" p "[p2, p3, p4, p5]" ps m]
    by (simp add: template_words disjoint_Cons)
qed (simp_all add: template_words)

lemma foldl_xor: "foldl (XOR) (x :: u64) ys = x XOR foldl (XOR) 0 ys"
proof (induction ys arbitrary: x)
  case (Cons y ys)
  from Cons.IH [of "x XOR y"] Cons.IH [of y] show ?case
    by (simp add: xor.assoc)
qed simp

text \<open>
  C9. A lost block is reconstructed from the parity: whichever template computed the parity of the data
  blocks, one or more of them, into a cleared block and whichever one is used afterwards, xoring all
  data blocks but one into the parity, wherever the lost one was among them, leaves that block there, and every word
  outside the parity block keeps its value throughout.  The blocks go through the routine for two, three, four or five
  blocks of the template according to how many of them are left.
\<close>

theorem raid5_reconstruct:
  assumes "T \<in> set xor_templates" and "T' \<in> set xor_templates"
    and "disjoint (num_words bytes) p (us @ lost # vs)"
    and "\<And>i. i < num_words bytes \<Longrightarrow> m (p + i) = 0"
  shows "xor_into T' bytes p (us @ vs) (xor_into T bytes p (us @ lost # vs) m) =
         (\<lambda>a. if p \<le> a \<and> a < p + num_words bytes then m (lost + (a - p)) else m a)"
proof
  fix a
  let ?n = "num_words bytes" and ?f = "\<lambda>q. m (q + (a - p))"
  have d: "disjoint ?n p (us @ vs)" "disjoint ?n p ((us @ lost # vs) @ (us @ vs))"
    using assms(3) by (auto simp: disjoint_append disjoint_Cons)
  have "xor_into T' bytes p (us @ vs) (xor_into T bytes p (us @ lost # vs) m) a =
      xor_words ?n p ((us @ lost # vs) @ (us @ vs)) m a"
    by (simp add: xor_into_words assms(1-3) d xor_words_append del: append_assoc)
  also have "\<dots> = (if p \<le> a \<and> a < p + ?n then m (lost + (a - p)) else m a)"
  proof (cases "p \<le> a \<and> a < p + ?n")
    case True
    then have "m a = 0"
      using assms(4) [of "a - p"] by auto
    with True have "xor_words ?n p ((us @ lost # vs) @ (us @ vs)) m a =
        foldl (XOR) 0 (map ?f us @ ?f lost # map ?f vs @ map ?f us @ map ?f vs)"
      by (simp add: xor_words_def comp_def)
    also have "\<dots> = ?f lost"
      unfolding foldl_append foldl.simps
        foldl_xor [of "foldl _ _ _"] foldl_xor [of "_ XOR _"] by (simp add: ac_simps)
    finally show ?thesis using True by simp
  qed (auto simp: xor_words_def)
  finally show "xor_into T' bytes p (us @ vs) (xor_into T bytes p (us @ lost # vs) m) a =
      (if p \<le> a \<and> a < p + ?n then m (lost + (a - p)) else m a)" .
qed

theorem raid5_reconstruct_witness:
  "do_3 xor_block_8regs_p 64 0 8 24 (do_4 xor_block_32regs 64 0 8 16 24 (\<lambda>a. if a < 8 then 0 else word_of_nat a)) 3 = 19 \<and>
   do_4 xor_block_32regs_p 64 0 8 16 24 (do_5 xor_block_8regs 64 0 8 16 24 32 (\<lambda>a. if a < 8 then 0 else word_of_nat a)) 3 = 35"
  using raid5_reconstruct [of xor_block_32regs xor_block_8regs_p 64 0 "[8]" 16 "[24]" "\<lambda>a. if a < 8 then 0 else word_of_nat a"]
    raid5_reconstruct [of xor_block_8regs xor_block_32regs_p 64 0 "[8, 16, 24]" 32 "[]" "\<lambda>a. if a < 8 then 0 else word_of_nat a"]
  by (simp add: xor_templates_def num_words_def disjoint_def)

end
