(* ===== verification/Ptr_Ring.thy ===== *)
theory Ptr_Ring
  imports Prelude "HOL-Library.Monad_Syntax" "HOL-Library.Multiset"
begin

text \<open>
  The pointer ring of \<open>linux/ptr_ring.h\<close>: a bounded FIFO of pointers in a circular array in
  which a \<open>NULL\<close> entry marks a free slot, with consumed entries invalidated in batches, and the
  spin lock functions of \<open>linux/spinlock_api_smp.h\<close> its public operations use.

  A function \<open>__ptr_ring_f\<close> of the header is called \<open>raw_ptr_ring_f\<close> here.  Pointers are 64 bit
  words, \<open>0\<close> is \<open>NULL\<close>.  The index members are C ints that stay between 0 and \<open>size\<close> (see
  \<open>ring_inv\<close>), so an \<open>int\<close> represents them exactly.  The calls of a \<open>destroy\<close> callback are
  recorded in a list, in the order of the calls.  The allocator and the cache line size are
  not part of the header: they are the parameter \<open>ring_env\<close>.
\<close>

type_synonym ptr = u64

section \<open>State\<close>

record ptr_ring =
  r_producer :: int
  r_producer_lock :: bool
  r_consumer_head :: int
  r_consumer_tail :: int
  r_consumer_lock :: bool
  r_size :: int
  r_batch :: int
  r_queue :: "ptr list"

definition ENOSPC :: int where
  "ENOSPC = 28"

definition ENOMEM :: int where
  "ENOMEM = 12"

definition slot :: "ptr list \<Rightarrow> int \<Rightarrow> ptr" where
  "slot q i = q ! nat i"

definition slot_store :: "ptr list \<Rightarrow> int \<Rightarrow> ptr \<Rightarrow> ptr list" where
  "slot_store q i x = (if 0 \<le> i then store q (nat i) x else [])"

section \<open>Operations that expect the lock to be held\<close>

definition raw_ptr_ring_full :: "ptr_ring \<Rightarrow> bool" where
  "raw_ptr_ring_full r \<longleftrightarrow> slot (r_queue r) (r_producer r) \<noteq> 0"

definition raw_ptr_ring_produce :: "ptr_ring \<Rightarrow> ptr \<Rightarrow> int \<times> ptr_ring" where
  "raw_ptr_ring_produce r ptr =
     (if r_size r = 0 \<or> slot (r_queue r) (r_producer r) \<noteq> 0 then (- ENOSPC, r)
      else
        let r = r\<lparr>r_queue := slot_store (r_queue r) (r_producer r) ptr,
                  r_producer := r_producer r + 1\<rparr>;
            r = (if r_producer r \<ge> r_size r then r\<lparr>r_producer := 0\<rparr> else r)
        in (0, r))"

definition raw_ptr_ring_peek :: "ptr_ring \<Rightarrow> ptr" where
  "raw_ptr_ring_peek r = (if r_size r \<noteq> 0 then slot (r_queue r) (r_consumer_head r) else 0)"

definition raw_ptr_ring_empty :: "ptr_ring \<Rightarrow> bool" where
  "raw_ptr_ring_empty r =
     (if r_size r \<noteq> 0 then slot (r_queue r) (r_consumer_head r) = 0 else True)"

text \<open>\<open>while (head >= tail) queue[head--] = NULL;\<close>\<close>

function zero_down :: "ptr list \<Rightarrow> int \<Rightarrow> int \<Rightarrow> ptr list" where
  "zero_down q head tail =
     (if head \<ge> tail then zero_down (slot_store q head 0) (head - 1) tail else q)"
  by pat_completeness auto
termination
  by (relation "measure (\<lambda>(q, head, tail). nat (head - tail + 1))") auto

declare zero_down.simps [simp del]

definition raw_ptr_ring_discard_one :: "ptr_ring \<Rightarrow> ptr_ring" where
  "raw_ptr_ring_discard_one r =
     (let consumer_head = r_consumer_head r;
          head = consumer_head;
          consumer_head = consumer_head + 1;
          r = (if consumer_head - r_consumer_tail r \<ge> r_batch r \<or> consumer_head \<ge> r_size r then
                 r\<lparr>r_queue := zero_down (r_queue r) head (r_consumer_tail r),
                   r_consumer_tail := consumer_head\<rparr>
               else r);
          (consumer_head, r) =
            (if consumer_head \<ge> r_size r then (0, r\<lparr>r_consumer_tail := 0\<rparr>) else (consumer_head, r))
      in r\<lparr>r_consumer_head := consumer_head\<rparr>)"

definition raw_ptr_ring_consume :: "ptr_ring \<Rightarrow> ptr \<times> ptr_ring" where
  "raw_ptr_ring_consume r =
     (let ptr = raw_ptr_ring_peek r
      in if ptr \<noteq> 0 then (ptr, raw_ptr_ring_discard_one r) else (ptr, r))"

text \<open>\<open>for (i = 0; i < n; i++)\<close> of the batched consumer, from \<open>i\<close> on.\<close>

function consume_from :: "int \<Rightarrow> ptr_ring \<Rightarrow> ptr list \<Rightarrow> int \<Rightarrow> int \<times> ptr list \<times> ptr_ring" where
  "consume_from i r array n =
     (if i < n then
        case raw_ptr_ring_consume r of (ptr, r) \<Rightarrow>
          if ptr = 0 then (i, array, r)
          else consume_from (i + 1) r (slot_store array i ptr) n
      else (i, array, r))"
  by pat_completeness auto
termination
  by (relation "measure (\<lambda>(i, r, array, n). nat (n - i))") auto

declare consume_from.simps [simp del]

definition raw_ptr_ring_consume_batched :: "ptr_ring \<Rightarrow> ptr list \<Rightarrow> int \<Rightarrow> int \<times> ptr list \<times> ptr_ring" where
  "raw_ptr_ring_consume_batched r array n = consume_from 0 r array n"

definition PTR_RING_PEEK_CALL_raw :: "(ptr \<Rightarrow> 'v) \<Rightarrow> ptr_ring \<Rightarrow> 'v" where
  "PTR_RING_PEEK_CALL_raw f r = f (raw_ptr_ring_peek r)"

section \<open>Sizes and initialisation\<close>

text \<open>
  \<open>KMALLOC_MAX_SIZE\<close>, \<open>SMP_CACHE_BYTES\<close> and \<open>kvmalloc_array\<close> with \<open>__GFP_ZERO\<close>, which yields
  the array or \<open>NULL\<close>.
\<close>

record ring_env =
  kmalloc_max_size :: nat
  smp_cache_bytes :: int
  kvmalloc_array :: "nat \<Rightarrow> ptr list option"

definition raw_ptr_ring_init_queue_alloc :: "ring_env \<Rightarrow> int \<Rightarrow> ptr list option" where
  "raw_ptr_ring_init_queue_alloc e sz =
     (let sz = nat (sz mod 2 ^ 32)
      in if sz > kmalloc_max_size e div 8 then None else kvmalloc_array e sz)"

definition raw_ptr_ring_set_size :: "ring_env \<Rightarrow> ptr_ring \<Rightarrow> int \<Rightarrow> ptr_ring" where
  "raw_ptr_ring_set_size e r sz =
     (let r = r\<lparr>r_size := sz, r_batch := smp_cache_bytes e * 2 div 8\<rparr>
      in if r_batch r > r_size r div 2 \<or> r_batch r = 0 then r\<lparr>r_batch := 1\<rparr> else r)"

text \<open>When the allocation fails \<open>r->queue\<close> is \<open>NULL\<close>, an array without slots.\<close>

definition ptr_ring_init :: "ring_env \<Rightarrow> ptr_ring \<Rightarrow> int \<Rightarrow> int \<times> ptr_ring" where
  "ptr_ring_init e r sz =
     (case raw_ptr_ring_init_queue_alloc e sz of
        None \<Rightarrow> (- ENOMEM, r\<lparr>r_queue := []\<rparr>)
      | Some queue \<Rightarrow>
          let r = raw_ptr_ring_set_size e (r\<lparr>r_queue := queue\<rparr>) sz
          in (0, r\<lparr>r_producer := 0, r_consumer_head := 0, r_consumer_tail := 0,
                   r_producer_lock := False, r_consumer_lock := False\<rparr>))"

section \<open>Returning entries, resizing and cleaning up\<close>

text \<open>
  The second loop of \<open>ptr_ring_unconsume\<close>; the last component is the \<open>n\<close> that is left.  The
  number of entries is not negative, so the loops \<open>while (n)\<close> count down a natural number.
\<close>

fun push_back :: "ptr_ring \<Rightarrow> ptr list \<Rightarrow> nat \<Rightarrow> ptr_ring \<times> nat" where
  "push_back r batch 0 = (r, 0)"
| "push_back r batch (Suc n) =
     (let head = r_consumer_head r - 1;
          head = (if head < 0 then r_size r - 1 else head)
      in if slot (r_queue r) head \<noteq> 0 then (r, Suc n)
         else push_back (r\<lparr>r_queue := slot_store (r_queue r) head (batch ! n),
                           r_consumer_tail := head, r_consumer_head := head\<rparr>) batch n)"

text \<open>\<open>while (n) destroy(batch[--n]);\<close>\<close>

fun destroy_rest :: "ptr list \<Rightarrow> nat \<Rightarrow> ptr list" where
  "destroy_rest batch 0 = []"
| "destroy_rest batch (Suc n) = batch ! n # destroy_rest batch n"

text \<open>What happens between taking and releasing the two locks.\<close>

definition unconsume_locked :: "ptr list \<Rightarrow> nat \<Rightarrow> ptr_ring \<Rightarrow> ptr list \<times> ptr_ring" where
  "unconsume_locked batch n r =
     (if r_size r = 0 then (destroy_rest batch n, r)
      else
        let head = r_consumer_head r - 1;
            r = r\<lparr>r_queue := zero_down (r_queue r) head (r_consumer_tail r)\<rparr>;
            r = r\<lparr>r_consumer_tail := r_consumer_head r\<rparr>;
            (r, n) = push_back r batch n
        in (destroy_rest batch n, r))"

text \<open>
  The loop of \<open>__ptr_ring_swap_queue\<close>: move the entries to the new array, as many as it has room
  for.  \<open>None\<close> stands for a loop that does not end.
\<close>

partial_function (option) move_entries ::
  "bool \<Rightarrow> int \<Rightarrow> ptr_ring \<Rightarrow> ptr list \<Rightarrow> int \<Rightarrow> ptr list \<Rightarrow> (ptr_ring \<times> ptr list \<times> int \<times> ptr list) option" where
  "move_entries destroy sz r queue producer log =
     (case raw_ptr_ring_consume r of (ptr, r) \<Rightarrow>
        if ptr = 0 then Some (r, queue, producer, log)
        else if producer < sz
          then move_entries destroy sz r (slot_store queue producer ptr) (producer + 1) log
          else move_entries destroy sz r queue producer (if destroy then log @ [ptr] else log))"

text \<open>Yields the old array, the calls of \<open>destroy\<close> and the ring.\<close>

definition raw_ptr_ring_swap_queue ::
  "ring_env \<Rightarrow> bool \<Rightarrow> ptr list \<Rightarrow> int \<Rightarrow> ptr_ring \<Rightarrow> (ptr list \<times> ptr list \<times> ptr_ring) option" where
  "raw_ptr_ring_swap_queue e destroy queue sz r =
     do {
       (r, queue, producer, log) \<leftarrow> move_entries destroy sz r queue 0 [];
       let producer = (if producer \<ge> sz then 0 else producer);
       let r = raw_ptr_ring_set_size e r sz;
       let r = r\<lparr>r_producer := producer, r_consumer_head := 0, r_consumer_tail := 0\<rparr>;
       let old = r_queue r;
       Some (old, log, r\<lparr>r_queue := queue\<rparr>)
     }"

section \<open>Spin locks\<close>

text \<open>
  The state of the CPU that the lock functions of \<open>linux/spinlock_api_smp.h\<close> touch, and the ring with its
  locks.  The lock itself is the queued spin lock of \<open>asm-generic/qspinlock.h\<close>: the compare and exchange takes
  a free lock; otherwise the slow path, which is not part of the headers, waits until the holder releases
  it.  The one CPU of this state is the only holder there is, so that the wait never ends: the result
  \<open>None\<close>.  The preemption and soft interrupt counts, two fields of \<open>preempt_count\<close>, are nesting depths;
  \<open>SOFTIRQ_LOCK_OFFSET\<close> adds one level to both.  The annotations for lockdep, the barriers and the
  rescheduling of \<open>preempt_enable\<close> have no effect on this state.
\<close>

record kstate =
  k_preempt_count :: int
  k_softirq_count :: int
  k_irqs_enabled :: bool
  k_ring :: ptr_ring

datatype ring_lock = producer_lock | consumer_lock

fun is_locked :: "ring_lock \<Rightarrow> ptr_ring \<Rightarrow> bool" where
  "is_locked producer_lock r = r_producer_lock r"
| "is_locked consumer_lock r = r_consumer_lock r"

fun set_locked :: "ring_lock \<Rightarrow> bool \<Rightarrow> ptr_ring \<Rightarrow> ptr_ring" where
  "set_locked producer_lock b r = r\<lparr>r_producer_lock := b\<rparr>"
| "set_locked consumer_lock b r = r\<lparr>r_consumer_lock := b\<rparr>"

definition arch_spin_lock :: "ring_lock \<Rightarrow> kstate \<Rightarrow> kstate option" where
  "arch_spin_lock l s =
     (if \<not> is_locked l (k_ring s) then Some (s\<lparr>k_ring := set_locked l True (k_ring s)\<rparr>) else None)"

definition arch_spin_unlock :: "ring_lock \<Rightarrow> kstate \<Rightarrow> kstate" where
  "arch_spin_unlock l s = s\<lparr>k_ring := set_locked l False (k_ring s)\<rparr>"

definition do_raw_spin_lock :: "ring_lock \<Rightarrow> kstate \<Rightarrow> kstate option" where
  "do_raw_spin_lock l s = arch_spin_lock l s"

definition do_raw_spin_unlock :: "ring_lock \<Rightarrow> kstate \<Rightarrow> kstate" where
  "do_raw_spin_unlock l s = arch_spin_unlock l s"

definition preempt_disable :: "kstate \<Rightarrow> kstate" where
  "preempt_disable s = s\<lparr>k_preempt_count := k_preempt_count s + 1\<rparr>"

definition preempt_enable :: "kstate \<Rightarrow> kstate" where
  "preempt_enable s = s\<lparr>k_preempt_count := k_preempt_count s - 1\<rparr>"

definition local_bh_disable_lock :: "kstate \<Rightarrow> kstate" where
  "local_bh_disable_lock s = s\<lparr>k_softirq_count := k_softirq_count s + 1, k_preempt_count := k_preempt_count s + 1\<rparr>"

definition local_bh_enable_lock :: "kstate \<Rightarrow> kstate" where
  "local_bh_enable_lock s = s\<lparr>k_softirq_count := k_softirq_count s - 1, k_preempt_count := k_preempt_count s - 1\<rparr>"

definition local_irq_disable :: "kstate \<Rightarrow> kstate" where
  "local_irq_disable s = s\<lparr>k_irqs_enabled := False\<rparr>"

definition local_irq_enable :: "kstate \<Rightarrow> kstate" where
  "local_irq_enable s = s\<lparr>k_irqs_enabled := True\<rparr>"

definition local_irq_save :: "kstate \<Rightarrow> bool \<times> kstate" where
  "local_irq_save s = (k_irqs_enabled s, s\<lparr>k_irqs_enabled := False\<rparr>)"

definition local_irq_restore :: "bool \<Rightarrow> kstate \<Rightarrow> kstate" where
  "local_irq_restore flags s = s\<lparr>k_irqs_enabled := flags\<rparr>"

definition spin_lock :: "ring_lock \<Rightarrow> kstate \<Rightarrow> kstate option" where
  "spin_lock l s = do_raw_spin_lock l (preempt_disable s)"

definition spin_lock_bh :: "ring_lock \<Rightarrow> kstate \<Rightarrow> kstate option" where
  "spin_lock_bh l s = do_raw_spin_lock l (local_bh_disable_lock s)"

definition spin_lock_irq :: "ring_lock \<Rightarrow> kstate \<Rightarrow> kstate option" where
  "spin_lock_irq l s = do_raw_spin_lock l (preempt_disable (local_irq_disable s))"

definition spin_lock_irqsave :: "ring_lock \<Rightarrow> kstate \<Rightarrow> (bool \<times> kstate) option" where
  "spin_lock_irqsave l s =
     (let (flags, s) = local_irq_save s
      in do { s \<leftarrow> do_raw_spin_lock l (preempt_disable s); Some (flags, s) })"

definition spin_unlock :: "ring_lock \<Rightarrow> kstate \<Rightarrow> kstate" where
  "spin_unlock l s = preempt_enable (do_raw_spin_unlock l s)"

definition spin_unlock_bh :: "ring_lock \<Rightarrow> kstate \<Rightarrow> kstate" where
  "spin_unlock_bh l s = local_bh_enable_lock (do_raw_spin_unlock l s)"

definition spin_unlock_irq :: "ring_lock \<Rightarrow> kstate \<Rightarrow> kstate" where
  "spin_unlock_irq l s = preempt_enable (local_irq_enable (do_raw_spin_unlock l s))"

definition spin_unlock_irqrestore :: "ring_lock \<Rightarrow> bool \<Rightarrow> kstate \<Rightarrow> kstate" where
  "spin_unlock_irqrestore l flags s = preempt_enable (local_irq_restore flags (do_raw_spin_unlock l s))"

text \<open>
  The four shapes of a critical section: lock, run a body, unlock, return what the body returned.  The
  body of most public operations is one raw operation on the ring; the body of the operations that take
  both locks is a critical section itself.
\<close>

definition on_ring :: "(ptr_ring \<Rightarrow> 'v \<times> ptr_ring) \<Rightarrow> kstate \<Rightarrow> ('v \<times> kstate) option" where
  "on_ring f s = (case f (k_ring s) of (ret, r) \<Rightarrow> Some (ret, s\<lparr>k_ring := r\<rparr>))"

definition locked :: "ring_lock \<Rightarrow> (kstate \<Rightarrow> ('v \<times> kstate) option) \<Rightarrow> kstate \<Rightarrow> ('v \<times> kstate) option" where
  "locked l body s =
     do { s \<leftarrow> spin_lock l s;
          (ret, s) \<leftarrow> body s;
          Some (ret, spin_unlock l s) }"

definition locked_irq :: "ring_lock \<Rightarrow> (kstate \<Rightarrow> ('v \<times> kstate) option) \<Rightarrow> kstate \<Rightarrow> ('v \<times> kstate) option" where
  "locked_irq l body s =
     do { s \<leftarrow> spin_lock_irq l s;
          (ret, s) \<leftarrow> body s;
          Some (ret, spin_unlock_irq l s) }"

definition locked_any :: "ring_lock \<Rightarrow> (kstate \<Rightarrow> ('v \<times> kstate) option) \<Rightarrow> kstate \<Rightarrow> ('v \<times> kstate) option" where
  "locked_any l body s =
     do { (flags, s) \<leftarrow> spin_lock_irqsave l s;
          (ret, s) \<leftarrow> body s;
          Some (ret, spin_unlock_irqrestore l flags s) }"

definition locked_bh :: "ring_lock \<Rightarrow> (kstate \<Rightarrow> ('v \<times> kstate) option) \<Rightarrow> kstate \<Rightarrow> ('v \<times> kstate) option" where
  "locked_bh l body s =
     do { s \<leftarrow> spin_lock_bh l s;
          (ret, s) \<leftarrow> body s;
          Some (ret, spin_unlock_bh l s) }"

section \<open>Public operations\<close>

definition ptr_ring_full :: "kstate \<Rightarrow> (bool \<times> kstate) option" where
  "ptr_ring_full =
     locked producer_lock (on_ring (\<lambda>r. (raw_ptr_ring_full r, r)))"

definition ptr_ring_full_irq :: "kstate \<Rightarrow> (bool \<times> kstate) option" where
  "ptr_ring_full_irq =
     locked_irq producer_lock (on_ring (\<lambda>r. (raw_ptr_ring_full r, r)))"

definition ptr_ring_full_any :: "kstate \<Rightarrow> (bool \<times> kstate) option" where
  "ptr_ring_full_any =
     locked_any producer_lock (on_ring (\<lambda>r. (raw_ptr_ring_full r, r)))"

definition ptr_ring_full_bh :: "kstate \<Rightarrow> (bool \<times> kstate) option" where
  "ptr_ring_full_bh =
     locked_bh producer_lock (on_ring (\<lambda>r. (raw_ptr_ring_full r, r)))"

definition ptr_ring_produce :: "ptr \<Rightarrow> kstate \<Rightarrow> (int \<times> kstate) option" where
  "ptr_ring_produce ptr =
     locked producer_lock (on_ring (\<lambda>r. raw_ptr_ring_produce r ptr))"

definition ptr_ring_produce_irq :: "ptr \<Rightarrow> kstate \<Rightarrow> (int \<times> kstate) option" where
  "ptr_ring_produce_irq ptr =
     locked_irq producer_lock (on_ring (\<lambda>r. raw_ptr_ring_produce r ptr))"

definition ptr_ring_produce_any :: "ptr \<Rightarrow> kstate \<Rightarrow> (int \<times> kstate) option" where
  "ptr_ring_produce_any ptr =
     locked_any producer_lock (on_ring (\<lambda>r. raw_ptr_ring_produce r ptr))"

definition ptr_ring_produce_bh :: "ptr \<Rightarrow> kstate \<Rightarrow> (int \<times> kstate) option" where
  "ptr_ring_produce_bh ptr =
     locked_bh producer_lock (on_ring (\<lambda>r. raw_ptr_ring_produce r ptr))"

definition ptr_ring_empty :: "kstate \<Rightarrow> (bool \<times> kstate) option" where
  "ptr_ring_empty =
     locked consumer_lock (on_ring (\<lambda>r. (raw_ptr_ring_empty r, r)))"

definition ptr_ring_empty_irq :: "kstate \<Rightarrow> (bool \<times> kstate) option" where
  "ptr_ring_empty_irq =
     locked_irq consumer_lock (on_ring (\<lambda>r. (raw_ptr_ring_empty r, r)))"

definition ptr_ring_empty_any :: "kstate \<Rightarrow> (bool \<times> kstate) option" where
  "ptr_ring_empty_any =
     locked_any consumer_lock (on_ring (\<lambda>r. (raw_ptr_ring_empty r, r)))"

definition ptr_ring_empty_bh :: "kstate \<Rightarrow> (bool \<times> kstate) option" where
  "ptr_ring_empty_bh =
     locked_bh consumer_lock (on_ring (\<lambda>r. (raw_ptr_ring_empty r, r)))"

definition ptr_ring_consume :: "kstate \<Rightarrow> (ptr \<times> kstate) option" where
  "ptr_ring_consume =
     locked consumer_lock (on_ring (\<lambda>r. raw_ptr_ring_consume r))"

definition ptr_ring_consume_irq :: "kstate \<Rightarrow> (ptr \<times> kstate) option" where
  "ptr_ring_consume_irq =
     locked_irq consumer_lock (on_ring (\<lambda>r. raw_ptr_ring_consume r))"

definition ptr_ring_consume_any :: "kstate \<Rightarrow> (ptr \<times> kstate) option" where
  "ptr_ring_consume_any =
     locked_any consumer_lock (on_ring (\<lambda>r. raw_ptr_ring_consume r))"

definition ptr_ring_consume_bh :: "kstate \<Rightarrow> (ptr \<times> kstate) option" where
  "ptr_ring_consume_bh =
     locked_bh consumer_lock (on_ring (\<lambda>r. raw_ptr_ring_consume r))"

definition ptr_ring_consume_batched :: "ptr list \<Rightarrow> int \<Rightarrow> kstate \<Rightarrow> ((int \<times> ptr list) \<times> kstate) option" where
  "ptr_ring_consume_batched array n =
     locked consumer_lock (on_ring (\<lambda>r. case raw_ptr_ring_consume_batched r array n of (i, array, r) \<Rightarrow> ((i, array), r)))"

definition ptr_ring_consume_batched_irq :: "ptr list \<Rightarrow> int \<Rightarrow> kstate \<Rightarrow> ((int \<times> ptr list) \<times> kstate) option" where
  "ptr_ring_consume_batched_irq array n =
     locked_irq consumer_lock (on_ring (\<lambda>r. case raw_ptr_ring_consume_batched r array n of (i, array, r) \<Rightarrow> ((i, array), r)))"

definition ptr_ring_consume_batched_any :: "ptr list \<Rightarrow> int \<Rightarrow> kstate \<Rightarrow> ((int \<times> ptr list) \<times> kstate) option" where
  "ptr_ring_consume_batched_any array n =
     locked_any consumer_lock (on_ring (\<lambda>r. case raw_ptr_ring_consume_batched r array n of (i, array, r) \<Rightarrow> ((i, array), r)))"

definition ptr_ring_consume_batched_bh :: "ptr list \<Rightarrow> int \<Rightarrow> kstate \<Rightarrow> ((int \<times> ptr list) \<times> kstate) option" where
  "ptr_ring_consume_batched_bh array n =
     locked_bh consumer_lock (on_ring (\<lambda>r. case raw_ptr_ring_consume_batched r array n of (i, array, r) \<Rightarrow> ((i, array), r)))"

definition PTR_RING_PEEK_CALL :: "(ptr \<Rightarrow> 'v) \<Rightarrow> kstate \<Rightarrow> ('v \<times> kstate) option" where
  "PTR_RING_PEEK_CALL f = locked consumer_lock (on_ring (\<lambda>r. (PTR_RING_PEEK_CALL_raw f r, r)))"

definition PTR_RING_PEEK_CALL_IRQ :: "(ptr \<Rightarrow> 'v) \<Rightarrow> kstate \<Rightarrow> ('v \<times> kstate) option" where
  "PTR_RING_PEEK_CALL_IRQ f = locked_irq consumer_lock (on_ring (\<lambda>r. (PTR_RING_PEEK_CALL_raw f r, r)))"

definition PTR_RING_PEEK_CALL_BH :: "(ptr \<Rightarrow> 'v) \<Rightarrow> kstate \<Rightarrow> ('v \<times> kstate) option" where
  "PTR_RING_PEEK_CALL_BH f = locked_bh consumer_lock (on_ring (\<lambda>r. (PTR_RING_PEEK_CALL_raw f r, r)))"

definition PTR_RING_PEEK_CALL_ANY :: "(ptr \<Rightarrow> 'v) \<Rightarrow> kstate \<Rightarrow> ('v \<times> kstate) option" where
  "PTR_RING_PEEK_CALL_ANY f = locked_any consumer_lock (on_ring (\<lambda>r. (PTR_RING_PEEK_CALL_raw f r, r)))"

definition ptr_ring_unconsume :: "ptr list \<Rightarrow> nat \<Rightarrow> kstate \<Rightarrow> (ptr list \<times> kstate) option" where
  "ptr_ring_unconsume batch n =
     locked_any consumer_lock (locked producer_lock (on_ring (unconsume_locked batch n)))"

text \<open>
  \<open>__ptr_ring_swap_queue\<close> under both locks, as \<open>ptr_ring_resize\<close> and \<open>ptr_ring_resize_multiple\<close> run it.  Its
  loop may not end on a ring that is not well formed.
\<close>

definition swap_queue_body ::
  "ring_env \<Rightarrow> bool \<Rightarrow> ptr list \<Rightarrow> int \<Rightarrow> kstate \<Rightarrow> ((ptr list \<times> ptr list) \<times> kstate) option" where
  "swap_queue_body e destroy queue sz s =
     do { (old, log, r) \<leftarrow> raw_ptr_ring_swap_queue e destroy queue sz (k_ring s);
          Some ((old, log), s\<lparr>k_ring := r\<rparr>) }"

definition swap_queue_locked ::
  "ring_env \<Rightarrow> bool \<Rightarrow> ptr list \<Rightarrow> int \<Rightarrow> kstate \<Rightarrow> ((ptr list \<times> ptr list) \<times> kstate) option" where
  "swap_queue_locked e destroy queue sz =
     locked_any consumer_lock (locked producer_lock (swap_queue_body e destroy queue sz))"

text \<open>The results: the return value, the calls of \<open>destroy\<close>, the array given to \<open>kvfree\<close>, the state.\<close>

definition ptr_ring_resize ::
  "ring_env \<Rightarrow> bool \<Rightarrow> int \<Rightarrow> kstate \<Rightarrow> (int \<times> ptr list \<times> ptr list option \<times> kstate) option" where
  "ptr_ring_resize e destroy sz s =
     (case raw_ptr_ring_init_queue_alloc e sz of
        None \<Rightarrow> Some (- ENOMEM, [], None, s)
      | Some queue \<Rightarrow>
          do { ((old, log), s) \<leftarrow> swap_queue_locked e destroy queue sz s;
               Some (0, log, Some old, s) })"

text \<open>
  Several rings, by address.  Successive calls of \<open>kvmalloc_array\<close> may answer differently: \<open>mem i\<close> is
  the answer of the \<open>i\<close>-th one.  The loop of the allocations stops at the first failure, with the
  arrays it got so far.
\<close>

primrec alloc_queues ::
  "ring_env \<Rightarrow> (nat \<Rightarrow> nat \<Rightarrow> ptr list option) \<Rightarrow> int \<Rightarrow> nat \<Rightarrow> nat \<Rightarrow> ptr list list \<Rightarrow> bool \<times> ptr list list" where
  "alloc_queues e mem sz 0 i queues = (True, queues)"
| "alloc_queues e mem sz (Suc n) i queues =
     (case raw_ptr_ring_init_queue_alloc (e\<lparr>kvmalloc_array := mem i\<rparr>) sz of
        None \<Rightarrow> (False, queues)
      | Some q \<Rightarrow> alloc_queues e mem sz n (Suc i) (queues @ [q]))"

fun swap_queues ::
  "ring_env \<Rightarrow> bool \<Rightarrow> int \<Rightarrow> (ptr \<times> ptr list) list \<Rightarrow> (ptr \<Rightarrow> ptr_ring) \<Rightarrow> kstate \<Rightarrow>
   (ptr list list \<times> ptr list \<times> (ptr \<Rightarrow> ptr_ring) \<times> kstate) option" where
  "swap_queues e destroy sz [] h s = Some ([], [], h, s)"
| "swap_queues e destroy sz ((p, q) # todo) h s =
     do { ((old, log), s) \<leftarrow> swap_queue_locked e destroy q sz (s\<lparr>k_ring := h p\<rparr>);
          (olds, logs, h, s) \<leftarrow> swap_queues e destroy sz todo (h(p := k_ring s)) s;
          Some (old # olds, log @ logs, h, s) }"

text \<open>
  The results: the return value, the calls of \<open>destroy\<close>, the arrays given to \<open>kvfree\<close> in the order of
  the calls, the rings and the state.  \<open>kmalloc_ok\<close> tells whether the array of arrays could be allocated.
\<close>

definition ptr_ring_resize_multiple ::
  "ring_env \<Rightarrow> bool \<Rightarrow> (nat \<Rightarrow> nat \<Rightarrow> ptr list option) \<Rightarrow> bool \<Rightarrow> ptr list \<Rightarrow> int \<Rightarrow> (ptr \<Rightarrow> ptr_ring) \<Rightarrow> kstate \<Rightarrow>
   (int \<times> ptr list \<times> ptr list list \<times> (ptr \<Rightarrow> ptr_ring) \<times> kstate) option" where
  "ptr_ring_resize_multiple e kmalloc_ok mem destroy rings sz h s =
     (if \<not> kmalloc_ok then Some (- ENOMEM, [], [], h, s)
      else case alloc_queues e mem sz (length rings) 0 [] of
        (False, queues) \<Rightarrow> Some (- ENOMEM, [], rev queues, h, s)
      | (True, queues) \<Rightarrow>
          do { (olds, log, h, s) \<leftarrow> swap_queues e destroy sz (zip rings queues) h s;
               Some (0, log, olds, h, s) })"

text \<open>\<open>while ((ptr = ptr_ring_consume(r))) destroy(ptr);\<close>\<close>

partial_function (option) cleanup_loop :: "kstate \<Rightarrow> ptr list \<Rightarrow> (ptr list \<times> kstate) option" where
  "cleanup_loop s log =
     do { (ptr, s) \<leftarrow> ptr_ring_consume s;
          if ptr = 0 then Some (log, s) else cleanup_loop s (log @ [ptr]) }"

text \<open>The results: the calls of \<open>destroy\<close>, the array given to \<open>kvfree\<close>, the state.\<close>

definition ptr_ring_cleanup :: "bool \<Rightarrow> kstate \<Rightarrow> (ptr list \<times> ptr list \<times> kstate) option" where
  "ptr_ring_cleanup destroy s =
     do { (log, s) \<leftarrow> (if destroy then cleanup_loop s [] else Some ([], s));
          Some (log, r_queue (k_ring s), s) }"

end
