(* ===== verification/Ring_Fifo.thy ===== *)
theory Ring_Fifo
  imports Ptr_Ring
begin

text \<open>
  The pointer ring as a FIFO: the list of the entries a ring holds, the invariant of the ring,
  and the effect of every operation on that list.
\<close>

section \<open>Abstraction and invariant\<close>

text \<open>
  From the consumer head on the array holds the entries, then free slots up to the consumer
  tail, wrapping around at the end; the slots between the tail and the head are consumed but not
  yet invalidated.
\<close>

definition window :: "ptr_ring \<Rightarrow> ptr list" where
  "window r = drop (nat (r_consumer_head r)) (r_queue r) @ take (nat (r_consumer_tail r)) (r_queue r)"

definition contents :: "ptr_ring \<Rightarrow> ptr list" where
  "contents r = takeWhile (\<lambda>p. p \<noteq> 0) (window r)"

definition rep :: "ptr list \<Rightarrow> nat \<Rightarrow> nat \<Rightarrow> ptr list \<Rightarrow> bool" where
  "rep q h t xs \<longleftrightarrow> t \<le> h \<and> h < length q \<and> 0 \<notin> set xs \<and> length xs \<le> length q - h + t \<and>
     drop h q @ take t q = xs @ replicate (length q - h + t - length xs) 0 \<and>
     0 \<notin> set (take (h - t) (drop t q))"

definition ring_rep :: "ptr_ring \<Rightarrow> ptr list \<Rightarrow> bool" where
  "ring_rep r xs \<longleftrightarrow>
     0 \<le> r_size r \<and> length (r_queue r) = nat (r_size r) \<and>
     0 \<le> r_consumer_tail r \<and> 0 \<le> r_consumer_head r \<and>
     (if r_size r = 0 then r_consumer_head r = 0 \<and> r_consumer_tail r = 0 \<and> r_producer r = 0 \<and> xs = []
      else 1 \<le> r_batch r \<and> r_consumer_head r - r_consumer_tail r < r_batch r \<and>
        r_producer r = (r_consumer_head r + int (length xs)) mod r_size r \<and>
        rep (r_queue r) (nat (r_consumer_head r)) (nat (r_consumer_tail r)) xs)"

definition ring_inv :: "ptr_ring \<Rightarrow> bool" where
  "ring_inv r \<longleftrightarrow> ring_rep r (contents r)"

section \<open>Circular arrays\<close>

lemma takeWhile_rep: "0 \<notin> set xs \<Longrightarrow> takeWhile (\<lambda>p. p \<noteq> 0) (xs @ replicate k (0 :: ptr)) = xs"
proof -
  assume "0 \<notin> set xs"
  then have "takeWhile (\<lambda>p. p \<noteq> 0) (xs @ replicate k 0) = xs @ takeWhile (\<lambda>p. p \<noteq> 0) (replicate k 0)"
    by (intro takeWhile_append2) auto
  then show ?thesis by (cases k) auto
qed

lemma contents_rep: "ring_rep r xs \<Longrightarrow> contents r = xs"
  by (auto simp: ring_rep_def rep_def contents_def window_def takeWhile_rep split: if_splits)

lemma ring_inv_iff: "ring_inv r \<longleftrightarrow> (\<exists>xs. ring_rep r xs)"
  unfolding ring_inv_def using contents_rep by blast

lemma window_update:
  fixes q :: "'a list" and x :: 'a
  assumes "t \<le> h" and "h < length q" and "j < length q - h + t"
  defines "q' \<equiv> q[(h + j) mod length q := x]"
  shows "drop h q' @ take t q' = (drop h q @ take t q)[j := x]"
    and "take (h - t) (drop t q') = take (h - t) (drop t q)"
proof -
  consider (right) "h + j < length q" | (left) "length q \<le> h + j" by linarith
  then show "drop h q' @ take t q' = (drop h q @ take t q)[j := x]"
  proof cases
    case right
    then have "j < length q - h" by linarith
    with right show ?thesis
      using assms by (simp add: drop_update_swap list_update_append)
  next
    case left
    then have "(h + j) mod length q = h + j - length q"
      using assms by (simp add: mod_if)
    moreover have "\<not> j < length q - h" using left by linarith
    ultimately show ?thesis
      using left assms by (simp add: take_update_swap list_update_append add.commute)
  qed
  show "take (h - t) (drop t q') = take (h - t) (drop t q)"
  proof (cases "h + j < length q")
    case True
    then show ?thesis
      using assms by (simp add: drop_update_swap)
  next
    case False
    then have "(h + j) mod length q = h + j - length q"
      using assms by (simp add: mod_if)
    with False assms show ?thesis
      by simp
  qed
qed

lemma window_nth:
  fixes q :: "'a list"
  assumes "t \<le> h" and "h < length q" and "j < length q - h + t"
  shows "q ! ((h + j) mod length q) = (drop h q @ take t q) ! j"
proof (cases "h + j < length q")
  case True
  then have "j < length q - h" by linarith
  with True show ?thesis
    using assms by (simp add: nth_append)
next
  case False
  then have "(h + j) mod length q = h + j - length q"
    using assms by (simp add: mod_if)
  moreover have "\<not> j < length q - h" using False by linarith
  ultimately show ?thesis
    using False assms by (simp add: nth_append add.commute)
qed

lemma zero_down_list:
  assumes "0 \<le> tail" and "tail \<le> head + 1" and "nat (head + 1) \<le> length q"
  shows "zero_down q head tail =
         take (nat tail) q @ replicate (nat (head + 1 - tail)) 0 @ drop (nat (head + 1)) q"
  using assms
proof (induction q head tail rule: zero_down.induct)
  case (1 q head tail)
  show ?case
  proof (cases "head \<ge> tail")
    case True
    let ?q = "slot_store q head 0"
    have "nat head < length q"
      using 1(2-4) True by linarith
    then have q: "?q = q[nat head := 0]"
      using 1(2) True by (simp add: slot_store_def store_def)
    have n: "nat (head + 1) = Suc (nat head)" "nat (head + 1 - tail) = Suc (nat (head - tail))"
      using 1(2-4) True by auto
    have "zero_down q head tail = zero_down ?q (head - 1) tail"
      using True by (subst zero_down.simps) simp
    also have "\<dots> = take (nat tail) ?q @ replicate (nat (head - tail)) 0 @ drop (nat head) ?q"
      using 1(1) [OF True] 1(2-4) True q by simp
    also have "\<dots> = take (nat tail) q @ replicate (nat (head - tail)) 0 @ 0 # drop (Suc (nat head)) q"
    proof -
      have "drop (nat head) ?q = 0 # drop (Suc (nat head)) q"
        using 1(4) n(1) q by (simp add: drop_update_swap Cons_nth_drop_Suc [symmetric])
      moreover have "take (nat tail) ?q = take (nat tail) q"
        using True 1(2) q by simp
      ultimately show ?thesis by simp
    qed
    finally show ?thesis
      using n by (simp add: replicate_append_same [symmetric])
  next
    case False
    then have "nat (head + 1) = nat tail" "nat (head + 1 - tail) = 0"
      using 1(3) by auto
    then show ?thesis
      using False by (subst zero_down.simps) simp
  qed
qed

section \<open>Producing\<close>

lemma rep_slot:
  assumes "rep q h t xs"
  shows "q ! ((h + length xs) mod length q) = 0 \<longleftrightarrow> length xs < length q - h + t"
proof -
  let ?k = "length q - h + t - length xs"
  have r: "t \<le> h" "h < length q" "0 \<notin> set xs" "length xs \<le> length q - h + t"
    "drop h q @ take t q = xs @ replicate ?k 0" "0 \<notin> set (take (h - t) (drop t q))"
    using assms by (auto simp: rep_def)
  show ?thesis
  proof (cases "length xs < length q - h + t")
    case True
    then show ?thesis
      using window_nth [OF r(1,2), of "length xs"] r(5) by (simp add: nth_append)
  next
    case False
    with r(4) have len: "length xs = length q - h + t" by simp
    then have idx: "(h + length xs) mod length q = t"
      using r(1,2) by simp
    have "q ! t \<noteq> 0"
    proof (cases "t < h")
      case True
      then have "q ! t \<in> set (take (h - t) (drop t q))"
        using r(2) by (auto simp: in_set_conv_nth intro!: exI [of _ 0])
      with r(6) show ?thesis by metis
    next
      case False
      with r(1) have "t = h" by simp
      then have "q ! t = xs ! 0" "0 < length xs"
        using window_nth [OF r(1,2), of 0] r(2,5) len by (auto simp: nth_append)
      then show ?thesis
        using r(3) by (metis nth_mem)
    qed
    with idx len show ?thesis by simp
  qed
qed

lemma rep_append:
  assumes "rep q h t xs" and "length xs < length q - h + t" and "x \<noteq> 0"
  shows "rep (q[(h + length xs) mod length q := x]) h t (xs @ [x])"
proof -
  let ?k = "length q - h + t - length xs"
  have r: "t \<le> h" "h < length q" "drop h q @ take t q = xs @ replicate ?k 0"
    using assms(1) by (auto simp: rep_def)
  have "(xs @ replicate ?k 0)[length xs := x] = (xs @ [x]) @ replicate (length q - h + t - length (xs @ [x])) 0"
    using assms(2) by (cases ?k) (auto simp: list_update_append)
  with assms r show ?thesis
    using window_update [OF r(1,2) assms(2), of x] by (auto simp: rep_def)
qed

definition free_slots :: "ptr_ring \<Rightarrow> nat" where
  "free_slots r = nat (r_size r - (r_consumer_head r - r_consumer_tail r)) - length (contents r)"

lemma producer_slot:
  assumes "ring_rep r xs" and "r_size r \<noteq> 0"
  shows "0 \<le> r_producer r" and "nat (r_producer r) = (nat (r_consumer_head r) + length xs) mod length (r_queue r)"
    and "nat (r_producer r) < length (r_queue r)"
proof -
  have s: "0 < r_size r" "r_producer r = (r_consumer_head r + int (length xs)) mod r_size r"
    "length (r_queue r) = nat (r_size r)" "0 \<le> r_consumer_head r"
    using assms by (auto simp: ring_rep_def)
  then show "0 \<le> r_producer r" by simp
  show e: "nat (r_producer r) = (nat (r_consumer_head r) + length xs) mod length (r_queue r)"
    using s by (simp add: nat_mod_distrib nat_add_distrib)
  show "nat (r_producer r) < length (r_queue r)"
    unfolding e using s by simp
qed

lemma mod_succ:
  fixes a n :: int
  assumes "0 < n"
  shows "(a + 1) mod n = (if a mod n + 1 \<ge> n then 0 else a mod n + 1)"
proof -
  have "(a + 1) mod n = (a mod n + 1) mod n"
    by (simp add: mod_add_left_eq)
  moreover have "0 \<le> a mod n" "a mod n < n"
    using assms by simp_all
  ultimately show ?thesis
    by (cases "a mod n + 1 = n") (auto simp: mod_pos_pos_trivial)
qed

lemma produce_rep:
  assumes "ring_rep r xs" and "x \<noteq> 0"
  shows "if r_size r = 0 \<or> length xs = nat (r_size r - (r_consumer_head r - r_consumer_tail r))
         then raw_ptr_ring_produce r x = (- ENOSPC, r)
         else fst (raw_ptr_ring_produce r x) = 0 \<and> ring_rep (snd (raw_ptr_ring_produce r x)) (xs @ [x])"
proof (cases "r_size r = 0")
  case True
  then show ?thesis by (simp add: raw_ptr_ring_produce_def)
next
  case False
  let ?q = "r_queue r" and ?h = "nat (r_consumer_head r)" and ?t = "nat (r_consumer_tail r)"
  let ?p = "nat (r_producer r)"
  have s: "0 < r_size r" "length ?q = nat (r_size r)" "0 \<le> r_consumer_tail r" "0 \<le> r_consumer_head r"
    and rep: "rep ?q ?h ?t xs"
    using assms(1) False by (auto simp: ring_rep_def)
  note p = producer_slot [OF assms(1) False]
  have ht: "?t \<le> ?h" "?h < length ?q" "length xs \<le> length ?q - ?h + ?t"
    using rep by (auto simp: rep_def)
  have room: "nat (r_size r - (r_consumer_head r - r_consumer_tail r)) = length ?q - ?h + ?t"
    using s ht by linarith
  have full: "slot ?q (r_producer r) = 0 \<longleftrightarrow> length xs < length ?q - ?h + ?t"
    using rep_slot [OF rep] p by (simp add: slot_def)
  show ?thesis
  proof (cases "length xs < length ?q - ?h + ?t")
    case True
    have "slot_store ?q (r_producer r) x = ?q[?p := x]"
      using p by (simp add: slot_store_def store_def)
    moreover have "rep (?q[?p := x]) ?h ?t (xs @ [x])"
      using rep_append [OF rep True assms(2)] p by simp
    moreover have "(if r_producer r + 1 \<ge> r_size r then 0 else r_producer r + 1) =
        (r_consumer_head r + int (length (xs @ [x]))) mod r_size r"
      using assms(1) False mod_succ [OF s(1), of "r_consumer_head r + int (length xs)"]
      by (simp add: ring_rep_def algebra_simps)
    ultimately show ?thesis
      using True full room False assms(1)
      by (auto simp: raw_ptr_ring_produce_def Let_def ring_rep_def)
  next
    case nofit: False
    with full room ht have "length xs = nat (r_size r - (r_consumer_head r - r_consumer_tail r))"
      "slot ?q (r_producer r) \<noteq> 0"
      by simp_all
    then show ?thesis
      by (simp add: raw_ptr_ring_produce_def)
  qed
qed

section \<open>Consuming\<close>

lemma peek_rep: "ring_rep r xs \<Longrightarrow> raw_ptr_ring_peek r = (case xs of [] \<Rightarrow> 0 | x # _ \<Rightarrow> x)"
proof -
  assume rep: "ring_rep r xs"
  show ?thesis
  proof (cases "r_size r = 0")
    case True
    with rep show ?thesis by (simp add: ring_rep_def raw_ptr_ring_peek_def)
  next
    case False
    let ?q = "r_queue r" and ?h = "nat (r_consumer_head r)" and ?t = "nat (r_consumer_tail r)"
    have r: "?t \<le> ?h" "?h < length ?q"
      "drop ?h ?q @ take ?t ?q = xs @ replicate (length ?q - ?h + ?t - length xs) 0"
      using rep False by (auto simp: ring_rep_def rep_def)
    have "?q ! ?h = (drop ?h ?q @ take ?t ?q) ! 0"
      using window_nth [OF r(1,2), of 0] r(2) by simp
    also have "\<dots> = (case xs of [] \<Rightarrow> 0 | x # _ \<Rightarrow> x)"
      unfolding r(3) using r(2) by (cases xs) (auto simp: nth_append)
    finally show ?thesis
      using False by (simp add: raw_ptr_ring_peek_def slot_def)
  qed
qed

text \<open>The three ways to discard an entry, on the array.\<close>

lemma rep_keep:
  assumes "rep q h t (x # xs)" and "Suc h < length q"
  shows "rep q (Suc h) t xs"
proof -
  have r: "t \<le> h" "h < length q" "0 \<notin> set (x # xs)" "length (x # xs) \<le> length q - h + t"
    "drop h q @ take t q = (x # xs) @ replicate (length q - h + t - length (x # xs)) 0"
    "0 \<notin> set (take (h - t) (drop t q))"
    using assms(1) unfolding rep_def by blast+
  have d: "drop h q = q ! h # drop (Suc h) q"
    using r(2) by (simp add: Cons_nth_drop_Suc)
  then have "q ! h = x" "drop (Suc h) q @ take t q = xs @ replicate (length q - Suc h + t - length xs) 0"
    using r(2,5) by auto
  moreover have "take (Suc h - t) (drop t q) = take (h - t) (drop t q) @ [q ! h]"
    using r(1,2) by (simp add: Suc_diff_le take_Suc_conv_app_nth)
  ultimately show ?thesis
    using r assms(2) by (auto simp: rep_def)
qed

lemma rep_flush:
  assumes "rep q h t (x # xs)" and "Suc h < length q"
  shows "rep (take t q @ replicate (Suc h - t) 0 @ drop (Suc h) q) (Suc h) (Suc h) xs"
proof -
  have "rep q (Suc h) t xs" using assms by (rule rep_keep)
  then have r: "t \<le> Suc h" "0 \<notin> set xs" "length xs \<le> length q - Suc h + t"
    "drop (Suc h) q @ take t q = xs @ replicate (length q - Suc h + t - length xs) 0"
    unfolding rep_def by blast+
  let ?q = "take t q @ replicate (Suc h - t) 0 @ drop (Suc h) q"
  have "drop (Suc h) ?q @ take (Suc h) ?q = (drop (Suc h) q @ take t q) @ replicate (Suc h - t) 0"
    using r(1) assms(2) by simp
  also have "\<dots> = xs @ replicate (length ?q - length xs) 0"
    unfolding r(4) using r(1,3) assms(2) by (simp add: replicate_add [symmetric])
  finally show ?thesis
    using r assms(2) by (auto simp: rep_def)
qed

lemma rep_wrap:
  assumes "rep q h t (x # xs)" and "Suc h = length q"
  shows "rep (take t q @ replicate (Suc h - t) 0 @ drop (Suc h) q) 0 0 xs"
proof -
  have r: "t \<le> h" "h < length q" "0 \<notin> set (x # xs)" "length (x # xs) \<le> length q - h + t"
    "drop h q @ take t q = (x # xs) @ replicate (length q - h + t - length (x # xs)) 0"
    using assms(1) unfolding rep_def by blast+
  have "drop h q = [q ! h]"
    using r(2) assms(2) by (simp add: Cons_nth_drop_Suc [symmetric])
  then have "take t q = xs @ replicate (t - length xs) 0"
    using r(5) assms(2) by simp
  moreover have "length xs \<le> t"
    using r(4) assms(2) by simp
  ultimately show ?thesis
    using r assms(2) by (auto simp: rep_def replicate_add [symmetric])
qed

lemma discard_rep:
  assumes "ring_rep r (x # xs)"
  shows "ring_rep (raw_ptr_ring_discard_one r) xs"
proof -
  let ?q = "r_queue r" and ?h = "nat (r_consumer_head r)" and ?t = "nat (r_consumer_tail r)"
  let ?flush = "r_consumer_head r + 1 - r_consumer_tail r \<ge> r_batch r"
  have s: "0 < r_size r" "length ?q = nat (r_size r)" "0 \<le> r_consumer_tail r" "0 \<le> r_consumer_head r"
    "1 \<le> r_batch r" "r_producer r = (r_consumer_head r + int (length (x # xs))) mod r_size r"
    and rep: "rep ?q ?h ?t (x # xs)"
    using assms by (auto simp: ring_rep_def split: if_splits)
  have ht: "?t \<le> ?h" "?h < length ?q"
    using rep by (auto simp: rep_def)
  have h: "nat (r_consumer_head r + 1) = Suc ?h"
    using s(4) by simp
  have z: "zero_down ?q (r_consumer_head r) (r_consumer_tail r) =
      take ?t ?q @ replicate (Suc ?h - ?t) 0 @ drop (Suc ?h) ?q"
    using zero_down_list [of "r_consumer_tail r" "r_consumer_head r" ?q] s(3,4) ht h
    by (simp add: nat_diff_distrib)
  consider (wrap) "r_consumer_head r + 1 = r_size r" | (flush) "r_consumer_head r + 1 < r_size r" "?flush"
    | (keep) "r_consumer_head r + 1 < r_size r" "\<not> ?flush"
    using ht(2) s(1,2,4) by linarith
  then show ?thesis
  proof cases
    case wrap
    then have "Suc ?h = length ?q" using s by simp
    note rep' = rep_wrap [OF rep this]
    have "r_producer r = int (length xs) mod r_size r"
      using s(6) wrap by (metis add.assoc add.commute length_Cons mod_add_self1 of_nat_Suc)
    with wrap s rep' show ?thesis
      by (simp add: raw_ptr_ring_discard_one_def Let_def z ring_rep_def)
  next
    case flush
    then have "Suc ?h < length ?q" using s by simp
    note rep' = rep_flush [OF rep this]
    from flush s rep' h show ?thesis
      by (simp add: raw_ptr_ring_discard_one_def Let_def z ring_rep_def algebra_simps)
  next
    case keep
    then have "Suc ?h < length ?q" using s by simp
    note rep' = rep_keep [OF rep this]
    from keep s rep' h show ?thesis
      by (simp add: raw_ptr_ring_discard_one_def Let_def ring_rep_def algebra_simps)
  qed
qed

lemma consume_rep:
  assumes "ring_rep r xs"
  shows "raw_ptr_ring_consume r = (case xs of [] \<Rightarrow> (0, r) | x # _ \<Rightarrow> (x, raw_ptr_ring_discard_one r))"
    and "ring_rep (snd (raw_ptr_ring_consume r)) (tl xs)"
proof -
  have nz: "xs = x # ys \<Longrightarrow> x \<noteq> 0" for x ys
    using assms by (auto simp: ring_rep_def rep_def split: if_splits)
  then show c: "raw_ptr_ring_consume r = (case xs of [] \<Rightarrow> (0, r) | x # _ \<Rightarrow> (x, raw_ptr_ring_discard_one r))"
    using peek_rep [OF assms] by (auto simp: raw_ptr_ring_consume_def Let_def split: list.splits)
  show "ring_rep (snd (raw_ptr_ring_consume r)) (tl xs)"
    unfolding c using assms discard_rep by (cases xs) auto
qed

lemma consume_from_rep:
  assumes "ring_rep r xs" and "0 \<le> i" and "i \<le> n" and "nat n \<le> length array"
  defines "k \<equiv> min (nat (n - i)) (length xs)"
  shows "\<exists>r'. consume_from i r array n =
           (i + int k, take (nat i) array @ take k xs @ drop (nat i + k) array, r') \<and> ring_rep r' (drop k xs)"
  using assms unfolding k_def
proof (induction i r array n arbitrary: xs rule: consume_from.induct)
  case (1 i r array n)
  show ?case
  proof (cases "i < n \<and> xs \<noteq> []")
    case True
    then obtain x ys where xs: "xs = x # ys" by (cases xs) auto
    with 1(2) have nz: "x \<noteq> 0"
      by (auto simp: ring_rep_def rep_def split: if_splits)
    have c: "raw_ptr_ring_consume r = (x, raw_ptr_ring_discard_one r)"
      using consume_rep(1) [OF 1(2)] xs by simp
    have rep: "ring_rep (raw_ptr_ring_discard_one r) ys"
      using discard_rep 1(2) xs by blast
    have i: "nat (i + 1) = Suc (nat i)" "nat i < length array"
      using 1(3,5) True by linarith+
    then have st: "slot_store array i x = array[nat i := x]"
      using 1(3) by (simp add: slot_store_def store_def)
    obtain r' where r': "consume_from (i + 1) (raw_ptr_ring_discard_one r) (array[nat i := x]) n =
        (i + 1 + int (min (nat (n - (i + 1))) (length ys)),
         take (nat (i + 1)) (array[nat i := x]) @ take (min (nat (n - (i + 1))) (length ys)) ys @
           drop (nat (i + 1) + min (nat (n - (i + 1))) (length ys)) (array[nat i := x]), r')"
      "ring_rep r' (drop (min (nat (n - (i + 1))) (length ys)) ys)"
      using 1(1) [of x "raw_ptr_ring_discard_one r" ys] c nz rep 1(3-5) True st by auto
    have m: "min (nat (n - i)) (length xs) = Suc (min (nat (n - (i + 1))) (length ys))"
      using True xs 1(3) by auto
    have "take (Suc (nat i)) (array[nat i := x]) = take (nat i) array @ [x]"
      using i(2) by (simp add: take_Suc_conv_app_nth)
    moreover have "consume_from i r array n = consume_from (i + 1) (raw_ptr_ring_discard_one r) (array[nat i := x]) n"
      using True nz by (subst consume_from.simps) (simp add: c st)
    ultimately show ?thesis
      unfolding m using r' i xs by simp
  next
    case False
    have "consume_from i r array n = (i, array, r)"
      using False 1(4) consume_rep(1) [OF 1(2)]
      by (subst consume_from.simps) (auto split: list.splits)
    then show ?thesis
      using False 1(2,4) by auto
  qed
qed

lemma consume_batched_rep:
  assumes "ring_rep r xs" and "0 \<le> n" and "nat n \<le> length array"
  shows "\<exists>r'. raw_ptr_ring_consume_batched r array n =
           (int (min (nat n) (length xs)), take (nat n) xs @ drop (min (nat n) (length xs)) array, r') \<and>
         ring_rep r' (drop (nat n) xs)"
  using consume_from_rep [OF assms(1) order.refl assms(2,3)] assms(2)
  by (auto simp: raw_ptr_ring_consume_batched_def min_def)

section \<open>Unconsuming\<close>

text \<open>With no consumed entries left in the array the window is the whole ring.\<close>

lemma rep_clean:
  assumes "rep q h t xs"
  shows "rep (take t q @ replicate (h - t) 0 @ drop h q) h h xs"
proof -
  have r: "t \<le> h" "h < length q" "0 \<notin> set xs" "length xs \<le> length q - h + t"
    "drop h q @ take t q = xs @ replicate (length q - h + t - length xs) 0"
    using assms unfolding rep_def by blast+
  let ?q = "take t q @ replicate (h - t) 0 @ drop h q"
  have "drop h ?q @ take h ?q = (drop h q @ take t q) @ replicate (h - t) 0"
    using r(1,2) by simp
  also have "\<dots> = xs @ replicate (length ?q - length xs) 0"
    unfolding r(5) using r(1,2,4) by (simp add: replicate_add [symmetric])
  finally show ?thesis
    using r by (auto simp: rep_def)
qed

lemma rep_push:
  assumes "rep q h h xs"
  defines "h' \<equiv> (if h = 0 then length q - 1 else h - 1)"
  shows "q ! h' = 0 \<longleftrightarrow> length xs < length q"
    and "length xs < length q \<Longrightarrow> x \<noteq> 0 \<Longrightarrow> rep (q[h' := x]) h' h' (x # xs)"
proof -
  have r: "h < length q" "0 \<notin> set xs" "length xs \<le> length q"
    "drop h q @ take h q = xs @ replicate (length q - length xs) 0"
    using assms(1) unfolding rep_def by auto
  have h': "h' = (h + (length q - 1)) mod length q" "h' < length q"
    using r(1) by (auto simp: h'_def mod_if)
  have "q ! h' = (drop h q @ take h q) ! (length q - 1)"
    using window_nth [of h h q "length q - 1"] r(1) h' by simp
  then have n: "q ! h' = (xs @ replicate (length q - length xs) 0) ! (length q - 1)"
    unfolding r(4) .
  show "q ! h' = 0 \<longleftrightarrow> length xs < length q"
  proof (cases "length xs < length q")
    case True
    then show ?thesis
      unfolding n by (auto simp: nth_append)
  next
    case False
    then have "q ! h' \<in> set xs"
      using r(1,3) n by (simp add: nth_append)
    with False r(2) show ?thesis by auto
  qed
  assume lt: "length xs < length q" and "x \<noteq> 0"
  have w: "drop h' q @ take h' q = q ! h' # butlast (drop h q @ take h q)"
  proof (cases "h = 0")
    case True
    then show ?thesis
      using r(1) by (simp add: h'_def Cons_nth_drop_Suc [symmetric] butlast_conv_take)
  next
    case False
    then have "h = Suc h'" by (simp add: h'_def)
    then have "drop h' q = q ! h' # drop h q" "take h q \<noteq> []" "butlast (take h q) = take h' q"
      using Cons_nth_drop_Suc [OF h'(2)] r(1) by (auto simp: butlast_take)
    then show ?thesis by (simp add: butlast_append)
  qed
  have b: "butlast (xs @ replicate (length q - length xs) 0) = xs @ replicate (length q - length xs - 1) 0"
    using lt by (cases "length q - length xs") (simp_all add: butlast_append replicate_append_same [symmetric])
  have "drop h' (q[h' := x]) @ take h' (q[h' := x]) = (drop h' q @ take h' q)[0 := x]"
    using h'(2) by (simp add: drop_update_swap list_update_append)
  also have "\<dots> = (x # xs) @ replicate (length q - length (x # xs)) 0"
    unfolding w r(4) b by simp
  finally show "rep (q[h' := x]) h' h' (x # xs)"
    using h'(2) r(2) lt \<open>x \<noteq> 0\<close> by (auto simp: rep_def)
qed

lemma push_one:
  assumes "ring_rep r xs" and "r_consumer_tail r = r_consumer_head r" and "r_size r \<noteq> 0"
  defines "head \<equiv> (if r_consumer_head r - 1 < 0 then r_size r - 1 else r_consumer_head r - 1)"
  shows "slot (r_queue r) head = 0 \<longleftrightarrow> length xs < nat (r_size r)"
    and "length xs < nat (r_size r) \<Longrightarrow> x \<noteq> 0 \<Longrightarrow>
         ring_rep (r\<lparr>r_queue := slot_store (r_queue r) head x, r_consumer_tail := head,
                     r_consumer_head := head\<rparr>) (x # xs)"
proof -
  let ?q = "r_queue r" and ?h = "nat (r_consumer_head r)"
  let ?h' = "if ?h = 0 then length ?q - 1 else ?h - 1"
  have s: "0 < r_size r" "length ?q = nat (r_size r)" "0 \<le> r_consumer_head r" "1 \<le> r_batch r"
    "r_producer r = (r_consumer_head r + int (length xs)) mod r_size r"
    and rep: "rep ?q ?h ?h xs"
    using assms(1-3) by (auto simp: ring_rep_def)
  have h: "?h < length ?q"
    using rep by (simp add: rep_def)
  have h': "nat head = ?h'" "0 \<le> head" "nat head < length ?q"
    using s h by (auto simp: head_def)
  show "slot ?q head = 0 \<longleftrightarrow> length xs < nat (r_size r)"
    using rep_push(1) [OF rep] h' s by (simp add: slot_def)
  assume "length xs < nat (r_size r)" and "x \<noteq> 0"
  then have "rep (?q[nat head := x]) (nat head) (nat head) (x # xs)"
    using rep_push(2) [OF rep, of x] h' s by simp
  moreover have "slot_store ?q head x = ?q[nat head := x]"
    using h' by (simp add: slot_store_def store_def)
  moreover have "(head + int (length (x # xs))) mod r_size r = r_producer r"
  proof (cases "r_consumer_head r = 0")
    case True
    then show ?thesis
      using s(5) by (simp add: head_def add.commute [of 1])
  next
    case False
    then show ?thesis
      using s(3,5) by (simp add: head_def)
  qed
  ultimately show "ring_rep (r\<lparr>r_queue := slot_store ?q head x, r_consumer_tail := head,
      r_consumer_head := head\<rparr>) (x # xs)"
    using s h'(2) by (simp add: ring_rep_def)
qed

lemma push_back_rep:
  assumes "ring_rep r xs" and "r_consumer_tail r = r_consumer_head r" and "r_size r \<noteq> 0"
    and "n \<le> length batch" and "0 \<notin> set batch"
  shows "\<exists>r'. push_back r batch n = (r', n - min n (nat (r_size r) - length xs)) \<and> r_size r' = r_size r \<and>
           ring_rep r' (drop (n - min n (nat (r_size r) - length xs)) (take n batch) @ xs)"
  using assms
proof (induction n arbitrary: r xs)
  case 0
  then show ?case by simp
next
  case (Suc n)
  let ?head = "if r_consumer_head r - 1 < 0 then r_size r - 1 else r_consumer_head r - 1"
  note p = push_one [OF Suc.prems(1-3)]
  show ?case
  proof (cases "length xs < nat (r_size r)")
    case False
    then have "push_back r batch (Suc n) = (r, Suc n)"
      using p(1) by (simp add: Let_def)
    with False Suc.prems(1) show ?thesis by simp
  next
    case True
    let ?r = "r\<lparr>r_queue := slot_store (r_queue r) ?head (batch ! n), r_consumer_tail := ?head,
      r_consumer_head := ?head\<rparr>"
    have nz: "batch ! n \<noteq> 0"
      using Suc.prems(4,5) by (metis Suc_le_lessD nth_mem)
    have e: "push_back r batch (Suc n) = push_back ?r batch n"
      using p(1) True by (simp add: Let_def)
    have "ring_rep ?r (batch ! n # xs)"
      using p(2) [OF True nz] .
    from Suc.IH [OF this] Suc.prems(3-5) obtain r' where r':
      "push_back ?r batch n = (r', n - min n (nat (r_size r) - Suc (length xs)))" "r_size r' = r_size r"
      "ring_rep r' (drop (n - min n (nat (r_size r) - Suc (length xs))) (take n batch) @ batch ! n # xs)"
      by auto
    have m: "min (Suc n) (nat (r_size r) - length xs) = Suc (min n (nat (r_size r) - Suc (length xs)))"
      using True by linarith
    have "take (Suc n) batch = take n batch @ [batch ! n]"
      using Suc.prems(4) by (simp add: take_Suc_conv_app_nth)
    then show ?thesis
      unfolding e m using r' Suc.prems(4) by simp
  qed
qed

lemma destroy_rest_list: "n \<le> length batch \<Longrightarrow> destroy_rest batch n = rev (take n batch)"
  by (induction n) (simp_all add: take_Suc_conv_app_nth)

lemma unconsume_rep:
  assumes "ring_rep r xs" and "n \<le> length batch" and "0 \<notin> set batch"
  defines "k \<equiv> min n (nat (r_size r) - length xs)"
  shows "\<exists>r'. unconsume_locked batch n r = (rev (take (n - k) batch), r') \<and>
           ring_rep r' (drop (n - k) (take n batch) @ xs) \<and> r_size r' = r_size r"
proof (cases "r_size r = 0")
  case True
  with assms show ?thesis
    by (auto simp: unconsume_locked_def ring_rep_def destroy_rest_list)
next
  case False
  let ?q = "r_queue r" and ?h = "nat (r_consumer_head r)" and ?t = "nat (r_consumer_tail r)"
  have s: "0 < r_size r" "length ?q = nat (r_size r)" "0 \<le> r_consumer_tail r" "0 \<le> r_consumer_head r"
    and rep: "rep ?q ?h ?t xs"
    using assms(1) False by (auto simp: ring_rep_def)
  have ht: "?t \<le> ?h" "?h < length ?q" "r_consumer_tail r \<le> r_consumer_head r"
    using rep s by (auto simp: rep_def)
  let ?r = "r\<lparr>r_queue := zero_down ?q (r_consumer_head r - 1) (r_consumer_tail r),
    r_consumer_tail := r_consumer_head r\<rparr>"
  have "zero_down ?q (r_consumer_head r - 1) (r_consumer_tail r) =
      take ?t ?q @ replicate (?h - ?t) 0 @ drop ?h ?q"
    using zero_down_list [of "r_consumer_tail r" "r_consumer_head r - 1" ?q] s ht
    by (simp add: nat_diff_distrib)
  then have "ring_rep ?r xs"
    using assms(1) rep_clean [OF rep] s ht by (simp add: ring_rep_def)
  from push_back_rep [OF this _ _ assms(2,3)] False obtain r' where
    "push_back ?r batch n = (r', n - k)" "r_size r' = r_size r" "ring_rep r' (drop (n - k) (take n batch) @ xs)"
    unfolding k_def by auto
  then show ?thesis
    using False assms(2) by (simp add: unconsume_locked_def Let_def destroy_rest_list)
qed

section \<open>Initialising and resizing\<close>

text \<open>
  What is known of the environment: \<open>kvmalloc_array\<close> with \<open>__GFP_ZERO\<close> yields a zeroed array of the
  requested length or fails, and no allocation reaches \<open>2 ^ 31\<close> pointers.
\<close>

definition env_ok :: "ring_env \<Rightarrow> bool" where
  "env_ok e \<longleftrightarrow> 0 \<le> smp_cache_bytes e \<and> kmalloc_max_size e div 8 < 2 ^ 31 \<and>
     (\<forall>n q. kvmalloc_array e n = Some q \<longrightarrow> q = replicate n 0)"

definition int_ok :: "int \<Rightarrow> bool" where
  "int_ok x \<longleftrightarrow> - (2 ^ 31) \<le> x \<and> x < 2 ^ 31"

lemma alloc_some:
  assumes "env_ok e" and "int_ok sz" and "raw_ptr_ring_init_queue_alloc e sz = Some q"
  shows "0 \<le> sz \<and> q = replicate (nat sz) 0"
proof -
  have u: "\<not> nat (sz mod 2 ^ 32) > kmalloc_max_size e div 8" "kvmalloc_array e (nat (sz mod 2 ^ 32)) = Some q"
    using assms(3) by (auto simp: raw_ptr_ring_init_queue_alloc_def Let_def split: if_splits)
  have "sz mod 2 ^ 32 < 2 ^ 31"
    using u(1) assms(1) by (auto simp: env_ok_def)
  moreover have "sz mod 2 ^ 32 = sz + 2 ^ 32" if "sz < 0"
    using that assms(2) mod_add_self2 [of sz "2 ^ 32"] mod_pos_pos_trivial [of "sz + 2 ^ 32" "2 ^ 32"]
    by (simp add: int_ok_def)
  ultimately have sz: "0 \<le> sz"
    using assms(2) by (cases "sz < 0") (auto simp: int_ok_def)
  then have "sz mod 2 ^ 32 = sz"
    using assms(2) by (simp add: int_ok_def)
  with sz have "0 \<le> sz \<and> sz mod 2 ^ 32 = sz" by simp
  then show ?thesis
    using u(2) assms(1) by (simp add: env_ok_def)
qed

lemma set_size_fields:
  assumes "0 \<le> smp_cache_bytes e"
  shows "r_size (raw_ptr_ring_set_size e r sz) = sz" and "1 \<le> r_batch (raw_ptr_ring_set_size e r sz)"
    and "r_queue (raw_ptr_ring_set_size e r sz) = r_queue r"
    and "r_producer_lock (raw_ptr_ring_set_size e r sz) = r_producer_lock r"
    and "r_consumer_lock (raw_ptr_ring_set_size e r sz) = r_consumer_lock r"
proof -
  have "0 \<le> smp_cache_bytes e * 2 div 8"
    using assms by simp
  then show "r_size (raw_ptr_ring_set_size e r sz) = sz" "1 \<le> r_batch (raw_ptr_ring_set_size e r sz)"
    "r_queue (raw_ptr_ring_set_size e r sz) = r_queue r"
    "r_producer_lock (raw_ptr_ring_set_size e r sz) = r_producer_lock r"
    "r_consumer_lock (raw_ptr_ring_set_size e r sz) = r_consumer_lock r"
    by (auto simp: raw_ptr_ring_set_size_def Let_def)
qed

text \<open>A ring whose indices have been reset, over an array that starts with the entries.\<close>

lemma fresh_rep:
  assumes "0 \<le> r_size r" and "1 \<le> r_batch r" and "0 \<notin> set xs" and "int (length xs) \<le> r_size r"
    and "r_queue r = xs @ replicate (nat (r_size r) - length xs) 0"
    and "r_consumer_head r = 0" and "r_consumer_tail r = 0"
    and "r_producer r = (if int (length xs) \<ge> r_size r then 0 else int (length xs))"
  shows "ring_rep r xs"
proof (cases "r_size r = 0")
  case False
  have "rep (r_queue r) 0 0 xs"
    using assms False by (auto simp: rep_def)
  moreover have "r_producer r = int (length xs) mod r_size r"
    using assms(1,4,8) False by (cases "int (length xs) = r_size r") simp_all
  ultimately show ?thesis
    using assms False by (auto simp: ring_rep_def)
qed (use assms in \<open>auto simp: ring_rep_def\<close>)

lemma init_rep:
  assumes "env_ok e" and "int_ok sz"
  shows "case raw_ptr_ring_init_queue_alloc e sz of
           None \<Rightarrow> fst (ptr_ring_init e r sz) = - ENOMEM
         | Some q \<Rightarrow> fst (ptr_ring_init e r sz) = 0 \<and> ring_rep (snd (ptr_ring_init e r sz)) [] \<and>
             r_size (snd (ptr_ring_init e r sz)) = sz \<and>
             \<not> r_producer_lock (snd (ptr_ring_init e r sz)) \<and> \<not> r_consumer_lock (snd (ptr_ring_init e r sz))"
proof (cases "raw_ptr_ring_init_queue_alloc e sz")
  case (Some q)
  have "0 \<le> smp_cache_bytes e"
    using assms(1) by (simp add: env_ok_def)
  note f = set_size_fields [OF this]
  from alloc_some [OF assms Some] Some f show ?thesis
    by (auto simp: ptr_ring_init_def Let_def intro!: fresh_rep)
qed (simp add: ptr_ring_init_def)

lemma move_entries_rep:
  assumes "ring_rep r xs" and "length ys \<le> nat sz"
  defines "zs \<equiv> take (nat sz - length ys) xs"
  shows "\<exists>r'. move_entries destroy sz r (ys @ replicate (nat sz - length ys) 0) (int (length ys)) log =
           Some (r', (ys @ zs) @ replicate (nat sz - length (ys @ zs)) 0, int (length (ys @ zs)),
                 log @ (if destroy then drop (length zs) xs else []))"
  using assms(1,2) unfolding zs_def
proof (induction xs arbitrary: r ys log)
  case Nil
  then have "raw_ptr_ring_consume r = (0, r)"
    using consume_rep(1) by fastforce
  then show ?case
    by (subst move_entries.simps) simp
next
  case (Cons x xs)
  have c: "raw_ptr_ring_consume r = (x, raw_ptr_ring_discard_one r)"
    using consume_rep(1) [OF Cons.prems(1)] by simp
  have nz: "x \<noteq> 0"
    using Cons.prems(1) by (auto simp: ring_rep_def rep_def split: if_splits)
  have rep: "ring_rep (raw_ptr_ring_discard_one r) xs"
    using Cons.prems(1) by (rule discard_rep)
  show ?case
  proof (cases "length ys < nat sz")
    case True
    then obtain k where k: "nat sz - length ys = Suc k" "nat sz - Suc (length ys) = k"
      by (metis Suc_diff_Suc)
    have "int (length ys) < sz"
      using True by linarith
    have "slot_store (ys @ replicate (Suc k) 0) (int (length ys)) x = (ys @ [x]) @ replicate k 0"
      by (simp add: slot_store_def store_def list_update_append)
    then have "move_entries destroy sz r (ys @ replicate (Suc k) 0) (int (length ys)) log =
        move_entries destroy sz (raw_ptr_ring_discard_one r) ((ys @ [x]) @ replicate k 0) (int (length (ys @ [x]))) log"
      using True \<open>int (length ys) < sz\<close> by (subst move_entries.simps) (simp add: c nz add.commute)
    then show ?thesis
      using Cons.IH [OF rep, of "ys @ [x]" log] True k by (cases destroy) simp_all
  next
    case False
    then have "move_entries destroy sz r (ys @ replicate (nat sz - length ys) 0) (int (length ys)) log =
        move_entries destroy sz (raw_ptr_ring_discard_one r) (ys @ replicate (nat sz - length ys) 0) (int (length ys))
          (if destroy then log @ [x] else log)"
      using Cons.prems(2) by (subst move_entries.simps) (simp add: c nz)
    then show ?thesis
      using Cons.IH [OF rep Cons.prems(2), of "if destroy then log @ [x] else log"] False by (cases destroy) simp_all
  qed
qed

lemma swap_queue_rep:
  assumes "ring_rep r xs" and "0 \<le> sz" and "0 \<le> smp_cache_bytes e"
  shows "\<exists>old r'. raw_ptr_ring_swap_queue e destroy (replicate (nat sz) 0) sz r =
           Some (old, if destroy then drop (nat sz) xs else [], r') \<and>
           ring_rep r' (take (nat sz) xs) \<and> r_size r' = sz"
proof -
  from move_entries_rep [OF assms(1), of "[]" sz destroy "[]"] obtain r1 where
    m: "move_entries destroy sz r (replicate (nat sz) 0) 0 [] =
      Some (r1, take (nat sz) xs @ replicate (nat sz - length (take (nat sz) xs)) 0,
            int (length (take (nat sz) xs)), if destroy then drop (length (take (nat sz) xs)) xs else [])"
    by auto
  have d: "drop (length (take (nat sz) xs)) xs = drop (nat sz) xs"
    by (simp add: min_def)
  have nz: "0 \<notin> set (take (nat sz) xs)"
    using assms(1) by (auto simp: ring_rep_def rep_def split: if_splits dest: in_set_takeD)
  note f = set_size_fields [OF assms(3)]
  show ?thesis
    unfolding raw_ptr_ring_swap_queue_def m d using assms(2) nz f
    by (auto simp: Let_def simp del: length_take intro!: fresh_rep) auto
qed

section \<open>The FIFO interface\<close>

text \<open>
  What a user of a bounded queue relies on.  \<open>put\<close> returns 0 when it took the element, \<open>get\<close> returns
  \<open>null\<close> when the queue is empty.
\<close>

datatype 'a queue_op = Put 'a | Get

text \<open>A sequence of operations, with the elements that were accepted and delivered.\<close>

fun run_ops :: "('s \<Rightarrow> 'a \<Rightarrow> int \<times> 's) \<Rightarrow> ('s \<Rightarrow> 'a \<times> 's) \<Rightarrow> 'a \<Rightarrow> 'a queue_op list \<Rightarrow> 's \<Rightarrow>
    'a list \<times> 'a list \<times> 's" where
  "run_ops put get null [] s = ([], [], s)"
| "run_ops put get null (Put x # ops) s =
     (let (ret, s) = put s x; (acc, del, s) = run_ops put get null ops s
      in (if ret = 0 then x # acc else acc, del, s))"
| "run_ops put get null (Get # ops) s =
     (let (v, s) = get s; (acc, del, s) = run_ops put get null ops s
      in (acc, if v = null then del else v # del, s))"

definition op_ok :: "('a \<Rightarrow> bool) \<Rightarrow> 'a queue_op \<Rightarrow> bool" where
  "op_ok ok p \<longleftrightarrow> (case p of Put x \<Rightarrow> ok x | Get \<Rightarrow> True)"

locale fifo =
  fixes inv :: "'s \<Rightarrow> bool" and elems :: "'s \<Rightarrow> 'a list" and ok :: "'a \<Rightarrow> bool" and null :: 'a
    and put :: "'s \<Rightarrow> 'a \<Rightarrow> int \<times> 's" and get :: "'s \<Rightarrow> 'a \<times> 's"
  assumes inv_put: "inv s \<Longrightarrow> ok x \<Longrightarrow> inv (snd (put s x))"
    and elems_put: "inv s \<Longrightarrow> ok x \<Longrightarrow>
      elems (snd (put s x)) = (if fst (put s x) = 0 then elems s @ [x] else elems s)"
    and inv_get: "inv s \<Longrightarrow> inv (snd (get s))"
    and elems_get: "inv s \<Longrightarrow> elems (snd (get s)) = tl (elems s)"
    and get_hd: "inv s \<Longrightarrow> elems s = x # xs \<Longrightarrow> fst (get s) = x \<and> x \<noteq> null"
    and get_empty: "inv s \<Longrightarrow> elems s = [] \<Longrightarrow> fst (get s) = null"
begin

lemma get_cases:
  assumes "inv s"
  shows "(if fst (get s) = null then [] else [fst (get s)]) @ elems (snd (get s)) = elems s"
  using assms get_hd get_empty elems_get by (cases "elems s") auto

lemma history:
  assumes "inv s" and "list_all (op_ok ok) ops" and "run_ops put get null ops s = (acc, del, s')"
  shows "inv s' \<and> del @ elems s' = elems s @ acc"
  using assms
proof (induction ops arbitrary: s acc del)
  case (Cons p ops)
  show ?case
  proof (cases p)
    case (Put x)
    obtain ret s1 where ps: "put s x = (ret, s1)" by force
    obtain acc1 where "run_ops put get null ops s1 = (acc1, del, s')"
      and acc: "acc = (if ret = 0 then x # acc1 else acc1)"
      using Cons.prems(3) Put ps by (auto split: prod.splits)
    moreover have "ok x" using Cons.prems(2) Put by (simp add: op_ok_def)
    ultimately show ?thesis
      using Cons.IH [of s1 acc1 del] Cons.prems(1,2) inv_put [of s x] elems_put [of s x] ps by auto
  next
    case Get
    obtain v s1 where gs: "get s = (v, s1)" by force
    obtain del1 where "run_ops put get null ops s1 = (acc, del1, s')"
      and del: "del = (if v = null then del1 else v # del1)"
      using Cons.prems(3) Get gs by (auto split: prod.splits)
    then show ?thesis
      using Cons.IH [of s1 acc del1] Cons.prems(1,2) inv_get [of s] get_cases [of s] gs
      by (auto split: if_splits)
  qed
qed simp

end

interpretation ring: fifo ring_inv contents "\<lambda>x. x \<noteq> 0" 0 raw_ptr_ring_produce raw_ptr_ring_consume
proof
  fix r and x :: ptr
  assume "ring_inv r"
  then have rep: "ring_rep r (contents r)" by (simp add: ring_inv_def)
  note c = consume_rep [OF rep]
  show "ring_inv (snd (raw_ptr_ring_consume r))"
    using c(2) ring_inv_iff by blast
  show "contents (snd (raw_ptr_ring_consume r)) = tl (contents r)"
    using c(2) by (rule contents_rep)
  show "contents r = [] \<Longrightarrow> fst (raw_ptr_ring_consume r) = 0"
    using c(1) by simp
  show "fst (raw_ptr_ring_consume r) = y \<and> y \<noteq> 0" if "contents r = y # ys" for y ys
    using c(1) that rep by (auto simp: ring_rep_def rep_def split: if_splits)
  assume "x \<noteq> 0"
  note p = produce_rep [OF rep this]
  show "ring_inv (snd (raw_ptr_ring_produce r x))"
    using p \<open>ring_inv r\<close> ring_inv_iff by (auto split: if_splits)
  show "contents (snd (raw_ptr_ring_produce r x)) =
      (if fst (raw_ptr_ring_produce r x) = 0 then contents r @ [x] else contents r)"
    using p contents_rep by (auto simp: ENOSPC_def split: if_splits)
qed

end
