(* ===== verification/Ring_Properties.thy ===== *)
theory Ring_Properties
  imports Ring_Fifo
begin

text \<open>
  The properties of the pointer ring: the outcome of every operation, FIFO order over any
  sequence of operations, conservation of the entries, and the locking of the public
  operations.
\<close>

section \<open>Locking\<close>

lemma set_locked_simps [simp]:
  "r_queue (set_locked l b r) = r_queue r" "r_size (set_locked l b r) = r_size r"
  "r_batch (set_locked l b r) = r_batch r" "r_producer (set_locked l b r) = r_producer r"
  "r_consumer_head (set_locked l b r) = r_consumer_head r"
  "r_consumer_tail (set_locked l b r) = r_consumer_tail r"
  by (cases l; simp)+

lemma set_locked_rep [simp]: "ring_rep (set_locked l b r) xs = ring_rep r xs"
  by (simp add: ring_rep_def)

lemma set_locked_same: "is_locked l r = b \<Longrightarrow> set_locked l b r = r"
  by (cases l) auto

lemma is_locked_set [simp]: "is_locked l (set_locked l b r) = b"
  by (cases l) auto

lemma set_locked_twice [simp]: "set_locked l b (set_locked l c r) = set_locked l b r"
  by (cases l) auto

lemmas spin_defs = spin_lock_def spin_lock_bh_def spin_lock_irq_def spin_lock_irqsave_def
  spin_unlock_def spin_unlock_bh_def spin_unlock_irq_def spin_unlock_irqrestore_def
  arch_spin_lock_def arch_spin_unlock_def do_raw_spin_lock_def do_raw_spin_unlock_def preempt_disable_def preempt_enable_def
  local_bh_disable_lock_def local_bh_enable_lock_def local_irq_disable_def local_irq_enable_def
  local_irq_save_def local_irq_restore_def

text \<open>
  A raw operation that neither looks at the locks nor changes them, and what the four lock
  disciplines then make of it.
\<close>

definition lock_free :: "(ptr_ring \<Rightarrow> 'v \<times> ptr_ring) \<Rightarrow> bool" where
  "lock_free f \<longleftrightarrow> (\<forall>l b r. f (set_locked l b r) = map_prod id (set_locked l b) (f r) \<and>
     (is_locked l (snd (f r)) = is_locked l r))"

lemma locked_result:
  assumes "lock_free f"
  shows "locked l (on_ring f) s = (if is_locked l (k_ring s) then None
           else Some (fst (f (k_ring s)), s\<lparr>k_ring := snd (f (k_ring s))\<rparr>))"
    and "locked_irq l (on_ring f) s = (if is_locked l (k_ring s) then None
           else Some (fst (f (k_ring s)), s\<lparr>k_ring := snd (f (k_ring s)), k_irqs_enabled := True\<rparr>))"
    and "locked_any l (on_ring f) s = (if is_locked l (k_ring s) then None
           else Some (fst (f (k_ring s)), s\<lparr>k_ring := snd (f (k_ring s))\<rparr>))"
    and "locked_bh l (on_ring f) s = (if is_locked l (k_ring s) then None
           else Some (fst (f (k_ring s)), s\<lparr>k_ring := snd (f (k_ring s))\<rparr>))"
proof -
  have f: "f (set_locked l True r) = map_prod id (set_locked l True) (f r)" for r
    using assms by (simp add: lock_free_def)
  have u: "\<not> is_locked l (k_ring s) \<Longrightarrow> set_locked l False (snd (f (k_ring s))) = snd (f (k_ring s))"
    using assms by (intro set_locked_same) (simp add: lock_free_def)
  show "locked l (on_ring f) s = (if is_locked l (k_ring s) then None
           else Some (fst (f (k_ring s)), s\<lparr>k_ring := snd (f (k_ring s))\<rparr>))"
    using u by (cases s) (auto simp: locked_def on_ring_def spin_defs f case_prod_beta)
  show "locked_irq l (on_ring f) s = (if is_locked l (k_ring s) then None
           else Some (fst (f (k_ring s)), s\<lparr>k_ring := snd (f (k_ring s)), k_irqs_enabled := True\<rparr>))"
    using u by (cases s) (auto simp: locked_irq_def on_ring_def spin_defs f case_prod_beta)
  show "locked_any l (on_ring f) s = (if is_locked l (k_ring s) then None
           else Some (fst (f (k_ring s)), s\<lparr>k_ring := snd (f (k_ring s))\<rparr>))"
    using u by (cases s) (auto simp: locked_any_def on_ring_def spin_defs f case_prod_beta)
  show "locked_bh l (on_ring f) s = (if is_locked l (k_ring s) then None
           else Some (fst (f (k_ring s)), s\<lparr>k_ring := snd (f (k_ring s))\<rparr>))"
    using u by (cases s) (auto simp: locked_bh_def on_ring_def spin_defs f case_prod_beta)
qed

lemma lock_freeI:
  assumes "\<And>b r. f (r\<lparr>r_producer_lock := b\<rparr>) = map_prod id (\<lambda>r. r\<lparr>r_producer_lock := b\<rparr>) (f r)"
    and "\<And>b r. f (r\<lparr>r_consumer_lock := b\<rparr>) = map_prod id (\<lambda>r. r\<lparr>r_consumer_lock := b\<rparr>) (f r)"
    and "\<And>r. r_producer_lock (snd (f r)) = r_producer_lock r"
    and "\<And>r. r_consumer_lock (snd (f r)) = r_consumer_lock r"
  shows "lock_free f"
proof -
  have "f (set_locked l b r) = map_prod id (set_locked l b) (f r) \<and> is_locked l (snd (f r)) = is_locked l r"
    for l b r
    by (cases l) (simp_all add: assms set_locked.simps [abs_def])
  then show ?thesis by (simp add: lock_free_def)
qed

lemma zero_down_lock [simp]:
  "raw_ptr_ring_discard_one (r\<lparr>r_producer_lock := b\<rparr>) = (raw_ptr_ring_discard_one r)\<lparr>r_producer_lock := b\<rparr>"
  "raw_ptr_ring_discard_one (r\<lparr>r_consumer_lock := b\<rparr>) = (raw_ptr_ring_discard_one r)\<lparr>r_consumer_lock := b\<rparr>"
  "r_producer_lock (raw_ptr_ring_discard_one r) = r_producer_lock r"
  "r_consumer_lock (raw_ptr_ring_discard_one r) = r_consumer_lock r"
  by (simp_all add: raw_ptr_ring_discard_one_def Let_def)

lemma peek_lock [simp]:
  "raw_ptr_ring_peek (r\<lparr>r_producer_lock := b\<rparr>) = raw_ptr_ring_peek r"
  "raw_ptr_ring_peek (r\<lparr>r_consumer_lock := b\<rparr>) = raw_ptr_ring_peek r"
  by (simp_all add: raw_ptr_ring_peek_def)

lemma consume_lock [simp]:
  "raw_ptr_ring_consume (r\<lparr>r_producer_lock := b\<rparr>) =
     map_prod id (\<lambda>r. r\<lparr>r_producer_lock := b\<rparr>) (raw_ptr_ring_consume r)"
  "raw_ptr_ring_consume (r\<lparr>r_consumer_lock := b\<rparr>) =
     map_prod id (\<lambda>r. r\<lparr>r_consumer_lock := b\<rparr>) (raw_ptr_ring_consume r)"
  "r_producer_lock (snd (raw_ptr_ring_consume r)) = r_producer_lock r"
  "r_consumer_lock (snd (raw_ptr_ring_consume r)) = r_consumer_lock r"
  by (simp_all add: raw_ptr_ring_consume_def Let_def)

lemma consume_from_lock [simp]:
  "consume_from i (r\<lparr>r_producer_lock := b\<rparr>) array n =
     map_prod id (map_prod id (\<lambda>r. r\<lparr>r_producer_lock := b\<rparr>)) (consume_from i r array n)"
  "consume_from i (r\<lparr>r_consumer_lock := b\<rparr>) array n =
     map_prod id (map_prod id (\<lambda>r. r\<lparr>r_consumer_lock := b\<rparr>)) (consume_from i r array n)"
  "r_producer_lock (snd (snd (consume_from i r array n))) = r_producer_lock r"
  "r_consumer_lock (snd (snd (consume_from i r array n))) = r_consumer_lock r"
proof (induction i r array n rule: consume_from.induct)
  case (1 i r array n)
  obtain p r1 where c: "raw_ptr_ring_consume r = (p, r1)" by force
  have l: "r_producer_lock r1 = r_producer_lock r" "r_consumer_lock r1 = r_consumer_lock r"
    using consume_lock(3,4) [of r] c by simp_all
  note step = consume_from.simps [of i r array n] consume_from.simps [of i "r\<lparr>r_producer_lock := b\<rparr>" array n]
    consume_from.simps [of i "r\<lparr>r_consumer_lock := b\<rparr>" array n]
  { case 1
    show ?case using "1.IH"(1) [of p r1] c unfolding step by simp next
    case 2
    show ?case using "1.IH"(2) [of p r1] c unfolding step by simp next
    case 3
    show ?case using "1.IH"(3) [of p r1] c l unfolding step by simp next
    case 4
    show ?case using "1.IH"(4) [of p r1] c l unfolding step by simp }
qed

lemma lock_free_ops:
  "lock_free (\<lambda>r. (raw_ptr_ring_full r, r))"
  "lock_free (\<lambda>r. raw_ptr_ring_produce r ptr)"
  "lock_free (\<lambda>r. (raw_ptr_ring_empty r, r))"
  "lock_free (\<lambda>r. raw_ptr_ring_consume r)"
  "lock_free (\<lambda>r. case raw_ptr_ring_consume_batched r array n of (i, array, r) \<Rightarrow> ((i, array), r))"
  "lock_free (\<lambda>r. (PTR_RING_PEEK_CALL_raw f r, r))"
  by (rule lock_freeI; simp add: raw_ptr_ring_full_def raw_ptr_ring_produce_def raw_ptr_ring_empty_def
      raw_ptr_ring_consume_batched_def PTR_RING_PEEK_CALL_raw_def Let_def case_prod_beta)+

lemmas public_ops =
  ptr_ring_full_def ptr_ring_full_irq_def ptr_ring_full_any_def ptr_ring_full_bh_def
  ptr_ring_produce_def ptr_ring_produce_irq_def ptr_ring_produce_any_def ptr_ring_produce_bh_def
  ptr_ring_empty_def ptr_ring_empty_irq_def ptr_ring_empty_any_def ptr_ring_empty_bh_def
  ptr_ring_consume_def ptr_ring_consume_irq_def ptr_ring_consume_any_def ptr_ring_consume_bh_def
  ptr_ring_consume_batched_def ptr_ring_consume_batched_irq_def ptr_ring_consume_batched_any_def
  ptr_ring_consume_batched_bh_def
  PTR_RING_PEEK_CALL_def PTR_RING_PEEK_CALL_IRQ_def PTR_RING_PEEK_CALL_ANY_def PTR_RING_PEEK_CALL_BH_def

text \<open>What the CPU state is apart from the ring.\<close>

definition same_cpu :: "kstate \<Rightarrow> kstate \<Rightarrow> bool" where
  "same_cpu s s' \<longleftrightarrow> k_preempt_count s' = k_preempt_count s \<and> k_softirq_count s' = k_softirq_count s \<and>
     k_irqs_enabled s' = k_irqs_enabled s"

definition unlocked :: "kstate \<Rightarrow> bool" where
  "unlocked s \<longleftrightarrow> \<not> r_producer_lock (k_ring s) \<and> \<not> r_consumer_lock (k_ring s)"

lemma lock_fields_rep [simp]:
  "ring_rep (r\<lparr>r_producer_lock := b\<rparr>) xs = ring_rep r xs"
  "ring_rep (r\<lparr>r_consumer_lock := b\<rparr>) xs = ring_rep r xs"
  by (simp_all add: ring_rep_def)

lemma unconsume_state:
  assumes "ring_rep (k_ring s) xs" and "unlocked s" and "n \<le> length batch" and "0 \<notin> set batch"
  defines "k \<equiv> min n (nat (r_size (k_ring s)) - length xs)"
  shows "\<exists>s'. ptr_ring_unconsume batch n s = Some (rev (take (n - k) batch), s') \<and>
           ring_rep (k_ring s') (drop (n - k) (take n batch) @ xs) \<and> unlocked s' \<and> same_cpu s s'"
proof -
  let ?r = "(k_ring s)\<lparr>r_consumer_lock := True, r_producer_lock := True\<rparr>"
  have "ring_rep ?r xs" using assms(1) by simp
  from unconsume_rep [OF this assms(3,4)] obtain r' where
    r': "unconsume_locked batch n ?r = (rev (take (n - k) batch), r')"
      "ring_rep r' (drop (n - k) (take n batch) @ xs)"
    unfolding k_def by auto
  then show ?thesis
    using assms(2) by (auto simp: ptr_ring_unconsume_def locked_def locked_any_def on_ring_def spin_defs unlocked_def same_cpu_def)
qed

lemma swap_state:
  assumes "ring_rep (k_ring s) xs" and "unlocked s" and "0 \<le> sz" and "0 \<le> smp_cache_bytes e"
  shows "\<exists>old s'. swap_queue_locked e destroy (replicate (nat sz) 0) sz s =
           Some ((old, if destroy then drop (nat sz) xs else []), s') \<and>
           ring_rep (k_ring s') (take (nat sz) xs) \<and> r_size (k_ring s') = sz \<and> unlocked s' \<and> same_cpu s s'"
proof -
  let ?r = "(k_ring s)\<lparr>r_consumer_lock := True, r_producer_lock := True\<rparr>"
  have "ring_rep ?r xs" using assms(1) by simp
  from swap_queue_rep [OF this assms(3,4), of destroy] obtain old r' where
    r': "raw_ptr_ring_swap_queue e destroy (replicate (nat sz) 0) sz ?r =
        Some (old, if destroy then drop (nat sz) xs else [], r')"
      "ring_rep r' (take (nat sz) xs)" "r_size r' = sz"
    by auto
  then show ?thesis
    using assms(2) by (auto simp: swap_queue_locked_def swap_queue_body_def locked_def locked_any_def spin_defs unlocked_def same_cpu_def)
qed

lemma alloc_queues_all:
  assumes "\<And>i. env_ok (e\<lparr>kvmalloc_array := mem i\<rparr>)" and "int_ok sz"
    and "\<And>j. j < n \<Longrightarrow> raw_ptr_ring_init_queue_alloc (e\<lparr>kvmalloc_array := mem (i + j)\<rparr>) sz \<noteq> None"
  shows "alloc_queues e mem sz n i qs = (True, qs @ replicate n (replicate (nat sz) 0))"
  using assms(3)
proof (induction n arbitrary: i qs)
  case (Suc n)
  then obtain q where q: "raw_ptr_ring_init_queue_alloc (e\<lparr>kvmalloc_array := mem i\<rparr>) sz = Some q"
    by force
  have "alloc_queues e mem sz n (Suc i) (qs @ [q]) = (True, (qs @ [q]) @ replicate n (replicate (nat sz) 0))"
    using Suc.prems [of "Suc j" for j] by (intro Suc.IH) simp
  then show ?case
    using alloc_some [OF assms(1,2) q] q by simp
qed simp

lemma alloc_queues_fail:
  assumes "\<And>i. env_ok (e\<lparr>kvmalloc_array := mem i\<rparr>)" and "int_ok sz"
    and "\<exists>j < n. raw_ptr_ring_init_queue_alloc (e\<lparr>kvmalloc_array := mem (i + j)\<rparr>) sz = None"
  shows "\<exists>k < n. raw_ptr_ring_init_queue_alloc (e\<lparr>kvmalloc_array := mem (i + k)\<rparr>) sz = None \<and>
      (\<forall>j < k. raw_ptr_ring_init_queue_alloc (e\<lparr>kvmalloc_array := mem (i + j)\<rparr>) sz \<noteq> None) \<and>
      alloc_queues e mem sz n i qs = (False, qs @ replicate k (replicate (nat sz) 0))"
  using assms(3)
proof (induction n arbitrary: i qs)
  case (Suc n)
  let ?a = "\<lambda>i. raw_ptr_ring_init_queue_alloc (e\<lparr>kvmalloc_array := mem i\<rparr>) sz"
  show ?case
  proof (cases "?a i")
    case None
    then show ?thesis by (intro exI [of _ 0]) simp
  next
    case (Some q)
    obtain j where "j < Suc n" "?a (i + j) = None"
      using Suc.prems by blast
    then have "\<exists>j < n. ?a (Suc i + j) = None"
      using Some by (cases j) auto
    from Suc.IH [of "Suc i" "qs @ [q]", OF this] obtain k where k: "k < n" "?a (Suc i + k) = None"
      "\<forall>j < k. ?a (Suc i + j) \<noteq> None"
      "alloc_queues e mem sz n (Suc i) (qs @ [q]) = (False, (qs @ [q]) @ replicate k (replicate (nat sz) 0))"
      by blast
    have "?a (i + j) \<noteq> None" if "j < Suc k" for j
      using that k(3) Some by (cases j) auto
    then show ?thesis
      using k Some alloc_some [OF assms(1,2) Some] by (intro exI [of _ "Suc k"]) simp
  qed
qed simp

lemma swap_queues_all:
  assumes "distinct rings" and "rings = [] \<or> 0 \<le> sz" and "0 \<le> smp_cache_bytes e"
    and "\<And>p. p \<in> set rings \<Longrightarrow> ring_inv (h p) \<and> \<not> r_producer_lock (h p) \<and> \<not> r_consumer_lock (h p)"
  shows "\<exists>olds h' s'. swap_queues e destroy sz (zip rings (replicate (length rings) (replicate (nat sz) 0))) h s =
      Some (olds, if destroy then concat (map (\<lambda>p. drop (nat sz) (contents (h p))) rings) else [], h', s') \<and>
    (\<forall>p. if p \<in> set rings
         then ring_inv (h' p) \<and> r_size (h' p) = sz \<and> contents (h' p) = take (nat sz) (contents (h p))
         else h' p = h p) \<and> same_cpu s s'"
  using assms(1,2,4)
proof (induction rings arbitrary: h s)
  case Nil
  then show ?case by (simp add: same_cpu_def)
next
  case (Cons p rings)
  let ?q = "replicate (nat sz) (0::ptr)"
  have rep: "ring_rep (k_ring (s\<lparr>k_ring := h p\<rparr>)) (contents (h p))" and u: "unlocked (s\<lparr>k_ring := h p\<rparr>)" and sz: "0 \<le> sz"
    using Cons.prems by (simp_all add: ring_inv_def unlocked_def)
  from swap_state [OF rep u sz assms(3), of destroy] obtain old s1 where s1:
    "swap_queue_locked e destroy ?q sz (s\<lparr>k_ring := h p\<rparr>) =
       Some ((old, if destroy then drop (nat sz) (contents (h p)) else []), s1)"
    "ring_rep (k_ring s1) (take (nat sz) (contents (h p)))" "r_size (k_ring s1) = sz" "same_cpu (s\<lparr>k_ring := h p\<rparr>) s1"
    by blast
  let ?h = "h(p := k_ring s1)"
  have keep: "?h x = h x" if "x \<in> set rings" for x
    using that Cons.prems(1) by auto
  have eq: "map (\<lambda>x. drop (nat sz) (contents (?h x))) rings = map (\<lambda>x. drop (nat sz) (contents (h x))) rings"
    using keep by simp
  have "\<exists>olds h' s'. swap_queues e destroy sz (zip rings (replicate (length rings) ?q)) ?h s1 =
      Some (olds, if destroy then concat (map (\<lambda>x. drop (nat sz) (contents (?h x))) rings) else [], h', s') \<and>
    (\<forall>x. if x \<in> set rings
         then ring_inv (h' x) \<and> r_size (h' x) = sz \<and> contents (h' x) = take (nat sz) (contents (?h x))
         else h' x = ?h x) \<and> same_cpu s1 s'"
    using Cons.prems keep by (intro Cons.IH) auto
  then obtain olds h' s' where r: "swap_queues e destroy sz (zip rings (replicate (length rings) ?q)) ?h s1 =
      Some (olds, if destroy then concat (map (\<lambda>x. drop (nat sz) (contents (h x))) rings) else [], h', s')"
    and h': "\<forall>x. if x \<in> set rings
         then ring_inv (h' x) \<and> r_size (h' x) = sz \<and> contents (h' x) = take (nat sz) (contents (?h x))
         else h' x = ?h x" and c: "same_cpu s1 s'"
    unfolding eq by blast
  have "same_cpu s s'"
    using s1(4) c by (simp add: same_cpu_def)
  moreover have "if x \<in> set (p # rings)
      then ring_inv (h' x) \<and> r_size (h' x) = sz \<and> contents (h' x) = take (nat sz) (contents (h x)) else h' x = h x" for x
  proof (cases "x = p")
    case True
    then have "h' x = k_ring s1"
      using h' [rule_format, of x] Cons.prems(1) by simp
    then show ?thesis
      using True s1(2,3) contents_rep [OF s1(2)] ring_inv_iff by auto
  next
    case False
    then show ?thesis
      using h' [rule_format, of x] by simp
  qed
  ultimately show ?case
    using s1(1) r by auto
qed

lemma cleanup_state:
  assumes "ring_rep (k_ring s) xs" and "\<not> r_consumer_lock (k_ring s)"
  shows "\<exists>s'. cleanup_loop s log = Some (log @ xs, s') \<and> ring_rep (k_ring s') [] \<and> same_cpu s s'"
  using assms
proof (induction xs arbitrary: s log)
  case Nil
  then have "ptr_ring_consume s = Some (0, s)"
    using consume_rep(1) [OF Nil(1)]
    by (simp add: ptr_ring_consume_def locked_result lock_free_ops)
  with Nil show ?case
    by (subst cleanup_loop.simps) (simp add: same_cpu_def)
next
  case (Cons x xs)
  let ?s = "s\<lparr>k_ring := raw_ptr_ring_discard_one (k_ring s)\<rparr>"
  have "x \<noteq> 0"
    using Cons.prems(1) by (auto simp: ring_rep_def rep_def split: if_splits)
  moreover have "ptr_ring_consume s = Some (x, ?s)"
    using consume_rep(1) [OF Cons.prems(1)] Cons.prems(2)
    by (simp add: ptr_ring_consume_def locked_result lock_free_ops)
  ultimately have "cleanup_loop s log = cleanup_loop ?s (log @ [x])"
    by (subst cleanup_loop.simps) simp
  moreover have "ring_rep (k_ring ?s) xs"
    using Cons.prems(1) discard_rep by simp
  ultimately show ?case
    using Cons.IH [of ?s "log @ [x]"] Cons.prems(2) by (auto simp: same_cpu_def)
qed

lemma room_rep:
  assumes "ring_rep r xs"
  shows "length xs \<le> nat (r_size r - (r_consumer_head r - r_consumer_tail r))"
proof (cases "r_size r = 0")
  case False
  let ?q = "r_queue r" and ?h = "nat (r_consumer_head r)" and ?t = "nat (r_consumer_tail r)"
  have s: "0 < r_size r" "length ?q = nat (r_size r)" "0 \<le> r_consumer_tail r" "0 \<le> r_consumer_head r"
    "?t \<le> ?h" "?h < length ?q" "length xs \<le> length ?q - ?h + ?t"
    using assms False by (auto simp: ring_rep_def rep_def)
  then have "nat (r_size r - (r_consumer_head r - r_consumer_tail r)) = length ?q - ?h + ?t"
    by linarith
  with s(7) show ?thesis by simp
qed (use assms in \<open>auto simp: ring_rep_def\<close>)

text \<open>A ring of three slots that has wrapped around, and its environment.\<close>

definition sample_ring :: ptr_ring where
  "sample_ring = \<lparr>r_producer = 0, r_producer_lock = False, r_consumer_head = 1, r_consumer_tail = 1,
     r_consumer_lock = False, r_size = 3, r_batch = 1, r_queue = [0, 7, 8]\<rparr>"

definition sample_state :: kstate where
  "sample_state = \<lparr>k_preempt_count = 0, k_softirq_count = 0, k_irqs_enabled = True, k_ring = sample_ring\<rparr>"

definition sample_env :: ring_env where
  "sample_env = \<lparr>kmalloc_max_size = 4194304, smp_cache_bytes = 64, kvmalloc_array = (\<lambda>n. Some (replicate n 0))\<rparr>"

lemma sample_ring [simp]:
  "ring_inv sample_ring" "contents sample_ring = [7, 8]" "free_slots sample_ring = 1"
  "r_size sample_ring = 3" "k_ring sample_state = sample_ring" "unlocked sample_state"
  "\<not> r_consumer_lock sample_ring" "\<not> r_producer_lock sample_ring"
  by (simp_all add: sample_ring_def sample_state_def ring_inv_def ring_rep_def rep_def contents_def
      window_def free_slots_def unlocked_def)

lemma sample_env [simp]:
  "env_ok sample_env" "kmalloc_max_size sample_env = 4194304"
  "kvmalloc_array sample_env n = Some (replicate n 0)"
  by (simp_all add: sample_env_def env_ok_def)

section \<open>Outcomes\<close>

text \<open>
  Producing either appends the pointer to the contents and returns 0, or returns \<open>-ENOSPC\<close> and
  leaves the ring alone; it fails exactly when no slot is free, counting the consumed entries that
  have not been invalidated yet as occupied.  The invariant of the ring is kept, and the full test
  agrees.
\<close>

lemma produce_outcome_part:
  assumes "ring_inv r" and "x \<noteq> 0"
  shows "(if free_slots r = 0 then raw_ptr_ring_produce r x = (- ENOSPC, r)
          else fst (raw_ptr_ring_produce r x) = 0 \<and>
               contents (snd (raw_ptr_ring_produce r x)) = contents r @ [x]) \<and>
         ring_inv (snd (raw_ptr_ring_produce r x)) \<and>
         (r_size r \<noteq> 0 \<longrightarrow> raw_ptr_ring_full r = (free_slots r = 0))"
proof -
  have rep: "ring_rep r (contents r)"
    using assms(1) by (simp add: ring_inv_def)
  have free: "free_slots r = 0 \<longleftrightarrow> r_size r = 0 \<or>
      length (contents r) = nat (r_size r - (r_consumer_head r - r_consumer_tail r))"
    using room_rep [OF rep] rep by (auto simp: free_slots_def ring_rep_def)
  have full: "raw_ptr_ring_full r \<longleftrightarrow> fst (raw_ptr_ring_produce r x) \<noteq> 0" if "r_size r \<noteq> 0"
    using that by (auto simp: raw_ptr_ring_full_def raw_ptr_ring_produce_def Let_def ENOSPC_def)
  show ?thesis
    using produce_rep [OF rep assms(2)] ring.inv_put [OF assms] ring.elems_put [OF assms] free full
    by (auto simp: ENOSPC_def split: if_splits)
qed


text \<open>
  Consuming returns the oldest entry and removes it, or returns \<open>NULL\<close> and leaves the ring
  alone when it is empty; peeking returns the same entry without removing it, and the empty test
  agrees.  This holds whether the entry is only marked as consumed, a batch of entries is
  invalidated, or the head wraps around.  The invariant of the ring is kept.  A batched consumer gets
  the oldest entries in order, as many as it asked for or as there are; they fill the front of its
  array, the rest of the array is untouched, and the return value is their number.
\<close>

lemma consume_outcome_part:
  assumes "ring_inv r" and "0 \<le> n" and "nat n \<le> length array"
  shows "(case contents r of
            [] \<Rightarrow> raw_ptr_ring_consume r = (0, r)
          | x # xs \<Rightarrow> fst (raw_ptr_ring_consume r) = x \<and> x \<noteq> 0 \<and>
              contents (snd (raw_ptr_ring_consume r)) = xs) \<and>
         raw_ptr_ring_peek r = fst (raw_ptr_ring_consume r) \<and>
         raw_ptr_ring_empty r = (contents r = []) \<and>
         ring_inv (snd (raw_ptr_ring_consume r)) \<and>
         (\<exists>r'. raw_ptr_ring_consume_batched r array n =
            (int (min (nat n) (length (contents r))),
             take (nat n) (contents r) @ drop (min (nat n) (length (contents r))) array, r') \<and>
          ring_inv r' \<and> contents r' = drop (nat n) (contents r))"
proof -
  have rep: "ring_rep r (contents r)"
    using assms(1) by (simp add: ring_inv_def)
  have "raw_ptr_ring_empty r \<longleftrightarrow> raw_ptr_ring_peek r = 0"
    by (simp add: raw_ptr_ring_empty_def raw_ptr_ring_peek_def)
  moreover have "\<exists>r'. raw_ptr_ring_consume_batched r array n =
            (int (min (nat n) (length (contents r))),
             take (nat n) (contents r) @ drop (min (nat n) (length (contents r))) array, r') \<and>
          ring_inv r' \<and> contents r' = drop (nat n) (contents r)"
    using consume_batched_rep [OF rep assms(2,3)] contents_rep ring_inv_iff by blast
  ultimately show ?thesis
    using consume_rep(1) [OF rep] peek_rep [OF rep] ring.inv_get [OF assms(1)] ring.elems_get [OF assms(1)]
      ring.get_hd [OF assms(1)] by (auto split: list.splits)
qed

text \<open>
  Producing appends the entry at the end of the ring and returns 0, or returns \<open>-ENOSPC\<close> and leaves the ring as it is, exactly
  if it is full or has size 0.  Consuming returns and removes the oldest entry, or \<open>NULL\<close> exactly if the ring is empty; batched
  consumption takes the oldest entries, as many as asked for or available, and leaves the rest of the caller's array alone.
\<close>

lemma produce_consume_outcome_part:
  assumes "ring_inv r"
    and "x \<noteq> 0"
    and "0 \<le> n"
    and "nat n \<le> length array"
  shows "((if free_slots r = 0 then raw_ptr_ring_produce r x = (- ENOSPC, r)
          else fst (raw_ptr_ring_produce r x) = 0 \<and>
               contents (snd (raw_ptr_ring_produce r x)) = contents r @ [x]) \<and>
         ring_inv (snd (raw_ptr_ring_produce r x)) \<and>
         (r_size r \<noteq> 0 \<longrightarrow> raw_ptr_ring_full r = (free_slots r = 0))) \<and>
    ((case contents r of
            [] \<Rightarrow> raw_ptr_ring_consume r = (0, r)
          | x # xs \<Rightarrow> fst (raw_ptr_ring_consume r) = x \<and> x \<noteq> 0 \<and>
              contents (snd (raw_ptr_ring_consume r)) = xs) \<and>
         raw_ptr_ring_peek r = fst (raw_ptr_ring_consume r) \<and>
         raw_ptr_ring_empty r = (contents r = []) \<and>
         ring_inv (snd (raw_ptr_ring_consume r)) \<and>
         (\<exists>r'. raw_ptr_ring_consume_batched r array n =
            (int (min (nat n) (length (contents r))),
             take (nat n) (contents r) @ drop (min (nat n) (length (contents r))) array, r') \<and>
          ring_inv r' \<and> contents r' = drop (nat n) (contents r)))"
  by (rule conjI [OF produce_outcome_part [OF assms(1,2)] consume_outcome_part [OF assms(1,3,4)]])


text \<open>
  Unconsuming puts the entries of a batch back in front of the contents, in their order, the
  last ones first as far as they fit; exactly the others are destroyed.  Consumed slots that were
  not invalidated yet are reused.  Both locks are released and the interrupt state is restored.
\<close>

lemma unconsume_outcome_part:
  assumes "ring_inv (k_ring s)" and "unlocked s" and "n \<le> length batch" and "0 \<notin> set batch"
    and "fit = min n (nat (r_size (k_ring s)) - length (contents (k_ring s)))"
  shows "\<exists>s'. ptr_ring_unconsume batch n s = Some (rev (take (n - fit) batch), s') \<and>
           ring_inv (k_ring s') \<and>
           contents (k_ring s') = drop (n - fit) (take n batch) @ contents (k_ring s) \<and>
           unlocked s' \<and> same_cpu s s'"
proof -
  have "ring_rep (k_ring s) (contents (k_ring s))"
    using assms(1) by (simp add: ring_inv_def)
  from unconsume_state [OF this assms(2-4)] show ?thesis
    unfolding assms(5) using contents_rep ring_inv_iff by blast
qed

text \<open>
  C12. Producing appends the entry at the end of the ring and returns 0, or returns \<open>-ENOSPC\<close> and leaves the ring as it is, exactly
  if it is full or has size 0.  Consuming returns and removes the oldest entry, or \<open>NULL\<close> exactly if the ring is empty; batched
  consumption takes the oldest entries, as many as asked for or available, and leaves the rest of the caller's array alone.
  Unconsuming puts the entries of a batch back in front of the contents, in their order, the last ones first as far as they fit;
  exactly the others are destroyed, and both locks are released.
\<close>

theorem ring_operations:
  assumes "ring_inv r"
    and "x \<noteq> 0"
    and "0 \<le> n"
    and "nat n \<le> length array"
    and "ring_inv (k_ring s)"
    and "unlocked s"
    and "j \<le> length batch"
    and "0 \<notin> set batch"
    and "fit = min j (nat (r_size (k_ring s)) - length (contents (k_ring s)))"
  shows "(((if free_slots r = 0 then raw_ptr_ring_produce r x = (- ENOSPC, r)
          else fst (raw_ptr_ring_produce r x) = 0 \<and>
               contents (snd (raw_ptr_ring_produce r x)) = contents r @ [x]) \<and>
         ring_inv (snd (raw_ptr_ring_produce r x)) \<and>
         (r_size r \<noteq> 0 \<longrightarrow> raw_ptr_ring_full r = (free_slots r = 0))) \<and>
    ((case contents r of
            [] \<Rightarrow> raw_ptr_ring_consume r = (0, r)
          | x # xs \<Rightarrow> fst (raw_ptr_ring_consume r) = x \<and> x \<noteq> 0 \<and>
              contents (snd (raw_ptr_ring_consume r)) = xs) \<and>
         raw_ptr_ring_peek r = fst (raw_ptr_ring_consume r) \<and>
         raw_ptr_ring_empty r = (contents r = []) \<and>
         ring_inv (snd (raw_ptr_ring_consume r)) \<and>
         (\<exists>r'. raw_ptr_ring_consume_batched r array n =
            (int (min (nat n) (length (contents r))),
             take (nat n) (contents r) @ drop (min (nat n) (length (contents r))) array, r') \<and>
          ring_inv r' \<and> contents r' = drop (nat n) (contents r)))) \<and>
    (\<exists>s'. ptr_ring_unconsume batch j s = Some (rev (take (j - fit) batch), s') \<and>
           ring_inv (k_ring s') \<and>
           contents (k_ring s') = drop (j - fit) (take j batch) @ contents (k_ring s) \<and>
           unlocked s' \<and> same_cpu s s')"
  by (rule conjI [OF produce_consume_outcome_part [OF assms(1,2,3,4)] unconsume_outcome_part [OF assms(5,6,7,8,9)]])

theorem ring_operations_witness:
  "contents (snd (raw_ptr_ring_produce sample_ring 9)) = [7, 8, 9] \<and> fst (raw_ptr_ring_consume sample_ring) = 7 \<and>
   (\<exists>s'. ptr_ring_unconsume [5, 6] 2 sample_state = Some ([5], s') \<and> contents (k_ring s') = [6, 7, 8])"
  using ring_operations [where r = sample_ring and x = 9 and n = 3 and array = "[1, 2, 3]" and s = sample_state and
      j = 2 and batch = "[5, 6]" and fit = 1] by (auto simp: sample_ring)

text \<open>
  Resizing keeps the oldest entries in order, as many as the new size holds, and destroys
  exactly the others, in order; the loop over the old ring ends, both locks are released and the
  interrupt state is restored.  When the new array cannot be allocated nothing changes and
  \<open>-ENOMEM\<close> is returned; a negative size is rejected that way.
\<close>

lemma resize_outcome:
  assumes "env_ok e" and "int_ok sz" and "ring_inv (k_ring s)" and "unlocked s"
  shows "(case raw_ptr_ring_init_queue_alloc e sz of
            None \<Rightarrow> ptr_ring_resize e destroy sz s = Some (- ENOMEM, [], None, s)
          | Some q \<Rightarrow> 0 \<le> sz \<and> (\<exists>old s'.
              ptr_ring_resize e destroy sz s =
                Some (0, if destroy then drop (nat sz) (contents (k_ring s)) else [], Some old, s') \<and>
              ring_inv (k_ring s') \<and> r_size (k_ring s') = sz \<and>
              contents (k_ring s') = take (nat sz) (contents (k_ring s)) \<and> unlocked s' \<and> same_cpu s s')) \<and>
         (sz < 0 \<longrightarrow> raw_ptr_ring_init_queue_alloc e sz = None)"
proof (cases "raw_ptr_ring_init_queue_alloc e sz")
  case None
  then show ?thesis by (simp add: ptr_ring_resize_def)
next
  case (Some q)
  note q = alloc_some [OF assms(1,2) Some]
  have "0 \<le> smp_cache_bytes e" "ring_rep (k_ring s) (contents (k_ring s))"
    using assms(1,3) by (simp_all add: env_ok_def ring_inv_def)
  with q assms(4) obtain old s' where
    "swap_queue_locked e destroy q sz s =
       Some ((old, if destroy then drop (nat sz) (contents (k_ring s)) else []), s')"
    "ring_rep (k_ring s') (take (nat sz) (contents (k_ring s)))" "r_size (k_ring s') = sz" "unlocked s'" "same_cpu s s'"
    using swap_state [of s "contents (k_ring s)" sz e destroy] by auto
  then show ?thesis
    using Some q contents_rep [of "k_ring s'"] by (auto simp: ptr_ring_resize_def ring_inv_iff)
qed


text \<open>
  C13. Resizing several rings is all or nothing: if the array of arrays or any of the new arrays cannot
  be allocated, \<open>-ENOMEM\<close> is returned, no ring changes, nothing is destroyed, and exactly the arrays
  allocated so far are freed.  Otherwise every ring has the new size and keeps its oldest entries, in
  order, the others are destroyed, ring by ring; rings that were not named are not touched, and the
  interrupt state is restored.
\<close>

theorem resize_multiple_outcome:
  assumes "\<And>i. env_ok (e\<lparr>kvmalloc_array := mem i\<rparr>)" and "int_ok sz" and "distinct rings"
    and "\<And>p. p \<in> set rings \<Longrightarrow> ring_inv (h p) \<and> \<not> r_producer_lock (h p) \<and> \<not> r_consumer_lock (h p)"
  shows "if kmalloc_ok \<and> (\<forall>i < length rings. raw_ptr_ring_init_queue_alloc (e\<lparr>kvmalloc_array := mem i\<rparr>) sz \<noteq> None)
    then \<exists>olds h' s'. ptr_ring_resize_multiple e kmalloc_ok mem destroy rings sz h s =
           Some (0, if destroy then concat (map (\<lambda>p. drop (nat sz) (contents (h p))) rings) else [], olds, h', s') \<and>
         (\<forall>p. if p \<in> set rings
              then ring_inv (h' p) \<and> r_size (h' p) = sz \<and> contents (h' p) = take (nat sz) (contents (h p))
              else h' p = h p) \<and> same_cpu s s'
    else \<exists>k. ptr_ring_resize_multiple e kmalloc_ok mem destroy rings sz h s =
           Some (- ENOMEM, [], replicate k (replicate (nat sz) 0), h, s) \<and>
         (if kmalloc_ok then k < length rings \<and>
            raw_ptr_ring_init_queue_alloc (e\<lparr>kvmalloc_array := mem k\<rparr>) sz = None \<and>
            (\<forall>i < k. raw_ptr_ring_init_queue_alloc (e\<lparr>kvmalloc_array := mem i\<rparr>) sz \<noteq> None)
          else k = 0)"
proof (cases kmalloc_ok)
  case True
  show ?thesis
  proof (cases "\<forall>i < length rings. raw_ptr_ring_init_queue_alloc (e\<lparr>kvmalloc_array := mem i\<rparr>) sz \<noteq> None")
    case ok: True
    have e: "0 \<le> smp_cache_bytes e"
      using assms(1) [of 0] by (simp add: env_ok_def)
    have q: "alloc_queues e mem sz (length rings) 0 [] = (True, replicate (length rings) (replicate (nat sz) 0))"
      using alloc_queues_all [where e = e and mem = mem and sz = sz and n = "length rings" and i = 0 and qs = "[]", OF assms(1,2)] ok by simp
    have sz: "rings = [] \<or> 0 \<le> sz"
      using ok alloc_some [OF assms(1) [of 0] assms(2)] by (cases rings) auto
    obtain olds h' s' where
      "swap_queues e destroy sz (zip rings (replicate (length rings) (replicate (nat sz) 0))) h s =
         Some (olds, if destroy then concat (map (\<lambda>p. drop (nat sz) (contents (h p))) rings) else [], h', s')"
      "\<forall>p. if p \<in> set rings
           then ring_inv (h' p) \<and> r_size (h' p) = sz \<and> contents (h' p) = take (nat sz) (contents (h p))
           else h' p = h p" "same_cpu s s'"
      using swap_queues_all [OF assms(3) sz e, of h destroy s] assms(4) by blast
    then show ?thesis
      using True ok q by (simp add: ptr_ring_resize_multiple_def)
  next
    case False
    from alloc_queues_fail [where e = e and mem = mem and sz = sz and n = "length rings" and i = 0 and qs = "[]", OF assms(1,2)] this obtain k where
      "k < length rings" "raw_ptr_ring_init_queue_alloc (e\<lparr>kvmalloc_array := mem k\<rparr>) sz = None"
      "\<forall>i < k. raw_ptr_ring_init_queue_alloc (e\<lparr>kvmalloc_array := mem i\<rparr>) sz \<noteq> None"
      "alloc_queues e mem sz (length rings) 0 [] = (False, replicate k (replicate (nat sz) 0))"
      by auto
    then show ?thesis
      using True False by (auto simp: ptr_ring_resize_multiple_def)
  qed
qed (simp add: ptr_ring_resize_multiple_def)

theorem resize_multiple_outcome_witness:
  "\<exists>olds h' s'. ptr_ring_resize_multiple sample_env True (\<lambda>_. kvmalloc_array sample_env) True [0x10, 0x20] 1 (\<lambda>_. sample_ring) sample_state =
     Some (0, [8, 8], olds, h', s') \<and> contents (h' 0x20) = [7]"
proof -
  have e: "env_ok (sample_env\<lparr>kvmalloc_array := kvmalloc_array sample_env\<rparr>)"
    by (simp add: env_ok_def sample_env_def)
  have "raw_ptr_ring_init_queue_alloc (sample_env\<lparr>kvmalloc_array := kvmalloc_array sample_env\<rparr>) 1 \<noteq> None"
    by (simp add: raw_ptr_ring_init_queue_alloc_def)
  then obtain olds h' s' where
    "ptr_ring_resize_multiple sample_env True (\<lambda>_. kvmalloc_array sample_env) True [0x10, 0x20] 1 (\<lambda>_. sample_ring) sample_state =
       Some (0, [8, 8], olds, h', s')"
    and h': "\<forall>p. if p \<in> set [0x10, 0x20] then ring_inv (h' p) \<and> r_size (h' p) = 1 \<and> contents (h' p) = [7] else h' p = sample_ring"
    using resize_multiple_outcome [where e = sample_env and mem = "\<lambda>_. kvmalloc_array sample_env" and sz = 1 and
      rings = "[0x10, 0x20]" and h = "\<lambda>_. sample_ring" and kmalloc_ok = True and destroy = True and s = sample_state]
      e by (auto simp: int_ok_def)
  then show ?thesis
    using h' [rule_format, of "0x20"] by auto
qed

text \<open>
  C14. Initialising yields an empty ring of the requested size with both locks free, or \<open>-ENOMEM\<close>.
  Cleaning up with a destructor terminates and destroys every entry once, oldest first, before
  the array is freed.
\<close>

theorem init_and_cleanup:
  assumes "env_ok e" and "int_ok sz" and "ring_inv (k_ring s)" and "\<not> r_consumer_lock (k_ring s)"
  shows "(case raw_ptr_ring_init_queue_alloc e sz of
            None \<Rightarrow> fst (ptr_ring_init e r sz) = - ENOMEM
          | Some q \<Rightarrow> fst (ptr_ring_init e r sz) = 0 \<and> ring_inv (snd (ptr_ring_init e r sz)) \<and>
              contents (snd (ptr_ring_init e r sz)) = [] \<and> r_size (snd (ptr_ring_init e r sz)) = sz \<and>
              \<not> r_producer_lock (snd (ptr_ring_init e r sz)) \<and> \<not> r_consumer_lock (snd (ptr_ring_init e r sz))) \<and>
         (\<exists>s'. ptr_ring_cleanup True s = Some (contents (k_ring s), r_queue (k_ring s'), s') \<and>
            contents (k_ring s') = [] \<and> same_cpu s s')"
proof (rule conjI, goal_cases)
  case 1
  show ?case
    using init_rep [OF assms(1,2), of r] contents_rep ring_inv_iff by (auto split: option.splits)
next
  case 2
  have "ring_rep (k_ring s) (contents (k_ring s))"
    using assms(3) by (simp add: ring_inv_def)
  from cleanup_state [OF this assms(4), of "[]"] show ?case
    using contents_rep by (auto simp: ptr_ring_cleanup_def)
qed

theorem init_and_cleanup_witness:
  "contents (snd (ptr_ring_init sample_env sample_ring 4)) = [] \<and>
   (\<exists>q s'. ptr_ring_cleanup True sample_state = Some ([7, 8], q, s'))"
  using init_and_cleanup [of sample_env 4 sample_state sample_ring]
  by (auto simp: sample_ring sample_env raw_ptr_ring_init_queue_alloc_def int_ok_def)

section \<open>Histories\<close>

text \<open>
  C10. The ring is a FIFO: over any sequence of produce and consume operations, the entries delivered
  so far followed by the entries still in the ring are the entries it held at the start followed by
  the entries it accepted, in the order in which they were produced.
\<close>

theorem ring_fifo_order:
  assumes "ring_inv r" and "list_all (op_ok (\<lambda>x. x \<noteq> 0)) ops"
    and "run_ops raw_ptr_ring_produce raw_ptr_ring_consume 0 ops r = (accepted, delivered, r')"
  shows "ring_inv r' \<and> delivered @ contents r' = contents r @ accepted"
  using assms by (rule ring.history)

theorem ring_fifo_order_witness:
  "\<exists>r'. run_ops raw_ptr_ring_produce raw_ptr_ring_consume 0 [Put 9, Put 10, Get, Put 11, Get] sample_ring =
     ([9, 11], [7, 8], r') \<and> [7, 8] @ contents r' = [7, 8] @ [9, 11]"
proof -
  let ?run = "run_ops raw_ptr_ring_produce raw_ptr_ring_consume 0 [Put 9, Put 10, Get, Put 11, Get] sample_ring"
  have run: "?run = ([9, 11], [7, 8], snd (snd ?run))"
    by code_simp
  from ring_fifo_order [OF _ _ run] have "[7, 8] @ contents (snd (snd ?run)) = [7, 8] @ [9, 11]"
    by (simp add: op_ok_def)
  with run show ?thesis by blast
qed

text \<open>
  A ring in use: the entries it accepted, the entries its consumers hold, and the entries that were
  destroyed.  Consumers may return any number of the entries they got last, and the ring may be
  resized at any time.
\<close>

record ring_use =
  u_ring :: ptr_ring
  u_accepted :: "ptr list"
  u_held :: "ptr list"
  u_destroyed :: "ptr list"

inductive ring_step :: "ring_env \<Rightarrow> ring_use \<Rightarrow> ring_use \<Rightarrow> bool" for e where
  produce: "x \<noteq> 0 \<Longrightarrow> raw_ptr_ring_produce (u_ring u) x = (0, r) \<Longrightarrow>
     ring_step e u (u\<lparr>u_ring := r, u_accepted := u_accepted u @ [x]\<rparr>)"
| full: "x \<noteq> 0 \<Longrightarrow> raw_ptr_ring_produce (u_ring u) x = (ret, r) \<Longrightarrow> ret \<noteq> 0 \<Longrightarrow>
     ring_step e u (u\<lparr>u_ring := r\<rparr>)"
| consume: "raw_ptr_ring_consume (u_ring u) = (x, r) \<Longrightarrow> x \<noteq> 0 \<Longrightarrow>
     ring_step e u (u\<lparr>u_ring := r, u_held := u_held u @ [x]\<rparr>)"
| empty: "raw_ptr_ring_consume (u_ring u) = (0, r) \<Longrightarrow> ring_step e u (u\<lparr>u_ring := r\<rparr>)"
| unconsume: "u_held u = kept @ batch \<Longrightarrow> unconsume_locked batch (length batch) (u_ring u) = (log, r) \<Longrightarrow>
     ring_step e u (u\<lparr>u_ring := r, u_held := kept, u_destroyed := u_destroyed u @ log\<rparr>)"
| resize: "0 \<le> sz \<Longrightarrow>
     raw_ptr_ring_swap_queue e True (replicate (nat sz) 0) sz (u_ring u) = Some (old, log, r) \<Longrightarrow>
     ring_step e u (u\<lparr>u_ring := r, u_destroyed := u_destroyed u @ log\<rparr>)"

inductive ring_reachable :: "ring_env \<Rightarrow> ring_use \<Rightarrow> bool" for e where
  init: "ptr_ring_init e r0 sz = (0, r) \<Longrightarrow> int_ok sz \<Longrightarrow>
     ring_reachable e \<lparr>u_ring = r, u_accepted = [], u_held = [], u_destroyed = []\<rparr>"
| step: "ring_reachable e u \<Longrightarrow> ring_step e u u' \<Longrightarrow> ring_reachable e u'"

definition use_inv :: "ring_use \<Rightarrow> bool" where
  "use_inv u \<longleftrightarrow> ring_inv (u_ring u) \<and> 0 \<notin> set (u_held u) \<and>
     mset (u_accepted u) = mset (u_held u) + mset (contents (u_ring u)) + mset (u_destroyed u)"

lemma ring_step_inv:
  assumes "env_ok e" and "ring_step e u u'" and "use_inv u"
  shows "use_inv u'"
  using assms(2,3)
proof (induction rule: ring_step.induct)
  case (produce x u r)
  then show ?case
    using ring.inv_put [of "u_ring u" x] ring.elems_put [of "u_ring u" x] by (simp add: use_inv_def)
next
  case (full x u ret r)
  then show ?case
    using ring.inv_put [of "u_ring u" x] ring.elems_put [of "u_ring u" x] by (simp add: use_inv_def)
next
  case (consume u x r)
  then have "contents (u_ring u) = x # contents r"
    using ring.get_cases [of "u_ring u"] by (simp add: use_inv_def)
  with consume show ?case
    using ring.inv_get [of "u_ring u"] by (simp add: use_inv_def)
next
  case (empty u r)
  then show ?case
    using ring.inv_get [of "u_ring u"] ring.get_cases [of "u_ring u"] by (simp add: use_inv_def)
next
  case (unconsume u kept batch log r)
  let ?xs = "contents (u_ring u)" and ?n = "length batch"
  let ?k = "min ?n (nat (r_size (u_ring u)) - length ?xs)"
  have "ring_rep (u_ring u) ?xs" "0 \<notin> set batch"
    using unconsume by (auto simp: use_inv_def ring_inv_def)
  from unconsume_rep [OF this(1) order.refl this(2)] unconsume have
    "log = rev (take (?n - ?k) batch)" "ring_rep r (drop (?n - ?k) batch @ ?xs)"
    by auto
  moreover have "mset batch = mset (take (?n - ?k) batch) + mset (drop (?n - ?k) batch)"
    by (metis append_take_drop_id mset_append)
  ultimately show ?case
    using unconsume contents_rep [of r] ring_inv_iff by (auto simp: use_inv_def)
next
  case (resize sz u old log r)
  let ?xs = "contents (u_ring u)"
  have "ring_rep (u_ring u) ?xs" "0 \<le> smp_cache_bytes e"
    using assms(1) resize by (auto simp: use_inv_def ring_inv_def env_ok_def)
  from swap_queue_rep [OF this(1) resize(1) this(2), of True] resize have
    "log = drop (nat sz) ?xs" "ring_rep r (take (nat sz) ?xs)"
    by auto
  moreover have "mset ?xs = mset (take (nat sz) ?xs) + mset (drop (nat sz) ?xs)"
    by (metis append_take_drop_id mset_append)
  ultimately show ?case
    using resize contents_rep [of r] ring_inv_iff by (auto simp: use_inv_def)
qed

text \<open>
  C11. No pointer is lost or duplicated: in every state a ring reaches by producing, consuming,
  unconsuming and resizing, its invariant holds and the entries it accepted are, as a multiset,
  the entries its consumers hold, the entries in the ring and the entries that were destroyed.
\<close>

theorem ring_conserves_entries:
  assumes "env_ok e" and "ring_reachable e u"
  shows "ring_inv (u_ring u) \<and>
         mset (u_accepted u) = mset (u_held u) + mset (contents (u_ring u)) + mset (u_destroyed u)"
proof -
  have "use_inv u"
    using assms(2)
  proof (induction rule: ring_reachable.induct)
    case (init r0 sz r)
    then have "ring_inv r" "contents r = []"
      using init_rep [OF assms(1) init(2), of r0] contents_rep ring_inv_iff
      by (auto simp: ENOMEM_def split: option.splits)
    then show ?case by (simp add: use_inv_def)
  next
    case (step u u')
    then show ?case using ring_step_inv assms(1) by blast
  qed
  then show ?thesis by (simp add: use_inv_def)
qed

definition sample_use :: "ring_use" where
  "sample_use = \<lparr>u_ring = snd (raw_ptr_ring_produce (snd (ptr_ring_init sample_env sample_ring 4)) 9),
     u_accepted = [9], u_held = [], u_destroyed = []\<rparr>"

lemma sample_reachable: "ring_reachable sample_env sample_use"
proof -
  let ?r = "snd (ptr_ring_init sample_env sample_ring 4)"
  have "ptr_ring_init sample_env sample_ring 4 = (0, ?r)"
    by (simp add: ptr_ring_init_def raw_ptr_ring_init_queue_alloc_def Let_def)
  from ring_reachable.init [OF this] have
    i: "ring_reachable sample_env \<lparr>u_ring = ?r, u_accepted = [], u_held = [], u_destroyed = []\<rparr>"
    by (simp add: int_ok_def)
  have "fst (raw_ptr_ring_produce ?r 9) = 0"
    by (simp add: ptr_ring_init_def raw_ptr_ring_init_queue_alloc_def raw_ptr_ring_set_size_def
        raw_ptr_ring_produce_def slot_def Let_def sample_env_def)
  then have "raw_ptr_ring_produce ?r 9 = (0, snd (raw_ptr_ring_produce ?r 9))"
    by (metis prod.collapse)
  from ring_reachable.step [OF i ring_step.produce [of 9, OF _ _]] this show ?thesis
    by (simp add: sample_use_def)
qed

theorem ring_conserves_entries_witness:
  "mset [9] = mset (u_held sample_use) + mset (contents (u_ring sample_use)) + mset (u_destroyed sample_use)"
  using ring_conserves_entries [OF sample_env(1) sample_reachable] by (simp add: sample_use_def)

section \<open>The public operations\<close>

text \<open>
  What a critical section is, for the four ways to enter one.  Inside, the lock is held and preemption
  is off; soft interrupts are off as well with \<open>_bh\<close>, interrupts with \<open>_irq\<close> and with the saving form, which
  the code calls \<open>_any\<close>.  Afterwards the lock is free and the counts are one lower again; \<open>_irq\<close> leaves
  interrupts enabled whatever they were, \<open>_any\<close> as they were before.
\<close>

datatype discipline = Plain | Irq | Any | Bh

definition entered :: "discipline \<Rightarrow> ring_lock \<Rightarrow> kstate \<Rightarrow> kstate" where
  "entered d l s = s\<lparr>
     k_preempt_count := k_preempt_count s + 1,
     k_softirq_count := k_softirq_count s + (if d = Bh then 1 else 0),
     k_irqs_enabled := (k_irqs_enabled s \<and> d \<noteq> Irq \<and> d \<noteq> Any),
     k_ring := set_locked l True (k_ring s)\<rparr>"

definition leaving :: "discipline \<Rightarrow> ring_lock \<Rightarrow> bool \<Rightarrow> kstate \<Rightarrow> kstate" where
  "leaving d l before s = s\<lparr>
     k_preempt_count := k_preempt_count s - 1,
     k_softirq_count := k_softirq_count s - (if d = Bh then 1 else 0),
     k_irqs_enabled := (case d of Irq \<Rightarrow> True | Any \<Rightarrow> before | _ \<Rightarrow> k_irqs_enabled s),
     k_ring := set_locked l False (k_ring s)\<rparr>"

definition guarded ::
  "discipline \<Rightarrow> ring_lock \<Rightarrow> (kstate \<Rightarrow> ('v \<times> kstate) option) \<Rightarrow> kstate \<Rightarrow> ('v \<times> kstate) option" where
  "guarded d l body s =
     (if is_locked l (k_ring s) then None
      else map_option (\<lambda>(v, s'). (v, leaving d l (k_irqs_enabled s) s')) (body (entered d l s)))"

text \<open>
  What remains of the critical section of a raw operation when it is over: the effect of the operation
  on the ring, and interrupts enabled after \<open>_irq\<close>.
\<close>

definition net_effect :: "discipline \<Rightarrow> ring_lock \<Rightarrow> (ptr_ring \<Rightarrow> 'v \<times> ptr_ring) \<Rightarrow> kstate \<Rightarrow> ('v \<times> kstate) option" where
  "net_effect d l f s =
     (if is_locked l (k_ring s) then None
      else Some (fst (f (k_ring s)),
                 s\<lparr>k_ring := snd (f (k_ring s)), k_irqs_enabled := k_irqs_enabled s \<or> d = Irq\<rparr>))"

definition batched :: "ptr list \<Rightarrow> int \<Rightarrow> ptr_ring \<Rightarrow> (int \<times> ptr list) \<times> ptr_ring" where
  "batched array n r = (case raw_ptr_ring_consume_batched r array n of (i, array, r) \<Rightarrow> ((i, array), r))"

lemma spin_lock_entered:
  "spin_lock l s = (if is_locked l (k_ring s) then None else Some (entered Plain l s))"
  "spin_lock_irq l s = (if is_locked l (k_ring s) then None else Some (entered Irq l s))"
  "spin_lock_irqsave l s = (if is_locked l (k_ring s) then None else Some (k_irqs_enabled s, entered Any l s))"
  "spin_lock_bh l s = (if is_locked l (k_ring s) then None else Some (entered Bh l s))"
  by (cases s; simp add: entered_def spin_defs)+

lemma spin_unlock_leaving:
  "leaving Plain l before s = spin_unlock l s" "leaving Irq l before s = spin_unlock_irq l s"
  "leaving Any l before s = spin_unlock_irqrestore l before s" "leaving Bh l before s = spin_unlock_bh l s"
  by (cases s; simp add: leaving_def spin_defs)+

lemma bind_pair_map: "x \<bind> (\<lambda>(v, s). Some (g v s)) = map_option (\<lambda>(v, s). g v s) x"
  by (cases x) auto

lemma locked_guarded:
  "locked l body = guarded Plain l body" "locked_irq l body = guarded Irq l body"
  "locked_any l body = guarded Any l body" "locked_bh l body = guarded Bh l body"
  by (intro ext; simp add: guarded_def locked_def locked_irq_def locked_any_def locked_bh_def
      spin_lock_entered spin_unlock_leaving bind_pair_map)+

lemma resize_guarded:
  "ptr_ring_resize e destroy sz s =
     (case raw_ptr_ring_init_queue_alloc e sz of
        None \<Rightarrow> Some (- ENOMEM, [], None, s)
      | Some queue \<Rightarrow> map_option (\<lambda>((old, log), s'). (0, log, Some old, s'))
          (guarded Any consumer_lock (guarded Plain producer_lock (swap_queue_body e destroy queue sz)) s))"
  by (auto simp: ptr_ring_resize_def swap_queue_locked_def locked_guarded Option.bind_map_option
      split: option.split bind_split intro: sym)

lemma guarded_net_effect:
  assumes "lock_free f"
  shows "guarded d l (on_ring f) = net_effect d l f"
  using locked_result [OF assms, of l]
  by (intro ext, cases d) (simp_all add: locked_guarded net_effect_def)

lemma batched_lock_free [simp]: "lock_free (batched array n)"
  using lock_free_ops(5) [of array n] by (simp add: batched_def [abs_def])

lemma peek_lock_free [simp]: "lock_free (\<lambda>r. (f (raw_ptr_ring_peek r), r))"
  using lock_free_ops(6) [of f] by (simp add: PTR_RING_PEEK_CALL_raw_def)

text \<open>
  C15. The locking of the ring.  Whatever a body does, the four shapes of a public operation run it inside
  the critical section of their discipline, with the lock held until the body is over, and wait for ever
  when the caller holds the lock already.  Each of the twenty public produce, consume and test operations
  and the four peek macros runs its raw operation in one such section: producers and the full test under
  the producer lock, consumers, the empty test and the peek macros under the consumer lock.  Returning
  entries and replacing the array run under both locks, the producer lock inside the consumer lock with
  interrupts saved.  When it is over, a raw operation has left its effect on the ring and nothing else:
  the locks, the preemption count and the soft interrupt count are what they were, and so is the interrupt
  state, except that the \<open>_irq\<close> forms leave interrupts enabled.
\<close>

theorem public_operations_locked:
  "locked l body = guarded Plain l body \<and>
   locked_irq l body = guarded Irq l body \<and>
   locked_any l body = guarded Any l body \<and>
   locked_bh l body = guarded Bh l body \<and>
   ptr_ring_full = guarded Plain producer_lock (on_ring (\<lambda>r. (raw_ptr_ring_full r, r))) \<and>
   ptr_ring_full_irq = guarded Irq producer_lock (on_ring (\<lambda>r. (raw_ptr_ring_full r, r))) \<and>
   ptr_ring_full_any = guarded Any producer_lock (on_ring (\<lambda>r. (raw_ptr_ring_full r, r))) \<and>
   ptr_ring_full_bh = guarded Bh producer_lock (on_ring (\<lambda>r. (raw_ptr_ring_full r, r))) \<and>
   ptr_ring_produce x = guarded Plain producer_lock (on_ring (\<lambda>r. raw_ptr_ring_produce r x)) \<and>
   ptr_ring_produce_irq x = guarded Irq producer_lock (on_ring (\<lambda>r. raw_ptr_ring_produce r x)) \<and>
   ptr_ring_produce_any x = guarded Any producer_lock (on_ring (\<lambda>r. raw_ptr_ring_produce r x)) \<and>
   ptr_ring_produce_bh x = guarded Bh producer_lock (on_ring (\<lambda>r. raw_ptr_ring_produce r x)) \<and>
   ptr_ring_empty = guarded Plain consumer_lock (on_ring (\<lambda>r. (raw_ptr_ring_empty r, r))) \<and>
   ptr_ring_empty_irq = guarded Irq consumer_lock (on_ring (\<lambda>r. (raw_ptr_ring_empty r, r))) \<and>
   ptr_ring_empty_any = guarded Any consumer_lock (on_ring (\<lambda>r. (raw_ptr_ring_empty r, r))) \<and>
   ptr_ring_empty_bh = guarded Bh consumer_lock (on_ring (\<lambda>r. (raw_ptr_ring_empty r, r))) \<and>
   ptr_ring_consume = guarded Plain consumer_lock (on_ring (\<lambda>r. raw_ptr_ring_consume r)) \<and>
   ptr_ring_consume_irq = guarded Irq consumer_lock (on_ring (\<lambda>r. raw_ptr_ring_consume r)) \<and>
   ptr_ring_consume_any = guarded Any consumer_lock (on_ring (\<lambda>r. raw_ptr_ring_consume r)) \<and>
   ptr_ring_consume_bh = guarded Bh consumer_lock (on_ring (\<lambda>r. raw_ptr_ring_consume r)) \<and>
   ptr_ring_consume_batched array n = guarded Plain consumer_lock (on_ring (batched array n)) \<and>
   ptr_ring_consume_batched_irq array n = guarded Irq consumer_lock (on_ring (batched array n)) \<and>
   ptr_ring_consume_batched_any array n = guarded Any consumer_lock (on_ring (batched array n)) \<and>
   ptr_ring_consume_batched_bh array n = guarded Bh consumer_lock (on_ring (batched array n)) \<and>
   PTR_RING_PEEK_CALL f = guarded Plain consumer_lock (on_ring (\<lambda>r. (f (raw_ptr_ring_peek r), r))) \<and>
   PTR_RING_PEEK_CALL_IRQ f = guarded Irq consumer_lock (on_ring (\<lambda>r. (f (raw_ptr_ring_peek r), r))) \<and>
   PTR_RING_PEEK_CALL_ANY f = guarded Any consumer_lock (on_ring (\<lambda>r. (f (raw_ptr_ring_peek r), r))) \<and>
   PTR_RING_PEEK_CALL_BH f = guarded Bh consumer_lock (on_ring (\<lambda>r. (f (raw_ptr_ring_peek r), r))) \<and>
   ptr_ring_unconsume batch m =
     guarded Any consumer_lock (guarded Plain producer_lock (on_ring (unconsume_locked batch m))) \<and>
   swap_queue_locked e destroy queue sz =
     guarded Any consumer_lock (guarded Plain producer_lock (swap_queue_body e destroy queue sz)) \<and>
   ptr_ring_resize e destroy sz s =
     (case raw_ptr_ring_init_queue_alloc e sz of
        None \<Rightarrow> Some (- ENOMEM, [], None, s)
      | Some queue \<Rightarrow> map_option (\<lambda>((old, log), s'). (0, log, Some old, s'))
          (guarded Any consumer_lock (guarded Plain producer_lock (swap_queue_body e destroy queue sz)) s)) \<and>
   guarded d producer_lock (on_ring (\<lambda>r. (raw_ptr_ring_full r, r))) = net_effect d producer_lock (\<lambda>r. (raw_ptr_ring_full r, r)) \<and>
   guarded d producer_lock (on_ring (\<lambda>r. raw_ptr_ring_produce r x)) = net_effect d producer_lock (\<lambda>r. raw_ptr_ring_produce r x) \<and>
   guarded d consumer_lock (on_ring (\<lambda>r. (raw_ptr_ring_empty r, r))) = net_effect d consumer_lock (\<lambda>r. (raw_ptr_ring_empty r, r)) \<and>
   guarded d consumer_lock (on_ring (\<lambda>r. raw_ptr_ring_consume r)) = net_effect d consumer_lock (\<lambda>r. raw_ptr_ring_consume r) \<and>
   guarded d consumer_lock (on_ring (batched array n)) = net_effect d consumer_lock (batched array n) \<and>
   guarded d consumer_lock (on_ring (\<lambda>r. (f (raw_ptr_ring_peek r), r))) = net_effect d consumer_lock (\<lambda>r. (f (raw_ptr_ring_peek r), r))"
  by (simp add: public_ops ptr_ring_unconsume_def resize_guarded swap_queue_locked_def locked_guarded lock_free_ops
     
      guarded_net_effect batched_def [abs_def] PTR_RING_PEEK_CALL_raw_def [symmetric] del: batched_lock_free peek_lock_free)

end
