(* ===== verification/Checksum.thy ===== *)
theory Checksum
  imports Prelude
begin

text \<open>
  Byte order (\<open>uapi/linux/byteorder\<close>, \<open>uapi/linux/swab.h\<close>) and the Internet checksum helpers of
  \<open>net/checksum.h\<close>, with \<open>csum_fold\<close> of \<open>asm-generic/checksum.h\<close> and \<open>ror32\<close> of \<open>linux/bitops.h\<close>.

  The headers are compiled for one byte order; here it is the first argument of everything that
  depends on it.  A \<open>__be16\<close> or \<open>__be32\<close> is the word as the processor loads it from memory.
  \<open>csum_partial\<close> is not in the repository: where it is called it is an argument.

  The locale \<open>ones_sum\<close> is the contract of the end-around-carry additions: they add modulo
  \<open>2 ^ n - 1\<close>.
\<close>

unbundle bit_operations_syntax

section \<open>Byte order\<close>

datatype byteorder = Little_Endian | Big_Endian

definition swab16 :: "u16 \<Rightarrow> u16" where
  "swab16 x = push_bit 8 (x AND 0x00FF) OR drop_bit 8 (x AND 0xFF00)"

definition swab32 :: "u32 \<Rightarrow> u32" where
  "swab32 x = push_bit 24 (x AND 0x000000FF) OR push_bit 8 (x AND 0x0000FF00) OR
     drop_bit 8 (x AND 0x00FF0000) OR drop_bit 24 (x AND 0xFF000000)"

definition htons :: "byteorder \<Rightarrow> u16 \<Rightarrow> u16" where
  "htons E x = (case E of Little_Endian \<Rightarrow> swab16 x | Big_Endian \<Rightarrow> x)"

definition ntohs :: "byteorder \<Rightarrow> u16 \<Rightarrow> u16" where
  "ntohs E x = (case E of Little_Endian \<Rightarrow> swab16 x | Big_Endian \<Rightarrow> x)"

definition htonl :: "byteorder \<Rightarrow> u32 \<Rightarrow> u32" where
  "htonl E x = (case E of Little_Endian \<Rightarrow> swab32 x | Big_Endian \<Rightarrow> x)"

section \<open>Checksum helpers\<close>

definition ror32 :: "u32 \<Rightarrow> nat \<Rightarrow> u32" where
  "ror32 word shift = drop_bit (shift mod 32) word OR push_bit (nat ((- int shift) mod 32)) word"

definition csum_fold :: "u32 \<Rightarrow> u16" where
  "csum_fold csum =
     (let sum = csum;
          sum = (sum AND 0xFFFF) + drop_bit 16 sum;
          sum = (sum AND 0xFFFF) + drop_bit 16 sum
      in ucast (NOT sum))"

definition csum_add :: "u32 \<Rightarrow> u32 \<Rightarrow> u32" where
  "csum_add csum addend =
     (let res = csum;
          res = res + addend
      in res + (if res < addend then 1 else 0))"

definition csum_sub :: "u32 \<Rightarrow> u32 \<Rightarrow> u32" where
  "csum_sub csum addend = csum_add csum (NOT addend)"

definition csum16_add :: "u16 \<Rightarrow> u16 \<Rightarrow> u16" where
  "csum16_add csum addend =
     (let res = csum;
          res = res + addend
      in res + (if res < addend then 1 else 0))"

definition csum16_sub :: "u16 \<Rightarrow> u16 \<Rightarrow> u16" where
  "csum16_sub csum addend = csum16_add csum (NOT addend)"

definition csum_block_add :: "u32 \<Rightarrow> u32 \<Rightarrow> c_int \<Rightarrow> u32" where
  "csum_block_add csum csum2 offset =
     (let sum = csum2;
          sum = (if offset AND 1 \<noteq> 0 then ror32 sum 8 else sum)
      in csum_add csum sum)"

definition csum_block_add_ext :: "u32 \<Rightarrow> u32 \<Rightarrow> c_int \<Rightarrow> c_int \<Rightarrow> u32" where
  "csum_block_add_ext csum csum2 offset len = csum_block_add csum csum2 offset"

definition csum_block_sub :: "u32 \<Rightarrow> u32 \<Rightarrow> c_int \<Rightarrow> u32" where
  "csum_block_sub csum csum2 offset = csum_block_add csum (NOT csum2) offset"

definition csum_unfold :: "u16 \<Rightarrow> u32" where
  "csum_unfold n = ucast n"

text \<open>Functions that update a checksum in place return its new value.\<close>

definition csum_replace_by_diff :: "u16 \<Rightarrow> u32 \<Rightarrow> u16" where
  "csum_replace_by_diff s diff = csum_fold (csum_add diff (NOT (csum_unfold s)))"

definition csum_replace4 :: "u16 \<Rightarrow> u32 \<Rightarrow> u32 \<Rightarrow> u16" where
  "csum_replace4 s from to =
     (let tmp = csum_sub (NOT (csum_unfold s)) from
      in csum_fold (csum_add tmp to))"

definition csum_replace2 :: "u16 \<Rightarrow> u16 \<Rightarrow> u16 \<Rightarrow> u16" where
  "csum_replace2 s old new = NOT (csum16_add (csum16_sub (NOT s) old) new)"

text \<open>
  \<open>part\<close> is the result of \<open>csum_partial(ptr, start, 0)\<close>; the results are \<open>delta\<close> and the new value
  of \<open>*psum\<close>.
\<close>

definition remcsum_adjust :: "u32 \<Rightarrow> u16 \<Rightarrow> u32 \<Rightarrow> u32 \<times> u16" where
  "remcsum_adjust part psum csum =
     (let csum = csum_sub csum part;
          delta = csum_sub (ucast (csum_fold csum)) (ucast psum);
          psum = csum_fold csum
      in (delta, psum))"

definition remcsum_unadjust :: "u16 \<Rightarrow> u32 \<Rightarrow> u16" where
  "remcsum_unadjust psum delta = csum_fold (csum_sub delta (ucast psum))"

section \<open>End-around carry\<close>

lemma unat_not_add: "unat (NOT x) + unat x = 2 ^ LENGTH('a) - 1" for x :: "'a::len word"
proof -
  have "NOT x = - 1 - x"
    by (simp add: not_eq_complement)
  moreover have "unat (- 1 - x) = unat (- 1 :: 'a word) - unat x"
    by (rule unat_sub) simp
  moreover have "unat x \<le> unat (- 1 :: 'a word)"
    by (simp add: word_le_nat_alt [symmetric])
  ultimately show ?thesis
    by (simp add: unsigned_minus_1_eq_mask mask_eq_exp_minus_1)
qed

text \<open>
  An addition modulo \<open>2 ^ n - 1\<close> on \<open>n\<close> bit words, up to the two representations of zero, and what
  follows for subtraction by adding the complement and for replacing a summand.
\<close>

locale ones_sum =
  fixes add :: "'w::len word \<Rightarrow> 'w word \<Rightarrow> 'w word"
  assumes add: "unat (add x y) mod (2 ^ LENGTH('w) - 1) = (unat x + unat y) mod (2 ^ LENGTH('w) - 1)"
begin

lemma sub: "(unat (add x (NOT y)) + unat y) mod (2 ^ LENGTH('w) - 1) = unat x mod (2 ^ LENGTH('w) - 1)"
  using mod_add_cong [OF add [of x "NOT y"] refl, of "unat y"] unat_not_add [of y]
  by (simp only: add.assoc mod_add_self2)

lemma replace:
  "(unat (add (add x (NOT old)) new) + unat old) mod (2 ^ LENGTH('w) - 1) =
     (unat x + unat new) mod (2 ^ LENGTH('w) - 1)"
  using mod_add_cong [OF add [of "add x (NOT old)" new] refl, of "unat old"]
    mod_add_cong [OF sub [of x old] refl, of "unat new"]
  by (simp only: ac_simps)

end

lemma carry_add:
  fixes x y :: "'a::len word"
  shows "unat (x + y + (if x + y < y then 1 else 0)) mod (2 ^ LENGTH('a) - 1) =
    (unat x + unat y) mod (2 ^ LENGTH('a) - 1)"
proof -
  define N where "N = (2 :: nat) ^ LENGTH('a)"
  have le: "unat x < N" "unat y < N" and N: "0 < N"
    by (simp_all add: N_def unsigned_less)
  have xy: "unat (x + y) = (if unat x + unat y < N then unat x + unat y else unat x + unat y - N)"
    by (simp only: unat_plus_if' N_def)
  show ?thesis
  proof (cases "unat x + unat y < N")
    case True
    then show ?thesis
      using xy by (simp add: word_less_nat_alt)
  next
    case False
    with xy le have lt: "unat (x + y) < unat y" and s: "unat (x + y) + N = unat x + unat y"
      by auto
    have "unat (x + y + 1) = unat (x + y) + 1"
      using lt le(2) by (simp add: unat_word_ariths N_def [symmetric])
    with s N have "unat x + unat y = unat (x + y + 1) + (N - 1)"
      by simp
    with lt show ?thesis
      unfolding N_def by (simp only: mod_add_self2 word_less_nat_alt if_True)
  qed
qed

interpretation c32: ones_sum csum_add
  by unfold_locales (simp only: csum_add_def Let_def carry_add)

interpretation c16: ones_sum csum16_add
  by unfold_locales (simp only: csum16_add_def Let_def carry_add)

section \<open>Sixteen bit sums\<close>

lemma unat_be16: "unat (be16 h l) = 256 * unat h + unat l"
proof -
  have "be16 h l = push_bit 8 (ucast h) + ucast l"
    unfolding be16_def by (rule disjunctive_add [symmetric]) (auto simp: bit_simps dest: bit_imp_le_length)
  then have "unat (be16 h l) = (unat h * 256 + unat l) mod 2 ^ 16"
    by (simp add: unat_word_ariths push_bit_eq_mult unsigned_ucast_eq take_bit_eq_mod mod_simps)
  also have "\<dots> = 256 * unat h + unat l"
    using unsigned_less [of h, where ?'a = nat] unsigned_less [of l, where ?'a = nat] by simp
  finally show ?thesis .
qed

lemma swab16_be16: "swab16 (be16 h l) = be16 l h"
  unfolding swab16_def be16_def
  by (rule bit_word_eqI) (auto simp: bit_simps word_lits dest: bit_imp_le_length)

lemma unat_be16_swap: "unat (be16 l h) mod 65535 = 256 * unat (be16 h l) mod 65535"
proof -
  have "256 * unat (be16 h l) = unat (be16 l h) + 65535 * unat h"
    by (simp add: unat_be16)
  then show ?thesis
    by simp
qed

lemma unat_ntohs: "unat (ntohs E x) mod 65535 = (case E of Little_Endian \<Rightarrow> 256 | Big_Endian \<Rightarrow> 1) * unat x mod 65535"
proof (cases E)
  case Little_Endian
  have "unat (swab16 x) mod 65535 = 256 * unat x mod 65535"
    using swab16_be16 [of "hi8 x" "lo8 x"] unat_be16_swap [of "lo8 x" "hi8 x"] by simp
  with Little_Endian show ?thesis
    by (simp add: ntohs_def)
qed (simp add: ntohs_def)

lemma ntohs_htons [simp]: "ntohs E (htons E x) = x"
  using swab16_be16 [of "hi8 x" "lo8 x"] swab16_be16 [of "lo8 x" "hi8 x"]
  by (cases E) (simp_all add: ntohs_def htons_def)

lemma htons_ntohs [simp]: "htons E (ntohs E x) = x"
  using ntohs_htons [of E x] by (simp add: ntohs_def htons_def)

lemma unat_lo16: "unat (x AND 0xFFFF) = unat x mod 65536" for x :: u32
  using take_bit_eq_mask [of 16 x] unsigned_take_bit_eq [of 16 x, where ?'a = nat]
  by (simp add: mask_eq_exp_minus_1 take_bit_eq_mod)

lemma unat_hi16: "unat (drop_bit 16 x) = unat x div 65536" for x :: u32
  by (simp add: drop_bit_eq_div unat_div)

lemma unat_halves: "unat x = 65536 * unat (drop_bit 16 x) + unat (x AND 0xFFFF)" for x :: u32
  by (simp add: unat_lo16 unat_hi16)

text \<open>
  The folded checksum is the complement of the sum modulo \<open>65535\<close>; a nonzero multiple counts as
  \<open>0xFFFF\<close>.
\<close>

definition ones16 :: "nat \<Rightarrow> nat" where
  "ones16 n = (if n \<noteq> 0 \<and> n mod 65535 = 0 then 65535 else n mod 65535)"

lemma ones16_le: "ones16 n \<le> 65535"
  by (simp add: ones16_def less_imp_le)

lemma ones16_mod: "ones16 n mod 65535 = n mod 65535"
  by (simp add: ones16_def)

lemma unat_csum_fold: "unat (csum_fold x) = 65535 - ones16 (unat x)"
proof -
  define s1 where "s1 = (x AND 0xFFFF) + drop_bit 16 x"
  define s2 where "s2 = (s1 AND 0xFFFF) + drop_bit 16 s1"
  have b: "unat (y AND 0xFFFF) < 65536" "unat (drop_bit 16 y) < 65536" for y :: u32
    using unsigned_less [of y, where ?'a = nat] by (simp_all add: unat_lo16 unat_hi16)
  have 1: "unat s1 = unat (x AND 0xFFFF) + unat (drop_bit 16 x)"
    using b [of x] by (simp add: s1_def unat_word_ariths)
  have 2: "unat s2 = unat (s1 AND 0xFFFF) + unat (drop_bit 16 s1)"
    using b [of s1] by (simp add: s2_def unat_word_ariths)
  have le: "unat s2 \<le> 65535"
    using 1 2 b [of x] b [of s1] unat_halves [of s1] by linarith
  have "unat x = unat s1 + 65535 * unat (drop_bit 16 x)" "unat s1 = unat s2 + 65535 * unat (drop_bit 16 s1)"
    using unat_halves [of x] unat_halves [of s1] 1 2 by linarith+
  then have m: "unat x mod 65535 = unat s2 mod 65535"
    by (metis mod_mult_self2)
  have "unat s2 = 0 \<longleftrightarrow> unat x = 0"
    using 1 2 unat_halves [of x] unat_halves [of s1] by auto
  with m le have s2: "unat s2 = ones16 (unat x)"
    by (cases "unat s2 = 65535") (auto simp: ones16_def)
  have "unat (csum_fold x) = unat (ucast (NOT s2) :: u16)"
    by (simp add: csum_fold_def Let_def s1_def s2_def)
  also have "\<dots> = unat (NOT s2) mod 65536"
    by (simp add: unsigned_ucast_eq take_bit_eq_mod)
  also have "unat (NOT s2) = 65535 * 65536 + (65535 - unat s2)"
    using unat_not_add [of s2] le by simp
  also have "\<dots> mod 65536 = 65535 - unat s2"
    by (simp only: mod_mult_self3) simp
  finally show ?thesis
    by (simp add: s2)
qed

lemma csum_fold_add: "(unat (csum_fold x) + unat x) mod 65535 = 0"
proof -
  have "(unat (csum_fold x) + unat x) mod 65535 = (65535 - ones16 (unat x) + ones16 (unat x)) mod 65535"
    unfolding unat_csum_fold by (rule mod_add_cong [OF refl ones16_mod [symmetric]])
  then show ?thesis
    using ones16_le [of "unat x"] by simp
qed

lemma csum_fold_0_iff: "csum_fold x = 0 \<longleftrightarrow> x \<noteq> 0 \<and> unat x mod 65535 = 0"
proof -
  have "csum_fold x = 0 \<longleftrightarrow> ones16 (unat x) = 65535"
    using unat_csum_fold [of x] ones16_le [of "unat x"] by (simp add: unat_eq_zero [symmetric])
  also have "\<dots> \<longleftrightarrow> unat x \<noteq> 0 \<and> unat x mod 65535 = 0"
    using mod_less_divisor [of 65535 "unat x"] unfolding ones16_def by (auto simp del: mod_less_divisor)
  finally show ?thesis
    by (simp add: unat_eq_zero)
qed

text \<open>From sums modulo \<open>2 ^ 32 - 1\<close> to sums modulo \<open>2 ^ 16 - 1\<close>, and complements in congruences.\<close>

lemma mod32_16: "a mod 4294967295 = b mod 4294967295 \<Longrightarrow> a mod 65535 = b mod (65535 :: nat)"
  using mod_mod_cancel [of 65535 "4294967295 :: nat" a] mod_mod_cancel [of 65535 "4294967295 :: nat" b]
  by (simp add: dvd_def exI [of _ "65537 :: nat"])

lemma complement_mod:
  fixes t :: nat
  assumes "(t + a) mod M = (ns + b) mod M" and "(nt + t) mod M = 0" and "(ns + s) mod M = 0"
  shows "(nt + b) mod M = (s + a) mod M"
proof -
  have "(nt + b) mod M = (nt + b + (ns + s)) mod M"
    using assms(3) by (metis add_0_right mod_add_right_eq)
  also have "\<dots> = ((nt + s) + (ns + b)) mod M"
    by (simp only: ac_simps)
  also have "\<dots> = ((nt + s) + (t + a)) mod M"
    by (rule mod_add_cong [OF refl assms(1) [symmetric]])
  also have "\<dots> = ((s + a) + (nt + t)) mod M"
    by (simp only: ac_simps)
  also have "\<dots> = (s + a) mod M"
    using assms(2) by (metis add_0_right mod_add_right_eq)
  finally show ?thesis .
qed

section \<open>Properties\<close>

lemma moduli: "2 ^ LENGTH(16) - 1 = (65535 :: nat)" "2 ^ LENGTH(32) - 1 = (4294967295 :: nat)"
  by simp_all

lemma csum_add_16: "unat (csum_add x y) mod 65535 = (unat x + unat y) mod 65535"
  using c32.add [of x y] by (intro mod32_16) simp

lemma csum_sub_16: "(unat (csum_sub x y) + unat y) mod 65535 = unat x mod 65535"
  using c32.sub [of x y] by (intro mod32_16) (simp add: csum_sub_def)

lemma csum_sub_add_16: "(unat (csum_add (csum_sub x old) new) + unat old) mod 65535 = (unat x + unat new) mod 65535"
  using c32.replace [of x old new] by (intro mod32_16) (simp add: csum_sub_def)

lemma unat_unfold [simp]: "unat (csum_unfold s) = unat s"
  using unsigned_less [of s, where ?'a = nat]
  by (simp add: csum_unfold_def unsigned_ucast_eq take_bit_eq_mod)

lemma not_mod16: "(unat (NOT s) + unat s) mod 65535 = 0" for s :: u16
  using unat_not_add [of s] by simp

lemma not_unfold_mod16: "(unat (NOT (csum_unfold s)) + unat s) mod 65535 = 0"
  using unat_not_add [of "csum_unfold s"] by simp

lemma unat_ror32_8: "unat (ror32 x 8) = unat x div 256 + 16777216 * (unat x mod 256)"
proof -
  have "ror32 x 8 = drop_bit 8 x + push_bit 24 x"
    unfolding ror32_def
    by (simp, rule disjunctive_add [symmetric]) (auto simp: bit_simps dest: bit_imp_le_length)
  then have "unat (ror32 x 8) = (unat x div 256 + unat x * 16777216 mod 4294967296) mod 4294967296"
    by (simp add: unat_word_ariths push_bit_eq_mult drop_bit_eq_div mod_simps)
  also have "unat x * 16777216 mod 4294967296 = 16777216 * (unat x mod 256)"
    using mult_mod_right [of 16777216 "unat x" 256] by (simp add: mult.commute)
  finally show ?thesis
    using unsigned_less [of x, where ?'a = nat] mod_less_divisor [of 256 "unat x"] by simp
qed

lemma ror32_8_mod: "unat (ror32 x 8) mod 65535 = 256 * unat x mod 65535"
proof -
  have "unat x = 256 * (unat x div 256) + unat x mod 256"
    by simp
  then have "unat (ror32 x 8) + 65535 * (unat x div 256) = 256 * unat x + 65535 * (256 * (unat x mod 256))"
    unfolding unat_ror32_8 by linarith
  then show ?thesis
    by (metis mod_mult_self2)
qed

definition block_weight :: "c_int \<Rightarrow> nat" where
  "block_weight offset = (if offset AND 1 \<noteq> 0 then 256 else 1)"

lemma csum_block_add_mod:
  "unat (csum_block_add x y off) mod 65535 = (unat x + block_weight off * unat y) mod 65535"
proof (cases "off AND 1 = 0")
  case False
  then show ?thesis
    using mod_add_cong [OF refl ror32_8_mod, of "unat x" y]
    by (simp add: csum_block_add_def block_weight_def csum_add_16)
qed (simp add: csum_block_add_def block_weight_def csum_add_16)

lemma csum_add_0_iff: "csum_add x y = 0 \<longleftrightarrow> x = 0 \<and> y = 0"
proof
  assume 0: "csum_add x y = 0"
  show "x = 0 \<and> y = 0"
  proof (cases "x + y < y")
    case True
    with 0 have "x + y + 1 = 0"
      by (simp add: csum_add_def Let_def)
    then have "x + y = - 1"
      by (simp add: eq_neg_iff_add_eq_0)
    with True show ?thesis
      by simp
  next
    case False
    with 0 have "x + y = 0"
      by (simp add: csum_add_def Let_def)
    with False show ?thesis
      by (simp add: not_less)
  qed
qed (simp add: csum_add_def)

lemma csum_sub_nonzero: "csum_sub x (ucast y) \<noteq> 0" for y :: u16
proof
  assume "csum_sub x (ucast y) = 0"
  then have "NOT (ucast y :: u32) = 0"
    by (simp add: csum_sub_def csum_add_0_iff)
  then have "unat (ucast y :: u32) = 4294967295"
    using unat_not_add [of "ucast y :: u32", unfolded moduli] by simp
  then show False
    using unat_unfold [of y] unsigned_less [of y, where ?'a = nat] by (simp add: csum_unfold_def)
qed

lemma mod_cancel: "(a + b) mod M = (a + c) mod M \<Longrightarrow> b mod M = c mod (M :: nat)"
proof -
  assume "(a + b) mod M = (a + c) mod M"
  then have "int (a + b) mod int M = int (a + c) mod int M"
    by (simp only: zmod_int [symmetric])
  then have "int b mod int M = int c mod int M"
    by (simp add: mod_eq_dvd_iff)
  then show ?thesis
    by (simp only: zmod_int [symmetric] of_nat_eq_iff)
qed

lemma unat_csum_fold_nonzero: "x \<noteq> 0 \<Longrightarrow> (unat x + n) mod 65535 = 0 \<Longrightarrow> unat (csum_fold x) = n mod 65535"
proof -
  assume x: "x \<noteq> 0" and n: "(unat x + n) mod 65535 = 0"
  have "(unat x + unat (csum_fold x)) mod 65535 = (unat x + n) mod 65535"
    unfolding n using csum_fold_add [of x] by (simp only: add.commute)
  then have "unat (csum_fold x) mod 65535 = n mod 65535"
    by (rule mod_cancel)
  moreover have "unat (csum_fold x) < 65535"
    using x unfolding unat_csum_fold by (auto simp: ones16_def unat_eq_zero)
  ultimately show ?thesis by simp
qed

text \<open>
  The sum of a block at an offset in a message adds to the sum of the message, with its bytes
  exchanged when the offset is odd, and taking the block out again restores the sum.
\<close>

lemma csum_blocks:
  "unat (csum_block_add_ext csum csum2 offset len) mod 65535 =
     (unat csum + (if offset AND 1 \<noteq> 0 then 256 else 1) * unat csum2) mod 65535 \<and>
   unat (csum_block_sub (csum_block_add csum csum2 offset) csum2 offset) mod 65535 = unat csum mod 65535"
proof
  show "unat (csum_block_add_ext csum csum2 offset len) mod 65535 =
      (unat csum + (if offset AND 1 \<noteq> 0 then 256 else 1) * unat csum2) mod 65535"
    using csum_block_add_mod [of csum csum2 offset] by (simp only: csum_block_add_ext_def block_weight_def)
  let ?w = "block_weight offset"
  have "unat (csum_block_sub (csum_block_add csum csum2 offset) csum2 offset) mod 65535 =
      (unat (csum_block_add csum csum2 offset) + ?w * unat (NOT csum2)) mod 65535"
    unfolding csum_block_sub_def by (rule csum_block_add_mod)
  also have "\<dots> = (unat csum + ?w * unat csum2 + ?w * unat (NOT csum2)) mod 65535"
    by (rule mod_add_cong [OF csum_block_add_mod refl])
  also have "\<dots> = (unat csum + 65535 * (65537 * ?w)) mod 65535"
    using unat_not_add [of csum2, unfolded moduli]
    by (simp only: add.assoc distrib_left [symmetric] add.commute [of "unat csum2"]) (simp add: mult.commute)
  also have "\<dots> = unat csum mod 65535"
    by (rule mod_mult_self2)
  finally show "unat (csum_block_sub (csum_block_add csum csum2 offset) csum2 offset) mod 65535 = unat csum mod 65535" .
qed

text \<open>
  Replacing a summand of a checksummed message by another, through any of the update functions,
  adjusts the checksum field so that field and summand together contribute the same as before to
  the ones' complement sum of the message; a partial sum applied as a difference is taken out of
  the field.  The sum of a block at an offset adds to the sum of the message, with its bytes
  exchanged when the offset is odd, and taking the block out again restores the sum.
\<close>

lemma checksum_updates_part:
  "(unat (csum_replace2 s old new) + unat new) mod 65535 = (unat s + unat old) mod 65535 \<and>
   (unat (csum_replace4 s from to) + unat to) mod 65535 = (unat s + unat from) mod 65535 \<and>
   (unat (csum_replace_by_diff s diff) + unat diff) mod 65535 = unat s mod 65535 \<and>
   unat (csum_block_add_ext csum csum2 offset len) mod 65535 =
     (unat csum + (if offset AND 1 \<noteq> 0 then 256 else 1) * unat csum2) mod 65535 \<and>
   unat (csum_block_sub (csum_block_add csum csum2 offset) csum2 offset) mod 65535 = unat csum mod 65535"
proof (intro conjI)
  show "unat (csum_block_add_ext csum csum2 offset len) mod 65535 =
      (unat csum + (if offset AND 1 \<noteq> 0 then 256 else 1) * unat csum2) mod 65535"
    "unat (csum_block_sub (csum_block_add csum csum2 offset) csum2 offset) mod 65535 = unat csum mod 65535"
    using csum_blocks [of csum csum2 offset len] by blast+
  show "(unat (csum_replace2 s old new) + unat new) mod 65535 = (unat s + unat old) mod 65535"
    unfolding csum_replace2_def csum16_sub_def
    by (rule complement_mod [OF c16.replace [unfolded moduli] not_mod16 not_mod16])
  show "(unat (csum_replace4 s from to) + unat to) mod 65535 = (unat s + unat from) mod 65535"
    unfolding csum_replace4_def Let_def
    by (rule complement_mod [OF csum_sub_add_16 csum_fold_add not_unfold_mod16])
  have "(unat (csum_add diff (NOT (csum_unfold s))) + 0) mod 65535 =
      (unat (NOT (csum_unfold s)) + unat diff) mod 65535"
    by (simp add: csum_add_16 add.commute)
  from complement_mod [OF this csum_fold_add not_unfold_mod16]
  show "(unat (csum_replace_by_diff s diff) + unat diff) mod 65535 = unat s mod 65535"
    by (simp add: csum_replace_by_diff_def)
qed

text \<open>
  Remote checksum offload: the adjusted field completes the sum of the data behind \<open>start\<close>, and
  undoing the adjustment restores the old value of the field, where \<open>0xFFFF\<close> comes back as the
  other representation of zero.
\<close>

lemma remcsum_roundtrip_part:
  "(unat (snd (remcsum_adjust part psum csum)) + unat csum) mod 65535 = unat part mod 65535 \<and>
   remcsum_unadjust (snd (remcsum_adjust part psum csum)) (fst (remcsum_adjust part psum csum)) =
     (if psum = 0xFFFF then 0 else psum)"
proof
  define c where "c = csum_sub csum part"
  define p' where "p' = csum_fold c"
  define delta where "delta = csum_sub (csum_unfold p') (csum_unfold psum)"
  define d where "d = csum_sub delta (csum_unfold p')"
  have adjust: "remcsum_adjust part psum csum = (delta, p')"
    by (simp add: remcsum_adjust_def Let_def delta_def p'_def c_def csum_unfold_def)
  have "(unat p' + unat csum) mod 65535 = (unat p' + (unat c + unat part)) mod 65535"
    unfolding c_def by (rule mod_add_cong [OF refl csum_sub_16 [symmetric]])
  also have "\<dots> = (unat p' + unat c + unat part) mod 65535"
    by (simp only: add.assoc)
  also have "\<dots> = (0 + unat part) mod 65535"
    unfolding p'_def by (rule mod_add_cong) (simp_all add: csum_fold_add)
  finally show "(unat (snd (remcsum_adjust part psum csum)) + unat csum) mod 65535 = unat part mod 65535"
    by (simp add: adjust)
  have "(unat p' + (unat d + unat psum)) mod 65535 = (unat d + unat p' + unat psum) mod 65535"
    by (simp only: ac_simps)
  also have "\<dots> = (unat delta + unat psum) mod 65535"
    using csum_sub_16 [of delta "csum_unfold p'"] by (intro mod_add_cong) (simp_all add: d_def)
  also have "\<dots> = (unat p' + 0) mod 65535"
    using csum_sub_16 [of "csum_unfold p'" "csum_unfold psum"] by (simp add: delta_def)
  finally have "(unat d + unat psum) mod 65535 = 0 mod 65535"
    by (rule mod_cancel)
  moreover have "d \<noteq> 0"
    unfolding d_def csum_unfold_def by (rule csum_sub_nonzero)
  ultimately have "unat (csum_fold d) = unat psum mod 65535"
    by (intro unat_csum_fold_nonzero) simp_all
  also have "\<dots> = unat (if psum = 0xFFFF then 0 else psum)"
    using unsigned_less [of psum, where ?'a = nat] by (auto simp: unat_arith_simps)
  finally show "remcsum_unadjust (snd (remcsum_adjust part psum csum)) (fst (remcsum_adjust part psum csum)) =
      (if psum = 0xFFFF then 0 else psum)"
    by (simp add: adjust remcsum_unadjust_def d_def csum_unfold_def unsigned_word_eqI)
qed

text \<open>
  C19. The incremental updates of an Internet checksum adjust the field so that field and summand together
  contribute the same as before to the ones' complement sum of the message, and the sum of a block adds with its bytes
  exchanged when its offset is odd and can be taken out again.  A remote checksum adjustment completes the sum of the
  data, and undoing it restores the old value of the field, where \<open>0xFFFF\<close> comes back as the other zero.
\<close>

theorem checksum_updates:
  "((unat (csum_replace2 s old new) + unat new) mod 65535 = (unat s + unat old) mod 65535 \<and>
   (unat (csum_replace4 s from to) + unat to) mod 65535 = (unat s + unat from) mod 65535 \<and>
   (unat (csum_replace_by_diff s diff) + unat diff) mod 65535 = unat s mod 65535 \<and>
   unat (csum_block_add_ext csum csum2 offset len) mod 65535 =
     (unat csum + (if offset AND 1 \<noteq> 0 then 256 else 1) * unat csum2) mod 65535 \<and>
   unat (csum_block_sub (csum_block_add csum csum2 offset) csum2 offset) mod 65535 = unat csum mod 65535) \<and>
    ((unat (snd (remcsum_adjust part psum csum)) + unat csum) mod 65535 = unat part mod 65535 \<and>
   remcsum_unadjust (snd (remcsum_adjust part psum csum)) (fst (remcsum_adjust part psum csum)) =
     (if psum = 0xFFFF then 0 else psum))"
  by (rule conjI [OF checksum_updates_part remcsum_roundtrip_part])

end
