(* ===== verification/Ecn.thy ===== *)
theory Ecn
  imports Checksum
begin

text \<open>
  Explicit congestion notification: \<open>net/inet_ecn.h\<close> and \<open>net/dsfield.h\<close>, with the parts of
  \<open>linux/if_vlan.h\<close> and \<open>linux/skbuff.h\<close> that find the protocol and the header of a packet.

  A packet is the linear buffer of a socket buffer, as bytes, with its offsets; headers are read
  from and written to those bytes.  \<open>struct iphdr\<close> is a record of the values the processor loads;
  the two four bit fields of its first byte are one member.  Of \<open>struct ipv6hdr\<close> the code touches
  the first four bytes only.  \<open>skb_copy_bits\<close>, which reads data outside the linear buffer, is not in
  the repository: it is the argument \<open>copy_bits\<close>, \<open>None\<close> where it fails.
\<close>

unbundle bit_operations_syntax

section \<open>Words in memory\<close>

definition be32 :: "u8 \<Rightarrow> u8 \<Rightarrow> u8 \<Rightarrow> u8 \<Rightarrow> u32" where
  "be32 a b c d = push_bit 24 (ucast a) OR push_bit 16 (ucast b) OR push_bit 8 (ucast c) OR ucast d"

definition raw16 :: "byteorder \<Rightarrow> u8 \<Rightarrow> u8 \<Rightarrow> u16" where
  "raw16 E a b = (case E of Little_Endian \<Rightarrow> be16 b a | Big_Endian \<Rightarrow> be16 a b)"

definition bytes16 :: "byteorder \<Rightarrow> u16 \<Rightarrow> u8 list" where
  "bytes16 E w = (case E of Little_Endian \<Rightarrow> [lo8 w, hi8 w] | Big_Endian \<Rightarrow> [hi8 w, lo8 w])"

definition raw32 :: "byteorder \<Rightarrow> u8 \<Rightarrow> u8 \<Rightarrow> u8 \<Rightarrow> u8 \<Rightarrow> u32" where
  "raw32 E a b c d = (case E of Little_Endian \<Rightarrow> be32 d c b a | Big_Endian \<Rightarrow> be32 a b c d)"

definition bytes32 :: "byteorder \<Rightarrow> u32 \<Rightarrow> u8 list" where
  "bytes32 E w =
     (let bs = [ucast (drop_bit 24 w), ucast (drop_bit 16 w), ucast (drop_bit 8 w), ucast w]
      in case E of Little_Endian \<Rightarrow> rev bs | Big_Endian \<Rightarrow> bs)"

section \<open>Headers, sockets and packets\<close>

record iphdr =
  ip_version_ihl :: u8
  ip_tos :: u8
  ip_tot_len :: u16
  ip_id :: u16
  ip_frag_off :: u16
  ip_ttl :: u8
  ip_protocol :: u8
  ip_check :: u16
  ip_saddr :: u32
  ip_daddr :: u32

record ipv6hdr =
  ip6_priority_version :: u8
  ip6_flow_lbl :: "u8 \<times> u8 \<times> u8"

record ecn_sock =
  inet_tos :: u8
  inet6_tclass :: "u8 option"

record sk_buff =
  skb_head :: "u8 list"
  skb_data :: nat
  skb_tail :: nat
  skb_nh :: nat
  skb_len :: u32
  skb_data_len :: u32
  skb_mac_len :: u16
  skb_proto :: u16
  skb_vlan_present :: bool
  skb_vlan_proto :: u16
  skb_complete :: bool
  skb_csum :: u32

text \<open>The first half and the whole of the word at the start of an IPv6 header.\<close>

definition ip6_half :: "byteorder \<Rightarrow> ipv6hdr \<Rightarrow> u16" where
  "ip6_half E h = raw16 E (ip6_priority_version h) (fst (ip6_flow_lbl h))"

definition set_ip6_half :: "byteorder \<Rightarrow> u16 \<Rightarrow> ipv6hdr \<Rightarrow> ipv6hdr" where
  "set_ip6_half E w h =
     h\<lparr>ip6_priority_version := bytes16 E w ! 0, ip6_flow_lbl := (bytes16 E w ! 1, snd (ip6_flow_lbl h))\<rparr>"

definition ip6_word :: "byteorder \<Rightarrow> ipv6hdr \<Rightarrow> u32" where
  "ip6_word E h = (case ip6_flow_lbl h of (b, c, d) \<Rightarrow> raw32 E (ip6_priority_version h) b c d)"

definition set_ip6_word :: "byteorder \<Rightarrow> u32 \<Rightarrow> ipv6hdr \<Rightarrow> ipv6hdr" where
  "set_ip6_word E w h =
     h\<lparr>ip6_priority_version := bytes32 E w ! 0,
       ip6_flow_lbl := (bytes32 E w ! 1, bytes32 E w ! 2, bytes32 E w ! 3)\<rparr>"

text \<open>The headers \<open>ip_hdr(skb)\<close> and \<open>ipv6_hdr(skb)\<close> in the buffer.\<close>

definition nh_byte :: "sk_buff \<Rightarrow> nat \<Rightarrow> u8" where
  "nh_byte skb i = skb_head skb ! (skb_nh skb + i)"

definition ip_hdr :: "byteorder \<Rightarrow> sk_buff \<Rightarrow> iphdr" where
  "ip_hdr E skb =
     \<lparr>ip_version_ihl = nh_byte skb 0,
      ip_tos = nh_byte skb 1,
      ip_tot_len = raw16 E (nh_byte skb 2) (nh_byte skb 3),
      ip_id = raw16 E (nh_byte skb 4) (nh_byte skb 5),
      ip_frag_off = raw16 E (nh_byte skb 6) (nh_byte skb 7),
      ip_ttl = nh_byte skb 8,
      ip_protocol = nh_byte skb 9,
      ip_check = raw16 E (nh_byte skb 10) (nh_byte skb 11),
      ip_saddr = raw32 E (nh_byte skb 12) (nh_byte skb 13) (nh_byte skb 14) (nh_byte skb 15),
      ip_daddr = raw32 E (nh_byte skb 16) (nh_byte skb 17) (nh_byte skb 18) (nh_byte skb 19)\<rparr>"

definition iphdr_bytes :: "byteorder \<Rightarrow> iphdr \<Rightarrow> u8 list" where
  "iphdr_bytes E h =
     [ip_version_ihl h, ip_tos h] @ bytes16 E (ip_tot_len h) @ bytes16 E (ip_id h) @
     bytes16 E (ip_frag_off h) @ [ip_ttl h, ip_protocol h] @ bytes16 E (ip_check h) @
     bytes32 E (ip_saddr h) @ bytes32 E (ip_daddr h)"

definition set_ip_hdr :: "byteorder \<Rightarrow> iphdr \<Rightarrow> sk_buff \<Rightarrow> sk_buff" where
  "set_ip_hdr E h skb = skb\<lparr>skb_head := memcpy_at (skb_head skb) (skb_nh skb) (iphdr_bytes E h)\<rparr>"

definition ipv6_hdr :: "sk_buff \<Rightarrow> ipv6hdr" where
  "ipv6_hdr skb =
     \<lparr>ip6_priority_version = nh_byte skb 0, ip6_flow_lbl = (nh_byte skb 1, nh_byte skb 2, nh_byte skb 3)\<rparr>"

definition set_ipv6_hdr :: "ipv6hdr \<Rightarrow> sk_buff \<Rightarrow> sk_buff" where
  "set_ipv6_hdr h skb =
     skb\<lparr>skb_head := memcpy_at (skb_head skb) (skb_nh skb)
       (case ip6_flow_lbl h of (b, c, d) \<Rightarrow> [ip6_priority_version h, b, c, d])\<rparr>"

section \<open>The protocol of a packet\<close>

definition ETH_HLEN :: nat where "ETH_HLEN = 14"
definition ETH_P_IP :: u16 where "ETH_P_IP = 0x0800"
definition ETH_P_8021Q :: u16 where "ETH_P_8021Q = 0x8100"
definition ETH_P_IPV6 :: u16 where "ETH_P_IPV6 = 0x86DD"
definition ETH_P_8021AD :: u16 where "ETH_P_8021AD = 0x88A8"
definition VLAN_HLEN :: nat where "VLAN_HLEN = 4"
definition VLAN_MAX_DEPTH :: nat where "VLAN_MAX_DEPTH = 8"

type_synonym copy_bits = "sk_buff \<Rightarrow> nat \<Rightarrow> nat \<Rightarrow> u8 list option"

definition skb_headlen :: "sk_buff \<Rightarrow> u32" where
  "skb_headlen skb = skb_len skb - skb_data_len skb"

definition skb_header_pointer :: "copy_bits \<Rightarrow> sk_buff \<Rightarrow> nat \<Rightarrow> nat \<Rightarrow> u8 list option" where
  "skb_header_pointer copy_bits skb offset len =
     (if sint (skb_headlen skb) - int offset \<ge> int len
      then Some (take len (drop (skb_data skb + offset) (skb_head skb)))
      else copy_bits skb offset len)"

definition eth_type_vlan :: "byteorder \<Rightarrow> u16 \<Rightarrow> bool" where
  "eth_type_vlan E ethertype \<longleftrightarrow> ethertype = htons E ETH_P_8021Q \<or> ethertype = htons E ETH_P_8021AD"

text \<open>
  The loop over the tags; \<open>parse_depth\<close> is positive on entry.  The encapsulated protocol is the
  second half of the four byte tag.
\<close>

primrec vlan_tags :: "byteorder \<Rightarrow> copy_bits \<Rightarrow> sk_buff \<Rightarrow> nat \<Rightarrow> nat \<Rightarrow> u16" where
  "vlan_tags E copy_bits skb 0 vlan_depth = 0"
| "vlan_tags E copy_bits skb (Suc parse_depth) vlan_depth =
     (case skb_header_pointer copy_bits skb vlan_depth 4 of
        None \<Rightarrow> 0
      | Some vh \<Rightarrow>
          if parse_depth = 0 then 0
          else let type = raw16 E (vh ! 2) (vh ! 3); vlan_depth = vlan_depth + VLAN_HLEN
               in if eth_type_vlan E type then vlan_tags E copy_bits skb parse_depth vlan_depth
                  else type)"

definition vlan_get_protocol_from :: "byteorder \<Rightarrow> copy_bits \<Rightarrow> sk_buff \<Rightarrow> u16 \<Rightarrow> u16" where
  "vlan_get_protocol_from E copy_bits skb type =
     (let vlan_depth = unat (skb_mac_len skb); parse_depth = VLAN_MAX_DEPTH
      in if eth_type_vlan E type then
           if vlan_depth \<noteq> 0 then
             if vlan_depth < VLAN_HLEN then 0
             else vlan_tags E copy_bits skb parse_depth (vlan_depth - VLAN_HLEN)
           else vlan_tags E copy_bits skb parse_depth ETH_HLEN
         else type)"

definition vlan_get_protocol :: "byteorder \<Rightarrow> copy_bits \<Rightarrow> sk_buff \<Rightarrow> u16" where
  "vlan_get_protocol E copy_bits skb = vlan_get_protocol_from E copy_bits skb (skb_proto skb)"

definition skb_protocol :: "byteorder \<Rightarrow> copy_bits \<Rightarrow> sk_buff \<Rightarrow> bool \<Rightarrow> u16" where
  "skb_protocol E copy_bits skb skip_vlan =
     (if \<not> skip_vlan then (if skb_vlan_present skb then skb_vlan_proto skb else skb_proto skb)
      else vlan_get_protocol E copy_bits skb)"

section \<open>The DS field\<close>

definition ipv4_get_dsfield :: "iphdr \<Rightarrow> u8" where
  "ipv4_get_dsfield iph = ip_tos iph"

definition ipv6_get_dsfield :: "byteorder \<Rightarrow> ipv6hdr \<Rightarrow> u8" where
  "ipv6_get_dsfield E ipv6h = ucast (drop_bit 4 (ntohs E (ip6_half E ipv6h)))"

definition ipv4_change_dsfield :: "byteorder \<Rightarrow> u8 \<Rightarrow> u8 \<Rightarrow> iphdr \<Rightarrow> iphdr" where
  "ipv4_change_dsfield E msk val iph =
     (let check = (ucast (ntohs E (ip_check iph)) :: u32);
          dsfield = (ip_tos iph AND msk) OR val;
          check = check + ucast (ip_tos iph);
          check = (if drop_bit 16 (check + 1) \<noteq> 0 then (check + 1) AND 0xFFFF else check);
          check = check - ucast dsfield;
          check = check + drop_bit 16 check
      in iph\<lparr>ip_check := htons E (ucast check), ip_tos := dsfield\<rparr>)"

definition ipv6_change_dsfield :: "byteorder \<Rightarrow> u8 \<Rightarrow> u8 \<Rightarrow> ipv6hdr \<Rightarrow> ipv6hdr" where
  "ipv6_change_dsfield E msk val ipv6h =
     set_ip6_half E
       ((ip6_half E ipv6h AND htons E (push_bit 4 (ucast msk) OR 0xF00F)) OR
        htons E (push_bit 4 (ucast val))) ipv6h"

section \<open>Congestion marks\<close>

definition INET_ECN_NOT_ECT :: u8 where "INET_ECN_NOT_ECT = 0"
definition INET_ECN_ECT_1 :: u8 where "INET_ECN_ECT_1 = 1"
definition INET_ECN_ECT_0 :: u8 where "INET_ECN_ECT_0 = 2"
definition INET_ECN_CE :: u8 where "INET_ECN_CE = 3"
definition INET_ECN_MASK :: u8 where "INET_ECN_MASK = 3"

definition INET_ECN_is_ce :: "u8 \<Rightarrow> bool" where
  "INET_ECN_is_ce dsfield \<longleftrightarrow> dsfield AND INET_ECN_MASK = INET_ECN_CE"

definition INET_ECN_is_not_ect :: "u8 \<Rightarrow> bool" where
  "INET_ECN_is_not_ect dsfield \<longleftrightarrow> dsfield AND INET_ECN_MASK = INET_ECN_NOT_ECT"

definition INET_ECN_is_capable :: "u8 \<Rightarrow> u8" where
  "INET_ECN_is_capable dsfield = dsfield AND INET_ECN_ECT_0"

definition INET_ECN_encapsulate :: "u8 \<Rightarrow> u8 \<Rightarrow> u8" where
  "INET_ECN_encapsulate outer inner =
     (let outer = outer AND NOT INET_ECN_MASK
      in outer OR (if \<not> INET_ECN_is_ce inner then inner AND INET_ECN_MASK else INET_ECN_ECT_0))"

definition INET_ECN_xmit :: "ecn_sock \<Rightarrow> ecn_sock" where
  "INET_ECN_xmit sk =
     sk\<lparr>inet_tos := inet_tos sk OR INET_ECN_ECT_0,
        inet6_tclass := map_option (\<lambda>t. t OR INET_ECN_ECT_0) (inet6_tclass sk)\<rparr>"

definition INET_ECN_dontxmit :: "ecn_sock \<Rightarrow> ecn_sock" where
  "INET_ECN_dontxmit sk =
     sk\<lparr>inet_tos := inet_tos sk AND NOT INET_ECN_MASK,
        inet6_tclass := map_option (\<lambda>t. t AND NOT INET_ECN_MASK) (inet6_tclass sk)\<rparr>"

definition IP6_ECN_flow_init :: "byteorder \<Rightarrow> u32 \<Rightarrow> u32" where
  "IP6_ECN_flow_init E label = label AND NOT (htonl E (push_bit 20 (ucast INET_ECN_MASK)))"

text \<open>The socket has an IPv6 part, whose \<open>tclass\<close> is the argument.\<close>

definition IP6_ECN_flow_xmit :: "byteorder \<Rightarrow> u8 \<Rightarrow> u32 \<Rightarrow> u32" where
  "IP6_ECN_flow_xmit E tclass label =
     (if INET_ECN_is_capable tclass \<noteq> 0 then label OR htonl E (push_bit 20 (ucast INET_ECN_ECT_0))
      else label)"

definition IP_ECN_set_ce :: "byteorder \<Rightarrow> iphdr \<Rightarrow> int \<times> iphdr" where
  "IP_ECN_set_ce E iph =
     (let ecn = ((ucast (ip_tos iph) + 1) AND ucast INET_ECN_MASK :: u32)
      in if ecn AND 2 = 0 then (if ecn = 0 then 1 else 0, iph)
         else let check_add = htons E 0xFFFB + htons E (ucast ecn);
                  iph = iph\<lparr>ip_check := csum16_add (ip_check iph) check_add\<rparr>;
                  iph = iph\<lparr>ip_tos := ip_tos iph OR INET_ECN_CE\<rparr>
              in (1, iph))"

definition IP_ECN_set_ect1 :: "byteorder \<Rightarrow> iphdr \<Rightarrow> int \<times> iphdr" where
  "IP_ECN_set_ect1 E iph =
     (if ip_tos iph AND INET_ECN_MASK \<noteq> INET_ECN_ECT_0 then (0, iph)
      else let iph = iph\<lparr>ip_check := csum16_add (ip_check iph) (htons E 0x1)\<rparr>;
               iph = iph\<lparr>ip_tos := ip_tos iph XOR INET_ECN_MASK\<rparr>
           in (1, iph))"

definition IP_ECN_clear :: "iphdr \<Rightarrow> iphdr" where
  "IP_ECN_clear iph = iph\<lparr>ip_tos := ip_tos iph AND NOT INET_ECN_MASK\<rparr>"

definition ipv4_copy_dscp :: "byteorder \<Rightarrow> u32 \<Rightarrow> iphdr \<Rightarrow> iphdr" where
  "ipv4_copy_dscp E dscp inner =
     (let dscp = dscp AND NOT (ucast INET_ECN_MASK)
      in ipv4_change_dsfield E INET_ECN_MASK (ucast dscp) inner)"

text \<open>
  The IPv6 functions change the header and, where the packet carries the sum of its data, that sum;
  the pair of the two is their state.
\<close>

definition csum_update :: "u32 \<Rightarrow> u32 \<Rightarrow> sk_buff \<Rightarrow> sk_buff" where
  "csum_update from to skb =
     (if skb_complete skb then skb\<lparr>skb_csum := csum_add (csum_sub (skb_csum skb) from) to\<rparr> else skb)"

definition IP6_ECN_set_ce :: "byteorder \<Rightarrow> sk_buff \<Rightarrow> ipv6hdr \<Rightarrow> int \<times> sk_buff \<times> ipv6hdr" where
  "IP6_ECN_set_ce E skb iph =
     (if INET_ECN_is_not_ect (ipv6_get_dsfield E iph) then (0, skb, iph)
      else let from = ip6_word E iph;
               to = from OR htonl E (push_bit 20 (ucast INET_ECN_CE))
           in (1, csum_update from to skb, set_ip6_word E to iph))"

definition IP6_ECN_set_ect1 :: "byteorder \<Rightarrow> sk_buff \<Rightarrow> ipv6hdr \<Rightarrow> int \<times> sk_buff \<times> ipv6hdr" where
  "IP6_ECN_set_ect1 E skb iph =
     (if ipv6_get_dsfield E iph AND INET_ECN_MASK \<noteq> INET_ECN_ECT_0 then (0, skb, iph)
      else let from = ip6_word E iph;
               to = from XOR htonl E (push_bit 20 (ucast INET_ECN_MASK))
           in (1, csum_update from to skb, set_ip6_word E to iph))"

definition ipv6_copy_dscp :: "byteorder \<Rightarrow> u32 \<Rightarrow> ipv6hdr \<Rightarrow> ipv6hdr" where
  "ipv6_copy_dscp E dscp inner =
     (let dscp = dscp AND NOT (ucast INET_ECN_MASK)
      in ipv6_change_dsfield E INET_ECN_MASK (ucast dscp) inner)"

section \<open>Marking and decapsulating packets\<close>

definition INET_ECN_set_ce :: "byteorder \<Rightarrow> copy_bits \<Rightarrow> sk_buff \<Rightarrow> int \<times> sk_buff" where
  "INET_ECN_set_ce E copy_bits skb =
     (let proto = skb_protocol E copy_bits skb True
      in if proto = htons E ETH_P_IP then
           if skb_nh skb + 20 \<le> skb_tail skb then
             case IP_ECN_set_ce E (ip_hdr E skb) of (ret, iph) \<Rightarrow> (ret, set_ip_hdr E iph skb)
           else (0, skb)
         else if proto = htons E ETH_P_IPV6 then
           if skb_nh skb + 40 \<le> skb_tail skb then
             case IP6_ECN_set_ce E skb (ipv6_hdr skb) of (ret, skb, iph) \<Rightarrow> (ret, set_ipv6_hdr iph skb)
           else (0, skb)
         else (0, skb))"

definition INET_ECN_set_ect1 :: "byteorder \<Rightarrow> copy_bits \<Rightarrow> sk_buff \<Rightarrow> int \<times> sk_buff" where
  "INET_ECN_set_ect1 E copy_bits skb =
     (let proto = skb_protocol E copy_bits skb True
      in if proto = htons E ETH_P_IP then
           if skb_nh skb + 20 \<le> skb_tail skb then
             case IP_ECN_set_ect1 E (ip_hdr E skb) of (ret, iph) \<Rightarrow> (ret, set_ip_hdr E iph skb)
           else (0, skb)
         else if proto = htons E ETH_P_IPV6 then
           if skb_nh skb + 40 \<le> skb_tail skb then
             case IP6_ECN_set_ect1 E skb (ipv6_hdr skb) of (ret, skb, iph) \<Rightarrow> (ret, set_ipv6_hdr iph skb)
           else (0, skb)
         else (0, skb))"

text \<open>\<open>__INET_ECN_decapsulate\<close>, with the new value of \<open>*set_ce\<close>.\<close>

definition raw_INET_ECN_decapsulate :: "u8 \<Rightarrow> u8 \<Rightarrow> bool \<Rightarrow> int \<times> bool" where
  "raw_INET_ECN_decapsulate outer inner set_ce =
     (let code = outer AND INET_ECN_MASK
      in if INET_ECN_is_not_ect inner \<and> code = INET_ECN_NOT_ECT then (0, set_ce)
         else if INET_ECN_is_not_ect inner \<and> (code = INET_ECN_ECT_0 \<or> code = INET_ECN_ECT_1) then (1, set_ce)
         else if INET_ECN_is_not_ect inner \<and> code = INET_ECN_CE then (2, set_ce)
         else (0, INET_ECN_is_ce outer))"

definition INET_ECN_decapsulate :: "byteorder \<Rightarrow> copy_bits \<Rightarrow> sk_buff \<Rightarrow> u8 \<Rightarrow> u8 \<Rightarrow> int \<times> sk_buff" where
  "INET_ECN_decapsulate E copy_bits skb outer inner =
     (case raw_INET_ECN_decapsulate outer inner False of (rc, set_ce) \<Rightarrow>
        (rc, if rc = 0 then
               if set_ce then snd (INET_ECN_set_ce E copy_bits skb)
               else if outer AND INET_ECN_MASK = INET_ECN_ECT_1 then snd (INET_ECN_set_ect1 E copy_bits skb)
               else skb
             else skb))"

definition IP_ECN_decapsulate :: "byteorder \<Rightarrow> copy_bits \<Rightarrow> iphdr \<Rightarrow> sk_buff \<Rightarrow> int \<times> sk_buff" where
  "IP_ECN_decapsulate E copy_bits oiph skb =
     (let proto = skb_protocol E copy_bits skb True
      in if proto = htons E ETH_P_IP then
           INET_ECN_decapsulate E copy_bits skb (ip_tos oiph) (ip_tos (ip_hdr E skb))
         else if proto = htons E ETH_P_IPV6 then
           INET_ECN_decapsulate E copy_bits skb (ip_tos oiph) (ipv6_get_dsfield E (ipv6_hdr skb))
         else (0, skb))"

definition IP6_ECN_decapsulate :: "byteorder \<Rightarrow> copy_bits \<Rightarrow> ipv6hdr \<Rightarrow> sk_buff \<Rightarrow> int \<times> sk_buff" where
  "IP6_ECN_decapsulate E copy_bits oipv6h skb =
     (let proto = skb_protocol E copy_bits skb True
      in if proto = htons E ETH_P_IP then
           INET_ECN_decapsulate E copy_bits skb (ipv6_get_dsfield E oipv6h) (ip_tos (ip_hdr E skb))
         else if proto = htons E ETH_P_IPV6 then
           INET_ECN_decapsulate E copy_bits skb (ipv6_get_dsfield E oipv6h)
             (ipv6_get_dsfield E (ipv6_hdr skb))
         else (0, skb))"

end
