(* ===== verification/Ecn_Properties.thy ===== *)
theory Ecn_Properties
  imports Ecn
begin

text \<open>
  The properties of congestion marking: the protocol found behind VLAN tags, encapsulation,
  decapsulation against the table of RFC 6040, and the checksums of the headers and of the packet.
\<close>

unbundle bit_operations_syntax

section \<open>Words and their bytes\<close>

lemma byte_masks:
  "(0xFF :: u16) = mask 8" "(0xFF00 :: u16) = push_bit 8 (mask 8)"
  "(0xFF :: u32) = mask 8" "(0xFF00 :: u32) = push_bit 8 (mask 8)"
  "(0xFF0000 :: u32) = push_bit 16 (mask 8)" "(0xFF000000 :: u32) = push_bit 24 (mask 8)"
  by (simp_all add: mask_eq_exp_minus_1 push_bit_eq_mult)

lemma ntohs_raw16 [simp]: "ntohs E (raw16 E a b) = be16 a b"
  by (cases E) (simp_all add: ntohs_def raw16_def swab16_be16)

lemma htons_be16: "htons E (be16 a b) = raw16 E a b"
  by (cases E) (simp_all add: htons_def raw16_def swab16_be16)

lemma bytes16_raw16 [simp]: "bytes16 E (raw16 E a b) = [a, b]"
  by (cases E) (simp_all add: bytes16_def raw16_def)

lemma raw16_bytes16 [simp]: "raw16 E (bytes16 E w ! 0) (bytes16 E w ! Suc 0) = w"
  by (cases E) (simp_all add: bytes16_def raw16_def)

lemma be32_bytes:
  "ucast (drop_bit 24 (be32 a b c d)) = a" "ucast (drop_bit 16 (be32 a b c d)) = b"
  "ucast (drop_bit 8 (be32 a b c d)) = c" "ucast (be32 a b c d) = d"
  unfolding be32_def by (rule bit_word_eqI; auto simp: bit_simps dest: bit_imp_le_length)+

lemma bytes32_raw32 [simp]: "bytes32 E (raw32 E a b c d) = [a, b, c, d]"
  by (cases E) (simp_all add: bytes32_def raw32_def be32_bytes Let_def)

lemma be32_split: "be32 (ucast (drop_bit 24 w)) (ucast (drop_bit 16 w)) (ucast (drop_bit 8 w)) (ucast w) = w"
proof (rule bit_word_eqI)
  fix n
  assume "n < LENGTH(32)"
  then consider "n < 8" | "8 \<le> n \<and> n < 16" | "16 \<le> n \<and> n < 24" | "24 \<le> n \<and> n < 32"
    by fastforce
  then show "bit (be32 (ucast (drop_bit 24 w)) (ucast (drop_bit 16 w)) (ucast (drop_bit 8 w)) (ucast w)) n =
      bit w n"
    by cases (auto simp: be32_def bit_simps)
qed

lemma raw32_bytes32 [simp]:
  "raw32 E (bytes32 E w ! 0) (bytes32 E w ! Suc 0) (bytes32 E w ! 2) (bytes32 E w ! 3) = w"
  by (cases E) (simp_all add: bytes32_def raw32_def be32_split Let_def)

lemma swab32_be32: "swab32 (be32 a b c d) = be32 d c b a"
proof (rule bit_word_eqI)
  fix n
  assume "n < LENGTH(32)"
  then consider "n < 8" | "8 \<le> n \<and> n < 16" | "16 \<le> n \<and> n < 24" | "24 \<le> n \<and> n < 32"
    by fastforce
  then show "bit (swab32 (be32 a b c d)) n = bit (be32 d c b a) n"
    by cases (auto simp: swab32_def be32_def byte_masks bit_simps dest: bit_imp_le_length)
qed

lemma htonl_be32: "htonl E (be32 a b c d) = raw32 E a b c d"
  by (cases E) (simp_all add: htonl_def raw32_def swab32_be32)

lemma be32_bitwise:
  "be32 a b c d OR be32 a' b' c' d' = be32 (a OR a') (b OR b') (c OR c') (d OR d')"
  "be32 a b c d XOR be32 a' b' c' d' = be32 (a XOR a') (b XOR b') (c XOR c') (d XOR d')"
  unfolding be32_def by (rule bit_word_eqI; auto simp: bit_simps dest: bit_imp_le_length)+

lemma raw32_bitwise:
  "raw32 E a b c d OR raw32 E a' b' c' d' = raw32 E (a OR a') (b OR b') (c OR c') (d OR d')"
  "raw32 E a b c d XOR raw32 E a' b' c' d' = raw32 E (a XOR a') (b XOR b') (c XOR c') (d XOR d')"
  by (cases E; simp add: raw32_def be32_bitwise)+

lemma swab16_bitwise:
  "swab16 (x AND y) = swab16 x AND swab16 y" "swab16 (x OR y) = swab16 x OR swab16 y"
  unfolding swab16_def byte_masks by (rule bit_word_eqI; auto simp: bit_simps)+

lemma ntohs_bitwise:
  "ntohs E (x AND y) = ntohs E x AND ntohs E y" "ntohs E (x OR y) = ntohs E x OR ntohs E y"
  by (cases E; simp add: ntohs_def swab16_bitwise)+

section \<open>IPv4 header checksums\<close>

text \<open>
  The sixteen bit words of a header without options, in network order, and the checksum of the
  header; it is zero for a header with a correct checksum field.
\<close>

definition ip_words :: "byteorder \<Rightarrow> iphdr \<Rightarrow> u16 list" where
  "ip_words E h =
     [be16 (ip_version_ihl h) (ip_tos h), ntohs E (ip_tot_len h), ntohs E (ip_id h), ntohs E (ip_frag_off h),
      be16 (ip_ttl h) (ip_protocol h), ntohs E (ip_check h),
      ucast (drop_bit 16 (htonl E (ip_saddr h))), ucast (htonl E (ip_saddr h)),
      ucast (drop_bit 16 (htonl E (ip_daddr h))), ucast (htonl E (ip_daddr h))]"

definition ip_sum :: "byteorder \<Rightarrow> iphdr \<Rightarrow> nat" where
  "ip_sum E h = sum_list (map unat (ip_words E h))"

definition ip_header_csum :: "byteorder \<Rightarrow> iphdr \<Rightarrow> u16" where
  "ip_header_csum E h = csum_fold (word_of_nat (ip_sum E h))"

lemma unat_u16_less: "unat (w :: u16) < 65536"
  using unsigned_less [of w, where ?'a = nat] by simp

lemma unat_u8_less: "unat (w :: u8) < 256"
  using unsigned_less [of w, where ?'a = nat] by simp

lemma ip_sum_less: "ip_sum E h < 10 * 65536"
proof -
  have "sum_list (map unat ws) \<le> length ws * 65535" for ws :: "u16 list"
  proof (induction ws)
    case (Cons w ws)
    then show ?case using unat_u16_less [of w] by simp
  qed simp
  from this [of "ip_words E h"] show ?thesis
    by (simp add: ip_sum_def ip_words_def)
qed

lemma csum_fold_cong: "a mod 65535 = b mod 65535 \<Longrightarrow> a \<noteq> 0 \<Longrightarrow> b \<noteq> 0 \<Longrightarrow> a < 2 ^ 32 \<Longrightarrow> b < 2 ^ 32 \<Longrightarrow>
    csum_fold (word_of_nat a) = csum_fold (word_of_nat b)"
  by (simp add: word_unat_eq_iff unat_csum_fold ones16_def unsigned_of_nat take_bit_eq_mod)

text \<open>The checksum of a header depends on the type of service and the checksum field through one sum.\<close>

lemma ip_header_csum_cong:
  assumes "(unat t + unat (ntohs E c)) mod 65535 = (unat (ip_tos h) + unat (ntohs E (ip_check h))) mod 65535"
    and "ip_version_ihl h \<noteq> 0"
  shows "ip_header_csum E (h\<lparr>ip_tos := t, ip_check := c\<rparr>) = ip_header_csum E h"
proof -
  let ?h = "h\<lparr>ip_tos := t, ip_check := c\<rparr>"
  define r where "r = ip_sum E h - (unat (ip_tos h) + unat (ntohs E (ip_check h)))"
  have r: "ip_sum E h = unat (ip_tos h) + unat (ntohs E (ip_check h)) + r"
    "ip_sum E ?h = unat t + unat (ntohs E c) + r"
    by (simp_all add: r_def ip_sum_def ip_words_def unat_be16)
  have "0 < unat (ip_version_ihl h)"
    using assms(2) by (simp add: unat_gt_0)
  then have "ip_sum E h \<noteq> 0" "ip_sum E ?h \<noteq> 0"
    by (simp_all add: ip_sum_def ip_words_def unat_be16)
  moreover have "ip_sum E ?h mod 65535 = ip_sum E h mod 65535"
    unfolding r by (rule mod_add_cong [OF assms(1) refl])
  ultimately show ?thesis
    unfolding ip_header_csum_def
    using ip_sum_less [of E h] ip_sum_less [of E ?h] by (intro csum_fold_cong) simp_all
qed

lemma ntohs_csum16_add:
  "unat (ntohs E (csum16_add c (htons E k))) mod 65535 = (unat (ntohs E c) + unat k) mod 65535"
proof -
  define w :: nat where "w = (case E of Little_Endian \<Rightarrow> 256 | Big_Endian \<Rightarrow> 1)"
  have n: "unat (ntohs E x) mod 65535 = w * unat x mod 65535" for x
    unfolding w_def by (rule unat_ntohs)
  have "w * unat (csum16_add c (htons E k)) mod 65535 = w * (unat c + unat (htons E k)) mod 65535"
    by (rule mod_mult_cong [OF refl c16.add [unfolded moduli]])
  also have "\<dots> = (unat (ntohs E c) + unat (ntohs E (htons E k))) mod 65535"
    unfolding distrib_left by (rule mod_add_cong [OF n [symmetric] n [symmetric]])
  finally show ?thesis
    by (simp only: n ntohs_htons)
qed

lemmas ecn_consts = INET_ECN_NOT_ECT_def INET_ECN_ECT_1_def INET_ECN_ECT_0_def INET_ECN_CE_def
  INET_ECN_MASK_def

lemma u8_exhaust: "list_all (\<lambda>n. P (word_of_nat n :: u8)) [0..<256] \<Longrightarrow> P x"
  using word_exhaust_below [of P 256 x] unsigned_less [of x, where ?'a = nat] by simp

definition ecn_cases :: "u8 \<Rightarrow> bool" where
  "ecn_cases t \<longleftrightarrow>
     (let ecn = ((ucast t + 1) AND 3 :: u32); code = t AND 3
      in (if code = 0 then ecn = 1
          else if code = 1 then ecn = 2 \<and> unat (t OR 3) = unat t + 2
          else if code = 2 then ecn = 3 \<and> unat (t OR 3) = unat t + 1 \<and> unat (t XOR 3) + 1 = unat t
          else code = 3 \<and> ecn = 0 \<and> t OR 3 = t))"

lemma ecn_cases: "ecn_cases t"
  by (rule u8_exhaust) code_simp

lemma set_ce_add: "htons E 0xFFFB + htons E 2 = htons E 0xFFFD" "htons E 0xFFFB + htons E 3 = htons E 0xFFFE"
  by (cases E; simp add: htons_def swab16_def)+

lemma set_ce_result:
  "fst (IP_ECN_set_ce E h) = (if ip_tos h AND 3 = 0 then 0 else 1)"
  "ip_tos (snd (IP_ECN_set_ce E h)) = (if ip_tos h AND 3 = 0 then ip_tos h else ip_tos h OR 3)"
  using ecn_cases [of "ip_tos h"]
  by (auto simp: IP_ECN_set_ce_def ecn_cases_def ecn_consts Let_def split: if_splits)

lemma set_ect1_result:
  "fst (IP_ECN_set_ect1 E h) = (if ip_tos h AND 3 = 2 then 1 else 0)"
  "ip_tos (snd (IP_ECN_set_ect1 E h)) = (if ip_tos h AND 3 = 2 then ip_tos h XOR 3 else ip_tos h)"
  by (simp_all add: IP_ECN_set_ect1_def ecn_consts Let_def)

lemma ip_update_swap: "h\<lparr>ip_check := c, ip_tos := t\<rparr> = h\<lparr>ip_tos := t, ip_check := c\<rparr>"
  by simp

lemma csum_shift:
  assumes "(unat t' + unat k) mod 65535 = unat t mod 65535"
  shows "(unat (t' :: u8) + unat (ntohs E (csum16_add c (htons E k)))) mod 65535 =
    (unat t + unat (ntohs E c)) mod 65535"
proof -
  have "(unat t' + unat (ntohs E (csum16_add c (htons E k)))) mod 65535 =
      (unat t' + (unat (ntohs E c) + unat k)) mod 65535"
    by (rule mod_add_cong [OF refl ntohs_csum16_add])
  also have "\<dots> = (unat t' + unat k + unat (ntohs E c)) mod 65535"
    by (simp only: ac_simps)
  also have "\<dots> = (unat t + unat (ntohs E c)) mod 65535"
    by (rule mod_add_cong [OF assms refl])
  finally show ?thesis .
qed

lemma set_ce_csum:
  assumes "ip_version_ihl h \<noteq> 0"
  shows "ip_header_csum E (snd (IP_ECN_set_ce E h)) = ip_header_csum E h"
proof -
  let ?t = "ip_tos h"
  consider "?t AND 3 = 0 \<or> ?t AND 3 = 3" | "?t AND 3 = 1" | "?t AND 3 = 2"
    using ecn_cases [of ?t] by (auto simp: ecn_cases_def Let_def split: if_splits)
  then show ?thesis
  proof cases
    case 1
    then show ?thesis
      using ecn_cases [of ?t] by (auto simp: IP_ECN_set_ce_def ecn_cases_def ecn_consts Let_def)
  next
    case 2
    then have *: "unat (?t OR 3) = unat ?t + 2" "snd (IP_ECN_set_ce E h) =
        h\<lparr>ip_tos := ?t OR 3, ip_check := csum16_add (ip_check h) (htons E 0xFFFD)\<rparr>"
      using ecn_cases [of ?t]
      by (auto simp: IP_ECN_set_ce_def ecn_cases_def ecn_consts Let_def set_ce_add)
    show ?thesis
      unfolding *(2) by (intro ip_header_csum_cong csum_shift assms) (simp add: *(1))
  next
    case 3
    then have *: "unat (?t OR 3) = unat ?t + 1" "snd (IP_ECN_set_ce E h) =
        h\<lparr>ip_tos := ?t OR 3, ip_check := csum16_add (ip_check h) (htons E 0xFFFE)\<rparr>"
      using ecn_cases [of ?t]
      by (auto simp: IP_ECN_set_ce_def ecn_cases_def ecn_consts Let_def set_ce_add)
    show ?thesis
      unfolding *(2) by (intro ip_header_csum_cong csum_shift assms) (simp add: *(1))
  qed
qed

lemma set_ect1_csum:
  assumes "ip_version_ihl h \<noteq> 0"
  shows "ip_header_csum E (snd (IP_ECN_set_ect1 E h)) = ip_header_csum E h"
proof (cases "ip_tos h AND 3 = 2")
  case True
  then have *: "unat (ip_tos h XOR 3) + 1 = unat (ip_tos h)" "snd (IP_ECN_set_ect1 E h) =
      h\<lparr>ip_tos := ip_tos h XOR 3, ip_check := csum16_add (ip_check h) (htons E 1)\<rparr>"
    using ecn_cases [of "ip_tos h"]
    by (auto simp: IP_ECN_set_ect1_def ecn_cases_def ecn_consts Let_def)
  show ?thesis
    unfolding *(2) by (intro ip_header_csum_cong csum_shift assms) (simp add: *(1) [symmetric])
qed (simp add: IP_ECN_set_ect1_def ecn_consts)

text \<open>
  The checksum arithmetic of \<open>ipv4_change_dsfield\<close>, on the value of the field in host order: adding
  the old value with the carry, and subtracting the new one with the borrow.
\<close>

lemma change_add:
  fixes c :: u16 and t :: u8
  defines "s1 \<equiv> (ucast c + ucast t :: u32)"
  defines "s2 \<equiv> if drop_bit 16 (s1 + 1) \<noteq> 0 then (s1 + 1) AND 0xFFFF else s1"
  shows "unat s2 < 65535" and "unat s2 mod 65535 = (unat t + unat c) mod 65535"
proof -
  note b = unat_u16_less [of c] unat_u8_less [of t]
  have "unat (ucast c :: u32) = unat c" "unat (ucast t :: u32) = unat t"
    using b by (simp_all add: unsigned_ucast_eq take_bit_eq_mod)
  then have s1: "unat s1 = unat c + unat t" and s11: "unat (s1 + 1) = unat c + unat t + 1"
    using b unfolding s1_def by (simp_all add: unat_word_ariths)
  have hi: "drop_bit 16 (s1 + 1) = 0 \<longleftrightarrow> unat c + unat t + 1 < 65536"
    unfolding unat_eq_zero [symmetric] unat_hi16 s11 by (simp add: div_eq_0_iff)
  have "unat s2 = (if unat c + unat t + 1 < 65536 then unat c + unat t else unat c + unat t - 65535)"
  proof (cases "unat c + unat t + 1 < 65536")
    case False
    then have "(unat c + unat t + 1) mod 65536 = unat c + unat t + 1 - 65536"
      using b by (simp add: le_mod_geq)
    with False show ?thesis
      by (simp add: s2_def hi unat_lo16 s11)
  qed (simp add: s2_def hi s1)
  then have "unat s2 < 65535 \<and> (unat t + unat c = unat s2 \<or> unat t + unat c = unat s2 + 65535)"
    using b by auto
  then show "unat s2 < 65535" and "unat s2 mod 65535 = (unat t + unat c) mod 65535"
    by auto
qed

lemma change_sub:
  fixes s2 :: u32 and d :: u8
  assumes s2: "unat s2 < 65535"
  defines "s3 \<equiv> s2 - ucast d"
  shows "(unat d + unat (ucast (s3 + drop_bit 16 s3) :: u16)) mod 65535 = unat s2 mod 65535"
proof -
  define s4 where "s4 = s3 + drop_bit 16 s3"
  note d = unat_u8_less [of d]
  have u: "unat (ucast d :: u32) = unat d"
    using d by (simp add: unsigned_ucast_eq take_bit_eq_mod)
  have "unat d + unat s4 = unat s2 + (if unat d \<le> unat s2 then 0 else 65535)"
  proof (cases "unat d \<le> unat s2")
    case True
    then have "unat s3 = unat s2 - unat d"
      unfolding s3_def using u by (subst unat_sub) (simp_all add: word_le_nat_alt)
    then show ?thesis
      using True s2 by (simp add: s4_def unat_word_ariths unat_hi16)
  next
    case False
    then have s3: "unat s3 + unat d = 4294967296 + unat s2"
      unfolding s3_def using d u by (simp add: unat_sub_if')
    have "unat s3 div 65536 = 65535"
      using False d s3 by (intro div_nat_eqI) auto
    then have "unat s4 = (unat s3 + 65535) mod 4294967296"
      unfolding s4_def unat_word_ariths unat_hi16 by simp
    also have "unat s3 + 65535 = 4294967296 + (unat s2 + 65535 - unat d)"
      using s3 d by linarith
    also have "(4294967296 + (unat s2 + 65535 - unat d)) mod 4294967296 = unat s2 + 65535 - unat d"
      using s2 by simp
    finally show ?thesis
      using False d by simp
  qed
  moreover from this have "unat s4 < 65536"
    using s2 d by (auto split: if_splits)
  ultimately have "unat d + unat (ucast s4 :: u16) = unat s2 + (if unat d \<le> unat s2 then 0 else 65535)"
    by (simp add: unsigned_ucast_eq take_bit_eq_mod)
  then show ?thesis
    by (simp add: s4_def split: if_splits)
qed

lemma change_dsfield_csum:
  assumes "ip_version_ihl h \<noteq> 0"
  shows "ip_header_csum E (ipv4_change_dsfield E msk val h) = ip_header_csum E h"
proof -
  let ?d = "(ip_tos h AND msk) OR val"
  obtain k where k: "ipv4_change_dsfield E msk val h = h\<lparr>ip_check := htons E k, ip_tos := ?d\<rparr>"
    "(unat ?d + unat k) mod 65535 = (unat (ip_tos h) + unat (ntohs E (ip_check h))) mod 65535"
    using trans [OF change_sub [OF change_add(1)] change_add(2), of ?d "ntohs E (ip_check h)" "ip_tos h"]
    unfolding ipv4_change_dsfield_def Let_def by blast
  show ?thesis
    unfolding k(1) ip_update_swap using k(2) by (intro ip_header_csum_cong assms) simp
qed

lemma change_dsfield_tos [simp]:
  "ip_tos (ipv4_change_dsfield E msk val h) = (ip_tos h AND msk) OR val"
  "ip_version_ihl (ipv4_change_dsfield E msk val h) = ip_version_ihl h"
  by (simp_all add: ipv4_change_dsfield_def Let_def)

lemma copy_dscp_value: "(ucast (dscp AND NOT (ucast (3 :: u8)) :: u32) :: u8) = ucast dscp AND NOT 3"
  for dscp :: u32
proof (rule bit_word_eqI)
  fix n
  assume "n < LENGTH(8)"
  then show "bit (ucast (dscp AND NOT (ucast (3 :: u8)) :: u32) :: u8) n = bit (ucast dscp AND NOT 3 :: u8) n"
    by (auto simp: bit_simps)
qed

lemma clear_low_bits: "unat t = unat (t AND NOT 3) + unat (t AND 3) \<and> t AND 3 < 4" for t :: u8
  by (rule u8_exhaust) code_simp

lemma clear_csum:
  assumes "ip_version_ihl h \<noteq> 0"
  shows "ip_header_csum E (IP_ECN_clear h) = ip_header_csum E h \<longleftrightarrow> ip_tos h AND 3 = 0"
proof
  assume eq: "ip_header_csum E (IP_ECN_clear h) = ip_header_csum E h"
  have s: "ip_sum E h = ip_sum E (IP_ECN_clear h) + unat (ip_tos h AND 3)"
    using clear_low_bits [of "ip_tos h"] unfolding IP_ECN_clear_def ecn_consts
    by (simp add: ip_sum_def ip_words_def unat_be16)
  have "unat (word_of_nat (ip_sum E x) :: u32) = ip_sum E x" for x
    using ip_sum_less [of E x] by (simp add: unsigned_of_nat take_bit_eq_mod)
  then have "ones16 (ip_sum E (IP_ECN_clear h)) = ones16 (ip_sum E h)"
    using eq unat_csum_fold ones16_le unfolding ip_header_csum_def word_unat_eq_iff
    by (metis diff_diff_cancel)
  then have "ip_sum E (IP_ECN_clear h) mod 65535 = ip_sum E h mod 65535"
    by (metis ones16_mod)
  with s have "0 mod 65535 = unat (ip_tos h AND 3) mod 65535"
    using mod_cancel [of "ip_sum E (IP_ECN_clear h)" 0 65535 "unat (ip_tos h AND 3)"] by simp
  then show "ip_tos h AND 3 = 0"
    using clear_low_bits [of "ip_tos h"] by (simp add: word_less_nat_alt unat_eq_zero)
next
  assume "ip_tos h AND 3 = 0"
  then have "ip_tos h AND NOT 3 = ip_tos h"
    using clear_low_bits [of "ip_tos h"] by (simp add: word_unat_eq_iff)
  then show "ip_header_csum E (IP_ECN_clear h) = ip_header_csum E h"
    by (simp add: IP_ECN_clear_def ecn_consts)
qed

text \<open>The two ECN bits and the six DSCP bits of a field put together from both.\<close>

lemma field_parts:
  "((d AND NOT 3) OR (t AND 3)) AND 3 = t AND 3" "((d AND NOT 3) OR (t AND 3)) AND NOT 3 = d AND NOT 3"
  for t d :: u8
  by (rule bit_word_eqI; auto simp: bit_simps)+

lemma copy_dscp_field:
  "ipv4_get_dsfield (ipv4_copy_dscp E dscp h) = (ucast dscp AND NOT 3) OR (ip_tos h AND 3)"
  unfolding ipv4_copy_dscp_def ipv4_get_dsfield_def Let_def change_dsfield_tos copy_dscp_value ecn_consts
  by (rule or.commute)

text \<open>
  C17. On either byte order, marking a header as congested, turning ECT(0) into ECT(1), changing bits
  of the DS field and copying a DSCP keep the header checksum: a header with a correct checksum
  stays correct, an incorrect one keeps its error.  The marks are set exactly on ECN capable headers,
  and a copied DSCP leaves the ECN bits alone.  Clearing the ECN bits does not adjust the checksum,
  so it keeps it exactly when they were clear.
\<close>

theorem ipv4_checksum_kept:
  assumes "ip_version_ihl h \<noteq> 0"
  shows "ip_header_csum E (snd (IP_ECN_set_ce E h)) = ip_header_csum E h \<and>
         ip_header_csum E (snd (IP_ECN_set_ect1 E h)) = ip_header_csum E h \<and>
         ip_header_csum E (ipv4_change_dsfield E msk val h) = ip_header_csum E h \<and>
         ip_header_csum E (ipv4_copy_dscp E dscp h) = ip_header_csum E h \<and>
         (ip_header_csum E (IP_ECN_clear h) = ip_header_csum E h) = (ip_tos h AND 3 = 0) \<and>
         fst (IP_ECN_set_ce E h) = (if ip_tos h AND 3 = 0 then 0 else 1) \<and>
         ipv4_get_dsfield (snd (IP_ECN_set_ce E h)) =
           (if ip_tos h AND 3 = 0 then ip_tos h else ip_tos h OR 3) \<and>
         fst (IP_ECN_set_ect1 E h) = (if ip_tos h AND 3 = 2 then 1 else 0) \<and>
         ipv4_get_dsfield (snd (IP_ECN_set_ect1 E h)) =
           (if ip_tos h AND 3 = 2 then ip_tos h XOR 3 else ip_tos h) \<and>
         ipv4_get_dsfield (ipv4_change_dsfield E msk val h) = (ip_tos h AND msk) OR val \<and>
         ipv4_get_dsfield (ipv4_copy_dscp E dscp h) AND 3 = ip_tos h AND 3 \<and>
         ipv4_get_dsfield (ipv4_copy_dscp E dscp h) AND NOT 3 = ucast dscp AND NOT 3"
  unfolding copy_dscp_field field_parts
  using assms
  by (simp add: set_ce_csum set_ect1_csum change_dsfield_csum clear_csum ipv4_copy_dscp_def
      ipv4_get_dsfield_def set_ce_result set_ect1_result)

theorem ipv4_checksum_kept_witness:
  "let h = \<lparr>ip_version_ihl = 0x45, ip_tos = 0x02, ip_tot_len = 0x1400, ip_id = 0, ip_frag_off = 0,
              ip_ttl = 64, ip_protocol = 6, ip_check = 0x1234, ip_saddr = 1, ip_daddr = 2\<rparr>
   in ip_version_ihl h \<noteq> 0 \<and> fst (IP_ECN_set_ce Little_Endian h) = 1 \<and>
      ip_header_csum Little_Endian (snd (IP_ECN_set_ce Little_Endian h)) = ip_header_csum Little_Endian h"
  unfolding Let_def
  using ipv4_checksum_kept [of "\<lparr>ip_version_ihl = 0x45, ip_tos = 0x02, ip_tot_len = 0x1400, ip_id = 0,
    ip_frag_off = 0, ip_ttl = 64, ip_protocol = 6, ip_check = 0x1234, ip_saddr = 1, ip_daddr = 2\<rparr>"
    Little_Endian] by simp

section \<open>Encapsulation\<close>

lemma encapsulate_field:
  "INET_ECN_encapsulate outer inner = (outer AND NOT 3) OR ((if inner AND 3 = 3 then 2 else inner) AND 3)"
  by (simp add: INET_ECN_encapsulate_def INET_ECN_is_ce_def ecn_consts Let_def)

lemma xmit_bits:
  "(t OR 2) AND 2 \<noteq> 0 \<and> (t OR 2) AND NOT 3 = t AND NOT 3 \<and> (t AND NOT 3) AND 3 = 0" for t :: u8
proof -
  have m: "(2 :: u8) = push_bit 1 1" "(3 :: u8) = mask 2"
    by (simp_all add: mask_eq_exp_minus_1)
  have "(t OR 2) AND 2 = 2" "(t OR 2) AND NOT 3 = t AND NOT 3" "(t AND NOT 3) AND 3 = 0"
    unfolding m by (rule bit_word_eqI; auto simp: bit_simps)+
  then show ?thesis by simp
qed

text \<open>
  Encapsulation keeps the DSCP of the outer header and copies the ECN codepoint of the inner one,
  except that an inner CE becomes ECT(0); a socket that transmits with ECN is ECN capable in both
  families and one that does not carries no codepoint, with the DSCP unchanged.
\<close>

lemma ecn_encapsulation_part:
  "INET_ECN_encapsulate outer inner AND NOT 3 = outer AND NOT 3 \<and>
   INET_ECN_encapsulate outer inner AND 3 = (if INET_ECN_is_ce inner then INET_ECN_ECT_0 else inner AND 3) \<and>
   \<not> INET_ECN_is_ce (INET_ECN_encapsulate outer inner) \<and>
   (INET_ECN_is_not_ect (INET_ECN_encapsulate outer inner) \<longleftrightarrow> INET_ECN_is_not_ect inner) \<and>
   INET_ECN_is_capable (inet_tos (INET_ECN_xmit sk)) \<noteq> 0 \<and>
   inet_tos (INET_ECN_xmit sk) AND NOT 3 = inet_tos sk AND NOT 3 \<and>
   INET_ECN_is_not_ect (inet_tos (INET_ECN_dontxmit sk)) \<and>
   inet_tos (INET_ECN_dontxmit sk) AND NOT 3 = inet_tos sk AND NOT 3 \<and>
   pred_option (\<lambda>t. INET_ECN_is_capable t \<noteq> 0) (inet6_tclass (INET_ECN_xmit sk)) \<and>
   pred_option INET_ECN_is_not_ect (inet6_tclass (INET_ECN_dontxmit sk))"
proof -
  note defs = INET_ECN_is_ce_def INET_ECN_is_not_ect_def INET_ECN_is_capable_def ecn_consts
  have sk: "INET_ECN_is_capable (t OR INET_ECN_ECT_0) \<noteq> 0" "INET_ECN_is_not_ect (t AND NOT INET_ECN_MASK)"
    "(t OR INET_ECN_ECT_0) AND NOT 3 = t AND NOT 3" for t
    unfolding defs using xmit_bits [of t] by blast+
  have "\<not> INET_ECN_is_ce (INET_ECN_encapsulate outer inner)"
    "INET_ECN_is_not_ect (INET_ECN_encapsulate outer inner) \<longleftrightarrow> INET_ECN_is_not_ect inner"
    unfolding defs encapsulate_field field_parts by simp_all
  moreover have "INET_ECN_encapsulate outer inner AND 3 = (if INET_ECN_is_ce inner then INET_ECN_ECT_0 else inner AND 3)"
    unfolding defs encapsulate_field field_parts by simp
  moreover have "INET_ECN_encapsulate outer inner AND NOT 3 = outer AND NOT 3"
    unfolding encapsulate_field by (rule field_parts)
  moreover have "inet_tos (INET_ECN_dontxmit sk) AND NOT 3 = inet_tos sk AND NOT 3"
    by (simp add: INET_ECN_dontxmit_def INET_ECN_MASK_def and.assoc)
  ultimately show ?thesis
    using sk by (cases "inet6_tclass sk") (simp_all add: INET_ECN_xmit_def INET_ECN_dontxmit_def)
qed

section \<open>IPv6 headers\<close>

definition ds6 :: "u8 \<Rightarrow> u8 \<Rightarrow> u8" where
  "ds6 a b = ucast (drop_bit 4 (be16 a b))"

lemma ipv6_get_dsfield_bytes: "ipv6_get_dsfield E h = ds6 (ip6_priority_version h) (fst (ip6_flow_lbl h))"
  by (simp add: ipv6_get_dsfield_def ip6_half_def ds6_def)

lemma nibble_masks:
  "(0x30 :: u8) = push_bit 4 (mask 2)" "(3 :: u8) = mask 2"
  "(0xF00F :: u16) = push_bit 12 (mask 4) OR mask 4"
  by (simp_all add: push_bit_eq_mult mask_eq_exp_minus_1)

lemma ds6_mark: "ds6 a (b OR 0x30) = ds6 a b OR 3" "ds6 a (b XOR 0x30) = ds6 a b XOR 3"
  unfolding ds6_def be16_def nibble_masks(1,2)
  by (rule bit_word_eqI; auto simp: bit_simps dest: bit_imp_le_length)+

definition mark_byte :: "(u8 \<Rightarrow> u8) \<Rightarrow> ipv6hdr \<Rightarrow> ipv6hdr" where
  "mark_byte f h = h\<lparr>ip6_flow_lbl := (f (fst (ip6_flow_lbl h)), snd (ip6_flow_lbl h))\<rparr>"

lemma mark_words: "push_bit 20 (ucast (3 :: u8)) = be32 0 0x30 0 0" "push_bit 20 (ucast (2 :: u8)) = be32 0 0x20 0 0"
  by (simp_all add: be32_def push_bit_eq_mult)

lemma mark_word:
  "ip6_word E h OR htonl E (be32 0 x 0 0) = ip6_word E (mark_byte (\<lambda>b. b OR x) h)"
  "ip6_word E h XOR htonl E (be32 0 x 0 0) = ip6_word E (mark_byte (\<lambda>b. b XOR x) h)"
  by (cases h; cases "ip6_flow_lbl h"; simp add: ip6_word_def htonl_be32 raw32_bitwise mark_byte_def)+

lemma set_word_marked: "set_ip6_word E (ip6_word E (mark_byte f h)) h = mark_byte f h"
  by (cases h; cases "ip6_flow_lbl h"; simp add: set_ip6_word_def ip6_word_def mark_byte_def)

lemma mark_byte_fields [simp]:
  "ip6_priority_version (mark_byte f h) = ip6_priority_version h"
  "ip6_flow_lbl (mark_byte f h) = (f (fst (ip6_flow_lbl h)), snd (ip6_flow_lbl h))"
  by (simp_all add: mark_byte_def)

lemma set_ce6:
  "IP6_ECN_set_ce E skb h =
     (if ipv6_get_dsfield E h AND 3 = 0 then (0, skb, h)
      else let h' = mark_byte (\<lambda>b. b OR 0x30) h in (1, csum_update (ip6_word E h) (ip6_word E h') skb, h'))"
  by (simp only: IP6_ECN_set_ce_def INET_ECN_is_not_ect_def ecn_consts mark_words mark_word
      set_word_marked Let_def)

lemma set_ect16:
  "IP6_ECN_set_ect1 E skb h =
     (if ipv6_get_dsfield E h AND 3 = 2 then
        let h' = mark_byte (\<lambda>b. b XOR 0x30) h in (1, csum_update (ip6_word E h) (ip6_word E h') skb, h')
      else (0, skb, h))"
  unfolding IP6_ECN_set_ect1_def ecn_consts mark_words mark_word set_word_marked Let_def by simp

lemma set_ce6_field:
  "ipv6_get_dsfield E (snd (snd (IP6_ECN_set_ce E skb h))) =
     (if ipv6_get_dsfield E h AND 3 = 0 then ipv6_get_dsfield E h else ipv6_get_dsfield E h OR 3)"
  by (simp add: set_ce6 Let_def ipv6_get_dsfield_bytes ds6_mark)

lemma set_ect16_field:
  "ipv6_get_dsfield E (snd (snd (IP6_ECN_set_ect1 E skb h))) =
     (if ipv6_get_dsfield E h AND 3 = 2 then ipv6_get_dsfield E h XOR 3 else ipv6_get_dsfield E h)"
  by (simp add: set_ect16 Let_def ipv6_get_dsfield_bytes ds6_mark)

text \<open>The rest of the first word: the version and the flow label.\<close>

definition ip6_rest :: "byteorder \<Rightarrow> ipv6hdr \<Rightarrow> u16 \<times> u8 \<times> u8" where
  "ip6_rest E h = (ntohs E (ip6_half E h) AND 0xF00F, snd (ip6_flow_lbl h))"

lemma be16_mark_rest:
  "be16 a (b OR 0x30) AND 0xF00F = be16 a b AND 0xF00F" "be16 a (b XOR 0x30) AND 0xF00F = be16 a b AND 0xF00F"
  unfolding be16_def nibble_masks by (rule bit_word_eqI; auto simp: bit_simps dest: bit_imp_le_length)+

lemma mark_rest:
  "ip6_rest E (snd (snd (IP6_ECN_set_ce E skb h))) = ip6_rest E h"
  "ip6_rest E (snd (snd (IP6_ECN_set_ect1 E skb h))) = ip6_rest E h"
  by (simp_all add: set_ce6 set_ect16 Let_def ip6_rest_def ip6_half_def be16_mark_rest)

text \<open>A packet with a complete checksum: the sum follows the change of the header word.\<close>

definition csum_follows :: "byteorder \<Rightarrow> sk_buff \<times> ipv6hdr \<Rightarrow> sk_buff \<times> ipv6hdr \<Rightarrow> bool" where
  "csum_follows E before after \<longleftrightarrow>
     (case (before, after) of ((skb, h), (skb', h')) \<Rightarrow>
        if skb_complete skb
        then (unat (skb_csum skb') + unat (ip6_word E h)) mod (2 ^ 32 - 1) =
               (unat (skb_csum skb) + unat (ip6_word E h')) mod (2 ^ 32 - 1) \<and>
             skb' = skb\<lparr>skb_csum := skb_csum skb'\<rparr>
        else skb' = skb)"

lemma csum_update_follows: "csum_follows E (skb, h) (csum_update (ip6_word E h) (ip6_word E h') skb, h')"
  using c32.replace [of "skb_csum skb" "ip6_word E h" "ip6_word E h'"]
  by (simp add: csum_follows_def csum_update_def csum_sub_def)

lemma mark_follows:
  "csum_follows E (skb, h) (snd (IP6_ECN_set_ce E skb h))"
  "csum_follows E (skb, h) (snd (IP6_ECN_set_ect1 E skb h))"
  using csum_update_follows [of E skb h] by (auto simp: set_ce6 set_ect16 Let_def csum_follows_def)

lemma half_change: "ip6_half E (set_ip6_half E w h) = w" "snd (ip6_flow_lbl (set_ip6_half E w h)) = snd (ip6_flow_lbl h)"
  by (simp_all add: ip6_half_def set_ip6_half_def)

lemma change6_bits:
  fixes x :: u16 and m v :: u8
  defines "y \<equiv> (x AND (push_bit 4 (ucast m) OR 0xF00F)) OR push_bit 4 (ucast v)"
  shows "ucast (drop_bit 4 y) = (ucast (drop_bit 4 x) AND m) OR v" and "y AND 0xF00F = x AND 0xF00F"
  unfolding y_def nibble_masks
  by (rule bit_word_eqI; auto simp: bit_simps dest: bit_imp_le_length)+

lemma change6:
  "ipv6_get_dsfield E (ipv6_change_dsfield E m v h) = (ipv6_get_dsfield E h AND m) OR v"
  "ip6_rest E (ipv6_change_dsfield E m v h) = ip6_rest E h"
  unfolding ipv6_get_dsfield_def ipv6_change_dsfield_def ip6_rest_def half_change ntohs_bitwise
    ntohs_htons change6_bits by (rule refl)+

lemma copy6_field: "ipv6_get_dsfield E (ipv6_copy_dscp E dscp h) = (ucast dscp AND NOT 3) OR (ipv6_get_dsfield E h AND 3)"
  unfolding ipv6_copy_dscp_def Let_def change6 copy_dscp_value ecn_consts by (rule or.commute)

lemma flow_label:
  "IP6_ECN_flow_init E (raw32 E a b c d) = raw32 E a (b AND NOT 0x30) c d"
  "IP6_ECN_flow_xmit E t (raw32 E a b c d) = raw32 E a (if t AND 2 \<noteq> 0 then b OR 0x20 else b) c d"
proof -
  have "raw32 E a b c d AND NOT (raw32 E 0 x 0 0) = raw32 E a (b AND NOT x) c d" for x
    by (cases E; simp add: raw32_def be32_def;
        rule bit_word_eqI; auto simp: bit_simps dest: bit_imp_le_length)
  then show "IP6_ECN_flow_init E (raw32 E a b c d) = raw32 E a (b AND NOT 0x30) c d"
    by (simp only: IP6_ECN_flow_init_def ecn_consts mark_words htonl_be32)
  show "IP6_ECN_flow_xmit E t (raw32 E a b c d) = raw32 E a (if t AND 2 \<noteq> 0 then b OR 0x20 else b) c d"
    unfolding IP6_ECN_flow_xmit_def INET_ECN_is_capable_def ecn_consts mark_words htonl_be32 raw32_bitwise
    by simp
qed

text \<open>
  On either byte order, marking an IPv6 header as congested, turning ECT(0) into ECT(1), changing
  bits of the traffic class and copying a DSCP change the bits of the traffic class they should and
  leave the version and the flow label alone; marking keeps a complete packet checksum in step with
  the header and touches nothing else of the packet.  Initialising the flow word clears the ECN bits,
  and transmitting sets ECT(0) for an ECN capable socket.
\<close>

lemma ipv6_marking_part:
  "fst (IP6_ECN_set_ce E skb h) = (if ipv6_get_dsfield E h AND 3 = 0 then 0 else 1) \<and>
   ipv6_get_dsfield E (snd (snd (IP6_ECN_set_ce E skb h))) =
     (if ipv6_get_dsfield E h AND 3 = 0 then ipv6_get_dsfield E h else ipv6_get_dsfield E h OR 3) \<and>
   ip6_rest E (snd (snd (IP6_ECN_set_ce E skb h))) = ip6_rest E h \<and>
   csum_follows E (skb, h) (snd (IP6_ECN_set_ce E skb h)) \<and>
   fst (IP6_ECN_set_ect1 E skb h) = (if ipv6_get_dsfield E h AND 3 = 2 then 1 else 0) \<and>
   ipv6_get_dsfield E (snd (snd (IP6_ECN_set_ect1 E skb h))) =
     (if ipv6_get_dsfield E h AND 3 = 2 then ipv6_get_dsfield E h XOR 3 else ipv6_get_dsfield E h) \<and>
   ip6_rest E (snd (snd (IP6_ECN_set_ect1 E skb h))) = ip6_rest E h \<and>
   csum_follows E (skb, h) (snd (IP6_ECN_set_ect1 E skb h)) \<and>
   ipv6_get_dsfield E (ipv6_change_dsfield E msk val h) = (ipv6_get_dsfield E h AND msk) OR val \<and>
   ip6_rest E (ipv6_change_dsfield E msk val h) = ip6_rest E h \<and>
   ipv6_get_dsfield E (ipv6_copy_dscp E dscp h) = (ucast dscp AND NOT 3) OR (ipv6_get_dsfield E h AND 3) \<and>
   IP6_ECN_flow_init E (raw32 E a b c d) = raw32 E a (b AND NOT 0x30) c d \<and>
   IP6_ECN_flow_xmit E tclass (raw32 E a b c d) = raw32 E a (if tclass AND 2 \<noteq> 0 then b OR 0x20 else b) c d"
  using set_ce6_field [of E skb h] set_ect16_field [of E skb h] mark_rest [of E skb h]
    mark_follows [of E skb h] change6 [of E msk val h] copy6_field [of E dscp h]
    flow_label(1) [of E a b c d] flow_label(2) [of E tclass a b c d]
  by (simp only: set_ce6 [of E skb h] set_ect16 [of E skb h] Let_def if_distrib [of fst] fst_conv)

text \<open>
  C18. Marking an IPv6 packet changes the bits of the traffic class it should, leaves version and flow label alone and
  keeps a complete packet checksum in step.  Encapsulation keeps the outer DSCP and copies the inner codepoint, except that
  CE becomes ECT(0); a socket that transmits with ECN is ECN capable in both families, one that does not carries no codepoint.
\<close>

theorem ecn_marking:
  "(fst (IP6_ECN_set_ce E skb h) = (if ipv6_get_dsfield E h AND 3 = 0 then 0 else 1) \<and>
   ipv6_get_dsfield E (snd (snd (IP6_ECN_set_ce E skb h))) =
     (if ipv6_get_dsfield E h AND 3 = 0 then ipv6_get_dsfield E h else ipv6_get_dsfield E h OR 3) \<and>
   ip6_rest E (snd (snd (IP6_ECN_set_ce E skb h))) = ip6_rest E h \<and>
   csum_follows E (skb, h) (snd (IP6_ECN_set_ce E skb h)) \<and>
   fst (IP6_ECN_set_ect1 E skb h) = (if ipv6_get_dsfield E h AND 3 = 2 then 1 else 0) \<and>
   ipv6_get_dsfield E (snd (snd (IP6_ECN_set_ect1 E skb h))) =
     (if ipv6_get_dsfield E h AND 3 = 2 then ipv6_get_dsfield E h XOR 3 else ipv6_get_dsfield E h) \<and>
   ip6_rest E (snd (snd (IP6_ECN_set_ect1 E skb h))) = ip6_rest E h \<and>
   csum_follows E (skb, h) (snd (IP6_ECN_set_ect1 E skb h)) \<and>
   ipv6_get_dsfield E (ipv6_change_dsfield E msk val h) = (ipv6_get_dsfield E h AND msk) OR val \<and>
   ip6_rest E (ipv6_change_dsfield E msk val h) = ip6_rest E h \<and>
   ipv6_get_dsfield E (ipv6_copy_dscp E dscp h) = (ucast dscp AND NOT 3) OR (ipv6_get_dsfield E h AND 3) \<and>
   IP6_ECN_flow_init E (raw32 E a b c d) = raw32 E a (b AND NOT 0x30) c d \<and>
   IP6_ECN_flow_xmit E tclass (raw32 E a b c d) = raw32 E a (if tclass AND 2 \<noteq> 0 then b OR 0x20 else b) c d) \<and>
    (INET_ECN_encapsulate outer inner AND NOT 3 = outer AND NOT 3 \<and>
   INET_ECN_encapsulate outer inner AND 3 = (if INET_ECN_is_ce inner then INET_ECN_ECT_0 else inner AND 3) \<and>
   \<not> INET_ECN_is_ce (INET_ECN_encapsulate outer inner) \<and>
   (INET_ECN_is_not_ect (INET_ECN_encapsulate outer inner) \<longleftrightarrow> INET_ECN_is_not_ect inner) \<and>
   INET_ECN_is_capable (inet_tos (INET_ECN_xmit sk)) \<noteq> 0 \<and>
   inet_tos (INET_ECN_xmit sk) AND NOT 3 = inet_tos sk AND NOT 3 \<and>
   INET_ECN_is_not_ect (inet_tos (INET_ECN_dontxmit sk)) \<and>
   inet_tos (INET_ECN_dontxmit sk) AND NOT 3 = inet_tos sk AND NOT 3 \<and>
   pred_option (\<lambda>t. INET_ECN_is_capable t \<noteq> 0) (inet6_tclass (INET_ECN_xmit sk)) \<and>
   pred_option INET_ECN_is_not_ect (inet6_tclass (INET_ECN_dontxmit sk)))"
  by (rule conjI [OF ipv6_marking_part ecn_encapsulation_part])

section \<open>The protocol behind VLAN tags\<close>

lemma zero_not_vlan: "\<not> eth_type_vlan E 0"
  by (cases E) (simp_all add: eth_type_vlan_def htons_def swab16_def ETH_P_8021Q_def ETH_P_8021AD_def)

lemma vlan_tags_plain: "\<not> eth_type_vlan E (vlan_tags E copy_bits skb pd depth)"
proof (induction pd arbitrary: depth)
  case (Suc pd)
  then show ?case
    by (auto simp: Let_def split: option.splits) (simp_all add: zero_not_vlan)
qed (simp add: zero_not_vlan)

definition tag_type :: "byteorder \<Rightarrow> u8 list \<Rightarrow> u16" where
  "tag_type E vh = raw16 E (vh ! 2) (vh ! 3)"

text \<open>Where the first tag starts: in front of the payload, or behind the Ethernet header.\<close>

definition first_tag :: "sk_buff \<Rightarrow> nat" where
  "first_tag skb = (if skb_mac_len skb = 0 then 14 else unat (skb_mac_len skb) - 4)"

text \<open>
  The type behind tag \<open>i\<close>, in the linear buffer or beyond it, if the tag can be read, and a run of \<open>n\<close> tags
  that announce one more tag each.
\<close>

definition nth_tag :: "byteorder \<Rightarrow> copy_bits \<Rightarrow> sk_buff \<Rightarrow> nat \<Rightarrow> u16 option" where
  "nth_tag E copy_bits skb i = map_option (tag_type E) (skb_header_pointer copy_bits skb (first_tag skb + 4 * i) 4)"

definition vlan_run :: "byteorder \<Rightarrow> copy_bits \<Rightarrow> sk_buff \<Rightarrow> nat \<Rightarrow> bool" where
  "vlan_run E copy_bits skb n \<longleftrightarrow>
     list_all (\<lambda>i. case nth_tag E copy_bits skb i of Some t \<Rightarrow> eth_type_vlan E t | None \<Rightarrow> False) [0..<n]"

lemma vlan_run_Suc:
  "vlan_run E copy_bits skb (Suc n) \<longleftrightarrow>
     vlan_run E copy_bits skb n \<and> (\<exists>t. nth_tag E copy_bits skb n = Some t \<and> eth_type_vlan E t)"
  by (auto simp: vlan_run_def split: option.splits)

lemma vlan_tags_run:
  assumes "vlan_run E copy_bits skb n" and "n < pd"
  shows "vlan_tags E copy_bits skb pd (first_tag skb) = vlan_tags E copy_bits skb (pd - n) (first_tag skb + 4 * n)"
  using assms
proof (induction n)
  case (Suc n)
  then obtain vh k where "skb_header_pointer copy_bits skb (first_tag skb + 4 * n) 4 = Some vh"
      "eth_type_vlan E (tag_type E vh)" and k: "pd - n = Suc (Suc k)" "pd - Suc n = Suc k"
    using that [of _ "pd - n - 2"] by (auto simp: vlan_run_Suc nth_tag_def)
  then have "vlan_tags E copy_bits skb (pd - n) (first_tag skb + 4 * n) =
      vlan_tags E copy_bits skb (pd - Suc n) (first_tag skb + 4 * Suc n)"
    by (simp add: tag_type_def Let_def VLAN_HLEN_def algebra_simps)
  with Suc show ?case
    by (simp add: vlan_run_Suc)
qed simp

lemma skb_protocol_tags:
  assumes "eth_type_vlan E (skb_proto skb)" and "skb_mac_len skb = 0 \<or> 4 \<le> unat (skb_mac_len skb)"
  shows "skb_protocol E copy_bits skb True = vlan_tags E copy_bits skb 8 (first_tag skb)"
  using assms by (auto simp: skb_protocol_def vlan_get_protocol_def vlan_get_protocol_from_def first_tag_def
      VLAN_MAX_DEPTH_def VLAN_HLEN_def ETH_HLEN_def Let_def unat_eq_zero)

text \<open>
  C20. What \<open>skb_protocol\<close> finds behind VLAN tags, when it is asked to look through them: behind one to seven tags
  that can be read, in the linear buffer or beyond it, the type the last of them encapsulates; 0 as soon as a
  tag cannot be read, and 0 when there is an eighth tag, whatever it encapsulates.  A packet without tags keeps its
  type, an inconsistent header length gives 0, and the result is never a VLAN type.  Asked not to look through the tags, it
  answers with the type of the tag the hardware stripped, if there is one, and with the type of the packet otherwise.
\<close>

theorem vlan_protocol_found:
  assumes "eth_type_vlan E (skb_proto skb)" and "skb_mac_len skb = 0 \<or> 4 \<le> unat (skb_mac_len skb)"
  shows "(n < 7 \<and> vlan_run E copy_bits skb n \<and> nth_tag E copy_bits skb n = Some t \<and> \<not> eth_type_vlan E t \<longrightarrow>
            skb_protocol E copy_bits skb True = t) \<and>
         (n < 7 \<and> vlan_run E copy_bits skb n \<and> nth_tag E copy_bits skb n = None \<longrightarrow>
            skb_protocol E copy_bits skb True = 0) \<and>
         (vlan_run E copy_bits skb 7 \<longrightarrow> skb_protocol E copy_bits skb True = 0) \<and>
         \<not> eth_type_vlan E (skb_protocol E copy_bits skb' True) \<and>
         (\<not> eth_type_vlan E (skb_proto skb') \<longrightarrow> skb_protocol E copy_bits skb' True = skb_proto skb') \<and>
         (eth_type_vlan E (skb_proto skb') \<and> 0 < skb_mac_len skb' \<and> skb_mac_len skb' < 4 \<longrightarrow>
            skb_protocol E copy_bits skb' True = 0) \<and>
         skb_protocol E copy_bits skb' False = (if skb_vlan_present skb' then skb_vlan_proto skb' else skb_proto skb')"
proof (intro conjI impI; (elim conjE)?)
  note tags = skb_protocol_tags [OF assms] vlan_tags_run [of E copy_bits skb _ 8]
  assume n: "n < 7" "vlan_run E copy_bits skb n"
  then obtain k where k: "8 - n = Suc (Suc k)"
    using that [of "6 - n"] by simp
  show "nth_tag E copy_bits skb n = Some t \<Longrightarrow> \<not> eth_type_vlan E t \<Longrightarrow> skb_protocol E copy_bits skb True = t"
    using n by (auto simp: tags k nth_tag_def tag_type_def Let_def)
  show "nth_tag E copy_bits skb n = None \<Longrightarrow> skb_protocol E copy_bits skb True = 0"
    using n by (simp add: tags k nth_tag_def)
next
  assume "vlan_run E copy_bits skb 7"
  then show "skb_protocol E copy_bits skb True = 0"
    by (simp add: skb_protocol_tags [OF assms] vlan_tags_run [of E copy_bits skb 7 8] split: option.split)
next
  show "\<not> eth_type_vlan E (skb_protocol E copy_bits skb' True)"
    using vlan_tags_plain zero_not_vlan
    by (auto simp: skb_protocol_def vlan_get_protocol_def vlan_get_protocol_from_def Let_def)
qed (auto simp: skb_protocol_def vlan_get_protocol_def vlan_get_protocol_from_def Let_def VLAN_HLEN_def
    word_less_nat_alt unat_eq_zero)

definition sample_skb :: "u8 list \<Rightarrow> u16 \<Rightarrow> nat \<Rightarrow> sk_buff" where
  "sample_skb bs proto nh =
     \<lparr>skb_head = bs, skb_data = 0, skb_tail = length bs, skb_nh = nh, skb_len = word_of_nat (length bs),
      skb_data_len = 0, skb_mac_len = 0, skb_proto = proto, skb_vlan_present = False, skb_vlan_proto = 0,
      skb_complete = True, skb_csum = 0\<rparr>"

text \<open>An Ethernet frame with one VLAN tag in front of an IPv4 packet.\<close>

definition sample_frame :: sk_buff where
  "sample_frame = sample_skb (replicate 12 0 @ [0x81, 0, 0, 7, 0x08, 0] @ replicate 20 0) 0x8100 18"

text \<open>The same frame with eight tags.\<close>

definition sample_frame8 :: sk_buff where
  "sample_frame8 = sample_skb (replicate 12 0 @ concat (replicate 8 [0x81, 0, 0, 7]) @ [0x08, 0] @ replicate 20 0) 0x8100 46"

theorem vlan_protocol_found_witness:
  "skb_protocol Big_Endian (\<lambda>_ _ _. None) sample_frame True = ETH_P_IP \<and>
   skb_protocol Big_Endian (\<lambda>_ _ _. None) sample_frame8 True = 0"
proof -
  have "nth_tag Big_Endian (\<lambda>_ _ _. None) sample_frame 0 = Some ETH_P_IP" "\<not> eth_type_vlan Big_Endian ETH_P_IP"
      "vlan_run Big_Endian (\<lambda>_ _ _. None) sample_frame 0" "vlan_run Big_Endian (\<lambda>_ _ _. None) sample_frame8 7"
      "eth_type_vlan Big_Endian (skb_proto sample_frame)" "skb_mac_len sample_frame = 0"
      "eth_type_vlan Big_Endian (skb_proto sample_frame8)" "skb_mac_len sample_frame8 = 0"
    by code_simp+
  then show ?thesis
    using vlan_protocol_found [of Big_Endian sample_frame 0 "\<lambda>_ _ _. None" ETH_P_IP]
      vlan_protocol_found [of Big_Endian sample_frame8] by simp
qed

section \<open>Decapsulation\<close>

lemma length_bytes [simp]: "length (bytes16 E w) = 2" "length (bytes32 E x) = 4"
  by (cases E; simp add: bytes16_def bytes32_def Let_def)+

lemma length_iphdr_bytes [simp]: "length (iphdr_bytes E h) = 20"
  by (simp add: iphdr_bytes_def)

lemma ip_hdr_set:
  assumes "skb_nh skb + 20 \<le> length (skb_head skb)"
  shows "ip_hdr E (set_ip_hdr E h skb) = h"
proof -
  have "nh_byte (set_ip_hdr E h skb) i = iphdr_bytes E h ! i" if "i < 20" for i
    using assms that by (simp add: nh_byte_def set_ip_hdr_def nth_memcpy_at)
  then show ?thesis
    unfolding ip_hdr_def by (simp add: iphdr_bytes_def nth_append)
qed

lemma ipv6_hdr_set:
  assumes "skb_nh skb + 4 \<le> length (skb_head skb)"
  shows "ipv6_hdr (set_ipv6_hdr h skb) = h"
proof -
  obtain b c d where l: "ip6_flow_lbl h = (b, c, d)"
    by (cases "ip6_flow_lbl h")
  have "nh_byte (set_ipv6_hdr h skb) i = [ip6_priority_version h, b, c, d] ! i" if "i < 4" for i
    using assms that by (simp add: nh_byte_def set_ipv6_hdr_def nth_memcpy_at l)
  then show ?thesis
    unfolding ipv6_hdr_def using l by simp
qed

text \<open>A packet whose network header lies in the linear buffer, and its DS field.\<close>

definition packet_ok :: "byteorder \<Rightarrow> copy_bits \<Rightarrow> bool \<Rightarrow> sk_buff \<Rightarrow> bool" where
  "packet_ok E copy_bits v6 skb \<longleftrightarrow>
     skb_tail skb \<le> length (skb_head skb) \<and>
     (if v6 then skb_protocol E copy_bits skb True = htons E ETH_P_IPV6 \<and> skb_nh skb + 40 \<le> skb_tail skb
      else skb_protocol E copy_bits skb True = htons E ETH_P_IP \<and> skb_nh skb + 20 \<le> skb_tail skb)"

definition dsfield_at :: "byteorder \<Rightarrow> bool \<Rightarrow> sk_buff \<Rightarrow> u8" where
  "dsfield_at E v6 skb =
     (if v6 then ipv6_get_dsfield E (ipv6_hdr skb) else ipv4_get_dsfield (ip_hdr E skb))"

lemma protocols_differ: "htons E ETH_P_IPV6 \<noteq> htons E ETH_P_IP"
  by (cases E) (simp_all add: htons_def swab16_def ETH_P_IPV6_def ETH_P_IP_def)

lemma csum_update_fields [simp]:
  "skb_head (csum_update a b skb) = skb_head skb" "skb_nh (csum_update a b skb) = skb_nh skb"
  by (simp_all add: csum_update_def)

lemma mark_head:
  "skb_head (fst (snd (IP6_ECN_set_ce E skb h))) = skb_head skb"
  "skb_nh (fst (snd (IP6_ECN_set_ce E skb h))) = skb_nh skb"
  "skb_head (fst (snd (IP6_ECN_set_ect1 E skb h))) = skb_head skb"
  "skb_nh (fst (snd (IP6_ECN_set_ect1 E skb h))) = skb_nh skb"
  by (simp_all add: set_ce6 set_ect16 Let_def)

lemma packet_marks:
  assumes "packet_ok E copy_bits v6 skb"
  shows "INET_ECN_set_ce E copy_bits skb =
      (if v6 then case IP6_ECN_set_ce E skb (ipv6_hdr skb) of (ret, skb, iph) \<Rightarrow> (ret, set_ipv6_hdr iph skb)
       else case IP_ECN_set_ce E (ip_hdr E skb) of (ret, iph) \<Rightarrow> (ret, set_ip_hdr E iph skb))"
    and "INET_ECN_set_ect1 E copy_bits skb =
      (if v6 then case IP6_ECN_set_ect1 E skb (ipv6_hdr skb) of (ret, skb, iph) \<Rightarrow> (ret, set_ipv6_hdr iph skb)
       else case IP_ECN_set_ect1 E (ip_hdr E skb) of (ret, iph) \<Rightarrow> (ret, set_ip_hdr E iph skb))"
    and "skb_nh skb + 20 \<le> length (skb_head skb)"
  using assms protocols_differ [of E]
  by (auto simp: packet_ok_def INET_ECN_set_ce_def INET_ECN_set_ect1_def Let_def split: if_splits)

lemma packet_set_ce:
  assumes "packet_ok E copy_bits v6 skb"
  shows "dsfield_at E v6 (snd (INET_ECN_set_ce E copy_bits skb)) =
    (if dsfield_at E v6 skb AND 3 = 0 then dsfield_at E v6 skb else dsfield_at E v6 skb OR 3)"
  using packet_marks(3) [OF assms]
  by (simp add: packet_marks(1) [OF assms] case_prod_beta dsfield_at_def ipv4_get_dsfield_def
      ip_hdr_set ipv6_hdr_set mark_head set_ce_result set_ce6_field)

lemma packet_set_ect1:
  assumes "packet_ok E copy_bits v6 skb"
  shows "dsfield_at E v6 (snd (INET_ECN_set_ect1 E copy_bits skb)) =
    (if dsfield_at E v6 skb AND 3 = 2 then dsfield_at E v6 skb XOR 3 else dsfield_at E v6 skb)"
  using packet_marks(3) [OF assms]
  by (simp add: packet_marks(2) [OF assms] case_prod_beta dsfield_at_def ipv4_get_dsfield_def
      ip_hdr_set ipv6_hdr_set mark_head set_ect1_result set_ect16_field)

text \<open>
  The table of RFC 6040 as the header quotes it: the codepoint of the forwarded packet, \<open>None\<close> to
  drop it, by the inner and the outer codepoint; and the entries marked with three exclamation marks.
\<close>

datatype codepoint = Not_ECT | ECT_1 | ECT_0 | CE

definition codepoint :: "u8 \<Rightarrow> codepoint" where
  "codepoint ds =
     (let code = ds AND 3
      in if code = 0 then Not_ECT else if code = 1 then ECT_1 else if code = 2 then ECT_0 else CE)"

fun figure4 :: "codepoint \<Rightarrow> codepoint \<Rightarrow> codepoint option" where
  "figure4 Not_ECT CE = None"
| "figure4 Not_ECT _ = Some Not_ECT"
| "figure4 ECT_0 Not_ECT = Some ECT_0"
| "figure4 ECT_0 ECT_0 = Some ECT_0"
| "figure4 ECT_0 ECT_1 = Some ECT_1"
| "figure4 ECT_0 CE = Some CE"
| "figure4 ECT_1 CE = Some CE"
| "figure4 ECT_1 _ = Some ECT_1"
| "figure4 CE _ = Some CE"

fun figure4_alarm :: "codepoint \<Rightarrow> codepoint \<Rightarrow> bool" where
  "figure4_alarm Not_ECT outer = (outer \<noteq> Not_ECT)"
| "figure4_alarm CE ECT_1 = True"
| "figure4_alarm _ _ = False"

definition mark_result :: "u8 \<Rightarrow> u8 \<Rightarrow> u8" where
  "mark_result outer inner =
     (if inner AND 3 = 0 then inner
      else if outer AND 3 = 3 then inner OR 3
      else if outer AND 3 = 1 \<and> inner AND 3 = 2 then inner XOR 3
      else inner)"

lemma decapsulate_field:
  assumes "packet_ok E copy_bits v6 skb"
  shows "dsfield_at E v6 (snd (INET_ECN_decapsulate E copy_bits skb outer (dsfield_at E v6 skb))) =
    mark_result outer (dsfield_at E v6 skb)"
  using packet_set_ce [OF assms] packet_set_ect1 [OF assms]
  by (auto simp: INET_ECN_decapsulate_def raw_INET_ECN_decapsulate_def mark_result_def INET_ECN_is_ce_def
      INET_ECN_is_not_ect_def ecn_consts Let_def)

definition mark_ok :: "u8 \<Rightarrow> u8 \<Rightarrow> bool" where
  "mark_ok outer inner \<longleftrightarrow>
     codepoint (mark_result outer inner) = (case figure4 (codepoint inner) (codepoint outer) of
       None \<Rightarrow> codepoint inner | Some p \<Rightarrow> p) \<and>
     mark_result outer inner AND NOT 3 = inner AND NOT 3 \<and>
     fst (raw_INET_ECN_decapsulate outer inner False) =
       (if figure4 (codepoint inner) (codepoint outer) = None then 2
        else if figure4_alarm (codepoint inner) (codepoint outer) \<and>
                \<not> (codepoint inner = CE \<and> codepoint outer = ECT_1) then 1
        else 0)"

lemma mark_bits:
  "(i OR 3) AND 3 = 3" "(i XOR 3) AND 3 = (i AND 3) XOR 3"
  "(i OR 3) AND NOT 3 = i AND NOT 3" "(i XOR 3) AND NOT 3 = i AND NOT 3" for i :: u8
  by (rule bit_word_eqI; auto simp: bit_simps)+

lemma code_cases:
  obtains "ds AND 3 = 0" "codepoint ds = Not_ECT" | "ds AND 3 = 1" "codepoint ds = ECT_1"
  | "ds AND 3 = 2" "codepoint ds = ECT_0" | "ds AND 3 = 3" "codepoint ds = CE"
  using ecn_cases [of ds] by (auto simp: ecn_cases_def codepoint_def Let_def split: if_splits)

lemma mark_code: "codepoint (mark_result outer inner) = (case figure4 (codepoint inner) (codepoint outer) of
    None \<Rightarrow> codepoint inner | Some p \<Rightarrow> p)"
  by (rule code_cases [of outer]; rule code_cases [of inner];
      simp add: mark_result_def) (simp_all add: codepoint_def mark_bits)

lemma decapsulate_code: "fst (raw_INET_ECN_decapsulate outer inner False) =
    (if figure4 (codepoint inner) (codepoint outer) = None then 2
     else if figure4_alarm (codepoint inner) (codepoint outer) \<and>
             \<not> (codepoint inner = CE \<and> codepoint outer = ECT_1) then 1
     else 0)"
  by (rule code_cases [of outer]; rule code_cases [of inner];
      simp add: raw_INET_ECN_decapsulate_def INET_ECN_is_not_ect_def ecn_consts)

lemma mark_ok: "mark_ok outer inner"
  unfolding mark_ok_def mark_code decapsulate_code by (simp add: mark_result_def mark_bits [simplified])

definition decapsulates :: "byteorder \<Rightarrow> bool \<Rightarrow> u8 \<Rightarrow> sk_buff \<Rightarrow> int \<times> sk_buff \<Rightarrow> bool" where
  "decapsulates E v6 outer skb result \<longleftrightarrow>
     (case (result, figure4 (codepoint (dsfield_at E v6 skb)) (codepoint outer)) of
        ((rc, skb'), None) \<Rightarrow> rc = 2 \<and> skb' = skb
      | ((rc, skb'), Some p) \<Rightarrow>
          codepoint (dsfield_at E v6 skb') = p \<and>
          dsfield_at E v6 skb' AND NOT 3 = dsfield_at E v6 skb AND NOT 3 \<and>
          rc = (if figure4_alarm (codepoint (dsfield_at E v6 skb)) (codepoint outer) \<and>
                   \<not> (codepoint (dsfield_at E v6 skb) = CE \<and> codepoint outer = ECT_1) then 1 else 0))"

lemma decapsulate_spec:
  assumes "packet_ok E copy_bits v6 skb"
  shows "decapsulates E v6 outer skb (INET_ECN_decapsulate E copy_bits skb outer (dsfield_at E v6 skb))"
proof -
  let ?i = "dsfield_at E v6 skb"
  have rc: "fst (INET_ECN_decapsulate E copy_bits skb outer ?i) = fst (raw_INET_ECN_decapsulate outer ?i False)"
    "fst (raw_INET_ECN_decapsulate outer ?i False) \<noteq> 0 \<Longrightarrow>
      snd (INET_ECN_decapsulate E copy_bits skb outer ?i) = skb"
    by (simp_all add: INET_ECN_decapsulate_def case_prod_beta)
  obtain a b where ab: "INET_ECN_decapsulate E copy_bits skb outer ?i = (a, b)"
    by fastforce
  show ?thesis
    using mark_ok [of outer ?i] decapsulate_field [OF assms, of outer] rc
    by (auto simp: decapsulates_def mark_ok_def ab split: option.splits if_splits)
qed

text \<open>
  C16. Decapsulation implements the table of RFC 6040 for an IPv4 or IPv6 packet behind an IPv4 or an
  IPv6 tunnel header: a packet is dropped (2) where the table says so, otherwise its header carries
  the codepoint of the table and its DSCP is kept.  The combinations the table marks for logging
  return 1, except an inner CE behind an outer ECT(1), which returns 0.
\<close>

theorem ecn_decapsulation:
  assumes "packet_ok E copy_bits v6 skb"
  shows "decapsulates E v6 (ip_tos oiph) skb (IP_ECN_decapsulate E copy_bits oiph skb) \<and>
         decapsulates E v6 (ipv6_get_dsfield E oipv6h) skb (IP6_ECN_decapsulate E copy_bits oipv6h skb)"
proof -
  have "IP_ECN_decapsulate E copy_bits oiph skb =
      INET_ECN_decapsulate E copy_bits skb (ip_tos oiph) (dsfield_at E v6 skb)"
    "IP6_ECN_decapsulate E copy_bits oipv6h skb =
      INET_ECN_decapsulate E copy_bits skb (ipv6_get_dsfield E oipv6h) (dsfield_at E v6 skb)"
    using assms protocols_differ [of E]
    by (auto simp: packet_ok_def IP_ECN_decapsulate_def IP6_ECN_decapsulate_def dsfield_at_def
        ipv4_get_dsfield_def Let_def split: if_splits)
  then show ?thesis
    using decapsulate_spec [OF assms] by simp
qed

text \<open>An ECT(0) packet behind the VLAN tag of the sample frame, and a tunnel header with CE.\<close>

definition sample_inner :: sk_buff where
  "sample_inner = sample_skb (replicate 12 0 @ [0x81, 0, 0, 7, 0x08, 0, 0x45, 2] @ replicate 18 0) 0x8100 18"

theorem ecn_decapsulation_witness:
  "packet_ok Big_Endian (\<lambda>_ _ _. None) False sample_inner \<and>
   decapsulates Big_Endian False 3 sample_inner
     (IP_ECN_decapsulate Big_Endian (\<lambda>_ _ _. None) (ip_hdr Big_Endian sample_inner\<lparr>ip_tos := 3\<rparr>) sample_inner) \<and>
   codepoint (dsfield_at Big_Endian False sample_inner) = ECT_0"
proof -
  have "packet_ok Big_Endian (\<lambda>_ _ _. None) False sample_inner"
    by code_simp
  moreover have "codepoint (dsfield_at Big_Endian False sample_inner) = ECT_0"
    by code_simp
  ultimately show ?thesis
    using ecn_decapsulation [of Big_Endian "\<lambda>_ _ _. None" False sample_inner
      "ip_hdr Big_Endian sample_inner\<lparr>ip_tos := 3\<rparr>"] by simp
qed

end
