(* ===== verification/List_Head.thy ===== *)
theory List_Head
  imports Prelude "HOL-Library.Monad_Syntax"
begin

text \<open>
  The circular doubly linked lists of \<open>linux/list.h\<close>.  A pointer to a \<open>struct list_head\<close> is a 64 bit
  word; the store maps it to its \<open>next\<close> and \<open>prev\<close> members.  Every assignment of the source is one
  update of the store, in the order of the source, so entries may coincide with each other and with
  the head the way the code allows.  A function \<open>__list_f\<close> of the header is called \<open>raw_list_f\<close>.

  \<open>READ_ONCE\<close>, \<open>WRITE_ONCE\<close>, \<open>smp_load_acquire\<close> and \<open>smp_store_release\<close> are plain accesses: the model
  is sequential.  \<open>CONFIG_DEBUG_LIST\<close> is off, as in the header's own definitions of the validity
  checks.  \<open>POISON_POINTER_DELTA\<close> depends on the architecture; it is zero here.
\<close>

type_synonym lnode = u64

record lstore =
  l_next :: "lnode \<Rightarrow> lnode"
  l_prev :: "lnode \<Rightarrow> lnode"

definition set_next :: "lnode \<Rightarrow> lnode \<Rightarrow> lstore \<Rightarrow> lstore" where
  "set_next p v s = s\<lparr>l_next := (l_next s)(p := v)\<rparr>"

definition set_prev :: "lnode \<Rightarrow> lnode \<Rightarrow> lstore \<Rightarrow> lstore" where
  "set_prev p v s = s\<lparr>l_prev := (l_prev s)(p := v)\<rparr>"

definition LIST_POISON1 :: lnode where "LIST_POISON1 = 0x100"
definition LIST_POISON2 :: lnode where "LIST_POISON2 = 0x122"

section \<open>Adding and deleting entries\<close>

definition INIT_LIST_HEAD :: "lnode \<Rightarrow> lstore \<Rightarrow> lstore" where
  "INIT_LIST_HEAD list = stmts [set_next list list, set_prev list list]"

definition raw_list_add_valid :: "lnode \<Rightarrow> lnode \<Rightarrow> lnode \<Rightarrow> bool" where
  "raw_list_add_valid new prev next = True"

definition raw_list_del_entry_valid :: "lnode \<Rightarrow> bool" where
  "raw_list_del_entry_valid entry = True"

definition raw_list_add :: "lnode \<Rightarrow> lnode \<Rightarrow> lnode \<Rightarrow> lstore \<Rightarrow> lstore" where
  "raw_list_add new prev next s =
     (if \<not> raw_list_add_valid new prev next then s
      else stmts [set_prev next new, set_next new next, set_prev new prev, set_next prev new] s)"

definition list_add :: "lnode \<Rightarrow> lnode \<Rightarrow> lstore \<Rightarrow> lstore" where
  "list_add new head s = raw_list_add new head (l_next s head) s"

definition list_add_tail :: "lnode \<Rightarrow> lnode \<Rightarrow> lstore \<Rightarrow> lstore" where
  "list_add_tail new head s = raw_list_add new (l_prev s head) head s"

definition raw_list_del :: "lnode \<Rightarrow> lnode \<Rightarrow> lstore \<Rightarrow> lstore" where
  "raw_list_del prev next = stmts [set_prev next prev, set_next prev next]"

definition raw_list_del_clearprev :: "lnode \<Rightarrow> lstore \<Rightarrow> lstore" where
  "raw_list_del_clearprev entry s =
     set_prev entry 0 (raw_list_del (l_prev s entry) (l_next s entry) s)"

definition raw_list_del_entry :: "lnode \<Rightarrow> lstore \<Rightarrow> lstore" where
  "raw_list_del_entry entry s =
     (if \<not> raw_list_del_entry_valid entry then s
      else raw_list_del (l_prev s entry) (l_next s entry) s)"

definition list_del :: "lnode \<Rightarrow> lstore \<Rightarrow> lstore" where
  "list_del entry =
     stmts [raw_list_del_entry entry, set_next entry LIST_POISON1, set_prev entry LIST_POISON2]"

definition list_replace :: "lnode \<Rightarrow> lnode \<Rightarrow> lstore \<Rightarrow> lstore" where
  "list_replace old new =
     stmts [\<lambda>s. set_next new (l_next s old) s,
            \<lambda>s. set_prev (l_next s new) new s,
            \<lambda>s. set_prev new (l_prev s old) s,
            \<lambda>s. set_next (l_prev s new) new s]"

definition list_replace_init :: "lnode \<Rightarrow> lnode \<Rightarrow> lstore \<Rightarrow> lstore" where
  "list_replace_init old new = stmts [list_replace old new, INIT_LIST_HEAD old]"

definition list_swap :: "lnode \<Rightarrow> lnode \<Rightarrow> lstore \<Rightarrow> lstore" where
  "list_swap entry1 entry2 s =
     (let pos = l_prev s entry2;
          s = list_del entry2 s;
          s = list_replace entry1 entry2 s;
          pos = (if pos = entry1 then entry2 else pos)
      in list_add entry1 pos s)"

definition list_del_init :: "lnode \<Rightarrow> lstore \<Rightarrow> lstore" where
  "list_del_init entry = stmts [raw_list_del_entry entry, INIT_LIST_HEAD entry]"

section \<open>Moving entries\<close>

definition list_move :: "lnode \<Rightarrow> lnode \<Rightarrow> lstore \<Rightarrow> lstore" where
  "list_move list head = stmts [raw_list_del_entry list, list_add list head]"

definition list_move_tail :: "lnode \<Rightarrow> lnode \<Rightarrow> lstore \<Rightarrow> lstore" where
  "list_move_tail list head = stmts [raw_list_del_entry list, list_add_tail list head]"

definition list_bulk_move_tail :: "lnode \<Rightarrow> lnode \<Rightarrow> lnode \<Rightarrow> lstore \<Rightarrow> lstore" where
  "list_bulk_move_tail head first last' =
     stmts [\<lambda>s. set_next (l_prev s first) (l_next s last') s,
            \<lambda>s. set_prev (l_next s last') (l_prev s first) s,
            \<lambda>s. set_next (l_prev s head) first s,
            \<lambda>s. set_prev first (l_prev s head) s,
            set_next last' head,
            set_prev head last']"

section \<open>Tests\<close>

definition list_is_first :: "lnode \<Rightarrow> lnode \<Rightarrow> lstore \<Rightarrow> bool" where
  "list_is_first list head s \<longleftrightarrow> l_prev s list = head"

definition list_is_last :: "lnode \<Rightarrow> lnode \<Rightarrow> lstore \<Rightarrow> bool" where
  "list_is_last list head s \<longleftrightarrow> l_next s list = head"

definition list_empty :: "lnode \<Rightarrow> lstore \<Rightarrow> bool" where
  "list_empty head s \<longleftrightarrow> l_next s head = head"

definition list_del_init_careful :: "lnode \<Rightarrow> lstore \<Rightarrow> lstore" where
  "list_del_init_careful entry =
     stmts [raw_list_del_entry entry, set_prev entry entry, set_next entry entry]"

definition list_empty_careful :: "lnode \<Rightarrow> lstore \<Rightarrow> bool" where
  "list_empty_careful head s \<longleftrightarrow> (let next = l_next s head in next = head \<and> next = l_prev s head)"

section \<open>Rotating, cutting and splicing\<close>

definition list_rotate_left :: "lnode \<Rightarrow> lstore \<Rightarrow> lstore" where
  "list_rotate_left head s =
     (if \<not> list_empty head s then let first = l_next s head in list_move_tail first head s else s)"

definition list_rotate_to_front :: "lnode \<Rightarrow> lnode \<Rightarrow> lstore \<Rightarrow> lstore" where
  "list_rotate_to_front list head = list_move_tail head list"

definition list_is_singular :: "lnode \<Rightarrow> lstore \<Rightarrow> bool" where
  "list_is_singular head s \<longleftrightarrow> \<not> list_empty head s \<and> l_next s head = l_prev s head"

definition raw_list_cut_position :: "lnode \<Rightarrow> lnode \<Rightarrow> lnode \<Rightarrow> lstore \<Rightarrow> lstore" where
  "raw_list_cut_position list head entry s =
     (let new_first = l_next s entry
      in stmts [\<lambda>s. set_next list (l_next s head) s,
                \<lambda>s. set_prev (l_next s list) list s,
                set_prev list entry,
                set_next entry list,
                set_next head new_first,
                set_prev new_first head] s)"

definition list_cut_position :: "lnode \<Rightarrow> lnode \<Rightarrow> lnode \<Rightarrow> lstore \<Rightarrow> lstore" where
  "list_cut_position list head entry s =
     (if list_empty head s then s
      else if list_is_singular head s \<and> l_next s head \<noteq> entry \<and> head \<noteq> entry then s
      else if entry = head then INIT_LIST_HEAD list s
      else raw_list_cut_position list head entry s)"

definition list_cut_before :: "lnode \<Rightarrow> lnode \<Rightarrow> lnode \<Rightarrow> lstore \<Rightarrow> lstore" where
  "list_cut_before list head entry s =
     (if l_next s head = entry then INIT_LIST_HEAD list s
      else stmts [\<lambda>s. set_next list (l_next s head) s,
                  \<lambda>s. set_prev (l_next s list) list s,
                  \<lambda>s. set_prev list (l_prev s entry) s,
                  \<lambda>s. set_next (l_prev s list) list s,
                  set_next head entry,
                  set_prev entry head] s)"

definition raw_list_splice :: "lnode \<Rightarrow> lnode \<Rightarrow> lnode \<Rightarrow> lstore \<Rightarrow> lstore" where
  "raw_list_splice list prev next s =
     (let first = l_next s list; last' = l_prev s list
      in stmts [set_prev first prev, set_next prev first, set_next last' next, set_prev next last'] s)"

definition list_splice :: "lnode \<Rightarrow> lnode \<Rightarrow> lstore \<Rightarrow> lstore" where
  "list_splice list head s =
     (if \<not> list_empty list s then raw_list_splice list head (l_next s head) s else s)"

definition list_splice_tail :: "lnode \<Rightarrow> lnode \<Rightarrow> lstore \<Rightarrow> lstore" where
  "list_splice_tail list head s =
     (if \<not> list_empty list s then raw_list_splice list (l_prev s head) head s else s)"

definition list_splice_init :: "lnode \<Rightarrow> lnode \<Rightarrow> lstore \<Rightarrow> lstore" where
  "list_splice_init list head s =
     (if \<not> list_empty list s
      then INIT_LIST_HEAD list (raw_list_splice list head (l_next s head) s) else s)"

definition list_splice_tail_init :: "lnode \<Rightarrow> lnode \<Rightarrow> lstore \<Rightarrow> lstore" where
  "list_splice_tail_init list head s =
     (if \<not> list_empty list s
      then INIT_LIST_HEAD list (raw_list_splice list (l_prev s head) head s) else s)"

section \<open>Entries\<close>

text \<open>
  \<open>list_entry\<close> is \<open>container_of\<close>: the address of the structure in which the \<open>list_head\<close> is the member at
  offset \<open>off\<close>.
\<close>

definition list_entry :: "u64 \<Rightarrow> lnode \<Rightarrow> u64" where
  "list_entry off ptr = ptr - off"

definition list_first_entry :: "u64 \<Rightarrow> lnode \<Rightarrow> lstore \<Rightarrow> u64" where
  "list_first_entry off ptr s = list_entry off (l_next s ptr)"

definition list_last_entry :: "u64 \<Rightarrow> lnode \<Rightarrow> lstore \<Rightarrow> u64" where
  "list_last_entry off ptr s = list_entry off (l_prev s ptr)"

definition list_first_entry_or_null :: "u64 \<Rightarrow> lnode \<Rightarrow> lstore \<Rightarrow> u64" where
  "list_first_entry_or_null off ptr s =
     (let head = ptr; pos = l_next s head
      in if pos \<noteq> head then list_entry off pos else 0)"

definition list_next_entry :: "u64 \<Rightarrow> u64 \<Rightarrow> lstore \<Rightarrow> u64" where
  "list_next_entry off pos s = list_entry off (l_next s (pos + off))"

definition list_prev_entry :: "u64 \<Rightarrow> u64 \<Rightarrow> lstore \<Rightarrow> u64" where
  "list_prev_entry off pos s = list_entry off (l_prev s (pos + off))"

definition list_entry_is_head :: "u64 \<Rightarrow> u64 \<Rightarrow> lnode \<Rightarrow> bool" where
  "list_entry_is_head off pos head \<longleftrightarrow> pos + off = head"

definition list_prepare_entry :: "u64 \<Rightarrow> u64 \<Rightarrow> lnode \<Rightarrow> u64" where
  "list_prepare_entry off pos head = (if pos \<noteq> 0 then pos else list_entry off head)"

definition list_safe_reset_next :: "u64 \<Rightarrow> u64 \<Rightarrow> lstore \<Rightarrow> u64" where
  "list_safe_reset_next off pos s = list_next_entry off pos s"

section \<open>Iteration\<close>

text \<open>
  The iteration macros are the heads of \<open>for\<close> loops.  The body works on the store and on a state of
  its own.  \<open>None\<close> is a loop that does not end.
\<close>

type_synonym 'a lstate = "lstore \<times> 'a"

partial_function (option) for_loop ::
  "('p \<Rightarrow> bool) \<Rightarrow> ('p \<Rightarrow> 's \<Rightarrow> 'p) \<Rightarrow> ('p \<Rightarrow> 's \<times> 'a \<Rightarrow> 's \<times> 'a) \<Rightarrow> 'p \<Rightarrow> 's \<times> 'a \<Rightarrow> ('s \<times> 'a) option" where
  "for_loop done step body pos st =
     (if done pos then Some st
      else let st = body pos st in for_loop done step body (step pos (fst st)) st)"

definition list_for_each :: "(lnode \<Rightarrow> 'a lstate \<Rightarrow> 'a lstate) \<Rightarrow> lnode \<Rightarrow> 'a lstate \<Rightarrow> 'a lstate option" where
  "list_for_each body head st =
     for_loop (\<lambda>pos. pos = head) (\<lambda>pos s. l_next s pos) body (l_next (fst st) head) st"

definition list_for_each_continue ::
  "(lnode \<Rightarrow> 'a lstate \<Rightarrow> 'a lstate) \<Rightarrow> lnode \<Rightarrow> lnode \<Rightarrow> 'a lstate \<Rightarrow> 'a lstate option" where
  "list_for_each_continue body pos head st =
     for_loop (\<lambda>pos. pos = head) (\<lambda>pos s. l_next s pos) body (l_next (fst st) pos) st"

definition list_for_each_prev :: "(lnode \<Rightarrow> 'a lstate \<Rightarrow> 'a lstate) \<Rightarrow> lnode \<Rightarrow> 'a lstate \<Rightarrow> 'a lstate option" where
  "list_for_each_prev body head st =
     for_loop (\<lambda>pos. pos = head) (\<lambda>pos s. l_prev s pos) body (l_prev (fst st) head) st"

text \<open>The safe loops carry the next position in a second cursor.\<close>

definition list_for_each_safe :: "(lnode \<Rightarrow> 'a lstate \<Rightarrow> 'a lstate) \<Rightarrow> lnode \<Rightarrow> 'a lstate \<Rightarrow> 'a lstate option" where
  "list_for_each_safe body head st =
     (let pos = l_next (fst st) head; n = l_next (fst st) pos
      in for_loop (\<lambda>(pos, n). pos = head) (\<lambda>(pos, n) s. (n, l_next s n)) (\<lambda>(pos, n). body pos) (pos, n) st)"

definition list_for_each_prev_safe ::
  "(lnode \<Rightarrow> 'a lstate \<Rightarrow> 'a lstate) \<Rightarrow> lnode \<Rightarrow> 'a lstate \<Rightarrow> 'a lstate option" where
  "list_for_each_prev_safe body head st =
     (let pos = l_prev (fst st) head; n = l_prev (fst st) pos
      in for_loop (\<lambda>(pos, n). pos = head) (\<lambda>(pos, n) s. (n, l_prev s n)) (\<lambda>(pos, n). body pos) (pos, n) st)"

definition list_for_each_entry ::
  "u64 \<Rightarrow> (u64 \<Rightarrow> 'a lstate \<Rightarrow> 'a lstate) \<Rightarrow> lnode \<Rightarrow> 'a lstate \<Rightarrow> 'a lstate option" where
  "list_for_each_entry off body head st =
     for_loop (\<lambda>pos. list_entry_is_head off pos head) (list_next_entry off) body
       (list_first_entry off head (fst st)) st"

definition list_for_each_entry_reverse ::
  "u64 \<Rightarrow> (u64 \<Rightarrow> 'a lstate \<Rightarrow> 'a lstate) \<Rightarrow> lnode \<Rightarrow> 'a lstate \<Rightarrow> 'a lstate option" where
  "list_for_each_entry_reverse off body head st =
     for_loop (\<lambda>pos. list_entry_is_head off pos head) (list_prev_entry off) body
       (list_last_entry off head (fst st)) st"

definition list_for_each_entry_continue ::
  "u64 \<Rightarrow> (u64 \<Rightarrow> 'a lstate \<Rightarrow> 'a lstate) \<Rightarrow> u64 \<Rightarrow> lnode \<Rightarrow> 'a lstate \<Rightarrow> 'a lstate option" where
  "list_for_each_entry_continue off body pos head st =
     for_loop (\<lambda>pos. list_entry_is_head off pos head) (list_next_entry off) body
       (list_next_entry off pos (fst st)) st"

definition list_for_each_entry_continue_reverse ::
  "u64 \<Rightarrow> (u64 \<Rightarrow> 'a lstate \<Rightarrow> 'a lstate) \<Rightarrow> u64 \<Rightarrow> lnode \<Rightarrow> 'a lstate \<Rightarrow> 'a lstate option" where
  "list_for_each_entry_continue_reverse off body pos head st =
     for_loop (\<lambda>pos. list_entry_is_head off pos head) (list_prev_entry off) body
       (list_prev_entry off pos (fst st)) st"

definition list_for_each_entry_from ::
  "u64 \<Rightarrow> (u64 \<Rightarrow> 'a lstate \<Rightarrow> 'a lstate) \<Rightarrow> u64 \<Rightarrow> lnode \<Rightarrow> 'a lstate \<Rightarrow> 'a lstate option" where
  "list_for_each_entry_from off body pos head st =
     for_loop (\<lambda>pos. list_entry_is_head off pos head) (list_next_entry off) body pos st"

definition list_for_each_entry_from_reverse ::
  "u64 \<Rightarrow> (u64 \<Rightarrow> 'a lstate \<Rightarrow> 'a lstate) \<Rightarrow> u64 \<Rightarrow> lnode \<Rightarrow> 'a lstate \<Rightarrow> 'a lstate option" where
  "list_for_each_entry_from_reverse off body pos head st =
     for_loop (\<lambda>pos. list_entry_is_head off pos head) (list_prev_entry off) body pos st"

definition safe_entry_loop ::
  "(u64 \<Rightarrow> lstore \<Rightarrow> u64) \<Rightarrow> u64 \<Rightarrow> (u64 \<Rightarrow> 'a lstate \<Rightarrow> 'a lstate) \<Rightarrow> u64 \<Rightarrow> u64 \<Rightarrow> lnode \<Rightarrow> 'a lstate \<Rightarrow>
   'a lstate option" where
  "safe_entry_loop step off body pos n head st =
     for_loop (\<lambda>(pos, n). list_entry_is_head off pos head) (\<lambda>(pos, n) s. (n, step n s))
       (\<lambda>(pos, n). body pos) (pos, n) st"

definition list_for_each_entry_safe ::
  "u64 \<Rightarrow> (u64 \<Rightarrow> 'a lstate \<Rightarrow> 'a lstate) \<Rightarrow> lnode \<Rightarrow> 'a lstate \<Rightarrow> 'a lstate option" where
  "list_for_each_entry_safe off body head st =
     (let pos = list_first_entry off head (fst st); n = list_next_entry off pos (fst st)
      in safe_entry_loop (list_next_entry off) off body pos n head st)"

definition list_for_each_entry_safe_continue ::
  "u64 \<Rightarrow> (u64 \<Rightarrow> 'a lstate \<Rightarrow> 'a lstate) \<Rightarrow> u64 \<Rightarrow> lnode \<Rightarrow> 'a lstate \<Rightarrow> 'a lstate option" where
  "list_for_each_entry_safe_continue off body pos head st =
     (let pos = list_next_entry off pos (fst st); n = list_next_entry off pos (fst st)
      in safe_entry_loop (list_next_entry off) off body pos n head st)"

definition list_for_each_entry_safe_from ::
  "u64 \<Rightarrow> (u64 \<Rightarrow> 'a lstate \<Rightarrow> 'a lstate) \<Rightarrow> u64 \<Rightarrow> lnode \<Rightarrow> 'a lstate \<Rightarrow> 'a lstate option" where
  "list_for_each_entry_safe_from off body pos head st =
     (let n = list_next_entry off pos (fst st)
      in safe_entry_loop (list_next_entry off) off body pos n head st)"

definition list_for_each_entry_safe_reverse ::
  "u64 \<Rightarrow> (u64 \<Rightarrow> 'a lstate \<Rightarrow> 'a lstate) \<Rightarrow> lnode \<Rightarrow> 'a lstate \<Rightarrow> 'a lstate option" where
  "list_for_each_entry_safe_reverse off body head st =
     (let pos = list_last_entry off head (fst st); n = list_prev_entry off pos (fst st)
      in safe_entry_loop (list_prev_entry off) off body pos n head st)"

end
