(* ===== verification/List_Rep.thy ===== *)
theory List_Rep
  imports List_Head
begin

text \<open>
  The list a head stands for, and the effect of every operation of \<open>linux/list.h\<close> on it.  A list is
  a ring of linked nodes, seen from its head; an operation joins, cuts or reorders rings, and
  changes nothing outside the nodes it is about.
\<close>

section \<open>Rings of nodes\<close>

definition link :: "lstore \<Rightarrow> lnode \<Rightarrow> lnode \<Rightarrow> bool" where
  "link s p q \<longleftrightarrow> l_next s p = q \<and> l_prev s q = p"

fun chain :: "lstore \<Rightarrow> lnode list \<Rightarrow> bool" where
  "chain s (x # y # zs) \<longleftrightarrow> link s x y \<and> chain s (y # zs)"
| "chain s _ \<longleftrightarrow> True"

definition circ :: "lstore \<Rightarrow> lnode list \<Rightarrow> bool" where
  "circ s zs \<longleftrightarrow> zs \<noteq> [] \<and> distinct zs \<and> chain s zs \<and> link s (last zs) (hd zs)"

definition dlist :: "lstore \<Rightarrow> lnode \<Rightarrow> lnode list \<Rightarrow> bool" where
  "dlist s h xs \<longleftrightarrow> circ s (h # xs)"

definition frame :: "lnode set \<Rightarrow> lstore \<Rightarrow> lstore \<Rightarrow> bool" where
  "frame A s s' \<longleftrightarrow> (\<forall>x. x \<notin> A \<longrightarrow> l_next s' x = l_next s x \<and> l_prev s' x = l_prev s x)"

lemma set_sel [simp]:
  "l_next (set_next p v s) = (l_next s)(p := v)" "l_prev (set_next p v s) = l_prev s"
  "l_prev (set_prev p v s) = (l_prev s)(p := v)" "l_next (set_prev p v s) = l_next s"
  by (simp_all add: set_next_def set_prev_def)

lemma in_set_tlD: "x \<in> set (tl xs) \<Longrightarrow> x \<in> set xs"
  by (cases xs) auto

lemma chain_append:
  "chain s (xs @ ys) \<longleftrightarrow>
     chain s xs \<and> chain s ys \<and> (xs \<noteq> [] \<and> ys \<noteq> [] \<longrightarrow> link s (last xs) (hd ys))"
proof (induction xs)
  case (Cons x xs)
  then show ?case by (cases xs; cases ys) auto
qed simp

lemma chain_Cons: "chain s (x # xs) \<longleftrightarrow> chain s xs \<and> (xs \<noteq> [] \<longrightarrow> link s x (hd xs))"
  by (cases xs) auto

lemma chain_cong:
  assumes "\<And>x. x \<in> set (butlast xs) \<Longrightarrow> l_next s' x = l_next s x"
    and "\<And>x. x \<in> set (tl xs) \<Longrightarrow> l_prev s' x = l_prev s x"
  shows "chain s' xs = chain s xs"
  using assms
proof (induction s xs rule: chain.induct)
  case (1 s x y zs)
  have "chain s' (y # zs) = chain s (y # zs)"
    by (intro "1.IH" "1.prems") simp_all
  then show ?case
    using "1.prems" by (auto simp: link_def)
qed simp_all

lemma circ_rotate: "circ s (xs @ ys) \<longleftrightarrow> circ s (ys @ xs)"
  by (cases "xs = []"; cases "ys = []") (auto simp: circ_def chain_append)

lemma dlist_rotate: "dlist s h (xs @ ys) \<longleftrightarrow> circ s (ys @ h # xs)"
  unfolding dlist_def using circ_rotate [of s "h # xs" ys] by simp

lemma circ_cong:
  "(\<And>x. x \<in> set zs \<Longrightarrow> l_next s' x = l_next s x \<and> l_prev s' x = l_prev s x) \<Longrightarrow> circ s zs \<Longrightarrow> circ s' zs"
  using chain_cong [of zs s' s] unfolding circ_def link_def
  by (auto dest: in_set_butlastD in_set_tlD)

lemma dlist_frame: "frame A s s' \<Longrightarrow> A \<inter> set (k # ws) = {} \<Longrightarrow> dlist s k ws \<Longrightarrow> dlist s' k ws"
  unfolding dlist_def frame_def by (rule circ_cong) auto

lemma last_notin_butlast: "distinct zs \<Longrightarrow> zs \<noteq> [] \<Longrightarrow> last zs \<notin> set (butlast zs)"
  by (cases zs rule: rev_cases) auto

lemma hd_notin_tl: "distinct zs \<Longrightarrow> zs \<noteq> [] \<Longrightarrow> hd zs \<notin> set (tl zs)"
  by (cases zs) auto

lemmas ring_ends = last_notin_butlast hd_notin_tl in_set_butlastD in_set_tlD

lemma chain_piece:
  assumes "distinct zs"
    and "\<And>x. x \<in> set zs \<Longrightarrow> x \<noteq> last zs \<Longrightarrow> l_next s' x = l_next s x"
    and "\<And>x. x \<in> set zs \<Longrightarrow> x \<noteq> hd zs \<Longrightarrow> l_prev s' x = l_prev s x"
  shows "chain s' zs = chain s zs"
proof (rule chain_cong)
  show "l_next s' x = l_next s x" if "x \<in> set (butlast zs)" for x
    using that assms(1,2) last_notin_butlast [of zs] by (metis in_set_butlastD empty_iff butlast.simps(1) list.set(1))
  show "l_prev s' x = l_prev s x" if "x \<in> set (tl zs)" for x
    using that assms(1,3) hd_notin_tl [of zs] by (metis in_set_tlD empty_iff list.sel(2) list.set(1))
qed

section \<open>Changing a ring\<close>

lemma circ_insert:
  assumes "circ s zs" and "new \<notin> set zs"
  shows "circ (raw_list_add new (last zs) (hd zs) s) (new # zs)"
proof -
  let ?s = "raw_list_add new (last zs) (hd zs) s"
  have zs: "zs \<noteq> []" "distinct zs" "chain s zs"
    using assms(1) by (auto simp: circ_def)
  have "chain ?s zs = chain s zs"
    using zs assms(2) by (intro chain_cong)
      (auto simp: raw_list_add_def raw_list_add_valid_def dest: ring_ends)
  moreover have "hd zs \<noteq> new" "last zs \<noteq> new"
    using assms(2) zs(1) by auto
  ultimately show ?thesis
    using zs assms(2) by (auto simp: circ_def chain_Cons link_def raw_list_add_def raw_list_add_valid_def)
qed

lemma circ_delete:
  assumes "circ s (e # zs)" and "zs \<noteq> []"
  shows "circ (raw_list_del (last zs) (hd zs) s) zs"
proof -
  let ?s = "raw_list_del (last zs) (hd zs) s"
  have zs: "distinct zs" "chain s zs"
    using assms(1) by (auto simp: circ_def chain_Cons)
  have "chain ?s zs = chain s zs"
    using zs assms(2) by (intro chain_cong) (auto simp: raw_list_del_def dest: ring_ends)
  then show ?thesis
    using zs assms(2) by (auto simp: circ_def link_def raw_list_del_def)
qed

lemma circ_ends: "circ s (e # zs) \<Longrightarrow> l_next s e = hd (zs @ [e]) \<and> l_prev s e = last (e # zs)"
  by (cases zs) (auto simp: circ_def link_def chain_Cons)

section \<open>Lists: adding and deleting\<close>

lemma dlist_distinct: "dlist s h xs \<Longrightarrow> distinct (h # xs)"
  by (simp add: dlist_def circ_def)

lemma dlist_head: "dlist s h xs \<Longrightarrow> l_next s h = hd (xs @ [h])" "dlist s h xs \<Longrightarrow> l_prev s h = last (h # xs)"
  by (auto simp: dlist_def dest: circ_ends)

lemma dlist_entry:
  assumes "dlist s h (xs @ e # ys)"
  shows "l_next s e = hd (ys @ [h])" and "l_prev s e = last (h # xs)"
proof -
  have "circ s (e # ys @ h # xs)"
    using assms by (simp add: dlist_rotate)
  from circ_ends [OF this] show "l_next s e = hd (ys @ [h])" and "l_prev s e = last (h # xs)"
    by (cases ys; simp)+
qed

lemma dlist_insert:
  assumes "dlist s h (xs @ ys)" and "new \<notin> set (h # xs @ ys)"
  shows "dlist (raw_list_add new (last (h # xs)) (hd (ys @ [h])) s) h (xs @ new # ys)"
proof -
  have "hd (ys @ [h]) = hd (ys @ h # xs)"
    by (cases ys) auto
  then show ?thesis
    using circ_insert [of s "ys @ h # xs" new] assms by (simp add: dlist_rotate)
qed

lemma frame_refl [simp]: "frame A s s"
  by (simp add: frame_def)

lemma frame_trans: "frame A s t \<Longrightarrow> frame B t u \<Longrightarrow> A \<union> B \<subseteq> C \<Longrightarrow> frame C s u"
  unfolding frame_def by (metis UnI1 UnI2 subsetD)

lemma frame_mono: "frame A s t \<Longrightarrow> A \<subseteq> C \<Longrightarrow> frame C s t"
  unfolding frame_def by blast

lemma frame_sets [simp]:
  "frame A s (set_next p v s) \<longleftrightarrow> p \<in> A \<or> l_next s p = v" "frame A s (set_prev p v s) \<longleftrightarrow> p \<in> A \<or> l_prev s p = v"
  by (auto simp: frame_def)

lemma frame_stmts:
  "frame {new, p, q} s (raw_list_add new p q s)" "frame {p, q} s (raw_list_del p q s)"
  "frame {l} s (INIT_LIST_HEAD l s)"
  by (auto simp: frame_def raw_list_add_def raw_list_add_valid_def raw_list_del_def INIT_LIST_HEAD_def)

lemma dlist_init: "dlist (INIT_LIST_HEAD l s) l []"
  by (simp add: INIT_LIST_HEAD_def dlist_def circ_def link_def)

lemma dlist_delete:
  assumes "dlist s h (xs @ e # ys)"
  shows "dlist (raw_list_del_entry e s) h (xs @ ys)"
proof -
  have "circ s (e # ys @ h # xs)"
    using assms by (simp add: dlist_rotate)
  moreover have "hd (ys @ [h]) = hd (ys @ h # xs)"
    by (cases ys) auto
  ultimately show ?thesis
    using circ_delete [of s e "ys @ h # xs"] dlist_entry [OF assms]
    by (simp add: dlist_rotate raw_list_del_entry_def raw_list_del_entry_valid_def)
qed

lemma gap_ends: "last (h # xs) \<in> set (h # xs)" "hd (ys @ [h]) \<in> set (h # ys)"
  by (rule last_in_set, simp) (cases ys; simp)

lemma frame_delete:
  assumes "dlist s h (xs @ e # ys)"
  shows "frame (set (h # xs @ ys)) s (raw_list_del_entry e s)"
  unfolding raw_list_del_entry_def raw_list_del_entry_valid_def dlist_entry [OF assms]
  using gap_ends(1) [of h xs] gap_ends(2) [of ys h] by (auto intro: frame_mono [OF frame_stmts(2)])

lemma frame_insert: "frame (set (new # h # xs @ ys)) s (raw_list_add new (last (h # xs)) (hd (ys @ [h])) s)"
  using gap_ends(1) [of h xs] gap_ends(2) [of ys h] by (intro frame_mono [OF frame_stmts(1)]) auto

text \<open>What an entry does to itself after it left its list leaves the list alone.\<close>

lemma dlist_leave:
  assumes "dlist s h (xs @ e # ys)" and "frame {e} (raw_list_del_entry e s) s'"
  shows "dlist s' h (xs @ ys)" and "frame (set (h # xs @ e # ys)) s s'"
proof -
  show "dlist s' h (xs @ ys)"
    using dlist_frame [OF assms(2) _ dlist_delete [OF assms(1)]] dlist_distinct [OF assms(1)] by auto
  show "frame (set (h # xs @ e # ys)) s s'"
    using frame_delete [OF assms(1)] assms(2) by (rule frame_trans) auto
qed

lemma leave_frames:
  "frame {e} (raw_list_del_entry e s) (list_del e s)" "frame {e} (raw_list_del_entry e s) (list_del_init e s)"
  "frame {e} (raw_list_del_entry e s) (list_del_init_careful e s)"
  "frame {e} (raw_list_del_entry e s) (raw_list_del_clearprev e s)"
  by (auto simp: frame_def list_del_def list_del_init_def INIT_LIST_HEAD_def list_del_init_careful_def
      raw_list_del_clearprev_def raw_list_del_entry_def raw_list_del_entry_valid_def)

lemma dlist_self: "dlist (list_del_init e s) e []" "dlist (list_del_init_careful e s) e []"
  by (simp_all add: list_del_init_def INIT_LIST_HEAD_def list_del_init_careful_def dlist_def circ_def link_def)

section \<open>Lists: replacing and moving\<close>

lemma circ_replace:
  assumes "circ s (old # zs)" and "new \<notin> set (old # zs)"
  shows "circ (list_replace old new s) (new # zs)"
proof (cases "zs = []")
  case True
  then show ?thesis
    using assms by (auto simp: list_replace_def circ_def link_def)
next
  case False
  let ?s = "list_replace old new s"
  have ends: "l_next s old = hd zs" "l_prev s old = last zs" "hd zs \<in> set zs" "last zs \<in> set zs"
    using circ_ends [OF assms(1)] False by auto
  have zs: "distinct zs" "chain s zs" "old \<notin> set zs"
    using assms(1) by (auto simp: circ_def chain_Cons)
  have ne: "hd zs \<noteq> new" "last zs \<noteq> new" "hd zs \<noteq> old" "old \<noteq> new"
    using ends(3,4) zs(3) assms(2) by auto
  have upd: "l_next ?s = (l_next s)(new := hd zs, last zs := new)"
    "l_prev ?s = (l_prev s)(hd zs := new, new := last zs)"
    using ends ne by (simp_all add: list_replace_def)
  have "chain ?s zs = chain s zs"
    using zs False assms(2) ne unfolding upd by (intro chain_cong) (auto simp: upd dest: ring_ends)
  then show ?thesis
    using zs False assms(2) ne by (auto simp: circ_def chain_Cons link_def upd)
qed

lemma dlist_replace:
  assumes "dlist s h (xs @ old # ys)" and "new \<notin> set (h # xs @ old # ys)"
  shows "dlist (list_replace old new s) h (xs @ new # ys)"
  using circ_replace [of s old "ys @ h # xs" new] assms by (simp add: dlist_rotate)

lemma dlist_replace_head:
  assumes "dlist s h xs" and "new \<notin> set (h # xs)"
  shows "dlist (list_replace h new s) new xs"
  using circ_replace [of s h xs new] assms by (simp add: dlist_def)

lemma dlist_add:
  assumes "dlist s h xs" and "new \<notin> set (h # xs)"
  shows "dlist (list_add new h s) h (new # xs)" and "dlist (list_add_tail new h s) h (xs @ [new])"
    and "frame (set (new # h # xs)) s (list_add new h s)" and "frame (set (new # h # xs)) s (list_add_tail new h s)"
  using dlist_insert [of s h "[]" xs new] dlist_insert [of s h xs "[]" new] assms dlist_head [OF assms(1)]
    frame_insert [of new h "[]" xs s] frame_insert [of new h xs "[]" s]
  by (simp_all add: list_add_def list_add_tail_def)

lemma dlist_add_behind:
  assumes "dlist s h (xs @ p # ys)" and "new \<notin> set (h # xs @ p # ys)"
  shows "dlist (list_add new p s) h (xs @ p # new # ys)"
  using dlist_insert [of s h "xs @ [p]" ys new] assms dlist_entry [OF assms(1)]
  by (simp add: list_add_def)

lemma dlist_move:
  assumes "dlist s h (xs @ e # ys)"
  shows "dlist (list_move e h s) h (e # xs @ ys)" and "dlist (list_move_tail e h s) h (xs @ ys @ [e])"
  using dlist_add [OF dlist_delete [OF assms], of e] dlist_distinct [OF assms]
  by (auto simp: list_move_def list_move_tail_def)

text \<open>Moving an entry to another list.\<close>

lemma dlist_move_other:
  assumes "dlist s h (xs @ e # ys)" and "dlist s k zs" and "set (h # xs @ e # ys) \<inter> set (k # zs) = {}"
  shows "dlist (list_move e k s) h (xs @ ys)" and "dlist (list_move e k s) k (e # zs)"
    and "dlist (list_move_tail e k s) h (xs @ ys)" and "dlist (list_move_tail e k s) k (zs @ [e])"
proof -
  let ?t = "raw_list_del_entry e s"
  have h: "dlist ?t h (xs @ ys)"
    by (rule dlist_delete [OF assms(1)])
  have k: "dlist ?t k zs"
    using dlist_frame [OF frame_delete [OF assms(1)] _ assms(2)] assms(3) by auto
  have e: "e \<notin> set (k # zs)"
    using assms(3) by auto
  have d: "set (e # k # zs) \<inter> set (h # xs @ ys) = {}"
    using assms(3) dlist_distinct [OF assms(1)] by auto
  note a = dlist_add [OF k e]
  show "dlist (list_move e k s) h (xs @ ys)" "dlist (list_move_tail e k s) h (xs @ ys)"
    using dlist_frame [OF a(3) d h] dlist_frame [OF a(4) d h] by (simp_all add: list_move_def list_move_tail_def)
  show "dlist (list_move e k s) k (e # zs)" "dlist (list_move_tail e k s) k (zs @ [e])"
    using a(1,2) by (simp_all add: list_move_def list_move_tail_def)
qed

lemma dlist_rotations:
  "dlist s h (x # xs) \<Longrightarrow> dlist (list_rotate_left h s) h (xs @ [x])"
  "dlist s h [] \<Longrightarrow> list_rotate_left h s = s"
proof -
  assume "dlist s h (x # xs)"
  then show "dlist (list_rotate_left h s) h (xs @ [x])"
    using dlist_move(2) [of s h "[]" x xs] dlist_head(1) [of s h "x # xs"] dlist_distinct [of s h "x # xs"]
    by (auto simp: list_rotate_left_def list_empty_def Let_def)
next
  assume "dlist s h []"
  then show "list_rotate_left h s = s"
    using dlist_head(1) [of s h "[]"] by (simp add: list_rotate_left_def list_empty_def)
qed

text \<open>Seen from an entry, the head is an entry of the list behind it.\<close>

lemma dlist_shift: "dlist s h (xs @ e # ys) \<longleftrightarrow> dlist s e (ys @ h # xs)"
  unfolding dlist_def using circ_rotate [of s "h # xs" "e # ys"] by simp

lemma dlist_rotate_to_front:
  assumes "dlist s h (xs @ e # ys)"
  shows "dlist (list_rotate_to_front e h s) h (e # ys @ xs)"
  using dlist_move(2) [of s e ys h xs] assms dlist_shift [of s h xs e ys]
    dlist_shift [of "list_rotate_to_front e h s" h "[]" e "ys @ xs"]
  by (simp add: list_rotate_to_front_def)

lemma dlist_gap: "dlist s h (xs @ ys) \<Longrightarrow> l_next s (last (h # xs)) = hd (ys @ [h])"
  using dlist_rotate [of s h xs ys] by (cases ys) (auto simp: circ_def link_def)

lemma dlist_add_at:
  assumes "dlist s h (xs @ ys)" and "new \<notin> set (h # xs @ ys)"
  shows "dlist (list_add new (last (h # xs)) s) h (xs @ new # ys)"
  using dlist_insert [OF assms] dlist_gap [OF assms(1)] by (simp add: list_add_def)

lemma dlist_swap:
  assumes "dlist s h (xs @ e1 # ys @ e2 # zs)"
  shows "dlist (list_swap e1 e2 s) h (xs @ e2 # ys @ e1 # zs)"
proof -
  have d: "distinct (h # xs @ e1 # ys @ e2 # zs)"
    by (rule dlist_distinct [OF assms])
  let ?t = "list_replace e1 e2 (list_del e2 s)"
  have "dlist (list_del e2 s) h (xs @ e1 # ys @ zs)"
    using dlist_leave(1) [OF _ leave_frames(1), of s h "xs @ e1 # ys" e2 zs] assms by simp
  then have t: "dlist ?t h ((xs @ e2 # ys) @ zs)"
    using dlist_replace [of _ h xs e1 "ys @ zs" e2] d by auto
  have pos: "l_prev s e2 = last (e1 # ys)"
    using dlist_entry(2) [of s h "xs @ e1 # ys" e2 zs] assms by simp
  have eq: "(if last (e1 # ys) = e1 then e2 else last (e1 # ys)) = last (h # xs @ e2 # ys)"
    using d by (cases ys rule: rev_cases) auto
  have "dlist (list_add e1 (last (h # xs @ e2 # ys)) ?t) h ((xs @ e2 # ys) @ e1 # zs)"
    using d by (intro dlist_add_at [OF t]) auto
  then show ?thesis
    unfolding list_swap_def Let_def pos eq by (simp only: append.assoc append_Cons)
qed

lemma dlist_swap':
  assumes "dlist s h (xs @ e2 # ys @ e1 # zs)"
  shows "dlist (list_swap e1 e2 s) h (xs @ e1 # ys @ e2 # zs)"
proof -
  have d: "distinct (h # xs @ e2 # ys @ e1 # zs)"
    by (rule dlist_distinct [OF assms])
  let ?t = "list_replace e1 e2 (list_del e2 s)"
  have "dlist (list_del e2 s) h (xs @ ys @ e1 # zs)"
    using dlist_leave(1) [OF _ leave_frames(1), of s h xs e2 "ys @ e1 # zs"] assms by simp
  then have t: "dlist ?t h (xs @ ys @ e2 # zs)"
    using dlist_replace [of _ h "xs @ ys" e1 zs e2] d by auto
  have pos: "l_prev s e2 = last (h # xs)"
    using dlist_entry(2) [OF assms] .
  have "last (h # xs) \<in> set (h # xs)"
    by (rule last_in_set) simp
  then have "last (h # xs) \<noteq> e1"
    using d by auto
  moreover have "dlist (list_add e1 (last (h # xs)) ?t) h (xs @ e1 # ys @ e2 # zs)"
    using d by (intro dlist_add_at [OF t]) auto
  ultimately show ?thesis
    by (simp add: list_swap_def Let_def pos)
qed

lemma bulk_same:
  assumes "l_prev s f = p" and "l_next s p = f" and "l_prev s h = l" and "l_next s l = h" and "f \<noteq> h"
  shows "l_next (list_bulk_move_tail h f l s) x = l_next s x \<and> l_prev (list_bulk_move_tail h f l s) x = l_prev s x"
  using assms by (auto simp: list_bulk_move_tail_def)

lemma bulk_upd:
  assumes "l_prev s f = p" and "l_next s l = q" and "l_prev s h = t" and "q \<noteq> h" and "p \<noteq> l" and "f \<noteq> q"
  shows "l_next (list_bulk_move_tail h f l s) = (l_next s)(p := q, t := f, l := h)"
    and "l_prev (list_bulk_move_tail h f l s) = (l_prev s)(q := p, f := t, h := l)"
  using assms by (simp_all add: list_bulk_move_tail_def)

lemma dlist_bulk_move:
  assumes "dlist s h (xs @ ms @ ys)" and "ms \<noteq> []"
  shows "dlist (list_bulk_move_tail h (hd ms) (last ms) s) h (xs @ ys @ ms)"
proof -
  let ?s = "list_bulk_move_tail h (hd ms) (last ms) s"
  let ?p = "last (h # xs)" and ?q = "hd (ys @ [h])"
  have d: "distinct (h # xs @ ms @ ys)" and c: "chain s (h # xs @ ms @ ys)"
    using assms(1) by (simp_all add: dlist_def circ_def)
  have "dlist s h (xs @ hd ms # (tl ms @ ys))" "dlist s h ((xs @ butlast ms) @ last ms # ys)"
    using assms by (metis append_Cons list.collapse, metis append.assoc append_Cons append_Nil append_butlast_last_id)
  from dlist_entry(2) [OF this(1)] dlist_entry(1) [OF this(2)] dlist_head(2) [OF assms(1)]
  have e: "l_prev s (hd ms) = ?p" "l_next s (last ms) = ?q" "l_prev s h = last (h # xs @ ms @ ys)" .
  have pq: "?p \<in> set (h # xs)" "?q \<in> set (h # ys)" "hd ms \<in> set ms" "last ms \<in> set ms"
    using assms(2) gap_ends(1) [of h xs] gap_ends(2) [of ys h] by simp_all
  show ?thesis
  proof (cases "ys = []")
    case True
    have "l_next s ?p = hd ms"
      using dlist_gap [OF assms(1)] assms(2) by simp
    moreover have "l_prev s h = last ms" "l_next s (last ms) = h"
      using True e(2,3) assms(2) by simp_all
    moreover have "hd ms \<noteq> h"
      using pq(3) d by auto
    ultimately have "l_next ?s x = l_next s x \<and> l_prev ?s x = l_prev s x" for x
      using bulk_same [OF e(1)] by blast
    then show ?thesis
      using assms(1) True circ_cong [of "h # xs @ ms" ?s s] by (simp add: dlist_def)
  next
    case False
    have ys: "last ys \<in> set ys" "hd ys \<in> set ys" "l_prev s h = last ys" "l_next s (last ms) = hd ys"
      using False e(2,3) by simp_all
    then have "hd ys \<noteq> h" "?p \<noteq> last ms" "hd ms \<noteq> hd ys"
      using pq d by (auto simp del: last.simps)
    note upd = bulk_upd [OF e(1) ys(4,3) this]
    have "chain ?s (h # xs) = chain s (h # xs)"
      using pq(3,4) d ys(1,2) by (intro chain_piece) (auto simp: upd simp del: last.simps)
    moreover have "chain ?s ys = chain s ys"
      using pq d by (intro chain_piece) (auto simp: upd simp del: last.simps)
    moreover have "chain ?s ms = chain s ms"
      using pq d ys(1,2) by (intro chain_piece) (auto simp: upd simp del: last.simps)
    moreover have "chain s (h # xs)" "chain s ys" "chain s ms"
      using c chain_append [of s "h # xs" "ms @ ys"] chain_append [of s ms ys] by auto
    moreover have "link ?s ?p (hd ys)" "link ?s (last ys) (hd ms)" "link ?s (last ms) h"
      using pq d ys(1,2) by (auto simp: link_def upd simp del: last.simps)
    ultimately show ?thesis
      using False assms(2) d chain_append [of ?s "h # xs" "ys @ ms"] chain_append [of ?s ys ms]
      by (auto simp: dlist_def circ_def)
  qed
qed

section \<open>Lists: cutting and splicing\<close>

lemma circ_Cons:
  "circ s (x # zs) \<longleftrightarrow>
     x \<notin> set zs \<and> distinct zs \<and> chain s zs \<and> link s x (hd (zs @ [x])) \<and> link s (last (x # zs)) x"
  by (cases zs) (auto simp: circ_def chain_Cons)

text \<open>Both ways of cutting make the same assignments.\<close>

lemma dlist_cut:
  assumes "dlist s h (as @ bs)" and "as \<noteq> []" and "l \<notin> set (h # as @ bs)"
    and n: "l_next s' = (l_next s)(l := hd as, last as := l, h := hd (bs @ [h]))"
    and p: "l_prev s' = (l_prev s)(hd as := l, l := last as, hd (bs @ [h]) := h)"
  shows "dlist s' l as" and "dlist s' h bs"
proof -
  have d: "distinct (h # as @ bs)" and c: "chain s as" "chain s bs"
    and k: "link s (last (h # as @ bs)) h"
    using assms(1) by (simp_all add: dlist_def circ_Cons chain_append)
  have e: "hd as \<in> set as" "last as \<in> set as" and q: "hd (bs @ [h]) \<in> set (h # bs)"
    using assms(2) gap_ends(2) [of bs h] by simp_all
  then have ne: "last as \<noteq> h" "hd as \<noteq> h" "hd as \<noteq> l" "last as \<noteq> l" "l \<noteq> h" "hd (bs @ [h]) \<noteq> l" "hd as \<noteq> hd (bs @ [h])"
    using d assms(3) by auto
  have "chain s' as = chain s as"
    using d assms(3) q by (intro chain_piece) (auto simp: n p)
  moreover have "link s' l (hd as)" "link s' (last as) l"
    using ne by (simp_all add: link_def n p)
  ultimately show "dlist s' l as"
    using c d assms(2,3) by (simp add: dlist_def circ_Cons)
  have "chain s' bs = chain s bs"
    using d assms(3) e by (intro chain_piece) (cases bs; auto simp: n p)+
  moreover have "link s' h (hd (bs @ [h]))"
    by (simp add: link_def n p)
  moreover have "link s' (last (h # bs)) h"
  proof (cases "bs = []")
    case False
    then have "last bs \<in> set bs" "hd bs \<in> set bs" by simp_all
    then have "last bs \<noteq> h" "hd bs \<noteq> h" "last bs \<noteq> l" "last bs \<noteq> last as"
      using d assms(3) e(2) by auto
    then show ?thesis using k False ne by (simp add: link_def n p)
  qed (simp add: link_def n p)
  ultimately show "dlist s' h bs"
    using c d by (simp add: dlist_def circ_Cons)
qed

lemma cut_upd:
  assumes "l_next s h = f" and "l_next s e = q" and "f \<noteq> l" and "l \<noteq> h" and "e \<noteq> l" and "l \<noteq> q" 
  shows "l_next (raw_list_cut_position l h e s) = (l_next s)(l := f, e := l, h := q)"
    and "l_prev (raw_list_cut_position l h e s) = (l_prev s)(f := l, l := e, q := h)"
  using assms by (auto simp: raw_list_cut_position_def Let_def)

lemma dlist_cut_position:
  assumes "dlist s h (as @ e # bs)" and "l \<notin> set (h # as @ e # bs)"
  shows "dlist (list_cut_position l h e s) l (as @ [e])" and "dlist (list_cut_position l h e s) h bs"
proof -
  let ?s = "list_cut_position l h e s"
  have d: "distinct (h # as @ e # bs)"
    by (rule dlist_distinct [OF assms(1)])
  have f: "l_next s h = hd (as @ [e])" "hd (as @ [e]) \<in> set (as @ [e])"
    using dlist_head(1) [OF assms(1)] by (cases as; simp)+
  note q = dlist_entry(1) [OF assms(1)]
  have "last (e # bs) \<in> set (e # bs)"
    by (rule last_in_set) simp
  then have pv: "l_prev s h \<in> set (e # bs)"
    using dlist_head(2) [OF assms(1)] by simp
  have guards: "\<not> list_empty h s" "\<not> (list_is_singular h s \<and> l_next s h \<noteq> e \<and> h \<noteq> e)" "e \<noteq> h"
    using f d pv by (cases as; auto simp: list_empty_def list_is_singular_def)+
  have s: "?s = raw_list_cut_position l h e s"
    unfolding list_cut_position_def using guards by presburger
  have ne: "hd (as @ [e]) \<noteq> l" "l \<noteq> h" "e \<noteq> l" "l \<noteq> hd (bs @ [h])"
    using assms(2) f(2) gap_ends(2) [of bs h] by auto
  have a: "dlist s h ((as @ [e]) @ bs)" "as @ [e] \<noteq> []" "l \<notin> set (h # (as @ [e]) @ bs)"
    using assms by simp_all
  show "dlist ?s l (as @ [e])" "dlist ?s h bs"
    unfolding s using dlist_cut(1,2) [OF a] cut_upd [OF f(1) q ne] by simp_all
qed

lemma dlist_init_other: "dlist s h xs \<Longrightarrow> l \<notin> set (h # xs) \<Longrightarrow> dlist (INIT_LIST_HEAD l s) h xs"
  by (rule dlist_frame [OF frame_stmts(3)]) auto

lemma list_cut_position_head:
  assumes "dlist s h xs" and "xs \<noteq> []"
  shows "list_cut_position l h h s = INIT_LIST_HEAD l s"
  using dlist_head(1) [OF assms(1)] dlist_distinct [OF assms(1)] assms(2)
  by (cases xs) (auto simp: list_cut_position_def list_empty_def)

lemma dlist_cut_position_head:
  assumes "dlist s h xs" and "xs \<noteq> []" and "l \<notin> set (h # xs)"
  shows "dlist (list_cut_position l h h s) l []" and "dlist (list_cut_position l h h s) h xs"
  using assms(1,3) dlist_init dlist_init_other list_cut_position_head [OF assms(1,2), of l] by auto

lemma list_cut_position_empty: "dlist s h [] \<Longrightarrow> list_cut_position l h e s = s"
  using dlist_head(1) [of s h "[]"] by (simp add: list_cut_position_def list_empty_def)

lemma list_cut_position_singular:
  assumes "dlist s h [a]" and "x \<noteq> a" and "x \<noteq> h"
  shows "list_cut_position l h x s = s"
  using dlist_head [OF assms(1)] dlist_distinct [OF assms(1)] assms(2,3)
  by (auto simp: list_cut_position_def list_empty_def list_is_singular_def)

lemma before_upd:
  assumes "l_next s h = f" and "l_prev s e = q" and "f \<noteq> e" and "f \<noteq> l" and "l \<noteq> h" and "e \<noteq> l" and "q \<noteq> l"
  shows "l_next (list_cut_before l h e s) = (l_next s)(l := f, q := l, h := e)"
    and "l_prev (list_cut_before l h e s) = (l_prev s)(f := l, l := q, e := h)"
  using assms by (auto simp: list_cut_before_def)

text \<open>The entry may be the head itself, which moves the whole list.\<close>

lemma dlist_cut_before:
  assumes "dlist s h (as @ bs)" and "l \<notin> set (h # as @ bs)"
  shows "dlist (list_cut_before l h (hd (bs @ [h])) s) l as" and "dlist (list_cut_before l h (hd (bs @ [h])) s) h bs"
proof -
  let ?e = "hd (bs @ [h])" let ?s = "list_cut_before l h ?e s"
  have d: "distinct (h # as @ bs)"
    by (rule dlist_distinct [OF assms(1)])
  have f: "l_next s h = hd (as @ bs @ [h])"
    using dlist_head(1) [OF assms(1)] by simp
  have q: "?e \<in> set (h # bs)"
    using gap_ends(2) [of bs h] by simp
  have "dlist ?s l as \<and> dlist ?s h bs"
  proof (cases "as = []")
    case True
    then have "?s = INIT_LIST_HEAD l s"
      using f by (simp add: list_cut_before_def)
    then show ?thesis
      using assms True dlist_init dlist_init_other by auto
  next
    case False
    have "l_prev s ?e = last (h # as)"
      using assms(1) dlist_head(2) [of s h as] dlist_entry(2) [of s h as "hd bs" "tl bs"] by (cases bs) auto
    then have pv: "l_prev s ?e = last as"
      using False by simp
    have hd: "l_next s h = hd as" "hd as \<in> set as" "last as \<in> set as"
      using f False by simp_all
    then have "hd as \<noteq> ?e" "hd as \<noteq> l" "l \<noteq> h" "?e \<noteq> l" "last as \<noteq> l"
      using d q assms(2) by auto
    from before_upd [OF hd(1) pv this] show ?thesis
      using dlist_cut(1,2) [OF assms(1) False assms(2)] by blast
  qed
  then show "dlist ?s l as" "dlist ?s h bs" by simp_all
qed

text \<open>Splicing opens the ring of the list at its head and closes it through the other ring.\<close>

lemma circ_splice:
  assumes "dlist s l xs" and "xs \<noteq> []" and "circ s zs" and "set (l # xs) \<inter> set zs = {}"
  shows "circ (raw_list_splice l (last zs) (hd zs) s) (xs @ zs)"
proof -
  let ?s = "raw_list_splice l (last zs) (hd zs) s"
  have ends: "l_next s l = hd xs" "l_prev s l = last xs"
    using dlist_head [OF assms(1)] assms(2) by simp_all
  have x: "distinct xs" "chain s xs" "hd xs \<in> set xs" "last xs \<in> set xs"
    using assms(1,2) by (simp_all add: dlist_def circ_Cons)
  have z: "zs \<noteq> []" "distinct zs" "chain s zs" "hd zs \<in> set zs" "last zs \<in> set zs"
    using assms(3) by (auto simp: circ_def)
  have ne: "hd xs \<noteq> hd zs" "last zs \<noteq> last xs"
    using x(3,4) z(4,5) assms(4) by (metis disjoint_iff list.set_intros(2))+
  have upd: "l_next ?s = (l_next s)(last zs := hd xs, last xs := hd zs)"
    "l_prev ?s = (l_prev s)(hd xs := last zs, hd zs := last xs)"
    by (simp_all add: raw_list_splice_def Let_def ends)
  have "chain ?s xs = chain s xs" "chain ?s zs = chain s zs"
    using x z assms(4) by (intro chain_piece; auto simp: upd)+
  then show ?thesis
    using x z ne assms(2,4) by (auto simp: circ_def chain_append link_def upd)
qed

lemma frame_splice:
  assumes "dlist s l xs" and "xs \<noteq> []"
  shows "frame (set xs \<union> {p, q}) s (raw_list_splice l p q s)"
  using dlist_head [OF assms(1)] assms(2) by (auto simp: frame_def raw_list_splice_def Let_def)

lemma dlist_splice_front:
  assumes "dlist s l xs" and "dlist s h ys" and "xs \<noteq> []" and "set (l # xs) \<inter> set (h # ys) = {}"
  shows "dlist (raw_list_splice l h (l_next s h) s) h (xs @ ys)"
proof -
  have "circ s (ys @ [h])"
    using assms(2) dlist_rotate [of s h "[]" ys] by simp
  from circ_splice [OF assms(1,3) this] show ?thesis
    using assms(4) dlist_head(1) [OF assms(2)] dlist_rotate [of _ h "[]" "xs @ ys"] by simp
qed

lemma dlist_splice_back:
  assumes "dlist s l xs" and "dlist s h ys" and "xs \<noteq> []" and "set (l # xs) \<inter> set (h # ys) = {}"
  shows "dlist (raw_list_splice l (l_prev s h) h s) h (ys @ xs)"
proof -
  have "circ s (h # ys)"
    using assms(2) by (simp add: dlist_def)
  from circ_splice [OF assms(1,3) this] show ?thesis
    using assms(4) dlist_head(2) [OF assms(2)] dlist_rotate [of _ h ys xs] by simp
qed

lemma dlist_list_empty: "dlist s h xs \<Longrightarrow> list_empty h s \<longleftrightarrow> xs = []"
  using dlist_head(1) [of s h xs] dlist_distinct [of s h xs] by (cases xs) (auto simp: list_empty_def)

lemma splice_empty:
  assumes "dlist s l []"
  shows "list_splice l h s = s" and "list_splice_tail l h s = s"
    and "list_splice_init l h s = s" and "list_splice_tail_init l h s = s"
  using dlist_list_empty [OF assms]
  by (simp_all add: list_splice_def list_splice_tail_def list_splice_init_def list_splice_tail_init_def)

lemma dlist_splices:
  assumes "dlist s l xs" and "dlist s h ys" and "set (l # xs) \<inter> set (h # ys) = {}"
  shows "dlist (list_splice l h s) h (xs @ ys)" and "dlist (list_splice_tail l h s) h (ys @ xs)"
    and "dlist (list_splice_init l h s) h (xs @ ys)" and "dlist (list_splice_tail_init l h s) h (ys @ xs)"
    and "dlist (list_splice_init l h s) l []" and "dlist (list_splice_tail_init l h s) l []"
proof -
  have other: "l \<notin> set (h # xs @ ys)" "l \<notin> set (h # ys @ xs)"
    using assms(3) dlist_distinct [OF assms(1)] by auto
  note simps = list_splice_def list_splice_tail_def list_splice_init_def list_splice_tail_init_def
    dlist_list_empty [OF assms(1)]
  show "dlist (list_splice l h s) h (xs @ ys)"
    using assms(2) dlist_splice_front [OF assms(1,2) _ assms(3)] by (auto simp: simps)
  show "dlist (list_splice_tail l h s) h (ys @ xs)"
    using assms(2) dlist_splice_back [OF assms(1,2) _ assms(3)] by (auto simp: simps)
  show "dlist (list_splice_init l h s) h (xs @ ys)"
    using assms(2) dlist_init_other [OF dlist_splice_front [OF assms(1,2) _ assms(3)] other(1)] by (auto simp: simps)
  show "dlist (list_splice_tail_init l h s) h (ys @ xs)"
    using assms(2) dlist_init_other [OF dlist_splice_back [OF assms(1,2) _ assms(3)] other(2)] by (auto simp: simps)
  show "dlist (list_splice_init l h s) l []" "dlist (list_splice_tail_init l h s) l []"
    using assms(1) dlist_init by (auto simp: simps)
qed

section \<open>Lists: tests\<close>

lemma dlist_tests:
  assumes "dlist s h xs"
  shows "list_empty_careful h s \<longleftrightarrow> xs = []" and "list_is_singular h s \<longleftrightarrow> length xs = 1"
    and "list_first_entry_or_null off h s = (case xs of [] \<Rightarrow> 0 | x # _ \<Rightarrow> list_entry off x)"
    and "x \<in> set xs \<Longrightarrow> list_is_first x h s \<longleftrightarrow> x = hd xs"
    and "x \<in> set xs \<Longrightarrow> list_is_last x h s \<longleftrightarrow> x = last xs"
proof -
  have d: "distinct (h # xs)"
    by (rule dlist_distinct [OF assms])
  note hd = dlist_head [OF assms]
  show "list_empty_careful h s \<longleftrightarrow> xs = []"
    using hd d by (cases xs) (auto simp: list_empty_careful_def)
  show "list_is_singular h s \<longleftrightarrow> length xs = 1"
    using hd d by (cases xs; cases "tl xs" rule: rev_cases) (auto simp: list_is_singular_def list_empty_def)
  show "list_first_entry_or_null off h s = (case xs of [] \<Rightarrow> 0 | x # _ \<Rightarrow> list_entry off x)"
    using hd d by (cases xs) (auto simp: list_first_entry_or_null_def)
  assume "x \<in> set xs"
  then obtain as bs where xs: "xs = as @ x # bs"
    by (auto simp: in_set_conv_decomp)
  note e = dlist_entry [OF assms [unfolded xs]]
  have g: "last (h # as) = h \<longleftrightarrow> as = []" "hd (bs @ [h]) = h \<longleftrightarrow> bs = []"
    using d xs by (auto simp: hd_append)
  show "list_is_first x h s \<longleftrightarrow> x = hd xs"
    using e(2) g(1) d xs by (cases as) (auto simp: list_is_first_def)
  show "list_is_last x h s \<longleftrightarrow> x = last xs"
    using e(1) g(2) d xs by (cases bs rule: rev_cases) (auto simp: list_is_last_def)
qed

end
