(* ===== verification/List_Iter.thy ===== *)
theory List_Iter
  imports List_Rep
begin

text \<open>
  What the iteration macros of \<open>linux/list.h\<close> do: the loops end, and their bodies run on the entries
  of the list, in its order or in the reverse order.  The locale \<open>cursor\<close> is the contract between the
  loops and the lists: a step to the neighbour that walks along the list.  It is interpreted once for
  \<open>next\<close> and once for \<open>prev\<close>, so every lemma about the loops holds for both directions.
\<close>

section \<open>Loops that follow a path\<close>

lemma for_loop_done: "done p \<Longrightarrow> for_loop done step body p st = Some st"
  by (subst for_loop.simps) simp

lemma for_loop_step:
  "\<not> done p \<Longrightarrow> for_loop done step body p st = for_loop done step body (step p (fst (body p st))) (body p st)"
  by (subst for_loop.simps) (simp add: Let_def)

text \<open>
  A walk: as long as the entries \<open>ps\<close> are still to come, the cursor \<open>p\<close> stands for the first of them.
\<close>

locale walk =
  fixes stop :: "'p \<Rightarrow> bool" and step :: "'p \<Rightarrow> 's \<Rightarrow> 'p" and body :: "'p \<Rightarrow> 's \<times> 'a \<Rightarrow> 's \<times> 'a"
    and work :: "lnode \<Rightarrow> 's \<times> 'a \<Rightarrow> 's \<times> 'a"
    and inv :: "lnode list \<Rightarrow> 'p \<Rightarrow> 's \<times> 'a \<Rightarrow> bool"
  assumes at_end: "inv [] p st \<Longrightarrow> stop p"
    and running: "inv (x # ps) p st \<Longrightarrow> \<not> stop p \<and> body p st = work x st"
    and advance: "inv (x # ps) p st \<Longrightarrow> inv ps (step p (fst (work x st))) (work x st)"
begin

lemma completes: "inv ps p st \<Longrightarrow> for_loop stop step body p st = Some (fold work ps st)"
proof (induction ps arbitrary: p st)
  case Nil
  then show ?case by (simp add: for_loop_done at_end)
next
  case (Cons x ps)
  then show ?case by (simp add: for_loop_step running advance)
qed

lemma leaves: "inv ps p st \<Longrightarrow> \<exists>q. inv [] q (fold work ps st)"
proof (induction ps arbitrary: p st)
  case (Cons x ps)
  from Cons.IH [OF advance [OF Cons.prems]] show ?case by simp
qed auto

end

section \<open>Cursors on a list\<close>

text \<open>
  A body that leaves the list of the head \<open>h\<close> as it is, and a body that, on an entry, may do what it
  likes with the list up to that entry but keeps what comes after it; \<open>rep s h xs\<close> says that walking
  along the list from \<open>h\<close> meets \<open>xs\<close>.
\<close>

type_synonym 's list_rep = "'s \<Rightarrow> lnode \<Rightarrow> lnode list \<Rightarrow> bool"

definition keeps :: "'s list_rep \<Rightarrow> (u64 \<Rightarrow> 's \<times> 'a \<Rightarrow> 's \<times> 'a) \<Rightarrow> lnode \<Rightarrow> bool" where
  "keeps rep body h \<longleftrightarrow> (\<forall>p xs st. rep (fst st) h xs \<longrightarrow> rep (fst (body p st)) h xs)"

definition keeps_rest :: "'s list_rep \<Rightarrow> (lnode \<Rightarrow> 's \<times> 'a \<Rightarrow> 's \<times> 'a) \<Rightarrow> lnode \<Rightarrow> bool" where
  "keeps_rest rep work h \<longleftrightarrow>
     (\<forall>x as bs st. rep (fst st) h (as @ x # bs) \<longrightarrow> (\<exists>cs. rep (fst (work x st)) h (cs @ bs)))"

locale cursor =
  fixes to :: "lnode \<Rightarrow> lstore \<Rightarrow> lnode" and rep :: "lstore \<Rightarrow> lnode \<Rightarrow> lnode list \<Rightarrow> bool"
  assumes to_first: "rep s h xs \<Longrightarrow> to h s = hd (xs @ [h])"
    and to_following: "rep s h (as @ x # bs) \<Longrightarrow> to x s = hd (bs @ [h])"
    and apart: "rep s h xs \<Longrightarrow> distinct (h # xs)"
    and del: "rep s h (as @ x # bs) \<Longrightarrow> rep (list_del x s) h (as @ bs)"
begin

definition plain_inv where
  "plain_inv off body h ps p st \<longleftrightarrow>
     keeps rep body h \<and> (\<exists>as. rep (fst st) h (as @ ps)) \<and> p = hd (ps @ [h]) - off"

definition safe_inv where
  "safe_inv off work h ps = (\<lambda>(p, n) st.
     keeps_rest rep work h \<and> (\<exists>as. rep (fst st) h (as @ ps)) \<and> p = hd (ps @ [h]) - off \<and>
     (ps \<noteq> [] \<longrightarrow> n = hd (tl ps @ [h]) - off))"

lemma not_head: "rep s h (as @ x # bs) \<Longrightarrow> x \<noteq> h"
  using apart [of s h "as @ x # bs"] by auto

end

sublocale cursor \<subseteq> plain: walk "\<lambda>p. p + off = h" "\<lambda>p s. to (p + off) s - off" body
    "\<lambda>x. body (x - off)" "plain_inv off body h"
  for off h :: u64 and body :: "u64 \<Rightarrow> 'a lstate \<Rightarrow> 'a lstate"
proof
  fix x ps p and st :: "'a lstate"
  assume i: "plain_inv off body h (x # ps) p st"
  then obtain as where r: "rep (fst st) h (as @ x # ps)" and k: "keeps rep body h" and p: "p = x - off"
    by (auto simp: plain_inv_def)
  show "p + off \<noteq> h \<and> body p st = body (x - off) st"
    using not_head [OF r] p by simp
  have r': "rep (fst (body (x - off) st)) h (as @ x # ps)"
    using r k unfolding keeps_def by blast
  have "to x (fst (body (x - off) st)) = hd (ps @ [h])"
    by (rule to_following [OF r'])
  moreover have "\<exists>as. rep (fst (body (x - off) st)) h (as @ ps)"
    using r' by (intro exI [of _ "as @ [x]"]) simp
  ultimately show "plain_inv off body h ps (to (p + off) (fst (body (x - off) st)) - off) (body (x - off) st)"
    using k p unfolding plain_inv_def by auto
qed (simp add: plain_inv_def)

sublocale cursor \<subseteq> safe: walk "\<lambda>(p, n). p + off = h" "\<lambda>(p, n) s. (n, to (n + off) s - off)"
    "\<lambda>(p, n). body p" "\<lambda>x. body (x - off)" "safe_inv off (\<lambda>x. body (x - off)) h"
  for off h :: u64 and body :: "u64 \<Rightarrow> 'a lstate \<Rightarrow> 'a lstate"
proof
  fix x ps c and st :: "'a lstate"
  assume i: "safe_inv off (\<lambda>x. body (x - off)) h (x # ps) c st"
  obtain p n where c: "c = (p, n)"
    by (cases c)
  from i obtain as where r: "rep (fst st) h (as @ x # ps)" and k: "keeps_rest rep (\<lambda>x. body (x - off)) h"
    and p: "p = x - off" and n: "n = hd (ps @ [h]) - off"
    by (auto simp: safe_inv_def c)
  show "\<not> (case c of (p, n) \<Rightarrow> p + off = h) \<and> (case c of (p, n) \<Rightarrow> body p) st = body (x - off) st"
    using not_head [OF r] p by (simp add: c)
  obtain cs where r': "rep (fst (body (x - off) st)) h (cs @ ps)"
    using r k unfolding keeps_rest_def by blast
  have "to (hd ps) (fst (body (x - off) st)) = hd (tl ps @ [h])" if "ps \<noteq> []"
    using to_following [of _ h cs "hd ps" "tl ps"] r' that by simp
  then show "safe_inv off (\<lambda>x. body (x - off)) h ps
      ((case c of (p, n) \<Rightarrow> \<lambda>s. (n, to (n + off) s - off)) (fst (body (x - off) st))) (body (x - off) st)"
    using k n r' by (auto simp: safe_inv_def c)
qed (auto simp: safe_inv_def)


context cursor
begin

text \<open>The loops of the macros: from the entry the cursor stands on, and over the whole list.\<close>

lemma visits:
  assumes "rep (fst st) h (as @ ps)" and "keeps rep body h"
  shows "for_loop (\<lambda>p. p + off = h) (\<lambda>p s. to (p + off) s - off) body (hd (ps @ [h]) - off) st =
    Some (fold (\<lambda>x. body (x - off)) ps st)"
  using assms by (intro plain.completes) (auto simp: plain_inv_def)

lemma visits_safely:
  assumes "rep (fst st) h (as @ ps)" and "keeps_rest rep (\<lambda>x. body (x - off)) h"
    and "p = hd (ps @ [h]) - off"
  shows "for_loop (\<lambda>(p, n). p + off = h) (\<lambda>(p, n) s. (n, to (n + off) s - off)) (\<lambda>(p, n). body p)
      (p, to (p + off) (fst st) - off) st = Some (fold (\<lambda>x. body (x - off)) ps st)"
proof -
  have "to (hd ps) (fst st) = hd (tl ps @ [h])" if "ps \<noteq> []"
    using to_following [of _ h as "hd ps" "tl ps"] assms(1) that by simp
  then show ?thesis
    using assms by (intro safe.completes) (auto simp: safe_inv_def)
qed

lemma del_keeps_rest: "keeps_rest rep (\<lambda>x (s, a). (list_del x s, f x a)) h"
  using del by (fastforce simp: keeps_rest_def)

text \<open>A loop that deletes every entry it meets empties what it walks over.\<close>

lemma deleting:
  "rep s h (as @ ps) \<Longrightarrow> rep (fst (fold (\<lambda>x (s, a). (list_del x s, f x a)) ps (s, a))) h as"
proof (induction ps arbitrary: s a)
  case (Cons x ps)
  from del [OF Cons.prems] Cons.IH show ?case by simp
qed simp

end

section \<open>Both directions\<close>

lemma dlist_del: "dlist s h (as @ x # bs) \<Longrightarrow> dlist (list_del x s) h (as @ bs)"
  by (rule dlist_leave(1) [OF _ leave_frames(1)])

interpretation fwd: cursor "\<lambda>x s. l_next s x" dlist
  by unfold_locales (auto intro: dlist_del dest: dlist_head dlist_entry dlist_distinct)

interpretation bwd: cursor "\<lambda>x s. l_prev s x" "\<lambda>s h xs. dlist s h (rev xs)"
proof
  fix s h as x bs
  assume r: "dlist s h (rev (as @ x # bs))"
  have "last (h # rev bs) = hd (bs @ [h])"
    by (cases bs) simp_all
  then show "l_prev s x = hd (bs @ [h])"
    using dlist_entry(2) [of s h "rev bs" x "rev as"] r by simp
  show "dlist (list_del x s) h (rev (as @ bs))"
    using dlist_del [of s h "rev bs" x "rev as"] r by simp
next
  fix s h xs
  assume r: "dlist s h (rev xs)"
  show "l_prev s h = hd (xs @ [h])"
    using dlist_head(2) [OF r] by (cases xs) simp_all
  show "distinct (h # xs)"
    using dlist_distinct [OF r] by simp
qed

lemma keeps_rev: "keeps (\<lambda>s h xs. dlist s h (rev xs)) body h \<longleftrightarrow> keeps dlist body h"
  unfolding keeps_def by (metis rev_rev_ident)

lemma entry_steps:
  "list_next_entry off = (\<lambda>p s. l_next s (p + off) - off)" "list_prev_entry off = (\<lambda>p s. l_prev s (p + off) - off)"
  by (simp_all add: fun_eq_iff list_next_entry_def list_prev_entry_def list_entry_def)

lemmas entry_macros = list_for_each_entry_def list_for_each_entry_reverse_def list_for_each_entry_continue_def
  list_for_each_entry_continue_reverse_def list_for_each_entry_from_def list_for_each_entry_from_reverse_def
  list_entry_is_head_def entry_steps list_first_entry_def list_last_entry_def
  list_entry_def

lemmas safe_macros = list_for_each_entry_safe_def list_for_each_entry_safe_continue_def
  list_for_each_entry_safe_from_def list_for_each_entry_safe_reverse_def safe_entry_loop_def

lemmas node_macros = list_for_each_def list_for_each_continue_def list_for_each_prev_def
  list_for_each_safe_def list_for_each_prev_safe_def

text \<open>The loops over the nodes are the loops over entries whose \<open>list_head\<close> is the first member.\<close>

lemma node_loops:
  "list_for_each body h st = list_for_each_entry 0 body h st"
  "list_for_each_continue body x h st = list_for_each_entry_continue 0 body x h st"
  "list_for_each_prev body h st = list_for_each_entry_reverse 0 body h st"
  "list_for_each_safe body h st = list_for_each_entry_safe 0 body h st"
  "list_for_each_prev_safe body h st = list_for_each_entry_safe_reverse 0 body h st"
  by (simp_all add: node_macros entry_macros safe_macros)

lemma hd_snoc_rev: "last (h # xs) = hd (rev xs @ [h])"
  by (cases xs rule: rev_cases) simp_all

lemma entry_loops:
  assumes "dlist (fst st) h (as @ bs)" and "keeps dlist body h"
  shows "for_loop (\<lambda>p. list_entry_is_head off p h) (list_next_entry off) body (list_entry off (hd (bs @ [h]))) st =
      Some (fold (\<lambda>x. body (list_entry off x)) bs st)"
    and "for_loop (\<lambda>p. list_entry_is_head off p h) (list_prev_entry off) body (list_entry off (last (h # as))) st =
      Some (fold (\<lambda>x. body (list_entry off x)) (rev as) st)"
  using fwd.visits [of st h as bs] bwd.visits [of st h "rev bs" "rev as"] assms
  unfolding hd_snoc_rev keeps_rev by (simp_all add: entry_macros)

lemma safe_loops:
  assumes "dlist (fst st) h (as @ bs)"
  shows "keeps_rest dlist (\<lambda>x. body (list_entry off x)) h \<Longrightarrow> p = list_entry off (hd (bs @ [h])) \<Longrightarrow>
      safe_entry_loop (list_next_entry off) off body p (list_next_entry off p (fst st)) h st =
      Some (fold (\<lambda>x. body (list_entry off x)) bs st)"
    and "keeps_rest (\<lambda>s h xs. dlist s h (rev xs)) (\<lambda>x. body (list_entry off x)) h \<Longrightarrow>
      p = list_entry off (last (h # as)) \<Longrightarrow>
      safe_entry_loop (list_prev_entry off) off body p (list_prev_entry off p (fst st)) h st =
      Some (fold (\<lambda>x. body (list_entry off x)) (rev as) st)"
  using fwd.visits_safely [of st h as bs body off p] bwd.visits_safely [of st h "rev bs" "rev as" body off p] assms
  unfolding hd_snoc_rev by (simp_all add: entry_macros safe_macros)

lemma entry_neighbours [simp]:
  "list_next_entry off (list_entry off e) s = list_entry off (l_next s e)"
  "list_prev_entry off (list_entry off e) s = list_entry off (l_prev s e)"
  by (simp_all add: list_next_entry_def list_prev_entry_def list_entry_def)

text \<open>Where the macros start: at an end of the list, behind an entry, or on it.\<close>

lemma loop_starts:
  assumes "dlist s h (xs @ e # ys)"
  shows "list_first_entry off h s = list_entry off (hd ((xs @ e # ys) @ [h]))"
    and "list_last_entry off h s = list_entry off (last (h # xs @ e # ys))"
    and "list_next_entry off (list_entry off e) s = list_entry off (hd (ys @ [h]))"
    and "list_prev_entry off (list_entry off e) s = list_entry off (last (h # xs))"
    and "list_entry off e = list_entry off (hd ((e # ys) @ [h]))"
    and "list_entry off e = list_entry off (last (h # xs @ [e]))"
  using dlist_head [OF assms] dlist_entry [OF assms]
  by (simp_all add: list_first_entry_def list_last_entry_def del: append_assoc)

lemma entry_walks:
  assumes "dlist (fst st) h (xs @ e # ys)" and "keeps dlist body h"
  shows "list_for_each_entry off body h st = Some (fold (\<lambda>x. body (list_entry off x)) (xs @ e # ys) st)"
    and "list_for_each_entry_reverse off body h st = Some (fold (\<lambda>x. body (list_entry off x)) (rev (xs @ e # ys)) st)"
    and "list_for_each_entry_continue off body (list_entry off e) h st =
      Some (fold (\<lambda>x. body (list_entry off x)) ys st)"
    and "list_for_each_entry_continue_reverse off body (list_entry off e) h st =
      Some (fold (\<lambda>x. body (list_entry off x)) (rev xs) st)"
    and "list_for_each_entry_from off body (list_entry off e) h st =
      Some (fold (\<lambda>x. body (list_entry off x)) (e # ys) st)"
    and "list_for_each_entry_from_reverse off body (list_entry off e) h st =
      Some (fold (\<lambda>x. body (list_entry off x)) (rev (xs @ [e])) st)"
proof -
  have r: "dlist (fst st) h ([] @ xs @ e # ys)" "dlist (fst st) h ((xs @ e # ys) @ [])"
    "dlist (fst st) h ((xs @ [e]) @ ys)"
    using assms(1) by simp_all
  note st = loop_starts [OF assms(1), of off]
  show "list_for_each_entry off body h st = Some (fold (\<lambda>x. body (list_entry off x)) (xs @ e # ys) st)"
    unfolding list_for_each_entry_def st(1) by (rule entry_loops(1) [OF r(1) assms(2)])
  show "list_for_each_entry_reverse off body h st = Some (fold (\<lambda>x. body (list_entry off x)) (rev (xs @ e # ys)) st)"
    unfolding list_for_each_entry_reverse_def st(2) by (rule entry_loops(2) [OF r(2) assms(2)])
  show "list_for_each_entry_continue off body (list_entry off e) h st =
      Some (fold (\<lambda>x. body (list_entry off x)) ys st)"
    unfolding list_for_each_entry_continue_def st(3) by (rule entry_loops(1) [OF r(3) assms(2)])
  show "list_for_each_entry_continue_reverse off body (list_entry off e) h st =
      Some (fold (\<lambda>x. body (list_entry off x)) (rev xs) st)"
    unfolding list_for_each_entry_continue_reverse_def st(4) by (rule entry_loops(2) [OF assms])
  show "list_for_each_entry_from off body (list_entry off e) h st =
      Some (fold (\<lambda>x. body (list_entry off x)) (e # ys) st)"
    unfolding list_for_each_entry_from_def using entry_loops(1) [OF assms, of off] by simp
  show "list_for_each_entry_from_reverse off body (list_entry off e) h st =
      Some (fold (\<lambda>x. body (list_entry off x)) (rev (xs @ [e])) st)"
    unfolding list_for_each_entry_from_reverse_def using entry_loops(2) [OF r(3) assms(2), of off] by simp
qed

text \<open>The loops over the whole list, which may be empty.\<close>

lemma whole_walks:
  assumes "dlist (fst st) h zs" and "keeps dlist body h"
  shows "list_for_each_entry off body h st = Some (fold (\<lambda>x. body (list_entry off x)) zs st)"
    and "list_for_each_entry_reverse off body h st = Some (fold (\<lambda>x. body (list_entry off x)) (rev zs) st)"
    and "list_for_each_entry_continue off body (list_prepare_entry off 0 h) h st =
      Some (fold (\<lambda>x. body (list_entry off x)) zs st)"
  using entry_loops(1) [of st h "[]" zs body off] entry_loops(2) [of st h zs "[]" body off] assms dlist_head [OF assms(1)]
  by (simp_all add: list_for_each_entry_def list_for_each_entry_reverse_def list_for_each_entry_continue_def
      list_first_entry_def list_last_entry_def list_prepare_entry_def)

lemma safe_walks:
  assumes "keeps_rest dlist (\<lambda>x. body (list_entry off x)) h"
  shows "dlist (fst st) h xs \<Longrightarrow>
      list_for_each_entry_safe off body h st = Some (fold (\<lambda>x. body (list_entry off x)) xs st)"
    and "dlist (fst st) h (xs @ e # ys) \<Longrightarrow>
      list_for_each_entry_safe_continue off body (list_entry off e) h st =
      Some (fold (\<lambda>x. body (list_entry off x)) ys st)"
    and "dlist (fst st) h (xs @ e # ys) \<Longrightarrow>
      list_for_each_entry_safe_from off body (list_entry off e) h st =
      Some (fold (\<lambda>x. body (list_entry off x)) (e # ys) st)"
proof -
  assume "dlist (fst st) h xs"
  then have "dlist (fst st) h ([] @ xs)" "list_first_entry off h (fst st) = list_entry off (hd (xs @ [h]))"
    using dlist_head(1) [of "fst st" h xs] by (simp_all add: list_first_entry_def)
  from safe_loops(1) [OF this(1) assms this(2)]
  show "list_for_each_entry_safe off body h st = Some (fold (\<lambda>x. body (list_entry off x)) xs st)"
    by (simp only: list_for_each_entry_safe_def Let_def)
next
  assume r: "dlist (fst st) h (xs @ e # ys)"
  then have r': "dlist (fst st) h ((xs @ [e]) @ ys)"
    by simp
  note st = loop_starts [OF r, of off]
  show "list_for_each_entry_safe_continue off body (list_entry off e) h st =
      Some (fold (\<lambda>x. body (list_entry off x)) ys st)"
    unfolding list_for_each_entry_safe_continue_def Let_def by (rule safe_loops(1) [OF r' assms st(3)])
  show "list_for_each_entry_safe_from off body (list_entry off e) h st =
      Some (fold (\<lambda>x. body (list_entry off x)) (e # ys) st)"
    unfolding list_for_each_entry_safe_from_def Let_def by (rule safe_loops(1) [OF r assms st(5)])
qed

lemma safe_walk_reverse:
  assumes "dlist (fst st) h xs" and "keeps_rest (\<lambda>s h xs. dlist s h (rev xs)) (\<lambda>x. body (list_entry off x)) h"
  shows "list_for_each_entry_safe_reverse off body h st = Some (fold (\<lambda>x. body (list_entry off x)) (rev xs) st)"
proof -
  have r: "dlist (fst st) h (xs @ [])" and l: "list_last_entry off h (fst st) = list_entry off (last (h # xs))"
    using assms(1) dlist_head(2) [OF assms(1)] by (simp_all add: list_last_entry_def)
  show ?thesis
    unfolding list_for_each_entry_safe_reverse_def Let_def by (rule safe_loops(2) [OF r assms(2) l])
qed

text \<open>The loops that delete every entry and write down which ones they met.\<close>

lemma fold_log: "snd (fold (\<lambda>x (s, ps). (g x s, ps @ [x])) xs (s, ps)) = ps @ xs"
  by (induction xs arbitrary: s ps) simp_all

lemma deleting_loops:
  assumes "dlist s h xs"
  shows "\<exists>s'. list_for_each_safe (\<lambda>x (s, ps). (list_del x s, ps @ [x])) h (s, []) = Some (s', xs) \<and> dlist s' h []"
    and "\<exists>s'. list_for_each_prev_safe (\<lambda>x (s, ps). (list_del x s, ps @ [x])) h (s, []) = Some (s', rev xs) \<and> dlist s' h []"
proof -
  let ?f = "fold (\<lambda>x (s, ps). (list_del x s, ps @ [x]))"
  have f: "list_for_each_safe (\<lambda>x (s, ps). (list_del x s, ps @ [x])) h (s, []) = Some (?f xs (s, []))"
    using safe_walks(1) [of "\<lambda>x (s, ps). (list_del x s, ps @ [x])" 0 h "(s, [])" xs]
      fwd.del_keeps_rest [of "\<lambda>x ps. ps @ [x]" h] assms
    by (simp add: node_loops list_entry_def)
  have b: "list_for_each_prev_safe (\<lambda>x (s, ps). (list_del x s, ps @ [x])) h (s, []) = Some (?f (rev xs) (s, []))"
    using safe_walk_reverse [of "(s, [])" h xs "\<lambda>x (s, ps). (list_del x s, ps @ [x])" 0]
      bwd.del_keeps_rest [of "\<lambda>x ps. ps @ [x]" h] assms
    by (simp add: node_loops list_entry_def)
  have "dlist (fst (?f xs (s, []))) h []" "dlist (fst (?f (rev xs) (s, []))) h []"
    using fwd.deleting [of s h "[]" xs "\<lambda>x ps. ps @ [x]"] bwd.deleting [of s h "[]" "rev xs" "\<lambda>x ps. ps @ [x]"] assms by simp_all
  moreover have "?f ys (s, []) = (fst (?f ys (s, [])), ys)" for ys
    by (simp add: prod_eq_iff fold_log)
  ultimately show "\<exists>s'. list_for_each_safe (\<lambda>x (s, ps). (list_del x s, ps @ [x])) h (s, []) = Some (s', xs) \<and> dlist s' h []"
    "\<exists>s'. list_for_each_prev_safe (\<lambda>x (s, ps). (list_del x s, ps @ [x])) h (s, []) = Some (s', rev xs) \<and> dlist s' h []"
    unfolding f b by auto
qed

end
