(* ===== verification/Hlist.thy ===== *)
theory Hlist
  imports List_Iter
begin

text \<open>
  The hash lists of \<open>linux/list.h\<close>: a head with one pointer, nodes with a \<open>next\<close> pointer and the address
  \<open>pprev\<close> of the pointer that points to them.  \<open>first\<close> is the only member of \<open>struct hlist_head\<close> and
  \<open>next\<close> the first one of \<open>struct hlist_node\<close>, so \<open>&h->first\<close> is the address of the head and \<open>&n->next\<close>
  that of the node: one map holds both kinds of word, by address, and a store through a \<open>pprev\<close> writes
  whichever it addresses.
\<close>

section \<open>The store and the operations\<close>

record hstore =
  h_word :: "u64 \<Rightarrow> u64"
  h_pprev :: "u64 \<Rightarrow> u64"

definition set_word :: "u64 \<Rightarrow> u64 \<Rightarrow> hstore \<Rightarrow> hstore" where
  "set_word p v s = s\<lparr>h_word := (h_word s)(p := v)\<rparr>"

definition set_pprev :: "u64 \<Rightarrow> u64 \<Rightarrow> hstore \<Rightarrow> hstore" where
  "set_pprev p v s = s\<lparr>h_pprev := (h_pprev s)(p := v)\<rparr>"

definition INIT_HLIST_HEAD :: "u64 \<Rightarrow> hstore \<Rightarrow> hstore" where
  "INIT_HLIST_HEAD ptr = set_word ptr 0"

definition INIT_HLIST_NODE :: "u64 \<Rightarrow> hstore \<Rightarrow> hstore" where
  "INIT_HLIST_NODE h = stmts [set_word h 0, set_pprev h 0]"

definition hlist_unhashed :: "u64 \<Rightarrow> hstore \<Rightarrow> bool" where
  "hlist_unhashed h s \<longleftrightarrow> h_pprev s h = 0"

definition hlist_unhashed_lockless :: "u64 \<Rightarrow> hstore \<Rightarrow> bool" where
  "hlist_unhashed_lockless h s \<longleftrightarrow> h_pprev s h = 0"

definition hlist_empty :: "u64 \<Rightarrow> hstore \<Rightarrow> bool" where
  "hlist_empty h s \<longleftrightarrow> h_word s h = 0"

definition raw_hlist_del :: "u64 \<Rightarrow> hstore \<Rightarrow> hstore" where
  "raw_hlist_del n s =
     (let next = h_word s n; pprev = h_pprev s n
      in stmts [set_word pprev next, if next \<noteq> 0 then set_pprev next pprev else id] s)"

definition hlist_del :: "u64 \<Rightarrow> hstore \<Rightarrow> hstore" where
  "hlist_del n = stmts [raw_hlist_del n, set_word n LIST_POISON1, set_pprev n LIST_POISON2]"

definition hlist_del_init :: "u64 \<Rightarrow> hstore \<Rightarrow> hstore" where
  "hlist_del_init n s =
     (if \<not> hlist_unhashed n s then stmts [raw_hlist_del n, INIT_HLIST_NODE n] s else s)"

definition hlist_add_head :: "u64 \<Rightarrow> u64 \<Rightarrow> hstore \<Rightarrow> hstore" where
  "hlist_add_head n h s =
     (let first = h_word s h
      in stmts [set_word n first, if first \<noteq> 0 then set_pprev first n else id, set_word h n, set_pprev n h] s)"

definition hlist_add_before :: "u64 \<Rightarrow> u64 \<Rightarrow> hstore \<Rightarrow> hstore" where
  "hlist_add_before n next =
     stmts [\<lambda>s. set_pprev n (h_pprev s next) s, set_word n next, set_pprev next n,
            \<lambda>s. set_word (h_pprev s n) n s]"

definition hlist_add_behind :: "u64 \<Rightarrow> u64 \<Rightarrow> hstore \<Rightarrow> hstore" where
  "hlist_add_behind n prev =
     stmts [\<lambda>s. set_word n (h_word s prev) s, set_word prev n, set_pprev n prev,
            \<lambda>s. if h_word s n \<noteq> 0 then set_pprev (h_word s n) n s else s]"

definition hlist_add_fake :: "u64 \<Rightarrow> hstore \<Rightarrow> hstore" where
  "hlist_add_fake n = set_pprev n n"

definition hlist_fake :: "u64 \<Rightarrow> hstore \<Rightarrow> bool" where
  "hlist_fake h s \<longleftrightarrow> h_pprev s h = h"

definition hlist_is_singular_node :: "u64 \<Rightarrow> u64 \<Rightarrow> hstore \<Rightarrow> bool" where
  "hlist_is_singular_node n h s \<longleftrightarrow> h_word s n = 0 \<and> h_pprev s n = h"

definition hlist_move_list :: "u64 \<Rightarrow> u64 \<Rightarrow> hstore \<Rightarrow> hstore" where
  "hlist_move_list old new =
     stmts [\<lambda>s. set_word new (h_word s old) s,
            \<lambda>s. if h_word s new \<noteq> 0 then set_pprev (h_word s new) new s else s,
            set_word old 0]"

section \<open>Iteration\<close>

type_synonym 'a hstate = "hstore \<times> 'a"

definition hlist_entry :: "u64 \<Rightarrow> u64 \<Rightarrow> u64" where
  "hlist_entry off ptr = ptr - off"

definition hlist_entry_safe :: "u64 \<Rightarrow> u64 \<Rightarrow> u64" where
  "hlist_entry_safe off ptr = (if ptr \<noteq> 0 then hlist_entry off ptr else 0)"

definition hlist_for_each :: "(u64 \<Rightarrow> 'a hstate \<Rightarrow> 'a hstate) \<Rightarrow> u64 \<Rightarrow> 'a hstate \<Rightarrow> 'a hstate option" where
  "hlist_for_each body head st =
     for_loop (\<lambda>pos. pos = 0) (\<lambda>pos s. h_word s pos) body (h_word (fst st) head) st"

text \<open>The test of a safe loop saves the next position once the cursor is known not to be \<open>NULL\<close>.\<close>

definition hlist_for_each_safe :: "(u64 \<Rightarrow> 'a hstate \<Rightarrow> 'a hstate) \<Rightarrow> u64 \<Rightarrow> u64 \<Rightarrow> 'a hstate \<Rightarrow> 'a hstate option" where
  "hlist_for_each_safe body n head st =
     (let pos = h_word (fst st) head; saved = (\<lambda>pos n s. if pos \<noteq> 0 then h_word s pos else n)
      in for_loop (\<lambda>(pos, n). pos = 0) (\<lambda>(pos, n) s. (n, saved n n s)) (\<lambda>(pos, n). body pos)
           (pos, saved pos n (fst st)) st)"

definition hlist_for_each_entry ::
  "u64 \<Rightarrow> (u64 \<Rightarrow> 'a hstate \<Rightarrow> 'a hstate) \<Rightarrow> u64 \<Rightarrow> 'a hstate \<Rightarrow> 'a hstate option" where
  "hlist_for_each_entry off body head st =
     for_loop (\<lambda>pos. pos = 0) (\<lambda>pos s. hlist_entry_safe off (h_word s (pos + off))) body
       (hlist_entry_safe off (h_word (fst st) head)) st"

definition hlist_for_each_entry_continue ::
  "u64 \<Rightarrow> (u64 \<Rightarrow> 'a hstate \<Rightarrow> 'a hstate) \<Rightarrow> u64 \<Rightarrow> 'a hstate \<Rightarrow> 'a hstate option" where
  "hlist_for_each_entry_continue off body pos st =
     for_loop (\<lambda>pos. pos = 0) (\<lambda>pos s. hlist_entry_safe off (h_word s (pos + off))) body
       (hlist_entry_safe off (h_word (fst st) (pos + off))) st"

definition hlist_for_each_entry_from ::
  "u64 \<Rightarrow> (u64 \<Rightarrow> 'a hstate \<Rightarrow> 'a hstate) \<Rightarrow> u64 \<Rightarrow> 'a hstate \<Rightarrow> 'a hstate option" where
  "hlist_for_each_entry_from off body pos st =
     for_loop (\<lambda>pos. pos = 0) (\<lambda>pos s. hlist_entry_safe off (h_word s (pos + off))) body pos st"

definition hlist_for_each_entry_safe ::
  "u64 \<Rightarrow> (u64 \<Rightarrow> 'a hstate \<Rightarrow> 'a hstate) \<Rightarrow> u64 \<Rightarrow> u64 \<Rightarrow> 'a hstate \<Rightarrow> 'a hstate option" where
  "hlist_for_each_entry_safe off body n head st =
     (let pos = hlist_entry_safe off (h_word (fst st) head);
          saved = (\<lambda>pos n s. if pos \<noteq> 0 then h_word s (pos + off) else n)
      in for_loop (\<lambda>(pos, n). pos = 0)
           (\<lambda>(pos, n) s. (hlist_entry_safe off n, saved (hlist_entry_safe off n) n s)) (\<lambda>(pos, n). body pos)
           (pos, saved pos n (fst st)) st)"

section \<open>The list of a head\<close>

fun hseg :: "hstore \<Rightarrow> u64 \<Rightarrow> u64 list \<Rightarrow> bool" where
  "hseg s p [] \<longleftrightarrow> h_word s p = 0"
| "hseg s p (x # xs) \<longleftrightarrow> h_word s p = x \<and> x \<noteq> 0 \<and> h_pprev s x = p \<and> hseg s x xs"

definition hlist :: "hstore \<Rightarrow> u64 \<Rightarrow> u64 list \<Rightarrow> bool" where
  "hlist s h xs \<longleftrightarrow> hseg s h xs \<and> distinct (h # xs) \<and> h \<noteq> 0"

lemma hset_sel [simp]:
  "h_word (set_word p v s) = (h_word s)(p := v)" "h_pprev (set_word p v s) = h_pprev s"
  "h_pprev (set_pprev p v s) = (h_pprev s)(p := v)" "h_word (set_pprev p v s) = h_word s"
  by (simp_all add: set_word_def set_pprev_def)

lemma hseg_cong:
  assumes "\<And>x. x \<in> set (p # xs) \<Longrightarrow> h_word s' x = h_word s x" and "\<And>x. x \<in> set xs \<Longrightarrow> h_pprev s' x = h_pprev s x"
  shows "hseg s' p xs \<longleftrightarrow> hseg s p xs"
  using assms by (induction xs arbitrary: p) simp_all

text \<open>The part of a list before its pointer \<open>q\<close>, and how a list is put together from two parts.\<close>

fun hpart :: "hstore \<Rightarrow> u64 \<Rightarrow> u64 list \<Rightarrow> u64 \<Rightarrow> bool" where
  "hpart s p [] q \<longleftrightarrow> p = q"
| "hpart s p (x # xs) q \<longleftrightarrow> h_word s p = x \<and> x \<noteq> 0 \<and> h_pprev s x = p \<and> hpart s x xs q"

lemma hseg_append: "hseg s p (xs @ ys) \<longleftrightarrow> hpart s p xs (last (p # xs)) \<and> hseg s (last (p # xs)) ys"
  by (induction xs arbitrary: p) auto

lemma hpart_cong:
  assumes "\<And>x. x \<in> set (butlast (p # xs)) \<Longrightarrow> h_word s' x = h_word s x"
    and "\<And>x. x \<in> set xs \<Longrightarrow> h_pprev s' x = h_pprev s x"
  shows "hpart s' p xs q \<longleftrightarrow> hpart s p xs q"
  using assms by (induction xs arbitrary: p) auto

lemma hlist_suffix:
  assumes "hlist s h (xs @ ys)" and "hseg s' (last (h # xs)) ys'" and "distinct (h # xs @ ys')"
    and "\<And>x. x \<in> set (butlast (h # xs)) \<Longrightarrow> h_word s' x = h_word s x"
    and "\<And>x. x \<in> set xs \<Longrightarrow> h_pprev s' x = h_pprev s x"
  shows "hlist s' h (xs @ ys')"
  using assms hpart_cong [of h xs s' s "last (h # xs)"] by (simp add: hlist_def hseg_append)

lemma hlist_split:
  assumes "hlist s h (xs @ ys)"
  shows "hseg s (last (h # xs)) ys" and "distinct (h # xs @ ys)" and "h \<noteq> 0"
    and "last (h # xs) \<notin> set (butlast (h # xs))" and "last (h # xs) \<notin> set ys" and "last (h # xs) \<noteq> 0"
proof -
  show h: "hseg s (last (h # xs)) ys" "distinct (h # xs @ ys)" "h \<noteq> 0"
    using assms by (simp_all add: hlist_def hseg_append del: last.simps)
  show "last (h # xs) \<notin> set (butlast (h # xs))"
    using h(2) last_notin_butlast [of "h # xs"] by (simp del: last.simps butlast.simps)
  have "last (h # xs) \<in> set (h # xs)"
    by (rule last_in_set) simp
  then show "last (h # xs) \<notin> set ys"
    using h(2) by auto
  have "0 \<notin> set xs" if "hseg s h xs'" "xs' = xs @ ys" for xs'
    using that by (induction xs arbitrary: h xs') auto
  then have "0 \<notin> set (h # xs)"
    using assms by (auto simp: hlist_def)
  then show "last (h # xs) \<noteq> 0"
    using \<open>last (h # xs) \<in> set (h # xs)\<close> by metis
qed

lemma hlist_nonzero: "hlist s h xs \<Longrightarrow> x \<in> set (h # xs) \<Longrightarrow> x \<noteq> 0"
proof -
  have "hseg s p xs \<Longrightarrow> x \<in> set xs \<Longrightarrow> x \<noteq> 0" for p
    by (induction xs arbitrary: p) auto
  then show "hlist s h xs \<Longrightarrow> x \<in> set (h # xs) \<Longrightarrow> x \<noteq> 0"
    by (auto simp: hlist_def)
qed

section \<open>Effect of the operations\<close>

text \<open>Putting a node into the pointer at address \<open>q\<close>, in front of what it pointed to.\<close>

lemma hseg_insert:
  assumes "hseg s q ys" and "n \<notin> set (q # ys)" and "n \<noteq> 0" and "distinct (q # ys)"
    and w: "h_word s' = (h_word s)(q := n, n := h_word s q)"
    and p: "h_pprev s' = (case ys of [] \<Rightarrow> h_pprev s | y # _ \<Rightarrow> (h_pprev s)(y := n))(n := q)"
  shows "hseg s' q (n # ys)"
proof (cases ys)
  case Nil
  then show ?thesis using assms by auto
next
  case (Cons y zs)
  then have "hseg s' y zs \<longleftrightarrow> hseg s y zs"
    using assms(2,4) by (intro hseg_cong) (auto simp: w p)
  then show ?thesis
    using assms Cons by auto
qed

lemma hseg_remove:
  assumes "hseg s q (x # ys)" and "distinct (q # x # ys)"
  shows "hseg (raw_hlist_del x s) q ys"
    and "h_word (raw_hlist_del x s) = (h_word s)(q := h_word s x)"
    and "\<And>z. z \<notin> set ys \<Longrightarrow> h_pprev (raw_hlist_del x s) z = h_pprev s z"
proof -
  have q: "h_pprev s x = q"
    using assms(1) by simp
  show w: "h_word (raw_hlist_del x s) = (h_word s)(q := h_word s x)"
    by (simp add: raw_hlist_del_def Let_def q)
  show "h_pprev (raw_hlist_del x s) z = h_pprev s z" if "z \<notin> set ys" for z
    using assms(1) that by (cases ys) (auto simp: raw_hlist_del_def Let_def)
  show "hseg (raw_hlist_del x s) q ys"
  proof (cases ys)
    case Nil
    then show ?thesis using assms(1) w by simp
  next
    case (Cons y zs)
    then have p: "h_pprev (raw_hlist_del x s) = (h_pprev s)(y := q)"
      using assms(1) by (simp add: raw_hlist_del_def Let_def)
    have "hseg (raw_hlist_del x s) y zs \<longleftrightarrow> hseg s y zs"
      using assms(2) Cons by (intro hseg_cong) (auto simp: w p)
    then show ?thesis
      using assms(1) Cons by (simp add: w p)
  qed
qed

lemma hlist_insert:
  assumes "hlist s h (xs @ ys)" and "n \<notin> set (h # xs @ ys)" and "n \<noteq> 0"
    and w: "h_word s' = (h_word s)(last (h # xs) := n, n := h_word s (last (h # xs)))"
    and p: "h_pprev s' = (case ys of [] \<Rightarrow> h_pprev s | y # _ \<Rightarrow> (h_pprev s)(y := n))(n := last (h # xs))"
  shows "hlist s' h (xs @ n # ys)"
proof (rule hlist_suffix [OF assms(1)])
  note s = hlist_split [OF assms(1)]
  have q: "last (h # xs) \<in> set (h # xs)"
    by (rule last_in_set) simp
  then have n: "n \<notin> set (last (h # xs) # ys)"
    using assms(2) by auto
  show "hseg s' (last (h # xs)) (n # ys)"
    using s(2,5) by (intro hseg_insert [OF s(1) n assms(3) _ w p]) simp
  show "distinct (h # xs @ n # ys)"
    using s(2) assms(2) by auto
  show "h_word s' x = h_word s x" if "x \<in> set (butlast (h # xs))" for x
    using s(4) that assms(2) in_set_butlastD [OF that] by (auto simp: w)
  show "h_pprev s' x = h_pprev s x" if "x \<in> set xs" for x
    using s(2) that assms(2) by (cases ys) (auto simp: p)
qed

lemma hlist_adds:
  assumes "n \<noteq> 0"
  shows "hlist s h xs \<Longrightarrow> n \<notin> set (h # xs) \<Longrightarrow> hlist (hlist_add_head n h s) h (n # xs)"
    and "hlist s h (xs @ x # ys) \<Longrightarrow> n \<notin> set (h # xs @ x # ys) \<Longrightarrow> hlist (hlist_add_before n x s) h (xs @ n # x # ys)"
    and "hlist s h (xs @ x # ys) \<Longrightarrow> n \<notin> set (h # xs @ x # ys) \<Longrightarrow> hlist (hlist_add_behind n x s) h (xs @ x # n # ys)"
proof -
  assume l: "hlist s h xs" and n: "n \<notin> set (h # xs)"
  have "hseg s h xs"
    using l by (simp add: hlist_def)
  then have "h_word (hlist_add_head n h s) = (h_word s)(h := n, n := h_word s h)"
    "h_pprev (hlist_add_head n h s) = (case xs of [] \<Rightarrow> h_pprev s | y # _ \<Rightarrow> (h_pprev s)(y := n))(n := h)"
    using n by (cases xs; auto simp: hlist_add_head_def Let_def)+
  then show "hlist (hlist_add_head n h s) h (n # xs)"
    using hlist_insert [of s h "[]" xs n] l n assms by simp
next
  assume l: "hlist s h (xs @ x # ys)" and n: "n \<notin> set (h # xs @ x # ys)"
  let ?q = "last (h # xs)"
  have q: "h_word s ?q = x" "h_pprev s x = ?q" "?q \<noteq> x" "h_word s x = (case ys of [] \<Rightarrow> 0 | y # _ \<Rightarrow> y)" "0 \<notin> set ys"
    using hlist_split(1,5) [OF l] hlist_nonzero [OF l] by (auto split: list.split simp del: last.simps)
  have "?q \<in> set (h # xs)"
    by (rule last_in_set) simp
  then have "?q \<noteq> n" "x \<noteq> n"
    using n by auto
  then have "h_word (hlist_add_before n x s) = (h_word s)(?q := n, n := h_word s ?q)"
    "h_pprev (hlist_add_before n x s) = (case x # ys of [] \<Rightarrow> h_pprev s | y # _ \<Rightarrow> (h_pprev s)(y := n))(n := ?q)"
    using q by (auto simp: hlist_add_before_def simp del: last.simps)
  then show "hlist (hlist_add_before n x s) h (xs @ n # x # ys)"
    by (rule hlist_insert [OF l n assms])
  have "h_word (hlist_add_behind n x s) = (h_word s)(x := n, n := h_word s x)"
    "h_pprev (hlist_add_behind n x s) = (case ys of [] \<Rightarrow> h_pprev s | y # _ \<Rightarrow> (h_pprev s)(y := n))(n := x)"
    using q(4,5) \<open>x \<noteq> n\<close> n by (cases ys; auto simp: hlist_add_behind_def)+
  then show "hlist (hlist_add_behind n x s) h (xs @ x # n # ys)"
    using hlist_insert [of s h "xs @ [x]" ys n] l n assms by simp
qed

text \<open>After a node has left its list, what happens to the node itself does not matter to the list.\<close>

lemma hlist_leave:
  assumes "hlist s h (xs @ x # ys)"
    and "\<And>z. z \<noteq> x \<Longrightarrow> h_word s' z = h_word (raw_hlist_del x s) z \<and> h_pprev s' z = h_pprev (raw_hlist_del x s) z"
  shows "hlist s' h (xs @ ys)"
proof (rule hlist_suffix [OF assms(1)])
  note s = hlist_split [OF assms(1)]
  have d: "distinct (last (h # xs) # x # ys)"
    using s(2,5) by auto
  note r = hseg_remove [OF s(1) d]
  have "hseg s' (last (h # xs)) ys \<longleftrightarrow> hseg (raw_hlist_del x s) (last (h # xs)) ys"
    using assms(2) d by (intro hseg_cong) (metis distinct.simps(2) list.set_intros set_ConsD)+
  then show "hseg s' (last (h # xs)) ys"
    using r(1) by blast
  show "distinct (h # xs @ ys)"
    using s(2) by auto
  show "h_word s' z = h_word s z" if "z \<in> set (butlast (h # xs))" for z
  proof -
    have "z \<noteq> x" "z \<noteq> last (h # xs)"
      using in_set_butlastD [OF that] s(2,4) that by auto
    then show ?thesis using assms(2) r(2) by simp
  qed
  show "h_pprev s' z = h_pprev s z" if "z \<in> set xs" for z
  proof -
    have "z \<noteq> x" "z \<notin> set ys"
      using that s(2) by auto
    then show ?thesis using assms(2) r(3) by simp
  qed
qed

lemma hlist_dels:
  assumes "hlist s h (xs @ x # ys)"
  shows "hlist (hlist_del x s) h (xs @ ys)" and "hlist (hlist_del_init x s) h (xs @ ys)"
    and "hlist_unhashed x (hlist_del_init x s)" and "\<not> hlist_unhashed x s" and "\<not> hlist_unhashed x (hlist_del x s)"
proof -
  have "h_pprev s x = last (h # xs)" "last (h # xs) \<noteq> 0"
    using hlist_split(1,6) [OF assms] by simp_all
  then show u: "\<not> hlist_unhashed x s"
    by (simp add: hlist_unhashed_def)
  show "hlist (hlist_del x s) h (xs @ ys)" "hlist (hlist_del_init x s) h (xs @ ys)"
    using u by (auto intro!: hlist_leave [OF assms] simp: hlist_del_def hlist_del_init_def INIT_HLIST_NODE_def)
  show "hlist_unhashed x (hlist_del_init x s)"
    using u by (simp add: hlist_del_init_def INIT_HLIST_NODE_def hlist_unhashed_def)
  show "\<not> hlist_unhashed x (hlist_del x s)"
    by (simp add: hlist_del_def hlist_unhashed_def LIST_POISON2_def)
qed

lemma hlist_del_init_idle: "hlist_unhashed x s \<Longrightarrow> hlist_del_init x s = s"
  by (simp add: hlist_del_init_def)

lemma hlist_move:
  assumes "hlist s old xs" and "new \<notin> set (old # xs)" and "new \<noteq> 0"
  shows "hlist (hlist_move_list old new s) new xs" and "hlist (hlist_move_list old new s) old []"
proof -
  let ?s = "hlist_move_list old new s"
  have l: "hseg s old xs" "distinct (old # xs)" "old \<noteq> 0"
    using assms(1) by (simp_all add: hlist_def)
  have w: "h_word ?s = (h_word s)(new := h_word s old, old := 0)"
    by (auto simp: hlist_move_list_def)
  have "hseg ?s new xs"
  proof (cases xs)
    case Nil
    then show ?thesis using l assms(2) by (simp add: w)
  next
    case (Cons y ys)
    then have p: "h_pprev ?s = (h_pprev s)(y := new)"
      using l(1) by (auto simp: hlist_move_list_def)
    have "hseg ?s y ys \<longleftrightarrow> hseg s y ys"
      using l(2) assms(2) Cons by (intro hseg_cong) (auto simp: w p)
    then show ?thesis
      using l(1) assms(2) Cons by (auto simp: w p)
  qed
  then show "hlist ?s new xs"
    using l(2) assms(2,3) by (simp add: hlist_def)
  show "hlist ?s old []"
    using l(3) by (simp add: hlist_def w)
qed

lemma hlist_tests:
  assumes "hlist s h xs"
  shows "hlist_empty h s \<longleftrightarrow> xs = []" and "x \<in> set xs \<Longrightarrow> hlist_is_singular_node x h s \<longleftrightarrow> xs = [x]"
    and "x \<in> set xs \<Longrightarrow> \<not> hlist_fake x s"
proof -
  show "hlist_empty h s \<longleftrightarrow> xs = []"
    using assms by (cases xs) (auto simp: hlist_def hlist_empty_def)
  assume "x \<in> set xs"
  then obtain as bs where xs: "xs = as @ x # bs"
    by (auto simp: in_set_conv_decomp)
  note s = hlist_split [OF assms [unfolded xs]]
  have q: "h_pprev s x = last (h # as)" "h_word s x = 0 \<longleftrightarrow> bs = []"
    using s(1) by (cases bs; simp)+
  moreover have "last (h # as) = h \<longleftrightarrow> as = []"
    using s(2) by auto
  ultimately show "hlist_is_singular_node x h s \<longleftrightarrow> xs = [x]"
    by (auto simp: hlist_is_singular_node_def xs append_eq_Cons_conv)
  show "\<not> hlist_fake x s"
    using q(1) s(5) by (auto simp: hlist_fake_def)
qed

text \<open>A fake node can be deleted although it is on no list.\<close>

lemma hlist_fake_del:
  assumes "n \<noteq> 0" and "h_word s n = 0"
  shows "hlist_fake n (hlist_add_fake n s)" and "\<not> hlist_unhashed n (hlist_add_fake n s)"
    and "z \<noteq> n \<Longrightarrow> h_word (hlist_del_init n (hlist_add_fake n s)) z = h_word s z"
    and "z \<noteq> n \<Longrightarrow> h_pprev (hlist_del_init n (hlist_add_fake n s)) z = h_pprev s z"
  using assms by (auto simp: hlist_fake_def hlist_add_fake_def hlist_unhashed_def hlist_del_init_def
      raw_hlist_del_def INIT_HLIST_NODE_def Let_def)

text \<open>
  What an operation does not touch: every word and every \<open>pprev\<close> outside the given nodes, those at address 0
  included.
\<close>

definition hframe :: "u64 set \<Rightarrow> hstore \<Rightarrow> hstore \<Rightarrow> bool" where
  "hframe A s s' \<longleftrightarrow> (\<forall>z. z \<notin> A \<longrightarrow> h_word s' z = h_word s z \<and> h_pprev s' z = h_pprev s z)"

lemma hframe_sets:
  "p \<in> A \<Longrightarrow> hframe A s (set_word p v s)" "p \<in> A \<Longrightarrow> hframe A s (set_pprev p v s)"
  by (auto simp: hframe_def)

lemma hlist_links:
  assumes "hlist s h (xs @ x # ys)"
  shows "h_word s h \<in> set (xs @ [x])" and "h_pprev s x \<in> set (h # xs)" and "h_word s x \<in> insert 0 (set ys)"
proof -
  have q: "last (h # xs) \<in> set (h # xs)"
    by (rule last_in_set) simp
  show "h_pprev s x \<in> set (h # xs)" "h_word s x \<in> insert 0 (set ys)"
    using hlist_split(1) [OF assms] q by (cases ys; simp)+
  show "h_word s h \<in> set (xs @ [x])"
    using assms by (cases xs) (simp_all add: hlist_def)
qed

lemma hlist_frames:
  assumes "hlist s h (xs @ x # ys)"
  shows "hframe (set (h # xs @ x # ys)) s (hlist_del x s)"
    and "hframe (set (h # xs @ x # ys)) s (hlist_del_init x s)"
    and "hframe (set (n # h # xs @ x # ys)) s (hlist_add_head n h s)"
    and "hframe (set (n # h # xs @ x # ys)) s (hlist_add_before n x s)"
    and "hframe (set (n # h # xs @ x # ys)) s (hlist_add_behind n x s)"
    and "hframe (set (n # h # xs @ x # ys)) s (hlist_move_list h n s)"
proof -
  note k = hlist_links [OF assms]
  have d: "h_word (raw_hlist_del x s) z = h_word s z \<and> h_pprev (raw_hlist_del x s) z = h_pprev s z"
    if "z \<notin> set (h # xs @ x # ys)" for z
    using k(2,3) that by (auto simp: raw_hlist_del_def Let_def)
  then show "hframe (set (h # xs @ x # ys)) s (hlist_del x s)" "hframe (set (h # xs @ x # ys)) s (hlist_del_init x s)"
    by (auto simp: hframe_def hlist_del_def hlist_del_init_def INIT_HLIST_NODE_def)
  show "hframe (set (n # h # xs @ x # ys)) s (hlist_add_head n h s)"
    "hframe (set (n # h # xs @ x # ys)) s (hlist_add_before n x s)"
    "hframe (set (n # h # xs @ x # ys)) s (hlist_add_behind n x s)"
    "hframe (set (n # h # xs @ x # ys)) s (hlist_move_list h n s)"
    using k by (auto simp: hframe_def hlist_add_head_def hlist_add_before_def hlist_add_behind_def
        hlist_move_list_def Let_def)
qed

text \<open>An empty list: nothing is written for the first node that is not there.\<close>

lemma hlist_frames_empty:
  assumes "hlist s h []"
  shows "hframe {n, h} s (hlist_add_head n h s)" and "hframe {n, h} s (hlist_move_list h n s)"
  using assms by (auto simp: hlist_def hframe_def hlist_add_head_def hlist_move_list_def Let_def)

section \<open>Loops over a hash list\<close>

text \<open>
  An entry at address 0 would end the loops over entries early, so the offset of the member must not
  be the address of a node.
\<close>

definition hplain_inv :: "u64 \<Rightarrow> (u64 \<Rightarrow> 'a hstate \<Rightarrow> 'a hstate) \<Rightarrow> u64 \<Rightarrow> u64 list \<Rightarrow> u64 \<Rightarrow> 'a hstate \<Rightarrow> bool" where
  "hplain_inv off body h ps p st \<longleftrightarrow>
     keeps hlist body h \<and> (\<exists>as. hlist (fst st) h (as @ ps)) \<and> off \<notin> set ps \<and> p = hlist_entry_safe off (hd (ps @ [0]))"

definition hsafe_inv ::
  "u64 \<Rightarrow> (u64 \<Rightarrow> 'a hstate \<Rightarrow> 'a hstate) \<Rightarrow> u64 \<Rightarrow> u64 list \<Rightarrow> u64 \<times> u64 \<Rightarrow> 'a hstate \<Rightarrow> bool" where
  "hsafe_inv off work h ps = (\<lambda>(p, n) st.
     keeps_rest hlist work h \<and> (\<exists>as. hlist (fst st) h (as @ ps)) \<and> off \<notin> set ps \<and>
     p = hlist_entry_safe off (hd (ps @ [0])) \<and> (ps \<noteq> [] \<longrightarrow> n = hd (tl ps @ [0])))"

lemma hlist_following:
  assumes "hlist s h (as @ x # bs)"
  shows "h_word s x = hd (bs @ [0])" and "x \<noteq> 0"
  using hlist_split(1) [OF assms] by (cases bs; simp)+

lemma hlist_entry_0 [simp]: "hlist_entry_safe 0 x = x" "hlist_entry 0 x = x"
  by (simp_all add: hlist_entry_safe_def hlist_entry_def)

lemma hlist_first: "hlist s h xs \<Longrightarrow> h_word s h = hd (xs @ [0])"
  by (cases xs) (auto simp: hlist_def)

interpretation hplain: walk "\<lambda>p. p = 0" "\<lambda>p s. hlist_entry_safe off (h_word s (p + off))" body
    "\<lambda>x. body (hlist_entry off x)" "hplain_inv off body h"
  for off h :: u64 and body :: "u64 \<Rightarrow> 'a hstate \<Rightarrow> 'a hstate"
proof
  fix x ps p and st :: "'a hstate"
  assume i: "hplain_inv off body h (x # ps) p st"
  then obtain as where r: "hlist (fst st) h (as @ x # ps)" and k: "keeps hlist body h" and o: "off \<notin> set (x # ps)"
    by (auto simp: hplain_inv_def)
  have p: "p = hlist_entry off x" "p \<noteq> 0" "p + off = x"
    using i hlist_following(2) [OF r] o by (auto simp: hplain_inv_def hlist_entry_safe_def hlist_entry_def)
  then show "p \<noteq> 0 \<and> body p st = body (hlist_entry off x) st"
    by simp
  have r': "hlist (fst (body p st)) h (as @ x # ps)"
    using r k unfolding keeps_def by blast
  moreover have "\<exists>as. hlist (fst (body p st)) h (as @ ps)"
    using r' by (intro exI [of _ "as @ [x]"]) simp
  ultimately show "hplain_inv off body h ps (hlist_entry_safe off (h_word (fst (body (hlist_entry off x) st)) (p + off)))
      (body (hlist_entry off x) st)"
    using k o hlist_following(1) [OF r'] p by (simp add: hplain_inv_def)
qed (simp add: hplain_inv_def hlist_entry_safe_def)

interpretation hsafe: walk "\<lambda>(p, n). p = 0"
    "\<lambda>(p, n) s. (hlist_entry_safe off n, if hlist_entry_safe off n \<noteq> 0 then h_word s (hlist_entry_safe off n + off) else n)"
    "\<lambda>(p, n). body p" "\<lambda>x. body (hlist_entry off x)" "hsafe_inv off (\<lambda>x. body (hlist_entry off x)) h"
  for off h :: u64 and body :: "u64 \<Rightarrow> 'a hstate \<Rightarrow> 'a hstate"
proof
  fix x ps c and st :: "'a hstate"
  let ?work = "\<lambda>x. body (hlist_entry off x)"
  assume i: "hsafe_inv off ?work h (x # ps) c st"
  obtain p n where c: "c = (p, n)"
    by (cases c)
  from i obtain as where r: "hlist (fst st) h (as @ x # ps)" and k: "keeps_rest hlist ?work h"
    and o: "off \<notin> set (x # ps)" and n: "n = hd (ps @ [0])"
    by (auto simp: hsafe_inv_def c)
  have p: "p = hlist_entry off x" "p \<noteq> 0"
    using i hlist_following(2) [OF r] o by (auto simp: hsafe_inv_def hlist_entry_safe_def hlist_entry_def c)
  then show "\<not> (case c of (p, n) \<Rightarrow> p = 0) \<and> (case c of (p, n) \<Rightarrow> body p) st = ?work x st"
    by (simp add: c)
  obtain cs where r': "hlist (fst (?work x st)) h (cs @ ps)"
    using r k unfolding keeps_rest_def by blast
  have "hlist_entry_safe off n \<noteq> 0 \<and> h_word (fst (?work x st)) (hlist_entry_safe off n + off) = hd (tl ps @ [0])" if "ps \<noteq> []"
    using hlist_following [of _ h cs "hd ps" "tl ps"] r' that o n
    by (cases ps) (auto simp: hlist_entry_safe_def hlist_entry_def)
  then show "hsafe_inv off ?work h ps ((case c of (p, n) \<Rightarrow> \<lambda>s. (hlist_entry_safe off n,
      if hlist_entry_safe off n \<noteq> 0 then h_word s (hlist_entry_safe off n + off) else n)) (fst (?work x st))) (?work x st)"
    using k o n r' by (auto simp: hsafe_inv_def c)
qed (auto simp: hsafe_inv_def hlist_entry_safe_def)

lemma hplain_visits:
  assumes "hlist (fst st) h (as @ ps)" and "keeps hlist body h" and "off \<notin> set ps"
  shows "for_loop (\<lambda>p. p = 0) (\<lambda>p s. hlist_entry_safe off (h_word s (p + off))) body
      (hlist_entry_safe off (hd (ps @ [0]))) st = Some (fold (\<lambda>x. body (hlist_entry off x)) ps st)"
  using assms by (intro hplain.completes [of _ _ h]) (auto simp: hplain_inv_def)

lemma hlist_loops:
  assumes "hlist (fst st) h (xs @ x # ys)" and "keeps hlist body h" and "off \<notin> set (xs @ x # ys)"
  shows "hlist_for_each body h st = Some (fold body (xs @ x # ys) st)"
    and "hlist_for_each_entry off body h st = Some (fold (\<lambda>x. body (hlist_entry off x)) (xs @ x # ys) st)"
    and "hlist_for_each_entry_continue off body (hlist_entry off x) st =
      Some (fold (\<lambda>x. body (hlist_entry off x)) ys st)"
    and "hlist_for_each_entry_from off body (hlist_entry off x) st =
      Some (fold (\<lambda>x. body (hlist_entry off x)) (x # ys) st)"
proof -
  have r: "hlist (fst st) h ([] @ xs @ x # ys)" "hlist (fst st) h ((xs @ [x]) @ ys)"
    using assms(1) by simp_all
  have o: "off \<notin> set (xs @ x # ys)" "off \<notin> set ys" "off \<notin> set (x # ys)" "0 \<notin> set (xs @ x # ys)"
    using assms(3) hlist_nonzero [OF assms(1), of 0] by auto
  note f = hlist_first [OF assms(1)] hlist_following [OF assms(1)]
  show "hlist_for_each body h st = Some (fold body (xs @ x # ys) st)"
    using hplain_visits [OF r(1) assms(2) o(4)] f(1)
    by (simp add: hlist_for_each_def)
  show "hlist_for_each_entry off body h st = Some (fold (\<lambda>x. body (hlist_entry off x)) (xs @ x # ys) st)"
    unfolding hlist_for_each_entry_def f(1) by (rule hplain_visits [OF r(1) assms(2) o(1)])
  show "hlist_for_each_entry_continue off body (hlist_entry off x) st =
      Some (fold (\<lambda>x. body (hlist_entry off x)) ys st)"
    using hplain_visits [OF r(2) assms(2) o(2)] f(2) by (simp add: hlist_for_each_entry_continue_def hlist_entry_def)
  show "hlist_for_each_entry_from off body (hlist_entry off x) st =
      Some (fold (\<lambda>x. body (hlist_entry off x)) (x # ys) st)"
    using hplain_visits [OF assms(1,2) o(3)] f(3) by (simp add: hlist_for_each_entry_from_def hlist_entry_safe_def)
qed

lemma hlist_whole_loops:
  assumes "hlist (fst st) h zs" and "keeps hlist body h" and "off \<notin> set zs"
  shows "hlist_for_each body h st = Some (fold body zs st)"
    and "hlist_for_each_entry off body h st = Some (fold (\<lambda>x. body (hlist_entry off x)) zs st)"
proof -
  have r: "hlist (fst st) h ([] @ zs)" and z: "0 \<notin> set zs"
    using assms(1) hlist_nonzero [OF assms(1), of 0] by auto
  show "hlist_for_each body h st = Some (fold body zs st)"
    using hplain_visits [OF r assms(2) z] hlist_first [OF assms(1)] by (simp add: hlist_for_each_def)
  show "hlist_for_each_entry off body h st = Some (fold (\<lambda>x. body (hlist_entry off x)) zs st)"
    unfolding hlist_for_each_entry_def hlist_first [OF assms(1)] by (rule hplain_visits [OF r assms(2,3)])
qed

lemma hlist_safe_loop:
  assumes "hlist (fst st) h xs" and "keeps_rest hlist (\<lambda>x. body (hlist_entry off x)) h" and "off \<notin> set xs"
  shows "hlist_for_each_entry_safe off body n h st = Some (fold (\<lambda>x. body (hlist_entry off x)) xs st)"
proof -
  have "\<exists>as. hlist (fst st) h (as @ xs)"
    using assms(1) by (intro exI [of _ "[]"]) simp
  moreover have "hlist_entry_safe off (hd xs) + off = hd xs \<and> hlist_entry_safe off (hd xs) \<noteq> 0 \<and> h_word (fst st) (hd xs) = hd (tl xs @ [0])" if "xs \<noteq> []"
    using hlist_following [of "fst st" h "[]" "hd xs" "tl xs"] assms(1,3) that
    by (cases xs) (auto simp: hlist_entry_safe_def hlist_entry_def)
  ultimately show ?thesis
    unfolding hlist_for_each_entry_safe_def Let_def hlist_first [OF assms(1)] using assms(2,3)
    by (intro hsafe.completes [of _ _ h]) (auto simp: hsafe_inv_def)
qed

lemma hlist_safe_node: "hlist_for_each_safe body n h st = hlist_for_each_entry_safe 0 body n h st"
  by (simp add: hlist_for_each_safe_def hlist_for_each_entry_safe_def cong: if_cong)

lemma hlist_deleting:
  assumes "hlist s h xs"
  shows "\<exists>s'. hlist_for_each_safe (\<lambda>x (s, ps). (hlist_del x s, ps @ [x])) n h (s, []) = Some (s', xs) \<and> hlist s' h []"
proof -
  let ?body = "\<lambda>x (s, ps). (hlist_del x s, ps @ [x])"
  let ?f = "fold ?body"
  have "keeps_rest hlist ?body h"
    using hlist_dels(1) by (fastforce simp: keeps_rest_def)
  then have "hlist_for_each_safe ?body n h (s, []) = Some (?f xs (s, []))"
    using hlist_safe_loop [of "(s, [])" h xs ?body 0 n] hlist_nonzero [OF assms, of 0] assms
    by (auto simp: hlist_safe_node)
  moreover have "hlist (fst (?f xs (s, ps))) h []" for ps
    using assms
  proof (induction xs arbitrary: s ps)
    case (Cons x xs)
    from hlist_dels(1) [of s h "[]" x xs] Cons show ?case by simp
  qed simp
  moreover have "?f xs (s, []) = (fst (?f xs (s, [])), xs)"
    by (simp add: prod_eq_iff fold_log)
  ultimately show ?thesis by auto
qed

end
