(* ===== verification/List_Properties.thy ===== *)
theory List_Properties
  imports Hlist
begin

text \<open>
  The properties of the lists of \<open>linux/list.h\<close>: what every operation does to the list of a head, what
  it leaves alone, and that the loops over a list end.
\<close>

section \<open>An example\<close>

text \<open>The list of the head \<open>0x10\<close> with three entries, and an empty list at \<open>0x50\<close>.\<close>

definition example_store :: lstore where
  "example_store =
     stmts [INIT_LIST_HEAD 0x10, INIT_LIST_HEAD 0x50, list_add_tail 0x20 0x10, list_add_tail 0x30 0x10,
            list_add_tail 0x40 0x10, INIT_LIST_HEAD 0x80, list_add_tail 0x90 0x80] \<lparr>l_next = (\<lambda>_. 0), l_prev = (\<lambda>_. 0)\<rparr>"

lemmas eval_store = example_store_def list_add_tail_def raw_list_add_def raw_list_add_valid_def INIT_LIST_HEAD_def
  dlist_def circ_def link_def

lemma example_lists: "dlist example_store 0x10 [0x20, 0x30, 0x40]" "dlist example_store 0x50 []"
  "dlist example_store 0x80 [0x90]"
  by (simp_all add: eval_store)

section \<open>Entries come and go\<close>

lemma dlist_add_before:
  assumes "dlist s h (xs @ e # ys)" and "n \<notin> set (h # xs @ e # ys)"
  shows "dlist (list_add_tail n e s) h (xs @ n # e # ys)"
  using dlist_insert [OF assms] dlist_entry(2) [OF assms(1)] by (simp add: list_add_tail_def)

text \<open>
  Adding puts the new entry right after or right before the node it is given, which is the front
  or the back of the list if that node is the head.  Every way of deleting takes out the entry and
  nothing else and keeps the order of the rest; the two \<open>init\<close> variants leave the entry as an empty list of
  its own, \<open>list_del\<close> leaves both of its pointers poisoned.  Replacing puts the new entry in the place
  of the old one.  A list that shares no node with this one is not changed by adding or deleting.
\<close>

lemma list_entry_operations_part:
  assumes "dlist s h (xs @ e # ys)" and "n \<notin> set (h # xs @ e # ys)"
    and "dlist s k ws" and "set (k # ws) \<inter> set (n # h # xs @ e # ys) = {}"
  shows "dlist (list_add n h s) h (n # xs @ e # ys) \<and> dlist (list_add_tail n h s) h (xs @ e # ys @ [n]) \<and>
    dlist (list_add n e s) h (xs @ e # n # ys) \<and> dlist (list_add_tail n e s) h (xs @ n # e # ys) \<and>
    dlist (list_del e s) h (xs @ ys) \<and> dlist (raw_list_del_clearprev e s) h (xs @ ys) \<and>
    dlist (list_del_init e s) h (xs @ ys) \<and> dlist (list_del_init e s) e [] \<and>
    dlist (list_del_init_careful e s) h (xs @ ys) \<and> dlist (list_del_init_careful e s) e [] \<and>
    l_next (list_del e s) e = LIST_POISON1 \<and> l_prev (list_del e s) e = LIST_POISON2 \<and>
    dlist (list_replace e n s) h (xs @ n # ys) \<and> dlist (list_replace_init e n s) h (xs @ n # ys) \<and>
    dlist (list_replace_init e n s) e [] \<and>
    dlist (list_add n h s) k ws \<and> dlist (list_add_tail n h s) k ws \<and> dlist (list_del e s) k ws"
proof (intro conjI)
  have new: "n \<notin> set (h # (xs @ e # ys))"
    using assms(2) by simp
  note add = dlist_add [OF assms(1) new]
  note leave = dlist_leave [OF assms(1)]
  show "dlist (list_add n h s) h (n # xs @ e # ys)" "dlist (list_add_tail n h s) h (xs @ e # ys @ [n])"
    using add(1,2) by simp_all
  show "dlist (list_add n e s) h (xs @ e # n # ys)" "dlist (list_add_tail n e s) h (xs @ n # e # ys)"
    by (rule dlist_add_behind [OF assms(1,2)], rule dlist_add_before [OF assms(1,2)])
  show "dlist (list_del e s) h (xs @ ys)" "dlist (list_del_init e s) h (xs @ ys)"
    "dlist (list_del_init_careful e s) h (xs @ ys)" "dlist (raw_list_del_clearprev e s) h (xs @ ys)"
    by (rule leave(1) [OF leave_frames(1)], rule leave(1) [OF leave_frames(2)],
        rule leave(1) [OF leave_frames(3)], rule leave(1) [OF leave_frames(4)])
  show "dlist (list_del_init e s) e []" "dlist (list_del_init_careful e s) e []"
    by (rule dlist_self)+
  show "l_next (list_del e s) e = LIST_POISON1" "l_prev (list_del e s) e = LIST_POISON2"
    by (simp_all add: list_del_def)
  show r: "dlist (list_replace e n s) h (xs @ n # ys)"
    by (rule dlist_replace [OF assms(1,2)])
  have "e \<notin> set (h # xs @ n # ys)"
    using dlist_distinct [OF assms(1)] assms(2) by auto
  from dlist_init_other [OF r this] show "dlist (list_replace_init e n s) h (xs @ n # ys)"
    by (simp add: list_replace_init_def)
  show "dlist (list_replace_init e n s) e []"
    by (simp add: list_replace_init_def dlist_init)
  show "dlist (list_add n h s) k ws" "dlist (list_add_tail n h s) k ws" "dlist (list_del e s) k ws"
    using assms(4) by (auto intro!: dlist_frame [OF add(3) _ assms(3)] dlist_frame [OF add(4) _ assms(3)]
        dlist_frame [OF leave(2) [OF leave_frames(1)] _ assms(3)])
qed


section \<open>Entries change places\<close>

text \<open>
  Moving an entry to the front or to the back keeps the order of the others, within one list and
  from one list to another.  Swapping exchanges two entries wherever they stand, adjacent ones and
  either order of the arguments included.  A bulk move takes a whole section of the list to its end, also when it is there
  already.  Rotating left moves the first entry to the end and does nothing to an empty list; rotating
  to the front makes the entry the first one and keeps the cyclic order.
\<close>

lemma list_rearrangements_part:
  assumes "dlist s h (xs @ e # ys @ f # zs)" and "dlist s k ws"
    and "set (k # ws) \<inter> set (h # xs @ e # ys @ f # zs) = {}"
  shows "dlist (list_move e h s) h (e # xs @ ys @ f # zs) \<and> dlist (list_move_tail e h s) h (xs @ ys @ f # zs @ [e]) \<and>
    dlist (list_move e k s) h (xs @ ys @ f # zs) \<and> dlist (list_move e k s) k (e # ws) \<and>
    dlist (list_move_tail e k s) h (xs @ ys @ f # zs) \<and> dlist (list_move_tail e k s) k (ws @ [e]) \<and>
    dlist (list_swap e f s) h (xs @ f # ys @ e # zs) \<and> dlist (list_swap f e s) h (xs @ f # ys @ e # zs) \<and>
    dlist (list_bulk_move_tail h e f s) h (xs @ zs @ e # ys @ [f]) \<and>
    dlist (list_rotate_left h s) h (rotate1 (xs @ e # ys @ f # zs)) \<and> dlist (list_rotate_left k s) k (rotate1 ws) \<and>
    dlist (list_rotate_to_front e h s) h (e # ys @ f # zs @ xs)"
proof (intro conjI)
  have disj: "set (h # xs @ e # (ys @ f # zs)) \<inter> set (k # ws) = {}"
    using assms(3) by auto
  have rot: "dlist (list_rotate_left h' s) h' (rotate1 vs)" if "dlist s h' vs" for h' vs
    using that dlist_rotations [of s h'] by (cases vs) auto
  show "dlist (list_move e h s) h (e # xs @ ys @ f # zs)" "dlist (list_move_tail e h s) h (xs @ ys @ f # zs @ [e])"
    using dlist_move [OF assms(1)] by simp_all
  show "dlist (list_move e k s) h (xs @ ys @ f # zs)" "dlist (list_move e k s) k (e # ws)"
    "dlist (list_move_tail e k s) h (xs @ ys @ f # zs)" "dlist (list_move_tail e k s) k (ws @ [e])"
    using dlist_move_other [OF assms(1,2) disj] by simp_all
  show "dlist (list_swap e f s) h (xs @ f # ys @ e # zs)"
    by (rule dlist_swap [OF assms(1)])
  show "dlist (list_swap f e s) h (xs @ f # ys @ e # zs)"
    by (rule dlist_swap' [OF assms(1)])
  show "dlist (list_bulk_move_tail h e f s) h (xs @ zs @ e # ys @ [f])"
    using dlist_bulk_move [of s h xs "e # ys @ [f]" zs] assms(1) by simp
  show "dlist (list_rotate_left h s) h (rotate1 (xs @ e # ys @ f # zs))" "dlist (list_rotate_left k s) k (rotate1 ws)"
    by (rule rot [OF assms(1)], rule rot [OF assms(2)])
  show "dlist (list_rotate_to_front e h s) h (e # ys @ f # zs @ xs)"
    using dlist_rotate_to_front [OF assms(1)] by simp
qed

text \<open>
  C29. Adding puts the new entry right after or right before the node it is given, which is the front or the back of the list if that
  node is the head.  Every way of deleting takes out the entry and nothing else and keeps the order of the rest; the two \<open>init\<close> variants
  leave the entry as an empty list of its own, \<open>list_del\<close> leaves both of its pointers poisoned.  Replacing puts the new entry in the
  place of the old one.  A list that shares no node with this one is not changed.  Moving keeps the order of the others, within one
  list and from one to another; swapping exchanges two entries wherever they stand, adjacent ones and either order of the arguments
  included; a bulk move takes a section to the end; rotating left moves the first entry to the end, rotating to the front makes the
  entry the first one and keeps the cyclic order.
\<close>

theorem list_operations:
  assumes "dlist s h (xs @ e # ys)"
    and "n \<notin> set (h # xs @ e # ys)"
    and "dlist s k ws"
    and "set (k # ws) \<inter> set (n # h # xs @ e # ys) = {}"
    and "dlist s' h' (xs' @ e' # ys' @ f # zs)"
    and "dlist s' k' ws'"
    and "set (k' # ws') \<inter> set (h' # xs' @ e' # ys' @ f # zs) = {}"
  shows "(dlist (list_add n h s) h (n # xs @ e # ys) \<and> dlist (list_add_tail n h s) h (xs @ e # ys @ [n]) \<and>
    dlist (list_add n e s) h (xs @ e # n # ys) \<and> dlist (list_add_tail n e s) h (xs @ n # e # ys) \<and>
    dlist (list_del e s) h (xs @ ys) \<and> dlist (raw_list_del_clearprev e s) h (xs @ ys) \<and>
    dlist (list_del_init e s) h (xs @ ys) \<and> dlist (list_del_init e s) e [] \<and>
    dlist (list_del_init_careful e s) h (xs @ ys) \<and> dlist (list_del_init_careful e s) e [] \<and>
    l_next (list_del e s) e = LIST_POISON1 \<and> l_prev (list_del e s) e = LIST_POISON2 \<and>
    dlist (list_replace e n s) h (xs @ n # ys) \<and> dlist (list_replace_init e n s) h (xs @ n # ys) \<and>
    dlist (list_replace_init e n s) e [] \<and>
    dlist (list_add n h s) k ws \<and> dlist (list_add_tail n h s) k ws \<and> dlist (list_del e s) k ws) \<and>
    (dlist (list_move e' h' s') h' (e' # xs' @ ys' @ f # zs) \<and> dlist (list_move_tail e' h' s') h' (xs' @ ys' @ f # zs @ [e']) \<and>
    dlist (list_move e' k' s') h' (xs' @ ys' @ f # zs) \<and> dlist (list_move e' k' s') k' (e' # ws') \<and>
    dlist (list_move_tail e' k' s') h' (xs' @ ys' @ f # zs) \<and> dlist (list_move_tail e' k' s') k' (ws' @ [e']) \<and>
    dlist (list_swap e' f s') h' (xs' @ f # ys' @ e' # zs) \<and> dlist (list_swap f e' s') h' (xs' @ f # ys' @ e' # zs) \<and>
    dlist (list_bulk_move_tail h' e' f s') h' (xs' @ zs @ e' # ys' @ [f]) \<and>
    dlist (list_rotate_left h' s') h' (rotate1 (xs' @ e' # ys' @ f # zs)) \<and> dlist (list_rotate_left k' s') k' (rotate1 ws') \<and>
    dlist (list_rotate_to_front e' h' s') h' (e' # ys' @ f # zs @ xs'))"
  by (rule conjI [OF list_entry_operations_part [OF assms(1,2,3,4)] list_rearrangements_part [OF assms(5,6,7)]])

theorem list_operations_witness:
  "dlist (list_add 0x60 0x30 example_store) 0x10 [0x20, 0x30, 0x60, 0x40] \<and>
   dlist (list_del 0x30 example_store) 0x10 [0x20, 0x40] \<and>
   dlist (list_move 0x30 0x50 example_store) 0x50 [0x30]"
  using list_operations [where s = example_store and h = "0x10" and xs = "[0x20]" and e = "0x30" and ys = "[0x40]" and
      n = "0x60" and k = "0x50" and ws = "[]" and s' = example_store and h' = "0x10" and xs' = "[0x20]" and e' = "0x30" and ys' = "[]"
      and f = "0x40" and zs = "[]" and k' = "0x50" and ws' = "[]"]
    example_lists by simp

section \<open>Lists are cut and joined\<close>

text \<open>
  C30. \<open>list_cut_position\<close> moves everything up to and including an entry to another head, \<open>list_cut_before\<close>
  everything before it (everything there is if it is given the head).  The early returns of \<open>list_cut_position\<close>: given
  the head, it only initialises the other list; on an empty list, and on a list of one entry that is not the one given, it
  changes nothing at all.  Splicing puts the entries of one list, in order, before or after those of another, and
  the \<open>init\<close> variants leave the first head empty; splicing an empty list, with any of the four, changes nothing at
  all.  Splicing what was cut off back in front restores the list, and the head it had been cut to is empty.
\<close>

theorem list_cut_and_splice:
  assumes "dlist s h (xs @ e # ys)" and "dlist s l zs" and "set (h # xs @ e # ys) \<inter> set (l # zs) = {}"
    and "dlist s k []" and "dlist s j [a]" and "x \<noteq> a" and "x \<noteq> j"
  shows "dlist (list_cut_position l h e s) l (xs @ [e]) \<and> dlist (list_cut_position l h e s) h ys \<and>
    list_cut_position l h h s = INIT_LIST_HEAD l s \<and>
    dlist (list_cut_position l h h s) l [] \<and> dlist (list_cut_position l h h s) h (xs @ e # ys) \<and>
    list_cut_position l k x s = s \<and> list_cut_position l j x s = s \<and>
    dlist (list_cut_before l h e s) l xs \<and> dlist (list_cut_before l h e s) h (e # ys) \<and>
    dlist (list_cut_before l h h s) l (xs @ e # ys) \<and> dlist (list_cut_before l h h s) h [] \<and>
    dlist (list_splice h l s) l (xs @ e # ys @ zs) \<and> dlist (list_splice_tail h l s) l (zs @ xs @ e # ys) \<and>
    dlist (list_splice_init h l s) l (xs @ e # ys @ zs) \<and> dlist (list_splice_init h l s) h [] \<and>
    dlist (list_splice_tail_init h l s) l (zs @ xs @ e # ys) \<and> dlist (list_splice_tail_init h l s) h [] \<and>
    list_splice k l s = s \<and> list_splice_tail k l s = s \<and>
    list_splice_init k l s = s \<and> list_splice_tail_init k l s = s \<and>
    dlist (list_splice_init l h (list_cut_position l h e s)) h (xs @ e # ys) \<and>
    dlist (list_splice_init l h (list_cut_position l h e s)) l []"
proof (intro conjI)
  have l: "l \<notin> set (h # xs @ e # ys)"
    using assms(3) by auto
  show cut: "dlist (list_cut_position l h e s) l (xs @ [e])" "dlist (list_cut_position l h e s) h ys"
    by (rule dlist_cut_position [OF assms(1) l])+
  show "list_cut_position l h h s = INIT_LIST_HEAD l s"
    by (rule list_cut_position_head [OF assms(1)]) simp
  show "dlist (list_cut_position l h h s) l []" "dlist (list_cut_position l h h s) h (xs @ e # ys)"
    using dlist_cut_position_head [OF assms(1) _ l] by simp_all
  show "list_cut_position l k x s = s" "list_cut_position l j x s = s"
    by (rule list_cut_position_empty [OF assms(4)], rule list_cut_position_singular [OF assms(5-7)])
  show "dlist (list_cut_before l h e s) l xs" "dlist (list_cut_before l h e s) h (e # ys)"
    using dlist_cut_before [OF assms(1) l] by simp_all
  show "dlist (list_cut_before l h h s) l (xs @ e # ys)" "dlist (list_cut_before l h h s) h []"
    using dlist_cut_before [of s h "xs @ e # ys" "[]" l] assms(1) l by simp_all
  show "dlist (list_splice h l s) l (xs @ e # ys @ zs)" "dlist (list_splice_tail h l s) l (zs @ xs @ e # ys)"
    "dlist (list_splice_init h l s) l (xs @ e # ys @ zs)" "dlist (list_splice_init h l s) h []"
    "dlist (list_splice_tail_init h l s) l (zs @ xs @ e # ys)" "dlist (list_splice_tail_init h l s) h []"
    using dlist_splices [OF assms(1-3)] by simp_all
  show "list_splice k l s = s" "list_splice_tail k l s = s" "list_splice_init k l s = s" "list_splice_tail_init k l s = s"
    by (rule splice_empty [OF assms(4)])+
  have "set (l # xs @ [e]) \<inter> set (h # ys) = {}"
    using l dlist_distinct [OF assms(1)] by auto
  from dlist_splices(3,5) [OF cut this]
  show "dlist (list_splice_init l h (list_cut_position l h e s)) h (xs @ e # ys)"
    "dlist (list_splice_init l h (list_cut_position l h e s)) l []"
    by simp_all
qed

theorem list_cut_and_splice_witness:
  "dlist (list_cut_position 0x50 0x10 0x30 example_store) 0x50 [0x20, 0x30] \<and>
   dlist (list_splice_init 0x50 0x10 (list_cut_position 0x50 0x10 0x30 example_store)) 0x10 [0x20, 0x30, 0x40] \<and>
   list_cut_position 0x50 0x80 0x20 example_store = example_store \<and> list_splice 0x50 0x80 example_store = example_store"
  using list_cut_and_splice [of example_store "0x10" "[0x20]" "0x30" "[0x40]" "0x50" "[]" "0x50" "0x80" "0x90" "0x20"]
    list_cut_and_splice [of example_store "0x10" "[0x20]" "0x30" "[0x40]" "0x80" "[0x90]" "0x50" "0x80" "0x90" "0x20"]
    example_lists by simp

section \<open>Loops over a list\<close>

text \<open>
  The loops over a whole list, empty or not, and the tests.
\<close>

lemma whole_iteration_part:
  assumes "dlist (fst st') h zs" and "keeps dlist body h"
  shows "list_for_each body h st' = Some (fold body zs st') \<and>
    list_for_each_prev body h st' = Some (fold body (rev zs) st') \<and>
    list_for_each_entry off body h st' = Some (fold (\<lambda>x. body (list_entry off x)) zs st') \<and>
    list_for_each_entry_reverse off body h st' = Some (fold (\<lambda>x. body (list_entry off x)) (rev zs) st') \<and>
    list_for_each_entry_continue off body (list_prepare_entry off 0 h) h st' =
      Some (fold (\<lambda>x. body (list_entry off x)) zs st') \<and>
    (list_empty h (fst st') \<longleftrightarrow> zs = []) \<and> (list_empty_careful h (fst st') \<longleftrightarrow> zs = []) \<and>
    (list_is_singular h (fst st') \<longleftrightarrow> length zs = 1) \<and>
    list_first_entry_or_null off h (fst st') = (case zs of [] \<Rightarrow> 0 | z # _ \<Rightarrow> list_entry off z)"
proof (intro conjI)
  note w = whole_walks [OF assms] and w0 = whole_walks [OF assms, of 0]
  show "list_for_each_entry off body h st' = Some (fold (\<lambda>x. body (list_entry off x)) zs st')"
    "list_for_each_entry_reverse off body h st' = Some (fold (\<lambda>x. body (list_entry off x)) (rev zs) st')"
    "list_for_each_entry_continue off body (list_prepare_entry off 0 h) h st' =
      Some (fold (\<lambda>x. body (list_entry off x)) zs st')"
    by (rule w)+
  show "list_for_each body h st' = Some (fold body zs st')" "list_for_each_prev body h st' = Some (fold body (rev zs) st')"
    using w0(1,2) by (simp_all add: node_loops list_entry_def)
qed (rule dlist_list_empty [OF assms(1)] dlist_tests [OF assms(1)])+

text \<open>The loops that start on an entry or behind it.\<close>

lemma entry_iteration_part:
  assumes "dlist (fst st) h (xs @ e # ys)" and "keeps dlist body h"
  shows "list_for_each_continue body e h st = Some (fold body ys st) \<and>
    list_for_each_entry_continue off body (list_entry off e) h st = Some (fold (\<lambda>x. body (list_entry off x)) ys st) \<and>
    list_for_each_entry_continue_reverse off body (list_entry off e) h st =
      Some (fold (\<lambda>x. body (list_entry off x)) (rev xs) st) \<and>
    list_for_each_entry_from off body (list_entry off e) h st =
      Some (fold (\<lambda>x. body (list_entry off x)) (e # ys) st) \<and>
    list_for_each_entry_from_reverse off body (list_entry off e) h st =
      Some (fold (\<lambda>x. body (list_entry off x)) (e # rev xs) st) \<and>
    (list_is_first e h (fst st) \<longleftrightarrow> xs = []) \<and> (list_is_last e h (fst st) \<longleftrightarrow> ys = []) \<and>
    list_first_entry off h (fst st) = list_entry off (hd (xs @ [e])) \<and>
    list_last_entry off h (fst st) = list_entry off (last (e # ys))"
proof (intro conjI)
  note e = entry_walks [OF assms]
  show "list_for_each_entry_continue off body (list_entry off e) h st = Some (fold (\<lambda>x. body (list_entry off x)) ys st)"
    "list_for_each_entry_continue_reverse off body (list_entry off e) h st =
      Some (fold (\<lambda>x. body (list_entry off x)) (rev xs) st)"
    "list_for_each_entry_from off body (list_entry off e) h st =
      Some (fold (\<lambda>x. body (list_entry off x)) (e # ys) st)"
    by (rule e)+
  show "list_for_each_entry_from_reverse off body (list_entry off e) h st =
      Some (fold (\<lambda>x. body (list_entry off x)) (e # rev xs) st)"
    using e(6) by simp
  show "list_for_each_continue body e h st = Some (fold body ys st)"
    using e(3) [of 0] by (simp add: node_loops list_entry_def)
  have d: "distinct (h # xs @ e # ys)"
    by (rule dlist_distinct [OF assms(1)])
  note t = dlist_tests [OF assms(1)]
  show "list_is_first e h (fst st) \<longleftrightarrow> xs = []"
    using t(4) [of e] d by (cases xs) auto
  show "list_is_last e h (fst st) \<longleftrightarrow> ys = []"
    using t(5) [of e] d by (cases ys rule: rev_cases) auto
  show "list_first_entry off h (fst st) = list_entry off (hd (xs @ [e]))"
    "list_last_entry off h (fst st) = list_entry off (last (e # ys))"
    using loop_starts(1,2) [OF assms(1), of off] by (cases xs; simp)+
qed

lemma safe_iteration_part:
  assumes "dlist (fst st) h (xs @ e # ys)" and "dlist (fst st') h zs"
    and "keeps_rest dlist (\<lambda>x. body' (list_entry off x)) h"
    and "keeps_rest (\<lambda>s h xs. dlist s h (rev xs)) (\<lambda>x. body'' (list_entry off x)) h"
  shows "list_for_each_entry_safe off body' h st' = Some (fold (\<lambda>x. body' (list_entry off x)) zs st') \<and>
    list_for_each_entry_safe_reverse off body'' h st' = Some (fold (\<lambda>x. body'' (list_entry off x)) (rev zs) st') \<and>
    list_for_each_entry_safe_continue off body' (list_entry off e) h st =
      Some (fold (\<lambda>x. body' (list_entry off x)) ys st) \<and>
    list_for_each_entry_safe_from off body' (list_entry off e) h st =
      Some (fold (\<lambda>x. body' (list_entry off x)) (e # ys) st) \<and>
    (\<exists>s'. list_for_each_safe (\<lambda>x (s, ps). (list_del x s, ps @ [x])) h (fst st', []) = Some (s', zs) \<and> dlist s' h []) \<and>
    (\<exists>s'. list_for_each_prev_safe (\<lambda>x (s, ps). (list_del x s, ps @ [x])) h (fst st', []) = Some (s', rev zs) \<and> dlist s' h [])"
  using safe_walks [OF assms(3)] assms(1,2) safe_walk_reverse [OF assms(2,4)] deleting_loops [OF assms(2)]
  by (intro conjI) blast+

text \<open>
  C31. Every iteration macro over a list, empty or not, ends and runs its body once on each entry, in the order of the list
  or in reverse, if the body leaves the list as it is; \<open>continue\<close> starts behind the given entry, or at the front when it is
  prepared with \<open>NULL\<close>, \<open>from\<close> starts on the entry.  The tests for an empty list, a single entry, the first and the last entry and
  the accessors of the first and last entry agree with the list; the first entry of an empty list is \<open>NULL\<close> where the macro says
  so.  A safe loop, in either direction, does the same even if the body takes the entry out or rearranges what is behind it, as
  long as the entries to come stay; one that deletes every entry visits all of them and leaves the list empty.
\<close>

theorem list_iteration:
  assumes "dlist (fst st) h (xs @ e # ys)"
    and "dlist (fst st') h zs"
    and "keeps dlist body h"
    and "keeps_rest dlist (\<lambda>x. body' (list_entry off x)) h"
    and "keeps_rest (\<lambda>s h xs. dlist s h (rev xs)) (\<lambda>x. body'' (list_entry off x)) h"
  shows "(list_for_each body h st' = Some (fold body zs st') \<and>
    list_for_each_prev body h st' = Some (fold body (rev zs) st') \<and>
    list_for_each_entry off body h st' = Some (fold (\<lambda>x. body (list_entry off x)) zs st') \<and>
    list_for_each_entry_reverse off body h st' = Some (fold (\<lambda>x. body (list_entry off x)) (rev zs) st') \<and>
    list_for_each_entry_continue off body (list_prepare_entry off 0 h) h st' =
      Some (fold (\<lambda>x. body (list_entry off x)) zs st') \<and>
    (list_empty h (fst st') \<longleftrightarrow> zs = []) \<and> (list_empty_careful h (fst st') \<longleftrightarrow> zs = []) \<and>
    (list_is_singular h (fst st') \<longleftrightarrow> length zs = 1) \<and>
    list_first_entry_or_null off h (fst st') = (case zs of [] \<Rightarrow> 0 | z # _ \<Rightarrow> list_entry off z)) \<and>
    (list_for_each_continue body e h st = Some (fold body ys st) \<and>
    list_for_each_entry_continue off body (list_entry off e) h st = Some (fold (\<lambda>x. body (list_entry off x)) ys st) \<and>
    list_for_each_entry_continue_reverse off body (list_entry off e) h st =
      Some (fold (\<lambda>x. body (list_entry off x)) (rev xs) st) \<and>
    list_for_each_entry_from off body (list_entry off e) h st =
      Some (fold (\<lambda>x. body (list_entry off x)) (e # ys) st) \<and>
    list_for_each_entry_from_reverse off body (list_entry off e) h st =
      Some (fold (\<lambda>x. body (list_entry off x)) (e # rev xs) st) \<and>
    (list_is_first e h (fst st) \<longleftrightarrow> xs = []) \<and> (list_is_last e h (fst st) \<longleftrightarrow> ys = []) \<and>
    list_first_entry off h (fst st) = list_entry off (hd (xs @ [e])) \<and>
    list_last_entry off h (fst st) = list_entry off (last (e # ys))) \<and>
    (list_for_each_entry_safe off body' h st' = Some (fold (\<lambda>x. body' (list_entry off x)) zs st') \<and>
    list_for_each_entry_safe_reverse off body'' h st' = Some (fold (\<lambda>x. body'' (list_entry off x)) (rev zs) st') \<and>
    list_for_each_entry_safe_continue off body' (list_entry off e) h st =
      Some (fold (\<lambda>x. body' (list_entry off x)) ys st) \<and>
    list_for_each_entry_safe_from off body' (list_entry off e) h st =
      Some (fold (\<lambda>x. body' (list_entry off x)) (e # ys) st) \<and>
    (\<exists>s'. list_for_each_safe (\<lambda>x (s, ps). (list_del x s, ps @ [x])) h (fst st', []) = Some (s', zs) \<and> dlist s' h []) \<and>
    (\<exists>s'. list_for_each_prev_safe (\<lambda>x (s, ps). (list_del x s, ps @ [x])) h (fst st', []) = Some (s', rev zs) \<and> dlist s' h []))"
  by (intro conjI [OF whole_iteration_part [OF assms(2,3)]] conjI [OF entry_iteration_part [OF assms(1,3)]]
      safe_iteration_part [OF assms(1,2,4,5)])

theorem list_iteration_witness:
  "list_for_each_entry 8 (\<lambda>p (s, acc). (s, acc @ [p])) 0x10 (example_store, []) = Some (example_store, [0x18, 0x28, 0x38]) \<and>
   list_for_each_entry_safe 8 (\<lambda>p (s, ps). (list_del (p + 8) s, ps @ [p])) 0x10 (example_store, []) =
     Some (stmts [list_del 0x20, list_del 0x30, list_del 0x40] example_store, [0x18, 0x28, 0x38])"
  using list_iteration [of "(example_store, [])" "0x10" "[0x20]" "0x30" "[0x40]" "(example_store, [])" "[0x20, 0x30, 0x40]"
      "\<lambda>p (s, acc). (s, acc @ [p])" "\<lambda>p (s, ps). (list_del (p + 8) s, ps @ [p])" 8 "\<lambda>p (s, ps). (list_del (p + 8) s, ps @ [p])"]
    fwd.del_keeps_rest [of "\<lambda>x ps. ps @ [x - 8]" "0x10"] bwd.del_keeps_rest [of "\<lambda>x ps. ps @ [x - 8]" "0x10"]
  by (simp add: example_lists keeps_def list_entry_def split: prod.splits)

section \<open>Hash lists\<close>

definition example_hstore :: hstore where
  "example_hstore =
     stmts [INIT_HLIST_HEAD 0x10, hlist_add_head 0x40 0x10, hlist_add_head 0x30 0x10, hlist_add_head 0x20 0x10]
       \<lparr>h_word = (\<lambda>_. 0), h_pprev = (\<lambda>_. 0)\<rparr>"

lemma example_hlist: "hlist example_hstore 0x10 [0x20, 0x30, 0x40]"
  by (simp add: example_hstore_def INIT_HLIST_HEAD_def hlist_add_head_def hlist_def Let_def)

text \<open>What the operations do to the list, and what they leave alone.\<close>

lemma hlist_operations_part:
  assumes "hlist s h (xs @ x # ys)" and "n \<notin> set (h # xs @ x # ys)" and "n \<noteq> 0"
  shows "hlist (hlist_add_head n h s) h (n # xs @ x # ys) \<and> hlist (hlist_add_before n x s) h (xs @ n # x # ys) \<and>
    hlist (hlist_add_behind n x s) h (xs @ x # n # ys) \<and>
    hlist (hlist_del x s) h (xs @ ys) \<and> hlist (hlist_del_init x s) h (xs @ ys) \<and>
    \<not> hlist_unhashed x s \<and> hlist_unhashed x (hlist_del_init x s) \<and> \<not> hlist_unhashed x (hlist_del x s) \<and>
    hlist_del_init x (hlist_del_init x s) = hlist_del_init x s \<and>
    hlist (hlist_move_list h n s) n (xs @ x # ys) \<and> hlist (hlist_move_list h n s) h [] \<and>
    (hlist_is_singular_node x h s \<longleftrightarrow> xs = [] \<and> ys = []) \<and> \<not> hlist_fake x s \<and>
    hlist_unhashed_lockless x s = hlist_unhashed x s"
proof (intro conjI)
  have n: "n \<notin> set (h # (xs @ x # ys))"
    using assms(2) by simp
  show "hlist (hlist_add_head n h s) h (n # xs @ x # ys)" "hlist (hlist_add_before n x s) h (xs @ n # x # ys)"
    "hlist (hlist_add_behind n x s) h (xs @ x # n # ys)"
    using hlist_adds [OF assms(3)] assms(1) n by blast+
  show "hlist (hlist_del x s) h (xs @ ys)" "hlist (hlist_del_init x s) h (xs @ ys)"
    and u: "\<not> hlist_unhashed x s" "hlist_unhashed x (hlist_del_init x s)" "\<not> hlist_unhashed x (hlist_del x s)"
    by (rule hlist_dels [OF assms(1)])+
  show "hlist_del_init x (hlist_del_init x s) = hlist_del_init x s"
    by (rule hlist_del_init_idle [OF u(2)])
  show "hlist (hlist_move_list h n s) n (xs @ x # ys)" "hlist (hlist_move_list h n s) h []"
    by (rule hlist_move [OF assms(1) n assms(3)])+
  show "hlist_is_singular_node x h s \<longleftrightarrow> xs = [] \<and> ys = []" "\<not> hlist_fake x s"
    using hlist_tests [OF assms(1)] by (auto simp: append_eq_Cons_conv)
  show "hlist_unhashed_lockless x s = hlist_unhashed x s"
    by (simp add: hlist_unhashed_def hlist_unhashed_lockless_def)
qed

lemma hlist_frames_part:
  assumes "hlist s h (xs @ x # ys)" and "n \<noteq> 0"
  shows "hframe (set (h # xs @ x # ys)) s (hlist_del x s) \<and> hframe (set (h # xs @ x # ys)) s (hlist_del_init x s) \<and>
    hframe (set (n # h # xs @ x # ys)) s (hlist_add_head n h s) \<and>
    hframe (set (n # h # xs @ x # ys)) s (hlist_add_before n x s) \<and>
    hframe (set (n # h # xs @ x # ys)) s (hlist_add_behind n x s) \<and>
    hframe (set (n # h # xs @ x # ys)) s (hlist_move_list h n s) \<and> 0 \<notin> set (n # h # xs @ x # ys)"
  using hlist_frames [OF assms(1)] hlist_nonzero [OF assms(1), of 0] assms(2) by auto

lemma hlist_empty_part:
  assumes "n \<noteq> 0" and "hlist s k []" and "n \<noteq> k"
  shows "hlist (INIT_HLIST_HEAD n s) n [] \<and> hlist_unhashed n (INIT_HLIST_NODE n s) \<and>
    hlist_fake n (hlist_add_fake n s) \<and> \<not> hlist_unhashed n (hlist_add_fake n s) \<and>
    hframe {n} s (hlist_del_init n (hlist_add_fake n (INIT_HLIST_NODE n s))) \<and>
    hlist_unhashed n (hlist_del_init n (hlist_add_fake n (INIT_HLIST_NODE n s))) \<and>
    hlist (hlist_add_head n k s) k [n] \<and> hframe {n, k} s (hlist_add_head n k s) \<and>
    hlist (hlist_move_list k n s) n [] \<and> hframe {n, k} s (hlist_move_list k n s)"
proof (intro conjI)
  show "hlist (INIT_HLIST_HEAD n s) n []" "hlist_unhashed n (INIT_HLIST_NODE n s)"
    using assms(1) by (simp_all add: hlist_def INIT_HLIST_HEAD_def INIT_HLIST_NODE_def hlist_unhashed_def)
  show "hlist_fake n (hlist_add_fake n s)" "\<not> hlist_unhashed n (hlist_add_fake n s)"
    using assms(1) by (simp_all add: hlist_fake_def hlist_unhashed_def hlist_add_fake_def)
  show "hframe {n} s (hlist_del_init n (hlist_add_fake n (INIT_HLIST_NODE n s)))"
    "hlist_unhashed n (hlist_del_init n (hlist_add_fake n (INIT_HLIST_NODE n s)))"
    using assms(1) by (auto simp: hframe_def hlist_add_fake_def hlist_unhashed_def hlist_del_init_def
        raw_hlist_del_def INIT_HLIST_NODE_def Let_def)
  show "hlist (hlist_add_head n k s) k [n]" "hlist (hlist_move_list k n s) n []"
    using hlist_adds(1) [OF assms(1,2)] hlist_move(1) [OF assms(2) _ assms(1)] assms(3) by simp_all
qed (rule hlist_frames_empty [OF assms(2)])+

text \<open>
  The loops over a hash list end and run their body once on each node, in order.  No entry may lie at address
  0, since the loops over entries take its address for the end of the list.
\<close>

lemma hlist_iteration_part:
  assumes "hlist (fst st) h (xs @ x # ys)" and "off \<notin> set (xs @ x # ys)"
    and "hlist (fst st') h zs" and "off \<notin> set zs"
    and "keeps hlist body h" and "keeps_rest hlist (\<lambda>x. body' (hlist_entry off x)) h"
  shows "(hlist_empty h (fst st') \<longleftrightarrow> zs = []) \<and>
    hlist_for_each body h st' = Some (fold body zs st') \<and>
    hlist_for_each_entry off body h st' = Some (fold (\<lambda>x. body (hlist_entry off x)) zs st') \<and>
    hlist_for_each_entry_safe off body' tmp h st' = Some (fold (\<lambda>x. body' (hlist_entry off x)) zs st') \<and>
    (\<exists>s'. hlist_for_each_safe (\<lambda>x (s, ps). (hlist_del x s, ps @ [x])) tmp h (fst st', []) =
      Some (s', zs) \<and> hlist s' h []) \<and>
    hlist_for_each_entry_continue off body (hlist_entry off x) st =
      Some (fold (\<lambda>x. body (hlist_entry off x)) ys st) \<and>
    hlist_for_each_entry_from off body (hlist_entry off x) st =
      Some (fold (\<lambda>x. body (hlist_entry off x)) (x # ys) st)"
  using hlist_loops [OF assms(1,5,2)] hlist_whole_loops [OF assms(3,5,4)] hlist_safe_loop [OF assms(3,6,4)]
    hlist_deleting [OF assms(3)] hlist_tests(1) [OF assms(3)]
  by (intro conjI) simp_all

text \<open>
  C32. On the hash list of a head, adding at the head, before and behind a node puts the new node there; both ways of
  deleting take out the node and nothing else; moving a list hands it to the other head.  None of them writes anything outside
  the nodes involved, the last node and the empty list included, so nothing is ever written through a \<open>NULL\<close> pointer.  A list is
  empty exactly when the test says so; a node is hashed on a list and after \<open>hlist_del\<close>, not after \<open>hlist_del_init\<close> or
  initialisation; a node is fake after \<open>hlist_add_fake\<close>, which can be deleted although it is on no list, and never on a list.
  The loops, over empty lists too, end and run their body once on each node, in order; no entry may lie at address 0.  The safe
  loops allow the body to take out the node it is given, and deleting every node empties the list.
\<close>

theorem hlist_operations:
  assumes "hlist s h (xs @ x # ys)"
    and "n \<notin> set (h # xs @ x # ys)"
    and "n \<noteq> 0"
    and "hlist s k []"
    and "n \<noteq> k"
    and "hlist (fst st) h (xs @ x # ys)"
    and "off \<notin> set (xs @ x # ys)"
    and "hlist (fst st') h zs"
    and "off \<notin> set zs"
    and "keeps hlist body h"
    and "keeps_rest hlist (\<lambda>x. body' (hlist_entry off x)) h"
  shows "(hlist (hlist_add_head n h s) h (n # xs @ x # ys) \<and> hlist (hlist_add_before n x s) h (xs @ n # x # ys) \<and>
    hlist (hlist_add_behind n x s) h (xs @ x # n # ys) \<and>
    hlist (hlist_del x s) h (xs @ ys) \<and> hlist (hlist_del_init x s) h (xs @ ys) \<and>
    \<not> hlist_unhashed x s \<and> hlist_unhashed x (hlist_del_init x s) \<and> \<not> hlist_unhashed x (hlist_del x s) \<and>
    hlist_del_init x (hlist_del_init x s) = hlist_del_init x s \<and>
    hlist (hlist_move_list h n s) n (xs @ x # ys) \<and> hlist (hlist_move_list h n s) h [] \<and>
    (hlist_is_singular_node x h s \<longleftrightarrow> xs = [] \<and> ys = []) \<and> \<not> hlist_fake x s \<and>
    hlist_unhashed_lockless x s = hlist_unhashed x s) \<and>
    (hframe (set (h # xs @ x # ys)) s (hlist_del x s) \<and> hframe (set (h # xs @ x # ys)) s (hlist_del_init x s) \<and>
    hframe (set (n # h # xs @ x # ys)) s (hlist_add_head n h s) \<and>
    hframe (set (n # h # xs @ x # ys)) s (hlist_add_before n x s) \<and>
    hframe (set (n # h # xs @ x # ys)) s (hlist_add_behind n x s) \<and>
    hframe (set (n # h # xs @ x # ys)) s (hlist_move_list h n s) \<and> 0 \<notin> set (n # h # xs @ x # ys)) \<and>
    (hlist (INIT_HLIST_HEAD n s) n [] \<and> hlist_unhashed n (INIT_HLIST_NODE n s) \<and>
    hlist_fake n (hlist_add_fake n s) \<and> \<not> hlist_unhashed n (hlist_add_fake n s) \<and>
    hframe {n} s (hlist_del_init n (hlist_add_fake n (INIT_HLIST_NODE n s))) \<and>
    hlist_unhashed n (hlist_del_init n (hlist_add_fake n (INIT_HLIST_NODE n s))) \<and>
    hlist (hlist_add_head n k s) k [n] \<and> hframe {n, k} s (hlist_add_head n k s) \<and>
    hlist (hlist_move_list k n s) n [] \<and> hframe {n, k} s (hlist_move_list k n s)) \<and>
    ((hlist_empty h (fst st') \<longleftrightarrow> zs = []) \<and>
    hlist_for_each body h st' = Some (fold body zs st') \<and>
    hlist_for_each_entry off body h st' = Some (fold (\<lambda>x. body (hlist_entry off x)) zs st') \<and>
    hlist_for_each_entry_safe off body' tmp h st' = Some (fold (\<lambda>x. body' (hlist_entry off x)) zs st') \<and>
    (\<exists>s'. hlist_for_each_safe (\<lambda>x (s, ps). (hlist_del x s, ps @ [x])) tmp h (fst st', []) =
      Some (s', zs) \<and> hlist s' h []) \<and>
    hlist_for_each_entry_continue off body (hlist_entry off x) st =
      Some (fold (\<lambda>x. body (hlist_entry off x)) ys st) \<and>
    hlist_for_each_entry_from off body (hlist_entry off x) st =
      Some (fold (\<lambda>x. body (hlist_entry off x)) (x # ys) st))"
  by (intro conjI [OF hlist_operations_part [OF assms(1-3)]] conjI [OF hlist_frames_part [OF assms(1,3)]]
      conjI [OF hlist_empty_part [OF assms(3-5)]] hlist_iteration_part [OF assms(6-11)])

theorem hlist_operations_witness:
  "hlist (hlist_add_before 0x50 0x30 example_hstore) 0x10 [0x20, 0x50, 0x30, 0x40] \<and>
   h_pprev (hlist_del 0x40 example_hstore) 0 = 0 \<and>
   hlist_for_each_entry 8 (\<lambda>p (s, acc). (s, acc @ [p])) 0x10 (example_hstore, []) = Some (example_hstore, [0x18, 0x28, 0x38])"
proof -
  have e: "hlist example_hstore 0x60 []" "h_pprev example_hstore 0 = 0"
    by code_simp+
  have k: "keeps hlist (\<lambda>p (s, acc). (s, acc @ [p])) 0x10" "keeps_rest hlist (\<lambda>x. (\<lambda>_ st. st) (hlist_entry 8 x)) 0x10"
    by (auto simp: keeps_def keeps_rest_def intro: exI [of _ "_ @ [_]"])
  show ?thesis
    using hlist_operations [of example_hstore "0x10" "[0x20]" "0x30" "[0x40]" "0x50" "0x60" "(example_hstore, [])" 8
        "(example_hstore, [])" "[0x20, 0x30, 0x40]" "\<lambda>p (s, acc). (s, acc @ [p])" "\<lambda>_ st. st"]
      hlist_operations [of example_hstore "0x10" "[0x20, 0x30]" "0x40" "[]" "0x50" "0x60" "(example_hstore, [])" 8
        "(example_hstore, [])" "[0x20, 0x30, 0x40]" "\<lambda>p (s, acc). (s, acc @ [p])" "\<lambda>_ st. st"]
    by (simp add: example_hlist e k hlist_entry_def hframe_def)
qed

end
