(* ===== verification/Min_Heap.thy ===== *)
theory Min_Heap
  imports Prelude "HOL-Library.Multiset" "HOL-Library.Signed_Division"
begin

text \<open>
  The binary heap of \<open>linux/min_heap.h\<close>.  The array of elements is a list of slots, of which the first
  \<open>nr\<close> are in use; an element is a value of its own rather than \<open>elem_size\<close> bytes.  The callbacks are
  parameters: \<open>c_swp\<close> gives the new contents of the two slots it is called on.  \<open>WARN_ONCE\<close> returns its
  condition; the message it prints is not modelled.

  Indices and byte offsets are computed in C ints.  A position is never negative in the code, so it is a natural
  number, but wherever the code multiplies or adds, the model tests that the result fits an int.  An overflow
  is undefined behaviour, as is a store outside the array: the array collapses to the empty list.
\<close>

section \<open>The heap and its operations\<close>

record 'a min_heap =
  h_data :: "'a list"
  h_nr :: int
  h_size :: int

record 'a min_heap_callbacks =
  c_elem_size :: int
  c_less :: "'a \<Rightarrow> 'a \<Rightarrow> bool"
  c_swp :: "'a \<Rightarrow> 'a \<Rightarrow> 'a \<times> 'a"

definition int_fits :: "int \<Rightarrow> bool" where
  "int_fits x \<longleftrightarrow> - (2 ^ 31) \<le> x \<and> x < 2 ^ 31"

definition offset_fits :: "'a min_heap_callbacks \<Rightarrow> nat \<Rightarrow> bool" where
  "offset_fits func pos \<longleftrightarrow> int_fits (int pos * c_elem_size func)"

text \<open>The offsets of the parent, the left and, if there is one, the right child.\<close>

definition offsets_fit :: "'a min_heap_callbacks \<Rightarrow> nat \<Rightarrow> 'a min_heap \<Rightarrow> bool" where
  "offsets_fit func pos heap \<longleftrightarrow>
     offset_fits func (pos * 2 + 1) \<and> offset_fits func pos \<and> int_fits (int (pos * 2 + 2)) \<and>
     (int (pos * 2 + 2) < h_nr heap \<longrightarrow> offset_fits func (pos * 2 + 2))"

definition call_swp :: "'a min_heap_callbacks \<Rightarrow> nat \<Rightarrow> nat \<Rightarrow> 'a list \<Rightarrow> 'a list" where
  "call_swp func lhs rhs d = (case c_swp func (d ! lhs) (d ! rhs) of (x, y) \<Rightarrow> store (store d lhs x) rhs y)"

definition smallest_of :: "'a min_heap_callbacks \<Rightarrow> nat \<Rightarrow> 'a min_heap \<Rightarrow> nat" where
  "smallest_of func pos heap =
     (let d = h_data heap; left = pos * 2 + 1; parent = pos;
          smallest = parent;
          smallest = (if c_less func (d ! left) (d ! smallest) then left else smallest)
      in if int (pos * 2 + 2) < h_nr heap then
           let right = pos * 2 + 2
           in if c_less func (d ! right) (d ! smallest) then right else smallest
         else smallest)"

function min_heapify :: "'a min_heap_callbacks \<Rightarrow> nat \<Rightarrow> 'a min_heap \<Rightarrow> 'a min_heap" where
  "min_heapify func pos heap =
     (if \<not> int_fits (int (pos * 2 + 1)) then heap\<lparr>h_data := []\<rparr>
      else if int (pos * 2 + 1) \<ge> h_nr heap then heap
      else if \<not> offsets_fit func pos heap then heap\<lparr>h_data := []\<rparr>
      else
        let smallest = smallest_of func pos heap
        in if smallest = pos then heap
           else
             let heap = heap\<lparr>h_data := call_swp func smallest pos (h_data heap)\<rparr>
             in min_heapify func (if smallest = pos * 2 + 1 then pos * 2 + 1 else pos * 2 + 2) heap)"
  by pat_completeness auto
termination
  by (relation "measure (\<lambda>(func, pos, heap). nat (h_nr heap) - pos)") auto

declare min_heapify.simps [simp del]

text \<open>\<open>for (i = heap->nr / 2; i >= 0; i--)\<close>\<close>

function heapify_down :: "'a min_heap_callbacks \<Rightarrow> int \<Rightarrow> 'a min_heap \<Rightarrow> 'a min_heap" where
  "heapify_down func i heap =
     (if i \<ge> 0 then heapify_down func (i - 1) (min_heapify func (nat i) heap) else heap)"
  by pat_completeness auto
termination
  by (relation "measure (\<lambda>(func, i, heap). nat (i + 1))") auto

declare heapify_down.simps [simp del]

definition min_heapify_all :: "'a min_heap_callbacks \<Rightarrow> 'a min_heap \<Rightarrow> 'a min_heap" where
  "min_heapify_all func heap = heapify_down func (h_nr heap sdiv 2) heap"

definition min_heap_pop :: "'a min_heap_callbacks \<Rightarrow> 'a min_heap \<Rightarrow> 'a min_heap" where
  "min_heap_pop func heap =
     (if h_nr heap \<le> 0 then heap
      else
        let heap = heap\<lparr>h_nr := h_nr heap - 1\<rparr>
        in if \<not> offset_fits func (nat (h_nr heap)) then heap\<lparr>h_data := []\<rparr>
           else
             let heap = heap\<lparr>h_data := store (h_data heap) 0 (h_data heap ! nat (h_nr heap))\<rparr>
             in min_heapify func 0 heap)"

definition min_heap_pop_push :: "'a min_heap_callbacks \<Rightarrow> 'a \<Rightarrow> 'a min_heap \<Rightarrow> 'a min_heap" where
  "min_heap_pop_push func element heap =
     min_heapify func 0 (heap\<lparr>h_data := store (h_data heap) 0 element\<rparr>)"

text \<open>\<open>for (; pos > 0; pos = (pos - 1) / 2)\<close>\<close>

function sift_up :: "'a min_heap_callbacks \<Rightarrow> nat \<Rightarrow> 'a list \<Rightarrow> 'a list" where
  "sift_up func pos d =
     (if pos > 0 then
        let child = pos; parent = (pos - 1) div 2
        in if \<not> offset_fits func child \<or> \<not> offset_fits func parent then []
           else if c_less func (d ! parent) (d ! child) then d
           else sift_up func ((pos - 1) div 2) (call_swp func parent child d)
      else d)"
  by pat_completeness auto
termination
  by (relation "measure (\<lambda>(func, pos, d). pos)") auto

declare sift_up.simps [simp del]

definition min_heap_push :: "'a min_heap_callbacks \<Rightarrow> 'a \<Rightarrow> 'a min_heap \<Rightarrow> 'a min_heap" where
  "min_heap_push func element heap =
     (if h_nr heap \<ge> h_size heap then heap
      else
        let pos = nat (h_nr heap)
        in if \<not> offset_fits func pos \<or> \<not> int_fits (h_nr heap + 1) then heap\<lparr>h_data := []\<rparr>
           else
             let heap = heap\<lparr>h_data := store (h_data heap) pos element\<rparr>;
                 heap = heap\<lparr>h_nr := h_nr heap + 1\<rparr>
             in heap\<lparr>h_data := sift_up func pos (h_data heap)\<rparr>)"

section \<open>Well formed heaps\<close>

text \<open>
  What the callbacks must do: \<open>less\<close> is a strict weak order (elements neither of which is less than
  the other are interchangeable), \<open>swp\<close> exchanges two elements and an element has at least one byte.
\<close>

definition callbacks_ok :: "'a min_heap_callbacks \<Rightarrow> bool" where
  "callbacks_ok func \<longleftrightarrow>
     (\<forall>x y. c_less func x y \<longrightarrow> \<not> c_less func y x) \<and>
     (\<forall>x y z. \<not> c_less func x y \<longrightarrow> \<not> c_less func y z \<longrightarrow> \<not> c_less func x z) \<and>
     (\<forall>x y. c_swp func x y = (y, x)) \<and> 0 < c_elem_size func"

abbreviation up :: "nat \<Rightarrow> nat" where
  "up i \<equiv> (i - 1) div 2"

text \<open>No element whose parent is at position \<open>k\<close> or behind it is less than its parent.\<close>

definition ordered_from :: "('a \<Rightarrow> 'a \<Rightarrow> bool) \<Rightarrow> 'a list \<Rightarrow> nat \<Rightarrow> nat \<Rightarrow> bool" where
  "ordered_from lt d n k \<longleftrightarrow> (\<forall>i. 0 < i \<and> i < n \<and> k \<le> up i \<longrightarrow> \<not> lt (d ! i) (d ! up i))"

text \<open>
  A heap lies inside its array, which has less than 2 GiB and at most \<open>2 ^ 30\<close> elements: then neither an
  index nor an offset overflows.
\<close>

definition heap_fits :: "'a min_heap_callbacks \<Rightarrow> 'a min_heap \<Rightarrow> bool" where
  "heap_fits func h \<longleftrightarrow> 0 \<le> h_nr h \<and> h_nr h \<le> h_size h \<and> nat (h_size h) \<le> length (h_data h) \<and>
     h_size h \<le> 2 ^ 30 \<and> h_size h * c_elem_size func < 2 ^ 31"

definition heap_inv :: "'a min_heap_callbacks \<Rightarrow> 'a min_heap \<Rightarrow> bool" where
  "heap_inv func h \<longleftrightarrow> heap_fits func h \<and> ordered_from (c_less func) (h_data h) (nat (h_nr h)) 0"

definition elems :: "'a min_heap \<Rightarrow> 'a multiset" where
  "elems h = mset (take (nat (h_nr h)) (h_data h))"

lemma callbacks_okD:
  assumes "callbacks_ok func"
  shows "c_less func x y \<Longrightarrow> \<not> c_less func y x"
    and "\<not> c_less func x y \<Longrightarrow> \<not> c_less func y z \<Longrightarrow> \<not> c_less func x z"
    and "c_swp func x y = (y, x)" and "0 < c_elem_size func"
  using assms unfolding callbacks_ok_def by blast+

lemma fits_offset:
  assumes "callbacks_ok func" and "heap_fits func h" and "int pos < h_size h"
  shows "offset_fits func pos"
proof -
  have "int pos * c_elem_size func \<le> h_size h * c_elem_size func"
    using assms(3) callbacks_okD(4) [OF assms(1)] by (intro mult_right_mono) auto
  moreover have "0 \<le> int pos * c_elem_size func"
    using callbacks_okD(4) [OF assms(1)] by simp
  ultimately show ?thesis
    using assms(2) by (simp add: offset_fits_def int_fits_def heap_fits_def)
qed

lemma fits_children:
  assumes "callbacks_ok func" and "heap_fits func h" and "int (pos * 2 + 1) < h_nr h"
  shows "offsets_fit func pos h" and "int_fits (int (pos * 2 + 1))"
proof -
  have "h_nr h \<le> h_size h" "h_nr h \<le> 2 ^ 30"
    using assms(2) by (auto simp: heap_fits_def)
  with assms(3) show "offsets_fit func pos h" "int_fits (int (pos * 2 + 1))"
    by (auto simp: offsets_fit_def int_fits_def intro!: fits_offset [OF assms(1,2)])
qed

lemma fits_pos: "heap_fits func h \<Longrightarrow> int pos < h_nr h \<Longrightarrow> int_fits (int (pos * 2 + 1))"
  by (auto simp: heap_fits_def int_fits_def)

lemma up_iff: "0 < i \<Longrightarrow> up i = p \<longleftrightarrow> i = p * 2 + 1 \<or> i = p * 2 + 2"
  by presburger

lemma up_less: "0 < i \<Longrightarrow> up i < i"
  by simp

lemma call_swp_swaps:
  assumes "callbacks_ok func" and "i < length d" and "j < length d"
  shows "call_swp func i j d = d[i := d ! j, j := d ! i]"
  using assms by (simp add: call_swp_def callbacks_okD(3) store_def)

lemma mset_take_swap:
  assumes "i < n" and "j < n" and "n \<le> length d"
  shows "mset (take n (d[i := d ! j, j := d ! i])) = mset (take n d)"
proof -
  have "take n (d[i := d ! j, j := d ! i]) = (take n d)[i := take n d ! j, j := take n d ! i]"
    using assms by (simp add: take_update_swap)
  then show ?thesis
    using assms mset_swap [of j "take n d" i] by simp
qed

section \<open>Sifting down\<close>

text \<open>
  While an element is on its way down at \<open>pos\<close>, only its children may be out of order, and they are
  in order with its parent.
\<close>

definition sinking :: "('a \<Rightarrow> 'a \<Rightarrow> bool) \<Rightarrow> 'a list \<Rightarrow> nat \<Rightarrow> nat \<Rightarrow> nat \<Rightarrow> bool" where
  "sinking lt d n k pos \<longleftrightarrow>
     (\<forall>i. 0 < i \<and> i < n \<and> k \<le> up i \<and> up i \<noteq> pos \<longrightarrow> \<not> lt (d ! i) (d ! up i)) \<and>
     (\<forall>i. 0 < i \<and> i < n \<and> up i = pos \<and> 0 < pos \<and> k \<le> up pos \<longrightarrow> \<not> lt (d ! i) (d ! up pos))"

lemma smallest_cases:
  assumes "callbacks_ok func" and "int (pos * 2 + 1) < h_nr h"
  defines "m \<equiv> smallest_of func pos h"
  shows "m = pos \<and> (\<forall>i. 0 < i \<and> int i < h_nr h \<and> up i = pos \<longrightarrow> \<not> c_less func (h_data h ! i) (h_data h ! pos)) \<or>
    (m = pos * 2 + 1 \<or> m = pos * 2 + 2) \<and> int m < h_nr h \<and> c_less func (h_data h ! m) (h_data h ! pos) \<and>
    (\<forall>i. 0 < i \<and> int i < h_nr h \<and> up i = pos \<longrightarrow> \<not> c_less func (h_data h ! i) (h_data h ! m))"
proof -
  let ?l = "h_data h ! (pos * 2 + 1)" and ?r = "h_data h ! (pos * 2 + 2)" and ?p = "h_data h ! pos"
  note asym = callbacks_okD(1) [OF assms(1)] and neg = callbacks_okD(2) [OF assms(1)]
  note facts = asym [of ?l ?l] asym [of ?r ?r] asym [of ?r ?l] asym [of ?l ?p] asym [of ?r ?p]
    neg [of ?r ?p ?l] neg [of ?l ?p ?r]
  have children: "(\<forall>i. 0 < i \<and> int i < h_nr h \<and> up i = pos \<longrightarrow> P i) \<longleftrightarrow>
      P (pos * 2 + 1) \<and> (int (pos * 2 + 2) < h_nr h \<longrightarrow> P (pos * 2 + 2))" for P
    using assms(2) up_iff [of _ pos] by (metis add_gr_0 zero_less_numeral zero_less_one)
  show ?thesis
    unfolding children m_def smallest_of_def Let_def using assms(2) facts by (simp split: if_split) blast
qed

lemma sinking_step:
  assumes "callbacks_ok func" and "sinking (c_less func) d n k pos" and "n \<le> length d"
    and m: "m = pos * 2 + 1 \<or> m = pos * 2 + 2" "m < n" "c_less func (d ! m) (d ! pos)"
      "\<And>i. 0 < i \<Longrightarrow> i < n \<Longrightarrow> up i = pos \<Longrightarrow> \<not> c_less func (d ! i) (d ! m)"
  shows "sinking (c_less func) (d[m := d ! pos, pos := d ! m]) n k m"
proof -
  let ?d = "d[m := d ! pos, pos := d ! m]" and ?lt = "c_less func"
  have pm: "pos < m" "0 < m" "m < length d" "pos < length d" "up m = pos"
    using m(1,2) assms(3) up_iff [of m pos] by auto
  have val: "?d ! i = (if i = pos then d ! m else if i = m then d ! pos else d ! i)" if "i < n" for i
    using that pm assms(3) by (auto simp: nth_list_update)
  have "\<not> ?lt (?d ! i) (?d ! up i)" if i: "0 < i" "i < n" "k \<le> up i" "up i \<noteq> m" for i
  proof -
    have u: "up i < n" "up i \<noteq> i"
      using i by auto
    consider "up i = pos" | "i = pos" "up i \<noteq> pos" | "i \<noteq> pos" "up i \<noteq> pos"
      by blast
    then show ?thesis
    proof cases
      case 1
      then have "\<not> ?lt (d ! i) (d ! m)" "i \<noteq> pos"
        using m(4) [of i] i u by auto
      then show ?thesis
        unfolding val [OF i(2)] val [OF u(1)] using 1 callbacks_okD(1) [OF assms(1) m(3)] by simp
    next
      case 2
      have "\<not> ?lt (d ! m) (d ! up pos)"
        using assms(2) 2 i pm m(2) unfolding sinking_def by blast
      then show ?thesis
        unfolding val [OF i(2)] val [OF u(1)] using 2 i(4) by simp
    next
      case 3
      then have "i \<noteq> m"
        using pm(5) by auto
      then show ?thesis
        unfolding val [OF i(2)] val [OF u(1)] using assms(2) 3 i by (simp add: sinking_def)
    qed
  qed
  moreover have "\<not> ?lt (?d ! i) (?d ! up m)" if "0 < i" "i < n" "up i = m" "k \<le> up m" for i
  proof -
    have i: "i \<noteq> pos" "i \<noteq> m" "k \<le> up i" "up i \<noteq> pos" "up m < n"
      using that pm m(2) by auto
    then have "\<not> ?lt (d ! i) (d ! up i)"
      using assms(2) that(1,2) unfolding sinking_def by blast
    then show ?thesis
      unfolding val [OF that(2)] val [OF i(5)] using i(1,2) pm(5) that(3) by simp
  qed
  ultimately show ?thesis
    unfolding sinking_def by blast
qed

lemma min_heapify_unfold:
  assumes "callbacks_ok func" and "heap_fits func h" and "int_fits (int (pos * 2 + 1))"
  shows "min_heapify func pos h =
    (if int (pos * 2 + 1) \<ge> h_nr h then h
     else if smallest_of func pos h = pos then h
     else min_heapify func (if smallest_of func pos h = pos * 2 + 1 then pos * 2 + 1 else pos * 2 + 2)
       (h\<lparr>h_data := call_swp func (smallest_of func pos h) pos (h_data h)\<rparr>))"
  using assms(3) fits_children(1) [OF assms(1,2), of pos]
  by (subst min_heapify.simps) (simp add: Let_def not_le)

lemma heap_fits_nat: "heap_fits func h \<Longrightarrow> nat (h_nr h) \<le> length (h_data h)"
  unfolding heap_fits_def by linarith

lemma min_heapify_ordered:
  assumes "callbacks_ok func" and "sinking (c_less func) (h_data h) (nat (h_nr h)) k pos"
    and "heap_fits func h" and "int_fits (int (pos * 2 + 1))"
  shows "ordered_from (c_less func) (h_data (min_heapify func pos h)) (nat (h_nr h)) k \<and>
    mset (take (nat (h_nr h)) (h_data (min_heapify func pos h))) = mset (take (nat (h_nr h)) (h_data h)) \<and>
    length (h_data (min_heapify func pos h)) = length (h_data h) \<and>
    h_nr (min_heapify func pos h) = h_nr h \<and> h_size (min_heapify func pos h) = h_size h"
  using assms
proof (induction func pos h rule: min_heapify.induct)
  case (1 func pos h)
  let ?n = "nat (h_nr h)" and ?m = "smallest_of func pos h" and ?d = "h_data h"
  note unfold = min_heapify_unfold [OF "1.prems"(1,3,4)] and len = heap_fits_nat [OF "1.prems"(3)]
  show ?case
  proof (cases "int (pos * 2 + 1) \<ge> h_nr h")
    case True
    then have "up i \<noteq> pos" if "0 < i" "i < ?n" for i
      using that up_iff [of i pos] by auto
    then have "ordered_from (c_less func) ?d ?n k"
      using "1.prems"(2) by (simp add: sinking_def ordered_from_def)
    then show ?thesis
      using True by (simp add: unfold)
  next
    case False
    then have inner: "int (pos * 2 + 1) < h_nr h" by simp
    show ?thesis
    proof (cases "?m = pos")
      case True
      have "\<not> c_less func (?d ! i) (?d ! up i)" if "0 < i" "i < ?n" "up i = pos" for i
        using smallest_cases [OF "1.prems"(1) inner] True that by auto
      then have "ordered_from (c_less func) ?d ?n k"
        using "1.prems"(2) unfolding sinking_def ordered_from_def by blast
      then show ?thesis
        using inner True by (simp add: unfold)
    next
      case ne: False
      then have m: "?m = pos * 2 + 1 \<or> ?m = pos * 2 + 2" "?m < ?n" "c_less func (?d ! ?m) (?d ! pos)"
        "\<And>i. 0 < i \<Longrightarrow> i < ?n \<Longrightarrow> up i = pos \<Longrightarrow> \<not> c_less func (?d ! i) (?d ! ?m)"
        using smallest_cases [OF "1.prems"(1) inner] by auto
      let ?h = "h\<lparr>h_data := call_swp func ?m pos ?d\<rparr>"
      have swp: "call_swp func ?m pos ?d = ?d[?m := ?d ! pos, pos := ?d ! ?m]"
        using m(1,2) len by (intro call_swp_swaps "1.prems"(1)) auto
      have "sinking (c_less func) (h_data ?h) (nat (h_nr ?h)) k ?m"
        using sinking_step [OF "1.prems"(1,2) len m] by (simp add: swp)
      moreover have "(if ?m = pos * 2 + 1 then pos * 2 + 1 else pos * 2 + 2) = ?m"
        using m(1) by auto
      moreover have fits: "heap_fits func ?h" "int_fits (int (?m * 2 + 1))" "offsets_fit func pos h"
        using "1.prems"(3) fits_pos [OF "1.prems"(3), of ?m] m(2) fits_children(1) [OF "1.prems"(1,3) inner] swp
        by (simp_all add: heap_fits_def)
      ultimately have ih: "ordered_from (c_less func) (h_data (min_heapify func ?m ?h)) ?n k \<and>
          mset (take ?n (h_data (min_heapify func ?m ?h))) = mset (take ?n (h_data ?h)) \<and>
          length (h_data (min_heapify func ?m ?h)) = length (h_data ?h) \<and>
          h_nr (min_heapify func ?m ?h) = h_nr h \<and> h_size (min_heapify func ?m ?h) = h_size h"
        and step: "min_heapify func pos h = min_heapify func ?m ?h"
        using "1.IH" [OF _ _ _ refl ne refl] "1.prems" fits inner ne unfold
        by (simp_all add: Let_def swp)
      have "mset (take ?n (?d[?m := ?d ! pos, pos := ?d ! ?m])) = mset (take ?n ?d)"
        using m(1,2) len by (intro mset_take_swap) auto
      then show ?thesis
        using ih by (simp add: step swp)
    qed
  qed
qed

section \<open>Sifting up\<close>

text \<open>While an element is on its way up at \<open>pos\<close>, only it and its parent may be out of order.\<close>

definition rising :: "('a \<Rightarrow> 'a \<Rightarrow> bool) \<Rightarrow> 'a list \<Rightarrow> nat \<Rightarrow> nat \<Rightarrow> bool" where
  "rising lt d n pos \<longleftrightarrow>
     (\<forall>i. 0 < i \<and> i < n \<and> i \<noteq> pos \<longrightarrow> \<not> lt (d ! i) (d ! up i)) \<and>
     (\<forall>i. 0 < i \<and> i < n \<and> up i = pos \<and> 0 < pos \<longrightarrow> \<not> lt (d ! i) (d ! up pos))"

lemma rising_step:
  assumes "callbacks_ok func" and "rising (c_less func) d n pos" and "n \<le> length d"
    and "0 < pos" and "pos < n" and "\<not> c_less func (d ! up pos) (d ! pos)"
  shows "rising (c_less func) (d[up pos := d ! pos, pos := d ! up pos]) n (up pos)"
proof -
  let ?d = "d[up pos := d ! pos, pos := d ! up pos]" and ?lt = "c_less func" and ?q = "up pos"
  note neg = callbacks_okD(2) [OF assms(1)]
  have pq: "?q < pos" "?q < length d" "pos < length d"
    using assms(3-5) by auto
  have val: "?d ! i = (if i = pos then d ! ?q else if i = ?q then d ! pos else d ! i)" if "i < n" for i
    using that pq assms(3) by (auto simp: nth_list_update)
  have siblings: "\<not> ?lt (d ! i) (d ! ?q)" if "0 < i" "i < n" "up i = ?q" "i \<noteq> pos" for i
    using assms(2) that unfolding rising_def by metis
  have "\<not> ?lt (?d ! i) (?d ! up i)" if i: "0 < i" "i < n" "i \<noteq> ?q" for i
  proof -
    have u: "up i < n" "up i \<noteq> i"
      using i by auto
    consider "i = pos" | "i \<noteq> pos" "up i = ?q" | "up i = pos" | "i \<noteq> pos" "up i \<noteq> ?q" "up i \<noteq> pos"
      by blast
    then show ?thesis
    proof cases
      case 1
      then show ?thesis
        unfolding val [OF i(2)] val [OF u(1)] using assms(6) u(2) by simp
    next
      case 2
      have "\<not> ?lt (d ! i) (d ! pos)"
        using neg [OF siblings assms(6)] 2 i by blast
      then show ?thesis
        unfolding val [OF i(2)] val [OF u(1)] using 2 i(3) pq(1) by simp
    next
      case 3
      have "\<not> ?lt (d ! i) (d ! ?q)"
        using assms(2,4) 3 i unfolding rising_def by blast
      then show ?thesis
        unfolding val [OF i(2)] val [OF u(1)] using 3 i(3) u(2) by simp
    next
      case 4
      then show ?thesis
        unfolding val [OF i(2)] val [OF u(1)] using assms(2) i by (simp add: rising_def)
    qed
  qed
  moreover have "\<not> ?lt (?d ! i) (?d ! up ?q)" if i: "0 < i" "i < n" "up i = ?q" "0 < ?q" for i
  proof -
    have g: "up ?q < n" "up ?q \<noteq> ?q" "up ?q \<noteq> pos" "i \<noteq> ?q"
      using up_less [OF i(4)] up_less [OF i(1)] i(3) assms(5) pq(1) by linarith+
    have top: "\<not> ?lt (d ! ?q) (d ! up ?q)"
      using assms(2,5) i(4) pq(1) unfolding rising_def by (metis less_trans nat_neq_iff)
    have "\<not> ?lt (d ! i) (d ! up ?q)" if "i \<noteq> pos"
      using neg [OF siblings top] i that by blast
    then show ?thesis
      unfolding val [OF i(2)] val [OF g(1)] using g top by simp
  qed
  ultimately show ?thesis
    unfolding rising_def by blast
qed

lemma sift_up_ordered:
  assumes "callbacks_ok func" and "rising (c_less func) d n pos" and "n \<le> length d" and "pos < n"
    and "\<forall>i<n. offset_fits func i"
  shows "ordered_from (c_less func) (sift_up func pos d) n 0 \<and>
    mset (take n (sift_up func pos d)) = mset (take n d) \<and> length (sift_up func pos d) = length d"
  using assms
proof (induction func pos d rule: sift_up.induct)
  case (1 func pos d)
  have offs: "offset_fits func pos" "offset_fits func (up pos)"
    using "1.prems"(4,5) by auto
  consider "pos = 0" | "0 < pos" "c_less func (d ! up pos) (d ! pos)" | "0 < pos" "\<not> c_less func (d ! up pos) (d ! pos)"
    by blast
  then show ?case
  proof cases
    case 1
    then have "sift_up func pos d = d"
      by (subst sift_up.simps) simp
    moreover have "ordered_from (c_less func) d n 0"
      using "1.prems"(2) 1 unfolding rising_def ordered_from_def by blast
    ultimately show ?thesis by simp
  next
    case 2
    then have "ordered_from (c_less func) d n 0"
      using "1.prems"(2) callbacks_okD(1) [OF "1.prems"(1) 2(2)] unfolding rising_def ordered_from_def by metis
    then show ?thesis
      using 2 offs by (simp add: sift_up.simps [of func pos d])
  next
    case 3
    have q: "up pos < pos" "up pos < n" "up pos < length d" "pos < length d"
      using 3(1) "1.prems"(3,4) by auto
    have swp: "call_swp func (up pos) pos d = d[up pos := d ! pos, pos := d ! up pos]"
      using q by (intro call_swp_swaps "1.prems"(1)) auto
    have len: "length (call_swp func (up pos) pos d) = length d"
      unfolding swp by simp
    have "rising (c_less func) (call_swp func (up pos) pos d) n (up pos)"
      unfolding swp using "1.prems" 3 by (intro rising_step)
    then have "ordered_from (c_less func) (sift_up func (up pos) (call_swp func (up pos) pos d)) n 0 \<and>
        mset (take n (sift_up func (up pos) (call_swp func (up pos) pos d))) = mset (take n (call_swp func (up pos) pos d)) \<and>
        length (sift_up func (up pos) (call_swp func (up pos) pos d)) = length (call_swp func (up pos) pos d)"
      using "1.prems" q(2) len offs by (intro "1.IH" [OF 3(1) refl refl _ 3(2)]) simp_all
    moreover have "mset (take n (call_swp func (up pos) pos d)) = mset (take n d)"
      unfolding swp using q(2) "1.prems"(3,4) by (intro mset_take_swap)
    ultimately show ?thesis
      using 3 len offs by (simp add: sift_up.simps [of func pos d] Let_def)
  qed
qed

section \<open>The operations\<close>

lemma root_least:
  assumes "callbacks_ok func" and "ordered_from (c_less func) d n 0" and "i < n"
  shows "\<not> c_less func (d ! i) (d ! 0)"
  using assms(3)
proof (induction i rule: less_induct)
  case (less i)
  show ?case
  proof (cases "i = 0")
    case True
    then show ?thesis
      using callbacks_okD(1) [OF assms(1), of "d ! 0" "d ! 0"] by blast
  next
    case False
    then have "\<not> c_less func (d ! i) (d ! up i)"
      using assms(2) less.prems by (simp add: ordered_from_def)
    moreover have "\<not> c_less func (d ! up i) (d ! 0)"
      using False less.prems by (intro less.IH) auto
    ultimately show ?thesis
      by (rule callbacks_okD(2) [OF assms(1)])
  qed
qed

lemma sinking_root: "ordered_from lt d n 0 \<Longrightarrow> sinking lt (d[0 := x]) n 0 0"
  unfolding ordered_from_def sinking_def by (auto simp: nth_list_update)

text \<open>What sifting down at the root gives, if all but the root is in order.\<close>

lemma heapify_root:
  assumes "callbacks_ok func" and "heap_fits func h" and "sinking (c_less func) (h_data h) (nat (h_nr h)) 0 0"
  shows "heap_inv func (min_heapify func 0 h)" and "elems (min_heapify func 0 h) = elems h"
    and "h_nr (min_heapify func 0 h) = h_nr h"
  using min_heapify_ordered [OF assms(1,3,2)] assms(2)
  by (auto simp: heap_inv_def heap_fits_def elems_def int_fits_def)

lemma min_heap_pop_correct:
  assumes "callbacks_ok func" and "heap_inv func h" and "0 < h_nr h"
  shows "heap_inv func (min_heap_pop func h)" and "elems (min_heap_pop func h) = elems h - {#h_data h ! 0#}"
    and "h_nr (min_heap_pop func h) = h_nr h - 1"
proof -
  let ?n = "nat (h_nr h - 1)" and ?d = "h_data h"
  let ?h = "h\<lparr>h_nr := h_nr h - 1, h_data := ?d[0 := ?d ! ?n]\<rparr>"
  have f: "heap_fits func h" and o: "ordered_from (c_less func) ?d (nat (h_nr h)) 0" and l: "?n < length ?d"
    using assms(2,3) by (auto simp: heap_inv_def heap_fits_def)
  have n: "nat (h_nr h) = Suc ?n"
    using assms(3) by linarith
  have fit: "heap_fits func ?h"
    using f assms(3) by (simp add: heap_fits_def)
  have "ordered_from (c_less func) ?d ?n 0"
    using o unfolding n ordered_from_def by auto
  then have s: "sinking (c_less func) (h_data ?h) (nat (h_nr ?h)) 0 0"
    by (simp add: sinking_root)
  have pop: "min_heap_pop func h = min_heapify func 0 ?h"
    using assms(3) l fits_offset [OF assms(1) f, of ?n] f
    by (auto simp: min_heap_pop_def Let_def store_def heap_fits_def)
  note r = heapify_root [OF assms(1) fit s]
  show "heap_inv func (min_heap_pop func h)" "h_nr (min_heap_pop func h) = h_nr h - 1"
    using r(1,3) by (simp_all add: pop)
  have "mset (take ?n (?d[0 := ?d ! ?n])) = mset (take (Suc ?n) ?d) - {#?d ! 0#}"
  proof (cases ?n)
    case (Suc k)
    then have "mset ((take ?n ?d)[0 := ?d ! ?n]) = add_mset (?d ! ?n) (mset (take ?n ?d) - {#?d ! 0#})"
      using l mset_update [of 0 "take ?n ?d" "?d ! ?n"] by simp
    moreover have "?d ! 0 \<in># mset (take ?n ?d)"
      using Suc l by (cases ?d) auto
    ultimately show ?thesis
      using l by (simp add: take_update_swap take_Suc_conv_app_nth)
  qed (use l in \<open>simp add: take_Suc_conv_app_nth\<close>)
  then show "elems (min_heap_pop func h) = elems h - {#?d ! 0#}"
    using r(2) by (simp add: pop elems_def n)
qed

lemma min_heap_pop_push_correct:
  assumes "callbacks_ok func" and "heap_inv func h" and "0 < h_nr h"
  shows "heap_inv func (min_heap_pop_push func x h)"
    and "elems (min_heap_pop_push func x h) = elems h - {#h_data h ! 0#} + {#x#}"
    and "h_nr (min_heap_pop_push func x h) = h_nr h"
proof -
  let ?h = "h\<lparr>h_data := (h_data h)[0 := x]\<rparr>" and ?n = "nat (h_nr h)"
  have f: "heap_fits func ?h" and s: "sinking (c_less func) (h_data ?h) (nat (h_nr ?h)) 0 0" and l: "0 < length (h_data h)"
    using assms(2,3) by (auto simp: heap_inv_def heap_fits_def sinking_root)
  have eq: "min_heap_pop_push func x h = min_heapify func 0 ?h"
    using l by (simp add: min_heap_pop_push_def store_def)
  note r = heapify_root [OF assms(1) f s]
  show "heap_inv func (min_heap_pop_push func x h)" "h_nr (min_heap_pop_push func x h) = h_nr h"
    using r(1,3) by (simp_all add: eq)
  show "elems (min_heap_pop_push func x h) = elems h - {#h_data h ! 0#} + {#x#}"
    using r(2) l assms(3) mset_update [of 0 "take ?n (h_data h)" x] by (simp add: eq elems_def take_update_swap)
qed

lemma min_heap_push_correct:
  assumes "callbacks_ok func" and "heap_inv func h" and "h_nr h < h_size h"
  shows "heap_inv func (min_heap_push func x h)" and "elems (min_heap_push func x h) = elems h + {#x#}"
    and "h_nr (min_heap_push func x h) = h_nr h + 1"
proof -
  let ?n = "nat (h_nr h)" let ?d = "(h_data h)[?n := x]"
  have f: "heap_fits func h" and o: "ordered_from (c_less func) (h_data h) ?n 0" and l: "?n < length (h_data h)"
    using assms(2,3) by (auto simp: heap_inv_def heap_fits_def)
  have n: "nat (h_nr h + 1) = Suc ?n"
    using f by (simp add: heap_fits_def nat_add_distrib)
  have offs: "\<forall>i<Suc ?n. offset_fits func i" "int_fits (h_nr h + 1)"
    using fits_offset [OF assms(1) f] assms(3) f by (auto simp: heap_fits_def int_fits_def)
  have "rising (c_less func) ?d (Suc ?n) ?n"
    using o unfolding rising_def ordered_from_def by (auto simp: nth_list_update)
  then have r: "ordered_from (c_less func) (sift_up func ?n ?d) (Suc ?n) 0"
    "mset (take (Suc ?n) (sift_up func ?n ?d)) = mset (take (Suc ?n) ?d)" "length (sift_up func ?n ?d) = length ?d"
    using sift_up_ordered [OF assms(1), of ?d "Suc ?n" ?n] l offs by auto
  have eq: "min_heap_push func x h = h\<lparr>h_nr := h_nr h + 1, h_data := sift_up func ?n ?d\<rparr>"
    using assms(3) l offs by (simp add: min_heap_push_def Let_def store_def)
  show "heap_inv func (min_heap_push func x h)" "h_nr (min_heap_push func x h) = h_nr h + 1"
    using r f assms(3) by (simp_all add: eq heap_inv_def heap_fits_def n)
  show "elems (min_heap_push func x h) = elems h + {#x#}"
    using r(2) l by (simp add: eq elems_def n take_Suc_conv_app_nth)
qed

lemma heapify_down_correct:
  assumes "callbacks_ok func" and "heap_fits func h" and "ordered_from (c_less func) (h_data h) (nat (h_nr h)) (nat (i + 1))"
    and "- 1 \<le> i" and "2 * i \<le> h_nr h"
  shows "heap_inv func (heapify_down func i h) \<and> elems (heapify_down func i h) = elems h \<and>
    h_nr (heapify_down func i h) = h_nr h"
  using assms
proof (induction func i h rule: heapify_down.induct)
  case (1 func i h)
  show ?case
  proof (cases "0 \<le> i")
    case True
    have i: "nat (i + 1) = Suc (nat i)"
      using True by simp
    have sink: "sinking (c_less func) (h_data h) (nat (h_nr h)) (nat i) (nat i)"
      using "1.prems"(3) unfolding i ordered_from_def sinking_def
      by (metis Suc_leI le_neq_implies_less not_less up_less)
    have pos: "int_fits (int (nat i * 2 + 1))"
      using True "1.prems"(2,5) by (simp add: int_fits_def heap_fits_def)
    note m = min_heapify_ordered [OF "1.prems"(1) sink "1.prems"(2) pos]
    then have "heap_fits func (min_heapify func (nat i) h)" "elems (min_heapify func (nat i) h) = elems h"
      "h_nr (min_heapify func (nat i) h) = h_nr h"
      using "1.prems"(2) by (simp_all add: heap_fits_def elems_def)
    then show ?thesis
      using "1.IH" [OF True] "1.prems"(1,5) m True by (simp add: heapify_down.simps [of func i h])
  next
    case False
    then show ?thesis
      using "1.prems" by (simp add: heapify_down.simps [of func i h] heap_inv_def)
  qed
qed

lemma min_heapify_all_correct:
  assumes "callbacks_ok func" and "heap_fits func h"
  shows "heap_inv func (min_heapify_all func h)" and "elems (min_heapify_all func h) = elems h"
    and "h_nr (min_heapify_all func h) = h_nr h"
proof -
  have i: "h_nr h sdiv 2 = h_nr h div 2" "0 \<le> h_nr h"
    using assms(2) by (auto simp: heap_fits_def signed_divide_int_def sgn_if)
  have "ordered_from (c_less func) (h_data h) (nat (h_nr h)) (nat (h_nr h div 2 + 1))"
    using i(2) unfolding ordered_from_def by (auto simp: nat_add_distrib nat_div_distrib)
  then show "heap_inv func (min_heapify_all func h)" "elems (min_heapify_all func h) = elems h"
    "h_nr (min_heapify_all func h) = h_nr h"
    using heapify_down_correct [OF assms, of "h_nr h div 2"] i by (simp_all add: min_heapify_all_def)
qed

end
