(* ===== verification/Min_Heap_Properties.thy ===== *)
theory Min_Heap_Properties
  imports Min_Heap
begin

text \<open>
  The properties of the heap of \<open>linux/min_heap.h\<close>.  The locale \<open>priority_queue\<close> is what a client of the
  heap may rely on; the heap with the order of its element type interprets it.
\<close>

section \<open>A client: taking out everything in order\<close>

primrec drain :: "('q \<Rightarrow> 'a) \<Rightarrow> ('q \<Rightarrow> 'q) \<Rightarrow> nat \<Rightarrow> 'q \<Rightarrow> 'a list" where
  "drain front pop 0 q = []"
| "drain front pop (Suc n) q = front q # drain front pop n (pop q)"

locale priority_queue =
  fixes front :: "'q \<Rightarrow> 'a::linorder" and pop :: "'q \<Rightarrow> 'q" and good :: "'q \<Rightarrow> bool" and bag :: "'q \<Rightarrow> 'a multiset"
  assumes front_in: "good q \<Longrightarrow> bag q \<noteq> {#} \<Longrightarrow> front q \<in># bag q"
    and front_least: "good q \<Longrightarrow> y \<in># bag q \<Longrightarrow> front q \<le> y"
    and bag_pop: "good q \<Longrightarrow> bag q \<noteq> {#} \<Longrightarrow> bag (pop q) = bag q - {#front q#}"
    and good_pop: "good q \<Longrightarrow> bag q \<noteq> {#} \<Longrightarrow> good (pop q)"
begin

lemma drain_sorts:
  "good q \<Longrightarrow> size (bag q) = n \<Longrightarrow> sorted (drain front pop n q) \<and> mset (drain front pop n q) = bag q"
proof (induction n arbitrary: q)
  case (Suc n)
  then have ne: "bag q \<noteq> {#}"
    by auto
  have "size (bag (pop q)) = n"
    using Suc.prems ne by (simp add: bag_pop front_in size_Diff_singleton)
  with Suc ne have ih: "sorted (drain front pop n (pop q))" "mset (drain front pop n (pop q)) = bag q - {#front q#}"
    by (simp_all add: good_pop bag_pop)
  have "front q \<le> y" if "y \<in> set (drain front pop n (pop q))" for y
    using that ih(2) front_least [OF Suc.prems(1)] by (metis in_diffD set_mset_mset)
  then show ?case
    using ih ne Suc.prems(1) by (simp add: front_in)
qed simp

lemma drain_is_sort: "good q \<Longrightarrow> mset xs = bag q \<Longrightarrow> drain front pop (length xs) q = sort xs"
  using drain_sorts [of q "length xs"] by (metis properties_for_sort size_mset)

end

text \<open>The callbacks for elements of \<open>sz\<close> bytes that are compared by the order of their type.\<close>

definition ord_callbacks :: "int \<Rightarrow> 'a::linorder min_heap_callbacks" where
  "ord_callbacks sz = \<lparr>c_elem_size = sz, c_less = (<), c_swp = (\<lambda>x y. (y, x))\<rparr>"

lemma ord_callbacks_ok [simp]: "callbacks_ok (ord_callbacks sz) \<longleftrightarrow> 0 < sz"
  by (auto simp: callbacks_ok_def ord_callbacks_def)

lemma elem_size_ord [simp]: "c_elem_size (ord_callbacks sz) = sz"
  by (simp add: ord_callbacks_def)

lemma elems_iff:
  assumes "heap_fits func h"
  shows "y \<in># elems h \<longleftrightarrow> (\<exists>i < nat (h_nr h). h_data h ! i = y)" and "elems h \<noteq> {#} \<longleftrightarrow> 0 < h_nr h"
proof -
  have "nat (h_nr h) \<le> length (h_data h)"
    by (rule heap_fits_nat [OF assms])
  then show "y \<in># elems h \<longleftrightarrow> (\<exists>i < nat (h_nr h). h_data h ! i = y)"
    by (auto simp: elems_def in_set_conv_nth)
  show "elems h \<noteq> {#} \<longleftrightarrow> 0 < h_nr h"
    using \<open>nat (h_nr h) \<le> length (h_data h)\<close> by (cases "h_data h") (auto simp: elems_def)
qed

lemma root_facts:
  assumes "callbacks_ok func" and "heap_inv func h"
  shows "0 < h_nr h \<Longrightarrow> h_data h ! 0 \<in># elems h" and "y \<in># elems h \<Longrightarrow> \<not> c_less func y (h_data h ! 0)"
proof -
  have f: "heap_fits func h" and o: "ordered_from (c_less func) (h_data h) (nat (h_nr h)) 0"
    using assms(2) by (simp_all add: heap_inv_def)
  show "0 < h_nr h \<Longrightarrow> h_data h ! 0 \<in># elems h"
    using elems_iff(1) [OF f] by force
  show "y \<in># elems h \<Longrightarrow> \<not> c_less func y (h_data h ! 0)"
    using elems_iff(1) [OF f] root_least [OF assms(1) o] by auto
qed

interpretation hq: priority_queue "\<lambda>h. h_data h ! 0" "min_heap_pop (ord_callbacks sz)"
    "\<lambda>h. 0 < sz \<and> heap_inv (ord_callbacks sz) h" elems for sz
proof
  fix h :: "'a min_heap" and y
  assume good: "0 < sz \<and> heap_inv (ord_callbacks sz) h"
  then have i: "heap_inv (ord_callbacks sz) h" and ok: "callbacks_ok (ord_callbacks sz :: 'a min_heap_callbacks)"
    by simp_all
  then have f: "heap_fits (ord_callbacks sz) h"
    by (simp add: heap_inv_def)
  note ne = elems_iff(2) [OF f]
  show "elems h \<noteq> {#} \<Longrightarrow> h_data h ! 0 \<in># elems h"
    using root_facts(1) [OF ok i] ne by simp
  show "y \<in># elems h \<Longrightarrow> h_data h ! 0 \<le> y"
    using root_facts(2) [OF ok i, of y] by (simp add: ord_callbacks_def not_less)
  show "elems h \<noteq> {#} \<Longrightarrow> elems (min_heap_pop (ord_callbacks sz) h) = elems h - {#h_data h ! 0#}"
    "elems h \<noteq> {#} \<Longrightarrow> 0 < sz \<and> heap_inv (ord_callbacks sz) (min_heap_pop (ord_callbacks sz) h)"
    using min_heap_pop_correct(1,2) [OF ok i] ne good by simp_all
qed

section \<open>Properties\<close>

text \<open>
  Every operation keeps a well formed heap well formed and inside its array.  The element in front
  is one that no other is less than; popping takes out exactly this element, pushing adds exactly the
  given one, and popping and pushing at once does both.  Popping an empty heap and pushing on a full
  one change nothing.  From any contents of the array, heapifying makes a well formed heap with the
  same elements.
\<close>

lemma min_heap_operations_part:
  assumes "callbacks_ok func" and "heap_inv func h" and "heap_fits func g"
  shows "(h_nr h \<le> 0 \<longrightarrow> min_heap_pop func h = h) \<and> (h_nr h = h_size h \<longrightarrow> min_heap_push func x h = h) \<and>
    (0 < h_nr h \<longrightarrow>
       h_data h ! 0 \<in># elems h \<and> (\<forall>y \<in># elems h. \<not> c_less func y (h_data h ! 0)) \<and>
       heap_inv func (min_heap_pop func h) \<and> elems (min_heap_pop func h) = elems h - {#h_data h ! 0#} \<and>
       heap_inv func (min_heap_pop_push func x h) \<and>
       elems (min_heap_pop_push func x h) = elems h - {#h_data h ! 0#} + {#x#}) \<and>
    (h_nr h < h_size h \<longrightarrow>
       heap_inv func (min_heap_push func x h) \<and> elems (min_heap_push func x h) = elems h + {#x#}) \<and>
    heap_inv func (min_heapify_all func g) \<and> elems (min_heapify_all func g) = elems g"
  using root_facts [OF assms(1,2)] min_heap_pop_correct(1,2) [OF assms(1,2)]
    min_heap_pop_push_correct(1,2) [OF assms(1,2), of x] min_heap_push_correct(1,2) [OF assms(1,2), of x]
    min_heapify_all_correct(1,2) [OF assms(1,3)]
  by (simp add: min_heap_pop_def min_heap_push_def)

definition example_heap :: "nat min_heap" where
  "example_heap = \<lparr>h_data = [2, 4, 3, 9, 0], h_nr = 4, h_size = 5\<rparr>"

lemma example_heap_inv: "heap_inv (ord_callbacks 8) example_heap"
  by (auto simp: heap_inv_def heap_fits_def ordered_from_def example_heap_def ord_callbacks_def
      less_Suc_eq numeral_eq_Suc)


text \<open>
  Heapifying any array and popping until the heap is empty yields its elements in ascending order:
  heap sort agrees with sorting the list.
\<close>

lemma min_heap_sorts_part:
  assumes "0 < sz" and "heap_fits (ord_callbacks sz) (h :: 'a::linorder min_heap)"
  shows "drain (\<lambda>h. h_data h ! 0) (min_heap_pop (ord_callbacks sz)) (nat (h_nr h)) (min_heapify_all (ord_callbacks sz) h) =
    sort (take (nat (h_nr h)) (h_data h))"
proof -
  have ok: "callbacks_ok (ord_callbacks sz :: 'a min_heap_callbacks)"
    using assms(1) by simp
  have "length (take (nat (h_nr h)) (h_data h)) = nat (h_nr h)"
    using heap_fits_nat [OF assms(2)] by simp
  then show ?thesis
    using hq.drain_is_sort [of sz "min_heapify_all (ord_callbacks sz) h" "take (nat (h_nr h)) (h_data h)"] assms(1)
      min_heapify_all_correct(1,2) [OF ok assms(2)] by (simp add: elems_def)
qed

text \<open>
  C28. For a comparison that is a strict weak order, and an array of less than 2 GiB with at most \<open>2 ^ 30\<close> elements, no index
  or offset overflows an int and every operation keeps a well formed heap well formed and inside its array.  The element in front is one that no other is less
  than; popping takes out exactly this element, pushing adds exactly the given one, and popping and pushing at once does both.
  Popping an empty heap and pushing on a full one change nothing.  From any contents of the array, heapifying makes a well formed
  heap with the same elements, and popping it until it is empty yields them in ascending order: heap sort agrees with sorting the list.
\<close>

theorem min_heap_correct:
  assumes "callbacks_ok func"
    and "heap_inv func h"
    and "heap_fits func g"
    and "0 < sz" and "heap_fits (ord_callbacks sz) (k :: 'b::linorder min_heap)"
  shows "((h_nr h \<le> 0 \<longrightarrow> min_heap_pop func h = h) \<and> (h_nr h = h_size h \<longrightarrow> min_heap_push func x h = h) \<and>
    (0 < h_nr h \<longrightarrow>
       h_data h ! 0 \<in># elems h \<and> (\<forall>y \<in># elems h. \<not> c_less func y (h_data h ! 0)) \<and>
       heap_inv func (min_heap_pop func h) \<and> elems (min_heap_pop func h) = elems h - {#h_data h ! 0#} \<and>
       heap_inv func (min_heap_pop_push func x h) \<and>
       elems (min_heap_pop_push func x h) = elems h - {#h_data h ! 0#} + {#x#}) \<and>
    (h_nr h < h_size h \<longrightarrow>
       heap_inv func (min_heap_push func x h) \<and> elems (min_heap_push func x h) = elems h + {#x#}) \<and>
    heap_inv func (min_heapify_all func g) \<and> elems (min_heapify_all func g) = elems g) \<and>
    (drain (\<lambda>k. h_data k ! 0) (min_heap_pop (ord_callbacks sz)) (nat (h_nr k)) (min_heapify_all (ord_callbacks sz) k) =
    sort (take (nat (h_nr k)) (h_data k)))"
  by (rule conjI [OF min_heap_operations_part [OF assms(1,2,3)] min_heap_sorts_part [OF assms(4,5)]])

theorem min_heap_correct_witness:
  "elems (min_heap_pop (ord_callbacks 8) example_heap) = {#3, 4, 9#} \<and>
   elems (min_heap_push (ord_callbacks 8) 1 example_heap) = {#1, 2, 3, 4, 9#} \<and>
   drain (\<lambda>h. h_data h ! 0) (min_heap_pop (ord_callbacks 8)) 4
     (min_heapify_all (ord_callbacks 8) \<lparr>h_data = [7, 3, 5, 1 :: nat], h_nr = 4, h_size = 4\<rparr>) = [1, 3, 5, 7]"
  using min_heap_correct [where func = "ord_callbacks 8" and sz = 8 and h = example_heap and g = example_heap and x = 1 and
      k = "\<lparr>h_data = [7, 3, 5, 1 :: nat], h_nr = 4, h_size = 4\<rparr>"] example_heap_inv
  by (simp add: heap_inv_def elems_def example_heap_def heap_fits_def)

text \<open>
  The comment in the header asks for a partial order.  That is not enough: heapifying an array ordered
  by proper divisibility can leave 4 in front although 2 divides it.
\<close>

lemma partial_order_insufficient:
  fixes func :: "nat min_heap_callbacks"
  defines "func \<equiv> \<lparr>c_elem_size = 8, c_less = (\<lambda>x y. x dvd y \<and> x \<noteq> y), c_swp = (\<lambda>x y. (y, x))\<rparr>"
  shows "h_data (min_heapify_all func \<lparr>h_data = [4, 3, 5, 2], h_nr = 4, h_size = 4\<rparr>) = [4, 3, 5, 2]"
  unfolding func_def by code_simp

end
