(* ===== verification/Rbtree.thy ===== *)
theory Rbtree
  imports Prelude "HOL-Library.Tree" "HOL-Library.Monad_Syntax"
begin

text \<open>
  The search trees of \<open>linux/rbtree.h\<close>: linking, searching and the leftmost cache.  A pointer to a
  \<open>struct rb_node\<close> is a 64 bit word; the store maps it to its three members and holds the root and
  the cached leftmost node of one tree.  An object that contains an \<open>rb_node\<close> is named by the address of
  that member, so \<open>rb_entry\<close> and \<open>&node->rb\<close> leave a name as it is.  A \<open>struct rb_node **\<close> is a slot: the root
  pointer or a child pointer of a node.

  Rebalancing (\<open>rb_insert_color\<close>, \<open>rb_erase\<close>) and \<open>rb_next\<close> are defined in \<open>lib/rbtree.c\<close>, which is not part
  of the headers: they are parameters of the operations that call them.
\<close>

section \<open>Nodes, slots and trees in the store\<close>

type_synonym rnode = u64

record tstore =
  t_pc :: "rnode \<Rightarrow> u64"
  t_right :: "rnode \<Rightarrow> rnode"
  t_left :: "rnode \<Rightarrow> rnode"
  t_root :: rnode
  t_leftmost :: rnode

datatype rb_slot = root_slot | left_slot rnode | right_slot rnode

definition set_pc :: "rnode \<Rightarrow> u64 \<Rightarrow> 'x tstore_scheme \<Rightarrow> 'x tstore_scheme" where
  "set_pc p v s = s\<lparr>t_pc := (t_pc s)(p := v)\<rparr>"

definition set_left :: "rnode \<Rightarrow> rnode \<Rightarrow> 'x tstore_scheme \<Rightarrow> 'x tstore_scheme" where
  "set_left p v s = s\<lparr>t_left := (t_left s)(p := v)\<rparr>"

definition set_right :: "rnode \<Rightarrow> rnode \<Rightarrow> 'x tstore_scheme \<Rightarrow> 'x tstore_scheme" where
  "set_right p v s = s\<lparr>t_right := (t_right s)(p := v)\<rparr>"

fun slot_get :: "rb_slot \<Rightarrow> 'x tstore_scheme \<Rightarrow> rnode" where
  "slot_get root_slot s = t_root s"
| "slot_get (left_slot p) s = t_left s p"
| "slot_get (right_slot p) s = t_right s p"

fun slot_set :: "rb_slot \<Rightarrow> rnode \<Rightarrow> 'x tstore_scheme \<Rightarrow> 'x tstore_scheme" where
  "slot_set root_slot v s = s\<lparr>t_root := v\<rparr>"
| "slot_set (left_slot p) v s = set_left p v s"
| "slot_set (right_slot p) v s = set_right p v s"

definition raw_rb_parent :: "u64 \<Rightarrow> rnode" where
  "raw_rb_parent pc = pc AND NOT 3"

definition rb_parent :: "'x tstore_scheme \<Rightarrow> rnode \<Rightarrow> rnode" where
  "rb_parent s r = t_pc s r AND NOT 3"

definition RB_EMPTY_ROOT :: "'x tstore_scheme \<Rightarrow> bool" where
  "RB_EMPTY_ROOT s \<longleftrightarrow> t_root s = 0"

definition RB_EMPTY_NODE :: "rnode \<Rightarrow> 'x tstore_scheme \<Rightarrow> bool" where
  "RB_EMPTY_NODE node s \<longleftrightarrow> t_pc s node = node"

definition RB_CLEAR_NODE :: "rnode \<Rightarrow> 'x tstore_scheme \<Rightarrow> 'x tstore_scheme" where
  "RB_CLEAR_NODE node = set_pc node node"

section \<open>Linking and searching\<close>

definition rb_link_node :: "rnode \<Rightarrow> rnode \<Rightarrow> rb_slot \<Rightarrow> 'x tstore_scheme \<Rightarrow> 'x tstore_scheme" where
  "rb_link_node node parent rb_link =
     stmts [set_pc node parent, set_right node 0, set_left node 0, slot_set rb_link node]"

definition rb_link_node_rcu :: "rnode \<Rightarrow> rnode \<Rightarrow> rb_slot \<Rightarrow> 'x tstore_scheme \<Rightarrow> 'x tstore_scheme" where
  "rb_link_node_rcu node parent rb_link =
     stmts [set_pc node parent, set_right node 0, set_left node 0, slot_set rb_link node]"

definition rb_first_cached :: "'x tstore_scheme \<Rightarrow> rnode" where
  "rb_first_cached s = t_leftmost s"

definition rb_insert_color_cached ::
  "(rnode \<Rightarrow> 'x tstore_scheme \<Rightarrow> 'x tstore_scheme) \<Rightarrow> rnode \<Rightarrow> bool \<Rightarrow> 'x tstore_scheme \<Rightarrow> 'x tstore_scheme" where
  "rb_insert_color_cached rb_insert_color node leftmost s =
     (let s = (if leftmost then s\<lparr>t_leftmost := node\<rparr> else s) in rb_insert_color node s)"

definition rb_erase_cached ::
  "(rnode \<Rightarrow> 'x tstore_scheme \<Rightarrow> 'x tstore_scheme) \<Rightarrow> (rnode \<Rightarrow> 'x tstore_scheme \<Rightarrow> rnode) \<Rightarrow> rnode \<Rightarrow>
   'x tstore_scheme \<Rightarrow> rnode \<times> 'x tstore_scheme" where
  "rb_erase_cached rb_erase rb_next node s =
     (let leftmost = 0;
          (leftmost, s) =
            (if t_leftmost s = node then (rb_next node s, s\<lparr>t_leftmost := rb_next node s\<rparr>) else (leftmost, s));
          s = rb_erase node s
      in (leftmost, s))"

definition rb_replace_node_cached ::
  "(rnode \<Rightarrow> rnode \<Rightarrow> 'x tstore_scheme \<Rightarrow> 'x tstore_scheme) \<Rightarrow> rnode \<Rightarrow> rnode \<Rightarrow> 'x tstore_scheme \<Rightarrow> 'x tstore_scheme" where
  "rb_replace_node_cached rb_replace_node victim new s =
     (let s = (if t_leftmost s = victim then s\<lparr>t_leftmost := new\<rparr> else s) in rb_replace_node victim new s)"

text \<open>The descent of \<open>rb_add_cached\<close>: the slot, the parent and the flag \<open>leftmost\<close> at its end.\<close>

partial_function (option) rb_descend ::
  "(rnode \<Rightarrow> rnode \<Rightarrow> bool) \<Rightarrow> rnode \<Rightarrow> rb_slot \<Rightarrow> rnode \<Rightarrow> bool \<Rightarrow> 'x tstore_scheme \<Rightarrow> (rb_slot \<times> rnode \<times> bool) option" where
  "rb_descend lt node link parent leftmost s =
     (if slot_get link s \<noteq> 0 then
        let parent = slot_get link s
        in if lt node parent then rb_descend lt node (left_slot parent) parent leftmost s
           else rb_descend lt node (right_slot parent) parent False s
      else Some (link, parent, leftmost))"

definition rb_add_cached ::
  "(rnode \<Rightarrow> 'x tstore_scheme \<Rightarrow> 'x tstore_scheme) \<Rightarrow> (rnode \<Rightarrow> rnode \<Rightarrow> bool) \<Rightarrow> rnode \<Rightarrow> 'x tstore_scheme \<Rightarrow>
   (rnode \<times> 'x tstore_scheme) option" where
  "rb_add_cached rb_insert_color lt node s =
     do { (link, parent, leftmost) \<leftarrow> rb_descend lt node root_slot 0 True s;
          let s = rb_link_node node parent link s;
          let s = rb_insert_color_cached rb_insert_color node leftmost s;
          Some (if leftmost then node else 0, s) }"

text \<open>\<open>rb_add\<close> makes the same descent and has no use for the flag.\<close>

definition rb_add ::
  "(rnode \<Rightarrow> 'x tstore_scheme \<Rightarrow> 'x tstore_scheme) \<Rightarrow> (rnode \<Rightarrow> rnode \<Rightarrow> bool) \<Rightarrow> rnode \<Rightarrow> 'x tstore_scheme \<Rightarrow>
   'x tstore_scheme option" where
  "rb_add rb_insert_color lt node s =
     do { (link, parent, _) \<leftarrow> rb_descend lt node root_slot 0 True s;
          Some (rb_insert_color node (rb_link_node node parent link s)) }"

partial_function (option) rb_find_slot ::
  "(rnode \<Rightarrow> rnode \<Rightarrow> int) \<Rightarrow> rnode \<Rightarrow> rb_slot \<Rightarrow> rnode \<Rightarrow> 'x tstore_scheme \<Rightarrow> (rnode + rb_slot \<times> rnode) option" where
  "rb_find_slot cmp node link parent s =
     (if slot_get link s \<noteq> 0 then
        let parent = slot_get link s; c = cmp node parent
        in if c < 0 then rb_find_slot cmp node (left_slot parent) parent s
           else if c > 0 then rb_find_slot cmp node (right_slot parent) parent s
           else Some (Inl parent)
      else Some (Inr (link, parent)))"

definition rb_find_add ::
  "(rnode \<Rightarrow> 'x tstore_scheme \<Rightarrow> 'x tstore_scheme) \<Rightarrow> (rnode \<Rightarrow> rnode \<Rightarrow> int) \<Rightarrow> rnode \<Rightarrow> 'x tstore_scheme \<Rightarrow>
   (rnode \<times> 'x tstore_scheme) option" where
  "rb_find_add rb_insert_color cmp node s =
     do { res \<leftarrow> rb_find_slot cmp node root_slot 0 s;
          case res of
            Inl parent \<Rightarrow> Some (parent, s)
          | Inr (link, parent) \<Rightarrow> Some (0, rb_insert_color node (rb_link_node node parent link s)) }"

partial_function (option) rb_find_from :: "(rnode \<Rightarrow> int) \<Rightarrow> rnode \<Rightarrow> 'x tstore_scheme \<Rightarrow> rnode option" where
  "rb_find_from cmp node s =
     (if node \<noteq> 0 then
        let c = cmp node
        in if c < 0 then rb_find_from cmp (t_left s node) s
           else if c > 0 then rb_find_from cmp (t_right s node) s
           else Some node
      else Some 0)"

definition rb_find :: "(rnode \<Rightarrow> int) \<Rightarrow> 'x tstore_scheme \<Rightarrow> rnode option" where
  "rb_find cmp s = rb_find_from cmp (t_root s) s"

partial_function (option) rb_find_first_from ::
  "(rnode \<Rightarrow> int) \<Rightarrow> rnode \<Rightarrow> rnode \<Rightarrow> 'x tstore_scheme \<Rightarrow> rnode option" where
  "rb_find_first_from cmp node match s =
     (if node \<noteq> 0 then
        let c = cmp node
        in if c \<le> 0 then rb_find_first_from cmp (t_left s node) (if c = 0 then node else match) s
           else rb_find_first_from cmp (t_right s node) match s
      else Some match)"

definition rb_find_first :: "(rnode \<Rightarrow> int) \<Rightarrow> 'x tstore_scheme \<Rightarrow> rnode option" where
  "rb_find_first cmp s = rb_find_first_from cmp (t_root s) 0 s"

definition rb_next_match ::
  "(rnode \<Rightarrow> 'x tstore_scheme \<Rightarrow> rnode) \<Rightarrow> (rnode \<Rightarrow> int) \<Rightarrow> rnode \<Rightarrow> 'x tstore_scheme \<Rightarrow> rnode" where
  "rb_next_match rb_next cmp node s =
     (let node = rb_next node s; node = (if node \<noteq> 0 \<and> cmp node \<noteq> 0 then 0 else node) in node)"

text \<open>\<open>for (node = rb_find_first(...); node; node = rb_next_match(...))\<close>: the nodes the loop visits.\<close>

partial_function (option) rb_for_each_from ::
  "(rnode \<Rightarrow> 'x tstore_scheme \<Rightarrow> rnode) \<Rightarrow> (rnode \<Rightarrow> int) \<Rightarrow> rnode \<Rightarrow> 'x tstore_scheme \<Rightarrow> rnode list option" where
  "rb_for_each_from rb_next cmp node s =
     (if node \<noteq> 0 then
        do { rest \<leftarrow> rb_for_each_from rb_next cmp (rb_next_match rb_next cmp node s) s;
             Some (node # rest) }
      else Some [])"

definition rb_for_each ::
  "(rnode \<Rightarrow> 'x tstore_scheme \<Rightarrow> rnode) \<Rightarrow> (rnode \<Rightarrow> int) \<Rightarrow> 'x tstore_scheme \<Rightarrow> rnode list option" where
  "rb_for_each rb_next cmp s =
     do { node \<leftarrow> rb_find_first cmp s; rb_for_each_from rb_next cmp node s }"

end
