(* ===== verification/Rb_Augmented.thy ===== *)
theory Rb_Augmented
  imports Rbtree
begin

text \<open>
  The augmented trees of \<open>linux/rbtree_augmented.h\<close> and the interval trees that \<open>linux/interval_tree_generic.h\<close>
  builds on them.  A node of an interval tree has its end points (the macros \<open>ITSTART\<close> and \<open>ITLAST\<close>) and the
  greatest last end point of its subtree (\<open>ITSUBTREE\<close>); their type is \<open>unsigned long\<close>, as in
  \<open>linux/interval_tree.h\<close>.

  The rebalancing steps \<open>__rb_insert_augmented\<close> and \<open>__rb_erase_color\<close> are defined in \<open>lib/rbtree.c\<close>: they are
  parameters, and receive the callback \<open>rotate\<close> the code hands them.
\<close>

section \<open>Colours and parents\<close>

definition RB_RED :: u64 where
  "RB_RED = 0"

definition RB_BLACK :: u64 where
  "RB_BLACK = 1"

definition raw_rb_color :: "u64 \<Rightarrow> u64" where
  "raw_rb_color pc = pc AND 1"

definition raw_rb_is_black :: "u64 \<Rightarrow> bool" where
  "raw_rb_is_black pc \<longleftrightarrow> raw_rb_color pc \<noteq> 0"

definition raw_rb_is_red :: "u64 \<Rightarrow> bool" where
  "raw_rb_is_red pc \<longleftrightarrow> \<not> raw_rb_color pc \<noteq> 0"

definition rb_color :: "'x tstore_scheme \<Rightarrow> rnode \<Rightarrow> u64" where
  "rb_color s rb = raw_rb_color (t_pc s rb)"

definition rb_is_red :: "'x tstore_scheme \<Rightarrow> rnode \<Rightarrow> bool" where
  "rb_is_red s rb \<longleftrightarrow> raw_rb_is_red (t_pc s rb)"

definition rb_is_black :: "'x tstore_scheme \<Rightarrow> rnode \<Rightarrow> bool" where
  "rb_is_black s rb \<longleftrightarrow> raw_rb_is_black (t_pc s rb)"

definition rb_set_parent :: "rnode \<Rightarrow> rnode \<Rightarrow> 'x tstore_scheme \<Rightarrow> 'x tstore_scheme" where
  "rb_set_parent rb p s = set_pc rb (rb_color s rb OR p) s"

definition rb_set_parent_color :: "rnode \<Rightarrow> rnode \<Rightarrow> u64 \<Rightarrow> 'x tstore_scheme \<Rightarrow> 'x tstore_scheme" where
  "rb_set_parent_color rb p color s = set_pc rb (p OR color) s"

definition raw_rb_change_child :: "rnode \<Rightarrow> rnode \<Rightarrow> rnode \<Rightarrow> 'x tstore_scheme \<Rightarrow> 'x tstore_scheme" where
  "raw_rb_change_child old new parent s =
     (if parent \<noteq> 0 then
        if t_left s parent = old then set_left parent new s else set_right parent new s
      else s\<lparr>t_root := new\<rparr>)"

definition raw_rb_change_child_rcu :: "rnode \<Rightarrow> rnode \<Rightarrow> rnode \<Rightarrow> 'x tstore_scheme \<Rightarrow> 'x tstore_scheme" where
  "raw_rb_change_child_rcu old new parent s =
     (if parent \<noteq> 0 then
        if t_left s parent = old then set_left parent new s else set_right parent new s
      else s\<lparr>t_root := new\<rparr>)"

section \<open>Insertion and removal\<close>

text \<open>The callback \<open>propagate\<close> is a loop up the tree, so it has a result only where the loop ends.\<close>

record 's rb_augment_callbacks =
  propagate :: "rnode \<Rightarrow> rnode \<Rightarrow> 's \<Rightarrow> 's option"
  copy :: "rnode \<Rightarrow> rnode \<Rightarrow> 's \<Rightarrow> 's"
  rotate :: "rnode \<Rightarrow> rnode \<Rightarrow> 's \<Rightarrow> 's"

type_synonym 's rebalance = "(rnode \<Rightarrow> rnode \<Rightarrow> 's \<Rightarrow> 's) \<Rightarrow> rnode \<Rightarrow> 's \<Rightarrow> 's"

definition rb_insert_augmented ::
  "'x tstore_scheme rebalance \<Rightarrow> 'x tstore_scheme rb_augment_callbacks \<Rightarrow> rnode \<Rightarrow> 'x tstore_scheme \<Rightarrow> 'x tstore_scheme" where
  "rb_insert_augmented raw_rb_insert_augmented augment node s = raw_rb_insert_augmented (rotate augment) node s"

definition rb_insert_augmented_cached ::
  "'x tstore_scheme rebalance \<Rightarrow> 'x tstore_scheme rb_augment_callbacks \<Rightarrow> rnode \<Rightarrow> bool \<Rightarrow>
   'x tstore_scheme \<Rightarrow> 'x tstore_scheme" where
  "rb_insert_augmented_cached raw_rb_insert_augmented augment node newleft s =
     (let s = (if newleft then s\<lparr>t_leftmost := node\<rparr> else s)
      in rb_insert_augmented raw_rb_insert_augmented augment node s)"

text \<open>
  The three cases of \<open>__rb_erase_augmented\<close>.  Each gives the node \<open>tmp\<close> from which the augmented data is
  brought up to date, the node \<open>rebalance\<close> and the store.
\<close>

definition rb_erase_no_left :: "rnode \<Rightarrow> 'x tstore_scheme \<Rightarrow> rnode \<times> rnode \<times> 'x tstore_scheme" where
  "rb_erase_no_left node s =
     (let child = t_right s node;
          pc = t_pc s node;
          parent = raw_rb_parent pc;
          s = raw_rb_change_child node child parent s;
          (rebalance, s) =
            (if child \<noteq> 0 then (0, set_pc child pc s)
             else (if raw_rb_is_black pc then parent else 0, s))
      in (parent, rebalance, s))"

definition rb_erase_no_right :: "rnode \<Rightarrow> 'x tstore_scheme \<Rightarrow> rnode \<times> rnode \<times> 'x tstore_scheme" where
  "rb_erase_no_right node s =
     (let tmp = t_left s node;
          pc = t_pc s node;
          s = set_pc tmp pc s;
          parent = raw_rb_parent pc;
          s = raw_rb_change_child node tmp parent s
      in (parent, 0, s))"

text \<open>The \<open>do\<close> loop that walks down to the successor: \<open>parent\<close> and \<open>successor\<close> at its end.\<close>

partial_function (option) rb_successor :: "rnode \<Rightarrow> rnode \<Rightarrow> 'x tstore_scheme \<Rightarrow> (rnode \<times> rnode) option" where
  "rb_successor successor tmp s =
     (let parent = successor; successor = tmp; tmp = t_left s tmp
      in if tmp \<noteq> 0 then rb_successor successor tmp s else Some (parent, successor))"

definition rb_erase_two ::
  "'x tstore_scheme rb_augment_callbacks \<Rightarrow> rnode \<Rightarrow> 'x tstore_scheme \<Rightarrow> (rnode \<times> rnode \<times> 'x tstore_scheme) option" where
  "rb_erase_two augment node s =
     do { let child = t_right s node;
          let tmp = t_left s child;
          (parent, successor, child2, s) \<leftarrow>
            (if tmp = 0 then
               Some (child, child, t_right s child, copy augment node child s)
             else
               do { (parent, successor) \<leftarrow> rb_successor child tmp s;
                    let child2 = t_right s successor;
                    let s = set_left parent child2 s;
                    let s = set_right successor child s;
                    let s = rb_set_parent child successor s;
                    let s = copy augment node successor s;
                    s \<leftarrow> propagate augment parent successor s;
                    Some (parent, successor, child2, s) });
          let tmp = t_left s node;
          let s = set_left successor tmp s;
          let s = rb_set_parent tmp successor s;
          let pc = t_pc s node;
          let tmp = raw_rb_parent pc;
          let s = raw_rb_change_child node successor tmp s;
          let (rebalance, s) =
            (if child2 \<noteq> 0 then (0, rb_set_parent_color child2 parent RB_BLACK s)
             else (if rb_is_black s successor then parent else 0, s));
          let s = set_pc successor pc s;
          Some (successor, rebalance, s) }"

definition raw_rb_erase_augmented ::
  "'x tstore_scheme rb_augment_callbacks \<Rightarrow> rnode \<Rightarrow> 'x tstore_scheme \<Rightarrow> (rnode \<times> 'x tstore_scheme) option" where
  "raw_rb_erase_augmented augment node s =
     do { (tmp, rebalance, s) \<leftarrow>
            (if t_left s node = 0 then Some (rb_erase_no_left node s)
             else if t_right s node = 0 then Some (rb_erase_no_right node s)
             else rb_erase_two augment node s);
          s \<leftarrow> propagate augment tmp 0 s;
          Some (rebalance, s) }"

definition rb_erase_augmented ::
  "'x tstore_scheme rebalance \<Rightarrow> 'x tstore_scheme rb_augment_callbacks \<Rightarrow> rnode \<Rightarrow> 'x tstore_scheme \<Rightarrow>
   'x tstore_scheme option" where
  "rb_erase_augmented raw_rb_erase_color augment node s =
     do { (rebalance, s) \<leftarrow> raw_rb_erase_augmented augment node s;
          Some (if rebalance \<noteq> 0 then raw_rb_erase_color (rotate augment) rebalance s else s) }"

definition rb_erase_augmented_cached ::
  "(rnode \<Rightarrow> 'x tstore_scheme \<Rightarrow> rnode) \<Rightarrow> 'x tstore_scheme rebalance \<Rightarrow> 'x tstore_scheme rb_augment_callbacks \<Rightarrow>
   rnode \<Rightarrow> 'x tstore_scheme \<Rightarrow> 'x tstore_scheme option" where
  "rb_erase_augmented_cached rb_next raw_rb_erase_color augment node s =
     (let s = (if t_leftmost s = node then s\<lparr>t_leftmost := rb_next node s\<rparr> else s)
      in rb_erase_augmented raw_rb_erase_color augment node s)"

section \<open>The callbacks for a maximum\<close>

record itstore = tstore +
  t_start :: "rnode \<Rightarrow> u64"
  t_last :: "rnode \<Rightarrow> u64"
  t_sub :: "rnode \<Rightarrow> u64"

definition set_sub :: "rnode \<Rightarrow> u64 \<Rightarrow> 'x itstore_scheme \<Rightarrow> 'x itstore_scheme" where
  "set_sub p v s = s\<lparr>t_sub := (t_sub s)(p := v)\<rparr>"

definition augment_compute_max :: "rnode \<Rightarrow> bool \<Rightarrow> 'x itstore_scheme \<Rightarrow> bool \<times> 'x itstore_scheme" where
  "augment_compute_max node exit s =
     (let mx = t_last s node;
          mx = (if t_left s node \<noteq> 0 then
                  let child = t_left s node in if t_sub s child > mx then t_sub s child else mx
                else mx);
          mx = (if t_right s node \<noteq> 0 then
                  let child = t_right s node in if t_sub s child > mx then t_sub s child else mx
                else mx)
      in if exit \<and> t_sub s node = mx then (True, s) else (False, set_sub node mx s))"

partial_function (option) augment_propagate :: "rnode \<Rightarrow> rnode \<Rightarrow> 'x itstore_scheme \<Rightarrow> 'x itstore_scheme option" where
  "augment_propagate rb stop s =
     (if rb \<noteq> stop then
        let (done, s) = augment_compute_max rb True s
        in if done then Some s else augment_propagate (rb_parent s rb) stop s
      else Some s)"

definition augment_copy :: "rnode \<Rightarrow> rnode \<Rightarrow> 'x itstore_scheme \<Rightarrow> 'x itstore_scheme" where
  "augment_copy old new s = set_sub new (t_sub s old) s"

definition augment_rotate :: "rnode \<Rightarrow> rnode \<Rightarrow> 'x itstore_scheme \<Rightarrow> 'x itstore_scheme" where
  "augment_rotate old new s = (let s = set_sub new (t_sub s old) s in snd (augment_compute_max old False s))"

definition it_augment :: "'x itstore_scheme rb_augment_callbacks" where
  "it_augment = \<lparr>propagate = augment_propagate, copy = augment_copy, rotate = augment_rotate\<rparr>"

section \<open>Interval trees\<close>

text \<open>The loop of \<open>_insert\<close>: the slot, the parent, the flag \<open>leftmost\<close> and the store at its end.\<close>

partial_function (option) it_descend ::
  "u64 \<Rightarrow> u64 \<Rightarrow> rb_slot \<Rightarrow> rnode \<Rightarrow> bool \<Rightarrow> 'x itstore_scheme \<Rightarrow>
   (rb_slot \<times> rnode \<times> bool \<times> 'x itstore_scheme) option" where
  "it_descend start lst link parent leftmost s =
     (if slot_get link s \<noteq> 0 then
        let parent = slot_get link s;
            s = (if t_sub s parent < lst then set_sub parent lst s else s)
        in if start < t_start s parent then it_descend start lst (left_slot parent) parent leftmost s
           else it_descend start lst (right_slot parent) parent False s
      else Some (link, parent, leftmost, s))"

definition it_insert :: "'x itstore_scheme rebalance \<Rightarrow> rnode \<Rightarrow> 'x itstore_scheme \<Rightarrow> 'x itstore_scheme option" where
  "it_insert raw_rb_insert_augmented node s =
     do { let start = t_start s node;
          let lst = t_last s node;
          (link, parent, leftmost, s) \<leftarrow> it_descend start lst root_slot 0 True s;
          let s = set_sub node lst s;
          let s = rb_link_node node parent link s;
          Some (rb_insert_augmented_cached raw_rb_insert_augmented it_augment node leftmost s) }"

definition it_remove ::
  "(rnode \<Rightarrow> 'x itstore_scheme \<Rightarrow> rnode) \<Rightarrow> 'x itstore_scheme rebalance \<Rightarrow> rnode \<Rightarrow> 'x itstore_scheme \<Rightarrow>
   'x itstore_scheme option" where
  "it_remove rb_next raw_rb_erase_color node s = rb_erase_augmented_cached rb_next raw_rb_erase_color it_augment node s"

partial_function (option) it_subtree_search :: "rnode \<Rightarrow> u64 \<Rightarrow> u64 \<Rightarrow> 'x itstore_scheme \<Rightarrow> rnode option" where
  "it_subtree_search node start lst s =
     (if t_left s node \<noteq> 0 \<and> start \<le> t_sub s (t_left s node) then it_subtree_search (t_left s node) start lst s
      else if t_start s node \<le> lst then
        if start \<le> t_last s node then Some node
        else if t_right s node \<noteq> 0 \<and> start \<le> t_sub s (t_right s node) then
          it_subtree_search (t_right s node) start lst s
        else Some 0
      else Some 0)"

definition it_iter_first :: "u64 \<Rightarrow> u64 \<Rightarrow> 'x itstore_scheme \<Rightarrow> rnode option" where
  "it_iter_first start lst s =
     (if t_root s = 0 then Some 0
      else
        let node = t_root s
        in if t_sub s node < start then Some 0
           else
             let leftmost = t_leftmost s
             in if t_start s leftmost > lst then Some 0 else it_subtree_search node start lst s)"

text \<open>The inner \<open>do\<close> loop of \<open>_iter_next\<close>: \<open>node\<close> at its end, or \<open>0\<close> where the function returns \<open>NULL\<close> from it.\<close>

partial_function (option) it_climb :: "rnode \<Rightarrow> 'x itstore_scheme \<Rightarrow> rnode option" where
  "it_climb node s =
     (let rb = rb_parent s node
      in if rb = 0 then Some 0
         else let prev = node; node = rb; rb = t_right s node
              in if prev = rb then it_climb node s else Some node)"

partial_function (option) it_iter_next_from :: "rnode \<Rightarrow> rnode \<Rightarrow> u64 \<Rightarrow> u64 \<Rightarrow> 'x itstore_scheme \<Rightarrow> rnode option" where
  "it_iter_next_from node rb start lst s =
     (if rb \<noteq> 0 \<and> start \<le> t_sub s rb then it_subtree_search rb start lst s
      else
        do { node \<leftarrow> it_climb node s;
             if node = 0 then Some 0
             else if lst < t_start s node then Some 0
             else if start \<le> t_last s node then Some node
             else it_iter_next_from node (t_right s node) start lst s })"

definition it_iter_next :: "rnode \<Rightarrow> u64 \<Rightarrow> u64 \<Rightarrow> 'x itstore_scheme \<Rightarrow> rnode option" where
  "it_iter_next node start lst s = it_iter_next_from node (t_right s node) start lst s"

end
