(* ===== verification/Rb_Rep.thy ===== *)
theory Rb_Rep
  imports Rbtree
begin

text \<open>
  The tree a root pointer stands for, and trees with a hole.  A tree in the store is a value of type
  \<open>rnode tree\<close>; a context is the path from a hole up to the root, with the siblings on the way.  An
  operation replaces the tree in a hole; the frame lemmas show that the context does not notice.
\<close>

section \<open>Trees and contexts\<close>

definition aligned :: "rnode \<Rightarrow> bool" where
  "aligned x \<longleftrightarrow> x AND 3 = 0"

fun rb_rep :: "'x tstore_scheme \<Rightarrow> rnode \<Rightarrow> rnode \<Rightarrow> rnode tree \<Rightarrow> bool" where
  "rb_rep s q p Leaf \<longleftrightarrow> p = 0"
| "rb_rep s q p (Node l x r) \<longleftrightarrow>
     p = x \<and> x \<noteq> 0 \<and> aligned x \<and> rb_parent s x = q \<and> rb_rep s x (t_left s x) l \<and> rb_rep s x (t_right s x) r"

definition troot :: "'x tstore_scheme \<Rightarrow> rnode tree \<Rightarrow> bool" where
  "troot s t \<longleftrightarrow> rb_rep s 0 (t_root s) t \<and> distinct (inorder t)"

datatype rb_step = wl rnode "rnode tree" | wr "rnode tree" rnode

type_synonym rb_ctx = "rb_step list"

fun plug :: "rb_ctx \<Rightarrow> rnode tree \<Rightarrow> rnode tree" where
  "plug [] t = t"
| "plug (wl x r # c) t = plug c (Node t x r)"
| "plug (wr l x # c) t = plug c (Node l x t)"

fun upper :: "rb_ctx \<Rightarrow> rnode" where
  "upper [] = 0"
| "upper (wl x r # c) = x"
| "upper (wr l x # c) = x"

fun slot_of :: "rb_ctx \<Rightarrow> rb_slot" where
  "slot_of [] = root_slot"
| "slot_of (wl x r # c) = left_slot x"
| "slot_of (wr l x # c) = right_slot x"

fun before :: "rb_ctx \<Rightarrow> rnode list" where
  "before [] = []"
| "before (wl x r # c) = before c"
| "before (wr l x # c) = before c @ inorder l @ [x]"

fun after :: "rb_ctx \<Rightarrow> rnode list" where
  "after [] = []"
| "after (wl x r # c) = x # inorder r @ after c"
| "after (wr l x # c) = after c"

fun ctx_ok :: "'x tstore_scheme \<Rightarrow> rb_ctx \<Rightarrow> bool" where
  "ctx_ok s [] \<longleftrightarrow> True"
| "ctx_ok s (wl x r # c) \<longleftrightarrow>
     x \<noteq> 0 \<and> aligned x \<and> rb_parent s x = upper c \<and> slot_get (slot_of c) s = x \<and> rb_rep s x (t_right s x) r \<and> ctx_ok s c"
| "ctx_ok s (wr l x # c) \<longleftrightarrow>
     x \<noteq> 0 \<and> aligned x \<and> rb_parent s x = upper c \<and> slot_get (slot_of c) s = x \<and> rb_rep s x (t_left s x) l \<and> ctx_ok s c"

definition ctx_nodes :: "rb_ctx \<Rightarrow> rnode set" where
  "ctx_nodes c = set (before c) \<union> set (after c)"

lemma ctx_nodes_simps [simp]:
  "ctx_nodes [] = {}" "ctx_nodes (wl x r # c) = insert x (set_tree r \<union> ctx_nodes c)"
  "ctx_nodes (wr l x # c) = insert x (set_tree l \<union> ctx_nodes c)"
  by (auto simp: ctx_nodes_def)

lemma inorder_plug: "inorder (plug c t) = before c @ inorder t @ after c"
  by (induction c t rule: plug.induct) simp_all

lemma set_tree_plug: "set_tree (plug c t) = ctx_nodes c \<union> set_tree t"
  by (induction c t rule: plug.induct) auto

lemma plug_append: "plug (c @ d) t = plug d (plug c t)"
  by (induction c t rule: plug.induct) simp_all

lemma rep_plug: "rb_rep s 0 (t_root s) (plug c t) \<longleftrightarrow> ctx_ok s c \<and> rb_rep s (upper c) (slot_get (slot_of c) s) t"
  by (induction c t rule: plug.induct) auto

lemma troot_plug:
  "troot s (plug c t) \<longleftrightarrow>
     ctx_ok s c \<and> rb_rep s (upper c) (slot_get (slot_of c) s) t \<and> distinct (before c @ inorder t @ after c)"
  by (auto simp: troot_def rep_plug inorder_plug)

lemma set_inorder_ctx: "set (before c) \<union> set (after c) = ctx_nodes c"
  by (simp add: ctx_nodes_def)

lemma rep_nonzero: "rb_rep s q p t \<Longrightarrow> x \<in> set_tree t \<Longrightarrow> x \<noteq> 0 \<and> aligned x"
  by (induction s q p t rule: rb_rep.induct) auto

lemma rep_ptr: "rb_rep s q p t \<Longrightarrow> p = (case t of Leaf \<Rightarrow> 0 | Node l x r \<Rightarrow> x)"
  by (cases t) auto

lemma rep_zero [simp]: "rb_rep s q 0 t \<longleftrightarrow> t = Leaf"
  by (cases t) auto

lemma rep_nonzeroE: "rb_rep s q p t \<Longrightarrow> p \<noteq> 0 \<Longrightarrow> \<exists>l r. t = Node l p r"
  by (cases t) auto

lemma ctx_nonzero: "ctx_ok s c \<Longrightarrow> x \<in> ctx_nodes c \<Longrightarrow> x \<noteq> 0 \<and> aligned x"
  by (induction s c rule: ctx_ok.induct) (auto dest: rep_nonzero)

lemma upper_ctx: "c \<noteq> [] \<Longrightarrow> upper c \<in> ctx_nodes c"
  by (cases c rule: upper.cases) auto

lemma upper_zero: "ctx_ok s c \<Longrightarrow> upper c = 0 \<longleftrightarrow> c = []"
  by (cases c rule: upper.cases) auto

lemma aligned_upper: "ctx_ok s c \<Longrightarrow> aligned (upper c)"
  by (cases c rule: upper.cases) (auto simp: aligned_def)

text \<open>A parent pointer is read back from a word that also holds the colour, and without it.\<close>

lemma parent_colour:
  assumes "aligned p" and "c AND 3 = c"
  shows "raw_rb_parent (c OR p) = p"
  unfolding raw_rb_parent_def
proof (rule bit_eqI)
  fix n
  have "bit (p AND 3) n = False" "bit (c AND 3) n = bit c n"
    using assms by (simp_all add: aligned_def)
  then show "bit ((c OR p) AND NOT 3) n \<longleftrightarrow> bit p n" if "possible_bit TYPE(64 word) n"
    using that unfolding bit_and_iff bit_or_iff bit_not_iff by blast
qed

lemma parent_aligned: "aligned p \<Longrightarrow> raw_rb_parent p = p"
  using parent_colour [of p 0] by simp

section \<open>Frames\<close>

lemma tset_sel [simp]:
  "t_pc (set_pc p v s) = (t_pc s)(p := v)" "t_left (set_pc p v s) = t_left s" "t_right (set_pc p v s) = t_right s"
  "t_root (set_pc p v s) = t_root s" "t_leftmost (set_pc p v s) = t_leftmost s"
  "t_pc (set_left p v s) = t_pc s" "t_left (set_left p v s) = (t_left s)(p := v)" "t_right (set_left p v s) = t_right s"
  "t_root (set_left p v s) = t_root s" "t_leftmost (set_left p v s) = t_leftmost s"
  "t_pc (set_right p v s) = t_pc s" "t_left (set_right p v s) = t_left s" "t_right (set_right p v s) = (t_right s)(p := v)"
  "t_root (set_right p v s) = t_root s" "t_leftmost (set_right p v s) = t_leftmost s"
  by (simp_all add: set_pc_def set_left_def set_right_def)

lemma rb_parent_root [simp]: "rb_parent (s\<lparr>t_root := v\<rparr>) x = rb_parent s x" "rb_parent (s\<lparr>t_leftmost := v\<rparr>) x = rb_parent s x"
  by (simp_all add: rb_parent_def)

definition same :: "rnode set \<Rightarrow> 'x tstore_scheme \<Rightarrow> 'x tstore_scheme \<Rightarrow> bool" where
  "same A s s' \<longleftrightarrow> (\<forall>x \<in> A. rb_parent s' x = rb_parent s x \<and> t_left s' x = t_left s x \<and> t_right s' x = t_right s x)"

lemma same_mono: "same A s s' \<Longrightarrow> B \<subseteq> A \<Longrightarrow> same B s s'"
  by (auto simp: same_def)

lemma same_trans: "same A s s' \<Longrightarrow> same A s' s'' \<Longrightarrow> same A s s''"
  by (auto simp: same_def)

lemma rep_same: "same (set_tree t) s s' \<Longrightarrow> rb_rep s' q p t \<longleftrightarrow> rb_rep s q p t"
proof (induction t arbitrary: q p)
  case (Node l x r)
  from Node.prems have "same (set_tree l) s s'" "same (set_tree r) s s'" "same {x} s s'"
    by (auto simp: same_def)
  then show ?case
    using Node.IH by (auto simp: same_def)
qed simp

lemma ctx_same:
  "same (ctx_nodes c) s s' \<Longrightarrow> (c = [] \<or> t_root s' = t_root s) \<Longrightarrow> ctx_ok s' c \<longleftrightarrow> ctx_ok s c"
  "same (ctx_nodes c) s s' \<Longrightarrow> t_root s' = t_root s \<Longrightarrow> slot_get (slot_of c) s' = slot_get (slot_of c) s"
proof -
  have slot: "same (ctx_nodes c) s s' \<Longrightarrow> t_root s' = t_root s \<Longrightarrow> slot_get (slot_of c) s' = slot_get (slot_of c) s" for c
    by (cases c rule: upper.cases) (auto simp: same_def)
  show "same (ctx_nodes c) s s' \<Longrightarrow> t_root s' = t_root s \<Longrightarrow> slot_get (slot_of c) s' = slot_get (slot_of c) s"
    by (rule slot)
  have ok: "same (ctx_nodes c) s s' \<Longrightarrow> t_root s' = t_root s \<Longrightarrow> ctx_ok s' c \<longleftrightarrow> ctx_ok s c"
  proof (induction c)
    case (Cons a c)
    show ?case
    proof (cases a)
      case (wl x r)
      then have "same (ctx_nodes c) s s'" "same (set_tree r) s s'" "same {x} s s'"
        using Cons.prems(1) by (auto simp: same_def)
      then show ?thesis
        using wl Cons slot [of c] rep_same [of r s s'] by (auto simp: same_def)
    next
      case (wr l x)
      then have "same (ctx_nodes c) s s'" "same (set_tree l) s s'" "same {x} s s'"
        using Cons.prems(1) by (auto simp: same_def)
      then show ?thesis
        using wr Cons slot [of c] rep_same [of l s s'] by (auto simp: same_def)
    qed
  qed simp
  show "same (ctx_nodes c) s s' \<Longrightarrow> (c = [] \<or> t_root s' = t_root s) \<Longrightarrow> ctx_ok s' c \<longleftrightarrow> ctx_ok s c"
    using ok by (cases c) auto
qed

lemma rb_parent_set [simp]:
  "rb_parent (set_left p v s) x = rb_parent s x" "rb_parent (set_right p v s) x = rb_parent s x"
  "rb_parent (set_pc p v s) x = (if x = p then raw_rb_parent v else rb_parent s x)"
  "rb_parent (slot_set l v s) x = rb_parent s x"
  by (cases l; simp add: rb_parent_def raw_rb_parent_def)+

lemma slot_frame:
  assumes "distinct (before c @ after c)"
  shows "slot_get (slot_of c) (slot_set (slot_of c) v s) = v"
    and "ctx_ok (slot_set (slot_of c) v s) c \<longleftrightarrow> ctx_ok s c"
    and "same (- {upper c}) s (slot_set (slot_of c) v s)"
proof -
  show "slot_get (slot_of c) (slot_set (slot_of c) v s) = v"
    by (cases c rule: upper.cases) simp_all
  show f: "same (- {upper c}) s (slot_set (slot_of c) v s)"
    by (cases c rule: upper.cases) (auto simp: same_def)
  show "ctx_ok (slot_set (slot_of c) v s) c \<longleftrightarrow> ctx_ok s c"
  proof (cases c rule: upper.cases)
    case 1
    then show ?thesis by simp
  next
    case (2 x r d)
    then have "x \<notin> set_tree r \<union> ctx_nodes d"
      using assms by (auto simp: ctx_nodes_def)
    then have f: "same (set_tree r) s (set_left x v s)" "same (ctx_nodes d) s (set_left x v s)"
      by (auto simp: same_def)
    show ?thesis
      using 2 rep_same [OF f(1)] ctx_same [OF f(2)] by simp
  next
    case (3 l x d)
    then have "x \<notin> set_tree l \<union> ctx_nodes d"
      using assms by (auto simp: ctx_nodes_def)
    then have f: "same (set_tree l) s (set_right x v s)" "same (ctx_nodes d) s (set_right x v s)"
      by (auto simp: same_def)
    show ?thesis
      using 3 rep_same [OF f(1)] ctx_same [OF f(2)] by simp
  qed
qed

text \<open>The tree in a hole may be exchanged if the rest of the context stays as it is.\<close>

lemma troot_replace:
  assumes "troot s (plug c t)" and "same (ctx_nodes c) (slot_set (slot_of c) v s) s'"
    and "t_root s' = t_root (slot_set (slot_of c) v s)"
    and "rb_rep s' (upper c) v t'" and "distinct (before c @ inorder t' @ after c)"
  shows "troot s' (plug c t')"
proof -
  have "distinct (before c @ after c)"
    using assms(5) by auto
  note f = slot_frame(1,2) [OF this, where v = v and s = s]
  show ?thesis
    using assms f ctx_same [OF assms(2)] by (simp add: troot_plug)
qed

section \<open>Linking a new node\<close>

lemma link_rep:
  assumes "troot s (plug c Leaf)" and "n \<notin> set_tree (plug c Leaf)" and "n \<noteq> 0" and "aligned n"
  shows "troot (rb_link_node n (upper c) (slot_of c) s) (plug c (Node Leaf n Leaf))"
proof (rule troot_replace [OF assms(1)])
  let ?s = "rb_link_node n (upper c) (slot_of c) s"
  have n: "n \<notin> ctx_nodes c"
    using assms(2) by (simp add: set_tree_plug)
  have d: "distinct (before c @ after c)" and ok: "ctx_ok s c"
    using assms(1) by (auto simp: troot_plug)
  have up: "upper c \<noteq> n"
    using n upper_ctx [of c] assms(3) by (cases c) auto
  show "same (ctx_nodes c) (slot_set (slot_of c) n s) ?s"
    using n up by (cases "slot_of c") (auto simp: same_def rb_link_node_def)
  show "t_root ?s = t_root (slot_set (slot_of c) n s)"
    by (cases "slot_of c") (auto simp: rb_link_node_def)
  have "raw_rb_parent (upper c) = upper c"
    by (rule parent_aligned [OF aligned_upper [OF ok]])
  show "rb_rep ?s (upper c) n (Node Leaf n Leaf)"
    using up assms(3,4) \<open>raw_rb_parent (upper c) = upper c\<close>
    by (cases c rule: upper.cases) (auto simp: rb_link_node_def)
  show "distinct (before c @ inorder (Node Leaf n Leaf) @ after c)"
    using d n by (auto simp: ctx_nodes_def)
qed

end
