(* ===== verification/Rb_Max.thy ===== *)
theory Rb_Max
  imports Rb_Augmented Rb_Rep
begin

text \<open>
  The augmented data: a node is consistent if its maximum is the one its children give it.  If every
  node of a tree is, the maxima are those of the subtrees.  \<open>propagate\<close> restores consistency on the way up
  from the one node that lost it.
\<close>

section \<open>Consistent nodes\<close>

definition csub :: "'x itstore_scheme \<Rightarrow> rnode \<Rightarrow> u64" where
  "csub s p = (if p = 0 then 0 else t_sub s p)"

definition node_max :: "'x itstore_scheme \<Rightarrow> rnode \<Rightarrow> u64" where
  "node_max s x = max (t_last s x) (max (csub s (t_left s x)) (csub s (t_right s x)))"

definition local_ok :: "'x itstore_scheme \<Rightarrow> rnode \<Rightarrow> bool" where
  "local_ok s x \<longleftrightarrow> t_sub s x = node_max s x"

lemma set_sub_sel [simp]:
  "t_pc (set_sub p v s) = t_pc s" "t_left (set_sub p v s) = t_left s" "t_right (set_sub p v s) = t_right s"
  "t_root (set_sub p v s) = t_root s" "t_leftmost (set_sub p v s) = t_leftmost s" "t_start (set_sub p v s) = t_start s"
  "t_last (set_sub p v s) = t_last s" "t_sub (set_sub p v s) = (t_sub s)(p := v)"
  "rb_parent (set_sub p v s) x = rb_parent s x"
  by (simp_all add: set_sub_def rb_parent_def)

lemma set_aug_sel [simp]:
  "t_sub (set_pc p v s) = t_sub s" "t_sub (set_left p v s) = t_sub s" "t_sub (set_right p v s) = t_sub s"
  "t_last (set_pc p v s) = t_last s" "t_last (set_left p v s) = t_last s" "t_last (set_right p v s) = t_last s"
  "t_start (set_pc p v s) = t_start s" "t_start (set_left p v s) = t_start s" "t_start (set_right p v s) = t_start s"
  "t_sub (slot_set l v s) = t_sub s" "t_last (slot_set l v s) = t_last s" "t_start (slot_set l v s) = t_start s"
  by (simp_all add: set_pc_def set_left_def set_right_def) (cases l; simp add: set_left_def set_right_def)+

lemma compute_max:
  "augment_compute_max x e s =
     (if e \<and> t_sub s x = node_max s x then (True, s) else (False, set_sub x (node_max s x) s))"
proof -
  have max_u64: "(if b > a then b else a) = max a b" for a b :: u64
    by (auto simp: max_def)
  show ?thesis
    unfolding augment_compute_max_def node_max_def csub_def Let_def max_u64 by (auto simp: max.assoc)
qed

text \<open>Consistency of a node depends on its own data and on the maxima of its children.\<close>

lemma local_ok_cong:
  assumes "t_sub s' x = t_sub s x" and "t_last s' x = t_last s x"
    and "csub s' (t_left s' x) = csub s (t_left s x)" and "csub s' (t_right s' x) = csub s (t_right s x)"
  shows "local_ok s' x \<longleftrightarrow> local_ok s x"
  using assms by (simp add: local_ok_def node_max_def)

lemma csub_cong: "t_sub s' p = t_sub s p \<Longrightarrow> csub s' p = csub s p"
  by (simp add: csub_def)

lemma subtree_max:
  assumes "rb_rep s q p t" and "\<forall>x \<in> set_tree t. local_ok s x" and "p \<noteq> 0"
  shows "v \<le> t_sub s p \<longleftrightarrow> (\<exists>x \<in> set_tree t. v \<le> t_last s x)"
  using assms
proof (induction t arbitrary: q p)
  case (Node l x r)
  have l: "v \<le> csub s (t_left s x) \<longleftrightarrow> v = 0 \<or> (\<exists>x \<in> set_tree l. v \<le> t_last s x)"
    using Node.IH(1) [of x "t_left s x"] Node.prems by (cases "t_left s x = 0") (auto simp: csub_def)
  have r: "v \<le> csub s (t_right s x) \<longleftrightarrow> v = 0 \<or> (\<exists>x \<in> set_tree r. v \<le> t_last s x)"
    using Node.IH(2) [of x "t_right s x"] Node.prems by (cases "t_right s x = 0") (auto simp: csub_def)
  have "t_sub s p = node_max s x"
    using Node.prems by (simp add: local_ok_def)
  then show ?case
    using l r by (auto simp: node_max_def le_max_iff_disj)
qed simp

section \<open>The way up\<close>

fun chain :: "'x itstore_scheme \<Rightarrow> rnode list \<Rightarrow> rnode \<Rightarrow> bool" where
  "chain s [] q \<longleftrightarrow> True"
| "chain s (p # ps) q \<longleftrightarrow> rb_parent s p = hd (ps @ [q]) \<and> p \<noteq> q \<and> p \<noteq> 0 \<and> p \<notin> set ps \<and> chain s ps q"

lemma parents_cong: "\<forall>p \<in> set ps. rb_parent s' p = rb_parent s p \<Longrightarrow> chain s' ps q \<longleftrightarrow> chain s ps q"
  by (induction s ps q rule: chain.induct) auto

lemma chain_distinct: "chain s ps q \<Longrightarrow> distinct ps"
  by (induction ps) auto

lemma chain_end:
  "chain s (ps @ [p]) q \<Longrightarrow> \<forall>x \<in> set ps. rb_parent s' x = rb_parent s x \<Longrightarrow> rb_parent s' p = q' \<Longrightarrow>
     q' \<notin> set ps \<union> {p} \<Longrightarrow> chain s' (ps @ [p]) q'"
  by (induction ps) (auto simp: hd_append split: if_splits list.splits)

lemma propagate_ok:
  assumes "chain s ps stop"
    and "\<forall>x \<in> A. \<forall>p \<in> set ps. t_left s x = p \<or> t_right s x = p \<longrightarrow> rb_parent s p = x"
    and "set ps \<subseteq> A" and "\<forall>x \<in> A - {hd (ps @ [stop])}. local_ok s x"
  shows "\<exists>f. augment_propagate (hd (ps @ [stop])) stop s = Some (s\<lparr>t_sub := f\<rparr>) \<and>
    (\<forall>x. x \<notin> set ps \<longrightarrow> f x = t_sub s x) \<and> (\<forall>x \<in> A - {stop}. local_ok (s\<lparr>t_sub := f\<rparr>) x)"
  using assms
proof (induction ps arbitrary: s)
  case Nil
  show ?case
    using Nil.prems by (intro exI [of _ "t_sub s"]) (subst augment_propagate.simps, simp)
next
  case (Cons p ps)
  let ?q = "hd (ps @ [stop])"
  have up: "rb_parent s p = ?q" "p \<noteq> stop" "p \<noteq> 0" "p \<notin> set ps" "chain s ps stop" "p \<in> A"
    using Cons.prems(1,3) by simp_all
  show ?case
  proof (cases "local_ok s p")
    case True
    then have "augment_propagate p stop s = Some s"
      using up by (subst augment_propagate.simps) (simp add: compute_max local_ok_def)
    moreover have "\<forall>x \<in> A. local_ok s x"
      using True Cons.prems(4) by auto
    ultimately show ?thesis
      by (intro exI [of _ "t_sub s"]) simp
  next
    case False
    define s' where "s' = set_sub p (node_max s p) s"
    have step: "augment_propagate p stop s = augment_propagate ?q stop s'"
      using False up by (subst augment_propagate.simps) (simp add: compute_max local_ok_def s'_def)
    have q: "?q \<noteq> p"
      using up by (cases ps) auto
    have child: "t_left s x \<noteq> p \<and> t_right s x \<noteq> p" if "x \<in> A" "x \<noteq> ?q" for x
      using Cons.prems(2) that up(1) by auto
    have "local_ok s' x" if "x \<in> A - {?q}" for x
    proof (cases "x = p")
      case True
      then show ?thesis
        using child [of p] q up(6) by (simp add: local_ok_def node_max_def csub_def s'_def)
    next
      case False
      have "local_ok s' x \<longleftrightarrow> local_ok s x"
        using False child [of x] that by (intro local_ok_cong) (auto simp: s'_def csub_def)
      then show ?thesis
        using Cons.prems(4) False that by simp
    qed
    moreover have "chain s' ps stop"
      using up(5) by (subst parents_cong [where s = s]) (simp_all add: s'_def)
    ultimately obtain f where "augment_propagate ?q stop s' = Some (s'\<lparr>t_sub := f\<rparr>)"
      "\<forall>x. x \<notin> set ps \<longrightarrow> f x = t_sub s' x" "\<forall>x \<in> A - {stop}. local_ok (s'\<lparr>t_sub := f\<rparr>) x"
      using Cons.IH [of s'] Cons.prems(2,3) by (auto simp: s'_def)
    moreover have "s'\<lparr>t_sub := f\<rparr> = s\<lparr>t_sub := f\<rparr>" for f
      by (simp add: s'_def set_sub_def)
    ultimately show ?thesis
      using step by (intro exI [of _ f]) (simp add: s'_def)
  qed
qed

fun uppers :: "rb_ctx \<Rightarrow> rnode list" where
  "uppers [] = []"
| "uppers (wl x r # c) = x # uppers c"
| "uppers (wr l x # c) = x # uppers c"

lemma hd_uppers: "hd (uppers c @ [q]) = (if c = [] then q else upper c)"
  by (cases c rule: upper.cases) auto

lemma set_uppers: "set (uppers c) \<subseteq> ctx_nodes c"
  by (induction c rule: uppers.induct) auto

lemma chain_plug:
  "rb_rep s q p (plug c t) \<Longrightarrow> distinct (inorder (plug c t)) \<Longrightarrow> q \<notin> set_tree (plug c t) \<Longrightarrow>
     chain s (uppers c) q \<and> (\<exists>p'. rb_rep s (hd (uppers c @ [q])) p' t)"
proof (induction c t rule: plug.induct)
  case (2 x r c t)
  then have "x \<notin> set (uppers c)" "x \<noteq> q"
    using set_uppers [of c] by (auto simp: inorder_plug set_tree_plug ctx_nodes_def)
  then show ?case using 2 by auto
next
  case (3 l x c t)
  then have "x \<notin> set (uppers c)" "x \<noteq> q"
    using set_uppers [of c] by (auto simp: inorder_plug set_tree_plug ctx_nodes_def)
  then show ?case using 3 by auto
qed auto

lemma rep_parent: "rb_rep s q p t \<Longrightarrow> p \<noteq> 0 \<Longrightarrow> rb_parent s p = q \<and> p \<in> set_tree t"
  by (cases t) auto

lemma child_parent:
  "rb_rep s q p t \<Longrightarrow> x \<in> set_tree t \<Longrightarrow> t_left s x = y \<or> t_right s x = y \<Longrightarrow> y \<noteq> 0 \<Longrightarrow>
     rb_parent s y = x \<and> y \<in> set_tree t"
proof (induction t arbitrary: q p)
  case (Node l z r)
  have rep: "rb_rep s z (t_left s z) l" "rb_rep s z (t_right s z) r"
    using Node.prems(1) by simp_all
  from Node.prems(2) consider "x = z" | "x \<in> set_tree l" | "x \<in> set_tree r" by auto
  then show ?case
  proof cases
    case 1
    then show ?thesis using rep [THEN rep_parent] Node.prems(3,4) by auto
  next
    case 2
    from Node.IH(1) [OF rep(1) this Node.prems(3,4)] show ?thesis by simp
  next
    case 3
    from Node.IH(2) [OF rep(2) this Node.prems(3,4)] show ?thesis by simp
  qed
qed simp

text \<open>After a change at one place of the tree, \<open>propagate\<close> makes the whole tree consistent.\<close>

definition all_ok :: "'x itstore_scheme \<Rightarrow> rnode tree \<Rightarrow> bool" where
  "all_ok s t \<longleftrightarrow> (\<forall>x \<in> set_tree t. local_ok s x)"

lemma troot_sub [simp]: "troot (s\<lparr>t_sub := f\<rparr>) t \<longleftrightarrow> troot s t"
proof -
  have "same A s (s\<lparr>t_sub := f\<rparr>)" for A
    by (simp add: same_def rb_parent_def)
  from rep_same [OF this] show ?thesis
    by (simp add: troot_def)
qed

lemma propagate_root:
  assumes "troot s (plug c t)" and "\<forall>x \<in> set_tree (plug c t) - {upper c}. local_ok s x"
  shows "\<exists>f. augment_propagate (upper c) 0 s = Some (s\<lparr>t_sub := f\<rparr>) \<and>
    troot (s\<lparr>t_sub := f\<rparr>) (plug c t) \<and> all_ok (s\<lparr>t_sub := f\<rparr>) (plug c t)"
proof -
  have rep: "rb_rep s 0 (t_root s) (plug c t)" "distinct (inorder (plug c t))"
    using assms(1) by (simp_all add: troot_def)
  have z: "0 \<notin> set_tree (plug c t)"
    using rep_nonzero [OF rep(1)] by blast
  have ch: "chain s (uppers c) 0"
    using chain_plug [OF rep z] by simp
  have sub: "set (uppers c) \<subseteq> set_tree (plug c t)"
    using set_uppers [of c] by (auto simp: set_tree_plug)
  have "rb_parent s p = x"
    if "x \<in> set_tree (plug c t)" "p \<in> set (uppers c)" "t_left s x = p \<or> t_right s x = p" for x p
    using child_parent [OF rep(1) that(1,3)] that(2) sub z by auto
  then have par: "\<forall>x \<in> set_tree (plug c t). \<forall>p \<in> set (uppers c). t_left s x = p \<or> t_right s x = p \<longrightarrow> rb_parent s p = x"
    by blast
  have h: "hd (uppers c @ [0]) = upper c"
    by (simp add: hd_uppers)
  from propagate_ok [OF ch par sub] assms(2) obtain f where
    "augment_propagate (upper c) 0 s = Some (s\<lparr>t_sub := f\<rparr>)"
    "\<forall>x \<in> set_tree (plug c t) - {0}. local_ok (s\<lparr>t_sub := f\<rparr>) x"
    unfolding h by blast
  then show ?thesis
    using assms(1) z by (intro exI [of _ f]) (auto simp: all_ok_def)
qed

section \<open>Rotations\<close>

lemma rep_unique:
  "rb_rep s q p t \<Longrightarrow> rb_rep s' q' p' t \<Longrightarrow>
     p = p' \<and> (\<forall>z \<in> set_tree t. t_left s' z = t_left s z \<and> t_right s' z = t_right s z)"
proof (induction t arbitrary: q p q' p')
  case (Node l x r)
  then have "rb_rep s x (t_left s x) l" "rb_rep s' x (t_left s' x) l" "rb_rep s x (t_right s x) r"
    "rb_rep s' x (t_right s' x) r" "p = x" "p' = x"
    by simp_all
  with Node.IH(1) [OF this(1,2)] Node.IH(2) [OF this(3,4)] show ?case
    by (auto simp del: rep_zero)
qed simp

lemma ptr_cases: "rb_rep s q p t \<Longrightarrow> p = 0 \<or> p \<in> set_tree t"
  by (cases t) auto

text \<open>A subtree whose nodes keep their maxima stays consistent, wherever it hangs.\<close>

lemma rep_frame:
  fixes s s' :: "'x itstore_scheme"
  assumes "rb_rep s q p t" and "rb_rep s' q' p' t" and "\<forall>z \<in> set_tree t. local_ok s z"
    and "\<forall>z \<in> set_tree t. t_sub s' z = t_sub s z" and "t_last s' = t_last s"
  shows "(\<forall>z \<in> set_tree t. local_ok s' z) \<and> csub s' p' = csub s p"
proof -
  note eq = rep_unique [OF assms(1,2)]
  have c: "csub s' m = csub s m" if "m = 0 \<or> m \<in> set_tree t" for m
    using that assms(4) by (auto simp: csub_def)
  have "local_ok s' z" if "z \<in> set_tree t" for z
  proof -
    have "t_left s z = 0 \<or> t_left s z \<in> set_tree t" "t_right s z = 0 \<or> t_right s z \<in> set_tree t"
      using child_parent [OF assms(1) that] by blast+
    then have "local_ok s' z \<longleftrightarrow> local_ok s z"
      using eq that assms(4,5) c by (intro local_ok_cong) simp_all
    then show ?thesis using assms(3) that by blast
  qed
  then show ?thesis using c eq ptr_cases [OF assms(1)] by auto
qed

lemma rep_set_sub [simp]: "rb_rep (set_sub z v s) q p t \<longleftrightarrow> rb_rep s q p t"
  by (rule rep_same) (simp add: same_def)

lemma rotate_eq:
  "augment_rotate x y s = (let s1 = set_sub y (t_sub s x) s in set_sub x (node_max s1 x) s1)"
  by (simp add: augment_rotate_def compute_max Let_def)

lemma rotate_frame:
  fixes s s' :: "'x itstore_scheme"
  assumes "rb_rep s q p u" and "rb_rep s' q' p' u" and "\<forall>z \<in> set_tree u. local_ok s z" and "x \<notin> set_tree u" and "y \<notin> set_tree u"
    and "t_sub s' = t_sub s" and "t_last s' = t_last s"
  shows "\<forall>z \<in> set_tree u. local_ok (augment_rotate x y s') z"
proof -
  let ?S = "augment_rotate x y s'"
  have "rb_rep ?S q' p' u" "\<forall>z \<in> set_tree u. t_sub ?S z = t_sub s z" "t_last ?S = t_last s"
    using assms by (auto simp: rotate_eq Let_def)
  from rep_frame [OF assms(1) this(1) assms(3) this(2,3)] show ?thesis by simp
qed

lemma rotate_max:
  fixes s s' :: "'x itstore_scheme"
  assumes "x \<noteq> y" and "local_ok s x" and "local_ok s y" and "t_sub s' = t_sub s" and "t_last s' = t_last s"
    and "{t_left s x, t_right s x} = {pa, y}" and "{t_left s y, t_right s y} = {pb, pc}"
    and "{t_left s' x, t_right s' x} = {pa, pb}" and "{t_left s' y, t_right s' y} = {x, pc}"
    and "x \<noteq> 0" and "y \<noteq> 0" and "{pa, pb, pc} \<inter> {x, y} = {}"
  shows "local_ok (augment_rotate x y s') x \<and> local_ok (augment_rotate x y s') y"
proof -
  let ?s1 = "set_sub y (t_sub s x) s'"
  have m: "node_max s0 z = max (t_last s0 z) (max (csub s0 a) (csub s0 b))"
    if "{t_left s0 z, t_right s0 z} = {a, b}" for s0 :: "'x itstore_scheme" and z a b
    using that by (auto simp: node_max_def doubleton_eq_iff max.commute)
  have c: "csub s0 p = csub s p" if "p \<in> {pa, pb, pc}" "\<forall>z. z \<notin> {x, y} \<longrightarrow> t_sub s0 z = t_sub s z" for s0 :: "'x itstore_scheme" and p
    using that assms(12) by (auto simp: csub_def)
  have x: "node_max ?s1 x = max (t_last s x) (max (csub s pa) (csub s pb))"
    using m [of ?s1 x pa pb] c [of pa ?s1] c [of pb ?s1] assms(4,5,8) by simp
  let ?S = "set_sub x (node_max ?s1 x) ?s1"
  have S: "csub ?S pa = csub s pa" "csub ?S pb = csub s pb" "csub ?S pc = csub s pc"
    by (intro c; simp add: assms(4))+
  have "local_ok ?S x"
    using m [of ?S x pa pb] S x assms(1,5,8) by (simp add: local_ok_def)
  moreover have "local_ok ?S y"
  proof -
    have "node_max ?S y = max (t_last s y) (max (node_max ?s1 x) (csub s pc))"
      using m [of ?S y x pc] S(3) assms(5,9,10) by (simp add: csub_def [of _ x])
    also have "\<dots> = max (t_last s x) (max (csub s pa) (max (t_last s y) (max (csub s pb) (csub s pc))))"
      unfolding x by (simp add: max.assoc max.commute max.left_commute)
    also have "\<dots> = max (t_last s x) (max (csub s pa) (csub s y))"
      using m [OF assms(7)] assms(3,11) by (simp add: local_ok_def csub_def [of _ y])
    also have "\<dots> = t_sub ?S y"
      using m [OF assms(6)] assms(1,2) by (simp add: local_ok_def)
    finally show ?thesis
      unfolding local_ok_def by (rule sym)
  qed
  ultimately show ?thesis
    by (simp add: rotate_eq Let_def assms(4))
qed

lemma rotate_left:
  fixes s s' :: "'x itstore_scheme"
  assumes "rb_rep s q x (Node a x (Node b y c))" and "distinct (inorder (Node a x (Node b y c)))"
    and "all_ok s (Node a x (Node b y c))" and "rb_rep s' q' y (Node (Node a x b) y c)"
    and "t_sub s' = t_sub s" and "t_last s' = t_last s"
  shows "all_ok (augment_rotate x y s') (Node (Node a x b) y c) \<and> t_sub (augment_rotate x y s') y = t_sub s x"
proof -
  have d: "x \<noteq> y" "x \<notin> set_tree a" "x \<notin> set_tree b" "x \<notin> set_tree c" "y \<notin> set_tree a" "y \<notin> set_tree b" "y \<notin> set_tree c"
    using assms(2) by auto
  obtain pa pb pc where rep: "rb_rep s x pa a" "rb_rep s y pb b" "rb_rep s y pc c"
    "rb_rep s' x pa a" "rb_rep s' x pb b" "rb_rep s' y pc c"
    and ch: "{t_left s x, t_right s x} = {pa, y}" "{t_left s y, t_right s y} = {pb, pc}"
    "{t_left s' x, t_right s' x} = {pa, pb}" "{t_left s' y, t_right s' y} = {x, pc}" and nz: "x \<noteq> 0" "y \<noteq> 0"
  proof (rule that)
    have e: "t_left s x = t_left s' x" "t_left s y = t_right s' x" "t_right s y = t_right s' y"
      using assms(1,4) rep_unique [of s x _ a s' x] rep_unique [of s y _ b s' x] rep_unique [of s y _ c s' y] by auto
    show "rb_rep s x (t_left s x) a" "rb_rep s y (t_left s y) b" "rb_rep s y (t_right s y) c" "rb_rep s' x (t_left s x) a" "rb_rep s' x (t_left s y) b"
      "rb_rep s' y (t_right s y) c" "{t_left s x, t_right s x} = {t_left s x, y}" "{t_left s y, t_right s y} = {t_left s y, t_right s y}"
      "{t_left s' x, t_right s' x} = {t_left s x, t_left s y}" "{t_left s' y, t_right s' y} = {x, t_right s y}" "x \<noteq> 0" "y \<noteq> 0"
      using assms(1,4) e by auto
  qed
  have ok: "local_ok s x" "local_ok s y" "\<forall>z \<in> set_tree a. local_ok s z" "\<forall>z \<in> set_tree b. local_ok s z" "\<forall>z \<in> set_tree c. local_ok s z"
    using assms(3) by (simp_all add: all_ok_def)
  have "{pa, pb, pc} \<inter> {x, y} = {}"
    using rep(1-3) [THEN ptr_cases] d nz by auto
  note xy = rotate_max [OF d(1) ok(1,2) assms(5,6) ch nz this]
  note fr = rotate_frame [where x = x and y = y, OF _ _ _ _ _ assms(5,6)]
  show ?thesis
    using xy fr [OF rep(1,4) ok(3)] fr [OF rep(2,5) ok(4)] fr [OF rep(3,6) ok(5)] d assms(5)
    by (simp add: all_ok_def rotate_eq Let_def ball_Un)
qed

lemma rotate_right:
  fixes s s' :: "'x itstore_scheme"
  assumes "rb_rep s q x (Node (Node c y b) x a)" and "distinct (inorder (Node (Node c y b) x a))"
    and "all_ok s (Node (Node c y b) x a)" and "rb_rep s' q' y (Node c y (Node b x a))"
    and "t_sub s' = t_sub s" and "t_last s' = t_last s"
  shows "all_ok (augment_rotate x y s') (Node c y (Node b x a)) \<and> t_sub (augment_rotate x y s') y = t_sub s x"
proof -
  have d: "x \<noteq> y" "x \<notin> set_tree a" "x \<notin> set_tree b" "x \<notin> set_tree c" "y \<notin> set_tree a" "y \<notin> set_tree b" "y \<notin> set_tree c"
    using assms(2) by auto
  obtain pa pb pc where rep: "rb_rep s x pa a" "rb_rep s y pb b" "rb_rep s y pc c"
    "rb_rep s' x pa a" "rb_rep s' x pb b" "rb_rep s' y pc c"
    and ch: "{t_left s x, t_right s x} = {pa, y}" "{t_left s y, t_right s y} = {pb, pc}"
    "{t_left s' x, t_right s' x} = {pa, pb}" "{t_left s' y, t_right s' y} = {x, pc}" and nz: "x \<noteq> 0" "y \<noteq> 0"
  proof (rule that)
    have e: "t_right s x = t_right s' x" "t_right s y = t_left s' x" "t_left s y = t_left s' y"
      using assms(1,4) rep_unique [of s x _ a s' x] rep_unique [of s y _ b s' x] rep_unique [of s y _ c s' y] by auto
    show "rb_rep s x (t_right s x) a" "rb_rep s y (t_right s y) b" "rb_rep s y (t_left s y) c" "rb_rep s' x (t_right s x) a" "rb_rep s' x (t_right s y) b"
      "rb_rep s' y (t_left s y) c" "{t_left s x, t_right s x} = {t_right s x, y}" "{t_left s y, t_right s y} = {t_right s y, t_left s y}"
      "{t_left s' x, t_right s' x} = {t_right s x, t_right s y}" "{t_left s' y, t_right s' y} = {x, t_left s y}" "x \<noteq> 0" "y \<noteq> 0"
      using assms(1,4) e by auto
  qed
  have ok: "local_ok s x" "local_ok s y" "\<forall>z \<in> set_tree a. local_ok s z" "\<forall>z \<in> set_tree b. local_ok s z" "\<forall>z \<in> set_tree c. local_ok s z"
    using assms(3) by (simp_all add: all_ok_def)
  have "{pa, pb, pc} \<inter> {x, y} = {}"
    using rep(1-3) [THEN ptr_cases] d nz by auto
  note xy = rotate_max [OF d(1) ok(1,2) assms(5,6) ch nz this]
  note fr = rotate_frame [where x = x and y = y, OF _ _ _ _ _ assms(5,6)]
  show ?thesis
    using xy fr [OF rep(1,4) ok(3)] fr [OF rep(2,5) ok(4)] fr [OF rep(3,6) ok(5)] d assms(5)
    by (simp add: all_ok_def rotate_eq Let_def ball_Un)
qed

end
