(* ===== verification/Rb_Erase.thy ===== *)
theory Rb_Erase
  imports Rb_Max
begin

text \<open>
  \<open>__rb_erase_augmented\<close> takes one node out of the tree: the other nodes stay in their order, and the
  augmented data is consistent again when it returns.
\<close>

section \<open>Places in a tree\<close>

lemma ctx_append [simp]:
  "before (d @ e) = before e @ before d" "after (d @ e) = after d @ after e"
  "uppers (d @ e) = uppers d @ uppers e" "upper (d @ e) = (if d = [] then upper e else upper d)"
  "slot_of (d @ e) = (if d = [] then slot_of e else slot_of d)"
  by (induction d rule: before.induct) auto

lemma ctx_nodes_append [simp]: "ctx_nodes (d @ e) = ctx_nodes d \<union> ctx_nodes e"
  by (auto simp: ctx_nodes_def)

lemma plug_snoc:
  "plug (c @ [wl y r]) u = Node (plug c u) y r" "plug (c @ [wr l y]) u = Node l y (plug c u)"
  by (simp_all add: plug_append)

lemma plug_not_Leaf: "t \<noteq> Leaf \<Longrightarrow> plug c t \<noteq> Leaf"
  by (induction c t rule: plug.induct) auto

lemma tree_at: "x \<in> set_tree t \<Longrightarrow> \<exists>c l r. t = plug c (Node l x r)"
proof (induction t)
  case (Node l y r)
  from Node.prems consider "x = y" | "x \<in> set_tree l" | "x \<in> set_tree r" by auto
  then show ?case
  proof cases
    case 1
    then show ?thesis by (intro exI [of _ "[]"]) simp
  next
    case 2
    with Node.IH(1) show ?thesis by (metis plug_snoc(1))
  next
    case 3
    with Node.IH(2) show ?thesis by (metis plug_snoc(2))
  qed
qed simp

lemma first_at: "t \<noteq> Leaf \<Longrightarrow> \<exists>d y r. t = plug d (Node Leaf y r) \<and> before d = []"
proof (induction t)
  case (Node l x r)
  show ?case
  proof (cases "l = Leaf")
    case True
    then show ?thesis by (intro exI [of _ "[]"]) simp
  next
    case False
    with Node.IH(1) obtain d y r' where "l = plug d (Node Leaf y r')" "before d = []" by blast
    then have "Node l x r = plug (d @ [wl x r]) (Node Leaf y r') \<and> before (d @ [wl x r]) = []"
      by (simp add: plug_append)
    then show ?thesis by blast
  qed
qed simp

lemma left_step: "before (d @ [w]) = [] \<Longrightarrow> \<exists>z r. w = wl z r \<and> before d = []"
  by (cases w) auto

lemma successor_rep:
  "rb_rep s q z (Node (plug d (Node Leaf y r2)) z r) \<Longrightarrow> before d = [] \<Longrightarrow>
     rb_successor z (t_left s z) s = Some (upper (d @ [wl z r]), y)"
proof (induction d arbitrary: q z r rule: rev_induct)
  case Nil
  then show ?case by (subst rb_successor.simps) (simp add: Let_def)
next
  case (snoc w d)
  then obtain z' r' where w: "w = wl z' r'" "before d = []"
    using left_step by blast
  then have z': "t_left s z = z'" "rb_rep s z z' (Node (plug d (Node Leaf y r2)) z' r')"
    using snoc.prems(1) by (auto simp: plug_append)
  have "plug d (Node Leaf y r2) \<noteq> Leaf"
    by (simp add: plug_not_Leaf)
  then have "t_left s z' \<noteq> 0"
    using z'(2) by auto
  then have "rb_successor z (t_left s z) s = rb_successor z' (t_left s z') s"
    using z'(1) by (subst rb_successor.simps) (simp add: Let_def)
  then show ?case
    using snoc.IH [OF z'(2) w(2)] w(1) by simp
qed

section \<open>Exchanging the tree in a hole\<close>

lemma reparent:
  fixes s s' :: "'x tstore_scheme"
  assumes "rb_rep s q p t" and "distinct (inorder t)"
    and "\<And>z. z \<in> set_tree t \<Longrightarrow> t_left s' z = t_left s z \<and> t_right s' z = t_right s z \<and>
      rb_parent s' z = (if z = p then q' else rb_parent s z)"
  shows "rb_rep s' q' p t"
proof (cases t)
  case (Node l x r)
  then have p: "p = x" "rb_rep s x (t_left s x) l" "rb_rep s x (t_right s x) r" "x \<notin> set_tree l" "x \<notin> set_tree r"
    using assms(1,2) by auto
  have "same (set_tree l) s s'" "same (set_tree r) s s'"
    using assms(3) p by (auto simp: same_def Node)
  from rep_same [OF this(1)] rep_same [OF this(2)] show ?thesis
    using assms(1) assms(3) [of x] p by (simp add: Node)
qed (use assms(1) in simp)

lemma slot_other:
  assumes "z \<noteq> upper c"
  shows "t_left (slot_set (slot_of c) v s) z = t_left s z" and "t_right (slot_set (slot_of c) v s) z = t_right s z"
  using assms by (cases c rule: upper.cases; simp)+

lemma exchange:
  fixes s s' :: "'x tstore_scheme"
  assumes "troot s (plug c u)" and "rb_rep s q p t'" and "distinct (before c @ inorder t' @ after c)"
    and "\<And>z. z \<noteq> 0 \<Longrightarrow> t_left s' z = t_left (slot_set (slot_of c) p s) z \<and>
      t_right s' z = t_right (slot_set (slot_of c) p s) z \<and> rb_parent s' z = (if z = p then upper c else rb_parent s z)"
    and "t_root s' = t_root (slot_set (slot_of c) p s)"
  shows "troot s' (plug c t')"
proof (rule troot_replace [OF assms(1) _ assms(5) _ assms(3)])
  have ok: "ctx_ok s c"
    using assms(1) by (simp add: troot_plug)
  have p: "p \<notin> ctx_nodes c"
    using assms(2,3) ctx_nonzero [OF ok] by (cases t') (auto simp: ctx_nodes_def)
  show "same (ctx_nodes c) (slot_set (slot_of c) p s) s'"
    using assms(4) p ctx_nonzero [OF ok] by (auto simp: same_def)
  have out: "z \<noteq> upper c \<and> z \<noteq> 0" if "z \<in> set_tree t'" for z
    using that rep_nonzero [OF assms(2)] upper_ctx [of c] assms(3) by (cases "c = []") (auto simp: ctx_nodes_def)
  show "rb_rep s' (upper c) p t'"
    using out assms(3,4) by (intro reparent [OF assms(2)]) (auto simp: slot_other)
qed

lemma change_child:
  assumes "troot s (plug c (Node l x r))" and "t_left s' (upper c) = t_left s (upper c)"
  shows "raw_rb_change_child x v (upper c) s' = slot_set (slot_of c) v s'"
proof (cases c rule: upper.cases)
  case 1
  then show ?thesis by (simp add: raw_rb_change_child_def)
next
  case (2 y r' c')
  then show ?thesis using assms by (simp add: raw_rb_change_child_def troot_plug)
next
  case (3 l' y c')
  then have "rb_rep s y (t_left s y) l'" "x \<notin> set_tree l'" "x \<noteq> 0" "y \<noteq> 0"
    using assms(1) by (auto simp: troot_plug)
  then have "t_left s y \<noteq> x"
    by (cases l') auto
  then show ?thesis using 3 assms(2) \<open>y \<noteq> 0\<close> by (simp add: raw_rb_change_child_def)
qed

lemma parent_set [simp]:
  "aligned p \<Longrightarrow> rb_parent (rb_set_parent x p s) z = (if z = x then p else rb_parent s z)"
  "aligned p \<Longrightarrow> rb_parent (rb_set_parent_color x p RB_BLACK s) z = (if z = x then p else rb_parent s z)"
proof -
  have c: "rb_color s x AND 3 = rb_color s x" "RB_BLACK AND 3 = RB_BLACK"
    by (simp_all add: rb_color_def raw_rb_color_def RB_BLACK_def and.assoc)
  show "aligned p \<Longrightarrow> rb_parent (rb_set_parent x p s) z = (if z = x then p else rb_parent s z)"
    using parent_colour [OF _ c(1)] by (simp add: rb_set_parent_def)
  show "aligned p \<Longrightarrow> rb_parent (rb_set_parent_color x p RB_BLACK s) z = (if z = x then p else rb_parent s z)"
    using parent_colour [OF _ c(2), of p] by (simp add: rb_set_parent_color_def or.commute [of p])
qed

lemma set_parent_sel [simp]:
  "t_left (rb_set_parent x p s) = t_left s" "t_right (rb_set_parent x p s) = t_right s"
  "t_root (rb_set_parent x p s) = t_root s" "t_leftmost (rb_set_parent x p s) = t_leftmost s"
  "t_left (rb_set_parent_color x p k s) = t_left s" "t_right (rb_set_parent_color x p k s) = t_right s"
  "t_root (rb_set_parent_color x p k s) = t_root s" "t_leftmost (rb_set_parent_color x p k s) = t_leftmost s"
  by (simp_all add: rb_set_parent_def rb_set_parent_color_def)

lemma set_parent_aug [simp]:
  "t_sub (rb_set_parent x p s) = t_sub s" "t_last (rb_set_parent x p s) = t_last s" "t_start (rb_set_parent x p s) = t_start s"
  "t_sub (rb_set_parent_color x p k s) = t_sub s" "t_last (rb_set_parent_color x p k s) = t_last s"
  "t_start (rb_set_parent_color x p k s) = t_start s"
  by (simp_all add: rb_set_parent_def rb_set_parent_color_def)

section \<open>A node with at most one child\<close>

definition spliced :: "rb_ctx \<Rightarrow> rnode \<Rightarrow> rnode \<Rightarrow> 'x tstore_scheme \<Rightarrow> 'x tstore_scheme" where
  "spliced c x p s = (let s' = slot_set (slot_of c) p s in if p \<noteq> 0 then set_pc p (t_pc s x) s' else s')"

lemma spliced_sel [simp]:
  "t_left (spliced c x p s) = t_left (slot_set (slot_of c) p s)" "t_right (spliced c x p s) = t_right (slot_set (slot_of c) p s)"
  "t_root (spliced c x p s) = t_root (slot_set (slot_of c) p s)"
  "t_leftmost (spliced c x p s) = t_leftmost s"
  by (cases "slot_of c"; simp add: spliced_def Let_def)+

lemma spliced_aug [simp]:
  "t_sub (spliced c x p s) = t_sub s" "t_last (spliced c x p s) = t_last s" "t_start (spliced c x p s) = t_start s"
  by (simp_all add: spliced_def Let_def)

lemma raw_parent_at: "troot s (plug c (Node l x r)) \<Longrightarrow> raw_rb_parent (t_pc s x) = upper c"
  by (simp add: troot_plug rb_parent_def raw_rb_parent_def)

lemma no_left_eq:
  assumes "troot s (plug c (Node l x r))"
  shows "\<exists>b. rb_erase_no_left x s = (upper c, b, spliced c x (t_right s x) s) \<and> (b = 0 \<or> b = upper c)"
  using change_child [OF assms refl]
  by (auto simp: rb_erase_no_left_def spliced_def Let_def raw_parent_at [OF assms])

lemma no_right_eq:
  assumes "troot s (plug c (Node l x r))" and "t_left s x \<noteq> 0"
  shows "rb_erase_no_right x s = (upper c, 0, spliced c x (t_left s x) s)"
proof -
  have "slot_set (slot_of c) v (set_pc p w s) = set_pc p w (slot_set (slot_of c) v s)" for v p w
    by (cases "slot_of c") (simp_all add: set_pc_def set_left_def set_right_def)
  then show ?thesis
    using change_child [OF assms(1), of "set_pc (t_left s x) (t_pc s x) s"] assms(2)
    by (simp add: rb_erase_no_right_def spliced_def Let_def raw_parent_at [OF assms(1)])
qed

lemma spliced_rep:
  assumes "troot s (plug c (Node l x r))"
    and "l = Leaf \<and> t' = r \<and> p = t_right s x \<or> r = Leaf \<and> t' = l \<and> p = t_left s x"
  shows "troot (spliced c x p s) (plug c t')"
proof (rule exchange [OF assms(1)])
  show "rb_rep s x p t'" "distinct (before c @ inorder t' @ after c)"
    using assms by (auto simp: troot_plug)
  show "t_left (spliced c x p s) z = t_left (slot_set (slot_of c) p s) z \<and>
      t_right (spliced c x p s) z = t_right (slot_set (slot_of c) p s) z \<and>
      rb_parent (spliced c x p s) z = (if z = p then upper c else rb_parent s z)" if "z \<noteq> 0" for z
    using that raw_parent_at [OF assms(1)] by (auto simp: spliced_def Let_def)
qed simp

lemma spliced_ok:
  assumes "all_ok s (plug c (Node l x r))" and "t' = l \<or> t' = r"
  shows "\<forall>z \<in> set_tree (plug c t') - {upper c}. local_ok (spliced c x p s) z"
proof
  fix z
  assume z: "z \<in> set_tree (plug c t') - {upper c}"
  then have "z \<noteq> upper c" by simp
  then have "local_ok (spliced c x p s) z \<longleftrightarrow> local_ok s z"
    by (intro local_ok_cong) (simp_all add: slot_other csub_def)
  then show "local_ok (spliced c x p s) z"
    using z assms by (auto simp: all_ok_def set_tree_plug)
qed

section \<open>A node with two children\<close>

text \<open>The node \<open>x\<close> with its successor \<open>y\<close>, which is the leftmost node of the right subtree.\<close>

definition two :: "'x tstore_scheme \<Rightarrow> rb_ctx \<Rightarrow> rnode tree \<Rightarrow> rnode \<Rightarrow> rb_ctx \<Rightarrow> rnode \<Rightarrow> rnode tree \<Rightarrow> bool" where
  "two s c l x d y r2 \<longleftrightarrow> troot s (plug c (Node l x (plug d (Node Leaf y r2)))) \<and> before d = [] \<and> l \<noteq> Leaf"

lemma two_rep:
  assumes "two s c l x d y r2"
  shows "ctx_ok s c" and "rb_rep s x (t_left s x) l" and "rb_rep s x (t_right s x) (plug d (Node Leaf y r2))"
    and "rb_parent s x = upper c" and "before d = []" and "troot s (plug c (Node l x (plug d (Node Leaf y r2))))"
    and "troot s (plug (d @ wr l x # c) (Node Leaf y r2))" and "rb_rep s y (t_right s y) r2" and "t_left s y = 0"
    and "t_left s x \<noteq> 0" and "t_right s x \<noteq> 0"
proof -
  show t: "troot s (plug c (Node l x (plug d (Node Leaf y r2))))" and "before d = []"
    using assms by (simp_all add: two_def)
  then show "ctx_ok s c" and "rb_rep s x (t_left s x) l" and r: "rb_rep s x (t_right s x) (plug d (Node Leaf y r2))"
    and "rb_parent s x = upper c"
    by (simp_all add: troot_plug)
  then show "t_left s x \<noteq> 0" "t_right s x \<noteq> 0"
    using assms plug_not_Leaf by (auto simp: two_def)
  show t: "troot s (plug (d @ wr l x # c) (Node Leaf y r2))"
    using t by (simp add: plug_append)
  then show "rb_rep s y (t_right s y) r2" and "t_left s y = 0"
    by (simp_all only: troot_plug rb_rep.simps)
qed

lemma two_distinct:
  assumes "two s c l x d y r2"
  defines "A \<equiv> {x, y}" and "C \<equiv> ctx_nodes c" and "L \<equiv> set_tree l" and "D \<equiv> ctx_nodes d" and "R \<equiv> set_tree r2"
  shows "x \<noteq> y" "A \<inter> C = {}" "A \<inter> L = {}" "A \<inter> D = {}" "A \<inter> R = {}" "C \<inter> L = {}" "C \<inter> D = {}" "C \<inter> R = {}"
    "L \<inter> D = {}" "L \<inter> R = {}" "D \<inter> R = {}" "0 \<notin> A \<union> C \<union> L \<union> D \<union> R"
    "distinct (before c @ inorder l @ y # inorder (plug d r2) @ after c)"
proof -
  have "distinct (before c @ inorder l @ x # before d @ y # inorder r2 @ after d @ after c)"
    using two_rep(6) [OF assms(1)] by (simp add: troot_plug inorder_plug)
  then show "x \<noteq> y" "A \<inter> C = {}" "A \<inter> L = {}" "A \<inter> D = {}" "A \<inter> R = {}" "C \<inter> L = {}" "C \<inter> D = {}" "C \<inter> R = {}"
    "L \<inter> D = {}" "L \<inter> R = {}" "D \<inter> R = {}" "distinct (before c @ inorder l @ y # inorder (plug d r2) @ after c)"
    unfolding A_def C_def L_def D_def R_def by (auto simp: ctx_nodes_def inorder_plug)
  have "0 \<notin> set_tree (plug c (Node l x (plug d (Node Leaf y r2))))"
    using rep_nonzero [of s 0 "t_root s" _ 0] two_rep(6) [OF assms(1)] unfolding troot_def by blast
  then show "0 \<notin> A \<union> C \<union> L \<union> D \<union> R"
    by (auto simp: set_tree_plug A_def C_def L_def D_def R_def)
qed

lemma left_slots: "before d = [] \<Longrightarrow> d \<noteq> [] \<Longrightarrow> slot_of d = left_slot (upper d) \<and> upper d \<in> ctx_nodes d"
  by (cases d rule: upper.cases) auto

lemma right_root:
  assumes "two s c l x d y r2" and "d \<noteq> []"
  shows "\<exists>d' rr. d = d' @ [wl (t_right s x) rr] \<and> before d' = []"
proof -
  obtain d' w where d: "d = d' @ [w]"
    using assms(2) by (metis rev_exhaust)
  then obtain z rr where w: "w = wl z rr" "before d' = []"
    using left_step two_rep(5) [OF assms(1)] by blast
  have "t_right s x = z"
    using two_rep(3) [OF assms(1)] by (simp add: d w(1) plug_append)
  then show ?thesis using d w by blast
qed

text \<open>What the store looks like when the successor has taken the place of the node.\<close>

definition replaced :: "'x tstore_scheme \<Rightarrow> rb_ctx \<Rightarrow> rnode \<Rightarrow> rb_ctx \<Rightarrow> rnode \<Rightarrow> 'x tstore_scheme \<Rightarrow> bool" where
  "replaced s c x d y s' \<longleftrightarrow>
     (\<forall>z. z \<noteq> 0 \<longrightarrow>
        t_left s' z = (if z = y then t_left s x else if d \<noteq> [] \<and> z = upper d then t_right s y
                       else t_left (slot_set (slot_of c) y s) z) \<and>
        t_right s' z = (if z = y then if d = [] then t_right s y else t_right s x
                        else t_right (slot_set (slot_of c) y s) z) \<and>
        rb_parent s' z = (if z = y then upper c else if z = t_right s y then if d = [] then y else upper d
                          else if z = t_left s x then y else if d \<noteq> [] \<and> z = t_right s x then y else rb_parent s z)) \<and>
     t_root s' = t_root (slot_set (slot_of c) y s)"

lemma replaced_rep:
  assumes "two s c l x d y r2" and "replaced s c x d y s'"
  shows "troot s' (plug c (Node l y (plug d r2)))"
proof (rule troot_replace [OF two_rep(6) [OF assms(1)]])
  note rep = two_rep [OF assms(1)] and dist = two_distinct [OF assms(1)]
  note s' = assms(2) [unfolded replaced_def, THEN conjunct1, rule_format]
  have up: "upper c \<in> insert 0 (ctx_nodes c)" "d \<noteq> [] \<Longrightarrow> upper d \<in> ctx_nodes d"
    using upper_ctx [of c] upper_ctx [of d] by (cases c; simp)+
  have ptr: "t_left s x \<in> set_tree l" "t_right s y \<in> insert 0 (set_tree r2)"
    "t_right s x \<in> insert y (ctx_nodes d \<union> set_tree r2)"
    using rep(2,3,8) [THEN ptr_cases] rep(10,11) by (auto simp: set_tree_plug)
  show "t_root s' = t_root (slot_set (slot_of c) y s)"
    using assms(2) by (simp add: replaced_def)
  show "same (ctx_nodes c) (slot_set (slot_of c) y s) s'"
    unfolding same_def
  proof
    fix z
    assume "z \<in> ctx_nodes c"
    then have "z \<noteq> 0" "z \<noteq> y" "\<not> (d \<noteq> [] \<and> z = upper d)" "z \<noteq> t_right s y" "z \<noteq> t_left s x" "z \<noteq> t_right s x"
      using dist ptr up by auto
    then show "rb_parent s' z = rb_parent (slot_set (slot_of c) y s) z \<and>
        t_left s' z = t_left (slot_set (slot_of c) y s) z \<and> t_right s' z = t_right (slot_set (slot_of c) y s) z"
      using s' [of z] by auto
  qed
  show "distinct (before c @ inorder (Node l y (plug d r2)) @ after c)"
    using dist(13) by simp
  let ?sA = "spliced (d @ wr l x # c) y (t_right s y) s"
  have "troot ?sA (plug c (Node l x (plug d r2)))"
    using spliced_rep [OF rep(7), of r2 "t_right s y"] by (simp add: plug_append)
  then have R: "rb_rep ?sA x (t_right ?sA x) (plug d r2)" "distinct (inorder (plug d r2))"
    by (simp_all only: troot_plug rb_rep.simps) (auto)
  have L: "distinct (inorder l)"
    using dist(13) by simp
  have y: "y \<noteq> 0" "aligned y"
    using rep_nonzero [OF rep(3), of y] by (simp_all add: set_tree_plug)
  have l: "rb_rep s' y (t_left s x) l"
  proof (rule reparent [OF rep(2) L])
    fix z
    assume "z \<in> set_tree l"
    then have "z \<noteq> 0" "z \<noteq> y" "\<not> (d \<noteq> [] \<and> z = upper d)" "z \<noteq> t_right s y" "z \<noteq> t_right s x" "z \<noteq> upper c"
      using dist ptr up by auto
    then show "t_left s' z = t_left s z \<and> t_right s' z = t_right s z \<and> rb_parent s' z = (if z = t_left s x then y else rb_parent s z)"
      using s' [of z] by (auto simp: slot_other)
  qed
  have x: "x \<noteq> y" "x \<noteq> upper d \<or> d = []" "x \<noteq> 0"
    using dist up(2) by auto
  have pR: "t_right ?sA x = (if d = [] then t_right s y else t_right s x)"
    using left_slots [OF rep(5)] by simp
  have r: "rb_rep s' y (t_right ?sA x) (plug d r2)"
  proof (rule reparent [OF R])
    fix z
    assume "z \<in> set_tree (plug d r2)"
    then have z: "z \<noteq> 0" "z \<noteq> y" "z \<noteq> x" "z \<noteq> t_left s x" "z \<noteq> upper c"
      using dist ptr up by (auto simp: set_tree_plug)
    have "t_left ?sA z = (if d \<noteq> [] \<and> z = upper d then t_right s y else t_left s z)" "t_right ?sA z = t_right s z"
      using z(3) left_slots [OF rep(5)] by auto
    moreover have "rb_parent ?sA z = (if z = t_right s y then if d = [] then x else upper d else rb_parent s z)"
      using z(1) raw_parent_at [OF rep(7)] by (auto simp: spliced_def Let_def)
    moreover have "t_right s x \<noteq> t_right s y" if "d \<noteq> []"
      using right_root [OF assms(1) that] ptr(2) dist(11,12) by auto
    ultimately show "t_left s' z = t_left ?sA z \<and> t_right s' z = t_right ?sA z \<and>
        rb_parent s' z = (if z = t_right ?sA x then y else rb_parent ?sA z)"
      using s' [OF z(1)] z slot_other [OF z(5), of y s] unfolding pR by (cases "d = []") auto
  qed
  show "rb_rep s' (upper c) y (Node l y (plug d r2))"
    using y l r s' [of y] pR by simp
qed

text \<open>The successor leaves its place, and the maxima below the node are brought up to date.\<close>

definition detach :: "rb_ctx \<Rightarrow> rnode \<Rightarrow> rnode \<Rightarrow> 'x tstore_scheme \<Rightarrow> 'x tstore_scheme" where
  "detach d x y s =
     (if d = [] then s
      else rb_set_parent (t_right s x) y (set_right y (t_right s x) (set_left (upper d) (t_right s y) s)))"

lemma detach_propagate:
  fixes s :: "'x itstore_scheme"
  assumes "two s c l x d y r2" and "d \<noteq> []" and "all_ok s (plug c (Node l x (plug d (Node Leaf y r2))))"
  shows "\<exists>f. augment_propagate (upper d) y (augment_copy x y (detach d x y s)) = Some (detach d x y s\<lparr>t_sub := f\<rparr>) \<and>
    (\<forall>z. z \<notin> ctx_nodes d \<longrightarrow> f z = (if z = y then t_sub s x else t_sub s z)) \<and>
    (\<forall>z \<in> set_tree (plug d r2). local_ok (detach d x y s\<lparr>t_sub := f\<rparr>) z)"
proof -
  note rep = two_rep [OF assms(1)] and dist = two_distinct [OF assms(1)]
  let ?A = "set_tree (plug d r2)" and ?s = "augment_copy x y (detach d x y s)"
  have y: "aligned y"
    using rep_nonzero [OF rep(3), of y] by (simp add: set_tree_plug)
  have sel: "rb_parent ?s z = (if z = t_right s x then y else rb_parent s z)"
    "t_left ?s z = (if z = upper d then t_right s y else t_left s z)"
    "t_right ?s z = (if z = y then t_right s x else t_right s z)"
    "t_sub ?s z = (if z = y then t_sub s x else t_sub s z)" "t_last ?s z = t_last s z" for z
    using y assms(2) by (simp_all add: augment_copy_def detach_def)
  have up: "upper d \<in> ctx_nodes d" "t_right s y \<in> insert 0 (set_tree r2)"
    using upper_ctx [OF assms(2)] rep(8) [THEN ptr_cases] by auto
  have A: "set (uppers d) \<subseteq> ?A" "x \<notin> ?A" "y \<notin> ?A" "0 \<notin> ?A"
    using set_uppers [of d] dist by (auto simp: set_tree_plug)
  have below: "z \<in> set_tree (plug d (Node Leaf y r2))" if "z \<in> ?A" for z
    using that by (auto simp: set_tree_plug)
  obtain d' rr where d: "d = d' @ [wl (t_right s x) rr]" "before d' = []"
    using right_root [OF assms(1,2)] by blast
  have dd: "distinct (inorder (plug d (Node Leaf y r2)))" "x \<notin> set_tree (plug d (Node Leaf y r2))"
    using rep(6) dist by (auto simp: troot_plug set_tree_plug)
  have "chain s (uppers d) x"
    using chain_plug [OF rep(3) dd] by simp
  have ud: "uppers d = uppers d' @ [t_right s x]"
    by (subst d(1)) simp
  have c: "chain s (uppers d' @ [t_right s x]) x" "t_right s x \<notin> set (uppers d')"
    using \<open>chain s (uppers d) x\<close> chain_distinct [OF \<open>chain s (uppers d) x\<close>] by (simp_all add: ud)
  have "y \<notin> set (uppers d)"
    using A(1,3) by blast
  then have "y \<notin> set (uppers d') \<union> {t_right s x}"
    unfolding ud by simp
  then have ch: "chain ?s (uppers d) y"
    unfolding ud using c(2) by (intro chain_end [OF c(1)]) (auto simp: sel)
  have par: "rb_parent ?s p = z" if "z \<in> ?A" "p \<in> set (uppers d)" "t_left ?s z = p \<or> t_right ?s z = p" for z p
  proof -
    have "p \<in> ctx_nodes d"
      using set_uppers that(2) by blast
    then have "p \<noteq> t_right s y" "p \<noteq> 0"
      using up(2) dist by auto
    then have "t_left s z = p \<or> t_right s z = p"
      using that A(3) sel by (auto split: if_splits)
    then have "rb_parent s p = z"
      using child_parent [OF rep(3) below [OF that(1)]] \<open>p \<noteq> 0\<close> by blast
    moreover from this have "p \<noteq> t_right s x"
      using rep_parent [OF rep(3) rep(11)] that(1) A(2) by auto
    ultimately show ?thesis by (simp add: sel)
  qed
  have yp: "rb_parent s y = upper d"
    using rep(7) assms(2) by (simp add: troot_plug)
  have loc: "local_ok ?s z" if "z \<in> ?A - {upper d}" for z
  proof -
    have z: "z \<noteq> y" "z \<noteq> upper d" "z \<in> ?A"
      using that A by auto
    have "t_left s z \<noteq> y" "t_right s z \<noteq> y"
      using child_parent [OF rep(3) below [OF z(3)], of y] yp z(2) dist(12) by auto
    then have "local_ok ?s z \<longleftrightarrow> local_ok s z"
      using z by (intro local_ok_cong csub_cong) (simp_all add: sel csub_def)
    then show ?thesis
      using assms(3) z(3) by (auto simp: all_ok_def set_tree_plug)
  qed
  have h: "hd (uppers d @ [y]) = upper d"
    using assms(2) by (simp add: hd_uppers)
  have sub: "augment_copy x y s0\<lparr>t_sub := f\<rparr> = s0\<lparr>t_sub := f\<rparr>" for f and s0 :: "'x itstore_scheme"
    by (simp add: augment_copy_def set_sub_def)
  obtain f where "augment_propagate (upper d) y ?s = Some (?s\<lparr>t_sub := f\<rparr>)"
    "\<forall>z. z \<notin> set (uppers d) \<longrightarrow> f z = t_sub ?s z" "\<forall>z \<in> ?A - {y}. local_ok (?s\<lparr>t_sub := f\<rparr>) z"
    using propagate_ok [OF ch _ A(1)] par loc unfolding h by blast
  then show ?thesis
    using set_uppers [of d] A(3) by (intro exI [of _ f]) (auto simp: sub sel)
qed

lemma parent_in: "rb_rep s q p t \<Longrightarrow> z \<in> set_tree t \<Longrightarrow> rb_parent s z \<in> insert q (set_tree t)"
  by (induction s q p t rule: rb_rep.induct) auto

lemma slot_sel:
  "t_left (slot_set sl v s) z = (if sl = left_slot z then v else t_left s z)"
  "t_right (slot_set sl v s) z = (if sl = right_slot z then v else t_right s z)"
  by (cases sl; auto)+

lemma slot_upper: "slot_of c = left_slot z \<or> slot_of c = right_slot z \<Longrightarrow> c \<noteq> [] \<and> z = upper c"
  by (cases c rule: upper.cases) auto

lemma detach_all:
  fixes s :: "'x itstore_scheme"
  assumes "two s c l x d y r2" and "all_ok s (plug c (Node l x (plug d (Node Leaf y r2))))"
  shows "\<exists>f. (if d = [] then Some (augment_copy x y s) else augment_propagate (upper d) y (augment_copy x y (detach d x y s))) =
      Some (detach d x y s\<lparr>t_sub := f\<rparr>) \<and>
    (\<forall>z. z \<notin> ctx_nodes d \<longrightarrow> f z = (if z = y then t_sub s x else t_sub s z)) \<and>
    (\<forall>z \<in> set_tree (plug d r2). local_ok (detach d x y s\<lparr>t_sub := f\<rparr>) z)"
proof (cases "d = []")
  case False
  then show ?thesis using detach_propagate [OF assms(1) False assms(2)] by simp
next
  case True
  note rep = two_rep [OF assms(1)] and dist = two_distinct [OF assms(1)]
  let ?f = "(t_sub s)(y := t_sub s x)"
  have "local_ok (s\<lparr>t_sub := ?f\<rparr>) z" if "z \<in> set_tree r2" for z
  proof -
    have "y \<noteq> 0" "y \<notin> set_tree r2"
      using dist by auto
    then have "z \<noteq> y" "t_left s z \<noteq> y" "t_right s z \<noteq> y"
      using child_parent [OF rep(8) that, of y] that by auto
    then have "local_ok (s\<lparr>t_sub := ?f\<rparr>) z \<longleftrightarrow> local_ok s z"
      by (intro local_ok_cong) (simp_all add: csub_def)
    then show ?thesis
      using assms(2) that by (auto simp: all_ok_def set_tree_plug)
  qed
  then show ?thesis
    using True by (intro exI [of _ ?f]) (simp add: augment_copy_def set_sub_def detach_def)
qed

lemma replaced_ok:
  fixes s :: "'x itstore_scheme"
  assumes "two s c l x d y r2" and "all_ok s (plug c (Node l x (plug d (Node Leaf y r2))))" and "replaced s c x d y s'"
    and "t_last s' = t_last s" and "\<forall>z. z \<notin> ctx_nodes d \<longrightarrow> t_sub s' z = (if z = y then t_sub s x else t_sub s z)"
    and "\<forall>z \<in> set_tree (plug d r2). local_ok (detach d x y s\<lparr>t_sub := t_sub s'\<rparr>) z"
  shows "\<forall>z \<in> set_tree (plug c (Node l y (plug d r2))) - {y}. local_ok s' z"
proof
  note rep = two_rep [OF assms(1)] and dist = two_distinct [OF assms(1)]
  note s' = assms(3) [unfolded replaced_def, THEN conjunct1, rule_format]
  fix z
  assume "z \<in> set_tree (plug c (Node l y (plug d r2))) - {y}"
  then consider (r) "z \<in> set_tree (plug d r2)" | (l) "z \<in> set_tree l" | (c) "z \<in> ctx_nodes c"
    by (auto simp: set_tree_plug)
  then show "local_ok s' z"
  proof cases
    case r
    then have z: "z \<noteq> 0" "z \<noteq> y" "slot_of c \<noteq> left_slot z" "slot_of c \<noteq> right_slot z"
      using dist slot_upper [of c z] upper_ctx [of c] by (auto simp: set_tree_plug)
    have "local_ok s' z \<longleftrightarrow> local_ok (detach d x y s\<lparr>t_sub := t_sub s'\<rparr>) z"
      using s' [OF z(1)] z assms(4) by (intro local_ok_cong) (auto simp: detach_def slot_sel csub_def)
    then show ?thesis using assms(6) r by blast
  next
    case l
    then have z: "z \<noteq> 0" "z \<noteq> y" "slot_of c \<noteq> left_slot z" "slot_of c \<noteq> right_slot z" "z \<notin> ctx_nodes d"
      using dist slot_upper [of c z] upper_ctx [of c] by auto
    have ch: "csub s' p = csub s p" if "t_left s z = p \<or> t_right s z = p" for p
    proof (cases "p = 0")
      case False
      with child_parent [OF rep(2) l that] have "p \<in> set_tree l" by blast
      then have "p \<noteq> y" "p \<notin> ctx_nodes d" using dist by auto
      then show ?thesis using assms(5) by (simp add: csub_def)
    qed (simp add: csub_def)
    have "d = [] \<or> z \<noteq> upper d"
      using upper_ctx [of d] z(5) by auto
    then have "t_left s' z = t_left s z" "t_right s' z = t_right s z"
      using s' [OF z(1)] z by (auto simp: slot_sel)
    then have "local_ok s' z \<longleftrightarrow> local_ok s z"
      using ch z assms(4,5) by (intro local_ok_cong) simp_all
    then show ?thesis using assms(2) l by (auto simp: all_ok_def set_tree_plug)
  next
    case c
    then have z: "z \<noteq> 0" "z \<noteq> y" "z \<notin> ctx_nodes d"
      using dist by auto
    have ch: "csub s' p = csub s p" if "t_left s z = p \<or> t_right s z = p" for p
    proof (cases "p = 0")
      case False
      have "z \<in> set_tree (plug c (Node l x (plug d (Node Leaf y r2))))"
        using c by (simp add: set_tree_plug)
      then have "rb_parent s p = z"
        using child_parent [of s 0 "t_root s" _ z p] rep(6) that False unfolding troot_def by blast
      then have "p \<notin> insert y (ctx_nodes d)"
        using parent_in [OF rep(3), of p] c dist by (auto simp: set_tree_plug)
      then show ?thesis using assms(5) by (simp add: csub_def)
    qed (simp add: csub_def)
    have x: "csub s' y = csub s x"
      using assms(5) dist by (auto simp: csub_def)
    have hole: "slot_get (slot_of c) s = x"
      using rep(6) by (simp add: troot_plug)
    have "d = [] \<or> z \<noteq> upper d"
      using upper_ctx [of d] z(3) by auto
    then have "t_left s' z = (if slot_of c = left_slot z then y else t_left s z)"
      "t_right s' z = (if slot_of c = right_slot z then y else t_right s z)"
      using s' [OF z(1)] z by (auto simp: slot_sel)
    then have "local_ok s' z \<longleftrightarrow> local_ok s z"
      using ch x hole z assms(4,5) by (intro local_ok_cong) auto
    then show ?thesis using assms(2) c by (auto simp: all_ok_def set_tree_plug)
  qed
qed

text \<open>The writes that put the successor in the place of the node.\<close>

definition attach :: "rb_ctx \<Rightarrow> rnode \<Rightarrow> rnode \<Rightarrow> rnode \<Rightarrow> rnode \<Rightarrow> 'x tstore_scheme \<Rightarrow> 'x tstore_scheme" where
  "attach c x y parent child2 s =
     (let s1 = slot_set (slot_of c) y (rb_set_parent (t_left s x) y (set_left y (t_left s x) s));
          s2 = (if child2 \<noteq> 0 then rb_set_parent_color child2 parent RB_BLACK s1 else s1)
      in set_pc y (t_pc s x) s2)"

lemma attach_sel [simp]:
  "t_left (attach c x y p k s) = t_left (slot_set (slot_of c) y (set_left y (t_left s x) s))"
  "t_right (attach c x y p k s) = t_right (slot_set (slot_of c) y s)"
  "t_root (attach c x y p k s) = t_root (slot_set (slot_of c) y s)" "t_leftmost (attach c x y p k s) = t_leftmost s"
  by (cases "slot_of c"; simp add: attach_def Let_def)+

lemma attach_aug [simp]:
  "t_sub (attach c x y p k s) = t_sub s" "t_last (attach c x y p k s) = t_last s" "t_start (attach c x y p k s) = t_start s"
  by (simp_all add: attach_def Let_def)

lemma rb_parent_sub [simp]: "rb_parent (s\<lparr>t_sub := f\<rparr>) x = rb_parent s x"
  by (simp add: rb_parent_def)

lemma attach_replaced:
  fixes s :: "'x itstore_scheme"
  assumes "two s c l x d y r2"
  shows "replaced s c x d y (attach c x y (if d = [] then y else upper d) (t_right s y) (detach d x y s\<lparr>t_sub := f\<rparr>))"
    (is "replaced _ _ _ _ _ ?s'")
proof -
  note rep = two_rep [OF assms] and dist = two_distinct [OF assms]
  have al: "aligned y" "d \<noteq> [] \<Longrightarrow> aligned (upper d)"
    using rep_nonzero [OF rep(3)] upper_ctx [of d] by (auto simp: set_tree_plug)
  have ptr: "t_left s x \<in> set_tree l" "t_right s y \<in> insert 0 (set_tree r2)" "d \<noteq> [] \<Longrightarrow> t_right s x \<in> ctx_nodes d"
    using rep(2,8) [THEN ptr_cases] rep(10) right_root [OF assms] by auto
  have pcx: "t_pc (detach d x y s) x = t_pc s x"
    using ptr(3) dist by (auto simp: detach_def rb_set_parent_def)
  have up: "upper c \<noteq> y" "d \<noteq> [] \<Longrightarrow> upper d \<noteq> y \<and> upper d \<noteq> x \<and> upper d \<noteq> upper c"
    using upper_ctx [of c] upper_ctx [of d] dist by (cases "c = []"; auto)+
  have x: "t_left (detach d x y s) x = t_left s x" "x \<noteq> y"
    using up(2) dist by (auto simp: detach_def)
  have "t_left ?s' z = (if z = y then t_left s x else if d \<noteq> [] \<and> z = upper d then t_right s y
        else t_left (slot_set (slot_of c) y s) z)" for z
    using x up slot_upper [of c z] by (auto simp: slot_sel detach_def)
  moreover have "t_right ?s' z = (if z = y then if d = [] then t_right s y else t_right s x
        else t_right (slot_set (slot_of c) y s) z)" for z
    using up slot_upper [of c z] by (auto simp: slot_sel detach_def)
  moreover have "rb_parent ?s' z = (if z = y then upper c else if z = t_right s y then if d = [] then y else upper d
      else if z = t_left s x then y else if d \<noteq> [] \<and> z = t_right s x then y else rb_parent s z)" if "z \<noteq> 0" for z
    using that al x raw_parent_at [OF rep(6)] pcx by (auto simp: attach_def Let_def detach_def)
  moreover have "t_root ?s' = t_root (slot_set (slot_of c) y s)"
    by (cases "slot_of c") (simp_all add: detach_def)
  ultimately show ?thesis
    unfolding replaced_def by blast
qed

lemma erase_two_eq:
  fixes s :: "'x itstore_scheme"
  assumes "two s c l x d y r2"
    and "(if d = [] then Some (augment_copy x y s) else augment_propagate (upper d) y (augment_copy x y (detach d x y s))) =
      Some (detach d x y s\<lparr>t_sub := f\<rparr>)"
  shows "\<exists>b. rb_erase_two it_augment x s =
      Some (y, b, attach c x y (if d = [] then y else upper d) (t_right s y) (detach d x y s\<lparr>t_sub := f\<rparr>)) \<and>
    (b = 0 \<or> b = (if d = [] then y else upper d))"
proof -
  note rep = two_rep [OF assms(1)] and dist = two_distinct [OF assms(1)]
  define s1 where "s1 = detach d x y s\<lparr>t_sub := f\<rparr>"
  let ?S = "rb_set_parent (t_left s1 x) y (set_left y (t_left s1 x) s1)"
  have ptr: "t_left s x \<in> set_tree l" "d \<noteq> [] \<Longrightarrow> t_right s x \<in> ctx_nodes d"
    using rep(2) [THEN ptr_cases] rep(10) right_root [OF assms(1)] by auto
  have up: "upper c \<noteq> y" "d \<noteq> [] \<Longrightarrow> upper d \<noteq> y \<and> upper d \<noteq> x \<and> upper d \<noteq> upper c"
    using upper_ctx [of c] upper_ctx [of d] dist by (cases "c = []"; auto)+
  have x: "t_left s1 x = t_left s x" "x \<noteq> y" "x \<noteq> t_left s x"
    using up(2) ptr(1) dist by (auto simp: detach_def s1_def)
  have pc: "t_pc ?S x = t_pc s1 x" "raw_rb_parent (t_pc s1 x) = upper c"
    using x ptr(2) dist raw_parent_at [OF rep(6)] by (auto simp: rb_set_parent_def s1_def detach_def)
  have change: "raw_rb_change_child x y (upper c) ?S = slot_set (slot_of c) y ?S"
    using up by (intro change_child [OF rep(6)]) (auto simp: s1_def detach_def)
  show ?thesis
  proof (cases "d = []")
    case True
    then have y: "t_right s x = y"
      using rep(3) by simp
    have copy: "augment_copy x y s = s1"
      using assms(2) True by (simp add: s1_def)
    show ?thesis
      unfolding s1_def [symmetric] rb_erase_two_def attach_def
      using True pc change y copy rep(9) by (simp add: Let_def it_augment_def)
  next
    case False
    then obtain d' rr where d: "d = d' @ [wl (t_right s x) rr]" "before d' = []"
      using right_root [OF assms(1)] by blast
    have "rb_rep s x (t_right s x) (Node (plug d' (Node Leaf y r2)) (t_right s x) rr)"
      using rep(3) by (subst (asm) d(1)) (simp only: plug_snoc)
    note child = successor_rep [OF this d(2), folded d(1)] and left = this
    have "t_left s (t_right s x) \<noteq> 0"
      using left plug_not_Leaf [of "Node Leaf y r2" d'] by auto
    moreover have "augment_propagate (upper d) y (augment_copy x y (rb_set_parent (t_right s x) y
        (set_right y (t_right s x) (set_left (upper d) (t_right s y) s)))) = Some s1"
      using assms(2) False by (simp add: detach_def s1_def)
    ultimately show ?thesis
      unfolding s1_def [symmetric] rb_erase_two_def attach_def
      using False pc change child by (simp add: Let_def it_augment_def)
  qed
qed

section \<open>Erasing a node\<close>

lemma remove_at:
  "distinct (inorder (plug c (Node l x r))) \<Longrightarrow>
     remove1 x (inorder (plug c (Node l x r))) = before c @ inorder l @ inorder r @ after c"
  by (simp add: inorder_plug remove1_append)

lemma all_ok_leftmost [simp]: "all_ok (s\<lparr>t_leftmost := v\<rparr>) t \<longleftrightarrow> all_ok s t"
  by (simp add: all_ok_def local_ok_def node_max_def csub_def)

lemma erase_pre:
  fixes s :: "'x itstore_scheme"
  assumes "troot s (plug c (Node l x r))" and "all_ok s (plug c (Node l x r))"
  shows "\<exists>b s' c' u. (if t_left s x = 0 then Some (rb_erase_no_left x s)
      else if t_right s x = 0 then Some (rb_erase_no_right x s) else rb_erase_two it_augment x s) = Some (upper c', b, s') \<and>
    troot s' (plug c' u) \<and> (\<forall>z \<in> set_tree (plug c' u) - {upper c'}. local_ok s' z) \<and>
    inorder (plug c' u) = before c @ inorder l @ inorder r @ after c \<and> (b = 0 \<or> b \<in> set_tree (plug c' u)) \<and>
    t_leftmost s' = t_leftmost s \<and> t_start s' = t_start s \<and> t_last s' = t_last s"
proof -
  have ptr: "rb_rep s x (t_left s x) l" "rb_rep s x (t_right s x) r"
    using assms(1) by (simp_all add: troot_plug)
  have up: "upper c = 0 \<or> upper c \<in> ctx_nodes c"
    using upper_ctx [of c] by (cases c) auto
  consider (left) "t_left s x = 0" | (right) "t_left s x \<noteq> 0" "t_right s x = 0" | (two) "t_left s x \<noteq> 0" "t_right s x \<noteq> 0"
    by blast
  then show ?thesis
  proof cases
    case left
    then have l: "l = Leaf" using ptr(1) by simp
    obtain b where "rb_erase_no_left x s = (upper c, b, spliced c x (t_right s x) s)" "b = 0 \<or> b = upper c"
      using no_left_eq [OF assms(1)] by blast
    then show ?thesis
      using left l up spliced_rep [OF assms(1), of r] spliced_ok [OF assms(2), of r]
      by (intro exI [of _ b] exI [of _ "spliced c x (t_right s x) s"] exI [of _ c] exI [of _ r])
        (auto simp: inorder_plug set_tree_plug)
  next
    case right
    then have r: "r = Leaf" using ptr(2) by simp
    show ?thesis
      using right r no_right_eq [OF assms(1) right(1)] spliced_rep [OF assms(1), of l] spliced_ok [OF assms(2), of l]
      by (intro exI [of _ 0] exI [of _ "spliced c x (t_left s x) s"] exI [of _ c] exI [of _ l])
        (auto simp: inorder_plug)
  next
    case two
    then have "r \<noteq> Leaf" "l \<noteq> Leaf" using ptr by auto
    then obtain d y r2 where r: "r = plug d (Node Leaf y r2)" "before d = []"
      using first_at by blast
    have t: "two s c l x d y r2"
      using assms(1) r \<open>l \<noteq> Leaf\<close> by (simp add: two_def)
    from detach_all [OF t] assms(2) r(1) obtain f where f:
      "(if d = [] then Some (augment_copy x y s) else augment_propagate (upper d) y (augment_copy x y (detach d x y s))) =
        Some (detach d x y s\<lparr>t_sub := f\<rparr>)"
      "\<forall>z. z \<notin> ctx_nodes d \<longrightarrow> f z = (if z = y then t_sub s x else t_sub s z)"
      "\<forall>z \<in> set_tree (plug d r2). local_ok (detach d x y s\<lparr>t_sub := f\<rparr>) z"
      by blast
    define s' where "s' = attach c x y (if d = [] then y else upper d) (t_right s y) (detach d x y s\<lparr>t_sub := f\<rparr>)"
    from erase_two_eq [OF t f(1)] obtain b where b: "rb_erase_two it_augment x s = Some (y, b, s')"
      "b = 0 \<or> b = (if d = [] then y else upper d)"
      unfolding s'_def by blast
    have sel: "t_sub s' = f" "t_last s' = t_last s" "t_start s' = t_start s" "t_leftmost s' = t_leftmost s"
      by (simp_all add: s'_def detach_def)
    note rep = attach_replaced [OF t, of f, folded s'_def]
    have "\<forall>z \<in> set_tree (plug c (Node l y (plug d r2))) - {y}. local_ok s' z"
      using replaced_ok [OF t _ rep sel(2)] assms(2) f(2,3) r(1) sel(1) by simp
    moreover have "b = 0 \<or> b \<in> set_tree (plug c (Node l y (plug d r2)))"
      using b(2) upper_ctx [of d] by (auto simp: set_tree_plug)
    ultimately show ?thesis
      using two b(1) sel replaced_rep [OF t rep] r
      by (intro exI [of _ b] exI [of _ s'] exI [of _ "wl y (plug d r2) # c"] exI [of _ l]) (auto simp: inorder_plug)
  qed
qed

lemma raw_erase:
  fixes s :: "'x itstore_scheme"
  assumes "troot s t" and "all_ok s t" and "x \<in> set_tree t"
  shows "\<exists>b s' t'. raw_rb_erase_augmented it_augment x s = Some (b, s') \<and> troot s' t' \<and> all_ok s' t' \<and>
    inorder t' = remove1 x (inorder t) \<and> (b = 0 \<or> b \<in> set_tree t') \<and>
    t_leftmost s' = t_leftmost s \<and> t_start s' = t_start s \<and> t_last s' = t_last s"
proof -
  obtain c l r where t: "t = plug c (Node l x r)"
    using tree_at [OF assms(3)] by blast
  from erase_pre [of s c l x r] assms(1,2) obtain b s1 c' u where e:
    "(if t_left s x = 0 then Some (rb_erase_no_left x s)
      else if t_right s x = 0 then Some (rb_erase_no_right x s) else rb_erase_two it_augment x s) = Some (upper c', b, s1)"
    "troot s1 (plug c' u)" "\<forall>z \<in> set_tree (plug c' u) - {upper c'}. local_ok s1 z"
    "inorder (plug c' u) = before c @ inorder l @ inorder r @ after c" "b = 0 \<or> b \<in> set_tree (plug c' u)"
    "t_leftmost s1 = t_leftmost s" "t_start s1 = t_start s" "t_last s1 = t_last s"
    unfolding t by blast
  from propagate_root [OF e(2,3)] obtain f where f: "augment_propagate (upper c') 0 s1 = Some (s1\<lparr>t_sub := f\<rparr>)"
    "troot (s1\<lparr>t_sub := f\<rparr>) (plug c' u)" "all_ok (s1\<lparr>t_sub := f\<rparr>) (plug c' u)"
    by blast
  have "raw_rb_erase_augmented it_augment x s = Some (b, s1\<lparr>t_sub := f\<rparr>)"
    unfolding raw_rb_erase_augmented_def e(1) using f(1) by (simp add: it_augment_def)
  moreover have "inorder (plug c' u) = remove1 x (inorder t)"
    using e(4) remove_at [of c l x r] assms(1) by (simp add: t troot_def)
  ultimately show ?thesis
    using f(2,3) e(5-8) by (intro exI [of _ b] exI [of _ "s1\<lparr>t_sub := f\<rparr>"] exI [of _ "plug c' u"]) simp
qed

end
