(* ===== verification/Rb_Search.thy ===== *)
theory Rb_Search
  imports Rb_Rep
begin

text \<open>
  Descending in a tree, in terms of its nodes in order: where a new node goes, and what the searches
  of \<open>linux/rbtree.h\<close> find.
\<close>

section \<open>The way down\<close>

fun path :: "(rnode \<Rightarrow> bool) \<Rightarrow> rnode tree \<Rightarrow> rb_ctx \<Rightarrow> rb_ctx" where
  "path g Leaf c = c"
| "path g (Node l x r) c = (if g x then path g l (wl x r # c) else path g r (wr l x # c))"

lemma plug_path: "plug (path g t c) Leaf = plug c t"
  by (induction g t c rule: path.induct) simp_all

lemma dropWhile_stop: "\<not> P y \<Longrightarrow> dropWhile P (xs @ y # ys) = dropWhile P xs @ y # ys"
  by (induction xs) simp_all

text \<open>The nodes that send the search to the right come before the ones that send it to the left.\<close>

definition splits :: "(rnode \<Rightarrow> bool) \<Rightarrow> rnode list \<Rightarrow> bool" where
  "splits g xs \<longleftrightarrow> sorted_wrt (\<lambda>x y. g x \<longrightarrow> g y) xs"

lemma path_parts:
  assumes "splits g (inorder t)"
  shows "before (path g t c) = before c @ takeWhile (\<lambda>x. \<not> g x) (inorder t)"
    and "after (path g t c) = dropWhile (\<lambda>x. \<not> g x) (inorder t) @ after c"
proof -
  have "before (path g t c) = before c @ takeWhile (\<lambda>x. \<not> g x) (inorder t) \<and>
      after (path g t c) = dropWhile (\<lambda>x. \<not> g x) (inorder t) @ after c"
    using assms
  proof (induction g t c rule: path.induct)
    case (2 g l x r c)
    have p: "sorted_wrt (\<lambda>x y. g x \<longrightarrow> g y) (inorder l) \<and> sorted_wrt (\<lambda>x y. g x \<longrightarrow> g y) (x # inorder r) \<and>
        (\<forall>y \<in> set (inorder l). \<forall>z \<in> set (x # inorder r). g y \<longrightarrow> g z)"
      using "2.prems" sorted_wrt_append [of "\<lambda>x y. g x \<longrightarrow> g y" "inorder l" "x # inorder r"]
      unfolding splits_def inorder.simps append.simps by (rule iffD1 [rotated])
    then have s: "splits g (inorder l)" "splits g (inorder r)"
      by (simp_all only: splits_def sorted_wrt.simps)
    have l: "\<not> g y" if "\<not> g x" "y \<in> set (inorder l)" for y
      using p that by (meson list.set_intros(1))
    show ?case
    proof (cases "g x")
      case True
      then show ?thesis
        using "2.IH"(1) s(1) by (simp add: takeWhile_tail dropWhile_stop)
    next
      case False
      then have "takeWhile (\<lambda>x. \<not> g x) (inorder l @ x # inorder r) = inorder l @ x # takeWhile (\<lambda>x. \<not> g x) (inorder r)"
        "dropWhile (\<lambda>x. \<not> g x) (inorder l @ x # inorder r) = dropWhile (\<lambda>x. \<not> g x) (inorder r)"
        using l [OF False] takeWhile_append2 [of "inorder l" "\<lambda>x. \<not> g x"]
          dropWhile_append2 [of "inorder l" "\<lambda>x. \<not> g x"] False by simp_all
      then show ?thesis
        using False "2.IH"(2) s(2) by simp
    qed
  qed simp
  then show "before (path g t c) = before c @ takeWhile (\<lambda>x. \<not> g x) (inorder t)"
    "after (path g t c) = dropWhile (\<lambda>x. \<not> g x) (inorder t) @ after c" by simp_all
qed

lemma before_path: "\<exists>zs. before (path g t c) = before c @ zs"
  by (induction g t c rule: path.induct) auto

lemma descend_rep:
  "rb_rep s (upper c) (slot_get (slot_of c) s) t \<Longrightarrow>
     rb_descend lt n (slot_of c) (upper c) b s =
     Some (slot_of (path (lt n) t c), upper (path (lt n) t c), b \<and> before (path (lt n) t c) = before c)"
proof (induction t arbitrary: c b)
  case Leaf
  then show ?case by (subst rb_descend.simps) simp
next
  case (Node l x r)
  then have x: "slot_get (slot_of c) s = x" "x \<noteq> 0" "rb_rep s x (t_left s x) l" "rb_rep s x (t_right s x) r"
    by simp_all
  obtain zs where "before (path (lt n) r (wr l x # c)) = before (wr l x # c) @ zs"
    using before_path by blast
  then have "before (path (lt n) r (wr l x # c)) \<noteq> before c"
    by (metis append.assoc append_self_conv before.simps(3) append_is_Nil_conv not_Cons_self2)
  then show ?case
    using x Node.IH(1) [of "wl x r # c" b] Node.IH(2) [of "wr l x # c" False]
    by (subst rb_descend.simps) (auto simp: Let_def)
qed

text \<open>Where a node ends up in the order of the nodes, before the tree is rebalanced.\<close>

definition place :: "(rnode \<Rightarrow> bool) \<Rightarrow> rnode \<Rightarrow> rnode list \<Rightarrow> rnode list" where
  "place g n xs = takeWhile (\<lambda>x. \<not> g x) xs @ n # dropWhile (\<lambda>x. \<not> g x) xs"

lemma set_place [simp]: "set (place g n xs) = insert n (set xs)"
  by (simp add: place_def) (metis set_append takeWhile_dropWhile_id)

lemma inorder_placed: "splits g (inorder t) \<Longrightarrow> inorder (plug (path g t []) (Node Leaf n Leaf)) = place g n (inorder t)"
  by (simp add: inorder_plug path_parts place_def)

text \<open>A node placed by the order keeps the order.\<close>

lemma place_sorted:
  assumes "sorted_wrt R xs" and "\<And>x. x \<in> set xs \<Longrightarrow> g x \<Longrightarrow> R n x" and "\<And>x. x \<in> set xs \<Longrightarrow> \<not> g x \<Longrightarrow> R x n"
    and "splits g xs"
  shows "sorted_wrt R (place g n xs)"
proof -
  have s: "sorted_wrt R (takeWhile (\<lambda>x. \<not> g x) xs @ dropWhile (\<lambda>x. \<not> g x) xs)"
    using assms(1) by simp
  have d: "g y" if "y \<in> set (dropWhile (\<lambda>x. \<not> g x) xs)" for y
    using that assms(4)
  proof (induction xs)
    case (Cons x xs)
    then show ?case by (auto simp: splits_def split: if_splits)
  qed simp
  have "R n y" if "y \<in> set (dropWhile (\<lambda>x. \<not> g x) xs)" for y
    using assms(2) d that by (meson set_dropWhileD)
  moreover have "R y n" if "y \<in> set (takeWhile (\<lambda>x. \<not> g x) xs)" for y
    using assms(3) set_takeWhileD [OF that] by blast
  ultimately show ?thesis
    using s unfolding place_def sorted_wrt_append by simp
qed

section \<open>Adding\<close>

text \<open>What the code relies on of \<open>rb_insert_color\<close>: it keeps the nodes of the tree in their order.\<close>

definition rebalances :: "(rnode \<Rightarrow> 'x tstore_scheme \<Rightarrow> 'x tstore_scheme) \<Rightarrow> bool" where
  "rebalances f \<longleftrightarrow>
     (\<forall>n s t. troot s t \<longrightarrow> n \<in> set_tree t \<longrightarrow>
        (\<exists>t'. troot (f n s) t' \<and> inorder t' = inorder t) \<and> t_leftmost (f n s) = t_leftmost s)"

lemma linked:
  assumes "troot s t" and "n \<notin> set_tree t" and "n \<noteq> 0" and "aligned n" and "splits g (inorder t)"
  defines "c \<equiv> path g t []"
  shows "troot (rb_link_node n (upper c) (slot_of c) s) (plug c (Node Leaf n Leaf))"
    and "inorder (plug c (Node Leaf n Leaf)) = place g n (inorder t)"
proof -
  have p: "plug c Leaf = t"
    by (simp add: c_def plug_path)
  show "troot (rb_link_node n (upper c) (slot_of c) s) (plug c (Node Leaf n Leaf))"
    using link_rep [of s c n] assms(1-4) by (simp add: p)
  show "inorder (plug c (Node Leaf n Leaf)) = place g n (inorder t)"
    unfolding c_def by (rule inorder_placed [OF assms(5)])
qed

lemma rebalanced:
  assumes "rebalances f" and "troot s t" and "n \<in> set_tree t"
  shows "\<exists>t'. troot (f n s) t' \<and> inorder t' = inorder t" and "t_leftmost (f n s) = t_leftmost s"
  using assms unfolding rebalances_def by blast+

lemma link_leftmost [simp]: "t_leftmost (rb_link_node n p l s) = t_leftmost s"
  by (cases l) (simp_all add: rb_link_node_def)

lemma troot_leftmost [simp]: "troot (s\<lparr>t_leftmost := v\<rparr>) t \<longleftrightarrow> troot s t"
proof -
  have "same A s (s\<lparr>t_leftmost := v\<rparr>)" for A
    by (simp add: same_def)
  from rep_same [OF this] show ?thesis
    by (simp add: troot_def)
qed

lemma add_cached_rep:
  assumes "rebalances ins" and "troot s t" and "n \<notin> set_tree t" and "n \<noteq> 0" and "aligned n"
    and "splits (lt n) (inorder t)" and "t_leftmost s = hd (inorder t @ [0])"
  shows "\<exists>r s' t'. rb_add_cached ins lt n s = Some (r, s') \<and> troot s' t' \<and> inorder t' = place (lt n) n (inorder t) \<and>
    t_leftmost s' = hd (inorder t') \<and> r = (if hd (inorder t') = n then n else 0)"
proof -
  define c where "c = path (lt n) t []"
  let ?t = "plug c (Node Leaf n Leaf)" and ?b = "takeWhile (\<lambda>x. \<not> lt n x) (inorder t)"
  let ?s = "rb_link_node n (upper c) (slot_of c) s"
  have t: "troot ?s ?t" "inorder ?t = place (lt n) n (inorder t)"
    using linked [OF assms(2-6)] by (simp_all add: c_def)
  have n: "n \<in> set_tree ?t"
    by (simp add: set_tree_plug)
  have b: "before c = ?b"
    using path_parts(1) [OF assms(6), of "[]"] by (simp add: c_def)
  have desc: "rb_descend lt n root_slot 0 True s = Some (slot_of c, upper c, ?b = [])"
    using descend_rep [of s "[]" t lt n True] assms(2) b by (simp add: c_def troot_def)
  have first: "hd (place (lt n) n (inorder t)) = (if ?b = [] then n else hd (inorder t))"
    by (cases "inorder t") (auto simp: place_def)
  have "hd (inorder t) \<noteq> n" if "?b \<noteq> []"
    using that assms(3) by (cases "inorder t") (auto simp flip: set_inorder)
  then have r: "(if ?b = [] then n else 0) = (if hd (place (lt n) n (inorder t)) = n then n else 0)"
    by (auto simp: first)
  let ?s' = "if ?b = [] then ?s\<lparr>t_leftmost := n\<rparr> else ?s"
  have "troot ?s' ?t"
    using t(1) by simp
  from rebalanced [OF assms(1) this n] obtain t' where
    t': "troot (ins n ?s') t'" "inorder t' = inorder ?t" "t_leftmost (ins n ?s') = t_leftmost ?s'"
    by blast
  have "t_leftmost ?s' = hd (inorder t')"
    using assms(7) first by (cases "inorder t") (auto simp: t'(2) t(2) place_def)
  then show ?thesis
    using t' t(2) r by (intro exI [of _ "if ?b = [] then n else 0"] exI [of _ "ins n ?s'"] exI [of _ t'])
      (simp add: rb_add_cached_def desc rb_insert_color_cached_def Let_def)
qed

lemma add_rep:
  assumes "rebalances ins" and "troot s t" and "n \<notin> set_tree t" and "n \<noteq> 0" and "aligned n"
    and "splits (lt n) (inorder t)"
  shows "\<exists>s' t'. rb_add ins lt n s = Some s' \<and> troot s' t' \<and> inorder t' = place (lt n) n (inorder t)"
proof -
  define c where "c = path (lt n) t []"
  have t: "troot (rb_link_node n (upper c) (slot_of c) s) (plug c (Node Leaf n Leaf))"
    "inorder (plug c (Node Leaf n Leaf)) = place (lt n) n (inorder t)"
    using linked [OF assms(2-6)] by (simp_all add: c_def)
  have "n \<in> set_tree (plug c (Node Leaf n Leaf))"
    by (simp add: set_tree_plug)
  from rebalanced(1) [OF assms(1) t(1) this] show ?thesis
    using descend_rep [of s "[]" t lt n True] assms(2) t(2) by (simp add: rb_add_def c_def troot_def)
qed

section \<open>The leftmost node\<close>

text \<open>\<open>rb_erase\<close> takes the node out and \<open>rb_replace_node\<close> puts another one in its place; both leave the rest in order.\<close>

definition erases :: "(rnode \<Rightarrow> 'x tstore_scheme \<Rightarrow> 'x tstore_scheme) \<Rightarrow> rnode \<Rightarrow> rnode tree \<Rightarrow> bool" where
  "erases f x t \<longleftrightarrow>
     (\<forall>s. troot s t \<longrightarrow>
        (\<exists>t'. troot (f x s) t' \<and> inorder t' = remove1 x (inorder t)) \<and> t_leftmost (f x s) = t_leftmost s)"

definition replaces :: "(rnode \<Rightarrow> rnode \<Rightarrow> 'x tstore_scheme \<Rightarrow> 'x tstore_scheme) \<Rightarrow> rnode \<Rightarrow> rnode \<Rightarrow> rnode tree \<Rightarrow> bool" where
  "replaces f x y t \<longleftrightarrow>
     (\<forall>s. troot s t \<longrightarrow>
        (\<exists>t'. troot (f x y s) t' \<and> inorder t' = map (\<lambda>z. if z = x then y else z) (inorder t)) \<and>
        t_leftmost (f x y s) = t_leftmost s)"

text \<open>\<open>rb_next\<close> steps to the node that follows in order; behind the last node is \<open>NULL\<close>.\<close>

definition steps :: "(rnode \<Rightarrow> 'x tstore_scheme \<Rightarrow> rnode) \<Rightarrow> 'x tstore_scheme \<Rightarrow> rnode tree \<Rightarrow> bool" where
  "steps rb_next s t \<longleftrightarrow> (\<forall>as x bs. inorder t = as @ x # bs \<longrightarrow> rb_next x s = hd (bs @ [0]))"

lemma stepsD: "steps nx s t \<Longrightarrow> inorder t = as @ x # bs \<Longrightarrow> nx x s = hd (bs @ [0])"
  unfolding steps_def by blast

lemma split_first: "distinct xs \<Longrightarrow> x \<in> set xs \<Longrightarrow> hd (xs @ [0]) = x \<Longrightarrow> \<exists>bs. xs = x # bs"
  by (cases xs) auto

lemma hd_remove1: "hd (xs @ [0]) \<noteq> x \<Longrightarrow> hd (remove1 x xs @ [0]) = hd (xs @ [0])"
  by (cases xs) auto

text \<open>If the cached node goes, the one that follows it becomes the first.\<close>

lemma next_first:
  assumes "steps nx s t" and "troot s t" and "x \<in> set_tree t" and "t_leftmost s = hd (inorder t @ [0])"
  shows "(if t_leftmost s = x then nx x s else t_leftmost s) = hd (remove1 x (inorder t) @ [0])"
proof (cases "t_leftmost s = x")
  case True
  then obtain bs where bs: "inorder t = x # bs"
    using split_first [of "inorder t" x] assms(2-4) by (auto simp: troot_def)
  then show ?thesis
    using stepsD [OF assms(1), of "[]"] True by simp
next
  case False
  then show ?thesis using hd_remove1 [of "inorder t" x] assms(4) by simp
qed

lemma erase_cached_rep:
  assumes "erases er x t" and "steps nx s t" and "troot s t" and "x \<in> set_tree t" and "t_leftmost s = hd (inorder t @ [0])"
  shows "\<exists>r s' t'. rb_erase_cached er nx x s = (r, s') \<and> troot s' t' \<and> inorder t' = remove1 x (inorder t) \<and>
    t_leftmost s' = hd (inorder t' @ [0]) \<and> r = (if t_leftmost s = x then t_leftmost s' else 0)"
proof -
  define s1 where "s1 = (if t_leftmost s = x then s\<lparr>t_leftmost := nx x s\<rparr> else s)"
  have "troot s1 t"
    using assms(3) by (simp add: s1_def)
  then obtain t' where t': "troot (er x s1) t'" "inorder t' = remove1 x (inorder t)" "t_leftmost (er x s1) = t_leftmost s1"
    using assms(1) unfolding erases_def by blast
  have "t_leftmost s1 = hd (remove1 x (inorder t) @ [0])"
    using next_first [OF assms(2-5)] by (simp add: s1_def split: if_splits)
  then show ?thesis
    using t' by (intro exI [of _ "if t_leftmost s = x then nx x s else 0"] exI [of _ "er x s1"] exI [of _ t'])
      (auto simp: rb_erase_cached_def s1_def Let_def)
qed

lemma replace_cached_rep:
  assumes "replaces rp x y t" and "troot s t" and "x \<in> set_tree t" and "t_leftmost s = hd (inorder t @ [0])"
  shows "\<exists>t'. troot (rb_replace_node_cached rp x y s) t' \<and> inorder t' = map (\<lambda>z. if z = x then y else z) (inorder t) \<and>
    t_leftmost (rb_replace_node_cached rp x y s) = hd (inorder t' @ [0])"
proof -
  define s1 where "s1 = (if t_leftmost s = x then s\<lparr>t_leftmost := y\<rparr> else s)"
  have "troot s1 t"
    using assms(2) by (simp add: s1_def)
  then obtain t' where t': "troot (rp x y s1) t'" "inorder t' = map (\<lambda>z. if z = x then y else z) (inorder t)"
    "t_leftmost (rp x y s1) = t_leftmost s1"
    using assms(1) unfolding replaces_def by blast
  have "inorder t \<noteq> []"
    using assms(3) by (cases t) auto
  then have "t_leftmost s1 = hd (inorder t' @ [0])"
    using assms(4) by (cases "inorder t") (auto simp: s1_def t'(2))
  then show ?thesis
    using t' by (auto simp: rb_replace_node_cached_def s1_def Let_def)
qed

section \<open>Searching\<close>

text \<open>The nodes before a match compare less than the key, the ones behind it greater.\<close>

definition cmp_sorted :: "(rnode \<Rightarrow> int) \<Rightarrow> rnode list \<Rightarrow> bool" where
  "cmp_sorted cmp xs \<longleftrightarrow> sorted_wrt (\<lambda>x y. sgn (cmp y) \<le> sgn (cmp x)) xs"

lemma cmp_sortedD:
  assumes "cmp_sorted cmp (inorder (Node l x r))"
  shows "cmp_sorted cmp (inorder l)" and "cmp_sorted cmp (inorder r)"
    and "y \<in> set_tree l \<Longrightarrow> cmp x > 0 \<Longrightarrow> cmp y > 0" and "y \<in> set_tree l \<Longrightarrow> cmp x = 0 \<Longrightarrow> cmp y \<ge> 0"
    and "y \<in> set_tree r \<Longrightarrow> cmp x < 0 \<Longrightarrow> cmp y < 0" and "y \<in> set_tree r \<Longrightarrow> cmp x = 0 \<Longrightarrow> cmp y \<le> 0"
  using assms by (auto simp: cmp_sorted_def sorted_wrt_append sgn_if split: if_splits)

lemma find_rep:
  "rb_rep s q p t \<Longrightarrow> cmp_sorted cmp (inorder t) \<Longrightarrow>
     \<exists>x. rb_find_from cmp p s = Some x \<and> (if x = 0 then \<forall>y \<in> set_tree t. cmp y \<noteq> 0 else x \<in> set_tree t \<and> cmp x = 0)"
proof (induction t arbitrary: q p)
  case Leaf
  then show ?case by (subst rb_find_from.simps) simp
next
  case (Node l x r)
  note d = cmp_sortedD [OF Node.prems(2)]
  have p: "p = x" "x \<noteq> 0" "rb_rep s x (t_left s x) l" "rb_rep s x (t_right s x) r"
    using Node.prems(1) by simp_all
  show ?case
  proof (cases "cmp x" "0 :: int" rule: linorder_cases)
    case less
    then show ?thesis
      using Node.IH(1) [OF p(3) d(1)] d(5) p(1,2)
      by (subst rb_find_from.simps) (fastforce simp: Let_def split: if_splits)
  next
    case equal
    then show ?thesis
      using p(1,2) by (subst rb_find_from.simps) simp
  next
    case greater
    then show ?thesis
      using Node.IH(2) [OF p(4) d(2)] d(3) p(1,2)
      by (subst rb_find_from.simps) (fastforce simp: Let_def split: if_splits)
  qed
qed

definition first_match :: "(rnode \<Rightarrow> int) \<Rightarrow> rnode list \<Rightarrow> rnode \<Rightarrow> rnode" where
  "first_match cmp xs m = hd (filter (\<lambda>x. cmp x = 0) xs @ [m])"

lemma find_first_rep:
  "rb_rep s q p t \<Longrightarrow> cmp_sorted cmp (inorder t) \<Longrightarrow> rb_find_first_from cmp p m s = Some (first_match cmp (inorder t) m)"
proof (induction t arbitrary: q p m)
  case Leaf
  then show ?case by (subst rb_find_first_from.simps) (simp add: first_match_def)
next
  case (Node l x r)
  note d = cmp_sortedD [OF Node.prems(2)]
  have p: "p = x" "x \<noteq> 0" "rb_rep s x (t_left s x) l" "rb_rep s x (t_right s x) r"
    using Node.prems(1) by simp_all
  have none: "filter (\<lambda>y. cmp y = 0) (inorder l) = []" if "cmp x > 0"
    using d(3) that by (fastforce simp: filter_empty_conv)
  have none': "filter (\<lambda>y. cmp y = 0) (inorder r) = []" if "cmp x < 0"
    using d(5) that by (fastforce simp: filter_empty_conv)
  show ?case
    using Node.IH(1) [OF p(3) d(1)] Node.IH(2) [OF p(4) d(2)] p(1,2) none none'
    by (subst rb_find_first_from.simps) (auto simp: Let_def first_match_def hd_append)
qed

lemma cmp_splits: "cmp_sorted cmp xs \<Longrightarrow> splits (\<lambda>x. cmp x < 0) xs"
  unfolding cmp_sorted_def splits_def by (rule sorted_wrt_mono_rel) (auto simp: sgn_if split: if_splits)

lemma find_slot_rep:
  "rb_rep s (upper c) (slot_get (slot_of c) s) t \<Longrightarrow> cmp_sorted (cmp n) (inorder t) \<Longrightarrow>
     (\<exists>x \<in> set_tree t. cmp n x = 0 \<and> rb_find_slot cmp n (slot_of c) (upper c) s = Some (Inl x)) \<or>
     (\<forall>x \<in> set_tree t. cmp n x \<noteq> 0) \<and>
     rb_find_slot cmp n (slot_of c) (upper c) s =
       Some (Inr (slot_of (path (\<lambda>x. cmp n x < 0) t c), upper (path (\<lambda>x. cmp n x < 0) t c)))"
proof (induction t arbitrary: c)
  case Leaf
  then show ?case by (subst (1 2) rb_find_slot.simps) simp
next
  case (Node l x r)
  note d = cmp_sortedD [OF Node.prems(2)]
  have p: "slot_get (slot_of c) s = x" "x \<noteq> 0" "rb_rep s x (t_left s x) l" "rb_rep s x (t_right s x) r"
    using Node.prems(1) by simp_all
  show ?case
  proof (cases "cmp n x" "0 :: int" rule: linorder_cases)
    case less
    then have "rb_find_slot cmp n (slot_of c) (upper c) s = rb_find_slot cmp n (left_slot x) x s"
      using p(1,2) by (subst rb_find_slot.simps) (simp add: Let_def)
    then show ?thesis
      using Node.IH(1) [of "wl x r # c"] p(3) d(1,5) less by fastforce
  next
    case equal
    then show ?thesis
      using p(1,2) by (subst rb_find_slot.simps) simp
  next
    case greater
    then have "rb_find_slot cmp n (slot_of c) (upper c) s = rb_find_slot cmp n (right_slot x) x s"
      using p(1,2) by (subst rb_find_slot.simps) (simp add: Let_def)
    then show ?thesis
      using Node.IH(2) [of "wr l x # c"] p(4) d(2,3) greater by fastforce
  qed
qed

lemma find_add_rep:
  assumes "rebalances ins" and "troot s t" and "n \<notin> set_tree t" and "n \<noteq> 0" and "aligned n"
    and "cmp_sorted (cmp n) (inorder t)"
  shows "(\<exists>x \<in> set_tree t. cmp n x = 0 \<and> rb_find_add ins cmp n s = Some (x, s)) \<or>
    (\<forall>x \<in> set_tree t. cmp n x \<noteq> 0) \<and>
    (\<exists>s' t'. rb_find_add ins cmp n s = Some (0, s') \<and> troot s' t' \<and>
       inorder t' = place (\<lambda>x. cmp n x < 0) n (inorder t))"
proof -
  define c where "c = path (\<lambda>x. cmp n x < 0) t []"
  have t: "troot (rb_link_node n (upper c) (slot_of c) s) (plug c (Node Leaf n Leaf))"
    "inorder (plug c (Node Leaf n Leaf)) = place (\<lambda>x. cmp n x < 0) n (inorder t)"
    using linked [OF assms(2-5) cmp_splits [OF assms(6)]] by (simp_all add: c_def)
  have "n \<in> set_tree (plug c (Node Leaf n Leaf))"
    by (simp add: set_tree_plug)
  note b = rebalanced(1) [OF assms(1) t(1) this]
  consider x where "x \<in> set_tree t" "cmp n x = 0" "rb_find_slot cmp n root_slot 0 s = Some (Inl x)"
    | "\<forall>x \<in> set_tree t. cmp n x \<noteq> 0" "rb_find_slot cmp n root_slot 0 s = Some (Inr (slot_of c, upper c))"
    using find_slot_rep [of s "[]" t cmp n] assms(2,6) by (auto simp: troot_def c_def)
  then show ?thesis
  proof cases
    case 1
    then show ?thesis by (auto simp: rb_find_add_def)
  next
    case 2
    then show ?thesis using b t(2) by (simp add: rb_find_add_def)
  qed
qed

section \<open>Iterating over the matches\<close>

text \<open>
  The contract between a step from one wanted node to the next and a loop that makes these steps: \<open>inv s xs\<close> says that the
  nodes are \<open>xs\<close>, in order.
\<close>

locale scan =
  fixes inv :: "'s \<Rightarrow> rnode list \<Rightarrow> bool" and wanted :: "'s \<Rightarrow> rnode \<Rightarrow> bool"
    and step :: "rnode \<Rightarrow> 's \<Rightarrow> rnode option" and visit :: "rnode \<Rightarrow> 's \<Rightarrow> rnode list option"
  assumes visit_loop: "visit x s =
      (if x \<noteq> 0 then do { y \<leftarrow> step x s; rest \<leftarrow> visit y s; Some (x # rest) } else Some [])"
    and step_to_wanted: "inv s (as @ x # bs) \<Longrightarrow> wanted s x \<Longrightarrow> step x s = Some (hd (filter (wanted s) bs @ [0]))"
    and not_null: "inv s xs \<Longrightarrow> 0 \<notin> set xs"
begin

lemma visits: "inv s (as @ bs) \<Longrightarrow> visit (hd (filter (wanted s) bs @ [0])) s = Some (filter (wanted s) bs)"
proof (induction bs arbitrary: as)
  case Nil
  show ?case by (subst visit_loop) simp
next
  case (Cons x bs)
  have rest: "visit (hd (filter (wanted s) bs @ [0])) s = Some (filter (wanted s) bs)"
    using Cons.IH [of "as @ [x]"] Cons.prems by simp
  show ?case
  proof (cases "wanted s x")
    case True
    then show ?thesis
      using rest step_to_wanted [OF Cons.prems True] not_null [OF Cons.prems] by (subst visit_loop) simp
  qed (use rest in simp)
qed

lemma visits_all: "inv s xs \<Longrightarrow> visit (hd (filter (wanted s) xs @ [0])) s = Some (filter (wanted s) xs)"
  using visits [of s "[]" xs] by simp

end

lemma matches_adjacent:
  "cmp_sorted cmp (x # bs) \<Longrightarrow> cmp x = 0 \<Longrightarrow> takeWhile (\<lambda>y. cmp y = 0) bs = filter (\<lambda>y. cmp y = 0) bs"
proof (induction bs)
  case (Cons y bs)
  then have "cmp y \<le> 0" "cmp_sorted cmp (x # bs)" "cmp y < 0 \<Longrightarrow> \<forall>z \<in> set bs. cmp z < 0"
    by (auto simp: cmp_sorted_def sgn_if linorder_neq_iff split: if_splits)
  moreover from this have "filter (\<lambda>y. cmp y = 0) bs = []" if "cmp y < 0"
    using that by (auto simp: filter_empty_conv)
  ultimately show ?case
    using Cons.IH Cons.prems(2) by (cases "cmp y = 0") auto
qed simp

definition match_inv ::
  "(rnode \<Rightarrow> 'x tstore_scheme \<Rightarrow> rnode) \<Rightarrow> (rnode \<Rightarrow> int) \<Rightarrow> 'x tstore_scheme \<Rightarrow> rnode list \<Rightarrow> bool" where
  "match_inv nx cmp s xs \<longleftrightarrow> (\<exists>t. troot s t \<and> steps nx s t \<and> inorder t = xs) \<and> cmp_sorted cmp xs"

interpretation matches: scan "match_inv nx cmp" "\<lambda>s x. cmp x = 0" "\<lambda>x s. Some (rb_next_match nx cmp x s)"
  "rb_for_each_from nx cmp" for nx cmp
proof
  show "rb_for_each_from nx cmp x s =
      (if x \<noteq> 0 then do { y \<leftarrow> Some (rb_next_match nx cmp x s); rest \<leftarrow> rb_for_each_from nx cmp y s; Some (x # rest) }
       else Some [])" for x s
    by (subst rb_for_each_from.simps) simp
  show "0 \<notin> set xs" if "match_inv nx cmp s xs" for s xs
    using that rep_nonzero unfolding match_inv_def troot_def by (metis set_inorder)
  show "Some (rb_next_match nx cmp x s) = Some (hd (filter (\<lambda>x. cmp x = 0) bs @ [0]))"
    if m: "match_inv nx cmp s (as @ x # bs)" and x: "cmp x = 0" for s as x bs
  proof -
    have nx: "nx x s = hd (bs @ [0])"
      using m stepsD unfolding match_inv_def by blast
    have srt: "cmp_sorted cmp (x # bs)"
      using m by (simp add: match_inv_def cmp_sorted_def sorted_wrt_append)
    show ?thesis
      using nx matches_adjacent [OF srt x] by (cases bs) (auto simp: rb_next_match_def)
  qed
qed

lemma for_each_rep:
  assumes "steps nx s t" and "troot s t" and "cmp_sorted cmp (inorder t)"
  shows "rb_for_each nx cmp s = Some (filter (\<lambda>x. cmp x = 0) (inorder t))"
proof -
  have "rb_find_first cmp s = Some (hd (filter (\<lambda>x. cmp x = 0) (inorder t) @ [0]))"
    using assms(2,3) find_first_rep unfolding troot_def rb_find_first_def first_match_def by blast
  moreover have "match_inv nx cmp s (inorder t)"
    using assms by (auto simp: match_inv_def)
  ultimately show ?thesis
    using matches.visits_all by (simp add: rb_for_each_def)
qed

end
