(* ===== verification/Interval.thy ===== *)
theory Interval
  imports Rb_Erase Rb_Search
begin

text \<open>
  Interval trees: insertion and removal keep the nodes sorted by their start, the maxima consistent and
  the leftmost node cached; the iteration visits the nodes that overlap an interval, in order.
\<close>

section \<open>The invariant and the code the trees rely on\<close>

definition by_start :: "'x itstore_scheme \<Rightarrow> rnode \<Rightarrow> rnode \<Rightarrow> bool" where
  "by_start s x y \<longleftrightarrow> t_start s x \<le> t_start s y"

definition it_inv :: "'x itstore_scheme \<Rightarrow> rnode tree \<Rightarrow> bool" where
  "it_inv s t \<longleftrightarrow> troot s t \<and> all_ok s t \<and> sorted_wrt (by_start s) (inorder t) \<and> t_leftmost s = hd (inorder t @ [0])"

text \<open>
  Rebalancing, which calls back into \<open>rotate\<close>, keeps the nodes in their order and the maxima consistent,
  and leaves the rest of the nodes alone.
\<close>

definition aug_rebalances :: "'x itstore_scheme rebalance \<Rightarrow> bool" where
  "aug_rebalances f \<longleftrightarrow>
     (\<forall>n s t. troot s t \<longrightarrow> all_ok s t \<longrightarrow> n \<in> set_tree t \<longrightarrow>
        (\<exists>t'. troot (f augment_rotate n s) t' \<and> all_ok (f augment_rotate n s) t' \<and> inorder t' = inorder t) \<and>
        t_leftmost (f augment_rotate n s) = t_leftmost s \<and>
        t_start (f augment_rotate n s) = t_start s \<and> t_last (f augment_rotate n s) = t_last s)"

lemma rotate_it [simp]: "rotate it_augment = augment_rotate"
  by (simp add: it_augment_def)

lemma aug_rebalanced:
  assumes "aug_rebalances f" and "troot s t" and "all_ok s t" and "n \<in> set_tree t"
  obtains t' where "troot (f augment_rotate n s) t'" and "all_ok (f augment_rotate n s) t'" and "inorder t' = inorder t"
    and "t_leftmost (f augment_rotate n s) = t_leftmost s"
    and "t_start (f augment_rotate n s) = t_start s" and "t_last (f augment_rotate n s) = t_last s"
  using assms unfolding aug_rebalances_def by blast

section \<open>Removal\<close>

lemma remove_rep:
  assumes "aug_rebalances col" and "steps nx s t" and "it_inv s t" and "x \<in> set_tree t"
  shows "\<exists>s' t'. it_remove nx col x s = Some s' \<and> it_inv s' t' \<and> inorder t' = remove1 x (inorder t) \<and>
    t_start s' = t_start s \<and> t_last s' = t_last s"
proof -
  have inv: "troot s t" "all_ok s t" "sorted_wrt (by_start s) (inorder t)" "t_leftmost s = hd (inorder t @ [0])"
    using assms(3) by (simp_all add: it_inv_def)
  define s1 where "s1 = (if t_leftmost s = x then s\<lparr>t_leftmost := nx x s\<rparr> else s)"
  have s1: "troot s1 t" "all_ok s1 t" "t_start s1 = t_start s" "t_last s1 = t_last s"
    using inv by (simp_all add: s1_def)
  have d: "distinct (inorder t)"
    using inv(1) by (simp add: troot_def)
  have left: "t_leftmost s1 = hd (remove1 x (inorder t) @ [0])"
    using next_first [OF assms(2) inv(1) assms(4) inv(4)] by (simp add: s1_def split: if_splits)
  from raw_erase [OF s1(1,2) assms(4)] obtain b s2 t2 where e:
    "raw_rb_erase_augmented it_augment x s1 = Some (b, s2)" "troot s2 t2" "all_ok s2 t2"
    "inorder t2 = remove1 x (inorder t)" "b = 0 \<or> b \<in> set_tree t2"
    "t_leftmost s2 = t_leftmost s1" "t_start s2 = t_start s" "t_last s2 = t_last s"
    using s1(3,4) by auto
  define s3 where "s3 = (if b \<noteq> 0 then col augment_rotate b s2 else s2)"
  have run: "it_remove nx col x s = Some s3"
    by (simp add: it_remove_def rb_erase_augmented_cached_def rb_erase_augmented_def e(1) Let_def s3_def flip: s1_def)
  obtain t3 where t3: "troot s3 t3" "all_ok s3 t3" "inorder t3 = inorder t2"
    "t_leftmost s3 = t_leftmost s2" "t_start s3 = t_start s2" "t_last s3 = t_last s2"
  proof (cases "b = 0")
    case True
    then show ?thesis using that e(2,3) by (simp add: s3_def)
  next
    case False
    then show ?thesis using that aug_rebalanced [OF assms(1) e(2,3)] e(5) by (auto simp: s3_def)
  qed
  have "sorted_wrt (by_start s3) (inorder t3)"
    using sorted_wrt_filter [OF inv(3)] d e(4,7) t3(3,5)
    by (simp add: distinct_remove1_removeAll removeAll_filter_not_eq by_start_def [abs_def])
  then show ?thesis
    using run t3 left e by (intro exI [of _ s3] exI [of _ t3]) (simp add: it_inv_def)
qed

section \<open>Insertion\<close>

fun ins :: "(rnode \<Rightarrow> bool) \<Rightarrow> rnode \<Rightarrow> rnode tree \<Rightarrow> rnode tree" where
  "ins g n Leaf = Node Leaf n Leaf"
| "ins g n (Node l x r) = (if g x then Node (ins g n l) x r else Node l x (ins g n r))"

fun passed :: "(rnode \<Rightarrow> bool) \<Rightarrow> rnode tree \<Rightarrow> rnode list" where
  "passed g Leaf = []"
| "passed g (Node l x r) = x # (if g x then passed g l else passed g r)"

lemma plug_ins: "plug (path g t c) (Node Leaf n Leaf) = plug c (ins g n t)"
  by (induction g t c rule: path.induct) simp_all

lemma set_ins [simp]: "set_tree (ins g n t) = insert n (set_tree t)"
  by (induction t) auto

lemma set_passed: "set (passed g t) \<subseteq> set_tree t"
  by (induction t) auto

definition raised :: "rnode list \<Rightarrow> u64 \<Rightarrow> 'x itstore_scheme \<Rightarrow> 'x itstore_scheme" where
  "raised ps v s = s\<lparr>t_sub := \<lambda>z. if z \<in> set ps then max (t_sub s z) v else t_sub s z\<rparr>"

lemma raised_sel [simp]:
  "t_pc (raised ps v s) = t_pc s" "t_left (raised ps v s) = t_left s" "t_right (raised ps v s) = t_right s"
  "t_root (raised ps v s) = t_root s" "t_leftmost (raised ps v s) = t_leftmost s" "t_start (raised ps v s) = t_start s"
  "t_last (raised ps v s) = t_last s" "rb_parent (raised ps v s) x = rb_parent s x"
  "t_sub (raised ps v s) z = (if z \<in> set ps then max (t_sub s z) v else t_sub s z)"
  by (simp_all add: raised_def)

lemma raised_empty [simp]: "raised [] v s = s"
  by (simp add: raised_def)

lemma raised_step: "raised ps v (raised [x] v s) = raised (x # ps) v s"
  by (auto simp: raised_def fun_eq_iff max.assoc intro!: itstore.equality)

lemma raise_step: "(if t_sub s x < v then set_sub x v s else s) = raised [x] v s"
  by (auto simp: raised_def set_sub_def fun_eq_iff max_def intro!: itstore.equality)

lemma slot_get_raised [simp]: "slot_get l (raised ps v s) = slot_get l s"
  by (cases l) simp_all

lemma rep_sub [simp]: "rb_rep (raised ps v s) q p t \<longleftrightarrow> rb_rep s q p t"
  by (rule rep_same) (simp add: same_def)

lemma it_descend_rep:
  fixes s :: "'x itstore_scheme"
  shows "rb_rep s (upper c) (slot_get (slot_of c) s) t \<Longrightarrow>
     it_descend a v (slot_of c) (upper c) b s =
     (let g = \<lambda>x. a < t_start s x; p = path g t c
      in Some (slot_of p, upper p, b \<and> before p = before c, raised (passed g t) v s))"
proof (induction t arbitrary: c b s)
  case Leaf
  then show ?case by (subst it_descend.simps) simp
next
  case (Node l x r)
  let ?g = "\<lambda>x. a < t_start s x"
  have x: "slot_get (slot_of c) s = x" "x \<noteq> 0" "rb_rep s x (t_left s x) l" "rb_rep s x (t_right s x) r"
    using Node.prems by simp_all
  obtain zs where "before (path ?g r (wr l x # c)) = before (wr l x # c) @ zs"
    using before_path by blast
  then have "before (path ?g r (wr l x # c)) \<noteq> before c"
    by (metis append.assoc append_self_conv before.simps(3) append_is_Nil_conv not_Cons_self2)
  then show ?case
    using x Node.IH(1) [of "raised [x] v s" "wl x r # c" b] Node.IH(2) [of "raised [x] v s" "wr l x # c" False]
    by (subst it_descend.simps) (auto simp: Let_def raise_step raised_step)
qed

text \<open>The maxima that the descent raises are the ones the new node calls for.\<close>

lemma ins_ok:
  fixes s s' :: "'x itstore_scheme"
  assumes "rb_rep s q p t" and "distinct (inorder t)" and "\<forall>x \<in> set_tree t. local_ok s x" and "rb_rep s' q' p' (ins g n t)"
    and "n \<notin> set_tree t" and "t_last s' = t_last s" and "t_sub s' n = t_last s n"
    and "\<forall>z \<in> set_tree t. t_sub s' z = (if z \<in> set (passed g t) then max (t_sub s z) (t_last s n) else t_sub s z)"
  shows "(\<forall>z \<in> set_tree (ins g n t). local_ok s' z) \<and> csub s' p' = max (csub s p) (t_last s n)"
  using assms(1-5,8)
proof (induction t arbitrary: q p q' p')
  case Leaf
  then show ?case
    using assms(6,7) by (simp add: local_ok_def node_max_def csub_def)
next
  case (Node l x r)
  have p: "p = x" "x \<noteq> 0" "rb_rep s x (t_left s x) l" "rb_rep s x (t_right s x) r"
    and p': "p' = x" and ok: "local_ok s x"
    using Node.prems by (auto split: if_splits)
  have sub: "t_sub s' x = max (t_sub s x) (t_last s n)"
    using Node.prems(6) by simp
  note frame = rep_frame [where s = s and s' = s', OF _ _ _ _ assms(6)]
  have m: "max (t_sub s x) v = max (t_last s x) (max (max (csub s (t_left s x)) v) (csub s (t_right s x)))"
    "max (t_sub s x) v = max (t_last s x) (max (csub s (t_left s x)) (max (csub s (t_right s x)) v))" for v
    using ok by (simp_all add: local_ok_def node_max_def max.assoc max.commute max.left_commute)
  show ?case
  proof (cases "g x")
    case True
    have d: "set_tree l \<inter> set_tree r = {}" "x \<notin> set_tree l" "x \<notin> set_tree r"
      using Node.prems(2) by auto
    have l: "(\<forall>z \<in> set_tree (ins g n l). local_ok s' z) \<and> csub s' (t_left s' x) = max (csub s (t_left s x)) (t_last s n)"
      using True Node.prems d by (intro Node.IH(1) [OF p(3)]) auto
    have r: "(\<forall>z \<in> set_tree r. local_ok s' z) \<and> csub s' (t_right s' x) = csub s (t_right s x)"
      using True Node.prems(3,4,6) d set_passed [of g l] by (intro frame [OF p(4), where q' = x]) auto
    have "local_ok s' x"
      using l r sub m(1) assms(6) by (simp add: local_ok_def node_max_def)
    then show ?thesis using True l r sub p(1,2) p' by (auto simp: csub_def)
  next
    case False
    have d: "set_tree l \<inter> set_tree r = {}" "x \<notin> set_tree l" "x \<notin> set_tree r"
      using Node.prems(2) by auto
    have r: "(\<forall>z \<in> set_tree (ins g n r). local_ok s' z) \<and> csub s' (t_right s' x) = max (csub s (t_right s x)) (t_last s n)"
      using False Node.prems d by (intro Node.IH(2) [OF p(4)]) auto
    have l: "(\<forall>z \<in> set_tree l. local_ok s' z) \<and> csub s' (t_left s' x) = csub s (t_left s x)"
      using False Node.prems(3,4,6) d set_passed [of g r] by (intro frame [OF p(3), where q' = x]) auto
    have "local_ok s' x"
      using l r sub m(2) assms(6) by (simp add: local_ok_def node_max_def)
    then show ?thesis using False l r sub p(1,2) p' by (auto simp: csub_def)
  qed
qed

lemma link_aug [simp]:
  "t_sub (rb_link_node n p l s) = t_sub s" "t_last (rb_link_node n p l s) = t_last s" "t_start (rb_link_node n p l s) = t_start s"
  by (simp_all add: rb_link_node_def)

lemma start_splits: "sorted_wrt (by_start s) xs \<Longrightarrow> splits (\<lambda>x. a < t_start s x) xs"
  unfolding splits_def by (rule sorted_wrt_mono_rel) (auto simp: by_start_def)

lemma hd_place: "n \<notin> set xs \<Longrightarrow> hd (place g n xs) = (if takeWhile (\<lambda>x. \<not> g x) xs = [] then n else hd (xs @ [0]))"
  by (cases xs) (auto simp: place_def)

lemma insert_pre:
  fixes s :: "'x itstore_scheme"
  assumes "it_inv s t" and "n \<notin> set_tree t" and "n \<noteq> 0" and "aligned n"
  defines "g \<equiv> \<lambda>x. t_start s n < t_start s x"
  defines "c \<equiv> path g t []"
  defines "s' \<equiv> rb_link_node n (upper c) (slot_of c) (set_sub n (t_last s n) (raised (passed g t) (t_last s n) s))"
  shows "troot s' (ins g n t)" and "all_ok s' (ins g n t)" and "inorder (ins g n t) = place g n (inorder t)"
    and "it_descend (t_start s n) (t_last s n) root_slot 0 True s =
      Some (slot_of c, upper c, takeWhile (\<lambda>x. \<not> g x) (inorder t) = [], raised (passed g t) (t_last s n) s)"
proof -
  have inv: "troot s t" "all_ok s t" "sorted_wrt (by_start s) (inorder t)"
    using assms(1) by (simp_all add: it_inv_def)
  have sp: "splits g (inorder t)"
    unfolding g_def by (rule start_splits [OF inv(3)])
  let ?s = "set_sub n (t_last s n) (raised (passed g t) (t_last s n) s)"
  have "troot ?s t"
    using inv(1) rep_same [of t s ?s] by (simp add: troot_def same_def)
  from linked [OF this assms(2-4) sp] have t: "troot s' (ins g n t)" "inorder (ins g n t) = place g n (inorder t)"
    by (simp_all add: s'_def c_def plug_ins)
  then show "troot s' (ins g n t)" "inorder (ins g n t) = place g n (inorder t)" by simp_all
  have rep: "rb_rep s 0 (t_root s) t" "distinct (inorder t)" "rb_rep s' 0 (t_root s') (ins g n t)"
    using inv(1) t(1) by (simp_all add: troot_def)
  have sub: "t_last s' = t_last s" "t_sub s' n = t_last s n"
    "\<forall>z \<in> set_tree t. t_sub s' z = (if z \<in> set (passed g t) then max (t_sub s z) (t_last s n) else t_sub s z)"
    using assms(2) by (auto simp: s'_def)
  show "all_ok s' (ins g n t)"
    using ins_ok [OF rep(1,2) _ rep(3) assms(2) sub] inv(2) unfolding all_ok_def by blast
  have "before c = takeWhile (\<lambda>x. \<not> g x) (inorder t)"
    using path_parts(1) [OF sp, of "[]"] by (simp add: c_def)
  then show "it_descend (t_start s n) (t_last s n) root_slot 0 True s =
      Some (slot_of c, upper c, takeWhile (\<lambda>x. \<not> g x) (inorder t) = [], raised (passed g t) (t_last s n) s)"
    using it_descend_rep [of s "[]" t "t_start s n" "t_last s n" True] rep(1) by (simp add: Let_def c_def g_def)
qed

lemma insert_rep:
  fixes s :: "'x itstore_scheme"
  assumes "aug_rebalances f" and "it_inv s t" and "n \<notin> set_tree t" and "n \<noteq> 0" and "aligned n"
  defines "g \<equiv> \<lambda>x. t_start s n < t_start s x"
  shows "\<exists>s' t'. it_insert f n s = Some s' \<and> it_inv s' t' \<and> inorder t' = place g n (inorder t) \<and>
    t_start s' = t_start s \<and> t_last s' = t_last s"
proof -
  let ?b = "takeWhile (\<lambda>x. \<not> g x) (inorder t) = []"
  have inv: "sorted_wrt (by_start s) (inorder t)" "t_leftmost s = hd (inorder t @ [0])"
    using assms(2) by (simp_all add: it_inv_def)
  define s1 where "s1 = rb_link_node n (upper (path g t [])) (slot_of (path g t []))
    (set_sub n (t_last s n) (raised (passed g t) (t_last s n) s))"
  note pre = insert_pre [OF assms(2-5), folded g_def, folded s1_def]
  define s2 where "s2 = (if ?b then s1\<lparr>t_leftmost := n\<rparr> else s1)"
  have s2: "troot s2 (ins g n t)" "all_ok s2 (ins g n t)" "t_start s2 = t_start s" "t_last s2 = t_last s"
    using pre(1,2) by (simp_all add: s2_def s1_def)
  have "n \<in> set_tree (ins g n t)" by simp
  then obtain t' where t': "troot (f augment_rotate n s2) t'" "all_ok (f augment_rotate n s2) t'"
    "inorder t' = inorder (ins g n t)" "t_leftmost (f augment_rotate n s2) = t_leftmost s2"
    "t_start (f augment_rotate n s2) = t_start s2" "t_last (f augment_rotate n s2) = t_last s2"
    by (rule aug_rebalanced [OF assms(1) s2(1,2)])
  have run: "it_insert f n s = Some (f augment_rotate n s2)"
    by (simp add: it_insert_def pre(4) Let_def rb_insert_augmented_cached_def rb_insert_augmented_def s2_def s1_def g_def)
  have n: "n \<notin> set (inorder t)"
    using assms(3) by simp
  have "t_leftmost s2 = hd (place g n (inorder t))"
    using inv(2) hd_place [OF n, of g] by (simp add: s2_def s1_def)
  moreover have "sorted_wrt (by_start s) (place g n (inorder t))"
    using start_splits [OF inv(1)] by (intro place_sorted inv(1)) (auto simp: by_start_def g_def)
  moreover have "place g n (inorder t) \<noteq> []"
    by (simp add: place_def)
  ultimately show ?thesis
    using run t' pre(3) s2(3,4) by (intro exI [of _ "f augment_rotate n s2"] exI [of _ t'])
      (simp add: it_inv_def by_start_def [abs_def])
qed

section \<open>Overlapping intervals\<close>

definition overlaps :: "u64 \<Rightarrow> u64 \<Rightarrow> 'x itstore_scheme \<Rightarrow> rnode \<Rightarrow> bool" where
  "overlaps a b s x \<longleftrightarrow> t_start s x \<le> b \<and> a \<le> t_last s x"

definition first_overlap :: "u64 \<Rightarrow> u64 \<Rightarrow> 'x itstore_scheme \<Rightarrow> rnode list \<Rightarrow> rnode" where
  "first_overlap a b s xs = hd (filter (overlaps a b s) xs @ [0])"

lemma first_overlap_simps:
  "first_overlap a b s [] = 0"
  "first_overlap a b s (x # xs) = (if overlaps a b s x then x else first_overlap a b s xs)"
  by (simp_all add: first_overlap_def)

lemma first_overlap_none: "\<forall>x \<in> set xs. \<not> overlaps a b s x \<Longrightarrow> first_overlap a b s (xs @ ys) = first_overlap a b s ys"
  by (induction xs) (auto simp: first_overlap_simps)

text \<open>If a node ends late enough and still does not overlap, it starts too late, and so do all that follow it.\<close>

lemma first_overlap_part:
  assumes "sorted_wrt (by_start s) (xs @ ys)" and "\<exists>x \<in> set xs. a \<le> t_last s x" and "0 \<notin> set xs"
  shows "first_overlap a b s (xs @ ys) = first_overlap a b s xs"
proof (cases "filter (overlaps a b s) xs")
  case Nil
  then have xs: "\<forall>x \<in> set xs. \<not> overlaps a b s x"
    by (simp add: filter_empty_conv)
  then obtain x where x: "x \<in> set xs" "t_start s x > b"
    using assms(2) by (auto simp: overlaps_def)
  have "\<not> overlaps a b s y" if "y \<in> set ys" for y
    using assms(1) x that by (fastforce simp: sorted_wrt_append by_start_def overlaps_def)
  then show ?thesis
    using xs first_overlap_none [of xs a b s] first_overlap_none [of "xs @ ys" a b s "[]"]
      first_overlap_none [of xs a b s "[]"] by (auto simp: first_overlap_simps)
next
  case (Cons y zs)
  then show ?thesis by (simp add: first_overlap_def)
qed

lemma first_overlap_late:
  assumes "sorted_wrt (by_start s) (x # xs)" and "b < t_start s x"
  shows "first_overlap a b s (x # xs) = 0"
proof -
  have "\<not> overlaps a b s y" if "y \<in> set (x # xs)" for y
  proof -
    have "t_start s x \<le> t_start s y"
      using that assms(1) by (auto simp: by_start_def)
    then show ?thesis using assms(2) by (auto simp: overlaps_def)
  qed
  then show ?thesis
    using first_overlap_none [of "x # xs" a b s "[]"] by (simp add: first_overlap_simps)
qed

lemma search_rep:
  fixes s :: "'x itstore_scheme"
  assumes "rb_rep s q p t" and "\<forall>x \<in> set_tree t. local_ok s x" and "sorted_wrt (by_start s) (inorder t)" and "p \<noteq> 0"
  shows "it_subtree_search p a b s = Some (first_overlap a b s (inorder t))"
  using assms
proof (induction t arbitrary: q p)
  case (Node l x r)
  have p: "p = x" "rb_rep s x (t_left s x) l" "rb_rep s x (t_right s x) r"
    using Node.prems(1) by simp_all
  have srt: "sorted_wrt (by_start s) (inorder l)" "sorted_wrt (by_start s) (x # inorder r)" "sorted_wrt (by_start s) (inorder r)"
    using Node.prems(3) by (simp_all add: sorted_wrt_append)
  have left: "a \<le> t_sub s (t_left s x) \<longleftrightarrow> (\<exists>y \<in> set_tree l. a \<le> t_last s y)" if "t_left s x \<noteq> 0"
    using subtree_max [OF p(2) _ that] Node.prems(2) by simp
  have right: "a \<le> t_sub s (t_right s x) \<longleftrightarrow> (\<exists>y \<in> set_tree r. a \<le> t_last s y)" if "t_right s x \<noteq> 0"
    using subtree_max [OF p(3) _ that] Node.prems(2) by simp
  show ?case
  proof (cases "t_left s x \<noteq> 0 \<and> a \<le> t_sub s (t_left s x)")
    case True
    then have "\<exists>y \<in> set (inorder l). a \<le> t_last s y" "0 \<notin> set (inorder l)"
      using left rep_nonzero [OF p(2)] by auto
    from first_overlap_part [OF _ this] Node.prems(3)
    have "first_overlap a b s (inorder (Node l x r)) = first_overlap a b s (inorder l)"
      by simp
    then show ?thesis
      using True Node.IH(1) [OF p(2) _ srt(1)] Node.prems(2) p(1) by (subst it_subtree_search.simps) simp
  next
    case False
    have "\<forall>y \<in> set (inorder l). \<not> overlaps a b s y"
      using False left p(2) by (cases "t_left s x = 0") (auto simp: overlaps_def)
    then have l: "first_overlap a b s (inorder (Node l x r)) = first_overlap a b s (x # inorder r)"
      by (simp add: first_overlap_none)
    have late: "first_overlap a b s (x # inorder r) = 0" if "\<not> t_start s x \<le> b"
      using first_overlap_late [OF srt(2)] that by simp
    have none: "first_overlap a b s (inorder r) = 0" if "\<not> (t_right s x \<noteq> 0 \<and> a \<le> t_sub s (t_right s x))"
    proof -
      have "\<forall>y \<in> set (inorder r). \<not> overlaps a b s y"
        using that right p(3) by (cases "t_right s x = 0") (auto simp: overlaps_def)
      from first_overlap_none [OF this, of "[]"] show ?thesis by (simp add: first_overlap_simps)
    qed
    show ?thesis
      unfolding l using False late none Node.IH(2) [OF p(3) _ srt(3)] Node.prems(2) p(1)
      by (subst it_subtree_search.simps) (auto simp: first_overlap_simps overlaps_def)
  qed
qed simp

lemma iter_first_rep:
  fixes s :: "'x itstore_scheme"
  assumes "it_inv s t"
  shows "it_iter_first a b s = Some (first_overlap a b s (inorder t))"
proof (cases "t_root s = 0")
  case True
  then show ?thesis
    using assms by (simp add: it_iter_first_def it_inv_def troot_def first_overlap_simps)
next
  case False
  have inv: "rb_rep s 0 (t_root s) t" "\<forall>x \<in> set_tree t. local_ok s x" "sorted_wrt (by_start s) (inorder t)"
    "t_leftmost s = hd (inorder t @ [0])"
    using assms by (simp_all add: it_inv_def troot_def all_ok_def)
  have ne: "inorder t \<noteq> []"
    using inv(1) False by (cases t) auto
  have "first_overlap a b s (inorder t) = 0" if "t_sub s (t_root s) < a \<or> t_start s (t_leftmost s) > b"
  proof -
    have m: "t_start s (t_leftmost s) \<le> t_start s x" if "x \<in> set_tree t" for x
    proof -
      obtain y ys where "inorder t = y # ys"
        using ne by (cases "inorder t") auto
      moreover have "x \<in> set (inorder t)"
        using that by simp
      ultimately show ?thesis
        using inv(3,4) by (auto simp: by_start_def)
    qed
    have "\<not> overlaps a b s x" if "x \<in> set (inorder t)" for x
      using \<open>_ \<or> _\<close> m [of x] subtree_max [OF inv(1,2) False, of a] that by (auto simp: overlaps_def not_less)
    then show ?thesis
      using first_overlap_none [of "inorder t" a b s "[]"] by (simp add: first_overlap_simps)
  qed
  then show ?thesis
    using False search_rep [OF inv(1-3) False] by (auto simp: it_iter_first_def Let_def)
qed

text \<open>Climbing ends at the node that follows the subtree in order, if there is one.\<close>

lemma climb_rep:
  fixes s :: "'x itstore_scheme"
  assumes "troot s (plug c (Node l x r))"
  shows "after c = [] \<and> it_climb x s = Some 0 \<or>
    (\<exists>c' u y r'. plug c (Node l x r) = plug c' (Node u y r') \<and> length c' < length c \<and>
       after c = y # inorder r' @ after c' \<and> it_climb x s = Some y)"
  using assms
proof (induction c arbitrary: l x r)
  case Nil
  then show ?case by (subst (1 2) it_climb.simps) (simp add: troot_def)
next
  case (Cons a c)
  note up = Cons.prems [unfolded troot_plug]
  show ?case
  proof (cases a)
    case (wl y r')
    have y: "rb_parent s x = y" "y \<noteq> 0" "rb_rep s y (t_right s y) r'" "x \<notin> set_tree r'" "x \<noteq> 0"
      using up by (auto simp: wl)
    then have "x \<noteq> t_right s y"
      by (cases r') auto
    then have "it_climb x s = Some y"
      using y(1,2) by (subst it_climb.simps) (simp add: Let_def)
    then show ?thesis
      by (intro disjI2 exI [of _ c] exI [of _ "Node l x r"] exI [of _ y] exI [of _ r']) (simp add: wl)
  next
    case (wr l' y)
    have y: "rb_parent s x = y" "y \<noteq> 0" "t_right s y = x"
      using up by (auto simp: wr)
    then have climb: "it_climb x s = it_climb y s"
      by (subst it_climb.simps) (simp add: Let_def)
    have "troot s (plug c (Node l' y (Node l x r)))"
      using Cons.prems by (simp add: wr)
    from Cons.IH [OF this] show ?thesis
      unfolding climb wr plug.simps after.simps length_Cons using less_SucI by blast
  qed
qed

lemma iter_next_from:
  fixes s :: "'x itstore_scheme"
  assumes "troot s (plug c (Node l x r))" and "all_ok s (plug c (Node l x r))"
    and "sorted_wrt (by_start s) (inorder (plug c (Node l x r)))"
  shows "it_iter_next_from x (t_right s x) a b s = Some (first_overlap a b s (inorder r @ after c))"
  using assms
proof (induction "length c" arbitrary: c l x r rule: less_induct)
  case less
  have r: "rb_rep s x (t_right s x) r" "\<forall>z \<in> set_tree r. local_ok s z"
    using less.prems(1,2) by (auto simp: troot_plug all_ok_def set_tree_plug)
  have srt: "sorted_wrt (by_start s) (inorder r @ after c)" "sorted_wrt (by_start s) (inorder r)" "sorted_wrt (by_start s) (after c)"
    using less.prems(3) by (simp_all add: inorder_plug sorted_wrt_append)
  show ?case
  proof (cases "t_right s x \<noteq> 0 \<and> a \<le> t_sub s (t_right s x)")
    case True
    then have "\<exists>z \<in> set (inorder r). a \<le> t_last s z" "0 \<notin> set (inorder r)"
      using subtree_max [OF r] rep_nonzero [OF r(1)] by auto
    from first_overlap_part [OF srt(1) this] show ?thesis
      using True search_rep [OF r srt(2)] by (subst it_iter_next_from.simps) simp
  next
    case False
    have "\<forall>z \<in> set (inorder r). \<not> overlaps a b s z"
      using False subtree_max [OF r] r(1) by (cases "t_right s x = 0") (auto simp: overlaps_def)
    then have skip: "first_overlap a b s (inorder r @ after c) = first_overlap a b s (after c)"
      by (rule first_overlap_none)
    from climb_rep [OF less.prems(1)] show ?thesis
    proof (elim disjE exE conjE)
      assume "after c = []" "it_climb x s = Some 0"
      then show ?thesis
        unfolding skip using False by (subst it_iter_next_from.simps) (auto simp: first_overlap_simps)
    next
      fix c' u y r'
      assume c: "plug c (Node l x r) = plug c' (Node u y r')" "length c' < length c"
        "after c = y # inorder r' @ after c'" "it_climb x s = Some y"
      have y: "y \<noteq> 0"
        using less.prems(1) by (simp add: c(1) troot_plug)
      have next_y: "it_iter_next_from y (t_right s y) a b s = Some (first_overlap a b s (inorder r' @ after c'))"
        using less.hyps [OF c(2)] less.prems by (simp add: c(1))
      have late: "first_overlap a b s (after c) = 0" if "b < t_start s y"
        using first_overlap_late [OF srt(3) [unfolded c(3)]] that by (simp only: c(3))
      have "it_iter_next_from x (t_right s x) a b s =
          (if b < t_start s y then Some 0 else if a \<le> t_last s y then Some y
           else it_iter_next_from y (t_right s y) a b s)"
        using False c(4) y by (subst it_iter_next_from.simps) auto
      then show ?thesis
        unfolding skip using next_y late by (auto simp: c(3) first_overlap_simps overlaps_def not_less)
    qed
  qed
qed

lemma iter_next_rep:
  fixes s :: "'x itstore_scheme"
  assumes "it_inv s t" and "inorder t = as @ x # bs"
  shows "it_iter_next x a b s = Some (first_overlap a b s bs)"
proof -
  have "x \<in> set (inorder t)"
    using assms(2) by simp
  then obtain c l r where t: "t = plug c (Node l x r)"
    using tree_at [of x t] by auto
  have inv: "troot s t" "all_ok s t" "sorted_wrt (by_start s) (inorder t)"
    using assms(1) by (simp_all add: it_inv_def)
  have "distinct (as @ x # bs)"
    using inv(1) assms(2) by (simp add: troot_def)
  moreover have "(before c @ inorder l) @ x # (inorder r @ after c) = as @ x # bs"
    using assms(2) by (simp add: t inorder_plug)
  ultimately have "bs = inorder r @ after c"
    using append_Cons_eq_iff [of x as bs "before c @ inorder l" "inorder r @ after c"] by simp
  then show ?thesis
    using iter_next_from [of s c l x r a b] inv by (simp add: it_iter_next_def t)
qed

section \<open>A loop over the overlapping intervals\<close>

text \<open>\<open>for (node = iter_first(...); node; node = iter_next(...))\<close>, the loop the iterators are made for: the nodes it visits.\<close>

partial_function (option) it_nodes :: "rnode \<Rightarrow> u64 \<Rightarrow> u64 \<Rightarrow> 'x itstore_scheme \<Rightarrow> rnode list option" where
  "it_nodes node start lst s =
     (if node \<noteq> 0 then
        do { next_node \<leftarrow> it_iter_next node start lst s; rest \<leftarrow> it_nodes next_node start lst s; Some (node # rest) }
      else Some [])"

definition overlap_inv :: "'x itstore_scheme \<Rightarrow> rnode list \<Rightarrow> bool" where
  "overlap_inv s xs \<longleftrightarrow> (\<exists>t. it_inv s t \<and> inorder t = xs)"

interpretation overlapping: scan overlap_inv "overlaps a b" "\<lambda>x s. it_iter_next x a b s" "\<lambda>x s. it_nodes x a b s" for a b
proof
  show "it_nodes x a b s =
      (if x \<noteq> 0 then do { y \<leftarrow> it_iter_next x a b s; rest \<leftarrow> it_nodes y a b s; Some (x # rest) } else Some [])"
    for x and s :: "'x itstore_scheme"
    by (rule it_nodes.simps)
  show "it_iter_next x a b s = Some (hd (filter (overlaps a b s) bs @ [0]))"
    if "overlap_inv s (as @ x # bs)" for s :: "'x itstore_scheme" and as x bs
    using that iter_next_rep unfolding overlap_inv_def first_overlap_def by blast
  show "0 \<notin> set xs" if "overlap_inv s xs" for s :: "'x itstore_scheme" and xs
    using that rep_nonzero unfolding overlap_inv_def it_inv_def troot_def by (metis set_inorder)
qed

lemma nodes_rep:
  fixes s :: "'x itstore_scheme"
  assumes "it_inv s t"
  shows "it_nodes (first_overlap a b s (inorder t)) a b s = Some (filter (overlaps a b s) (inorder t))"
  using overlapping.visits_all [of s "inorder t" a b] assms by (auto simp: overlap_inv_def first_overlap_def)

end
