(* ===== verification/Rb_Properties.thy ===== *)
theory Rb_Properties
  imports Interval
begin

text \<open>The properties of the search trees and the interval trees.\<close>

text \<open>A tree with the two nodes 4 and 8 and the node 12 outside, and functions in the place of the ones from \<open>lib/rbtree.c\<close>.\<close>

definition a_tree :: "rnode tree" where
  "a_tree = Node (Node Leaf 4 Leaf) 8 Leaf"

definition a_store :: itstore where
  "a_store = \<lparr>t_pc = (\<lambda>_. 0)(4 := 8, 8 := 1), t_right = \<lambda>_. 0, t_left = (\<lambda>_. 0)(8 := 4), t_root = 8, t_leftmost = 4,
     t_start = (\<lambda>_. 0)(4 := 1, 8 := 3, 12 := 2), t_last = (\<lambda>_. 0)(4 := 5, 8 := 4, 12 := 9), t_sub = (\<lambda>_. 0)(4 := 5, 8 := 5)\<rparr>"

definition a_next :: "rnode \<Rightarrow> 'x tstore_scheme \<Rightarrow> rnode" where
  "a_next x s = (if x = 4 then 8 else 0)"

lemma a_troot: "troot a_store a_tree"
  by (simp add: troot_def a_tree_def a_store_def rb_parent_def aligned_def)

lemma a_inorder: "inorder a_tree = [4, 8]"
  by (simp add: a_tree_def)

lemma a_steps: "steps a_next s a_tree"
  unfolding steps_def a_inorder by (auto simp: a_next_def Cons_eq_append_conv)

lemma a_inv: "it_inv a_store a_tree"
  using a_troot by (simp add: it_inv_def a_inorder by_start_def all_ok_def local_ok_def node_max_def csub_def)
    (simp add: a_store_def a_tree_def)

lemma idle_rebalances: "rebalances (\<lambda>n s. s)" "aug_rebalances (\<lambda>f n s. s)"
  by (auto simp: rebalances_def aug_rebalances_def)

definition weak_order :: "(rnode \<Rightarrow> rnode \<Rightarrow> bool) \<Rightarrow> bool" where
  "weak_order lt \<longleftrightarrow> (\<forall>x y. lt x y \<longrightarrow> \<not> lt y x) \<and> (\<forall>x y z. lt x z \<longrightarrow> lt x y \<or> lt y z)"

text \<open>
  Adding a node by an order \<open>lt\<close>: the loop ends, the tree stays sorted, the new node comes behind the nodes
  that are not greater and before the greater ones, the others keep their order.  The cached variant keeps the
  leftmost node and returns the new node exactly if it became the leftmost.  \<open>rb_find_add\<close> returns a node that
  compares equal and changes nothing, or, if there is none, adds the new one at its place and returns \<open>NULL\<close>.
\<close>

lemma rbtree_add_part:
  assumes "rebalances fix_up" and "weak_order lt" and "troot s t" and "sorted_wrt (\<lambda>x y. \<not> lt y x) (inorder t)"
    and "n \<notin> set_tree t" and "n \<noteq> 0" and "aligned n" and "t_leftmost s = hd (inorder t @ [0])"
    and "cmp_sorted (cmp n) (inorder t)"
  shows "(\<exists>r s' t'. rb_add_cached fix_up lt n s = Some (r, s') \<and> troot s' t' \<and> inorder t' = place (lt n) n (inorder t) \<and>
      sorted_wrt (\<lambda>x y. \<not> lt y x) (inorder t') \<and> t_leftmost s' = hd (inorder t') \<and>
      r = (if hd (inorder t') = n then n else 0)) \<and>
    (\<exists>s' t'. rb_add fix_up lt n s = Some s' \<and> troot s' t' \<and> inorder t' = place (lt n) n (inorder t)) \<and>
    ((\<exists>x \<in> set_tree t. cmp n x = 0 \<and> rb_find_add fix_up cmp n s = Some (x, s)) \<or>
     (\<forall>x \<in> set_tree t. cmp n x \<noteq> 0) \<and>
     (\<exists>s' t'. rb_find_add fix_up cmp n s = Some (0, s') \<and> troot s' t' \<and>
        inorder t' = place (\<lambda>x. cmp n x < 0) n (inorder t)))"
proof -
  have sp: "splits (lt n) (inorder t)"
    using assms(2) unfolding splits_def weak_order_def by (intro sorted_wrt_mono_rel [OF _ assms(4)]) blast
  have "sorted_wrt (\<lambda>x y. \<not> lt y x) (place (lt n) n (inorder t))"
    using assms(2) by (intro place_sorted [OF assms(4) _ _ sp]) (auto simp: weak_order_def)
  with add_cached_rep [where lt = lt, OF assms(1,3,5-7) sp assms(8)] show ?thesis
    by (intro conjI add_rep [where lt = lt, OF assms(1,3,5-7) sp] find_add_rep [where cmp = cmp, OF assms(1,3,5-7,9)]) metis
qed


text \<open>
  Searching a tree that the comparison divides into nodes below, at and above a key: \<open>rb_find\<close> returns a match or
  \<open>NULL\<close> if there is none, \<open>rb_find_first\<close> the first match in order, and the loop over the
  matches ends and visits all of them, in order.
\<close>

lemma rbtree_search_part:
  assumes "troot s t" and "cmp_sorted cmp (inorder t)" and "steps nx s t"
  shows "(\<exists>x. rb_find cmp s = Some x \<and> (if x = 0 then \<forall>y \<in> set_tree t. cmp y \<noteq> 0 else x \<in> set_tree t \<and> cmp x = 0)) \<and>
    rb_find_first cmp s = Some (hd (filter (\<lambda>x. cmp x = 0) (inorder t) @ [0])) \<and>
    rb_for_each nx cmp s = Some (filter (\<lambda>x. cmp x = 0) (inorder t))"
proof -
  have rep: "rb_rep s 0 (t_root s) t"
    using assms(1) by (simp add: troot_def)
  show ?thesis
    using find_rep [OF rep assms(2)] find_first_rep [OF rep assms(2), of 0] for_each_rep [OF assms(3,1,2)]
    by (simp add: rb_find_def rb_find_first_def first_match_def)
qed

text \<open>
  C36. Adding a node by an order \<open>lt\<close>: the loop ends, the tree stays sorted, the new node comes behind the nodes that are not greater
  and before the greater ones, the others keep their order.  The cached variant keeps the leftmost node and returns the new node
  exactly if it became the leftmost.  \<open>rb_find_add\<close> returns a node that compares equal and changes nothing, or, if there is none, adds
  the new one at its place and returns \<open>NULL\<close>.  Searching a tree that a comparison divides into nodes below, at and above a key:
  \<open>rb_find\<close> returns a match or \<open>NULL\<close>, \<open>rb_find_first\<close> the first match in order, and the loop over the matches ends and visits
  all of them, in order.
\<close>

theorem rbtree_operations:
  assumes "rebalances fix_up"
    and "weak_order lt"
    and "troot s t"
    and "sorted_wrt (\<lambda>x y. \<not> lt y x) (inorder t)"
    and "n \<notin> set_tree t"
    and "n \<noteq> 0"
    and "aligned n"
    and "t_leftmost s = hd (inorder t @ [0])"
    and "cmp_sorted (cmp n) (inorder t)"
    and "cmp_sorted sel (inorder t)"
    and "steps nx s t"
  shows "((\<exists>r s' t'. rb_add_cached fix_up lt n s = Some (r, s') \<and> troot s' t' \<and> inorder t' = place (lt n) n (inorder t) \<and>
      sorted_wrt (\<lambda>x y. \<not> lt y x) (inorder t') \<and> t_leftmost s' = hd (inorder t') \<and>
      r = (if hd (inorder t') = n then n else 0)) \<and>
    (\<exists>s' t'. rb_add fix_up lt n s = Some s' \<and> troot s' t' \<and> inorder t' = place (lt n) n (inorder t)) \<and>
    ((\<exists>x \<in> set_tree t. cmp n x = 0 \<and> rb_find_add fix_up cmp n s = Some (x, s)) \<or>
     (\<forall>x \<in> set_tree t. cmp n x \<noteq> 0) \<and>
     (\<exists>s' t'. rb_find_add fix_up cmp n s = Some (0, s') \<and> troot s' t' \<and>
        inorder t' = place (\<lambda>x. cmp n x < 0) n (inorder t)))) \<and>
    ((\<exists>x. rb_find sel s = Some x \<and> (if x = 0 then \<forall>y \<in> set_tree t. sel y \<noteq> 0 else x \<in> set_tree t \<and> sel x = 0)) \<and>
    rb_find_first sel s = Some (hd (filter (\<lambda>x. sel x = 0) (inorder t) @ [0])) \<and>
    rb_for_each nx sel s = Some (filter (\<lambda>x. sel x = 0) (inorder t)))"
  by (rule conjI [OF rbtree_add_part [where lt = lt and cmp = cmp, OF assms(1,2,3,4,5,6,7,8,9)] rbtree_search_part [OF assms(3,10,11)]])

theorem rbtree_operations_witness:
  "(\<exists>s' t'. rb_add (\<lambda>n s. s) (\<lambda>x y. x < y) 12 a_store = Some s' \<and> troot s' t' \<and> inorder t' = [4, 8, 12]) \<and>
   rb_for_each a_next (\<lambda>x. 8 - uint x) a_store = Some [8]"
proof -
  have w: "weak_order (\<lambda>x y. x < y)"
    by (auto simp: weak_order_def)
  have n: "(12 :: rnode) \<notin> set_tree a_tree" "(12 :: rnode) \<noteq> 0" "aligned 12" "t_leftmost a_store = hd (inorder a_tree @ [0])"
    by (simp_all add: a_tree_def aligned_def a_store_def)
  have s: "sorted_wrt (\<lambda>x y. \<not> y < x) (inorder a_tree)" "cmp_sorted ((\<lambda>x y. uint x - uint y) (12 :: rnode)) (inorder a_tree)"
      "cmp_sorted (\<lambda>x. 8 - uint x) (inorder a_tree)"
    by (simp_all add: a_inorder cmp_sorted_def)
  from rbtree_operations [where cmp = "\<lambda>x y. uint x - uint y", OF idle_rebalances(1) w a_troot s(1) n s(2) s(3) a_steps] show ?thesis
    by (auto simp: a_inorder a_tree_def place_def)
qed

text \<open>
  The cached leftmost node: erasing a node and replacing one, by code that takes the node out or puts another one in
  its place, keep the cache at the first node of the tree; erasing the cached node returns its successor.
\<close>

lemma leftmost_cache:
  assumes "troot s t" and "x \<in> set_tree t" and "t_leftmost s = hd (inorder t @ [0])" and "steps nx s t"
    and "erases er x t" and "replaces rp x y t"
  shows "(\<exists>r s' t'. rb_erase_cached er nx x s = (r, s') \<and> troot s' t' \<and> inorder t' = remove1 x (inorder t) \<and>
      rb_first_cached s' = hd (inorder t' @ [0]) \<and> r = (if rb_first_cached s = x then rb_first_cached s' else 0)) \<and>
    (\<exists>t'. troot (rb_replace_node_cached rp x y s) t' \<and> inorder t' = map (\<lambda>z. if z = x then y else z) (inorder t) \<and>
      rb_first_cached (rb_replace_node_cached rp x y s) = hd (inorder t' @ [0]))"
  using erase_cached_rep [OF assms(5,4,1-3)] replace_cached_rep [OF assms(6,1-3)] unfolding rb_first_cached_def by blast

definition one_store :: itstore where
  "one_store = a_store\<lparr>t_pc := \<lambda>_. 0, t_root := 4\<rparr>"

definition one_erase :: "rnode \<Rightarrow> 'x tstore_scheme \<Rightarrow> 'x tstore_scheme" where
  "one_erase x s = s\<lparr>t_root := 0\<rparr>"

definition one_replace :: "rnode \<Rightarrow> rnode \<Rightarrow> 'x tstore_scheme \<Rightarrow> 'x tstore_scheme" where
  "one_replace x y = stmts [set_pc y 0, set_left y 0, set_right y 0, slot_set root_slot y]"

lemma one_assumptions:
  "troot one_store (Node Leaf 4 Leaf)" "steps (\<lambda>x s. 0) s (Node Leaf 4 Leaf)" "erases one_erase 4 (Node Leaf 4 Leaf)"
  "replaces one_replace 4 8 (Node Leaf 4 Leaf)"
proof -
  show "troot one_store (Node Leaf 4 Leaf)"
    by (simp add: one_store_def a_store_def troot_def rb_parent_def aligned_def)
  show "steps (\<lambda>x s. 0) s (Node Leaf 4 Leaf)"
    by (auto simp: steps_def Cons_eq_append_conv)
  show "erases one_erase 4 (Node Leaf 4 Leaf)"
    by (auto simp: erases_def one_erase_def troot_def intro!: exI [of _ Leaf])
  show "replaces one_replace 4 8 (Node Leaf 4 Leaf)"
    by (auto simp: replaces_def one_replace_def troot_def aligned_def raw_rb_parent_def intro!: exI [of _ "Node Leaf 8 Leaf"])
qed


text \<open>
  C35. \<open>__rb_erase_augmented\<close>, all cases: the loops end, the node is taken out, all others keep their order,
  the stored maxima are again those of the subtrees, and the node it returns for rebalancing is one of the tree.
\<close>

theorem erase_augmented:
  fixes s :: "'x itstore_scheme"
  assumes "troot s t" and "all_ok s t" and "x \<in> set_tree t"
  shows "\<exists>b s' t'. raw_rb_erase_augmented it_augment x s = Some (b, s') \<and> troot s' t' \<and> inorder t' = remove1 x (inorder t) \<and>
    all_ok s' t' \<and> (\<forall>v. t' \<noteq> Leaf \<longrightarrow> (v \<le> t_sub s' (t_root s') \<longleftrightarrow> (\<exists>y \<in> set_tree t'. v \<le> t_last s y))) \<and>
    (b = 0 \<or> b \<in> set_tree t')"
proof -
  from raw_erase [OF assms] obtain b s' t' where e: "raw_rb_erase_augmented it_augment x s = Some (b, s')" "troot s' t'"
    "all_ok s' t'" "inorder t' = remove1 x (inorder t)" "b = 0 \<or> b \<in> set_tree t'" "t_last s' = t_last s"
    by blast
  have "v \<le> t_sub s' (t_root s') \<longleftrightarrow> (\<exists>y \<in> set_tree t'. v \<le> t_last s y)" if "t' \<noteq> Leaf" for v
    using e(2,3,6) that subtree_max [of s' 0 "t_root s'" t' v] by (cases t') (auto simp: troot_def all_ok_def)
  then show ?thesis
    using e by (intro exI [of _ b] exI [of _ s'] exI [of _ t']) simp
qed

theorem erase_augmented_witness:
  "\<exists>b s' t'. raw_rb_erase_augmented it_augment 8 a_store = Some (b, s') \<and> troot s' t' \<and> inorder t' = [4] \<and> all_ok s' t'"
  using erase_augmented [of a_store a_tree 8] a_inv by (fastforce simp: it_inv_def a_inorder simp flip: set_inorder)

text \<open>
  The callback \<open>rotate\<close>, called after a rotation that exchanged \<open>x\<close> and its child \<open>y\<close>, in either direction: the maxima
  below \<open>y\<close> are those of the subtrees again and the maximum at the top is the one that was there before.
\<close>

lemma rotate_callback:
  fixes s s' :: "'x itstore_scheme"
  assumes "t_sub s' = t_sub s" and "t_last s' = t_last s"
    and "t = Node a x (Node b y c) \<and> t' = Node (Node a x b) y c \<or> t = Node (Node c y b) x a \<and> t' = Node c y (Node b x a)"
    and "rb_rep s q x t" and "distinct (inorder t)" and "all_ok s t" and "rb_rep s' q' y t'"
  shows "all_ok (augment_rotate x y s') t' \<and> t_sub (augment_rotate x y s') y = t_sub s x"
  using assms rotate_left [of s q x a b y c s' q'] rotate_right [of s q x c y b a s' q'] by blast

definition turned :: itstore where
  "turned = a_store\<lparr>t_pc := (\<lambda>_. 0)(8 := 4), t_left := \<lambda>_. 0, t_right := (\<lambda>_. 0)(4 := 8), t_root := 4\<rparr>"


text \<open>
  C34. Inserting an interval and removing one keep the interval tree in order: sorted by start, the maxima those
  of the subtrees, the leftmost node cached.  A new node comes behind the nodes with the same start; removal takes
  out the node and nothing else.
\<close>

theorem interval_update:
  fixes s :: "'x itstore_scheme"
  assumes "it_inv s t" and "aug_rebalances fix_up" and "aug_rebalances col"
    and "n \<notin> set_tree t" and "n \<noteq> 0" and "aligned n" and "x \<in> set_tree t" and "steps nx s t"
  shows "(\<exists>s' t'. it_insert fix_up n s = Some s' \<and> it_inv s' t' \<and>
      inorder t' = place (\<lambda>x. t_start s n < t_start s x) n (inorder t) \<and> t_start s' = t_start s \<and> t_last s' = t_last s) \<and>
    (\<exists>s' t'. it_remove nx col x s = Some s' \<and> it_inv s' t' \<and>
      inorder t' = remove1 x (inorder t) \<and> t_start s' = t_start s \<and> t_last s' = t_last s)"
  using insert_rep [OF assms(2,1,4-6)] remove_rep [OF assms(3,8,1,7)] by blast

theorem interval_update_witness:
  "(\<exists>s' t'. it_insert (\<lambda>f n s. s) 12 a_store = Some s' \<and> it_inv s' t' \<and> inorder t' = [4, 12, 8]) \<and>
   (\<exists>s' t'. it_remove a_next (\<lambda>f n s. s) 4 a_store = Some s' \<and> it_inv s' t' \<and> inorder t' = [8])"
proof -
  have n: "(12 :: rnode) \<notin> set_tree a_tree" "(12 :: rnode) \<noteq> 0" "aligned 12" "(4 :: rnode) \<in> set_tree a_tree"
    by (simp_all add: a_tree_def aligned_def)
  have p: "place (\<lambda>x. t_start a_store 12 < t_start a_store x) 12 [4, 8] = [4, 12, 8]"
    by (simp add: place_def a_store_def)
  show ?thesis
    using interval_update [OF a_inv idle_rebalances(2) idle_rebalances(2) n a_steps] p by (auto simp: a_inorder)
qed

text \<open>
  C33. Searching an interval tree: \<open>_iter_first\<close> returns the first node that overlaps the interval, \<open>_iter_next\<close> the first that
  follows a node, \<open>NULL\<close> if there is none; the loop over both ends and visits exactly the nodes that
  overlap, in order.
\<close>

theorem interval_iteration:
  fixes s :: "'x itstore_scheme"
  assumes "it_inv s t"
  shows "it_iter_first a b s = Some (hd (filter (overlaps a b s) (inorder t) @ [0])) \<and>
    (\<forall>as x bs. inorder t = as @ x # bs \<longrightarrow> it_iter_next x a b s = Some (hd (filter (overlaps a b s) bs @ [0]))) \<and>
    it_nodes (the (it_iter_first a b s)) a b s = Some (filter (overlaps a b s) (inorder t))"
  using iter_first_rep [OF assms, of a b] iter_next_rep [OF assms, of _ _ _ a b] nodes_rep [OF assms, of a b]
  by (simp add: first_overlap_def)

theorem interval_iteration_witness: "it_iter_first 5 9 a_store = Some 4 \<and> it_iter_next 4 4 9 a_store = Some 8"
proof -
  have o: "overlaps 5 9 a_store 4" "overlaps 4 9 a_store 8"
    by (simp_all add: overlaps_def a_store_def)
  have "inorder a_tree = [] @ 4 # [8]"
    by (simp add: a_inorder)
  then show ?thesis
    using interval_iteration [OF a_inv, of 5 9] interval_iteration [OF a_inv, of 4 9] o a_inorder by fastforce
qed

end
