(* ===== verification/Refcount.thy ===== *)
theory Refcount
  imports Prelude "HOL-Library.Monad_Syntax"
begin

text \<open>
  The reference counters of \<open>linux/refcount.h\<close> and \<open>linux/kref.h\<close> on the generic atomic operations of a
  uniprocessor (\<open>asm-generic/atomic.h\<close>, \<open>asm-generic/cmpxchg-local.h\<close>).  A counter is an \<open>int\<close>, held as a 32 bit
  word and read as signed; sums wrap.

  \<open>refcount_warn_saturate\<close> is defined in \<open>lib/refcount.c\<close>: it is the parameter \<open>warn\<close> of the operations.  The
  record is extensible, so that a caller of the model can record the call.
\<close>

section \<open>Atomic operations\<close>

definition atomic_fetch_add :: "u32 \<Rightarrow> u32 \<Rightarrow> u32 \<times> u32" where
  "atomic_fetch_add i v = (let ret = v; v = v + i in (ret, v))"

definition atomic_fetch_sub :: "u32 \<Rightarrow> u32 \<Rightarrow> u32 \<times> u32" where
  "atomic_fetch_sub i v = (let ret = v; v = v - i in (ret, v))"

text \<open>
  \<open>__cmpxchg_local_generic\<close> on the object of \<open>size\<close> bytes at the pointer, which is given by its value: the previous value
  and the new contents.  \<open>wrong_size_cmpxchg\<close> does not return.
\<close>

definition raw_cmpxchg_local_generic :: "u64 \<Rightarrow> u64 \<Rightarrow> u64 \<Rightarrow> nat \<Rightarrow> (u64 \<times> u64) option" where
  "raw_cmpxchg_local_generic v old new sz =
     (if sz = 1 then
        let prev = ucast (ucast v :: u8) in Some (prev, if prev = old then ucast (ucast new :: u8) else v)
      else if sz = 2 then
        let prev = ucast (ucast v :: u16) in Some (prev, if prev = old then ucast (ucast new :: u16) else v)
      else if sz = 4 then
        let prev = ucast (ucast v :: u32) in Some (prev, if prev = old then ucast (ucast new :: u32) else v)
      else if sz = 8 then
        let prev = v in Some (prev, if prev = old then new else v)
      else None)"

text \<open>\<open>cmpxchg_local\<close> on an \<open>int\<close>: the operands are converted to \<open>unsigned long\<close> with their sign, the result back to \<open>int\<close>.\<close>

definition cmpxchg_local :: "u32 \<Rightarrow> u32 \<Rightarrow> u32 \<Rightarrow> (u32 \<times> u32) option" where
  "cmpxchg_local v old new =
     map_option (\<lambda>(prev, v). (ucast prev, ucast v)) (raw_cmpxchg_local_generic (ucast v) (scast old) (scast new) 4)"

definition atomic_cmpxchg :: "u32 \<Rightarrow> u32 \<Rightarrow> u32 \<Rightarrow> (u32 \<times> u32) option" where
  "atomic_cmpxchg v old new = cmpxchg_local v old new"

text \<open>The result, the value of \<open>*old\<close> and the counter.\<close>

definition atomic_try_cmpxchg :: "u32 \<Rightarrow> u32 \<Rightarrow> u32 \<Rightarrow> (bool \<times> u32 \<times> u32) option" where
  "atomic_try_cmpxchg v old new =
     do { let orig = old;
          (r, v) \<leftarrow> atomic_cmpxchg v orig new;
          let old = (if r \<noteq> orig then r else old);
          Some (r = orig, old, v) }"

section \<open>Reference counters\<close>

record refcount_t =
  refs :: u32

datatype refcount_saturation_type =
  REFCOUNT_ADD_NOT_ZERO_OVF | REFCOUNT_ADD_OVF | REFCOUNT_ADD_UAF | REFCOUNT_SUB_UAF | REFCOUNT_DEC_LEAK

type_synonym 'r warn = "refcount_saturation_type \<Rightarrow> 'r \<Rightarrow> 'r"

definition REFCOUNT_MAX :: u32 where
  "REFCOUNT_MAX = 0x7fffffff"

definition REFCOUNT_SATURATED :: u32 where
  "REFCOUNT_SATURATED = word_of_int (- 0x80000000 div 2)"

definition neg :: "u32 \<Rightarrow> bool" where
  "neg v \<longleftrightarrow> sint v < 0"

definition REFCOUNT_INIT :: "u32 \<Rightarrow> refcount_t" where
  "REFCOUNT_INIT n = \<lparr>refs = n\<rparr>"

definition refcount_set :: "u32 \<Rightarrow> 'x refcount_t_scheme \<Rightarrow> 'x refcount_t_scheme" where
  "refcount_set n r = r\<lparr>refs := n\<rparr>"

definition refcount_read :: "'x refcount_t_scheme \<Rightarrow> u32" where
  "refcount_read r = refs r"

text \<open>An argument \<open>oldp\<close> says whether the pointer is there; the value stored through it is part of the result.\<close>

definition put_old :: "bool \<Rightarrow> u32 \<Rightarrow> u32 option" where
  "put_old oldp old = (if oldp then Some old else None)"

partial_function (option) add_not_zero_loop ::
  "u32 \<Rightarrow> u32 \<Rightarrow> 'x refcount_t_scheme \<Rightarrow> (u32 \<times> 'x refcount_t_scheme) option" where
  "add_not_zero_loop i old r =
     (if old = 0 then Some (old, r)
      else
        do { (ok, old, v) \<leftarrow> atomic_try_cmpxchg (refs r) old (old + i);
             let r = r\<lparr>refs := v\<rparr>;
             if \<not> ok then add_not_zero_loop i old r else Some (old, r) })"

definition raw_refcount_add_not_zero ::
  "'x refcount_t_scheme warn \<Rightarrow> u32 \<Rightarrow> bool \<Rightarrow> 'x refcount_t_scheme \<Rightarrow> (bool \<times> u32 option \<times> 'x refcount_t_scheme) option" where
  "raw_refcount_add_not_zero warn i oldp r =
     do { let old = refcount_read r;
          (old, r) \<leftarrow> add_not_zero_loop i old r;
          let out = put_old oldp old;
          let r = (if neg old \<or> neg (old + i) then warn REFCOUNT_ADD_NOT_ZERO_OVF r else r);
          Some (old \<noteq> 0, out, r) }"

definition refcount_add_not_zero ::
  "'x refcount_t_scheme warn \<Rightarrow> u32 \<Rightarrow> 'x refcount_t_scheme \<Rightarrow> (bool \<times> 'x refcount_t_scheme) option" where
  "refcount_add_not_zero warn i r = map_option (\<lambda>(b, _, r). (b, r)) (raw_refcount_add_not_zero warn i False r)"

definition raw_refcount_add ::
  "'x refcount_t_scheme warn \<Rightarrow> u32 \<Rightarrow> bool \<Rightarrow> 'x refcount_t_scheme \<Rightarrow> u32 option \<times> 'x refcount_t_scheme" where
  "raw_refcount_add warn i oldp r =
     (let (old, v) = atomic_fetch_add i (refs r);
          r = r\<lparr>refs := v\<rparr>;
          out = put_old oldp old;
          r = (if old = 0 then warn REFCOUNT_ADD_UAF r
               else if neg old \<or> neg (old + i) then warn REFCOUNT_ADD_OVF r else r)
      in (out, r))"

definition refcount_add :: "'x refcount_t_scheme warn \<Rightarrow> u32 \<Rightarrow> 'x refcount_t_scheme \<Rightarrow> 'x refcount_t_scheme" where
  "refcount_add warn i r = snd (raw_refcount_add warn i False r)"

definition raw_refcount_inc_not_zero ::
  "'x refcount_t_scheme warn \<Rightarrow> bool \<Rightarrow> 'x refcount_t_scheme \<Rightarrow> (bool \<times> u32 option \<times> 'x refcount_t_scheme) option" where
  "raw_refcount_inc_not_zero warn oldp r = raw_refcount_add_not_zero warn 1 oldp r"

definition refcount_inc_not_zero ::
  "'x refcount_t_scheme warn \<Rightarrow> 'x refcount_t_scheme \<Rightarrow> (bool \<times> 'x refcount_t_scheme) option" where
  "refcount_inc_not_zero warn r = map_option (\<lambda>(b, _, r). (b, r)) (raw_refcount_inc_not_zero warn False r)"

definition raw_refcount_inc ::
  "'x refcount_t_scheme warn \<Rightarrow> bool \<Rightarrow> 'x refcount_t_scheme \<Rightarrow> u32 option \<times> 'x refcount_t_scheme" where
  "raw_refcount_inc warn oldp r = raw_refcount_add warn 1 oldp r"

definition refcount_inc :: "'x refcount_t_scheme warn \<Rightarrow> 'x refcount_t_scheme \<Rightarrow> 'x refcount_t_scheme" where
  "refcount_inc warn r = snd (raw_refcount_inc warn False r)"

definition raw_refcount_sub_and_test ::
  "'x refcount_t_scheme warn \<Rightarrow> u32 \<Rightarrow> bool \<Rightarrow> 'x refcount_t_scheme \<Rightarrow> bool \<times> u32 option \<times> 'x refcount_t_scheme" where
  "raw_refcount_sub_and_test warn i oldp r =
     (let (old, v) = atomic_fetch_sub i (refs r);
          r = r\<lparr>refs := v\<rparr>;
          out = put_old oldp old
      in if old = i then (True, out, r)
         else let r = (if neg old \<or> neg (old - i) then warn REFCOUNT_SUB_UAF r else r) in (False, out, r))"

definition refcount_sub_and_test ::
  "'x refcount_t_scheme warn \<Rightarrow> u32 \<Rightarrow> 'x refcount_t_scheme \<Rightarrow> bool \<times> 'x refcount_t_scheme" where
  "refcount_sub_and_test warn i r = (let (b, _, r) = raw_refcount_sub_and_test warn i False r in (b, r))"

definition raw_refcount_dec_and_test ::
  "'x refcount_t_scheme warn \<Rightarrow> bool \<Rightarrow> 'x refcount_t_scheme \<Rightarrow> bool \<times> u32 option \<times> 'x refcount_t_scheme" where
  "raw_refcount_dec_and_test warn oldp r = raw_refcount_sub_and_test warn 1 oldp r"

definition refcount_dec_and_test ::
  "'x refcount_t_scheme warn \<Rightarrow> 'x refcount_t_scheme \<Rightarrow> bool \<times> 'x refcount_t_scheme" where
  "refcount_dec_and_test warn r = (let (b, _, r) = raw_refcount_dec_and_test warn False r in (b, r))"

definition raw_refcount_dec ::
  "'x refcount_t_scheme warn \<Rightarrow> bool \<Rightarrow> 'x refcount_t_scheme \<Rightarrow> u32 option \<times> 'x refcount_t_scheme" where
  "raw_refcount_dec warn oldp r =
     (let (old, v) = atomic_fetch_sub 1 (refs r);
          r = r\<lparr>refs := v\<rparr>;
          out = put_old oldp old;
          r = (if sint old \<le> 1 then warn REFCOUNT_DEC_LEAK r else r)
      in (out, r))"

definition refcount_dec :: "'x refcount_t_scheme warn \<Rightarrow> 'x refcount_t_scheme \<Rightarrow> 'x refcount_t_scheme" where
  "refcount_dec warn r = snd (raw_refcount_dec warn False r)"

section \<open>Reference counted objects\<close>

text \<open>
  An object is its counter and whatever else \<open>release\<close> may change.  \<open>refcount_dec_and_mutex_lock\<close> and \<open>refcount_dec_and_lock\<close> are
  defined in \<open>lib/refcount.c\<close>: they are the parameter \<open>dec_and_lock\<close> of the two operations that call them.
\<close>

record kref =
  refcount :: refcount_t

definition KREF_INIT :: "u32 \<Rightarrow> kref" where
  "KREF_INIT n = \<lparr>refcount = REFCOUNT_INIT n\<rparr>"

definition kref_init :: "'x kref_scheme \<Rightarrow> 'x kref_scheme" where
  "kref_init k = k\<lparr>refcount := refcount_set 1 (refcount k)\<rparr>"

definition kref_read :: "'x kref_scheme \<Rightarrow> u32" where
  "kref_read k = refcount_read (refcount k)"

definition kref_get :: "refcount_t warn \<Rightarrow> 'x kref_scheme \<Rightarrow> 'x kref_scheme" where
  "kref_get warn k = k\<lparr>refcount := refcount_inc warn (refcount k)\<rparr>"

definition kref_put :: "refcount_t warn \<Rightarrow> ('x kref_scheme \<Rightarrow> 'x kref_scheme) \<Rightarrow> 'x kref_scheme \<Rightarrow> u32 \<times> 'x kref_scheme" where
  "kref_put warn release k =
     (let (gone, r) = refcount_dec_and_test warn (refcount k); k = k\<lparr>refcount := r\<rparr>
      in if gone then (1, release k) else (0, k))"

definition kref_put_mutex ::
  "('l \<Rightarrow> 'x kref_scheme \<Rightarrow> bool \<times> 'x kref_scheme) \<Rightarrow> ('x kref_scheme \<Rightarrow> 'x kref_scheme) \<Rightarrow> 'l \<Rightarrow> 'x kref_scheme \<Rightarrow> u32 \<times> 'x kref_scheme" where
  "kref_put_mutex refcount_dec_and_mutex_lock release lock k =
     (let (gone, k) = refcount_dec_and_mutex_lock lock k in if gone then (1, release k) else (0, k))"

definition kref_put_lock ::
  "('l \<Rightarrow> 'x kref_scheme \<Rightarrow> bool \<times> 'x kref_scheme) \<Rightarrow> ('x kref_scheme \<Rightarrow> 'x kref_scheme) \<Rightarrow> 'l \<Rightarrow> 'x kref_scheme \<Rightarrow> u32 \<times> 'x kref_scheme" where
  "kref_put_lock refcount_dec_and_lock release lock k =
     (let (gone, k) = refcount_dec_and_lock lock k in if gone then (1, release k) else (0, k))"

definition kref_get_unless_zero :: "refcount_t warn \<Rightarrow> 'x kref_scheme \<Rightarrow> (u32 \<times> 'x kref_scheme) option" where
  "kref_get_unless_zero warn k =
     map_option (\<lambda>(b, r). (if b then 1 else 0, k\<lparr>refcount := r\<rparr>)) (refcount_inc_not_zero warn (refcount k))"

end
