(* ===== verification/Refcount_Ops.thy ===== *)
theory Refcount_Ops
  imports Refcount
begin

text \<open>
  What the operations on reference counters do on every value of the counter, and why a saturated
  counter stays saturated when tasks interleave.
\<close>

section \<open>Signed 32 bit words\<close>

lemma sint_bounds: "- 2147483648 \<le> sint (v :: u32) \<and> sint v < 2147483648"
  using sint_range_size [of v] by (simp add: word_size)

lemma sint_wrap: "sint (word_of_int z :: u32) = (z + 2147483648) mod 4294967296 - 2147483648"
  by (simp add: int_word_sint)

lemma sint_add: "sint (a + b :: u32) = (sint a + sint b + 2147483648) mod 4294967296 - 2147483648"
  using sint_wrap [of "sint a + sint b"] by simp

lemma sint_sub: "sint (a - b :: u32) = (sint a - sint b + 2147483648) mod 4294967296 - 2147483648"
  using sint_wrap [of "sint a - sint b"] by simp

lemma sint_eq: "(a :: u32) = b \<longleftrightarrow> sint a = sint b"
proof
  assume "sint a = sint b"
  then have "(word_of_int (sint a) :: u32) = word_of_int (sint b)" by simp
  then show "a = b" by simp
qed simp

lemma sint_fits: "- 2147483648 \<le> z \<Longrightarrow> z < 2147483648 \<Longrightarrow> sint (word_of_int z :: u32) = z"
  by (simp add: sint_wrap)

lemma sint_add_fits: "- 2147483648 \<le> sint a + sint b \<Longrightarrow> sint a + sint b < 2147483648 \<Longrightarrow> sint (a + b :: u32) = sint a + sint b"
  by (simp add: sint_add)

lemma sint_sub_fits: "- 2147483648 \<le> sint a - sint b \<Longrightarrow> sint a - sint b < 2147483648 \<Longrightarrow> sint (a - b :: u32) = sint a - sint b"
  by (simp add: sint_sub)

lemma sint_saturated: "sint REFCOUNT_SATURATED = - 1073741824"
  unfolding REFCOUNT_SATURATED_def by (subst sint_fits) simp_all

lemma sint_max: "sint REFCOUNT_MAX = 2147483647"
  using sint_fits [of 2147483647] by (simp add: REFCOUNT_MAX_def)

lemma sint_one: "sint (1 :: u32) = 1"
  by simp

section \<open>Compare and exchange\<close>

text \<open>
  \<open>__cmpxchg_local_generic\<close> compares the value zero extended with an operand that was sign extended: a negative \<open>int\<close>
  is never stored, although the result says that it was.
\<close>

lemma sint_uint: "sint (v :: u32) = (if uint v < 2147483648 then uint v else uint v - 4294967296)"
proof -
  have "sint v = (uint v + 2147483648) mod 4294967296 - 2147483648"
    using sint_wrap [of "uint v"] by simp
  moreover have "0 \<le> uint v" "uint v < 4294967296"
    using uint_bounded [of v] by simp_all
  moreover have "(uint v + 2147483648) mod 4294967296 = uint v - 2147483648" if "\<not> uint v < 2147483648"
    using mod_pos_geq [of 4294967296 "uint v + 2147483648"] \<open>uint v < 4294967296\<close> that by simp
  ultimately show ?thesis
    by (cases "uint v < 2147483648") simp_all
qed

lemma scast_match: "(ucast (v :: u32) :: u64) = scast (old :: u32) \<longleftrightarrow> v = old \<and> \<not> neg old"
proof -
  have v: "0 \<le> uint v" "uint v < 4294967296" "0 \<le> uint old" "uint old < 4294967296"
    using uint_bounded [of v] uint_bounded [of old] by simp_all
  have l: "uint (ucast v :: u64) = uint v"
    using v by (simp add: unsigned_ucast_eq take_bit_eq_mod)
  have r: "uint (scast old :: u64) = sint old mod 18446744073709551616"
    unfolding scast_eq uint_word_of_int by simp
  have "sint old mod 18446744073709551616 = (if neg old then sint old + 18446744073709551616 else sint old)"
  proof (cases "neg old")
    case True
    then show ?thesis
      using sint_bounds [of old] mod_add_self2 [of "sint old" 18446744073709551616]
        mod_pos_pos_trivial [of "sint old + 18446744073709551616" 18446744073709551616] by (simp add: neg_def)
  next
    case False
    then show ?thesis using sint_bounds [of old] by (simp add: neg_def)
  qed
  then have "uint v = sint old mod 18446744073709551616 \<longleftrightarrow> uint v = uint old \<and> \<not> neg old"
    using v sint_uint [of old] by (auto simp: neg_def split: if_splits)
  then show ?thesis
    by (simp add: word_uint_eq_iff l r)
qed

lemma ucast_back: "(ucast (ucast (v :: u32) :: u64) :: u32) = v"
  by (rule bit_eqI) (auto simp: bit_unsigned_iff dest: bit_imp_le_length)

lemma scast_back: "(ucast (scast (v :: u32) :: u64) :: u32) = v"
proof (rule bit_eqI)
  fix n
  assume "possible_bit TYPE(32 word) n"
  then have "n < 31 \<or> n = 31"
    by auto
  then show "bit (ucast (scast v :: u64) :: u32) n \<longleftrightarrow> bit v n"
    by (auto simp: bit_unsigned_iff bit_signed_iff)
qed

lemma cmpxchg_rep: "cmpxchg_local v old new = Some (v, if v = old \<and> \<not> neg old then new else v)"
  by (simp add: cmpxchg_local_def raw_cmpxchg_local_generic_def Let_def scast_match scast_back ucast_back)

section \<open>The operations\<close>

text \<open>What the operations rely on of \<open>refcount_warn_saturate\<close>: it saturates the counter.\<close>

definition saturates :: "'x refcount_t_scheme warn \<Rightarrow> bool" where
  "saturates warn \<longleftrightarrow> (\<forall>w r. warn w r = r\<lparr>refs := REFCOUNT_SATURATED\<rparr>)"

definition saturating_add :: "u32 \<Rightarrow> u32 \<Rightarrow> u32" where
  "saturating_add i v = (if 0 < sint v \<and> sint v + sint i \<le> sint REFCOUNT_MAX then v + i else REFCOUNT_SATURATED)"

lemma neg_sum: "0 < sint i \<Longrightarrow> 0 \<le> sint v \<Longrightarrow> neg (v + i) \<longleftrightarrow> sint v + sint i > sint REFCOUNT_MAX"
proof -
  assume i: "0 < sint i" "0 \<le> sint v"
  have "(sint v + sint i + 2147483648) mod 4294967296 = sint v + sint i - 2147483648" if "sint v + sint i > 2147483647"
    using mod_pos_geq [of 4294967296 "sint v + sint i + 2147483648"] that sint_bounds [of v] sint_bounds [of i] by simp
  then show ?thesis
    using i sint_bounds [of v] sint_bounds [of i] sint_add_fits [of v i]
    by (cases "sint v + sint i > 2147483647") (simp_all add: neg_def sint_add [of v i] sint_max)
qed

lemma neg_diff: "0 < sint i \<Longrightarrow> 0 \<le> sint v \<Longrightarrow> neg (v - i) \<longleftrightarrow> sint v < sint i"
  using sint_bounds [of v] sint_bounds [of i] sint_sub_fits [of v i] by (auto simp: neg_def)

lemma sint_zero: "(v :: u32) = 0 \<longleftrightarrow> sint v = 0"
  using sint_eq [of v 0] by simp

lemma counter_add_rep:
  assumes "saturates warn" and "0 < sint i"
  shows "refcount_add warn i r = r\<lparr>refs := saturating_add i (refs r)\<rparr>"
  using assms neg_sum [of i "refs r"]
  by (auto simp: refcount_add_def raw_refcount_add_def atomic_fetch_add_def Let_def saturates_def saturating_add_def
      neg_def [of "refs r"] sint_zero)

lemma try_cmpxchg_rep: "atomic_try_cmpxchg v v new = Some (True, v, if neg v then v else new)"
  by (simp add: atomic_try_cmpxchg_def atomic_cmpxchg_def cmpxchg_rep Let_def)

lemma loop_rep:
  "add_not_zero_loop i (refs r) r =
     Some (refs r, if refs r = 0 \<or> neg (refs r) then r else r\<lparr>refs := refs r + i\<rparr>)"
  by (subst add_not_zero_loop.simps) (simp add: try_cmpxchg_rep Let_def)

lemma add_not_zero_rep:
  assumes "saturates warn" and "0 < sint i"
  shows "refcount_add_not_zero warn i r =
    Some (refs r \<noteq> 0, r\<lparr>refs := if refs r = 0 then 0 else saturating_add i (refs r)\<rparr>)"
proof -
  have i: "\<not> neg i" "\<not> neg 0"
    using assms(2) by (simp_all add: neg_def)
  note defs = refcount_add_not_zero_def raw_refcount_add_not_zero_def refcount_read_def loop_rep Let_def
  show ?thesis
  proof (cases "refs r = 0")
    case True
    moreover from this have "r\<lparr>refs := 0\<rparr> = r"
      by (cases r) simp
    moreover from True have "add_not_zero_loop i 0 r = Some (0, r)"
      by (subst add_not_zero_loop.simps) simp
    ultimately show ?thesis using i by (simp add: defs)
  next
    case False
    then show ?thesis
      using assms neg_sum [of i "refs r"]
      by (auto simp: defs saturates_def saturating_add_def neg_def [of "refs r"] sint_zero)
  qed
qed

lemma sub_rep:
  assumes "saturates warn" and "0 < sint i"
  shows "refcount_sub_and_test warn i r =
    (refs r = i, r\<lparr>refs := if sint i \<le> sint (refs r) then refs r - i else REFCOUNT_SATURATED\<rparr>)"
  using assms neg_diff [of i "refs r"]
  by (auto simp: refcount_sub_and_test_def raw_refcount_sub_and_test_def atomic_fetch_sub_def Let_def saturates_def
      neg_def [of "refs r"])

lemma dec_rep:
  assumes "saturates warn"
  shows "refcount_dec warn r = r\<lparr>refs := if 1 < sint (refs r) then refs r - 1 else REFCOUNT_SATURATED\<rparr>"
  using assms by (simp add: refcount_dec_def raw_refcount_dec_def atomic_fetch_sub_def Let_def saturates_def)

lemma inc_rep: "saturates warn \<Longrightarrow> refcount_inc warn r = r\<lparr>refs := saturating_add 1 (refs r)\<rparr>"
  using counter_add_rep [of warn 1 r] by (simp add: refcount_add_def refcount_inc_def raw_refcount_inc_def)

lemma dec_and_test_rep:
  "saturates warn \<Longrightarrow> refcount_dec_and_test warn r =
     (refs r = 1, r\<lparr>refs := if 1 \<le> sint (refs r) then refs r - 1 else REFCOUNT_SATURATED\<rparr>)"
  using sub_rep [of warn 1 r] by (simp add: refcount_sub_and_test_def refcount_dec_and_test_def raw_refcount_dec_and_test_def)

lemma inc_not_zero_rep:
  "saturates warn \<Longrightarrow> refcount_inc_not_zero warn r =
     Some (refs r \<noteq> 0, r\<lparr>refs := if refs r = 0 then 0 else saturating_add 1 (refs r)\<rparr>)"
  using add_not_zero_rep [of warn 1 r]
  by (simp add: refcount_add_not_zero_def refcount_inc_not_zero_def raw_refcount_inc_not_zero_def)

section \<open>Interleaved operations\<close>

text \<open>
  An operation that finds the counter out of range ends with a call of \<open>refcount_warn_saturate\<close>, and other tasks may
  run before that call takes effect.  A task is therefore either idle or has this call outstanding.  The first half
  of an operation is the operation itself with a \<open>warn\<close> that only records the call.  The retry loop of \<open>refcount_inc_not_zero\<close>
  is one step: an attempt that fails changes nothing.
\<close>

record half_done = refcount_t +
  outstanding :: "refcount_saturation_type option"

definition record_call :: "half_done warn" where
  "record_call w r = r\<lparr>outstanding := Some w\<rparr>"

datatype rc_op = op_inc | op_dec | op_inc_not_zero | op_dec_and_test

text \<open>The counter and the outstanding call after the first half of an operation, and its result.\<close>

definition first_half :: "rc_op \<Rightarrow> u32 \<Rightarrow> (u32 \<times> refcount_saturation_type option \<times> bool) option" where
  "first_half op v =
     (let r = \<lparr>refs = v, outstanding = None\<rparr>; out = (\<lambda>b r. (refs r, outstanding r, b))
      in case op of
           op_inc \<Rightarrow> Some (out True (refcount_inc record_call r))
         | op_dec \<Rightarrow> Some (out True (refcount_dec record_call r))
         | op_inc_not_zero \<Rightarrow> map_option (\<lambda>(b, r). out b r) (refcount_inc_not_zero record_call r)
         | op_dec_and_test \<Rightarrow> Some (let (b, r) = refcount_dec_and_test record_call r in out b r))"

type_synonym rc_state = "u32 \<times> refcount_saturation_type option list"

datatype rc_event = returned rc_op bool | saturated

inductive rc_step :: "rc_state \<Rightarrow> rc_event \<Rightarrow> rc_state \<Rightarrow> bool" where
  begin_op: "k < length ps \<Longrightarrow> ps ! k = None \<Longrightarrow> first_half op v = Some (v', p, b) \<Longrightarrow>
    rc_step (v, ps) (returned op b) (v', ps[k := p])"
| saturate: "k < length ps \<Longrightarrow> ps ! k = Some w \<Longrightarrow> rc_step (v, ps) saturated (REFCOUNT_SATURATED, ps[k := None])"

inductive rc_run :: "rc_state \<Rightarrow> rc_event list \<Rightarrow> rc_state \<Rightarrow> bool" where
  run_nil: "rc_run s [] s"
| run_snoc: "rc_run s es s' \<Longrightarrow> rc_step s' e s'' \<Longrightarrow> rc_run s (es @ [e]) s''"

inductive_cases rc_stepE: "rc_step (v, ps) e s'"

text \<open>The first half of an operation on a value out of range leaves its call outstanding.\<close>

lemma first_half_neg:
  assumes "first_half op v = Some (v', p, b)" and "- 2147483648 < sint v" and "sint v < 0"
  shows "p \<noteq> None" and "\<bar>sint v' - sint v\<bar> \<le> 1" and "b = (op \<noteq> op_dec_and_test)"
proof -
  have v: "neg v" "v \<noteq> 0" "sint v \<le> 1" "v \<noteq> 1"
    using assms(2,3) by (auto simp: neg_def)
  have "sint (v + 1) = sint v + 1" "sint (v - 1) = sint v - 1"
    using sint_add_fits [of v 1] sint_sub_fits [of v 1] assms(2,3) by simp_all
  then show "p \<noteq> None" "\<bar>sint v' - sint v\<bar> \<le> 1" "b = (op \<noteq> op_dec_and_test)"
    using assms(1) v
    by (cases op; auto simp: first_half_def Let_def record_call_def refcount_inc_def raw_refcount_inc_def raw_refcount_add_def
        refcount_dec_def raw_refcount_dec_def refcount_dec_and_test_def raw_refcount_dec_and_test_def
        raw_refcount_sub_and_test_def refcount_inc_not_zero_def raw_refcount_inc_not_zero_def raw_refcount_add_not_zero_def
        refcount_read_def loop_rep atomic_fetch_add_def atomic_fetch_sub_def)+
qed

definition waiting :: "refcount_saturation_type option list \<Rightarrow> nat" where
  "waiting ps = length (filter (\<lambda>p. p \<noteq> None) ps)"

text \<open>The counter strays from its saturated value by no more than the number of calls outstanding.\<close>

definition near_saturation :: "rc_state \<Rightarrow> bool" where
  "near_saturation s \<longleftrightarrow> \<bar>sint (fst s) - sint REFCOUNT_SATURATED\<bar> \<le> int (waiting (snd s))"

lemma waiting_le: "waiting ps \<le> length ps"
  by (simp add: waiting_def)

lemma waiting_begin: "k < length ps \<Longrightarrow> ps ! k = None \<Longrightarrow> p \<noteq> None \<Longrightarrow> waiting (ps[k := p]) = waiting ps + 1"
proof (induction ps arbitrary: k)
  case (Cons q ps)
  then show ?case by (cases k) (auto simp: waiting_def)
qed simp

lemma near_range:
  assumes "near_saturation s" and "int (length (snd s)) < 1073741824"
  shows "- 2147483648 < sint (fst s) \<and> sint (fst s) < 0"
proof -
  have "int (waiting (snd s)) < 1073741824"
    using assms(2) waiting_le [of "snd s"] by (meson le_less_trans of_nat_le_iff)
  moreover have "\<bar>sint (fst s) + 1073741824\<bar> \<le> int (waiting (snd s))"
    using assms(1) by (simp add: near_saturation_def sint_saturated)
  ultimately show ?thesis
    by (auto simp: abs_le_iff)
qed

lemma step_near:
  assumes "rc_step s e s'" and "near_saturation s" and "int (length (snd s)) < 1073741824"
  shows "near_saturation s' \<and> length (snd s') = length (snd s) \<and> (\<forall>op b. e = returned op b \<longrightarrow> b = (op \<noteq> op_dec_and_test))"
  using assms(1)
proof cases
  case (begin_op k ps op v v' p b)
  then have "- 2147483648 < sint v" "sint v < 0"
    using near_range [OF assms(2,3)] by simp_all
  note h = first_half_neg [OF begin_op(6) this]
  then show ?thesis
    using waiting_begin [OF begin_op(4,5) h(1)] assms(2) begin_op by (simp add: near_saturation_def)
next
  case (saturate k ps w v)
  then show ?thesis by (simp add: near_saturation_def)
qed

lemma run_near:
  "rc_run s es s' \<Longrightarrow> near_saturation s \<Longrightarrow> int (length (snd s)) < 1073741824 \<Longrightarrow>
     near_saturation s' \<and> length (snd s') = length (snd s) \<and>
     (\<forall>op b. returned op b \<in> set es \<longrightarrow> b = (op \<noteq> op_dec_and_test))"
proof (induction rule: rc_run.induct)
  case (run_snoc s es s' e s'')
  then show ?case using step_near [OF run_snoc.hyps(2)] by auto
qed simp

section \<open>The lifetime of an object\<close>

text \<open>An object whose \<open>release\<close> counts its calls, and a sequence of calls of \<open>kref_get\<close> and \<open>kref_put\<close> by those who hold references.\<close>

record obj = kref +
  released :: nat

definition release_obj :: "obj \<Rightarrow> obj" where
  "release_obj k = k\<lparr>released := released k + 1\<rparr>"

datatype kref_call = get_ref | put_ref

fun kref_calls :: "refcount_t warn \<Rightarrow> kref_call list \<Rightarrow> obj \<Rightarrow> obj" where
  "kref_calls warn [] k = k"
| "kref_calls warn (get_ref # cs) k = kref_calls warn cs (kref_get warn k)"
| "kref_calls warn (put_ref # cs) k = kref_calls warn cs (snd (kref_put warn release_obj k))"

text \<open>The references held after the calls, and that every call is made by a holder of one of at most \<open>INT_MAX\<close> references.\<close>

fun held :: "int \<Rightarrow> kref_call list \<Rightarrow> int" where
  "held h [] = h"
| "held h (get_ref # cs) = held (h + 1) cs"
| "held h (put_ref # cs) = held (h - 1) cs"

fun by_holders :: "int \<Rightarrow> kref_call list \<Rightarrow> bool" where
  "by_holders h [] \<longleftrightarrow> True"
| "by_holders h (get_ref # cs) \<longleftrightarrow> 0 < h \<and> h < sint REFCOUNT_MAX \<and> by_holders (h + 1) cs"
| "by_holders h (put_ref # cs) \<longleftrightarrow> 0 < h \<and> by_holders (h - 1) cs"

lemma lifetime:
  assumes "saturates warn"
  shows "by_holders h cs \<Longrightarrow> 0 \<le> h \<Longrightarrow> h \<le> sint REFCOUNT_MAX \<Longrightarrow> sint (refs (refcount k)) = h \<Longrightarrow>
    sint (refs (refcount (kref_calls warn cs k))) = held h cs \<and>
    released (kref_calls warn cs k) = released k + (if held h cs = 0 \<and> h \<noteq> 0 then 1 else 0)"
proof (induction cs arbitrary: h k)
  case (Cons c cs)
  let ?v = "refs (refcount k)"
  have h: "0 < h" "h \<le> 2147483647" "sint ?v = h"
    using Cons.prems by (cases c; simp add: sint_max)+
  show ?case
  proof (cases c)
    case get_ref
    then have b: "h < 2147483647" "by_holders (h + 1) cs"
      using Cons.prems(1) by (simp_all add: sint_max)
    then have "sint (?v + 1) = h + 1"
      using sint_add_fits [of ?v 1] h by simp
    then have "sint (refs (refcount (kref_get warn k))) = h + 1" "released (kref_get warn k) = released k"
      using inc_rep [OF assms] h b by (simp_all add: kref_get_def saturating_add_def sint_max)
    then show ?thesis
      using Cons.IH [OF b(2)] h(1) b(1) get_ref by (simp add: sint_max)
  next
    case put_ref
    let ?k = "snd (kref_put warn release_obj k)"
    have b: "by_holders (h - 1) cs"
      using Cons.prems(1) put_ref by simp
    have "sint (?v - 1) = h - 1"
      using sint_sub_fits [of ?v 1] h by simp
    moreover have "?v = 1 \<longleftrightarrow> h = 1"
      using sint_eq [of ?v 1] h(3) by simp
    ultimately have "sint (refs (refcount ?k)) = h - 1" "released ?k = released k + (if h = 1 then 1 else 0)"
      using dec_and_test_rep [OF assms] h by (simp_all add: kref_put_def release_obj_def Let_def)
    moreover have "cs = []" if "h = 1"
      using b that by (cases "(h - 1, cs)" rule: by_holders.cases) auto
    ultimately show ?thesis
      using Cons.IH [OF b] h(1,2) put_ref by (cases "h = 1") (auto simp: sint_max)
  qed
qed simp

end
