(* ===== verification/Refcount_Properties.thy ===== *)
theory Refcount_Properties
  imports Refcount_Ops
begin

text \<open>The properties of the reference counters.\<close>

text \<open>
  C38. Every operation on a reference counter, on every value of the counter and with a positive operand: the
  counter moves as long as it stays in the range from 1 to \<open>REFCOUNT_MAX\<close>, otherwise it is set to
  \<open>REFCOUNT_SATURATED\<close>; an addition to a count of 0 is refused or saturates; a subtraction says that
  the count reached 0 exactly if it did.  The compare and exchange loop ends.
\<close>

theorem refcount_operations:
  assumes "saturates warn" and "0 < sint i"
  shows "refcount_add warn i r = r\<lparr>refs := saturating_add i (refs r)\<rparr> \<and>
    refcount_inc warn r = r\<lparr>refs := saturating_add 1 (refs r)\<rparr> \<and>
    refcount_add_not_zero warn i r = Some (refs r \<noteq> 0, r\<lparr>refs := if refs r = 0 then 0 else saturating_add i (refs r)\<rparr>) \<and>
    refcount_inc_not_zero warn r = Some (refs r \<noteq> 0, r\<lparr>refs := if refs r = 0 then 0 else saturating_add 1 (refs r)\<rparr>) \<and>
    refcount_sub_and_test warn i r =
      (refs r = i, r\<lparr>refs := if sint i \<le> sint (refs r) then refs r - i else REFCOUNT_SATURATED\<rparr>) \<and>
    refcount_dec_and_test warn r =
      (refs r = 1, r\<lparr>refs := if 1 \<le> sint (refs r) then refs r - 1 else REFCOUNT_SATURATED\<rparr>) \<and>
    refcount_dec warn r = r\<lparr>refs := if 1 < sint (refs r) then refs r - 1 else REFCOUNT_SATURATED\<rparr>"
  using counter_add_rep [OF assms] inc_rep [OF assms(1)] add_not_zero_rep [OF assms] inc_not_zero_rep [OF assms(1)]
    sub_rep [OF assms] dec_and_test_rep [OF assms(1)] dec_rep [OF assms(1)] by simp

definition to_saturated :: "refcount_t warn" where
  "to_saturated w r = r\<lparr>refs := REFCOUNT_SATURATED\<rparr>"

lemma to_saturated: "saturates to_saturated"
  by (simp add: saturates_def to_saturated_def)

theorem refcount_operations_witness:
  "saturates to_saturated \<and> refcount_inc to_saturated \<lparr>refs = REFCOUNT_MAX\<rparr> = \<lparr>refs = REFCOUNT_SATURATED\<rparr> \<and>
   refcount_sub_and_test to_saturated 2 \<lparr>refs = 2\<rparr> = (True, \<lparr>refs = 0\<rparr>)"
  using refcount_operations [OF to_saturated, of 2 "\<lparr>refs = REFCOUNT_MAX\<rparr>"]
    refcount_operations [OF to_saturated, of 2 "\<lparr>refs = 2\<rparr>"] to_saturated
  by (simp add: saturating_add_def sint_max)

text \<open>
  C37. A saturated counter stays saturated while tasks interleave: with fewer than \<open>2\<^sup>3\<^sup>0\<close> tasks, from a state in
  which the counter is saturated and no operation is under way, the counter stays negative in every state that
  single increments and decrements reach, none of them reports that the count reached 0, and
  none is refused.
\<close>

theorem saturated_stays:
  assumes "rc_run (REFCOUNT_SATURATED, replicate n None) es (v, ps)" and "int n < 2 ^ 30"
  shows "sint v < 0 \<and> \<bar>sint v - sint REFCOUNT_SATURATED\<bar> \<le> int (waiting ps) \<and>
    returned op_dec_and_test True \<notin> set es \<and> returned op_inc_not_zero False \<notin> set es"
proof -
  have "near_saturation (REFCOUNT_SATURATED, replicate n None)"
    by (simp add: near_saturation_def)
  from run_near [OF assms(1) this] assms(2)
  have r: "near_saturation (v, ps)" "length ps = n" "\<And>op b. returned op b \<in> set es \<Longrightarrow> b = (op \<noteq> op_dec_and_test)"
    by auto
  have "sint v < 0"
    using near_range [OF r(1)] r(2) assms(2) by simp
  then show ?thesis
    using r(1) r(3) [of op_dec_and_test True] r(3) [of op_inc_not_zero False] by (auto simp: near_saturation_def)
qed

lemma two_steps:
  "rc_run (REFCOUNT_SATURATED, replicate 2 None) ([returned op_inc True] @ [saturated]) (REFCOUNT_SATURATED, replicate 2 None)"
proof (rule run_snoc)
  have "first_half op_inc REFCOUNT_SATURATED = Some (REFCOUNT_SATURATED + 1, Some REFCOUNT_ADD_OVF, True)"
    by code_simp
  then have "rc_step (REFCOUNT_SATURATED, replicate 2 None) (returned op_inc True)
      (REFCOUNT_SATURATED + 1, (replicate 2 None)[0 := Some REFCOUNT_ADD_OVF])"
    by (intro begin_op) simp_all
  then show "rc_run (REFCOUNT_SATURATED, replicate 2 None) [returned op_inc True]
      (REFCOUNT_SATURATED + 1, [Some REFCOUNT_ADD_OVF, None])"
    using run_snoc [OF run_nil] by (fastforce simp: numeral_2_eq_2)
  show "rc_step (REFCOUNT_SATURATED + 1, [Some REFCOUNT_ADD_OVF, None]) saturated (REFCOUNT_SATURATED, replicate 2 None)"
    using saturate [of 0 "[Some REFCOUNT_ADD_OVF, None]"] by (simp add: numeral_2_eq_2)
qed

theorem saturated_stays_witness:
  "rc_run (REFCOUNT_SATURATED, replicate 2 None) [returned op_inc True, saturated] (REFCOUNT_SATURATED, replicate 2 None) \<and>
   sint REFCOUNT_SATURATED < 0 \<and> returned op_dec_and_test True \<notin> set [returned op_inc True, saturated]"
  using saturated_stays [OF two_steps] two_steps by simp

text \<open>
  C39. An object with a \<open>kref\<close>: if every call is made by a holder of a reference and there are never more than
  \<open>INT_MAX\<close> of them, the counter is the number of references held, and \<open>release\<close> is called once, with the last reference,
  and not before.
\<close>

theorem kref_lifetime:
  assumes "saturates warn" and "by_holders 1 cs"
  shows "sint (kref_read (kref_calls warn cs (kref_init k))) = held 1 cs \<and>
    released (kref_calls warn cs (kref_init k)) = released k + (if held 1 cs = 0 then 1 else 0)"
  using lifetime [OF assms, of "kref_init k"] by (simp add: kref_init_def kref_read_def refcount_set_def refcount_read_def sint_max)

definition an_obj :: obj where
  "an_obj = \<lparr>refcount = \<lparr>refs = 0\<rparr>, released = 0\<rparr>"

theorem kref_lifetime_witness:
  "by_holders 1 [get_ref, put_ref, put_ref] \<and> released (kref_calls to_saturated [get_ref, put_ref, put_ref] (kref_init an_obj)) = 1"
  using kref_lifetime [OF to_saturated, of "[get_ref, put_ref, put_ref]" an_obj] by (simp add: an_obj_def sint_max)

text \<open>
  C40. \<open>atomic_cmpxchg\<close> on the generic compare and exchange of a uniprocessor with 64 bit \<open>long\<close>: on operands that are not
  negative it stores the new value exactly if the counter has the expected one, and returns the previous value.  If the
  expected value is negative it never stores, also where the counter has this value and the result says that
  the exchange was made.
\<close>

theorem cmpxchg_outcome:
  "atomic_cmpxchg v old new = Some (v, if v = old \<and> 0 \<le> sint old then new else v) \<and>
   atomic_try_cmpxchg v old new = Some (v = old, v, if v = old \<and> 0 \<le> sint old then new else v)"
  by (auto simp: atomic_try_cmpxchg_def atomic_cmpxchg_def cmpxchg_rep Let_def neg_def)

end
