(* ===== verification/Qdisc.thy ===== *)
theory Qdisc
  imports Ecn Ptr_Ring
begin

text \<open>
  The packet queue of a queueing discipline, \<open>net/sch_generic.h\<close>: packets linked through their
  \<open>next\<close> members, with the head, the tail and the length in the \<open>qdisc_skb_head\<close>, the byte and
  packet counters, and the list \<open>to_free\<close> on which dropped packets wait for \<open>kfree_skb\<close>.

  The packets live in a store from addresses to \<open>struct sk_buff\<close> objects, \<open>0\<close> is \<open>NULL\<close>.  Of an object
  the model keeps the contents (the record \<^typ>\<open>sk_buff\<close> of the congestion marking), the links, the control
  buffer as \<open>struct qdisc_skb_cb\<close> with the \<open>codel_skb_cb\<close> in its private part, and the segmentation
  fields of the shared info.  A function \<open>__qdisc_f\<close> is called \<open>raw_qdisc_f\<close> here.  The calls of
  \<open>rtnl_kfree_skbs\<close>, which is not part of the headers, are recorded with their arguments.
  The counters of the current processor (\<open>cpu_bstats\<close>, \<open>cpu_qstats\<close>) are not modelled.
\<close>

section \<open>State\<close>

record skb_obj =
  o_skb :: sk_buff
  o_next :: ptr
  o_prev :: ptr
  o_pkt_len :: u32
  o_enqueue_time :: u32
  o_mem_usage :: u32
  o_gso_size :: u16
  o_gso_segs :: u16

type_synonym skb_store = "ptr \<Rightarrow> skb_obj"

record qdisc_skb_head =
  qh_head :: ptr
  qh_tail :: ptr
  qh_qlen :: u32

record gnet_stats_basic =
  bs_bytes :: u64
  bs_packets :: u64

record gnet_stats_queue =
  qs_qlen :: u32
  qs_backlog :: u32
  qs_drops :: u32
  qs_requeues :: u32
  qs_overlimits :: u32

record qdisc =
  qd_flags :: u32
  qd_limit :: u32
  qd_q :: qdisc_skb_head
  qd_bstats :: gnet_stats_basic
  qd_qstats :: gnet_stats_queue
  qd_empty :: bool

definition NET_XMIT_SUCCESS :: int where "NET_XMIT_SUCCESS = 0"
definition NET_XMIT_DROP :: int where "NET_XMIT_DROP = 1"
definition TCQ_F_CPUSTATS :: u32 where "TCQ_F_CPUSTATS = 0x20"

definition set_next :: "ptr \<Rightarrow> ptr \<Rightarrow> skb_store \<Rightarrow> skb_store" where
  "set_next p x m = m(p := (m p)\<lparr>o_next := x\<rparr>)"

section \<open>Counters\<close>

definition qdisc_pkt_len :: "skb_store \<Rightarrow> ptr \<Rightarrow> u32" where
  "qdisc_pkt_len m skb = o_pkt_len (m skb)"

definition raw_bstats_update :: "u64 \<Rightarrow> u32 \<Rightarrow> gnet_stats_basic \<Rightarrow> gnet_stats_basic" where
  "raw_bstats_update bytes packets b =
     b\<lparr>bs_bytes := bs_bytes b + bytes, bs_packets := bs_packets b + ucast packets\<rparr>"

definition skb_is_gso :: "skb_obj \<Rightarrow> bool" where
  "skb_is_gso o' \<longleftrightarrow> o_gso_size o' \<noteq> 0"

definition bstats_update :: "skb_store \<Rightarrow> ptr \<Rightarrow> gnet_stats_basic \<Rightarrow> gnet_stats_basic" where
  "bstats_update m skb =
     raw_bstats_update (ucast (qdisc_pkt_len m skb)) (if skb_is_gso (m skb) then ucast (o_gso_segs (m skb)) else 1)"

definition qdisc_bstats_update :: "skb_store \<Rightarrow> ptr \<Rightarrow> qdisc \<Rightarrow> qdisc" where
  "qdisc_bstats_update m skb sch = sch\<lparr>qd_bstats := bstats_update m skb (qd_bstats sch)\<rparr>"

definition qdisc_qstats_backlog_dec :: "skb_store \<Rightarrow> ptr \<Rightarrow> qdisc \<Rightarrow> qdisc" where
  "qdisc_qstats_backlog_dec m skb sch =
     sch\<lparr>qd_qstats := (qd_qstats sch)\<lparr>qs_backlog := qs_backlog (qd_qstats sch) - qdisc_pkt_len m skb\<rparr>\<rparr>"

definition qdisc_qstats_backlog_inc :: "skb_store \<Rightarrow> ptr \<Rightarrow> qdisc \<Rightarrow> qdisc" where
  "qdisc_qstats_backlog_inc m skb sch =
     sch\<lparr>qd_qstats := (qd_qstats sch)\<lparr>qs_backlog := qs_backlog (qd_qstats sch) + qdisc_pkt_len m skb\<rparr>\<rparr>"

definition qstats_drop_inc :: "gnet_stats_queue \<Rightarrow> gnet_stats_queue" where
  "qstats_drop_inc q = q\<lparr>qs_drops := qs_drops q + 1\<rparr>"

definition qdisc_qstats_drop :: "qdisc \<Rightarrow> qdisc" where
  "qdisc_qstats_drop sch = sch\<lparr>qd_qstats := qstats_drop_inc (qd_qstats sch)\<rparr>"

definition qdisc_qlen :: "qdisc \<Rightarrow> u32" where
  "qdisc_qlen sch = qh_qlen (qd_q sch)"

definition qdisc_is_percpu_stats :: "qdisc \<Rightarrow> bool" where
  "qdisc_is_percpu_stats sch \<longleftrightarrow> qd_flags sch AND TCQ_F_CPUSTATS \<noteq> 0"

definition qdisc_is_empty :: "qdisc \<Rightarrow> bool" where
  "qdisc_is_empty sch =
     (if qdisc_is_percpu_stats sch then qd_empty sch else qh_qlen (qd_q sch) = 0)"

section \<open>Operations on the queue\<close>

definition qdisc_skb_head_init :: "qdisc_skb_head \<Rightarrow> qdisc_skb_head" where
  "qdisc_skb_head_init qh = qh\<lparr>qh_head := 0, qh_tail := 0, qh_qlen := 0\<rparr>"

definition raw_qdisc_enqueue_tail ::
    "ptr \<Rightarrow> skb_store \<times> qdisc_skb_head \<Rightarrow> skb_store \<times> qdisc_skb_head" where
  "raw_qdisc_enqueue_tail skb = (\<lambda>(m, qh).
     let last = qh_tail qh;
         (m, qh) = (if last \<noteq> 0 then (set_next last skb (set_next skb 0 m), qh\<lparr>qh_tail := skb\<rparr>)
                    else (m, qh\<lparr>qh_tail := skb, qh_head := skb\<rparr>))
     in (m, qh\<lparr>qh_qlen := qh_qlen qh + 1\<rparr>))"

definition qdisc_enqueue_tail :: "ptr \<Rightarrow> skb_store \<times> qdisc \<Rightarrow> int \<times> skb_store \<times> qdisc" where
  "qdisc_enqueue_tail skb = (\<lambda>(m, sch).
     let (m, qh) = raw_qdisc_enqueue_tail skb (m, qd_q sch)
     in (NET_XMIT_SUCCESS, m, qdisc_qstats_backlog_inc m skb (sch\<lparr>qd_q := qh\<rparr>)))"

definition raw_qdisc_enqueue_head ::
    "ptr \<Rightarrow> skb_store \<times> qdisc_skb_head \<Rightarrow> skb_store \<times> qdisc_skb_head" where
  "raw_qdisc_enqueue_head skb = (\<lambda>(m, qh).
     let m = set_next skb (qh_head qh) m;
         qh = (if qh_head qh = 0 then qh\<lparr>qh_tail := skb\<rparr> else qh)
     in (m, qh\<lparr>qh_head := skb, qh_qlen := qh_qlen qh + 1\<rparr>))"

definition raw_qdisc_dequeue_head ::
    "skb_store \<times> qdisc_skb_head \<Rightarrow> ptr \<times> skb_store \<times> qdisc_skb_head" where
  "raw_qdisc_dequeue_head = (\<lambda>(m, qh).
     let skb = qh_head qh
     in if skb \<noteq> 0 then
          let qh = qh\<lparr>qh_head := o_next (m skb), qh_qlen := qh_qlen qh - 1\<rparr>;
              qh = (if qh_head qh = 0 then qh\<lparr>qh_tail := 0\<rparr> else qh)
          in (skb, set_next skb 0 m, qh)
        else (skb, m, qh))"

definition qdisc_dequeue_head :: "skb_store \<times> qdisc \<Rightarrow> ptr \<times> skb_store \<times> qdisc" where
  "qdisc_dequeue_head = (\<lambda>(m, sch).
     let (skb, m, qh) = raw_qdisc_dequeue_head (m, qd_q sch);
         sch = sch\<lparr>qd_q := qh\<rparr>
     in if skb \<noteq> 0 then (skb, m, qdisc_bstats_update m skb (qdisc_qstats_backlog_dec m skb sch))
        else (skb, m, sch))"

definition raw_qdisc_drop :: "ptr \<Rightarrow> skb_store \<times> ptr \<Rightarrow> skb_store \<times> ptr" where
  "raw_qdisc_drop skb = (\<lambda>(m, to_free). (set_next skb to_free m, skb))"

definition raw_qdisc_drop_all :: "ptr \<Rightarrow> skb_store \<times> ptr \<Rightarrow> skb_store \<times> ptr" where
  "raw_qdisc_drop_all skb = (\<lambda>(m, to_free).
     (if o_prev (m skb) \<noteq> 0 then set_next (o_prev (m skb)) to_free m else set_next skb to_free m, skb))"

definition raw_qdisc_queue_drop_head ::
    "skb_store \<times> qdisc \<times> qdisc_skb_head \<times> ptr \<Rightarrow> u32 \<times> skb_store \<times> qdisc \<times> qdisc_skb_head \<times> ptr" where
  "raw_qdisc_queue_drop_head = (\<lambda>(m, sch, qh, to_free).
     let (skb, m, qh) = raw_qdisc_dequeue_head (m, qh)
     in if skb \<noteq> 0 then
          let len = qdisc_pkt_len m skb;
              sch = qdisc_qstats_backlog_dec m skb sch;
              (m, to_free) = raw_qdisc_drop skb (m, to_free)
          in (len, m, sch, qh, to_free)
        else (0, m, sch, qh, to_free))"

definition qdisc_peek_head :: "qdisc \<Rightarrow> ptr" where
  "qdisc_peek_head sch = qh_head (qd_q sch)"

definition raw_qdisc_reset_queue ::
    "qdisc_skb_head \<times> (ptr \<times> ptr) list \<Rightarrow> qdisc_skb_head \<times> (ptr \<times> ptr) list" where
  "raw_qdisc_reset_queue = (\<lambda>(qh, freed).
     if qh_qlen qh \<noteq> 0
     then (qh\<lparr>qh_head := 0, qh_tail := 0, qh_qlen := 0\<rparr>, freed @ [(qh_head qh, qh_tail qh)])
     else (qh, freed))"

definition qdisc_reset_queue :: "qdisc \<times> (ptr \<times> ptr) list \<Rightarrow> qdisc \<times> (ptr \<times> ptr) list" where
  "qdisc_reset_queue = (\<lambda>(sch, freed).
     let (qh, freed) = raw_qdisc_reset_queue (qd_q sch, freed)
     in (sch\<lparr>qd_q := qh, qd_qstats := (qd_qstats sch)\<lparr>qs_backlog := 0\<rparr>\<rparr>, freed))"

definition rtnl_qdisc_drop :: "ptr \<Rightarrow> qdisc \<times> (ptr \<times> ptr) list \<Rightarrow> qdisc \<times> (ptr \<times> ptr) list" where
  "rtnl_qdisc_drop skb = (\<lambda>(sch, freed). (qdisc_qstats_drop sch, freed @ [(skb, skb)]))"

definition qdisc_drop :: "ptr \<Rightarrow> skb_store \<times> qdisc \<times> ptr \<Rightarrow> int \<times> skb_store \<times> qdisc \<times> ptr" where
  "qdisc_drop skb = (\<lambda>(m, sch, to_free).
     let (m, to_free) = raw_qdisc_drop skb (m, to_free)
     in (NET_XMIT_DROP, m, qdisc_qstats_drop sch, to_free))"

definition qdisc_drop_all :: "ptr \<Rightarrow> skb_store \<times> qdisc \<times> ptr \<Rightarrow> int \<times> skb_store \<times> qdisc \<times> ptr" where
  "qdisc_drop_all skb = (\<lambda>(m, sch, to_free).
     let (m, to_free) = raw_qdisc_drop_all skb (m, to_free)
     in (NET_XMIT_DROP, m, qdisc_qstats_drop sch, to_free))"

section \<open>Queues as lists\<close>

text \<open>The packets \<open>xs\<close> linked through \<open>next\<close> from \<open>p\<close> to \<open>e\<close>, and the queue of a head as a list.\<close>

primrec skb_seg :: "skb_store \<Rightarrow> ptr \<Rightarrow> ptr list \<Rightarrow> ptr \<Rightarrow> bool" where
  "skb_seg m p [] e = (p = e)"
| "skb_seg m p (x # xs) e = (p = x \<and> x \<noteq> 0 \<and> skb_seg m (o_next (m x)) xs e)"

definition qrep :: "skb_store \<Rightarrow> qdisc_skb_head \<Rightarrow> ptr list \<Rightarrow> bool" where
  "qrep m qh xs \<longleftrightarrow> skb_seg m (qh_head qh) xs 0 \<and> distinct xs \<and>
     qh_tail qh = (if xs = [] then 0 else last xs) \<and> qh_qlen qh = word_of_nat (length xs)"

definition pkt_bytes :: "skb_store \<Rightarrow> ptr list \<Rightarrow> u32" where
  "pkt_bytes m xs = sum_list (map (qdisc_pkt_len m) xs)"

definition qdisc_rep :: "skb_store \<Rightarrow> qdisc \<Rightarrow> ptr list \<Rightarrow> bool" where
  "qdisc_rep m sch xs \<longleftrightarrow> qrep m (qd_q sch) xs \<and> qs_backlog (qd_qstats sch) = pkt_bytes m xs"

text \<open>Two stores that differ in the links only.\<close>

definition same_skbs :: "skb_store \<Rightarrow> skb_store \<Rightarrow> bool" where
  "same_skbs m m' \<longleftrightarrow> (\<forall>x. m' x = (m x)\<lparr>o_next := o_next (m' x)\<rparr>)"

lemma set_next_simps [simp]:
  "o_next (set_next p v m x) = (if x = p then v else o_next (m x))"
  "o_skb (set_next p v m x) = o_skb (m x)" "o_pkt_len (set_next p v m x) = o_pkt_len (m x)"
  "o_enqueue_time (set_next p v m x) = o_enqueue_time (m x)" "o_prev (set_next p v m x) = o_prev (m x)"
  "o_gso_size (set_next p v m x) = o_gso_size (m x)" "o_gso_segs (set_next p v m x) = o_gso_segs (m x)"
  by (simp_all add: set_next_def)

lemma same_skbs_set_next [simp]: "same_skbs m (set_next p v m)"
  by (simp add: same_skbs_def set_next_def)

lemma same_skbs_refl [simp]: "same_skbs m m"
  by (simp add: same_skbs_def)

lemma same_skbs_trans: "same_skbs m m' \<Longrightarrow> same_skbs m' m'' \<Longrightarrow> same_skbs m m''"
  unfolding same_skbs_def by (metis skb_obj.surjective skb_obj.update_convs(2))

lemma same_skbs_fields:
  assumes "same_skbs m m'"
  shows "o_skb (m' x) = o_skb (m x)" and "qdisc_pkt_len m' x = qdisc_pkt_len m x"
    and "o_enqueue_time (m' x) = o_enqueue_time (m x)"
proof -
  have "m' x = (m x)\<lparr>o_next := o_next (m' x)\<rparr>"
    using assms by (simp add: same_skbs_def)
  then have "o_skb (m' x) = o_skb ((m x)\<lparr>o_next := o_next (m' x)\<rparr>)"
    "o_pkt_len (m' x) = o_pkt_len ((m x)\<lparr>o_next := o_next (m' x)\<rparr>)"
    "o_enqueue_time (m' x) = o_enqueue_time ((m x)\<lparr>o_next := o_next (m' x)\<rparr>)"
    by (simp_all only:)
  then show "o_skb (m' x) = o_skb (m x)" "qdisc_pkt_len m' x = qdisc_pkt_len m x"
    "o_enqueue_time (m' x) = o_enqueue_time (m x)"
    by (simp_all add: qdisc_pkt_len_def)
qed

lemma pkt_len_set_next [simp]: "qdisc_pkt_len (set_next p v m) = qdisc_pkt_len m"
  by (simp add: fun_eq_iff qdisc_pkt_len_def)

lemma pkt_bytes_set_next [simp]: "pkt_bytes (set_next p v m) = pkt_bytes m"
  by (simp add: fun_eq_iff pkt_bytes_def)

lemma pkt_bytes_same: "same_skbs m m' \<Longrightarrow> pkt_bytes m' xs = pkt_bytes m xs"
proof -
  assume "same_skbs m m'"
  then have "qdisc_pkt_len m' = qdisc_pkt_len m"
    by (simp add: fun_eq_iff same_skbs_fields)
  then show ?thesis
    by (simp add: pkt_bytes_def)
qed

lemma skb_seg_append: "skb_seg m p (xs @ ys) e \<longleftrightarrow> (\<exists>q. skb_seg m p xs q \<and> skb_seg m q ys e)"
  by (induction xs arbitrary: p) auto

lemma skb_seg_frame [simp]: "p \<notin> set xs \<Longrightarrow> skb_seg (set_next p v m) q xs e \<longleftrightarrow> skb_seg m q xs e"
  by (induction xs arbitrary: q) auto

lemma skb_seg_nonnull: "skb_seg m p xs e \<Longrightarrow> 0 \<notin> set xs"
  by (induction xs arbitrary: p) auto

lemma skb_seg_snoc:
  assumes "skb_seg m p xs 0" and "distinct xs" and "xs \<noteq> []" and "y \<noteq> 0" and "y \<notin> set xs"
  shows "skb_seg (set_next (last xs) y (set_next y 0 m)) p (xs @ [y]) 0"
proof -
  obtain ys z where xs: "xs = ys @ [z]"
    using assms(3) by (metis rev_exhaust)
  with assms show ?thesis
    by (auto simp: skb_seg_append)
qed

lemma qrep_empty_iff: "qrep m qh xs \<Longrightarrow> qh_head qh = 0 \<longleftrightarrow> xs = []"
  by (cases xs) (auto simp: qrep_def)

lemma qrep_tail_iff: "qrep m qh xs \<Longrightarrow> qh_tail qh = 0 \<longleftrightarrow> xs = []"
  using skb_seg_nonnull [of m "qh_head qh" xs 0] unfolding qrep_def by (metis last_in_set)

lemma qrep_frame [simp]: "p \<notin> set xs \<Longrightarrow> qrep (set_next p v m) qh xs \<longleftrightarrow> qrep m qh xs"
  by (simp add: qrep_def)

lemma qdisc_head_init_rep: "qrep m (qdisc_skb_head_init qh) []"
  by (simp add: qrep_def qdisc_skb_head_init_def)

section \<open>Every operation on the list\<close>

lemma enqueue_tail_rep:
  assumes "qrep m qh xs" and "p \<noteq> 0" and "p \<notin> set xs" and "xs = [] \<Longrightarrow> o_next (m p) = 0"
  shows "\<exists>m' qh'. raw_qdisc_enqueue_tail p (m, qh) = (m', qh') \<and> qrep m' qh' (xs @ [p]) \<and> same_skbs m m' \<and>
    (\<forall>x. x \<notin> set xs \<and> x \<noteq> p \<longrightarrow> m' x = m x)"
proof (cases "xs = []")
  case True
  with assms show ?thesis
    by (simp add: raw_qdisc_enqueue_tail_def Let_def qrep_def)
next
  case False
  with assms qrep_tail_iff [OF assms(1)] show ?thesis
    using skb_seg_snoc [of m "qh_head qh" xs p] last_in_set [OF False]
    by (auto simp: raw_qdisc_enqueue_tail_def Let_def qrep_def set_next_def same_skbs_def)
qed

lemma enqueue_head_rep:
  assumes "qrep m qh xs" and "p \<noteq> 0" and "p \<notin> set xs"
  shows "\<exists>qh'. raw_qdisc_enqueue_head p (m, qh) = (set_next p (qh_head qh) m, qh') \<and>
    qrep (set_next p (qh_head qh) m) qh' (p # xs)"
  using assms qrep_empty_iff [OF assms(1)]
  by (auto simp: raw_qdisc_enqueue_head_def Let_def qrep_def)

lemma dequeue_head_empty: "qrep m qh [] \<Longrightarrow> raw_qdisc_dequeue_head (m, qh) = (0, m, qh)"
  by (simp add: raw_qdisc_dequeue_head_def qrep_def Let_def)

lemma dequeue_head_rep:
  assumes "qrep m qh (p # xs)"
  shows "\<exists>qh'. raw_qdisc_dequeue_head (m, qh) = (p, set_next p 0 m, qh') \<and> qrep (set_next p 0 m) qh' xs"
  using assms by (cases xs) (auto simp: raw_qdisc_dequeue_head_def qrep_def Let_def)

lemma drop_rep:
  assumes "skb_seg m f fs 0" and "p \<noteq> 0" and "p \<notin> set fs"
  shows "raw_qdisc_drop p (m, f) = (set_next p f m, p)" and "skb_seg (set_next p f m) p (p # fs) 0"
  using assms by (simp_all add: raw_qdisc_drop_def)

section \<open>The discipline with its counters\<close>

lemma counter_fields [simp]:
  "qd_q (qdisc_qstats_backlog_dec m p sch) = qd_q sch" "qd_q (qdisc_qstats_backlog_inc m p sch) = qd_q sch"
  "qd_q (qdisc_bstats_update m p sch) = qd_q sch" "qd_q (qdisc_qstats_drop sch) = qd_q sch"
  "qs_backlog (qd_qstats (qdisc_qstats_backlog_dec m p sch)) = qs_backlog (qd_qstats sch) - qdisc_pkt_len m p"
  "qs_backlog (qd_qstats (qdisc_qstats_backlog_inc m p sch)) = qs_backlog (qd_qstats sch) + qdisc_pkt_len m p"
  "qd_qstats (qdisc_bstats_update m p sch) = qd_qstats sch"
  "qs_backlog (qd_qstats (qdisc_qstats_drop sch)) = qs_backlog (qd_qstats sch)"
  by (simp_all add: qdisc_qstats_backlog_dec_def qdisc_qstats_backlog_inc_def qdisc_bstats_update_def
      qdisc_qstats_drop_def qstats_drop_inc_def)

lemma pkt_bytes_simps [simp]:
  "pkt_bytes m [] = 0" "pkt_bytes m (x # xs) = qdisc_pkt_len m x + pkt_bytes m xs"
  "pkt_bytes m (xs @ ys) = pkt_bytes m xs + pkt_bytes m ys"
  by (simp_all add: pkt_bytes_def)

lemma qdisc_enqueue_tail_rep:
  assumes "qdisc_rep m sch xs" and "p \<noteq> 0" and "p \<notin> set xs" and "xs = [] \<Longrightarrow> o_next (m p) = 0"
  shows "\<exists>m' sch'. qdisc_enqueue_tail p (m, sch) = (NET_XMIT_SUCCESS, m', sch') \<and> qdisc_rep m' sch' (xs @ [p]) \<and>
    same_skbs m m'"
proof -
  obtain m' qh' where "raw_qdisc_enqueue_tail p (m, qd_q sch) = (m', qh')" and "qrep m' qh' (xs @ [p])"
    and same: "same_skbs m m'"
    using enqueue_tail_rep [of m "qd_q sch" xs p] assms by (auto simp: qdisc_rep_def)
  with assms(1) pkt_bytes_same [OF same] show ?thesis
    by (simp add: qdisc_enqueue_tail_def qdisc_rep_def)
qed

lemma qdisc_dequeue_empty:
  assumes "qdisc_rep m sch []"
  shows "qdisc_dequeue_head (m, sch) = (0, m, sch)"
  using assms dequeue_head_empty [of m "qd_q sch"] by (simp add: qdisc_dequeue_head_def qdisc_rep_def)

lemma qdisc_queue_drop_empty:
  assumes "qdisc_rep m sch []"
  shows "raw_qdisc_queue_drop_head (m, sch, qd_q sch, f) = (0, m, sch, qd_q sch, f)"
  using assms dequeue_head_empty [of m "qd_q sch"] by (simp add: raw_qdisc_queue_drop_head_def qdisc_rep_def)

lemma qdisc_dequeue_rep:
  assumes "qdisc_rep m sch (p # xs)"
  shows "\<exists>sch'. qdisc_dequeue_head (m, sch) = (p, set_next p 0 m, sch') \<and> qdisc_rep (set_next p 0 m) sch' xs \<and>
    qs_drops (qd_qstats sch') = qs_drops (qd_qstats sch) \<and>
    bs_bytes (qd_bstats sch') = bs_bytes (qd_bstats sch) + ucast (qdisc_pkt_len m p)"
proof -
  obtain qh' where "raw_qdisc_dequeue_head (m, qd_q sch) = (p, set_next p 0 m, qh')" and "qrep (set_next p 0 m) qh' xs"
    using dequeue_head_rep [of m "qd_q sch" p xs] assms by (auto simp: qdisc_rep_def)
  moreover have "p \<noteq> 0"
    using assms by (simp add: qdisc_rep_def qrep_def)
  ultimately show ?thesis
    using assms by (simp add: qdisc_dequeue_head_def qdisc_rep_def qdisc_bstats_update_def bstats_update_def
        raw_bstats_update_def qdisc_qstats_backlog_dec_def)
qed

lemma qdisc_queue_drop_rep:
  assumes "qdisc_rep m sch (p # xs)" and "skb_seg m f fs 0" and "p \<notin> set fs"
    and "set xs \<inter> set fs = {}"
  shows "\<exists>m' sch' qh'. raw_qdisc_queue_drop_head (m, sch, qd_q sch, f) = (qdisc_pkt_len m p, m', sch', qh', p) \<and>
    qdisc_rep m' (sch'\<lparr>qd_q := qh'\<rparr>) xs \<and> skb_seg m' p (p # fs) 0"
proof -
  obtain qh' where deq: "raw_qdisc_dequeue_head (m, qd_q sch) = (p, set_next p 0 m, qh')"
      and rep: "qrep (set_next p 0 m) qh' xs"
    using dequeue_head_rep [of m "qd_q sch" p xs] assms by (auto simp: qdisc_rep_def)
  have p: "p \<noteq> 0" "p \<notin> set xs"
    using assms(1) by (auto simp: qdisc_rep_def qrep_def)
  then show ?thesis
    using deq rep assms by (simp add: raw_qdisc_queue_drop_head_def raw_qdisc_drop_def qdisc_rep_def)
qed

lemma qdisc_drop_rep:
  assumes "qdisc_rep m sch xs" and "skb_seg m f fs 0" and "p \<noteq> 0" and "p \<notin> set xs" and "p \<notin> set fs"
  shows "qdisc_drop p (m, sch, f) = (NET_XMIT_DROP, set_next p f m, qdisc_qstats_drop sch, p)"
    and "qdisc_rep (set_next p f m) (qdisc_qstats_drop sch) xs" and "skb_seg (set_next p f m) p (p # fs) 0"
  using assms by (simp_all add: qdisc_drop_def raw_qdisc_drop_def qdisc_rep_def)

text \<open>A packet whose \<open>prev\<close> is the last of a list of segments is dropped with all of them.\<close>

lemma qdisc_drop_all_rep:
  assumes "skb_seg m f fs 0" and "skb_seg m p (ss @ [l]) e" and "distinct (ss @ [l])" and "set (ss @ [l]) \<inter> set fs = {}"
    and "o_prev (m p) = l"
  shows "\<exists>m' sch'. qdisc_drop_all p (m, sch, f) = (NET_XMIT_DROP, m', sch', p) \<and> skb_seg m' p (ss @ l # fs) 0 \<and>
    qs_drops (qd_qstats sch') = qs_drops (qd_qstats sch) + 1"
proof -
  have "l \<noteq> 0" "skb_seg m p ss l"
    using assms(2) by (auto simp: skb_seg_append)
  with assms show ?thesis
    by (auto simp: qdisc_drop_all_def raw_qdisc_drop_all_def skb_seg_append qdisc_qstats_drop_def qstats_drop_inc_def)
qed

text \<open>A packet that is no list of segments has no \<open>prev\<close> and is dropped alone.\<close>

lemma qdisc_drop_all_single:
  assumes "o_prev (m p) = 0"
  shows "qdisc_drop_all p (m, sch, f) = qdisc_drop p (m, sch, f)"
  using assms by (simp add: qdisc_drop_all_def raw_qdisc_drop_all_def qdisc_drop_def raw_qdisc_drop_def)

text \<open>The length tells an empty queue from one with packets while it does not wrap around.\<close>

lemma qlen_zero_iff:
  assumes "qrep m qh xs" and "length xs < 2 ^ 32"
  shows "qh_qlen qh = 0 \<longleftrightarrow> xs = []"
proof -
  have "unat (qh_qlen qh) = length xs"
    using assms by (simp add: qrep_def unat_of_nat take_bit_nat_eq_self)
  then show ?thesis
    by (metis length_0_conv unat_eq_zero)
qed

lemma qdisc_reset_rep:
  assumes "qdisc_rep m sch xs" and "length xs < 2 ^ 32"
  shows "qdisc_rep m (fst (qdisc_reset_queue (sch, freed))) [] \<and>
    snd (qdisc_reset_queue (sch, freed)) = freed @ (if xs = [] then [] else [(hd xs, last xs)])"
proof -
  have "qrep m (qd_q sch) xs"
    using assms(1) by (simp add: qdisc_rep_def)
  with qlen_zero_iff [OF this assms(2)] show ?thesis
    by (cases xs) (auto simp: qdisc_reset_queue_def raw_qdisc_reset_queue_def qdisc_rep_def qrep_def)
qed

end
