(* ===== verification/Qdisc_Run.thy ===== *)
theory Qdisc_Run
  imports Qdisc
begin

text \<open>
  Running a queueing discipline, \<open>qdisc_run\<close> of \<open>net/pkt_sched.h\<close> with \<open>qdisc_run_begin\<close> and
  \<open>qdisc_run_end\<close> of \<open>net/sch_generic.h\<close>.  A discipline with \<open>TCQ_F_NOLOCK\<close> is run by any number of
  processors at once: a try lock lets one of them in, the others leave the flag \<open>MISSED\<close> for it.

  The first part has the functions as one processor executes them when no other intervenes, the second
  the same code as a step relation, in which the accesses to the lock and to the flag by different
  processors interleave in any order.  Memory is sequentially consistent.

  \<open>__qdisc_run\<close> is not part of the headers: it is a parameter, which takes packets off the queue in
  any number of steps and in the last of them finds the queue empty or schedules another run.
  \<open>__netif_schedule\<close> is recorded by a flag that a processor takes back when it starts that run.
  \<open>spin_trylock\<close> takes the lock if it is free and says whether it did.
\<close>

section \<open>The functions\<close>

record 'p qrun =
  run_flags :: u32
  run_seqlock :: bool
  run_missed :: bool
  run_running :: u32
  run_empty :: bool
  run_sched :: bool
  run_queue :: "'p list"

definition TCQ_F_NOLOCK :: u32 where "TCQ_F_NOLOCK = 0x100"

definition run_nolock :: "'p qrun \<Rightarrow> bool" where
  "run_nolock s \<longleftrightarrow> run_flags s AND TCQ_F_NOLOCK \<noteq> 0"

definition spin_trylock_smp :: "'p qrun \<Rightarrow> bool \<times> 'p qrun" where
  "spin_trylock_smp s = (\<not> run_seqlock s, s\<lparr>run_seqlock := True\<rparr>)"

definition qdisc_is_running :: "'p qrun \<Rightarrow> bool" where
  "qdisc_is_running s = (if run_nolock s then run_seqlock s else run_running s AND 1 \<noteq> 0)"

definition raw_write_seqcount_begin :: "'p qrun \<Rightarrow> 'p qrun" where
  "raw_write_seqcount_begin s = s\<lparr>run_running := run_running s + 1\<rparr>"

definition write_seqcount_end :: "'p qrun \<Rightarrow> 'p qrun" where
  "write_seqcount_end s = s\<lparr>run_running := run_running s + 1\<rparr>"

definition netif_schedule :: "'p qrun \<Rightarrow> 'p qrun" where
  "netif_schedule s = s\<lparr>run_sched := True\<rparr>"

definition qdisc_run_begin :: "'p qrun \<Rightarrow> bool \<times> 'p qrun" where
  "qdisc_run_begin s =
     (if run_nolock s then
        case spin_trylock_smp s of (got, s) \<Rightarrow>
          if got then (True, raw_write_seqcount_begin (s\<lparr>run_empty := False\<rparr>))
          else if run_missed s then (False, s)
          else
            let s = s\<lparr>run_missed := True\<rparr>
            in case spin_trylock_smp s of (got, s) \<Rightarrow>
                 if \<not> got then (False, s)
                 else (True, raw_write_seqcount_begin (s\<lparr>run_empty := False\<rparr>))
      else if qdisc_is_running s then (False, s)
      else (True, raw_write_seqcount_begin s))"

definition qdisc_run_end :: "'p qrun \<Rightarrow> 'p qrun" where
  "qdisc_run_end s =
     (let s = write_seqcount_end s
      in if run_nolock s then
           let s = s\<lparr>run_seqlock := False\<rparr>
           in if run_missed s then netif_schedule (s\<lparr>run_missed := False\<rparr>) else s
         else s)"

definition qdisc_run :: "('p qrun \<Rightarrow> 'p qrun) \<Rightarrow> 'p qrun \<Rightarrow> 'p qrun" where
  "qdisc_run body s =
     (case qdisc_run_begin s of (ok, s) \<Rightarrow> if ok then qdisc_run_end (body s) else s)"

section \<open>The functions step by step\<close>

text \<open>The next access of a processor inside \<open>qdisc_run\<close>; \<open>Idle\<close> outside of it, \<open>Running\<close> in \<open>__qdisc_run\<close>.\<close>

datatype run_pc = Idle | Trylock1 | Test_Missed | Set_Missed | Trylock2 | Enter | Running | Leave
  | Unlock | Test_After | Clear_Missed | Schedule

fun run_action :: "run_pc \<times> 'p qrun \<Rightarrow> run_pc \<times> 'p qrun" where
  "run_action (Idle, s) = (Idle, s)"
| "run_action (Trylock1, s) = (case spin_trylock_smp s of (got, s) \<Rightarrow> (if got then Enter else Test_Missed, s))"
| "run_action (Test_Missed, s) = (if run_missed s then Idle else Set_Missed, s)"
| "run_action (Set_Missed, s) = (Trylock2, s\<lparr>run_missed := True\<rparr>)"
| "run_action (Trylock2, s) = (case spin_trylock_smp s of (got, s) \<Rightarrow> (if got then Enter else Idle, s))"
| "run_action (Enter, s) = (Running, raw_write_seqcount_begin (s\<lparr>run_empty := False\<rparr>))"
| "run_action (Running, s) = (Running, s)"
| "run_action (Leave, s) = (Unlock, write_seqcount_end s)"
| "run_action (Unlock, s) = (Test_After, s\<lparr>run_seqlock := False\<rparr>)"
| "run_action (Test_After, s) = (if run_missed s then Clear_Missed else Idle, s)"
| "run_action (Clear_Missed, s) = (Schedule, s\<lparr>run_missed := False\<rparr>)"
| "run_action (Schedule, s) = (Idle, netif_schedule s)"

text \<open>
  A processor starts \<open>qdisc_run\<close> behind the packet it has put into the queue, or for a scheduled run.
  \<open>part\<close> is a step inside \<open>__qdisc_run\<close>, \<open>fin\<close> its last one, which tells whether it has scheduled
  another run.
\<close>

inductive run_step ::
    "('p list \<Rightarrow> 'p list \<Rightarrow> bool) \<Rightarrow> ('p list \<Rightarrow> 'p list \<Rightarrow> bool \<Rightarrow> bool) \<Rightarrow>
     'p qrun \<times> (nat \<Rightarrow> run_pc) \<Rightarrow> 'p qrun \<times> (nat \<Rightarrow> run_pc) \<Rightarrow> bool"
  for part fin where
  xmit: "pcs t = Idle \<Longrightarrow>
    run_step part fin (s, pcs) (s\<lparr>run_queue := run_queue s @ [p]\<rparr>, pcs(t := Trylock1))"
| net_tx: "pcs t = Idle \<Longrightarrow> run_sched s \<Longrightarrow>
    run_step part fin (s, pcs) (s\<lparr>run_sched := False\<rparr>, pcs(t := Trylock1))"
| act: "pcs t \<noteq> Running \<Longrightarrow> run_action (pcs t, s) = (pc, s') \<Longrightarrow>
    run_step part fin (s, pcs) (s', pcs(t := pc))"
| body_part: "pcs t = Running \<Longrightarrow> part (run_queue s) q \<Longrightarrow>
    run_step part fin (s, pcs) (s\<lparr>run_queue := q\<rparr>, pcs)"
| body_fin: "pcs t = Running \<Longrightarrow> fin (run_queue s) q r \<Longrightarrow>
    run_step part fin (s, pcs) (s\<lparr>run_queue := q, run_sched := run_sched s \<or> r, run_empty := e\<rparr>, pcs(t := Leave))"

definition run_init :: "'p qrun \<Rightarrow> bool" where
  "run_init s \<longleftrightarrow> run_nolock s \<and> \<not> run_seqlock s \<and> \<not> run_missed s \<and> even (run_running s) \<and> run_queue s = []"

inductive run_reach ::
    "('p list \<Rightarrow> 'p list \<Rightarrow> bool) \<Rightarrow> ('p list \<Rightarrow> 'p list \<Rightarrow> bool \<Rightarrow> bool) \<Rightarrow>
     'p qrun \<times> (nat \<Rightarrow> run_pc) \<Rightarrow> bool"
  for part fin where
  init: "run_init s \<Longrightarrow> run_reach part fin (s, \<lambda>_. Idle)"
| step: "run_reach part fin st \<Longrightarrow> run_step part fin st st' \<Longrightarrow> run_reach part fin st'"

definition drains :: "('p list \<Rightarrow> 'p list \<Rightarrow> bool \<Rightarrow> bool) \<Rightarrow> bool" where
  "drains fin \<longleftrightarrow> (\<forall>q q' r. fin q q' r \<longrightarrow> q' = [] \<or> r)"

section \<open>The steps of a processor alone are the functions\<close>

lemma run_begin_steps:
  assumes "run_nolock s"
  shows "(run_action ^^ 5) (Trylock1, s) =
    (if fst (qdisc_run_begin s) then Running else Idle, snd (qdisc_run_begin s))"
  using assms
  by (simp add: numeral_eq_Suc qdisc_run_begin_def spin_trylock_smp_def Let_def)

lemma run_end_steps:
  assumes "run_nolock s"
  shows "(run_action ^^ 5) (Leave, s) = (Idle, qdisc_run_end s)"
  using assms
  by (simp add: numeral_eq_Suc qdisc_run_end_def write_seqcount_end_def run_nolock_def Let_def)

section \<open>The invariant of the interleaving\<close>

text \<open>Some processor, or some processor other than \<open>t\<close>, is at one of the accesses \<open>C\<close>.\<close>

definition some_at :: "run_pc set \<Rightarrow> (nat \<Rightarrow> run_pc) \<Rightarrow> bool" where
  "some_at C pcs \<longleftrightarrow> (\<exists>u. pcs u \<in> C)"

definition other_at :: "nat \<Rightarrow> run_pc set \<Rightarrow> (nat \<Rightarrow> run_pc) \<Rightarrow> bool" where
  "other_at t C pcs \<longleftrightarrow> (\<exists>u. u \<noteq> t \<and> pcs u \<in> C)"

definition holding :: "run_pc set" where
  "holding = {Enter, Running, Leave, Unlock}"

definition excl :: "(nat \<Rightarrow> run_pc) \<Rightarrow> bool" where
  "excl pcs \<longleftrightarrow> (\<forall>t. pcs t \<in> holding \<longrightarrow> \<not> other_at t holding pcs)"

definition run_inv :: "'p qrun \<times> (nat \<Rightarrow> run_pc) \<Rightarrow> bool" where
  "run_inv = (\<lambda>(s, pcs).
     run_nolock s \<and> excl pcs \<and> (run_seqlock s \<longleftrightarrow> some_at holding pcs) \<and>
     (odd (run_running s) \<longleftrightarrow> some_at {Running, Leave} pcs) \<and>
     (run_missed s \<longrightarrow> some_at {Trylock2, Enter, Running, Leave, Unlock, Test_After, Clear_Missed} pcs) \<and>
     (run_queue s \<noteq> [] \<and> some_at {Leave, Unlock} pcs \<longrightarrow>
        run_sched s \<or> run_missed s \<or> some_at {Trylock1, Test_Missed, Set_Missed, Clear_Missed, Schedule} pcs) \<and>
     (run_queue s \<noteq> [] \<and> \<not> run_seqlock s \<longrightarrow>
        run_sched s \<or> some_at {Trylock1, Test_Missed, Set_Missed, Trylock2, Clear_Missed, Schedule} pcs \<or>
        run_missed s \<and> some_at {Test_After} pcs))"

lemma some_at_upd: "some_at C (pcs(t := x)) \<longleftrightarrow> x \<in> C \<or> other_at t C pcs"
  by (auto simp: some_at_def other_at_def)

lemma some_at_split: "some_at C pcs \<longleftrightarrow> pcs t \<in> C \<or> other_at t C pcs"
  by (auto simp: some_at_def other_at_def)

definition other_is :: "nat \<Rightarrow> run_pc \<Rightarrow> (nat \<Rightarrow> run_pc) \<Rightarrow> bool" where
  "other_is t a pcs \<longleftrightarrow> (\<exists>u. u \<noteq> t \<and> pcs u = a)"

lemma other_at_simps [simp]:
  "other_at t (insert a C) pcs \<longleftrightarrow> other_is t a pcs \<or> other_at t C pcs"
  "other_at t {} pcs \<longleftrightarrow> False"
  by (auto simp: other_at_def other_is_def)

lemma excl_upd:
  assumes "excl pcs" and "x \<in> holding \<Longrightarrow> \<not> other_at t holding pcs"
  shows "excl (pcs(t := x))"
  using assms unfolding excl_def other_at_def by (metis fun_upd_apply)

lemmas run_inv_simps = run_inv_def run_nolock_def some_at_upd spin_trylock_smp_def raw_write_seqcount_begin_def
  write_seqcount_end_def netif_schedule_def

lemma excl_holder: "excl pcs \<Longrightarrow> pcs t \<in> holding \<Longrightarrow> \<not> other_at t holding pcs"
  by (simp add: excl_def)

lemma act_inv:
  assumes inv: "run_inv (s, pcs)" and "run_action (pcs t, s) = (pc, s')"
  shows "run_inv (s', pcs(t := pc))"
proof -
  have ex: "excl pcs" and lock: "run_seqlock s \<longleftrightarrow> some_at holding pcs"
    using inv by (simp_all add: run_inv_def)
  have "excl (pcs(t := pc))"
    using excl_upd [OF ex, of pc t] excl_holder [OF ex, of t] lock assms(2)
    by (cases "pcs t") (auto simp: spin_trylock_smp_def holding_def some_at_split [of _ _ t] split: if_splits)
  with assms excl_holder [OF ex, of t] show ?thesis
    by (cases "pcs t"; cases "run_missed s"; cases "run_seqlock s";
        simp add: run_inv_simps some_at_split [of _ pcs t] holding_def; elim conjE; hypsubst?; simp?; blast?)
qed

lemma start_inv:
  assumes inv: "run_inv (s, pcs)" and idle: "pcs t = Idle"
  shows "run_inv (s\<lparr>run_queue := run_queue s @ [p]\<rparr>, pcs(t := Trylock1))"
    and "run_inv (s\<lparr>run_sched := False\<rparr>, pcs(t := Trylock1))"
proof -
  have "excl (pcs(t := Trylock1))"
    using inv by (intro excl_upd) (simp_all add: run_inv_def holding_def)
  with inv idle show "run_inv (s\<lparr>run_queue := run_queue s @ [p]\<rparr>, pcs(t := Trylock1))"
    "run_inv (s\<lparr>run_sched := False\<rparr>, pcs(t := Trylock1))"
    by (simp_all add: run_inv_simps some_at_split [of _ pcs t] holding_def)
qed

lemma body_part_inv:
  assumes inv: "run_inv (s, pcs)" and run: "pcs t = Running"
  shows "run_inv (s\<lparr>run_queue := q\<rparr>, pcs)"
  using inv run excl_holder [of pcs t] by (simp add: run_inv_simps some_at_split [of _ pcs t] holding_def)

lemma body_fin_inv:
  assumes inv: "run_inv (s, pcs)" and run: "pcs t = Running" and last: "q = [] \<or> r"
  shows "run_inv (s\<lparr>run_queue := q, run_sched := run_sched s \<or> r, run_empty := e\<rparr>, pcs(t := Leave))"
proof -
  have "excl (pcs(t := Leave))"
    using excl_upd [of pcs Leave t] excl_holder [of pcs t] inv run by (simp add: run_inv_def holding_def)
  with inv run last show ?thesis
    by (cases "q = []") (simp_all add: run_inv_simps some_at_split [of _ pcs t] holding_def)
qed

lemma run_step_inv:
  assumes "run_step part fin st st'" and "run_inv st" and "drains fin"
  shows "run_inv st'"
  using assms
  by (cases rule: run_step.cases) (auto simp: drains_def intro: start_inv act_inv body_part_inv body_fin_inv)

lemma run_reach_inv: "run_reach part fin st \<Longrightarrow> drains fin \<Longrightarrow> run_inv st"
proof (induction rule: run_reach.induct)
  case (init s)
  then show ?case
    by (simp add: run_inv_def run_init_def excl_def some_at_def holding_def)
next
  case (step st st')
  then show ?case
    by (blast intro: run_step_inv)
qed

end
