(* ===== verification/Qdisc_Properties.thy ===== *)
theory Qdisc_Properties
  imports Qdisc_Run Ecn_Properties
begin

text \<open>
  The properties of the packet queue of a queueing discipline and of the protocol by which several
  processors run it.
\<close>

section \<open>The packet queue\<close>

lemma qdisc_peek_rep: "qdisc_rep m sch xs \<Longrightarrow> qdisc_peek_head sch = (if xs = [] then 0 else hd xs)"
  by (cases xs) (simp_all add: qdisc_peek_head_def qdisc_rep_def qrep_def)

lemma qdisc_empty_rep:
  assumes "qdisc_rep m sch xs" and "length xs < 2 ^ 32" and "\<not> qdisc_is_percpu_stats sch"
  shows "qdisc_is_empty sch \<longleftrightarrow> xs = []"
  using assms qlen_zero_iff [of m "qd_q sch" xs] by (simp add: qdisc_is_empty_def qdisc_rep_def)

text \<open>
  C23. The linked queue behaves as a list whose byte count is the backlog.  Adding at the tail or the head
  puts the packet there; a packet put at the tail of an empty queue must have no successor, since its link is not
  written.  Taking from the head returns the oldest packet with its link cleared, or \<open>NULL\<close> and no change if there is
  none; dropping the head of an empty queue changes nothing either.  Dropping moves a packet, or a list of segments, to the front of the list of packets to free.  A reset frees the whole queue in one call.
\<close>

theorem qdisc_queue_operations:
  assumes "qdisc_rep m sch xs" and "skb_seg m f fs 0" and "set xs \<inter> set fs = {}"
    and "p \<noteq> 0" and "p \<notin> set xs" and "p \<notin> set fs" and "length xs < 2 ^ 32"
    and "xs = [] \<Longrightarrow> o_next (m p) = 0"
  shows "(\<exists>m' sch'. qdisc_enqueue_tail p (m, sch) = (NET_XMIT_SUCCESS, m', sch') \<and>
      qdisc_rep m' sch' (xs @ [p]) \<and> same_skbs m m') \<and>
    (case raw_qdisc_enqueue_head p (m, qd_q sch) of (m', qh') \<Rightarrow> qrep m' qh' (p # xs) \<and> same_skbs m m') \<and>
    (case xs of
       [] \<Rightarrow> qdisc_dequeue_head (m, sch) = (0, m, sch) \<and> qdisc_peek_head sch = 0 \<and>
         raw_qdisc_queue_drop_head (m, sch, qd_q sch, f) = (0, m, sch, qd_q sch, f)
     | x # ys \<Rightarrow> qdisc_peek_head sch = x \<and>
         (\<exists>sch'. qdisc_dequeue_head (m, sch) = (x, set_next x 0 m, sch') \<and> qdisc_rep (set_next x 0 m) sch' ys) \<and>
         (\<exists>m' sch' qh'. raw_qdisc_queue_drop_head (m, sch, qd_q sch, f) = (qdisc_pkt_len m x, m', sch', qh', x) \<and>
            qdisc_rep m' (sch'\<lparr>qd_q := qh'\<rparr>) ys \<and> skb_seg m' x (x # fs) 0)) \<and>
    (\<exists>m' sch'. qdisc_drop p (m, sch, f) = (NET_XMIT_DROP, m', sch', p) \<and> qdisc_rep m' sch' xs \<and>
       skb_seg m' p (p # fs) 0 \<and> qs_drops (qd_qstats sch') = qs_drops (qd_qstats sch) + 1) \<and>
    (\<forall>ss l e. skb_seg m p (ss @ [l]) e \<and> distinct (ss @ [l]) \<and> set (ss @ [l]) \<inter> set fs = {} \<and> o_prev (m p) = l \<longrightarrow>
       (\<exists>m' sch'. qdisc_drop_all p (m, sch, f) = (NET_XMIT_DROP, m', sch', p) \<and> skb_seg m' p (ss @ l # fs) 0)) \<and>
    (o_prev (m p) = 0 \<longrightarrow> qdisc_drop_all p (m, sch, f) = qdisc_drop p (m, sch, f)) \<and>
    (\<exists>sch'. qdisc_reset_queue (sch, []) = (sch', if xs = [] then [] else [(hd xs, last xs)]) \<and> qdisc_rep m sch' [])"
proof (intro conjI)
  show "\<exists>m' sch'. qdisc_enqueue_tail p (m, sch) = (NET_XMIT_SUCCESS, m', sch') \<and>
      qdisc_rep m' sch' (xs @ [p]) \<and> same_skbs m m'"
    using qdisc_enqueue_tail_rep [OF assms(1,4,5,8)] by blast
  show "case raw_qdisc_enqueue_head p (m, qd_q sch) of (m', qh') \<Rightarrow> qrep m' qh' (p # xs) \<and> same_skbs m m'"
    using enqueue_head_rep [of m "qd_q sch" xs p] assms(1,4,5) by (auto simp: qdisc_rep_def)
  show "case xs of [] \<Rightarrow> qdisc_dequeue_head (m, sch) = (0, m, sch) \<and> qdisc_peek_head sch = 0 \<and>
         raw_qdisc_queue_drop_head (m, sch, qd_q sch, f) = (0, m, sch, qd_q sch, f)
     | x # ys \<Rightarrow> qdisc_peek_head sch = x \<and>
         (\<exists>sch'. qdisc_dequeue_head (m, sch) = (x, set_next x 0 m, sch') \<and> qdisc_rep (set_next x 0 m) sch' ys) \<and>
         (\<exists>m' sch' qh'. raw_qdisc_queue_drop_head (m, sch, qd_q sch, f) = (qdisc_pkt_len m x, m', sch', qh', x) \<and>
            qdisc_rep m' (sch'\<lparr>qd_q := qh'\<rparr>) ys \<and> skb_seg m' x (x # fs) 0)"
  proof (cases xs)
    case Nil
    with assms(1) qdisc_dequeue_empty qdisc_queue_drop_empty qdisc_peek_rep [OF assms(1)] show ?thesis by simp
  next
    case (Cons x ys)
    with assms(1-3) qdisc_dequeue_rep [of m sch x ys] qdisc_queue_drop_rep [of m sch x ys f fs]
      qdisc_peek_rep [OF assms(1)]
    show ?thesis by auto
  qed
  show "\<exists>m' sch'. qdisc_drop p (m, sch, f) = (NET_XMIT_DROP, m', sch', p) \<and> qdisc_rep m' sch' xs \<and>
       skb_seg m' p (p # fs) 0 \<and> qs_drops (qd_qstats sch') = qs_drops (qd_qstats sch) + 1"
    using qdisc_drop_rep [OF assms(1,2,4-6)] by (auto simp: qdisc_qstats_drop_def qstats_drop_inc_def)
  show "\<forall>ss l e. skb_seg m p (ss @ [l]) e \<and> distinct (ss @ [l]) \<and> set (ss @ [l]) \<inter> set fs = {} \<and> o_prev (m p) = l \<longrightarrow>
       (\<exists>m' sch'. qdisc_drop_all p (m, sch, f) = (NET_XMIT_DROP, m', sch', p) \<and> skb_seg m' p (ss @ l # fs) 0)"
    using qdisc_drop_all_rep [OF assms(2)] by metis
  show "o_prev (m p) = 0 \<longrightarrow> qdisc_drop_all p (m, sch, f) = qdisc_drop p (m, sch, f)"
    by (simp add: qdisc_drop_all_single)
  show "\<exists>sch'. qdisc_reset_queue (sch, []) = (sch', if xs = [] then [] else [(hd xs, last xs)]) \<and> qdisc_rep m sch' []"
    using qdisc_reset_rep [OF assms(1,7), of "[]"] by (metis append_Nil prod.collapse)
qed

text \<open>A queue of two packets of 100 and 200 bytes, one packet already dropped and one to be added.\<close>

definition sample_obj :: "ptr \<Rightarrow> u32 \<Rightarrow> u32 \<Rightarrow> skb_obj" where
  "sample_obj nxt len t =
     \<lparr>o_skb = sample_frame, o_next = nxt, o_prev = 0, o_pkt_len = len, o_enqueue_time = t, o_mem_usage = 0,
       o_gso_size = 0, o_gso_segs = 0\<rparr>"

definition sample_skbs :: skb_store where
  "sample_skbs = (\<lambda>_. sample_obj 0 0 0)
     (0x10 := sample_obj 0x20 100 1000, 0x20 := sample_obj 0 200 2000, 0x30 := sample_obj 0 300 0, 0x40 := sample_obj 0 400 3000)"

definition sample_qdisc :: qdisc where
  "sample_qdisc =
     \<lparr>qd_flags = 0, qd_limit = 1000, qd_q = \<lparr>qh_head = 0x10, qh_tail = 0x20, qh_qlen = 2\<rparr>,
       qd_bstats = \<lparr>bs_bytes = 0, bs_packets = 0\<rparr>,
       qd_qstats = \<lparr>qs_qlen = 0, qs_backlog = 300, qs_drops = 1, qs_requeues = 0, qs_overlimits = 0\<rparr>,
       qd_empty = False\<rparr>"

lemma sample_qdisc_rep: "qdisc_rep sample_skbs sample_qdisc [0x10, 0x20]" "skb_seg sample_skbs 0x30 [0x30] 0"
  by (simp_all add: qdisc_rep_def qrep_def sample_skbs_def sample_qdisc_def sample_obj_def qdisc_pkt_len_def)

theorem qdisc_queue_operations_witness:
  "\<exists>m' sch'. qdisc_enqueue_tail 0x40 (sample_skbs, sample_qdisc) = (NET_XMIT_SUCCESS, m', sch') \<and>
     qdisc_rep m' sch' [0x10, 0x20, 0x40]"
  using qdisc_queue_operations [of sample_skbs sample_qdisc "[0x10, 0x20]" "0x30" "[0x30]" "0x40"] sample_qdisc_rep
  by auto

section \<open>Running a discipline without its lock\<close>

lemma all_idle: "\<forall>t. pcs t = Idle \<Longrightarrow> some_at C pcs \<longleftrightarrow> Idle \<in> C"
  by (simp add: some_at_def)

text \<open>
  C22. Whatever the order in which the processors execute the steps of \<open>qdisc_run\<close>, at most one of them is in
  \<open>__qdisc_run\<close> at a time and the sequence count is odd exactly while one is inside; no packet is left behind: when
  no processor is in \<open>qdisc_run\<close> and no run is scheduled, the queue is empty, the lock free and the flag clear.  The
  steps of a processor that is not interrupted are those of \<open>qdisc_run_begin\<close> and \<open>qdisc_run_end\<close>.
\<close>

theorem qdisc_run_serves_all:
  assumes "run_reach part fin (s, pcs)" and "drains fin"
  shows "(\<forall>t u. pcs t = Running \<and> pcs u = Running \<longrightarrow> t = u) \<and>
    (odd (run_running s) \<longleftrightarrow> (\<exists>t. pcs t = Running \<or> pcs t = Leave)) \<and>
    ((\<forall>t. pcs t = Idle) \<and> \<not> run_sched s \<longrightarrow> run_queue s = [] \<and> \<not> run_seqlock s \<and> \<not> run_missed s) \<and>
    (run_action ^^ 5) (Trylock1, s) = (if fst (qdisc_run_begin s) then Running else Idle, snd (qdisc_run_begin s)) \<and>
    (run_action ^^ 5) (Leave, s) = (Idle, qdisc_run_end s)"
proof -
  have inv: "run_inv (s, pcs)"
    using run_reach_inv [OF assms] .
  then have "run_nolock s" and "excl pcs"
    by (simp_all add: run_inv_def)
  then have "\<forall>t u. pcs t = Running \<and> pcs u = Running \<longrightarrow> t = u"
    by (metis excl_def holding_def insertCI other_at_def)
  moreover have "odd (run_running s) \<longleftrightarrow> (\<exists>t. pcs t = Running \<or> pcs t = Leave)"
    using inv by (simp add: run_inv_def some_at_def)
  moreover have "run_queue s = [] \<and> \<not> run_seqlock s \<and> \<not> run_missed s" if "\<forall>t. pcs t = Idle" and "\<not> run_sched s"
    using inv that(2) unfolding run_inv_def prod.case all_idle [OF that(1)] holding_def by auto
  ultimately show ?thesis
    using run_begin_steps [OF \<open>run_nolock s\<close>] run_end_steps [OF \<open>run_nolock s\<close>]
    by (intro conjI impI) (assumption | simp)+
qed

text \<open>A run of three processors: the second finds the lock taken and leaves the flag, the third serves the scheduled run.\<close>

definition empties :: "nat list \<Rightarrow> nat list \<Rightarrow> bool \<Rightarrow> bool" where
  "empties q q' r \<longleftrightarrow> q' = [] \<and> \<not> r"

definition serve :: "nat \<Rightarrow> nat qrun \<times> (nat \<Rightarrow> run_pc) \<Rightarrow> nat qrun \<times> (nat \<Rightarrow> run_pc)" where
  "serve t = (\<lambda>(s, pcs).
     if pcs t = Running
     then (s\<lparr>run_queue := [], run_sched := run_sched s \<or> False, run_empty := True\<rparr>, pcs(t := Leave))
     else case run_action (pcs t, s) of (pc, s') \<Rightarrow> (s', pcs(t := pc)))"

definition sample_run :: "nat qrun" where
  "sample_run = \<lparr>run_flags = 0x100, run_seqlock = False, run_missed = False, run_running = 0, run_empty = True,
     run_sched = False, run_queue = []\<rparr>"

lemma reach_serve: "run_reach part empties st \<Longrightarrow> run_reach part empties (fold serve ts st)"
proof (induction ts arbitrary: st)
  case (Cons t ts)
  obtain s pcs where st: "st = (s, pcs)"
    by (cases st)
  have "run_step part empties st (serve t st)"
  proof (cases "pcs t = Running")
    case True
    then have "run_step part empties (s, pcs)
        (s\<lparr>run_queue := [], run_sched := run_sched s \<or> False, run_empty := True\<rparr>, pcs(t := Leave))"
      by (rule body_fin) (simp add: empties_def)
    with True st show ?thesis by (simp add: serve_def)
  next
    case False
    then show ?thesis
      by (cases "run_action (pcs t, s)") (simp add: serve_def st act)
  qed
  with Cons show ?case
    by (simp add: run_reach.step)
qed simp

lemma reach_start:
  assumes "run_reach part fin (s, pcs)" and "pcs t = Idle"
  shows "run_reach part fin (s\<lparr>run_queue := run_queue s @ [p]\<rparr>, pcs(t := Trylock1))"
    and "run_sched s \<Longrightarrow> run_reach part fin (s\<lparr>run_sched := False\<rparr>, pcs(t := Trylock1))"
  using assms by (auto intro: run_reach.step xmit net_tx)

lemma idle_upd: "(\<lambda>_. Idle)(t := Idle) = (\<lambda>_. Idle)"
  by (simp add: fun_eq_iff)

lemma sample_runs:
  fixes part :: "nat list \<Rightarrow> nat list \<Rightarrow> bool"
  shows "run_reach part empties (sample_run\<lparr>run_queue := [8], run_running := 2, run_sched := True, run_empty := True\<rparr>, \<lambda>_. Idle)"
    (is "?S1")
    and "run_reach part empties (sample_run\<lparr>run_running := 4\<rparr>, \<lambda>_. Idle)" (is "?S2")
proof -
  have "run_reach part empties (sample_run, \<lambda>_. Idle)"
    by (rule init) (simp add: run_init_def sample_run_def run_nolock_def TCQ_F_NOLOCK_def)
  note a = reach_serve [OF reach_start(1) [OF this, where t = 0 and p = 7], of "[0, 0, 0]", simplified]
  have "run_reach part empties (sample_run\<lparr>run_running := 1, run_seqlock := True\<rparr>, (\<lambda>_. Idle)(0 := Leave))"
    using a by (simp add: serve_def sample_run_def spin_trylock_smp_def raw_write_seqcount_begin_def)
  note b = reach_serve [OF reach_start(1) [OF this, where t = 1 and p = 8], of "[1, 1, 1, 1, 0, 0, 0, 0, 0]", simplified]
  show S1: ?S1
    using b
    by (simp add: idle_upd serve_def sample_run_def spin_trylock_smp_def write_seqcount_end_def netif_schedule_def)
  note c = reach_serve [OF reach_start(2) [OF S1, where t = 2], of "[2, 2, 2, 2, 2, 2]", simplified]
  show ?S2
    using c
    by (simp add: idle_upd serve_def sample_run_def spin_trylock_smp_def raw_write_seqcount_begin_def write_seqcount_end_def)
qed

theorem qdisc_run_serves_all_witness:
  "\<exists>s pcs. run_reach (\<lambda>_ _. False) empties (s, pcs) \<and> run_running s = 4 \<and> run_queue s = [] \<and> \<not> run_missed s"
  using sample_runs(2) [of "\<lambda>_ _. False"]
    qdisc_run_serves_all [of "\<lambda>_ _. False" empties "sample_run\<lparr>run_running := 4\<rparr>" "\<lambda>_. Idle"]
  by (intro exI [of _ "sample_run\<lparr>run_running := 4\<rparr>"] exI [of _ "\<lambda>_. Idle"])
    (simp add: drains_def empties_def sample_run_def)

end
