(* ===== verification/Codel.thy ===== *)
theory Codel
  imports Complex_Main Qdisc
begin

text \<open>
  Controlled delay queue management, \<open>net/codel.h\<close> and \<open>net/codel_impl.h\<close>, with \<open>reciprocal_scale\<close> of
  \<open>linux/math.h\<close> and the accessors of \<open>net/codel_qdisc.h\<close>: the clock in units of 1024 ns, the square root kept
  as a 16 bit fixed point number, the decision to drop and the dequeue operation with its drop loop.

  The packets live in the store of \<^theory_text>\<open>Qdisc\<close>.  The callbacks and the variables \<open>*backlog\<close> and \<open>ctx\<close> points to are
  the caller's: a record of functions on the store and a context of any type.  Marking is the \<open>INET_ECN_set_ce\<close> of
  \<^theory_text>\<open>Ecn\<close>.  \<open>ktime_get_ns\<close> is not part of the headers: its value is an argument.  A result \<open>None\<close> of
  \<open>codel_dequeue\<close> means that it does not return, because it loops forever or reads through \<open>NULL\<close>.
\<close>

section \<open>Time\<close>

definition CODEL_SHIFT :: nat where "CODEL_SHIFT = 10"

definition NSEC_PER_MSEC :: u64 where "NSEC_PER_MSEC = 1000000"
definition NSEC_PER_USEC :: u64 where "NSEC_PER_USEC = 1000"

definition MS2TIME :: "u64 \<Rightarrow> u64" where
  "MS2TIME a = drop_bit CODEL_SHIFT (a * NSEC_PER_MSEC)"

definition codel_get_time :: "u64 \<Rightarrow> u32" where
  "codel_get_time ktime_get_ns = ucast (drop_bit CODEL_SHIFT ktime_get_ns)"

definition codel_time_after :: "u32 \<Rightarrow> u32 \<Rightarrow> bool" where
  "codel_time_after a b \<longleftrightarrow> 0 < sint (a - b)"

definition codel_time_before :: "u32 \<Rightarrow> u32 \<Rightarrow> bool" where
  "codel_time_before a b = codel_time_after b a"

definition codel_time_after_eq :: "u32 \<Rightarrow> u32 \<Rightarrow> bool" where
  "codel_time_after_eq a b \<longleftrightarrow> 0 \<le> sint (a - b)"

definition codel_time_before_eq :: "u32 \<Rightarrow> u32 \<Rightarrow> bool" where
  "codel_time_before_eq a b = codel_time_after_eq b a"

definition codel_time_to_us :: "u32 \<Rightarrow> u32" where
  "codel_time_to_us val = (let valns = push_bit CODEL_SHIFT (ucast val :: u64) in ucast (valns div NSEC_PER_USEC))"

section \<open>Parameters, variables and statistics\<close>

record codel_params =
  cp_target :: u32
  cp_ce_threshold :: u32
  cp_interval :: u32
  cp_mtu :: u32
  cp_ecn :: bool

record codel_vars =
  cv_count :: u32
  cv_lastcount :: u32
  cv_dropping :: bool
  cv_rec_inv_sqrt :: u16
  cv_first_above_time :: u32
  cv_drop_next :: u32
  cv_ldelay :: u32

record codel_stats =
  cs_maxpacket :: u32
  cs_drop_count :: u32
  cs_drop_len :: u32
  cs_ecn_mark :: u32
  cs_ce_mark :: u32

definition REC_INV_SQRT_SHIFT :: nat where "REC_INV_SQRT_SHIFT = 32 - 8 * 2"

definition CODEL_DISABLED_THRESHOLD :: u32 where "CODEL_DISABLED_THRESHOLD = 0x7FFFFFFF"

definition codel_params_init :: "codel_params \<Rightarrow> codel_params" where
  "codel_params_init params =
     params\<lparr>cp_interval := ucast (MS2TIME 100), cp_target := ucast (MS2TIME 5),
            cp_ce_threshold := CODEL_DISABLED_THRESHOLD, cp_ecn := False\<rparr>"

definition codel_vars_init :: "codel_vars \<Rightarrow> codel_vars" where
  "codel_vars_init vars =
     \<lparr>cv_count = 0, cv_lastcount = 0, cv_dropping = False, cv_rec_inv_sqrt = 0, cv_first_above_time = 0,
       cv_drop_next = 0, cv_ldelay = 0\<rparr>"

definition codel_stats_init :: "codel_stats \<Rightarrow> codel_stats" where
  "codel_stats_init stats = stats\<lparr>cs_maxpacket := 0\<rparr>"

section \<open>The control law\<close>

definition codel_Newton_step :: "codel_vars \<Rightarrow> codel_vars" where
  "codel_Newton_step vars =
     (let invsqrt = push_bit REC_INV_SQRT_SHIFT (ucast (cv_rec_inv_sqrt vars) :: u32);
          invsqrt2 = ucast (drop_bit 32 ((ucast invsqrt :: u64) * ucast invsqrt)) :: u32;
          val = push_bit 32 3 - (ucast (cv_count vars) :: u64) * ucast invsqrt2;
          val = drop_bit 2 val;
          val = drop_bit (32 - 2 + 1) (val * ucast invsqrt)
      in vars\<lparr>cv_rec_inv_sqrt := ucast (drop_bit REC_INV_SQRT_SHIFT val)\<rparr>)"

definition reciprocal_scale :: "u32 \<Rightarrow> u32 \<Rightarrow> u32" where
  "reciprocal_scale val ep_ro = ucast (drop_bit 32 ((ucast val :: u64) * ucast ep_ro))"

definition codel_control_law :: "u32 \<Rightarrow> u32 \<Rightarrow> u32 \<Rightarrow> u32" where
  "codel_control_law t interval rec_inv_sqrt =
     t + reciprocal_scale interval (push_bit REC_INV_SQRT_SHIFT rec_inv_sqrt)"

section \<open>Dequeueing\<close>

type_synonym 'c world = "skb_store \<times> 'c"

record 'c codel_ops =
  op_byteorder :: byteorder
  op_copy_bits :: copy_bits
  skb_len_func :: "skb_store \<Rightarrow> ptr \<Rightarrow> u32"
  skb_time_func :: "skb_store \<Rightarrow> ptr \<Rightarrow> u32"
  drop_func :: "ptr \<Rightarrow> 'c world \<Rightarrow> 'c world"
  dequeue_func :: "codel_vars \<Rightarrow> 'c world \<Rightarrow> ptr \<times> codel_vars \<times> 'c world"
  op_backlog :: "'c world \<Rightarrow> u32"

record 'c codel_st =
  st_vars :: codel_vars
  st_stats :: codel_stats
  st_world :: "'c world"

definition codel_get_enqueue_time :: "skb_store \<Rightarrow> ptr \<Rightarrow> u32" where
  "codel_get_enqueue_time m skb = o_enqueue_time (m skb)"

definition codel_set_enqueue_time :: "u64 \<Rightarrow> ptr \<Rightarrow> skb_store \<Rightarrow> skb_store" where
  "codel_set_enqueue_time ktime_get_ns skb m = m(skb := (m skb)\<lparr>o_enqueue_time := codel_get_time ktime_get_ns\<rparr>)"

definition codel_should_drop ::
    "'c codel_ops \<Rightarrow> codel_params \<Rightarrow> ptr \<Rightarrow> u32 \<Rightarrow> 'c codel_st \<Rightarrow> bool \<times> 'c codel_st" where
  "codel_should_drop ops params skb now st =
     (let vars = st_vars st; stats = st_stats st; (m, ctx) = st_world st
      in if skb = 0 then (False, st\<lparr>st_vars := vars\<lparr>cv_first_above_time := 0\<rparr>\<rparr>)
         else
           let skb_len = skb_len_func ops m skb;
               vars = vars\<lparr>cv_ldelay := now - skb_time_func ops m skb\<rparr>;
               stats = (if skb_len > cs_maxpacket stats then stats\<lparr>cs_maxpacket := skb_len\<rparr> else stats)
           in if codel_time_before (cv_ldelay vars) (cp_target params) \<or> op_backlog ops (m, ctx) \<le> cp_mtu params
              then (False, st\<lparr>st_vars := vars\<lparr>cv_first_above_time := 0\<rparr>, st_stats := stats\<rparr>)
              else if cv_first_above_time vars = 0
              then (False, st\<lparr>st_vars := vars\<lparr>cv_first_above_time := now + cp_interval params\<rparr>, st_stats := stats\<rparr>)
              else (codel_time_after now (cv_first_above_time vars), st\<lparr>st_vars := vars, st_stats := stats\<rparr>))"

text \<open>The statements the branches of \<open>codel_dequeue\<close> share: marking, dropping and taking a packet.\<close>

definition skb_set_ce :: "'c codel_ops \<Rightarrow> ptr \<Rightarrow> 'c codel_st \<Rightarrow> bool \<times> 'c codel_st" where
  "skb_set_ce ops skb st =
     (let (m, ctx) = st_world st;
          (ret, skb') = INET_ECN_set_ce (op_byteorder ops) (op_copy_bits ops) (o_skb (m skb))
      in (ret \<noteq> 0, st\<lparr>st_world := (m(skb := (m skb)\<lparr>o_skb := skb'\<rparr>), ctx)\<rparr>))"

definition codel_drop :: "'c codel_ops \<Rightarrow> ptr \<Rightarrow> 'c codel_st \<Rightarrow> 'c codel_st" where
  "codel_drop ops skb st =
     (let stats = st_stats st;
          stats = stats\<lparr>cs_drop_len := cs_drop_len stats + skb_len_func ops (fst (st_world st)) skb\<rparr>;
          w = drop_func ops skb (st_world st);
          stats = stats\<lparr>cs_drop_count := cs_drop_count stats + 1\<rparr>
      in st\<lparr>st_stats := stats, st_world := w\<rparr>)"

definition codel_take :: "'c codel_ops \<Rightarrow> 'c codel_st \<Rightarrow> ptr \<times> 'c codel_st" where
  "codel_take ops st =
     (case dequeue_func ops (st_vars st) (st_world st) of (skb, vars, w) \<Rightarrow>
        (skb, st\<lparr>st_vars := vars, st_world := w\<rparr>))"

definition set_vars :: "(codel_vars \<Rightarrow> codel_vars) \<Rightarrow> 'c codel_st \<Rightarrow> 'c codel_st" where
  "set_vars f st = st\<lparr>st_vars := f (st_vars st)\<rparr>"

definition codel_reschedule :: "codel_params \<Rightarrow> codel_vars \<Rightarrow> codel_vars" where
  "codel_reschedule params vars =
     vars\<lparr>cv_drop_next := codel_control_law (cv_drop_next vars) (cp_interval params) (ucast (cv_rec_inv_sqrt vars))\<rparr>"

definition count_ecn_mark :: "'c codel_st \<Rightarrow> 'c codel_st" where
  "count_ecn_mark st = st\<lparr>st_stats := (st_stats st)\<lparr>cs_ecn_mark := cs_ecn_mark (st_stats st) + 1\<rparr>\<rparr>"

definition count_ce_mark :: "'c codel_st \<Rightarrow> 'c codel_st" where
  "count_ce_mark st = st\<lparr>st_stats := (st_stats st)\<lparr>cs_ce_mark := cs_ce_mark (st_stats st) + 1\<rparr>\<rparr>"

text \<open>\<open>params->ecn && INET_ECN_set_ce(skb)\<close>, which marks only if its first operand is true.\<close>

definition codel_try_mark :: "'c codel_ops \<Rightarrow> codel_params \<Rightarrow> ptr \<Rightarrow> 'c codel_st \<Rightarrow> bool \<times> 'c codel_st" where
  "codel_try_mark ops params skb st = (if cp_ecn params then skb_set_ce ops skb st else (False, st))"

text \<open>The \<open>while\<close> loop, with the \<open>goto end\<close> behind a mark.\<close>

partial_function (option) codel_drop_loop ::
    "'c codel_ops \<Rightarrow> codel_params \<Rightarrow> u32 \<Rightarrow> ptr \<Rightarrow> 'c codel_st \<Rightarrow> (ptr \<times> 'c codel_st) option" where
  "codel_drop_loop ops params now skb st =
     (if cv_dropping (st_vars st) \<and> codel_time_after_eq now (cv_drop_next (st_vars st)) then
        if skb = 0 then None
        else
          let st = set_vars (\<lambda>v. codel_Newton_step (v\<lparr>cv_count := cv_count v + 1\<rparr>)) st;
              (marked, st) = codel_try_mark ops params skb st
          in if marked then Some (skb, set_vars (codel_reschedule params) (count_ecn_mark st))
             else
               let (skb, st) = codel_take ops (codel_drop ops skb st);
                   (drop, st) = codel_should_drop ops params skb now st
               in codel_drop_loop ops params now skb
                    (set_vars (if \<not> drop then \<lambda>v. v\<lparr>cv_dropping := False\<rparr> else codel_reschedule params) st)
      else Some (skb, st))"

text \<open>Entering the dropping state.\<close>

definition codel_start_count :: "codel_params \<Rightarrow> u32 \<Rightarrow> codel_vars \<Rightarrow> codel_vars" where
  "codel_start_count params now vars =
     (let vars = vars\<lparr>cv_dropping := True\<rparr>;
          delta = cv_count vars - cv_lastcount vars;
          vars = (if delta > 1 \<and> codel_time_before (now - cv_drop_next vars) (16 * cp_interval params)
                  then codel_Newton_step (vars\<lparr>cv_count := delta\<rparr>)
                  else vars\<lparr>cv_count := 1, cv_rec_inv_sqrt := ucast (drop_bit REC_INV_SQRT_SHIFT (NOT 0 :: u32))\<rparr>);
          vars = vars\<lparr>cv_lastcount := cv_count vars\<rparr>
      in vars\<lparr>cv_drop_next := codel_control_law now (cp_interval params) (ucast (cv_rec_inv_sqrt vars))\<rparr>)"

definition codel_enter ::
    "'c codel_ops \<Rightarrow> codel_params \<Rightarrow> u32 \<Rightarrow> ptr \<Rightarrow> 'c codel_st \<Rightarrow> ptr \<times> 'c codel_st" where
  "codel_enter ops params now skb st =
     (let (marked, st) = codel_try_mark ops params skb st;
          (skb, st) =
            (if marked then (skb, count_ecn_mark st)
             else
               let (skb, st) = codel_take ops (codel_drop ops skb st);
                   (drop, st) = codel_should_drop ops params skb now st
               in (skb, st))
      in (skb, set_vars (codel_start_count params now) st))"

text \<open>The label \<open>end\<close>.\<close>

definition codel_end :: "'c codel_ops \<Rightarrow> codel_params \<Rightarrow> ptr \<times> 'c codel_st \<Rightarrow> ptr \<times> 'c codel_st" where
  "codel_end ops params = (\<lambda>(skb, st).
     if skb \<noteq> 0 \<and> codel_time_after (cv_ldelay (st_vars st)) (cp_ce_threshold params)
     then case skb_set_ce ops skb st of (ok, st) \<Rightarrow> (skb, if ok then count_ce_mark st else st)
     else (skb, st))"

definition codel_dequeue ::
    "'c codel_ops \<Rightarrow> codel_params \<Rightarrow> u64 \<Rightarrow> 'c codel_st \<Rightarrow> (ptr \<times> 'c codel_st) option" where
  "codel_dequeue ops params ktime_get_ns st =
     (let (skb, st) = codel_take ops st
      in if skb = 0 then Some (skb, set_vars (\<lambda>v. v\<lparr>cv_dropping := False\<rparr>) st)
         else
           let now = codel_get_time ktime_get_ns;
               (drop, st) = codel_should_drop ops params skb now st
           in map_option (codel_end ops params)
                (if cv_dropping (st_vars st) then
                   if \<not> drop then Some (skb, set_vars (\<lambda>v. v\<lparr>cv_dropping := False\<rparr>) st)
                   else if codel_time_after_eq now (cv_drop_next (st_vars st))
                   then codel_drop_loop ops params now skb st
                   else Some (skb, st)
                 else if drop then Some (codel_enter ops params now skb st)
                 else Some (skb, st)))"

end
