(* ===== verification/Codel_Law.thy ===== *)
theory Codel_Law
  imports Codel
begin

text \<open>
  The arithmetic of the control law: one Newton step on the 16 bit reciprocal square root as an exact
  expression over the natural numbers, that it never overshoots, that it converges quadratically, and the
  distance to the next drop.
\<close>

section \<open>Words as natural numbers\<close>

lemma unat_mult_small:
  "unat x * unat y < 2 ^ LENGTH('a) \<Longrightarrow> unat (x * y :: 'a::len word) = unat x * unat y"
  by (simp add: unat_mult_lem)

lemma unat_push_small:
  "unat x * 2 ^ n < 2 ^ LENGTH('a) \<Longrightarrow> unat (push_bit n x :: 'a::len word) = unat x * 2 ^ n"
  by (subst unsigned_push_bit_eq) (simp add: push_bit_eq_mult take_bit_nat_eq_self)

lemma unat_drop: "unat (drop_bit n x) = unat x div 2 ^ n"
  by (subst unat_drop_bit_eq) (rule drop_bit_eq_div)

lemma u16_less: "unat (r :: u16) < 65536"
  using unsigned_less [of r] by simp

lemma u32_less: "unat (r :: u32) < 4294967296"
  using unsigned_less [of r] by simp

section \<open>One step\<close>

definition newton_nat :: "nat \<Rightarrow> nat \<Rightarrow> nat" where
  "newton_nat c r = (3 * 2 ^ 32 - c * r\<^sup>2) div 4 * r div 2 ^ 31"

lemma newton_step_exact:
  assumes "unat (cv_count v) * (unat (cv_rec_inv_sqrt v))\<^sup>2 \<le> 3 * 2 ^ 32"
  shows "unat (cv_rec_inv_sqrt (codel_Newton_step v)) =
    newton_nat (unat (cv_count v)) (unat (cv_rec_inv_sqrt v)) mod 2 ^ 16"
proof -
  let ?r = "unat (cv_rec_inv_sqrt v)" and ?c = "unat (cv_count v)"
  define invsqrt where "invsqrt = push_bit 16 (ucast (cv_rec_inv_sqrt v) :: u32)"
  define sq where "sq = (ucast (drop_bit 32 ((ucast invsqrt :: u64) * ucast invsqrt)) :: u32)"
  define val where "val = push_bit 32 3 - (ucast (cv_count v) :: u64) * ucast sq"
  have r: "?r < 65536"
    by (rule u16_less)
  then have r2: "?r * ?r \<le> 65535 * 65535"
    by (intro mult_le_mono) simp_all
  have inv: "unat (ucast invsqrt :: u64) = ?r * 2 ^ 16"
    using r by (simp add: invsqrt_def unat_push_small unat_ucast_up)
  have "unat ((ucast invsqrt :: u64) * ucast invsqrt) = ?r * ?r * 2 ^ 32"
    using r2 by (subst unat_mult_small) (simp_all add: inv)
  then have "unat sq = ?r * ?r"
    using r2 by (simp add: sq_def unsigned_ucast_eq unat_drop take_bit_nat_eq_self)
  then have prod: "unat ((ucast (cv_count v) :: u64) * ucast sq) = ?c * ?r\<^sup>2"
    using assms by (subst unat_mult_small) (simp_all add: unat_ucast_up power2_eq_square)
  have "unat val = 3 * 2 ^ 32 - ?c * ?r\<^sup>2"
    unfolding val_def using assms prod by (subst unat_sub) (simp_all add: word_le_nat_alt)
  then have q: "unat (drop_bit 2 val) = (3 * 2 ^ 32 - ?c * ?r\<^sup>2) div 4"
    by (simp add: unat_drop)
  have "unat (drop_bit 2 val) * (?r * 2 ^ 16) \<le> (3 * 2 ^ 30) * (65535 * 2 ^ 16)"
    using r unfolding q by (intro mult_le_mono) simp_all
  then have "unat (drop_bit 2 val * ucast invsqrt) = (3 * 2 ^ 32 - ?c * ?r\<^sup>2) div 4 * (?r * 2 ^ 16)"
    by (subst unat_mult_small) (simp_all only: inv q, simp)
  then have "unat (drop_bit 16 (drop_bit 31 (drop_bit 2 val * ucast invsqrt))) =
      (3 * 2 ^ 32 - ?c * ?r\<^sup>2) div 4 * ?r * 2 ^ 16 div (2 ^ 16 * 2 ^ 31)"
    by (simp only: unat_drop div_mult2_eq [symmetric] mult.assoc mult.commute [of "2 ^ 31"])
  also have "\<dots> = newton_nat ?c ?r"
    by (simp add: newton_nat_def mult.commute)
  finally have "unat (drop_bit 16 (drop_bit 31 (drop_bit 2 val * ucast invsqrt))) = newton_nat ?c ?r" .
  moreover have "cv_rec_inv_sqrt (codel_Newton_step v) = ucast (drop_bit 16 (drop_bit 31 (drop_bit 2 val * ucast invsqrt)))"
    unfolding val_def sq_def invsqrt_def by (simp add: codel_Newton_step_def REC_INV_SQRT_SHIFT_def Let_def)
  ultimately show ?thesis
    by (simp only: unsigned_ucast_eq take_bit_eq_mod) simp
qed

text \<open>With \<open>y = c * r\<^sup>2\<close> and \<open>N = 2\<^sup>3\<^sup>2\<close>, \<open>4 * N\<^sup>3 - y * (3 * N - y)\<^sup>2 = (N - y)\<^sup>2 * (4 * N - y)\<close>.\<close>

lemma newton_nat_le_real:
  assumes "c * r\<^sup>2 \<le> 3 * 2 ^ 32"
  shows "real (newton_nat c r) * 2 ^ 33 \<le> real r * (3 * 2 ^ 32 - real c * (real r)\<^sup>2)"
proof -
  have "newton_nat c r * 2 ^ 33 \<le> ((3 * 2 ^ 32 - c * r\<^sup>2) div 4 * r) * 4"
    unfolding newton_nat_def using div_times_less_eq_dividend [of "(3 * 2 ^ 32 - c * r\<^sup>2) div 4 * r" "2 ^ 31"]
    by (simp add: mult.commute)
  also have "\<dots> \<le> (3 * 2 ^ 32 - c * r\<^sup>2) * r"
    using div_times_less_eq_dividend [of "3 * 2 ^ 32 - c * r\<^sup>2" 4] by (simp add: mult.commute mult.left_commute)
  finally have "real (newton_nat c r * 2 ^ 33) \<le> real ((3 * 2 ^ 32 - c * r\<^sup>2) * r)"
    by (simp only: of_nat_le_iff)
  then show ?thesis
    using assms by (simp add: of_nat_diff mult.commute)
qed

lemma newton_never_overshoots:
  assumes "c * r\<^sup>2 \<le> 3 * 2 ^ 32"
  shows "c * (newton_nat c r)\<^sup>2 \<le> 2 ^ 32"
proof -
  let ?N = "2 ^ 32 :: real" and ?y = "real c * (real r)\<^sup>2" and ?n = "real (newton_nat c r)"
  have y: "0 \<le> ?y" "?y \<le> 3 * ?N"
    using assms by (simp_all flip: of_nat_power of_nat_mult)
  have "(?n * 2 ^ 33)\<^sup>2 \<le> (real r * (3 * ?N - ?y))\<^sup>2"
    using newton_nat_le_real [OF assms] by (intro power_mono) simp_all
  then have "real c * (?n * 2 ^ 33)\<^sup>2 \<le> real c * (real r * (3 * ?N - ?y))\<^sup>2"
    by (rule mult_left_mono) simp
  also have "\<dots> = ?y * (3 * ?N - ?y)\<^sup>2"
    by (simp add: power_mult_distrib)
  also have "\<dots> = 4 * ?N ^ 3 - (?N - ?y)\<^sup>2 * (4 * ?N - ?y)"
    by (simp add: power2_eq_square power3_eq_cube algebra_simps)
  also have "\<dots> \<le> 4 * ?N ^ 3"
    using y by simp
  finally have "real c * ?n\<^sup>2 * 2 ^ 66 \<le> 2 ^ 32 * 2 ^ 66"
    by (simp add: power_mult_distrib)
  then have "real c * ?n\<^sup>2 \<le> 2 ^ 32"
    by (simp only: mult_le_cancel_right_pos zero_less_power zero_less_numeral)
  then show ?thesis
    by (metis (no_types, lifting) of_nat_le_iff of_nat_mult of_nat_numeral of_nat_power)
qed

lemma newton_fits:
  assumes "c * r\<^sup>2 \<le> 3 * 2 ^ 32" and "0 < c" and "r < 65536"
  shows "newton_nat c r < 65536"
proof -
  let ?M = "65536 :: real"
  have r: "real r < ?M"
    using assms(3) by simp
  have "real (newton_nat c r) * 2 ^ 33 \<le> real r * (3 * 2 ^ 32 - real c * (real r)\<^sup>2)"
    by (rule newton_nat_le_real) (rule assms(1))
  also have "\<dots> \<le> real r * (3 * 2 ^ 32 - 1 * (real r)\<^sup>2)"
    using assms(2) by (intro mult_left_mono diff_left_mono mult_right_mono) simp_all
  also have "\<dots> = 2 * ?M ^ 3 - (?M - real r)\<^sup>2 * (2 * ?M + real r)"
    by (simp add: power2_eq_square power3_eq_cube algebra_simps)
  also have "\<dots> < 2 * ?M ^ 3"
    using r by simp
  finally have "real (newton_nat c r) < ?M"
    by simp
  then show ?thesis
    by simp
qed

lemma newton_grows:
  assumes "c * r\<^sup>2 \<le> 2 ^ 32"
  shows "r \<le> newton_nat c r"
proof -
  have "2 ^ 31 \<le> (3 * 2 ^ 32 - c * r\<^sup>2) div 4"
    using assms by simp
  then have "r * 2 ^ 31 \<le> (3 * 2 ^ 32 - c * r\<^sup>2) div 4 * r"
    by (simp add: mult.commute)
  then show ?thesis
    unfolding newton_nat_def by (simp add: less_eq_div_iff_mult_less_eq)
qed

lemma newton_pos:
  assumes "0 < r" and "c \<le> 2 ^ 32" and "c * r\<^sup>2 \<le> 2 * 2 ^ 32"
  shows "0 < newton_nat c r"
proof (cases "r = 1")
  case True
  then show ?thesis
    using newton_grows [of c r] assms by simp
next
  case False
  have "2 ^ 30 * 2 \<le> (3 * 2 ^ 32 - c * r\<^sup>2) div 4 * r"
    using assms False by (intro mult_le_mono) simp_all
  then show ?thesis
    unfolding newton_nat_def by (simp add: div_greater_zero_iff)
qed

lemma real_div_floor: "0 < k \<Longrightarrow> real n / real k - 1 \<le> real (n div k)"
proof -
  assume k: "0 < k"
  then have "real n \<le> real (k + n div k * k)"
    using dividend_less_div_times [of k n] by (simp only: of_nat_le_iff less_imp_le)
  with k show ?thesis
    by (simp add: field_simps)
qed

lemma newton_nat_ge_real:
  assumes "c * r\<^sup>2 \<le> 3 * 2 ^ 32" and "r < 65536"
  shows "real r * (3 * 2 ^ 32 - real c * (real r)\<^sup>2) / 2 ^ 33 - 2 \<le> real (newton_nat c r)"
proof -
  let ?V = "3 * 2 ^ 32 - c * r\<^sup>2"
  have V: "real ?V = 3 * 2 ^ 32 - real c * (real r)\<^sup>2"
    using assms(1) by (simp add: of_nat_diff)
  have "real ?V / 4 - 1 \<le> real (?V div 4)"
    using real_div_floor [of 4 ?V] by simp
  then have "(real ?V / 4 - 1) * real r \<le> real (?V div 4 * r)"
    by (simp add: mult_right_mono)
  moreover have "real (?V div 4 * r) / 2 ^ 31 - 1 \<le> real (newton_nat c r)"
    unfolding newton_nat_def using real_div_floor [of "2 ^ 31" "?V div 4 * r"] by simp
  moreover have "real r \<le> 2 ^ 31"
    using assms(2) by simp
  ultimately have "real ?V * real r / 2 ^ 33 - 2 \<le> real (newton_nat c r)"
    by (simp add: field_simps)
  then show ?thesis
    unfolding V by (simp add: mult.commute)
qed

lemma newton_converges:
  assumes "c * r\<^sup>2 \<le> 2 ^ 32" and "0 < c" and "r < 65536"
  defines "R \<equiv> 65536 / sqrt (real c)"
  shows "real r \<le> R" and "R - real (newton_nat c r) \<le> 3 / 2 * (R - real r)\<^sup>2 / R + 2"
proof -
  have R: "0 < R" "R\<^sup>2 * real c = 2 ^ 32"
    using assms(2) by (simp_all add: R_def power_divide)
  have "(real r)\<^sup>2 * real c \<le> R\<^sup>2 * real c"
    using assms(1) R(2) by (simp add: mult.commute flip: of_nat_power of_nat_mult)
  then show le: "real r \<le> R"
    using assms(2) R(1) by (simp add: power2_le_iff_abs_le)
  have c: "real c = 2 ^ 32 / R\<^sup>2"
    using R by (simp add: field_simps)
  have "R - real r * (3 * 2 ^ 32 - real c * (real r)\<^sup>2) / 2 ^ 33 = (R - real r)\<^sup>2 * (2 * R + real r) / (2 * R\<^sup>2)"
    using R(1) unfolding c by (simp add: field_simps power2_eq_square)
  also have "\<dots> \<le> (R - real r)\<^sup>2 * (3 * R) / (2 * R\<^sup>2)"
    using le R(1) by (intro divide_right_mono mult_left_mono) simp_all
  also have "\<dots> = 3 / 2 * (R - real r)\<^sup>2 / R"
    using R(1) by (simp add: field_simps power2_eq_square)
  finally show "R - real (newton_nat c r) \<le> 3 / 2 * (R - real r)\<^sup>2 / R + 2"
    using newton_nat_ge_real [of c r] assms(1,3) by simp
qed

section \<open>The distance to the next drop\<close>

lemma reciprocal_scale_nat: "unat (reciprocal_scale val ep_ro) = unat val * unat ep_ro div 2 ^ 32"
proof -
  have "unat val * unat ep_ro \<le> (2 ^ 32 - 1) * (2 ^ 32 - 1)"
    using u32_less [of val] u32_less [of ep_ro] by (intro mult_le_mono) simp_all
  then have small: "unat val * unat ep_ro < 2 ^ 32 * 2 ^ 32"
    by simp
  then have "unat ((ucast val :: u64) * ucast ep_ro) = unat val * unat ep_ro"
    by (subst unat_mult_small) (simp_all add: unat_ucast_up)
  moreover have "unat val * unat ep_ro div 2 ^ 32 < 2 ^ 32"
    using small by (rule less_mult_imp_div_less)
  ultimately show ?thesis
    by (simp add: reciprocal_scale_def unsigned_ucast_eq unat_drop take_bit_nat_eq_self)
qed

lemma control_law_step:
  "unat (codel_control_law t interval (ucast (r :: u16)) - t) = unat interval * unat r div 2 ^ 16"
proof -
  have "unat (push_bit 16 (ucast r :: u32)) = unat r * 2 ^ 16"
    using u16_less [of r] by (simp add: unat_push_small unat_ucast_up)
  then have "unat (reciprocal_scale interval (push_bit 16 (ucast r))) = unat interval * unat r * 2 ^ 16 div (2 ^ 16 * 2 ^ 16)"
    by (simp only: reciprocal_scale_nat mult.assoc power_add [symmetric]) simp
  also have "\<dots> = unat interval * unat r div 2 ^ 16"
    by (rule div_mult_mult2) simp
  finally show ?thesis
    by (simp add: codel_control_law_def REC_INV_SQRT_SHIFT_def)
qed

lemma control_law_bound:
  assumes "c * (unat r)\<^sup>2 \<le> 2 ^ 32"
  shows "c * (unat (codel_control_law t interval (ucast (r :: u16)) - t))\<^sup>2 \<le> (unat interval)\<^sup>2"
proof -
  let ?d = "unat interval * unat r div 2 ^ 16"
  have "?d * 2 ^ 16 \<le> unat interval * unat r"
    by (rule div_times_less_eq_dividend)
  then have "(?d * 2 ^ 16)\<^sup>2 \<le> (unat interval * unat r)\<^sup>2"
    by (rule power_mono) simp
  then have "c * (?d * 2 ^ 16)\<^sup>2 \<le> c * (unat interval * unat r)\<^sup>2"
    by (rule mult_le_mono2)
  also have "\<dots> = (unat interval)\<^sup>2 * (c * (unat r)\<^sup>2)"
    by (simp add: power_mult_distrib)
  also have "\<dots> \<le> (unat interval)\<^sup>2 * 2 ^ 32"
    by (rule mult_le_mono2) (rule assms)
  finally have "(c * ?d\<^sup>2) * 2 ^ 32 \<le> (unat interval)\<^sup>2 * 2 ^ 32"
    by (simp only: power_mult_distrib mult.assoc power_mult [symmetric]) simp
  then show ?thesis
    unfolding control_law_step by (simp only: mult_le_cancel2) simp
qed

end
