(* ===== verification/Codel_Dequeue.thy ===== *)
theory Codel_Dequeue
  imports Codel_Law
begin

text \<open>
  The dequeue operation of CoDel over any queue that keeps the contract of its callbacks: it returns, it accounts for
  every packet it takes from the queue, and it keeps the variables of the control law in their range.  The contract is
  the locale \<open>codel_queue\<close>; the queue of a queueing discipline provides it.
\<close>

section \<open>The variables of the control law\<close>

definition codel_vars_ok :: "codel_vars \<Rightarrow> bool" where
  "codel_vars_ok v \<longleftrightarrow>
     unat (cv_count v) * (unat (cv_rec_inv_sqrt v))\<^sup>2 \<le> 2 ^ 32 \<and> cv_lastcount v \<le> cv_count v \<and>
     (cv_count v \<noteq> 0 \<longrightarrow> cv_rec_inv_sqrt v \<noteq> 0) \<and> (cv_dropping v \<longrightarrow> cv_count v \<noteq> 0)"

lemma newton_step_fields [simp]:
  "cv_count (codel_Newton_step v) = cv_count v" "cv_lastcount (codel_Newton_step v) = cv_lastcount v"
  "cv_dropping (codel_Newton_step v) = cv_dropping v" "cv_drop_next (codel_Newton_step v) = cv_drop_next v"
  "cv_first_above_time (codel_Newton_step v) = cv_first_above_time v" "cv_ldelay (codel_Newton_step v) = cv_ldelay v"
  by (simp_all add: codel_Newton_step_def Let_def)

lemma reschedule_fields [simp]:
  "cv_count (codel_reschedule params v) = cv_count v" "cv_lastcount (codel_reschedule params v) = cv_lastcount v"
  "cv_dropping (codel_reschedule params v) = cv_dropping v"
  "cv_rec_inv_sqrt (codel_reschedule params v) = cv_rec_inv_sqrt v"
  "cv_first_above_time (codel_reschedule params v) = cv_first_above_time v"
  "cv_ldelay (codel_reschedule params v) = cv_ldelay v"
  by (simp_all add: codel_reschedule_def)

lemma newton_step_ok:
  assumes "unat (cv_count v) * (unat (cv_rec_inv_sqrt v))\<^sup>2 \<le> 2 * 2 ^ 32" and "cv_count v \<noteq> 0"
    and "cv_rec_inv_sqrt v \<noteq> 0"
  shows "unat (cv_count v) * (unat (cv_rec_inv_sqrt (codel_Newton_step v)))\<^sup>2 \<le> 2 ^ 32"
    and "cv_rec_inv_sqrt (codel_Newton_step v) \<noteq> 0"
proof -
  let ?c = "unat (cv_count v)" and ?r = "unat (cv_rec_inv_sqrt v)"
  have c: "0 < ?c" "?c \<le> 2 ^ 32" and r: "0 < ?r" "?r < 65536" and small: "?c * ?r\<^sup>2 \<le> 3 * 2 ^ 32"
    using assms u32_less [of "cv_count v"] u16_less [of "cv_rec_inv_sqrt v"]
    by (simp_all add: unat_gt_0)
  have step: "unat (cv_rec_inv_sqrt (codel_Newton_step v)) = newton_nat ?c ?r"
    using newton_step_exact [OF small] newton_fits [OF small c(1) r(2)] by simp
  show "?c * (unat (cv_rec_inv_sqrt (codel_Newton_step v)))\<^sup>2 \<le> 2 ^ 32"
    unfolding step by (rule newton_never_overshoots) (rule small)
  show "cv_rec_inv_sqrt (codel_Newton_step v) \<noteq> 0"
    using newton_pos [OF r(1) c(2)] assms(1) step by auto
qed

lemma drop_step_ok:
  assumes "codel_vars_ok v" and "cv_dropping v" and "unat (cv_count v) + 1 < 2 ^ 32"
  shows "codel_vars_ok (codel_Newton_step (v\<lparr>cv_count := cv_count v + 1\<rparr>))"
    and "unat (cv_count (codel_Newton_step (v\<lparr>cv_count := cv_count v + 1\<rparr>))) = unat (cv_count v) + 1"
proof -
  let ?v = "v\<lparr>cv_count := cv_count v + 1\<rparr>"
  have c: "unat (cv_count v + 1) = unat (cv_count v) + 1"
    using assms(3) by (subst unat_add_lem [THEN iffD1]) simp_all
  then have ne: "cv_count v + 1 \<noteq> 0"
    by auto
  have "(unat (cv_rec_inv_sqrt v))\<^sup>2 \<le> 65536\<^sup>2"
    using u16_less [of "cv_rec_inv_sqrt v"] by (intro power_mono) simp_all
  then have "unat (cv_count ?v) * (unat (cv_rec_inv_sqrt ?v))\<^sup>2 \<le> 2 * 2 ^ 32"
    using assms(1) by (simp add: c codel_vars_ok_def)
  moreover have "cv_rec_inv_sqrt ?v \<noteq> 0"
    using assms(1,2) by (simp add: codel_vars_ok_def)
  moreover have "cv_lastcount v \<le> cv_count v + 1"
    using assms(1) c by (simp add: codel_vars_ok_def word_le_nat_alt)
  ultimately show "codel_vars_ok (codel_Newton_step ?v)"
    using newton_step_ok [of ?v] ne by (simp add: codel_vars_ok_def)
  show "unat (cv_count (codel_Newton_step ?v)) = unat (cv_count v) + 1"
    using c by simp
qed

lemma start_count_ok:
  assumes "codel_vars_ok v"
  shows "codel_vars_ok (codel_start_count params now v)"
proof -
  let ?delta = "cv_count v - cv_lastcount v"
  let ?v = "v\<lparr>cv_dropping := True, cv_count := ?delta\<rparr>"
  have le: "unat ?delta \<le> unat (cv_count v)"
    using assms by (simp add: codel_vars_ok_def unat_sub)
  have "unat (cv_count v) * (unat (cv_rec_inv_sqrt v))\<^sup>2 \<le> 2 * 2 ^ 32"
    using assms by (simp add: codel_vars_ok_def)
  from le_trans [OF mult_le_mono1 [OF le] this]
  have "unat (cv_count ?v) * (unat (cv_rec_inv_sqrt ?v))\<^sup>2 \<le> 2 * 2 ^ 32"
    by simp
  moreover have "cv_rec_inv_sqrt v \<noteq> 0" if "1 < ?delta"
    using that le assms by (auto simp: codel_vars_ok_def word_less_nat_alt)
  ultimately have "codel_vars_ok (codel_Newton_step ?v\<lparr>cv_lastcount := ?delta, cv_drop_next := t\<rparr>)" if "1 < ?delta" for t
    using newton_step_ok [of ?v] that by (cases "cv_count v = cv_lastcount v") (auto simp: codel_vars_ok_def)
  moreover have "codel_vars_ok (v\<lparr>cv_dropping := True, cv_count := 1, cv_rec_inv_sqrt := 65535, cv_lastcount := 1, cv_drop_next := t\<rparr>)" for t
    by (simp add: codel_vars_ok_def)
  moreover have "ucast (drop_bit REC_INV_SQRT_SHIFT (NOT 0 :: u32)) = (65535 :: u16)"
    by (simp add: REC_INV_SQRT_SHIFT_def mask_eq_exp_minus_1)
  ultimately show ?thesis
    by (simp add: codel_start_count_def Let_def)
qed

lemma reschedule_ok [simp]: "codel_vars_ok (codel_reschedule params v) = codel_vars_ok v"
  by (simp add: codel_vars_ok_def)

lemma ok_not_dropping: "codel_vars_ok v \<Longrightarrow> codel_vars_ok (v\<lparr>cv_dropping := False\<rparr>)"
  by (simp add: codel_vars_ok_def)

section \<open>What the parts of the operation leave alone\<close>

lemma set_vars_fields [simp]:
  "st_world (set_vars f st) = st_world st" "st_stats (set_vars f st) = st_stats st"
  "st_vars (set_vars f st) = f (st_vars st)"
  by (simp_all add: set_vars_def)

lemma mark_count_fields [simp]:
  "st_world (count_ecn_mark st) = st_world st" "st_vars (count_ecn_mark st) = st_vars st"
  "cs_drop_count (st_stats (count_ecn_mark st)) = cs_drop_count (st_stats st)"
  "cs_drop_len (st_stats (count_ecn_mark st)) = cs_drop_len (st_stats st)"
  "st_world (count_ce_mark st) = st_world st" "st_vars (count_ce_mark st) = st_vars st"
  "cs_drop_count (st_stats (count_ce_mark st)) = cs_drop_count (st_stats st)"
  "cs_drop_len (st_stats (count_ce_mark st)) = cs_drop_len (st_stats st)"
  by (simp_all add: count_ecn_mark_def count_ce_mark_def)

lemma should_drop_fields [simp]:
  "st_world (snd (codel_should_drop ops params skb now st)) = st_world st"
  "cs_drop_count (st_stats (snd (codel_should_drop ops params skb now st))) = cs_drop_count (st_stats st)"
  "cs_drop_len (st_stats (snd (codel_should_drop ops params skb now st))) = cs_drop_len (st_stats st)"
  "cv_count (st_vars (snd (codel_should_drop ops params skb now st))) = cv_count (st_vars st)"
  "cv_lastcount (st_vars (snd (codel_should_drop ops params skb now st))) = cv_lastcount (st_vars st)"
  "cv_rec_inv_sqrt (st_vars (snd (codel_should_drop ops params skb now st))) = cv_rec_inv_sqrt (st_vars st)"
  "cv_dropping (st_vars (snd (codel_should_drop ops params skb now st))) = cv_dropping (st_vars st)"
  "cv_drop_next (st_vars (snd (codel_should_drop ops params skb now st))) = cv_drop_next (st_vars st)"
  by (cases "st_world st"; simp add: codel_should_drop_def Let_def)+

lemma should_drop_ok [simp]:
  "codel_vars_ok (st_vars (snd (codel_should_drop ops params skb now st))) = codel_vars_ok (st_vars st)"
  by (simp add: codel_vars_ok_def)

lemma should_drop_null [simp]: "fst (codel_should_drop ops params 0 now st) = False"
  by (cases "st_world st") (simp add: codel_should_drop_def Let_def)

text \<open>The contents of a packet behind \<open>n\<close> calls of \<open>INET_ECN_set_ce\<close>.\<close>

definition ce_mark :: "'c codel_ops \<Rightarrow> sk_buff \<Rightarrow> sk_buff" where
  "ce_mark ops b = snd (INET_ECN_set_ce (op_byteorder ops) (op_copy_bits ops) b)"

lemma set_ce_fields [simp]:
  "st_vars (snd (skb_set_ce ops p st)) = st_vars st" "st_stats (snd (skb_set_ce ops p st)) = st_stats st"
  "st_world (snd (skb_set_ce ops p st)) =
     ((fst (st_world st))(p := (fst (st_world st) p)\<lparr>o_skb := ce_mark ops (o_skb (fst (st_world st) p))\<rparr>), snd (st_world st))"
  by (simp_all add: skb_set_ce_def ce_mark_def Let_def case_prod_beta)

lemma try_mark_cases:
  obtains "codel_try_mark ops params p st = (False, st)"
  | "codel_try_mark ops params p st = skb_set_ce ops p st"
  by (cases "cp_ecn params") (simp_all add: codel_try_mark_def)

section \<open>The contract of the callbacks\<close>

text \<open>
  \<open>queue\<close> is what the callbacks have still to deliver, \<open>dropped\<close> the packets they were told to drop, the last one
  first.  Taking a packet delivers the first one, dropping is for a packet that has been taken, and neither changes
  anything of a packet but its link.  Marking a packet concerns its contents, which the queue does not look at.
\<close>

locale codel_queue =
  fixes ops :: "'c codel_ops" and inv :: "'c world \<Rightarrow> bool" and queue dropped :: "'c world \<Rightarrow> ptr list"
  assumes dequeue_nil: "inv w \<Longrightarrow> queue w = [] \<Longrightarrow> dequeue_func ops v w = (0, v, w)"
    and dequeue_cons: "inv w \<Longrightarrow> queue w = p # ps \<Longrightarrow>
      \<exists>w'. dequeue_func ops v w = (p, v, w') \<and> inv w' \<and> queue w' = ps \<and> dropped w' = dropped w \<and> same_skbs (fst w) (fst w')"
    and distinct_packets: "inv w \<Longrightarrow> distinct (queue w @ dropped w) \<and> 0 \<notin> set (queue w)"
    and drop_taken: "inv w \<Longrightarrow> p \<noteq> 0 \<Longrightarrow> p \<notin> set (queue w @ dropped w) \<Longrightarrow>
      inv (drop_func ops p w) \<and> queue (drop_func ops p w) = queue w \<and> dropped (drop_func ops p w) = p # dropped w \<and>
      same_skbs (fst w) (fst (drop_func ops p w))"
    and mark_contents: "inv (m, c) \<Longrightarrow>
      inv (m(p := (m p)\<lparr>o_skb := b\<rparr>), c) \<and> queue (m(p := (m p)\<lparr>o_skb := b\<rparr>), c) = queue (m, c) \<and>
      dropped (m(p := (m p)\<lparr>o_skb := b\<rparr>), c) = dropped (m, c)"
    and len_links: "same_skbs m m' \<Longrightarrow> skb_len_func ops m' = skb_len_func ops m"
    and len_contents: "skb_len_func ops (m(p := (m p)\<lparr>o_skb := b\<rparr>)) = skb_len_func ops m"

text \<open>
  The account of the packets \<open>xs\<close>, in hand or in the queue at the start: \<open>ds\<close> are dropped and counted, the packet \<open>q\<close>
  behind them is returned after at most \<open>k\<close> marks, the others stay in the queue as they are.
\<close>

definition accounts ::
    "'c codel_ops \<Rightarrow> ('c world \<Rightarrow> ptr list) \<Rightarrow> ('c world \<Rightarrow> ptr list) \<Rightarrow> nat \<Rightarrow> ptr list \<Rightarrow> 'c codel_st \<Rightarrow> ptr list \<Rightarrow>
     ptr \<Rightarrow> 'c codel_st \<Rightarrow> bool" where
  "accounts ops queue dropped k xs st ds q st' \<longleftrightarrow>
     xs = ds @ (if q = 0 then [] else [q]) @ queue (st_world st') \<and>
     (q = 0 \<longrightarrow> queue (st_world st') = []) \<and>
     dropped (st_world st') = rev ds @ dropped (st_world st) \<and>
     cs_drop_count (st_stats st') = cs_drop_count (st_stats st) + word_of_nat (length ds) \<and>
     cs_drop_len (st_stats st') =
       cs_drop_len (st_stats st) + sum_list (map (skb_len_func ops (fst (st_world st))) ds) \<and>
     skb_len_func ops (fst (st_world st')) = skb_len_func ops (fst (st_world st)) \<and>
     (\<forall>x\<in>set (queue (st_world st')). o_skb (fst (st_world st') x) = o_skb (fst (st_world st) x)) \<and>
     (q \<noteq> 0 \<longrightarrow> (\<exists>n\<le>k. o_skb (fst (st_world st') q) = (ce_mark ops ^^ n) (o_skb (fst (st_world st) q))))"

lemma accounts_trans:
  assumes first: "accounts ops queue dropped 0 xs st ds q st1" and q: "q \<noteq> 0"
    and second: "accounts ops queue dropped k (q # queue (st_world st1)) st1 es q' st'"
  shows "accounts ops queue dropped k xs st (ds @ es) q' st'"
proof -
  have "\<forall>x\<in>set (q # queue (st_world st1)). o_skb (fst (st_world st1) x) = o_skb (fst (st_world st) x)"
    using first q by (simp add: accounts_def)
  moreover have "set (queue (st_world st')) \<subseteq> set (q # queue (st_world st1))"
      "q' \<noteq> 0 \<Longrightarrow> q' \<in> set (q # queue (st_world st1))"
  proof -
    have "q # queue (st_world st1) = es @ (if q' = 0 then [] else [q']) @ queue (st_world st')"
      using second by (simp only: accounts_def)
    then have "set (q # queue (st_world st1)) = set (es @ (if q' = 0 then [] else [q']) @ queue (st_world st'))"
      by (simp only:)
    then show "set (queue (st_world st')) \<subseteq> set (q # queue (st_world st1))"
        "q' \<noteq> 0 \<Longrightarrow> q' \<in> set (q # queue (st_world st1))"
      by auto
  qed
  ultimately have "\<forall>x\<in>set (queue (st_world st')). o_skb (fst (st_world st1) x) = o_skb (fst (st_world st) x)"
      "q' \<noteq> 0 \<Longrightarrow> o_skb (fst (st_world st1) q') = o_skb (fst (st_world st) q')"
    by blast+
  with first second q show ?thesis
    by (simp add: accounts_def)
qed

lemma accounts_mono: "accounts ops queue dropped j xs st ds q st' \<Longrightarrow> j \<le> k \<Longrightarrow> accounts ops queue dropped k xs st ds q st'"
  unfolding accounts_def by (meson le_trans)

lemma accounts_same_world:
  assumes "accounts ops queue dropped k xs st ds q st1" and "st_world st' = st_world st1"
    and "cs_drop_count (st_stats st') = cs_drop_count (st_stats st1)"
    and "cs_drop_len (st_stats st') = cs_drop_len (st_stats st1)"
  shows "accounts ops queue dropped k xs st ds q st'"
  using assms by (simp add: accounts_def)

lemma accounts_from_world:
  assumes "accounts ops queue dropped k xs st1 ds q st'" and "st_world st = st_world st1"
    and "cs_drop_count (st_stats st) = cs_drop_count (st_stats st1)"
    and "cs_drop_len (st_stats st) = cs_drop_len (st_stats st1)"
  shows "accounts ops queue dropped k xs st ds q st'"
  using assms by (simp add: accounts_def)

context codel_queue
begin

definition in_hand :: "ptr \<Rightarrow> 'c codel_st \<Rightarrow> bool" where
  "in_hand p st \<longleftrightarrow> inv (st_world st) \<and> p \<noteq> 0 \<and> p \<notin> set (queue (st_world st) @ dropped (st_world st))"

definition settled :: "ptr \<Rightarrow> 'c codel_st \<Rightarrow> bool" where
  "settled q st \<longleftrightarrow> (if q = 0 then inv (st_world st) else in_hand q st)"

lemma in_hand_same_world: "st_world st' = st_world st \<Longrightarrow> in_hand p st' = in_hand p st"
  by (simp add: in_hand_def)

lemma take_empty:
  assumes "inv (st_world st)" and "queue (st_world st) = []"
  shows "codel_take ops st = (0, st)"
  using assms by (simp add: codel_take_def dequeue_nil)

lemma take_next:
  assumes "inv (st_world st)" and "queue (st_world st) = p # ps"
  obtains w where "codel_take ops st = (p, st\<lparr>st_world := w\<rparr>)" and "inv w" and "queue w = ps"
    and "dropped w = dropped (st_world st)" and "same_skbs (fst (st_world st)) (fst w)" and "in_hand p (st\<lparr>st_world := w\<rparr>)"
proof -
  obtain w where w: "dequeue_func ops (st_vars st) (st_world st) = (p, st_vars st, w)" "inv w" "queue w = ps"
      "dropped w = dropped (st_world st)" "same_skbs (fst (st_world st)) (fst w)"
    using dequeue_cons [OF assms] by blast
  moreover have "in_hand p (st\<lparr>st_world := w\<rparr>)"
    using distinct_packets [OF assms(1)] w assms(2) by (simp add: in_hand_def)
  ultimately show ?thesis
    using that [of w] by (simp add: codel_take_def)
qed

lemma mark_in_hand:
  assumes "in_hand p st"
  shows "in_hand p (snd (skb_set_ce ops p st))"
    and "queue (st_world (snd (skb_set_ce ops p st))) = queue (st_world st)"
    and "dropped (st_world (snd (skb_set_ce ops p st))) = dropped (st_world st)"
    and "skb_len_func ops (fst (st_world (snd (skb_set_ce ops p st)))) = skb_len_func ops (fst (st_world st))"
  using assms mark_contents [of "fst (st_world st)" "snd (st_world st)" p] by (simp_all add: in_hand_def len_contents)

lemma drop_in_hand:
  assumes "in_hand p st"
  shows "inv (st_world (codel_drop ops p st))" and "queue (st_world (codel_drop ops p st)) = queue (st_world st)"
    and "dropped (st_world (codel_drop ops p st)) = p # dropped (st_world st)"
    and "same_skbs (fst (st_world st)) (fst (st_world (codel_drop ops p st)))"
    and "cs_drop_count (st_stats (codel_drop ops p st)) = cs_drop_count (st_stats st) + 1"
    and "cs_drop_len (st_stats (codel_drop ops p st)) = cs_drop_len (st_stats st) + skb_len_func ops (fst (st_world st)) p"
    and "st_vars (codel_drop ops p st) = st_vars st"
  using assms drop_taken [of "st_world st" p] by (simp_all add: in_hand_def codel_drop_def Let_def)

text \<open>Dropping the packet in hand, which a failed attempt to mark it may precede, and taking the next one.\<close>

lemma drop_and_take:
  assumes "in_hand p st"
    and st2: "st2 = snd (codel_try_mark ops params p st)"
  obtains q st1 where "codel_take ops (codel_drop ops p st2) = (q, st1)" and "st_vars st1 = st_vars st"
    and "accounts ops queue dropped 0 (p # queue (st_world st)) st [p] q st1"
    and "settled q st1"
proof -
  have hand: "in_hand p st2" and keep: "queue (st_world st2) = queue (st_world st)"
      "dropped (st_world st2) = dropped (st_world st)" "st_vars st2 = st_vars st" "st_stats st2 = st_stats st"
      "skb_len_func ops (fst (st_world st2)) = skb_len_func ops (fst (st_world st))"
      and other: "\<And>x. x \<noteq> p \<Longrightarrow> o_skb (fst (st_world st2) x) = o_skb (fst (st_world st) x)"
    using assms mark_in_hand [OF assms(1)] by (auto simp: codel_try_mark_def)
  let ?st3 = "codel_drop ops p st2"
  note drop = drop_in_hand [OF hand]
  have content: "o_skb (fst (st_world ?st3) x) = o_skb (fst (st_world st) x)" if "x \<noteq> p" for x
    using that other same_skbs_fields(1) [OF drop(4)] by simp
  have p: "p \<notin> set (queue (st_world st))"
    using assms(1) by (simp add: in_hand_def)
  note len = len_links [OF drop(4)] len_links
  show ?thesis
  proof (cases "queue (st_world st)")
    case Nil
    then have "codel_take ops ?st3 = (0, ?st3)"
      using drop(1,2) keep(1) by (intro take_empty) simp_all
    moreover have "accounts ops queue dropped 0 (p # queue (st_world st)) st [p] 0 ?st3"
      using Nil drop keep content [of 0] assms(1) len by (simp add: accounts_def in_hand_def)
    ultimately show ?thesis
      using that [of 0 ?st3] drop keep by (simp add: settled_def)
  next
    case (Cons q qs)
    then obtain w where w: "codel_take ops ?st3 = (q, ?st3\<lparr>st_world := w\<rparr>)" "inv w" "queue w = qs"
        "dropped w = dropped (st_world ?st3)" "same_skbs (fst (st_world ?st3)) (fst w)" "in_hand q (?st3\<lparr>st_world := w\<rparr>)"
      using take_next [of ?st3 q qs] drop(1,2) keep(1) by metis
    have "\<forall>x\<in>set (q # qs). o_skb (fst w x) = o_skb (fst (st_world st) x)"
    proof
      fix x
      assume "x \<in> set (q # qs)"
      then have "x \<noteq> p"
        using p Cons by auto
      then show "o_skb (fst w x) = o_skb (fst (st_world st) x)"
        using content same_skbs_fields(1) [OF w(5)] by simp
    qed
    moreover have "q \<noteq> 0"
      using w(6) by (simp add: in_hand_def)
    ultimately have "accounts ops queue dropped 0 (p # queue (st_world st)) st [p] q (?st3\<lparr>st_world := w\<rparr>)"
      using Cons drop keep w len by (simp add: accounts_def)
    then show ?thesis
      using that [OF w(1)] drop keep w(6) \<open>q \<noteq> 0\<close> by (simp add: settled_def)
  qed
qed

lemma settled_same_world: "st_world st' = st_world st \<Longrightarrow> settled q st' = settled q st"
  by (simp add: settled_def in_hand_def)

lemma keep_in_hand:
  assumes "in_hand p st" and "st_world st' = st_world st"
    and "cs_drop_count (st_stats st') = cs_drop_count (st_stats st)"
    and "cs_drop_len (st_stats st') = cs_drop_len (st_stats st)"
  shows "accounts ops queue dropped k (p # queue (st_world st)) st [] p st'" and "settled p st'"
  using assms by (auto simp: accounts_def settled_def in_hand_def intro: exI [of _ 0])

lemma mark_accounts:
  assumes "in_hand p st" and "st_world st' = st_world (snd (skb_set_ce ops p st))"
    and "cs_drop_count (st_stats st') = cs_drop_count (st_stats st)"
    and "cs_drop_len (st_stats st') = cs_drop_len (st_stats st)"
  shows "accounts ops queue dropped (Suc k) (p # queue (st_world st)) st [] p st'" and "settled p st'"
proof -
  note m = mark_in_hand [OF assms(1)]
  have p: "p \<noteq> 0" "p \<notin> set (queue (st_world st))"
    using assms(1) by (simp_all add: in_hand_def)
  have "\<exists>n\<le>Suc k. ce_mark ops (o_skb (fst (st_world st) p)) = (ce_mark ops ^^ n) (o_skb (fst (st_world st) p))"
    by (intro exI [of _ 1]) simp
  with m assms(2-4) p show "accounts ops queue dropped (Suc k) (p # queue (st_world st)) st [] p st'"
    unfolding accounts_def assms(2) m(2-4) by auto
  show "settled p st'"
    using m(1) assms(2) p(1) by (simp add: settled_def in_hand_def)
qed

lemma drop_loop_accounts:
  assumes "in_hand p st"
  shows "\<exists>q st' ds. codel_drop_loop ops params now p st = Some (q, st') \<and>
    accounts ops queue dropped 1 (p # queue (st_world st)) st ds q st' \<and> settled q st' \<and>
    (codel_vars_ok (st_vars st) \<and> unat (cv_count (st_vars st)) + length (p # queue (st_world st)) < 2 ^ 32 \<longrightarrow>
       codel_vars_ok (st_vars st'))"
  using assms
proof (induction "length (queue (st_world st))" arbitrary: p st rule: less_induct)
  case less
  let ?cond = "cv_dropping (st_vars st) \<and> codel_time_after_eq now (cv_drop_next (st_vars st))"
  show ?case
  proof (cases ?cond)
    case False
    then show ?thesis
      using keep_in_hand(1) [OF less.prems, of st 1] keep_in_hand(2) [OF less.prems, of st]
      by (subst codel_drop_loop.simps) auto
  next
    case True
    define st1 where "st1 = set_vars (\<lambda>v. codel_Newton_step (v\<lparr>cv_count := cv_count v + 1\<rparr>)) st"
    have st1: "st_world st1 = st_world st" "st_stats st1 = st_stats st" "in_hand p st1"
      using less.prems in_hand_same_world [of st1 st p] by (simp_all add: st1_def)
    have ok1: "codel_vars_ok (st_vars st1)" "unat (cv_count (st_vars st1)) = unat (cv_count (st_vars st)) + 1"
      if "codel_vars_ok (st_vars st)" "unat (cv_count (st_vars st)) + 1 < 2 ^ 32"
      using drop_step_ok [OF that(1) _ that(2)] True by (simp_all add: st1_def)
    have p: "p \<noteq> 0"
      using less.prems by (simp add: in_hand_def)
    show ?thesis
    proof (cases "fst (codel_try_mark ops params p st1)")
      case marked: True
      define st' where "st' = set_vars (codel_reschedule params) (count_ecn_mark (snd (skb_set_ce ops p st1)))"
      have "codel_drop_loop ops params now p st = Some (p, st')"
        using True marked p unfolding st1_def st'_def
        by (subst codel_drop_loop.simps) (simp add: codel_try_mark_def Let_def case_prod_beta split: if_splits)
      moreover have acc: "accounts ops queue dropped (Suc 0) (p # queue (st_world st1)) st1 [] p st'" and set': "settled p st'"
        by (rule mark_accounts [OF st1(3)]; simp add: st'_def)+
      have acc': "accounts ops queue dropped 1 (p # queue (st_world st)) st [] p st'"
        using acc unfolding st1(1) One_nat_def by (rule accounts_from_world) (simp_all add: st1(1,2))
      moreover have "codel_vars_ok (st_vars st')"
        if "codel_vars_ok (st_vars st)" "unat (cv_count (st_vars st)) + 1 < 2 ^ 32"
        using ok1(1) [OF that] by (simp add: st'_def)
      ultimately show ?thesis
        using set' by fastforce
    next
      case unmarked: False
      obtain q st2 where q: "codel_take ops (codel_drop ops p (snd (codel_try_mark ops params p st1))) = (q, st2)"
          "st_vars st2 = st_vars st1" "accounts ops queue dropped 0 (p # queue (st_world st1)) st1 [p] q st2" "settled q st2"
        using drop_and_take [OF st1(3) refl] by metis
      define drop st3 where "drop = fst (codel_should_drop ops params q now st2)"
        and "st3 = set_vars (if \<not> drop then \<lambda>v. v\<lparr>cv_dropping := False\<rparr> else codel_reschedule params)
             (snd (codel_should_drop ops params q now st2))"
      have loop: "codel_drop_loop ops params now p st = codel_drop_loop ops params now q st3"
        using True unmarked p q(1) unfolding drop_def st3_def st1_def
        by (subst codel_drop_loop.simps) (simp add: Let_def case_prod_beta)
      have st3: "st_world st3 = st_world st2" "st_stats st3 = st_stats (snd (codel_should_drop ops params q now st2))"
        by (simp_all add: st3_def)
      have ok3: "codel_vars_ok (st_vars st3)" "unat (cv_count (st_vars st3)) = unat (cv_count (st_vars st)) + 1"
        if "codel_vars_ok (st_vars st)" "unat (cv_count (st_vars st)) + 1 < 2 ^ 32"
        using ok1 [OF that] q(2) by (simp_all add: st3_def ok_not_dropping)
      have "accounts ops queue dropped 0 (p # queue (st_world st)) st [p] q st2"
        using q(3) unfolding st1(1) by (rule accounts_from_world) (simp_all add: st1(1,2))
      then have acc3: "accounts ops queue dropped 0 (p # queue (st_world st)) st [p] q st3"
        by (rule accounts_same_world) (simp_all add: st3_def)
      have settled: "settled q st3"
        using q(4) settled_same_world [OF st3(1)] by simp
      show ?thesis
      proof (cases "q = 0")
        case True
        then have "codel_drop_loop ops params now q st3 = Some (q, st3)"
          by (subst codel_drop_loop.simps) (simp add: st3_def drop_def)
        moreover have "accounts ops queue dropped 1 (p # queue (st_world st)) st [p] q st3"
          using acc3 by (rule accounts_mono) simp
        ultimately show ?thesis
          using loop settled ok3(1) by fastforce
      next
        case q0: False
        then have "p # queue (st_world st) = [p] @ [q] @ queue (st_world st3)"
          using acc3 by (simp add: accounts_def)
        then have len: "length (queue (st_world st)) = Suc (length (queue (st_world st3)))"
          by simp
        have "in_hand q st3"
          using settled q0 by (simp add: settled_def)
        then obtain q' st' ds where "codel_drop_loop ops params now q st3 = Some (q', st')"
            and acc': "accounts ops queue dropped 1 (q # queue (st_world st3)) st3 ds q' st'" and "settled q' st'"
            and "codel_vars_ok (st_vars st3) \<and> unat (cv_count (st_vars st3)) + length (q # queue (st_world st3)) < 2 ^ 32 \<longrightarrow>
              codel_vars_ok (st_vars st')"
          using less.hyps [OF _ \<open>in_hand q st3\<close>] len by (metis lessI)
        then show ?thesis
          using loop accounts_trans [OF acc3 q0 acc'] ok3 len by fastforce
      qed
    qed
  qed
qed

text \<open>Entering the dropping state, and the marking at the label \<open>end\<close>.\<close>

lemma enter_accounts:
  assumes "in_hand p st"
  shows "\<exists>q st' ds. codel_enter ops params now p st = (q, st') \<and>
    accounts ops queue dropped 1 (p # queue (st_world st)) st ds q st' \<and> settled q st' \<and> length ds \<le> 1 \<and>
    (codel_vars_ok (st_vars st) \<longrightarrow> codel_vars_ok (st_vars st'))"
proof (cases "fst (codel_try_mark ops params p st)")
  case True
  let ?st = "set_vars (codel_start_count params now) (count_ecn_mark (snd (skb_set_ce ops p st)))"
  have "accounts ops queue dropped (Suc 0) (p # queue (st_world st)) st [] p ?st" "settled p ?st"
    by (rule mark_accounts [OF assms]; simp)+
  moreover have "codel_enter ops params now p st = (p, ?st)"
    using True by (simp add: codel_enter_def codel_try_mark_def Let_def case_prod_beta split: if_splits)
  ultimately show ?thesis
    using start_count_ok [of "st_vars st"] by fastforce
next
  case False
  obtain q st2 where q: "codel_take ops (codel_drop ops p (snd (codel_try_mark ops params p st))) = (q, st2)"
      "st_vars st2 = st_vars st" "accounts ops queue dropped 0 (p # queue (st_world st)) st [p] q st2" "settled q st2"
    using drop_and_take [OF assms refl] by metis
  let ?st = "set_vars (codel_start_count params now) (snd (codel_should_drop ops params q now st2))"
  have "accounts ops queue dropped 0 (p # queue (st_world st)) st [p] q ?st"
    using q(3) by (rule accounts_same_world) simp_all
  then have "accounts ops queue dropped 1 (p # queue (st_world st)) st [p] q ?st"
    by (rule accounts_mono) simp
  moreover have "settled q ?st"
    using q(4) settled_same_world [of ?st st2 q] by simp
  moreover have "codel_enter ops params now p st = (q, ?st)"
    using False q(1) by (simp add: codel_enter_def Let_def case_prod_beta)
  ultimately show ?thesis
    using start_count_ok [of "st_vars (snd (codel_should_drop ops params q now st2))"] q(2) by fastforce
qed

lemma end_accounts:
  assumes acc: "accounts ops queue dropped 1 xs st ds q st1" and "settled q st1"
  shows "\<exists>st'. codel_end ops params (q, st1) = (q, st') \<and> accounts ops queue dropped 2 xs st ds q st' \<and>
    settled q st' \<and> st_vars st' = st_vars st1"
proof (cases "q \<noteq> 0 \<and> codel_time_after (cv_ldelay (st_vars st1)) (cp_ce_threshold params)")
  case False
  then have "codel_end ops params (q, st1) = (q, st1)"
    by (simp only: codel_end_def prod.case if_False)
  then show ?thesis
    using assms(2) accounts_mono [OF acc, of 2] by simp
next
  case True
  then have hand: "in_hand q st1"
    using assms(2) by (simp add: settled_def)
  note m = mark_in_hand [OF hand]
  define st' where "st' = (if fst (skb_set_ce ops q st1) then count_ce_mark (snd (skb_set_ce ops q st1))
      else snd (skb_set_ce ops q st1))"
  have st': "st_world st' = st_world (snd (skb_set_ce ops q st1))" "st_vars st' = st_vars st1"
      "cs_drop_count (st_stats st') = cs_drop_count (st_stats st1)" "cs_drop_len (st_stats st') = cs_drop_len (st_stats st1)"
    by (simp_all add: st'_def)
  have "q \<notin> set (queue (st_world st1))"
    using hand by (simp add: in_hand_def)
  then have rest: "\<forall>x\<in>set (queue (st_world st1)). o_skb (fst (st_world st') x) = o_skb (fst (st_world st1) x)"
    unfolding st'(1) by auto
  obtain n where n: "n \<le> 1" "o_skb (fst (st_world st1) q) = (ce_mark ops ^^ n) (o_skb (fst (st_world st) q))"
    using acc True by (auto simp: accounts_def)
  then have "o_skb (fst (st_world st') q) = (ce_mark ops ^^ Suc n) (o_skb (fst (st_world st) q))"
    by (simp add: st'(1))
  moreover have "Suc n \<le> 2"
    using n(1) by simp
  ultimately have content: "\<exists>n\<le>2. o_skb (fst (st_world st') q) = (ce_mark ops ^^ n) (o_skb (fst (st_world st) q))"
    by blast
  have "accounts ops queue dropped 2 xs st ds q st'"
    using acc rest content unfolding accounts_def st'(3,4) st'(1) m(2-4) by simp
  moreover have "codel_end ops params (q, st1) = (q, st')"
    using True by (simp add: codel_end_def st'_def case_prod_beta)
  moreover have "settled q st'"
    using settled_same_world [OF st'(1), of q] m(1) True by (simp add: settled_def)
  ultimately show ?thesis
    using st'(2) by blast
qed

text \<open>What the operation does with a packet in hand, up to the label \<open>end\<close>.\<close>

lemma branch_accounts:
  assumes "in_hand p st"
  shows "\<exists>q st' ds.
    (if cv_dropping (st_vars st) then
       if \<not> dr then Some (p, set_vars (\<lambda>v. v\<lparr>cv_dropping := False\<rparr>) st)
       else if codel_time_after_eq now (cv_drop_next (st_vars st)) then codel_drop_loop ops params now p st
       else Some (p, st)
     else if dr then Some (codel_enter ops params now p st) else Some (p, st)) = Some (q, st') \<and>
    accounts ops queue dropped 1 (p # queue (st_world st)) st ds q st' \<and> settled q st' \<and>
    (\<not> dr \<longrightarrow> ds = [] \<and> q = p \<and> \<not> cv_dropping (st_vars st')) \<and>
    (codel_vars_ok (st_vars st) \<and> unat (cv_count (st_vars st)) + length (p # queue (st_world st)) < 2 ^ 32 \<longrightarrow>
       codel_vars_ok (st_vars st'))"
proof -
  have keep: "accounts ops queue dropped 1 (p # queue (st_world st)) st [] p (set_vars f st)" "settled p (set_vars f st)" for f
    by (rule keep_in_hand [OF assms]; simp)+
  have same: "accounts ops queue dropped 1 (p # queue (st_world st)) st [] p st" "settled p st"
    by (rule keep_in_hand [OF assms]; simp)+
  obtain q1 st1 ds1 where loop: "codel_drop_loop ops params now p st = Some (q1, st1)"
      "accounts ops queue dropped 1 (p # queue (st_world st)) st ds1 q1 st1" "settled q1 st1"
      "codel_vars_ok (st_vars st) \<and> unat (cv_count (st_vars st)) + length (p # queue (st_world st)) < 2 ^ 32 \<longrightarrow>
         codel_vars_ok (st_vars st1)"
    using drop_loop_accounts [OF assms] by blast
  obtain q2 st2 ds2 where enter: "codel_enter ops params now p st = (q2, st2)"
      "accounts ops queue dropped 1 (p # queue (st_world st)) st ds2 q2 st2" "settled q2 st2"
      "codel_vars_ok (st_vars st) \<longrightarrow> codel_vars_ok (st_vars st2)"
    using enter_accounts [OF assms] by blast
  show ?thesis
    using keep [of "\<lambda>v. v\<lparr>cv_dropping := False\<rparr>"] same loop enter ok_not_dropping [of "st_vars st"]
    by (cases "cv_dropping (st_vars st)"; cases dr; cases "codel_time_after_eq now (cv_drop_next (st_vars st))") auto
qed

lemma dequeue_empty:
  assumes "inv (st_world st)" and "queue (st_world st) = []"
  shows "codel_dequeue ops params ns st = Some (0, set_vars (\<lambda>v. v\<lparr>cv_dropping := False\<rparr>) st)"
  using take_empty [OF assms] by (simp add: codel_dequeue_def)

lemma dequeue_accounts:
  assumes "inv (st_world st)"
  shows "\<exists>q st' ds. codel_dequeue ops params ns st = Some (q, st') \<and>
    accounts ops queue dropped 2 (queue (st_world st)) st ds q st' \<and> inv (st_world st') \<and>
    (codel_vars_ok (st_vars st) \<and> unat (cv_count (st_vars st)) + length (queue (st_world st)) < 2 ^ 32 \<longrightarrow>
       codel_vars_ok (st_vars st')) \<and>
    (queue (st_world st) = [] \<or>
       \<not> fst (codel_should_drop ops params (fst (codel_take ops st)) (codel_get_time ns) (snd (codel_take ops st))) \<longrightarrow>
     ds = [] \<and> \<not> cv_dropping (st_vars st'))"
proof (cases "queue (st_world st)")
  case Nil
  let ?st = "set_vars (\<lambda>v. v\<lparr>cv_dropping := False\<rparr>) st"
  have "accounts ops queue dropped 2 [] st [] 0 ?st"
    using Nil by (simp add: accounts_def)
  then show ?thesis
    using assms Nil dequeue_empty [OF assms Nil] ok_not_dropping [of "st_vars st"] by auto
next
  case (Cons p ps)
  obtain w where w: "codel_take ops st = (p, st\<lparr>st_world := w\<rparr>)" "queue w = ps" "dropped w = dropped (st_world st)"
      "same_skbs (fst (st_world st)) (fst w)" "in_hand p (st\<lparr>st_world := w\<rparr>)"
    using take_next [OF assms Cons] by metis
  have p: "p \<noteq> 0"
    using w(5) by (simp add: in_hand_def)
  define now where "now = codel_get_time ns"
  define drop where "drop = fst (codel_should_drop ops params p now (st\<lparr>st_world := w\<rparr>))"
  define st1 where "st1 = snd (codel_should_drop ops params p now (st\<lparr>st_world := w\<rparr>))"
  have sd: "codel_should_drop ops params p now (st\<lparr>st_world := w\<rparr>) = (drop, st1)"
    by (simp add: drop_def st1_def)
  have st1: "st_world st1 = w" "in_hand p st1"
    using w(5) in_hand_same_world [of st1 "st\<lparr>st_world := w\<rparr>" p] by (simp_all add: st1_def)
  have "accounts ops queue dropped 0 (queue (st_world st)) st [] p st1"
    using Cons w p len_links [OF w(4)] same_skbs_fields(1) [OF w(4)] by (simp add: accounts_def st1_def)
  note acc1 = this [THEN accounts_trans, OF p]
  obtain q st2 ds where branch: "(if cv_dropping (st_vars st1) then
         if \<not> drop then Some (p, set_vars (\<lambda>v. v\<lparr>cv_dropping := False\<rparr>) st1)
         else if codel_time_after_eq now (cv_drop_next (st_vars st1)) then codel_drop_loop ops params now p st1
         else Some (p, st1)
       else if drop then Some (codel_enter ops params now p st1) else Some (p, st1)) = Some (q, st2)"
      and acc2: "accounts ops queue dropped 1 (p # queue (st_world st1)) st1 ds q st2" and "settled q st2"
      and quiet: "\<not> drop \<longrightarrow> ds = [] \<and> q = p \<and> \<not> cv_dropping (st_vars st2)"
      and ok: "codel_vars_ok (st_vars st1) \<and> unat (cv_count (st_vars st1)) + length (p # queue (st_world st1)) < 2 ^ 32 \<longrightarrow>
        codel_vars_ok (st_vars st2)"
    using branch_accounts [OF st1(2), of drop now params] by blast
  have acc: "accounts ops queue dropped 1 (queue (st_world st)) st ds q st2"
    using acc1 [OF acc2] by simp
  obtain st' where st': "codel_end ops params (q, st2) = (q, st')" "accounts ops queue dropped 2 (queue (st_world st)) st ds q st'"
      "settled q st'" "st_vars st' = st_vars st2"
    using end_accounts [OF acc \<open>settled q st2\<close>] by blast
  have "codel_dequeue ops params ns st = Some (q, st')"
    unfolding codel_dequeue_def Let_def w(1) prod.case now_def [symmetric] sd branch using p st'(1) by simp
  moreover have "inv (st_world st')"
    using st'(3) by (simp add: settled_def in_hand_def split: if_splits)
  moreover have "codel_vars_ok (st_vars st')"
    if "codel_vars_ok (st_vars st)" "unat (cv_count (st_vars st)) + length (queue (st_world st)) < 2 ^ 32"
    using that ok Cons w(2) st'(4) st1(1) by (simp add: st1_def)
  moreover have "ds = [] \<and> \<not> cv_dropping (st_vars st')"
    if "\<not> fst (codel_should_drop ops params (fst (codel_take ops st)) (codel_get_time ns) (snd (codel_take ops st)))"
    using that quiet st'(4) unfolding w(1) drop_def now_def by simp
  ultimately show ?thesis
    using st'(2) Cons by (intro exI [of _ q] exI [of _ st'] exI [of _ ds]) simp
qed

end

end
