(* ===== verification/Codel_Properties.thy ===== *)
theory Codel_Properties
  imports Codel_Dequeue Qdisc_Properties
begin

text \<open>
  The properties of CoDel: the control law, how long a queue must have been above the target before a packet is
  dropped, and the dequeue operation on the queue of a queueing discipline.
\<close>

section \<open>Time and the control law\<close>

lemma time_after_add: "codel_time_after (t + d) t \<longleftrightarrow> 0 < unat d \<and> unat d < 2 ^ 31"
proof -
  have uint_int: "uint d = int (unat d)"
    by simp
  have u: "0 \<le> uint d" "uint d < 4294967296"
    using unsigned_less [of d] by simp_all
  have "sint d = (uint d + 2147483648) mod 4294967296 - 2147483648"
    by (simp add: sint_uint signed_take_bit_eq_take_bit_shift take_bit_eq_mod)
  moreover have "(uint d + 2147483648) mod 4294967296 =
      (if uint d < 2147483648 then uint d + 2147483648 else uint d - 2147483648)"
    using u minus_mod_self2 [of "uint d + 2147483648" 4294967296] by (auto simp: mod_pos_pos_trivial)
  ultimately have "0 < sint d \<longleftrightarrow> 0 < uint d \<and> uint d < 2147483648"
    using u by auto
  moreover have "0 < unat d \<longleftrightarrow> 0 < uint d" "unat d < 2 ^ 31 \<longleftrightarrow> uint d < 2147483648"
    unfolding uint_int by (simp_all del: of_nat_unat)
  ultimately have "0 < sint d \<longleftrightarrow> 0 < unat d \<and> unat d < 2 ^ 31"
    by simp
  then show ?thesis
    by (simp only: codel_time_after_def add_diff_cancel_left')
qed

lemma time_to_us_exact:
  assumes "unat val < 4194304000"
  shows "unat (codel_time_to_us val) = unat val * 1024 div 1000"
proof -
  have "unat (push_bit 10 (ucast val :: u64)) = unat val * 1024"
    using u32_less [of val] by (simp add: unat_push_small unat_ucast_up)
  then have "unat (push_bit 10 (ucast val :: u64) div 1000) = unat val * 1024 div 1000"
    by (simp add: unat_div)
  moreover have "unat val * 1024 div 1000 < 2 ^ 32"
    using assms by simp
  ultimately show ?thesis
    by (simp add: codel_time_to_us_def CODEL_SHIFT_def NSEC_PER_USEC_def Let_def unsigned_ucast_eq take_bit_nat_eq_self)
qed

text \<open>
  C25. A Newton step on \<open>count\<close> and \<open>rec_inv_sqrt\<close> computes without wrap-around while \<open>count * rec_inv_sqrt\<^sup>2\<close> is at
  most three times its ideal value \<open>2\<^sup>3\<^sup>2\<close>, and its result never exceeds \<open>2\<^sup>1\<^sup>6 / sqrt count\<close>.  From a value below that
  it only grows, and the error shrinks quadratically up to two units of rounding.  The next drop is then at most
  \<open>interval / sqrt count\<close> away.  Times compare as serial numbers of half the range and convert to microseconds exactly below
  4194304000 units; the initial target and interval are 4882 and 97656 units, 5 and 100 milliseconds.
\<close>

theorem codel_control_bounds:
  assumes "unat (cv_count v) * (unat (cv_rec_inv_sqrt v))\<^sup>2 \<le> 3 * 2 ^ 32" and "cv_count v \<noteq> 0"
  shows "unat (cv_rec_inv_sqrt (codel_Newton_step v)) =
      (3 * 2 ^ 32 - unat (cv_count v) * (unat (cv_rec_inv_sqrt v))\<^sup>2) div 4 * unat (cv_rec_inv_sqrt v) div 2 ^ 31 \<and>
    unat (cv_count v) * (unat (cv_rec_inv_sqrt (codel_Newton_step v)))\<^sup>2 \<le> 2 ^ 32 \<and>
    (unat (cv_count v) * (unat (cv_rec_inv_sqrt v))\<^sup>2 \<le> 2 ^ 32 \<longrightarrow>
       cv_rec_inv_sqrt v \<le> cv_rec_inv_sqrt (codel_Newton_step v) \<and>
       (let R = 65536 / sqrt (real (unat (cv_count v)))
        in R - real (unat (cv_rec_inv_sqrt (codel_Newton_step v))) \<le>
             3 / 2 * (R - real (unat (cv_rec_inv_sqrt v)))\<^sup>2 / R + 2)) \<and>
    unat (cv_count v) *
      (unat (codel_control_law t interval (ucast (cv_rec_inv_sqrt (codel_Newton_step v))) - t))\<^sup>2 \<le> (unat interval)\<^sup>2 \<and>
    (codel_time_after (t + d) t \<longleftrightarrow> 0 < unat d \<and> unat d < 2 ^ 31) \<and>
    (unat d < 4194304000 \<longrightarrow> unat (codel_time_to_us d) = unat d * 1024 div 1000) \<and>
    cp_target (codel_params_init params) = 4882 \<and> cp_interval (codel_params_init params) = 97656"
proof -
  let ?c = "unat (cv_count v)" and ?r = "unat (cv_rec_inv_sqrt v)"
  have c: "0 < ?c"
    using assms(2) by (simp add: unat_gt_0)
  have r: "?r < 65536"
    by (rule u16_less)
  have step: "unat (cv_rec_inv_sqrt (codel_Newton_step v)) = newton_nat ?c ?r"
    using newton_step_exact [OF assms(1)] newton_fits [OF assms(1) c r] by simp
  have over: "?c * (unat (cv_rec_inv_sqrt (codel_Newton_step v)))\<^sup>2 \<le> 2 ^ 32"
    unfolding step by (rule newton_never_overshoots) (rule assms(1))
  show ?thesis
  proof (intro conjI impI)
    assume "?c * ?r\<^sup>2 \<le> 2 ^ 32"
    then show "cv_rec_inv_sqrt v \<le> cv_rec_inv_sqrt (codel_Newton_step v)"
      using newton_grows step by (simp add: word_le_nat_alt)
    show "let R = 65536 / sqrt (real ?c)
        in R - real (unat (cv_rec_inv_sqrt (codel_Newton_step v))) \<le> 3 / 2 * (R - real ?r)\<^sup>2 / R + 2"
      unfolding step Let_def by (rule newton_converges(2)) (fact | rule c r)+
  qed (use step over control_law_bound [OF over] time_after_add time_to_us_exact in
      \<open>simp_all only: newton_nat_def codel_params_init_def MS2TIME_def CODEL_SHIFT_def NSEC_PER_MSEC_def
        codel_params.select_convs codel_params.update_convs\<close>, simp_all)
qed

theorem codel_control_bounds_witness:
  "unat (cv_rec_inv_sqrt (codel_Newton_step
     \<lparr>cv_count = 2, cv_lastcount = 1, cv_dropping = True, cv_rec_inv_sqrt = 65535, cv_first_above_time = 0,
      cv_drop_next = 0, cv_ldelay = 0\<rparr>)) = 32769"
  using codel_control_bounds [of "\<lparr>cv_count = 2, cv_lastcount = 1, cv_dropping = True, cv_rec_inv_sqrt = 65535,
      cv_first_above_time = 0, cv_drop_next = 0, cv_ldelay = 0\<rparr>" 0 0 0 undefined]
  by simp

section \<open>When a packet may be dropped\<close>

text \<open>
  A call of \<open>codel_should_drop\<close> with its packet, time and the store and context at that moment, and the state behind a
  sequence of calls.  No other part of CoDel writes \<open>first_above_time\<close>.
\<close>

type_synonym 'c drop_check = "ptr \<times> u32 \<times> 'c world"

definition check_step :: "'c codel_ops \<Rightarrow> codel_params \<Rightarrow> 'c drop_check \<Rightarrow> 'c codel_st \<Rightarrow> bool \<times> 'c codel_st" where
  "check_step ops params = (\<lambda>(p, now, w) st. codel_should_drop ops params p now (st\<lparr>st_world := w\<rparr>))"

definition checks :: "'c codel_ops \<Rightarrow> codel_params \<Rightarrow> 'c drop_check list \<Rightarrow> 'c codel_st \<Rightarrow> 'c codel_st" where
  "checks ops params cs st = fold (\<lambda>c st. snd (check_step ops params c st)) cs st"

text \<open>The packet has waited for the target time or longer and more than \<open>mtu\<close> bytes are behind it.\<close>

definition above_target :: "'c codel_ops \<Rightarrow> codel_params \<Rightarrow> 'c drop_check \<Rightarrow> bool" where
  "above_target ops params = (\<lambda>(p, now, w).
     p \<noteq> 0 \<and> \<not> codel_time_before (now - skb_time_func ops (fst w) p) (cp_target params) \<and> cp_mtu params < op_backlog ops w)"

lemma should_drop_result:
  "fst (check_step ops params (p, now, w) st) \<longleftrightarrow>
     above_target ops params (p, now, w) \<and> cv_first_above_time (st_vars st) \<noteq> 0 \<and>
     codel_time_after now (cv_first_above_time (st_vars st))"
  "cv_first_above_time (st_vars (snd (check_step ops params (p, now, w) st))) =
     (if \<not> above_target ops params (p, now, w) then 0
      else if cv_first_above_time (st_vars st) = 0 then now + cp_interval params
      else cv_first_above_time (st_vars st))"
  by (cases w, simp add: check_step_def codel_should_drop_def Let_def, simp add: above_target_def, auto simp: not_le)+

definition above_since :: "'c codel_ops \<Rightarrow> codel_params \<Rightarrow> u32 \<Rightarrow> 'c drop_check list \<Rightarrow> bool" where
  "above_since ops params t cs \<longleftrightarrow>
     (\<exists>bs p w as. cs = bs @ (p, t, w) # as \<and> (\<forall>c\<in>set ((p, t, w) # as). above_target ops params c))"

lemma above_since_snoc: "above_since ops params t cs \<Longrightarrow> above_target ops params c \<Longrightarrow> above_since ops params t (cs @ [c])"
  unfolding above_since_def
  by (elim exE conjE, rule_tac x = bs in exI, rule_tac x = p in exI, rule_tac x = w in exI, rule_tac x = "as @ [c]" in exI) auto

lemma above_since_last: "above_target ops params (p, t, w) \<Longrightarrow> above_since ops params t (cs @ [(p, t, w)])"
  unfolding above_since_def
  by (intro exI [of _ cs] exI [of _ p] exI [of _ w] exI [of _ "[]"]) simp

lemma first_above_history:
  assumes "cv_first_above_time (st_vars st) = 0" and "cv_first_above_time (st_vars (checks ops params cs st)) \<noteq> 0"
  shows "\<exists>t. above_since ops params t cs \<and> cv_first_above_time (st_vars (checks ops params cs st)) = t + cp_interval params"
  using assms(2)
proof (induction cs rule: rev_induct)
  case Nil
  then show ?case
    using assms(1) by (simp add: checks_def)
next
  case (snoc c cs)
  obtain p now w where c: "c = (p, now, w)"
    by (cases c)
  have step: "checks ops params (cs @ [c]) st = snd (check_step ops params (p, now, w) (checks ops params cs st))"
    by (simp add: checks_def c)
  have above: "above_target ops params (p, now, w)"
    using snoc.prems unfolding step should_drop_result by (simp split: if_splits)
  show ?case
  proof (cases "cv_first_above_time (st_vars (checks ops params cs st)) = 0")
    case True
    then show ?thesis
      using above above_since_last [OF above] unfolding step should_drop_result unfolding c by (simp only: if_True if_False simp_thms) blast
  next
    case False
    then show ?thesis
      using snoc.IH above above_since_snoc [OF _ above] unfolding step should_drop_result unfolding c by (simp only: if_True if_False simp_thms) blast
  qed
qed

text \<open>
  C24. \<open>codel_should_drop\<close> lets a packet be dropped only after the queue has been above the target for an interval: there is an
  earlier call from which on every packet, up to this one, had waited for the target time or longer with more than \<open>mtu\<close> bytes
  behind it, and the present time is more than one interval after that call.  It never does for \<open>NULL\<close>.
\<close>

theorem codel_drop_needs_interval:
  assumes "cv_first_above_time (st_vars st) = 0"
    and "fst (codel_should_drop ops params p now ((checks ops params cs st)\<lparr>st_world := w\<rparr>))"
  shows "\<exists>t. above_since ops params t cs \<and> above_target ops params (p, now, w) \<and>
    codel_time_after now (t + cp_interval params) \<and> p \<noteq> 0"
proof -
  have "fst (check_step ops params (p, now, w) (checks ops params cs st))"
    using assms(2) by (simp add: check_step_def)
  then have "above_target ops params (p, now, w)" "cv_first_above_time (st_vars (checks ops params cs st)) \<noteq> 0"
      "codel_time_after now (cv_first_above_time (st_vars (checks ops params cs st)))"
    by (simp_all add: should_drop_result)
  with first_above_history [OF assms(1), of ops params cs] show ?thesis
    by (auto simp: above_target_def)
qed

section \<open>CoDel on the queue of a queueing discipline\<close>

text \<open>
  The callbacks of a discipline whose packets are queued by \<open>qdisc_enqueue_tail\<close>: packets are taken by \<open>qdisc_dequeue_head\<close>
  and dropped by \<open>qdisc_drop\<close>.  The context is the discipline and the list of packets to free.
\<close>

definition qdisc_codel_ops :: "byteorder \<Rightarrow> copy_bits \<Rightarrow> (qdisc \<times> ptr) codel_ops" where
  "qdisc_codel_ops E copy_bits =
     \<lparr>op_byteorder = E, op_copy_bits = copy_bits, skb_len_func = qdisc_pkt_len, skb_time_func = codel_get_enqueue_time,
       drop_func = (\<lambda>skb w. snd (qdisc_drop skb w)),
       dequeue_func = (\<lambda>vars (m, sch, to_free). case qdisc_dequeue_head (m, sch) of (skb, m, sch) \<Rightarrow> (skb, vars, m, sch, to_free)),
       op_backlog = (\<lambda>(m, sch, to_free). qs_backlog (qd_qstats sch))\<rparr>"

lemma qdisc_codel_ops_simps [simp]:
  "op_byteorder (qdisc_codel_ops E copy_bits) = E" "op_copy_bits (qdisc_codel_ops E copy_bits) = copy_bits"
  "skb_len_func (qdisc_codel_ops E copy_bits) = qdisc_pkt_len"
  "skb_time_func (qdisc_codel_ops E copy_bits) = codel_get_enqueue_time"
  "drop_func (qdisc_codel_ops E copy_bits) p w = snd (qdisc_drop p w)"
  "dequeue_func (qdisc_codel_ops E copy_bits) v (m, sch, f) =
     (case qdisc_dequeue_head (m, sch) of (skb, m, sch) \<Rightarrow> (skb, v, m, sch, f))"
  "op_backlog (qdisc_codel_ops E copy_bits) (m, sch, f) = qs_backlog (qd_qstats sch)"
  by (simp_all add: qdisc_codel_ops_def)

text \<open>The list of packets linked from an address, and what holds of the discipline and the packets to free.\<close>

definition skb_list :: "skb_store \<Rightarrow> ptr \<Rightarrow> ptr list" where
  "skb_list m p = (THE xs. skb_seg m p xs 0)"

lemma skb_seg_unique: "skb_seg m p xs 0 \<Longrightarrow> skb_seg m p ys 0 \<Longrightarrow> xs = ys"
proof (induction xs arbitrary: p ys)
  case Nil
  then show ?case by (cases ys) simp_all
next
  case (Cons x xs)
  then show ?case by (cases ys) simp_all
qed

lemma skb_list_eq: "skb_seg m p xs 0 \<Longrightarrow> skb_list m p = xs"
  unfolding skb_list_def by (blast intro: skb_seg_unique)

definition world_rep :: "(qdisc \<times> ptr) world \<Rightarrow> ptr list \<Rightarrow> ptr list \<Rightarrow> bool" where
  "world_rep = (\<lambda>(m, sch, f) xs fs. qdisc_rep m sch xs \<and> skb_seg m f fs 0 \<and> distinct (xs @ fs))"

definition world_queue :: "(qdisc \<times> ptr) world \<Rightarrow> ptr list" where
  "world_queue = (\<lambda>(m, sch, f). skb_list m (qh_head (qd_q sch)))"

definition world_dropped :: "(qdisc \<times> ptr) world \<Rightarrow> ptr list" where
  "world_dropped = (\<lambda>(m, sch, f). skb_list m f)"

lemma world_rep_lists: "world_rep w xs fs \<Longrightarrow> world_queue w = xs" "world_rep w xs fs \<Longrightarrow> world_dropped w = fs"
  by (cases w; simp add: world_rep_def world_queue_def world_dropped_def qdisc_rep_def qrep_def skb_list_eq)+

lemma skb_seg_contents [simp]: "skb_seg (m(p := (m p)\<lparr>o_skb := b\<rparr>)) q xs e = skb_seg m q xs e"
  by (induction xs arbitrary: q) auto

lemma pkt_len_contents [simp]: "qdisc_pkt_len (m(p := (m p)\<lparr>o_skb := b\<rparr>)) = qdisc_pkt_len m"
  by (simp add: fun_eq_iff qdisc_pkt_len_def)

lemma world_mark: "world_rep (m, c) xs fs \<Longrightarrow> world_rep (m(p := (m p)\<lparr>o_skb := b\<rparr>), c) xs fs"
  by (cases c) (simp add: world_rep_def qdisc_rep_def qrep_def pkt_bytes_def)

lemma world_dequeue:
  assumes "world_rep w (p # ps) fs"
  shows "\<exists>w'. dequeue_func (qdisc_codel_ops E cb) v w = (p, v, w') \<and> world_rep w' ps fs \<and> same_skbs (fst w) (fst w')"
proof -
  obtain m sch f where w: "w = (m, sch, f)"
    by (cases w)
  then obtain sch' where "qdisc_dequeue_head (m, sch) = (p, set_next p 0 m, sch')" "qdisc_rep (set_next p 0 m) sch' ps"
    using qdisc_dequeue_rep [of m sch p ps] assms by (auto simp: world_rep_def)
  with assms w show ?thesis
    by (auto simp: world_rep_def)
qed

lemma world_drop:
  assumes "world_rep w xs fs" and "p \<noteq> 0" and "p \<notin> set (xs @ fs)"
  shows "world_rep (drop_func (qdisc_codel_ops E cb) p w) xs (p # fs)"
    and "same_skbs (fst w) (fst (drop_func (qdisc_codel_ops E cb) p w))"
proof -
  obtain m sch f where w: "w = (m, sch, f)"
    by (cases w)
  with assms have rep: "qdisc_rep m sch xs" "skb_seg m f fs 0" "p \<notin> set xs" "p \<notin> set fs"
    by (auto simp: world_rep_def)
  note d = qdisc_drop_rep [OF rep(1,2) assms(2) rep(3,4)]
  show "world_rep (drop_func (qdisc_codel_ops E cb) p w) xs (p # fs)"
    using d assms(1,3) w by (auto simp: world_rep_def)
  show "same_skbs (fst w) (fst (drop_func (qdisc_codel_ops E cb) p w))"
    using d(1) w by simp
qed

interpretation qd: codel_queue "qdisc_codel_ops E copy_bits" "\<lambda>w. \<exists>xs fs. world_rep w xs fs" world_queue world_dropped
  for E copy_bits
proof (unfold_locales, goal_cases)
  case (1 w v)
  then obtain fs where "world_rep w [] fs"
    using world_rep_lists by metis
  then show ?case
    by (cases w) (auto simp: world_rep_def dest: qdisc_dequeue_empty)
next
  case (2 w p ps v)
  then obtain fs where "world_rep w (p # ps) fs"
    using world_rep_lists by metis
  with world_dequeue [OF this] show ?case
    using world_rep_lists by metis
next
  case (3 w)
  then obtain xs fs where rep: "world_rep w xs fs"
    by blast
  then have "distinct (xs @ fs)" "0 \<notin> set xs"
    using skb_seg_nonnull by (cases w; force simp: world_rep_def qdisc_rep_def qrep_def)+
  with rep show ?case
    by (simp add: world_rep_lists [OF rep])
next
  case (4 w p)
  then obtain xs fs where rep: "world_rep w xs fs"
    by blast
  with 4 have "p \<notin> set (xs @ fs)"
    by (simp add: world_rep_lists [OF rep])
  with world_drop [OF rep 4(2)] show ?case
    using world_rep_lists [OF rep] world_rep_lists by metis
next
  case (5 m c p b)
  then obtain xs fs where rep: "world_rep (m, c) xs fs"
    by blast
  with world_mark [OF rep] show ?case
    using world_rep_lists by metis
next
  case (6 m m')
  then show ?case
    by (simp add: fun_eq_iff same_skbs_fields)
next
  case (7 m p b)
  then show ?case by simp
qed

text \<open>A head packet below the target, or with at most \<open>mtu\<close> bytes behind it, is not to be dropped.\<close>

lemma quiet_head:
  assumes "st_world st = (m, sch, f)" and "qdisc_rep m sch (p # ps)"
    and "codel_time_before (now - o_enqueue_time (m p)) (cp_target params) \<or> pkt_bytes m ps \<le> cp_mtu params"
  shows "\<not> fst (codel_should_drop (qdisc_codel_ops E cb) params (fst (codel_take (qdisc_codel_ops E cb) st)) now
    (snd (codel_take (qdisc_codel_ops E cb) st)))"
proof -
  obtain sch' where deq: "qdisc_dequeue_head (m, sch) = (p, set_next p 0 m, sch')" "qdisc_rep (set_next p 0 m) sch' ps"
    using qdisc_dequeue_rep [OF assms(2)] by blast
  let ?w = "(set_next p 0 m, sch', f)"
  have take: "codel_take (qdisc_codel_ops E cb) st = (p, st\<lparr>st_world := ?w\<rparr>)"
    using assms(1) deq(1) by (simp add: codel_take_def)
  have "qs_backlog (qd_qstats sch') = pkt_bytes m ps"
    using deq(2) by (simp add: qdisc_rep_def)
  then have "\<not> above_target (qdisc_codel_ops E cb) params (p, now, ?w)"
    using assms(3) by (auto simp: above_target_def codel_get_enqueue_time_def)
  then have "\<not> fst (check_step (qdisc_codel_ops E cb) params (p, now, ?w) st)"
    by (simp only: should_drop_result simp_thms)
  then show ?thesis
    by (simp add: take check_step_def)
qed

lemma quiet_queue:
  assumes "st_world st = (m, sch, f)" and "qdisc_rep m sch xs"
    and "xs = [] \<or> codel_time_before (now - o_enqueue_time (m (hd xs))) (cp_target params) \<or>
      pkt_bytes m (tl xs) \<le> cp_mtu params"
  shows "xs = [] \<or> \<not> fst (codel_should_drop (qdisc_codel_ops E cb) params (fst (codel_take (qdisc_codel_ops E cb) st)) now
    (snd (codel_take (qdisc_codel_ops E cb) st)))"
proof (cases xs)
  case (Cons p ps)
  with quiet_head [of st m sch f p ps now params E cb] assms show ?thesis
    by auto
qed simp

text \<open>
  C21. On the queue of a discipline \<open>codel_dequeue\<close> returns, and accounts for every packet: those in front of the returned one
  are dropped, moved to the list of packets to free and counted with their bytes; the returned packet is the next one, its
  contents marked at most twice; the rest stays queued, unchanged and in order; \<open>NULL\<close> only if nothing is left.  The
  backlog stays the bytes of the queue and the variables of the control law stay in range.  A head packet below the target or with at
  most \<open>mtu\<close> bytes behind it is returned and ends the dropping state.
\<close>

theorem codel_dequeue_accounts:
  assumes "st_world st = (m, sch, f)" and "qdisc_rep m sch xs" and "skb_seg m f fs 0" and "distinct (xs @ fs)"
    and "codel_vars_ok (st_vars st)" and "unat (cv_count (st_vars st)) + length xs < 2 ^ 32"
  shows "\<exists>q st' ds m' sch' f' ys.
    codel_dequeue (qdisc_codel_ops E cb) params ns st = Some (q, st') \<and> st_world st' = (m', sch', f') \<and>
    qdisc_rep m' sch' ys \<and> skb_seg m' f' (rev ds @ fs) 0 \<and> distinct (ys @ rev ds @ fs) \<and>
    xs = ds @ (if q = 0 then [] else [q]) @ ys \<and> (q = 0 \<longrightarrow> ys = []) \<and>
    cs_drop_count (st_stats st') = cs_drop_count (st_stats st) + word_of_nat (length ds) \<and>
    cs_drop_len (st_stats st') = cs_drop_len (st_stats st) + pkt_bytes m ds \<and>
    (\<forall>x\<in>set ys. o_skb (m' x) = o_skb (m x)) \<and>
    (q \<noteq> 0 \<longrightarrow> (\<exists>n\<le>2. o_skb (m' q) = ((\<lambda>b. snd (INET_ECN_set_ce E cb b)) ^^ n) (o_skb (m q)))) \<and>
    codel_vars_ok (st_vars st') \<and>
    (xs = [] \<or> codel_time_before (codel_get_time ns - o_enqueue_time (m (hd xs))) (cp_target params) \<or>
       pkt_bytes m (tl xs) \<le> cp_mtu params \<longrightarrow> ds = [] \<and> \<not> cv_dropping (st_vars st'))"
proof -
  let ?ops = "qdisc_codel_ops E cb"
  have rep: "world_rep (st_world st) xs fs"
    using assms(1-4) by (simp add: world_rep_def)
  note lists = world_rep_lists [OF rep]
  obtain q st' ds where run: "codel_dequeue ?ops params ns st = Some (q, st')"
      and acc: "accounts ?ops world_queue world_dropped 2 xs st ds q st'"
      and inv: "\<exists>ys gs. world_rep (st_world st') ys gs"
      and ok: "codel_vars_ok (st_vars st')"
      and quiet: "xs = [] \<or> \<not> fst (codel_should_drop ?ops params (fst (codel_take ?ops st)) (codel_get_time ns)
        (snd (codel_take ?ops st))) \<longrightarrow> ds = [] \<and> \<not> cv_dropping (st_vars st')"
    using qd.dequeue_accounts [of st E cb params ns] rep assms(5,6) unfolding lists by blast
  obtain m' sch' f' where w': "st_world st' = (m', sch', f')"
    by (cases "st_world st'")
  obtain ys gs where ys: "world_rep (st_world st') ys gs"
    using inv by blast
  note lists' = world_rep_lists [OF ys]
  have gs: "gs = rev ds @ fs"
    using acc by (simp add: accounts_def lists lists')
  have mark: "ce_mark ?ops = (\<lambda>b. snd (INET_ECN_set_ce E cb b))"
    by (simp add: fun_eq_iff ce_mark_def)
  have parts: "xs = ds @ (if q = 0 then [] else [q]) @ ys" "q = 0 \<longrightarrow> ys = []"
      "cs_drop_count (st_stats st') = cs_drop_count (st_stats st) + word_of_nat (length ds)"
      "cs_drop_len (st_stats st') = cs_drop_len (st_stats st) + pkt_bytes m ds"
      "\<forall>x\<in>set ys. o_skb (m' x) = o_skb (m x)"
      "q \<noteq> 0 \<longrightarrow> (\<exists>n\<le>2. o_skb (m' q) = ((\<lambda>b. snd (INET_ECN_set_ce E cb b)) ^^ n) (o_skb (m q)))"
    using acc unfolding accounts_def lists lists' unfolding mark w' assms(1) pkt_bytes_def by (blast, simp_all)
  have reps: "qdisc_rep m' sch' ys" "skb_seg m' f' (rev ds @ fs) 0" "distinct (ys @ rev ds @ fs)"
    using ys unfolding w' gs by (simp_all add: world_rep_def)
  have "ds = [] \<and> \<not> cv_dropping (st_vars st')"
    if "xs = [] \<or> codel_time_before (codel_get_time ns - o_enqueue_time (m (hd xs))) (cp_target params) \<or>
       pkt_bytes m (tl xs) \<le> cp_mtu params"
    using quiet quiet_queue [OF assms(1,2) that] by blast
  with run w' reps parts ok show ?thesis
    by (intro exI [of _ q] exI [of _ st'] exI [of _ ds] exI [of _ m'] exI [of _ sch'] exI [of _ f'] exI [of _ ys] conjI)
      (assumption | blast)+
qed

text \<open>A queue of two packets and CoDel in its initial state with the default parameters.\<close>

definition sample_params :: "u32 \<Rightarrow> codel_params" where
  "sample_params mtu = codel_params_init \<lparr>cp_target = 0, cp_ce_threshold = 0, cp_interval = 0, cp_mtu = mtu, cp_ecn = True\<rparr>"

definition sample_codel :: "(qdisc \<times> ptr) codel_st" where
  "sample_codel =
     \<lparr>st_vars = codel_vars_init undefined,
       st_stats = \<lparr>cs_maxpacket = 0, cs_drop_count = 0, cs_drop_len = 0, cs_ecn_mark = 0, cs_ce_mark = 0\<rparr>,
       st_world = (sample_skbs, sample_qdisc, 0x30)\<rparr>"

lemma sample_params_values:
  "cp_target (sample_params mtu) = 4882" "cp_interval (sample_params mtu) = 97656" "cp_mtu (sample_params mtu) = mtu"
  by (simp_all add: sample_params_def codel_params_init_def MS2TIME_def CODEL_SHIFT_def NSEC_PER_MSEC_def)

theorem codel_dequeue_accounts_witness:
  "\<exists>st' m' sch' f'. codel_dequeue (qdisc_codel_ops Little_Endian (\<lambda>_ _ _. None)) (sample_params 1500) 2048000000 sample_codel =
       Some (0x10, st') \<and> st_world st' = (m', sch', f') \<and> qdisc_rep m' sch' [0x20]"
proof -
  have pre: "st_world sample_codel = (sample_skbs, sample_qdisc, 0x30)" "distinct ([0x10, 0x20] @ [0x30 :: ptr])"
      "codel_vars_ok (st_vars sample_codel)"
      "unat (cv_count (st_vars sample_codel)) + length [0x10, 0x20 :: ptr] < 2 ^ 32"
    by (simp_all add: sample_codel_def codel_vars_init_def codel_vars_ok_def)
  have quiet: "pkt_bytes sample_skbs (tl [0x10, 0x20]) \<le> cp_mtu (sample_params 1500)"
    by (simp add: qdisc_pkt_len_def sample_skbs_def sample_obj_def sample_params_values)
  obtain q st' ds m' sch' f' ys where run:
      "codel_dequeue (qdisc_codel_ops Little_Endian (\<lambda>_ _ _. None)) (sample_params 1500) 2048000000 sample_codel = Some (q, st')"
      "st_world st' = (m', sch', f')" "qdisc_rep m' sch' ys" "[0x10, 0x20] = ds @ (if q = 0 then [] else [q]) @ ys"
      "q = 0 \<longrightarrow> ys = []" "ds = []"
    using codel_dequeue_accounts [OF pre(1) sample_qdisc_rep pre(2-4), of Little_Endian "\<lambda>_ _ _. None" "sample_params 1500"
        2048000000] quiet by blast
  then have "q = 0x10" "ys = [0x20]"
    by (cases "q = 0"; simp)+
  with run show ?thesis
    by blast
qed

theorem codel_drop_needs_interval_witness:
  "\<exists>t. above_since (qdisc_codel_ops Little_Endian (\<lambda>_ _ _. None)) (sample_params 50) t
       [(0x10, 600000, sample_skbs, sample_qdisc, 0x30)] \<and> codel_time_after 700000 (t + 97656)"
proof -
  let ?ops = "qdisc_codel_ops Little_Endian (\<lambda>_ _ _. None)" and ?w = "(sample_skbs, sample_qdisc, 0x30 :: ptr)"
  have above: "above_target ?ops (sample_params 50) (0x10, 600000, ?w)" "above_target ?ops (sample_params 50) (0x10, 700000, ?w)"
    by (simp_all add: above_target_def sample_params_values codel_time_before_def codel_time_after_def codel_get_enqueue_time_def
        sample_skbs_def sample_obj_def sample_qdisc_def)
  have init: "cv_first_above_time (st_vars sample_codel) = 0"
    by (simp add: sample_codel_def codel_vars_init_def)
  have "fst (check_step ?ops (sample_params 50) (0x10, 700000, ?w) (checks ?ops (sample_params 50) [(0x10, 600000, ?w)] sample_codel))"
    using above init by (simp add: should_drop_result checks_def sample_params_values codel_time_after_def)
  then show ?thesis
    using codel_drop_needs_interval [OF init, where ops = ?ops and params = "sample_params 50" and p = "0x10" and now = 700000
        and cs = "[(0x10, 600000, ?w)]" and w = ?w]
    by (auto simp: check_step_def sample_params_values)
qed

end
