(* ===== verification/Etherdevice.thy ===== *)
theory Etherdevice
  imports Ecn_Properties
begin

text \<open>
  Ethernet addresses, \<open>linux/etherdevice.h\<close>: tests, comparisons, copies, the conversion to and from a
  64 bit integer and the generation of addresses.

  An address is an array of bytes: six of them, eight where a function reads two bytes of padding, fourteen for a
  whole Ethernet header.  A load through \<open>(const u16 *)\<close>, \<open>(const u32 *)\<close> or \<open>(const u64 *)\<close> combines bytes in the order of the
  machine.  The functions choose their loads by the configuration, which is a parameter: the byte order,
  \<open>CONFIG_HAVE_EFFICIENT_UNALIGNED_ACCESS\<close> and whether \<open>BITS_PER_LONG\<close> is 64.  The bytes of \<open>get_random_bytes\<close> are
  an argument.
\<close>

unbundle bit_operations_syntax

section \<open>Configuration and loads\<close>

record eth_cfg =
  cfg_order :: byteorder
  cfg_unaligned :: bool
  cfg_long64 :: bool

definition raw64 :: "byteorder \<Rightarrow> u8 \<Rightarrow> u8 \<Rightarrow> u8 \<Rightarrow> u8 \<Rightarrow> u8 \<Rightarrow> u8 \<Rightarrow> u8 \<Rightarrow> u8 \<Rightarrow> u64" where
  "raw64 E a b c d e f g h =
     (case E of
        Big_Endian \<Rightarrow> push_bit 32 (ucast (be32 a b c d)) OR ucast (be32 e f g h)
      | Little_Endian \<Rightarrow> push_bit 32 (ucast (be32 h g f e)) OR ucast (be32 d c b a))"

definition load16 :: "eth_cfg \<Rightarrow> u8 list \<Rightarrow> nat \<Rightarrow> u16" where
  "load16 cfg a i = raw16 (cfg_order cfg) (a ! i) (a ! (i + 1))"

definition load32 :: "eth_cfg \<Rightarrow> u8 list \<Rightarrow> nat \<Rightarrow> u32" where
  "load32 cfg a i = raw32 (cfg_order cfg) (a ! i) (a ! (i + 1)) (a ! (i + 2)) (a ! (i + 3))"

definition load64 :: "eth_cfg \<Rightarrow> u8 list \<Rightarrow> nat \<Rightarrow> u64" where
  "load64 cfg a i = raw64 (cfg_order cfg) (a ! i) (a ! (i + 1)) (a ! (i + 2)) (a ! (i + 3))
     (a ! (i + 4)) (a ! (i + 5)) (a ! (i + 6)) (a ! (i + 7))"

definition ETH_ALEN :: nat where "ETH_ALEN = 6"
definition ETH_P_802_3_MIN :: u16 where "ETH_P_802_3_MIN = 0x0600"
definition NET_ADDR_RANDOM :: u8 where "NET_ADDR_RANDOM = 1"

definition eth_reserved_addr_base :: "u8 list" where
  "eth_reserved_addr_base = [0x01, 0x80, 0xc2, 0x00, 0x00, 0x00]"

section \<open>Tests\<close>

definition is_link_local_ether_addr :: "eth_cfg \<Rightarrow> u8 list \<Rightarrow> bool" where
  "is_link_local_ether_addr cfg addr =
     (let a = load16 cfg addr; b = load16 cfg eth_reserved_addr_base; m = htons (cfg_order cfg) 0xfff0
      in if cfg_unaligned cfg
         then (load32 cfg addr 0 XOR load32 cfg eth_reserved_addr_base 0) OR ucast ((a 4 XOR b 4) AND m) = 0
         else (a 0 XOR b 0) OR (a 2 XOR b 2) OR ((a 4 XOR b 4) AND m) = 0)"

definition is_zero_ether_addr :: "eth_cfg \<Rightarrow> u8 list \<Rightarrow> bool" where
  "is_zero_ether_addr cfg addr =
     (if cfg_unaligned cfg then load32 cfg addr 0 OR ucast (load16 cfg addr 4) = 0
      else load16 cfg addr 0 OR load16 cfg addr 2 OR load16 cfg addr 4 = 0)"

definition is_multicast_ether_addr :: "eth_cfg \<Rightarrow> u8 list \<Rightarrow> bool" where
  "is_multicast_ether_addr cfg addr =
     (if cfg_unaligned cfg then
        let a = load32 cfg addr 0
        in (case cfg_order cfg of Big_Endian \<Rightarrow> 1 AND drop_bit (4 * 8 - 8) a \<noteq> 0 | Little_Endian \<Rightarrow> 1 AND a \<noteq> 0)
      else
        let a = load16 cfg addr 0
        in (case cfg_order cfg of Big_Endian \<Rightarrow> 1 AND drop_bit (2 * 8 - 8) a \<noteq> 0 | Little_Endian \<Rightarrow> 1 AND a \<noteq> 0))"

definition is_multicast_ether_addr_64bits :: "eth_cfg \<Rightarrow> u8 list \<Rightarrow> bool" where
  "is_multicast_ether_addr_64bits cfg addr =
     (if cfg_unaligned cfg \<and> cfg_long64 cfg then
        (case cfg_order cfg of
           Big_Endian \<Rightarrow> 1 AND drop_bit 56 (load64 cfg addr 0) \<noteq> 0
         | Little_Endian \<Rightarrow> 1 AND load64 cfg addr 0 \<noteq> 0)
      else is_multicast_ether_addr cfg addr)"

definition is_local_ether_addr :: "u8 list \<Rightarrow> bool" where
  "is_local_ether_addr addr \<longleftrightarrow> 2 AND addr ! 0 \<noteq> 0"

definition is_broadcast_ether_addr :: "eth_cfg \<Rightarrow> u8 list \<Rightarrow> bool" where
  "is_broadcast_ether_addr cfg addr \<longleftrightarrow>
     load16 cfg addr 0 AND load16 cfg addr 2 AND load16 cfg addr 4 = 0xffff"

definition is_unicast_ether_addr :: "eth_cfg \<Rightarrow> u8 list \<Rightarrow> bool" where
  "is_unicast_ether_addr cfg addr = (\<not> is_multicast_ether_addr cfg addr)"

definition is_valid_ether_addr :: "eth_cfg \<Rightarrow> u8 list \<Rightarrow> bool" where
  "is_valid_ether_addr cfg addr = (\<not> is_multicast_ether_addr cfg addr \<and> \<not> is_zero_ether_addr cfg addr)"

definition eth_proto_is_802_3 :: "byteorder \<Rightarrow> u16 \<Rightarrow> bool" where
  "eth_proto_is_802_3 E proto =
     (let proto = (case E of Little_Endian \<Rightarrow> proto AND htons E 0xFF00 | Big_Endian \<Rightarrow> proto)
      in htons E ETH_P_802_3_MIN \<le> proto)"

section \<open>Writing addresses\<close>

definition eth_random_addr :: "u8 list \<Rightarrow> u8 list \<Rightarrow> u8 list" where
  "eth_random_addr random_bytes addr =
     (let addr = memcpy_at addr 0 random_bytes;
          addr = store addr 0 (addr ! 0 AND 0xfe)
      in store addr 0 (addr ! 0 OR 0x02))"

definition eth_broadcast_addr :: "u8 list \<Rightarrow> u8 list" where
  "eth_broadcast_addr addr = memcpy_at addr 0 (replicate ETH_ALEN 0xff)"

definition eth_zero_addr :: "u8 list \<Rightarrow> u8 list" where
  "eth_zero_addr addr = memcpy_at addr 0 (replicate ETH_ALEN 0x00)"

definition ether_addr_copy :: "eth_cfg \<Rightarrow> u8 list \<Rightarrow> u8 list \<Rightarrow> u8 list" where
  "ether_addr_copy cfg dst src =
     (let E = cfg_order cfg
      in if cfg_unaligned cfg
         then memcpy_at (memcpy_at dst 0 (bytes32 E (load32 cfg src 0))) 4 (bytes16 E (load16 cfg src 4))
         else memcpy_at (memcpy_at (memcpy_at dst 0 (bytes16 E (load16 cfg src 0))) 2 (bytes16 E (load16 cfg src 2)))
           4 (bytes16 E (load16 cfg src 4)))"

text \<open>A device with its address, where the address comes from, and the list of all its addresses.\<close>

record eth_device =
  dev_addr :: "u8 list"
  dev_addr_assign_type :: u8
  dev_addrs :: "u8 list list"

definition eth_hw_addr_random :: "u8 list \<Rightarrow> eth_device \<Rightarrow> eth_device" where
  "eth_hw_addr_random random_bytes dev =
     (let dev = dev\<lparr>dev_addr_assign_type := NET_ADDR_RANDOM\<rparr>
      in dev\<lparr>dev_addr := eth_random_addr random_bytes (dev_addr dev)\<rparr>)"

definition eth_hw_addr_inherit :: "eth_cfg \<Rightarrow> eth_device \<Rightarrow> eth_device \<Rightarrow> eth_device" where
  "eth_hw_addr_inherit cfg dst src =
     (let dst = dst\<lparr>dev_addr_assign_type := dev_addr_assign_type src\<rparr>
      in dst\<lparr>dev_addr := ether_addr_copy cfg (dev_addr dst) (dev_addr src)\<rparr>)"

section \<open>Comparisons\<close>

definition ether_addr_equal :: "eth_cfg \<Rightarrow> u8 list \<Rightarrow> u8 list \<Rightarrow> bool" where
  "ether_addr_equal cfg addr1 addr2 =
     (if cfg_unaligned cfg then
        let fold = (load32 cfg addr1 0 XOR load32 cfg addr2 0) OR ucast (load16 cfg addr1 4 XOR load16 cfg addr2 4)
        in fold = 0
      else
        let a = load16 cfg addr1; b = load16 cfg addr2
        in (a 0 XOR b 0) OR (a 2 XOR b 2) OR (a 4 XOR b 4) = 0)"

definition ether_addr_equal_64bits :: "eth_cfg \<Rightarrow> u8 list \<Rightarrow> u8 list \<Rightarrow> bool" where
  "ether_addr_equal_64bits cfg addr1 addr2 =
     (if cfg_unaligned cfg \<and> cfg_long64 cfg then
        let fold = load64 cfg addr1 0 XOR load64 cfg addr2 0
        in (case cfg_order cfg of Big_Endian \<Rightarrow> drop_bit 16 fold = 0 | Little_Endian \<Rightarrow> push_bit 16 fold = 0)
      else ether_addr_equal cfg addr1 addr2)"

definition ether_addr_equal_unaligned :: "eth_cfg \<Rightarrow> u8 list \<Rightarrow> u8 list \<Rightarrow> bool" where
  "ether_addr_equal_unaligned cfg addr1 addr2 =
     (if cfg_unaligned cfg then ether_addr_equal cfg addr1 addr2
      else take ETH_ALEN addr1 = take ETH_ALEN addr2)"

fun masked_loop :: "u8 list \<Rightarrow> u8 list \<Rightarrow> u8 list \<Rightarrow> nat list \<Rightarrow> bool" where
  "masked_loop addr1 addr2 m [] = True"
| "masked_loop addr1 addr2 m (i # is) =
     (if (addr1 ! i XOR addr2 ! i) AND m ! i \<noteq> 0 then False else masked_loop addr1 addr2 m is)"

definition ether_addr_equal_masked :: "u8 list \<Rightarrow> u8 list \<Rightarrow> u8 list \<Rightarrow> bool" where
  "ether_addr_equal_masked addr1 addr2 m = masked_loop addr1 addr2 m [0..<ETH_ALEN]"

fun etherdev_loop :: "eth_cfg \<Rightarrow> u8 list \<Rightarrow> u8 list list \<Rightarrow> bool \<Rightarrow> bool" where
  "etherdev_loop cfg addr [] res = res"
| "etherdev_loop cfg addr (ha # has) res =
     (let res = ether_addr_equal_64bits cfg addr ha in if res then res else etherdev_loop cfg addr has res)"

definition is_etherdev_addr :: "eth_cfg \<Rightarrow> eth_device \<Rightarrow> u8 list \<Rightarrow> bool" where
  "is_etherdev_addr cfg dev addr = etherdev_loop cfg addr (dev_addrs dev) False"

definition compare_ether_header :: "eth_cfg \<Rightarrow> u8 list \<Rightarrow> u8 list \<Rightarrow> u64" where
  "compare_ether_header cfg a b =
     (if cfg_unaligned cfg \<and> cfg_long64 cfg then
        let fold = load64 cfg a 0 XOR load64 cfg b 0
        in fold OR (load64 cfg a 6 XOR load64 cfg b 6)
      else
        ucast (ucast (load16 cfg a 0 XOR load16 cfg b 0) OR (load32 cfg a 2 XOR load32 cfg b 2) OR
          (load32 cfg a 6 XOR load32 cfg b 6) OR (load32 cfg a 10 XOR load32 cfg b 10)))"

section \<open>Addresses as integers\<close>

definition ether_addr_to_u64 :: "u8 list \<Rightarrow> u64" where
  "ether_addr_to_u64 addr = fold (\<lambda>i u. push_bit 8 u OR ucast (addr ! i)) [0..<ETH_ALEN] 0"

definition u64_to_ether_addr :: "u64 \<Rightarrow> u8 list \<Rightarrow> u8 list" where
  "u64_to_ether_addr u addr =
     snd (fold (\<lambda>i (u, addr). (drop_bit 8 u, store addr i (ucast (u AND 0xff)))) (rev [0..<ETH_ALEN]) (u, addr))"

definition eth_addr_dec :: "u8 list \<Rightarrow> u8 list" where
  "eth_addr_dec addr = (let u = ether_addr_to_u64 addr in u64_to_ether_addr (u - 1) addr)"

definition eth_addr_inc :: "u8 list \<Rightarrow> u8 list" where
  "eth_addr_inc addr = (let u = ether_addr_to_u64 addr in u64_to_ether_addr (u + 1) addr)"

end
