(* ===== verification/Ether_Properties.thy ===== *)
theory Ether_Properties
  imports Etherdevice
begin

text \<open>
  The properties of Ethernet addresses: whatever the configuration, the tests and comparisons are those of the
  bytes; addresses and 48 bit integers correspond; generated addresses are well formed.
\<close>

unbundle bit_operations_syntax

section \<open>Loads and bytes\<close>

lemma raw16_eq [simp]: "raw16 E a b = raw16 E c d \<longleftrightarrow> a = c \<and> b = d"
  by (metis bytes16_raw16 list.inject)

lemma raw32_eq [simp]: "raw32 E a b c d = raw32 E a' b' c' d' \<longleftrightarrow> a = a' \<and> b = b' \<and> c = c' \<and> d = d'"
  by (metis bytes32_raw32 list.inject)

lemma be16_eq: "be16 a b = be16 c d \<longleftrightarrow> a = c \<and> b = d"
  using raw16_eq [of Big_Endian a b c d] by (simp add: raw16_def)

lemma be32_eq: "be32 a b c d = be32 a' b' c' d' \<longleftrightarrow> a = a' \<and> b = b' \<and> c = c' \<and> d = d'"
  using raw32_eq [of Big_Endian a b c d a' b' c' d'] by (simp add: raw32_def)

text \<open>A 64 bit load as two halves, and what the shifts by two bytes leave of it.\<close>

lemma halves_eq:
  fixes x x' y y' :: u32
  shows "(push_bit 32 (ucast x) OR ucast y :: u64) = push_bit 32 (ucast x') OR ucast y' \<longleftrightarrow> x = x' \<and> y = y'"
proof -
  have "ucast (drop_bit 32 (push_bit 32 (ucast x) OR ucast y :: u64)) = x" "ucast (push_bit 32 (ucast x) OR ucast y :: u64) = y"
    for x y :: u32
    by (rule bit_word_eqI; auto simp: bit_simps dest: bit_imp_le_length)+
  then show ?thesis
    by metis
qed

lemma drop16_eq:
  fixes x x' y y' :: u32
  shows "drop_bit 16 (push_bit 32 (ucast x) OR ucast y :: u64) = drop_bit 16 (push_bit 32 (ucast x') OR ucast y') \<longleftrightarrow>
    x = x' \<and> drop_bit 16 y = drop_bit 16 y'"
proof -
  have "ucast (drop_bit 16 (drop_bit 16 (push_bit 32 (ucast x) OR ucast y :: u64))) = x"
    "ucast (drop_bit 16 (push_bit 32 (ucast x) OR ucast y :: u64)) AND mask 16 = drop_bit 16 y"
    "drop_bit 16 (push_bit 32 (ucast x) OR ucast y :: u64) = push_bit 16 (ucast x) OR ucast (drop_bit 16 y)"
    for x y :: u32
    by (rule bit_word_eqI; auto simp: bit_simps dest: bit_imp_le_length)+
  then show ?thesis
    by metis
qed

lemma push16_eq:
  fixes x x' y y' :: u32
  shows "push_bit 16 (push_bit 32 (ucast x) OR ucast y :: u64) = push_bit 16 (push_bit 32 (ucast x') OR ucast y') \<longleftrightarrow>
    (ucast x :: u16) = ucast x' \<and> y = y'"
proof -
  have "ucast (drop_bit 48 (push_bit 16 (push_bit 32 (ucast x) OR ucast y :: u64))) = (ucast x :: u16)"
    "ucast (drop_bit 16 (push_bit 16 (push_bit 32 (ucast x) OR ucast y :: u64))) = y"
    "push_bit 16 (push_bit 32 (ucast x) OR ucast y :: u64) = push_bit 48 (ucast (ucast x :: u16)) OR push_bit 16 (ucast y)"
    for x y :: u32
    by (rule bit_word_eqI; auto simp: bit_simps dest: bit_imp_le_length)+
  then show ?thesis
    by metis
qed

lemma be32_halves: "drop_bit 16 (be32 a b c d) = ucast (be16 a b)" "(ucast (be32 a b c d) :: u16) = be16 c d"
  unfolding be32_def be16_def by (rule bit_word_eqI; auto simp: bit_simps dest: bit_imp_le_length)+

lemma ucast_u16_eq: "(ucast (x :: u16) :: u32) = ucast y \<longleftrightarrow> x = y"
  by (simp add: word_unat_eq_iff unat_ucast_up)

lemma raw64_shifted:
  "drop_bit 16 (raw64 Big_Endian a b c d e f g h) = drop_bit 16 (raw64 Big_Endian a' b' c' d' e' f' g' h') \<longleftrightarrow>
     a = a' \<and> b = b' \<and> c = c' \<and> d = d' \<and> e = e' \<and> f = f'"
  "push_bit 16 (raw64 Little_Endian a b c d e f g h) = push_bit 16 (raw64 Little_Endian a' b' c' d' e' f' g' h') \<longleftrightarrow>
     a = a' \<and> b = b' \<and> c = c' \<and> d = d' \<and> e = e' \<and> f = f'"
  unfolding raw64_def byteorder.case drop16_eq push16_eq be32_halves ucast_u16_eq be16_eq be32_eq by blast+

lemma raw64_eq: "raw64 E a b c d e f g h = raw64 E a' b' c' d' e' f' g' h' \<longleftrightarrow>
    a = a' \<and> b = b' \<and> c = c' \<and> d = d' \<and> e = e' \<and> f = f' \<and> g = g' \<and> h = h'"
  by (cases E) (auto simp: raw64_def halves_eq be32_eq)

lemma length_6:
  assumes "length xs = 6"
  obtains a b c d e f where "xs = [a, b, c, d, e, f]"
  using assms by (auto simp: numeral_eq_Suc length_Suc_conv)

lemma length_8:
  assumes "length xs = 8"
  obtains a b c d e f g h where "xs = [a, b, c, d, e, f, g, h]"
  using assms by (auto simp: numeral_eq_Suc length_Suc_conv)

lemma length_14:
  assumes "length xs = 14"
  obtains a b c d e f g h i j k l m n where "xs = [a, b, c, d, e, f, g, h, i, j, k, l, m, n]"
  using assms by (auto simp: numeral_eq_Suc length_Suc_conv)

lemma fold_zero: "(x :: 'a::len word) XOR y = 0 \<longleftrightarrow> x = y"
  by (metis xor.left_commute xor.right_neutral xor_self_eq)

lemma or_zero: "(x :: 'a::len word) OR y = 0 \<longleftrightarrow> x = 0 \<and> y = 0"
  by (rule or_eq_0_iff)

lemma ucast_u16_zero: "(ucast (x :: u16) :: u32) = 0 \<longleftrightarrow> x = 0"
  using ucast_u16_eq [of x 0] by simp

lemma ucast_u32_zero: "(ucast (x :: u32) :: u64) = 0 \<longleftrightarrow> x = 0"
  by (simp add: word_unat_eq_iff unat_ucast_up)

lemma raw_zero: "raw16 E a b = 0 \<longleftrightarrow> a = 0 \<and> b = 0" "raw32 E a b c d = 0 \<longleftrightarrow> a = 0 \<and> b = 0 \<and> c = 0 \<and> d = 0"
  using raw16_eq [of E a b 0 0] raw32_eq [of E a b c d 0 0 0 0]
  by (cases E; simp add: raw16_def raw32_def be16_def be32_def)+

lemmas load_simps = load16_def load32_def load64_def fold_zero or_zero ucast_u16_zero ucast_u32_zero raw_zero

section \<open>Comparisons\<close>

lemma equal_bytes:
  assumes "length a = 6" and "length b = 6"
  shows "ether_addr_equal cfg a b \<longleftrightarrow> a = b"
  using assms by (elim length_6) (auto simp: ether_addr_equal_def load_simps Let_def)

lemma equal_unaligned_bytes:
  assumes "length a = 6" and "length b = 6"
  shows "ether_addr_equal_unaligned cfg a b \<longleftrightarrow> a = b"
  using assms equal_bytes [OF assms] by (simp add: ether_addr_equal_unaligned_def ETH_ALEN_def)

lemma equal_64bits_bytes:
  assumes "length a = 8" and "length b = 8"
  shows "ether_addr_equal_64bits cfg a b \<longleftrightarrow> take 6 a = take 6 b"
proof (cases "cfg_unaligned cfg \<and> cfg_long64 cfg")
  case True
  have xor: "drop_bit 16 (x XOR y) = 0 \<longleftrightarrow> drop_bit 16 x = drop_bit 16 y" "push_bit 16 (x XOR y) = 0 \<longleftrightarrow> push_bit 16 x = push_bit 16 y"
    for x y :: u64
    by (simp_all only: drop_bit_xor push_bit_xor fold_zero)
  show ?thesis
    using assms True
    by (elim length_8, cases "cfg_order cfg")
      (simp_all add: ether_addr_equal_64bits_def load64_def Let_def xor raw64_shifted del: push_bit_xor drop_bit_xor)
next
  case False
  have "ether_addr_equal cfg a b \<longleftrightarrow> ether_addr_equal cfg (take 6 a) (take 6 b)"
    using assms by (elim length_8) (simp add: ether_addr_equal_def load16_def load32_def Let_def)
  with assms False show ?thesis
    by (auto simp: ether_addr_equal_64bits_def equal_bytes)
qed

lemma header_bytes:
  assumes "length a = 14" and "length b = 14"
  shows "compare_ether_header cfg a b = 0 \<longleftrightarrow> a = b"
  using assms by (elim length_14) (auto simp: compare_ether_header_def load_simps raw64_eq Let_def)

lemma masked_loop_iff: "masked_loop a b m is \<longleftrightarrow> (\<forall>i\<in>set is. (a ! i XOR b ! i) AND m ! i = 0)"
  by (induction "is") auto

lemma masked_bytes: "ether_addr_equal_masked a b m \<longleftrightarrow> (\<forall>i<6. (a ! i XOR b ! i) AND m ! i = 0)"
  by (auto simp: ether_addr_equal_masked_def masked_loop_iff ETH_ALEN_def)

lemma etherdev_loop_iff: "etherdev_loop cfg addr has False \<longleftrightarrow> (\<exists>ha\<in>set has. ether_addr_equal_64bits cfg addr ha)"
  by (induction has) (auto simp: Let_def)

section \<open>Tests\<close>

lemma zero_bytes: "length a = 6 \<Longrightarrow> is_zero_ether_addr cfg a \<longleftrightarrow> a = replicate 6 0"
  by (elim length_6) (auto simp: is_zero_ether_addr_def load_simps numeral_eq_Suc)

lemma one_and: "1 AND (x :: 'a::len word) \<noteq> 0 \<longleftrightarrow> bit x 0"
  by (metis and_one_eq and.commute bit_0 odd_iff_mod_2_eq_one zero_neq_one even_iff_mod_2_eq_zero)

lemma first_byte_bit:
  "bit (drop_bit 24 (raw32 Big_Endian a b c d)) 0 = bit a 0" "bit (raw32 Little_Endian a b c d) 0 = bit a 0"
  "bit (drop_bit 8 (raw16 Big_Endian a b)) 0 = bit a 0" "bit (raw16 Little_Endian a b) 0 = bit a 0"
  "bit (drop_bit 56 (raw64 Big_Endian a b c d e f g h)) 0 = bit a 0" "bit (raw64 Little_Endian a b c d e f g h) 0 = bit a 0"
  by (auto simp: raw16_def raw32_def raw64_def be16_def be32_def bit_simps simp del: bit_0 dest: bit_imp_le_length)

lemma multicast_bit:
  "is_multicast_ether_addr cfg a \<longleftrightarrow> bit (a ! 0) 0" "is_multicast_ether_addr_64bits cfg a \<longleftrightarrow> bit (a ! 0) 0"
proof -
  show m: "is_multicast_ether_addr cfg a \<longleftrightarrow> bit (a ! 0) 0"
    by (cases "cfg_order cfg")
      (simp_all add: is_multicast_ether_addr_def load16_def load32_def one_and first_byte_bit Let_def del: bit_0)
  show "is_multicast_ether_addr_64bits cfg a \<longleftrightarrow> bit (a ! 0) 0"
    by (cases "cfg_order cfg")
      (simp_all add: is_multicast_ether_addr_64bits_def load64_def one_and first_byte_bit m del: bit_0)
qed

lemma byte_ones: "(0xff :: u8) = - 1" "(0xffff :: u16) = - 1"
  by simp_all

lemma and_ff: "(x :: u8) AND 0xff = x"
  unfolding byte_ones by simp

lemma raw16_ones: "raw16 E a b = - 1 \<longleftrightarrow> a = - 1 \<and> b = - 1"
proof -
  have "raw16 E (- 1) (- 1) = - 1"
  proof -
    have "be16 (- 1) (- 1) = - 1"
      unfolding be16_def by (rule bit_word_eqI) (auto simp: bit_simps)
    then show ?thesis
      by (cases E) (simp_all add: raw16_def)
  qed
  then show ?thesis
    by (metis raw16_eq)
qed

lemma broadcast_bytes: "length a = 6 \<Longrightarrow> is_broadcast_ether_addr cfg a \<longleftrightarrow> a = replicate 6 0xff"
  unfolding byte_ones is_broadcast_ether_addr_def
  by (elim length_6) (auto simp: load16_def and_eq_minus_1_iff raw16_ones numeral_eq_Suc)

lemma raw16_and: "raw16 E a b AND raw16 E c d = raw16 E (a AND c) (b AND d)"
proof -
  have "be16 a b AND be16 c d = be16 (a AND c) (b AND d)" for a b c d
    unfolding be16_def by (rule bit_word_eqI) (auto simp: bit_simps dest: bit_imp_le_length)
  then show ?thesis
    by (cases E) (simp_all add: raw16_def)
qed

lemma htons_raw: "htons E 0xfff0 = raw16 E 0xff 0xf0" "htons E 0xFF00 = raw16 E 0xff 0" "htons E 0x600 = raw16 E 6 0"
  using htons_be16 [of E "0xff" "0xf0"] htons_be16 [of E "0xff" 0] htons_be16 [of E 6 0]
  by (simp_all add: be16_def)

lemma link_local_bytes:
  assumes "length a = 6"
  shows "is_link_local_ether_addr cfg a \<longleftrightarrow> take 5 a = [0x01, 0x80, 0xc2, 0x00, 0x00] \<and> a ! 5 AND 0xf0 = 0"
proof -
  have zero: "raw16 E 0 0 = 0" for E
    by (simp add: raw_zero)
  show ?thesis
    using assms
    by (elim length_6) (auto simp: is_link_local_ether_addr_def eth_reserved_addr_base_def load_simps Let_def htons_raw
        zero raw16_and and_ff)
qed

lemma proto_value: "eth_proto_is_802_3 E (raw16 E a b) \<longleftrightarrow> 0x600 \<le> be16 a b"
proof -
  have b: "unat b < 256"
    using unsigned_less [of b] by simp
  have "be16 b a AND be16 0 0xff = be16 0 a"
    using raw16_and [of Little_Endian a b "0xff" 0] by (simp add: raw16_def and_ff)
  then show ?thesis
    using b by (cases E) (auto simp: eth_proto_is_802_3_def ETH_P_802_3_MIN_def htons_raw raw16_def Let_def
        word_le_nat_alt unat_be16)
qed

section \<open>Written addresses\<close>

lemma random_bytes:
  assumes "length r = 6" and "length a = 6"
  shows "eth_random_addr r a = (r ! 0 AND 0xfe OR 0x02) # tl r"
  using assms by (elim length_6) (simp add: eth_random_addr_def memcpy_at_def store_def Let_def)

lemma copy_bytes:
  assumes "length dst = 6" and "length src = 6"
  shows "ether_addr_copy cfg dst src = src"
  using assms
  by (elim length_6) (simp add: ether_addr_copy_def load16_def load32_def memcpy_at_def Let_def)

section \<open>Addresses as integers\<close>

lemma to_u64_horner:
  "ether_addr_to_u64 [a, b, c, d, e, f] =
     push_bit 8 (push_bit 8 (push_bit 8 (push_bit 8 (push_bit 8 (ucast a) OR ucast b) OR ucast c) OR ucast d) OR ucast e) OR ucast f"
  by (simp add: ether_addr_to_u64_def ETH_ALEN_def upt_rec)

lemma from_u64_bytes:
  assumes "length addr = 6"
  shows "u64_to_ether_addr u addr =
    [ucast (drop_bit 40 u AND 0xff), ucast (drop_bit 32 u AND 0xff), ucast (drop_bit 24 u AND 0xff),
     ucast (drop_bit 16 u AND 0xff), ucast (drop_bit 8 u AND 0xff), ucast (u AND 0xff)]"
  using assms by (elim length_6) (simp add: u64_to_ether_addr_def ETH_ALEN_def upt_rec store_def)

text \<open>Appending one byte to an integer and taking it off again.\<close>

lemma byte_off:
  fixes v :: u64 and b :: u8
  assumes "v < 2 ^ k" and "k \<le> 48"
  shows "drop_bit 8 (push_bit 8 v OR ucast b) = v" and "ucast ((push_bit 8 v OR ucast b) AND 0xff) = b"
    and "push_bit 8 v OR ucast b < 2 ^ (k + 8)"
proof -
  have v: "bit v i \<Longrightarrow> i < k" for i
    using bit_below [OF assms(1)] assms(2) by simp
  show "drop_bit 8 (push_bit 8 v OR ucast b) = v"
  proof (rule bit_word_eqI)
    fix n
    show "bit (drop_bit 8 (push_bit 8 v OR ucast b)) n = bit v n"
      using v [of n] assms(2) bit_imp_le_length [of b "8 + n"] by (auto simp: bit_simps)
  qed
  show "ucast ((push_bit 8 v OR ucast b) AND 0xff) = b"
    unfolding word_lits by (rule bit_word_eqI) (auto simp: bit_simps)
  have "take_bit (k + 8) (push_bit 8 v OR ucast b) = push_bit 8 v OR ucast b"
    by (rule bit_word_eqI) (auto simp: bit_simps dest: v bit_imp_le_length)
  then show "push_bit 8 v OR ucast b < 2 ^ (k + 8)"
  proof -
    have "k + 8 < LENGTH(64)"
      using assms(2) by simp
    then have "take_bit (k + 8) (push_bit 8 v OR ucast b) < 2 ^ (k + 8)"
      unfolding take_bit_eq_mask by (rule and_mask_less')
    with \<open>take_bit (k + 8) (push_bit 8 v OR ucast b) = push_bit 8 v OR ucast b\<close> show ?thesis
      by simp
  qed
qed

lemma byte_on:
  fixes u :: u64
  shows "push_bit 8 (take_bit k (drop_bit (j + 8) u)) OR ucast (ucast (drop_bit j u AND 0xff) :: u8) = take_bit (k + 8) (drop_bit j u)"
    and "ucast (ucast (drop_bit j u AND 0xff) :: u8) = take_bit 8 (drop_bit j u)"
  unfolding word_lits by (rule bit_word_eqI; auto simp: bit_simps)+

lemma from_to_u64:
  assumes "length a = 6" and "length b = 6"
  shows "u64_to_ether_addr (ether_addr_to_u64 a) b = a" and "ether_addr_to_u64 a < 2 ^ 48"
proof -
  obtain a0 a1 a2 a3 a4 a5 where a: "a = [a0, a1, a2, a3, a4, a5]"
    using assms(1) by (rule length_6)
  define v1 v2 v3 v4 v5 v6 :: u64 where "v1 = ucast a0" and "v2 = push_bit 8 v1 OR ucast a1" and "v3 = push_bit 8 v2 OR ucast a2"
    and "v4 = push_bit 8 v3 OR ucast a3" and "v5 = push_bit 8 v4 OR ucast a4" and "v6 = push_bit 8 v5 OR ucast a5"
  note vs = v1_def v2_def v3_def v4_def v5_def v6_def
  have s1: "v1 < 2 ^ 8" "ucast (v1 AND 0xff) = a0"
    using byte_off(2,3) [of 0 0 a0] by (simp_all add: v1_def)
  have le: "8 \<le> (48 :: nat)" "8 + 8 \<le> (48 :: nat)" "8 + 8 + 8 \<le> (48 :: nat)" "8 + 8 + 8 + 8 \<le> (48 :: nat)"
      "8 + 8 + 8 + 8 + 8 \<le> (48 :: nat)"
    by simp_all
  note s2 = byte_off [OF s1(1) le(1), of a1, folded v2_def]
  note s3 = byte_off [OF s2(3) le(2), of a2, folded v3_def]
  note s4 = byte_off [OF s3(3) le(3), of a3, folded v4_def]
  note s5 = byte_off [OF s4(3) le(4), of a4, folded v5_def]
  note s6 = byte_off [OF s5(3) le(5), of a5, folded v6_def]
  have v6: "ether_addr_to_u64 a = v6"
    unfolding a to_u64_horner vs ..
  show "ether_addr_to_u64 a < 2 ^ 48"
    unfolding v6 using s6(3) by simp
  have drops: "drop_bit 16 v6 = drop_bit 8 (drop_bit 8 v6)" "drop_bit 24 v6 = drop_bit 8 (drop_bit 16 v6)"
      "drop_bit 32 v6 = drop_bit 8 (drop_bit 24 v6)" "drop_bit 40 v6 = drop_bit 8 (drop_bit 32 v6)"
    by simp_all
  show "u64_to_ether_addr (ether_addr_to_u64 a) b = a"
    unfolding v6 from_u64_bytes [OF assms(2)] drops s6(1) s5(1) s4(1) s3(1) s2(1)
    unfolding s6(2) s5(2) s4(2) s3(2) s2(2) s1(2) by (rule a [symmetric])
qed

lemma to_from_u64:
  assumes "length b = 6"
  shows "ether_addr_to_u64 (u64_to_ether_addr u b) = take_bit 48 u"
  unfolding from_u64_bytes [OF assms] to_u64_horner
  using byte_on(1) [of 8 32 u] byte_on(1) [of 16 24 u] byte_on(1) [of 24 16 u] byte_on(1) [of 32 8 u] byte_on(1) [of 40 0 u]
    byte_on(2) [of 40 u]
  by simp

lemma inc_dec_mod:
  fixes x :: u64
  shows "take_bit 48 (take_bit 48 (x + 1) - 1) = take_bit 48 x" and "take_bit 48 (take_bit 48 (x - 1) + 1) = take_bit 48 x"
  by (transfer; simp add: take_bit_eq_mod mod_simps)+

lemma to_u64_inject:
  assumes "length a = 6" and "length b = 6"
  shows "ether_addr_to_u64 a = ether_addr_to_u64 b \<longleftrightarrow> a = b"
  using from_to_u64(1) [OF assms(1) assms(1)] from_to_u64(1) [OF assms(2) assms(1)] by metis

lemma inc_dec_u64:
  assumes "length a = 6"
  shows "length (eth_addr_inc a) = 6" and "length (eth_addr_dec a) = 6"
    and "ether_addr_to_u64 (eth_addr_inc a) = take_bit 48 (ether_addr_to_u64 a + 1)"
    and "ether_addr_to_u64 (eth_addr_dec a) = take_bit 48 (ether_addr_to_u64 a - 1)"
    and "take_bit 48 (ether_addr_to_u64 a) = ether_addr_to_u64 a"
proof -
  show "length (eth_addr_inc a) = 6" "length (eth_addr_dec a) = 6"
    using assms by (simp_all add: eth_addr_inc_def eth_addr_dec_def from_u64_bytes Let_def)
  show "ether_addr_to_u64 (eth_addr_inc a) = take_bit 48 (ether_addr_to_u64 a + 1)"
      "ether_addr_to_u64 (eth_addr_dec a) = take_bit 48 (ether_addr_to_u64 a - 1)"
    using assms by (simp_all add: eth_addr_inc_def eth_addr_dec_def to_from_u64 Let_def)
  show "take_bit 48 (ether_addr_to_u64 a) = ether_addr_to_u64 a"
    using from_to_u64(2) [OF assms assms] by (simp add: take_bit_word_small)
qed

lemma inc_dec_inverse:
  assumes "length a = 6"
  shows "eth_addr_dec (eth_addr_inc a) = a" and "eth_addr_inc (eth_addr_dec a) = a"
proof -
  note u = inc_dec_u64 [OF assms]
  have "ether_addr_to_u64 (eth_addr_dec (eth_addr_inc a)) = ether_addr_to_u64 a"
    unfolding inc_dec_u64(4) [OF u(1)] u(3) inc_dec_mod by (rule u(5))
  then show "eth_addr_dec (eth_addr_inc a) = a"
    using to_u64_inject [OF inc_dec_u64(2) [OF u(1)] assms] by simp
  have "ether_addr_to_u64 (eth_addr_inc (eth_addr_dec a)) = ether_addr_to_u64 a"
    unfolding inc_dec_u64(3) [OF u(2)] u(4) inc_dec_mod by (rule u(5))
  then show "eth_addr_inc (eth_addr_dec a) = a"
    using to_u64_inject [OF inc_dec_u64(1) [OF u(2)] assms] by simp
qed

lemma random_flags:
  fixes x :: u8
  shows "\<not> bit (x AND 0xfe OR 2) 0" and "2 AND (x AND 0xfe OR 2) \<noteq> 0" and "(x AND 0xfe OR 2) AND 0xfc = x AND 0xfc"
    and "x AND 0xfe OR 2 \<noteq> 0"
proof -
  have m: "(0xfe :: u8) = NOT (mask 1)" "(2 :: u8) = push_bit 1 1" "(0xfc :: u8) = NOT (mask 2)"
    by (simp_all add: mask_eq_exp_minus_1)
  show "\<not> bit (x AND 0xfe OR 2) 0" "(x AND 0xfe OR 2) AND 0xfc = x AND 0xfc"
    unfolding m by (simp add: bit_simps del: bit_0, rule bit_word_eqI, auto simp: bit_simps)
  have "2 AND (x AND 0xfe OR 2) = 2"
    unfolding m by (rule bit_word_eqI) (auto simp: bit_simps)
  then show two: "2 AND (x AND 0xfe OR 2) \<noteq> 0"
    by simp
  show "x AND 0xfe OR 2 \<noteq> 0"
    using two by (metis and_zero_eq)
qed

lemma random_valid:
  assumes "length r = 6" and "length a = 6"
  shows "length (eth_random_addr r a) = 6" and "is_valid_ether_addr cfg (eth_random_addr r a)"
    and "is_local_ether_addr (eth_random_addr r a)" and "eth_random_addr r a ! 0 AND 0xfc = r ! 0 AND 0xfc"
    and "tl (eth_random_addr r a) = tl r"
proof -
  show len: "length (eth_random_addr r a) = 6"
    using assms by (simp add: random_bytes)
  have "eth_random_addr r a \<noteq> replicate 6 0"
    using random_flags(4) [of "r ! 0"] by (simp add: random_bytes [OF assms] numeral_eq_Suc)
  then show "is_valid_ether_addr cfg (eth_random_addr r a)"
    using random_flags(1) [of "r ! 0"] zero_bytes [OF len]
    by (simp add: is_valid_ether_addr_def multicast_bit random_bytes [OF assms] del: bit_0)
  show "is_local_ether_addr (eth_random_addr r a)" "eth_random_addr r a ! 0 AND 0xfc = r ! 0 AND 0xfc"
      "tl (eth_random_addr r a) = tl r"
    using random_flags(2,3) [of "r ! 0"] by (simp_all add: is_local_ether_addr_def random_bytes [OF assms])
qed

section \<open>Properties\<close>

text \<open>
  C26. Whatever the byte order, the width of the machine and its unaligned access, the tests and comparisons of addresses are
  those of the bytes: the comparisons, padded and unaligned ones included, hold exactly for equal addresses, a masked one for
  addresses equal in the mask, the header comparison is 0 exactly for equal headers; the zero, broadcast, multicast
  and link-local tests look for their bytes, and an address is valid if it is neither zero nor multicast, thus never
  broadcast.  A type field is a protocol exactly from \<open>0x600\<close> on.
\<close>

theorem ether_tests_are_bytewise:
  assumes "length a = 6" and "length b = 6" and "length p = 2" and "length q = 2"
    and "length h = 14" and "length k = 14"
  shows "(ether_addr_equal cfg a b \<longleftrightarrow> a = b) \<and> (ether_addr_equal_unaligned cfg a b \<longleftrightarrow> a = b) \<and>
    (ether_addr_equal_64bits cfg (a @ p) (b @ q) \<longleftrightarrow> a = b) \<and>
    (ether_addr_equal_masked a b m \<longleftrightarrow> (\<forall>i<6. (a ! i XOR b ! i) AND m ! i = 0)) \<and>
    (compare_ether_header cfg h k = 0 \<longleftrightarrow> h = k) \<and>
    (is_zero_ether_addr cfg a \<longleftrightarrow> a = replicate 6 0) \<and> (is_broadcast_ether_addr cfg a \<longleftrightarrow> a = replicate 6 0xff) \<and>
    (is_multicast_ether_addr cfg a \<longleftrightarrow> bit (a ! 0) 0) \<and> (is_multicast_ether_addr_64bits cfg (a @ p) \<longleftrightarrow> bit (a ! 0) 0) \<and>
    (is_unicast_ether_addr cfg a \<longleftrightarrow> \<not> bit (a ! 0) 0) \<and>
    (is_link_local_ether_addr cfg a \<longleftrightarrow> take 5 a = [0x01, 0x80, 0xc2, 0x00, 0x00] \<and> a ! 5 AND 0xf0 = 0) \<and>
    (is_valid_ether_addr cfg a \<longleftrightarrow> \<not> bit (a ! 0) 0 \<and> a \<noteq> replicate 6 0) \<and>
    (is_valid_ether_addr cfg a \<longrightarrow> \<not> is_broadcast_ether_addr cfg a) \<and>
    (eth_proto_is_802_3 E (raw16 E x y) \<longleftrightarrow> 0x600 \<le> be16 x y)"
proof -
  have nth: "(a @ p) ! 0 = a ! 0"
    using assms(1) by (simp add: nth_append)
  have ones: "\<not> bit (a ! 0) 0 \<Longrightarrow> a \<noteq> replicate 6 0xff"
    by auto
  show ?thesis
    using assms equal_64bits_bytes [of "a @ p" "b @ q" cfg] ones
    by (simp add: equal_bytes equal_unaligned_bytes masked_bytes header_bytes zero_bytes broadcast_bytes multicast_bit nth
        link_local_bytes is_unicast_ether_addr_def is_valid_ether_addr_def proto_value del: bit_0)
qed

theorem ether_tests_are_bytewise_witness:
  "is_valid_ether_addr \<lparr>cfg_order = Big_Endian, cfg_unaligned = True, cfg_long64 = True\<rparr> [0x02, 0, 0, 0, 0, 1] \<and>
   ether_addr_equal_64bits \<lparr>cfg_order = Little_Endian, cfg_unaligned = True, cfg_long64 = True\<rparr>
     [0x02, 0, 0, 0, 0, 1, 7, 8] [0x02, 0, 0, 0, 0, 1, 9, 10]"
  using ether_tests_are_bytewise [of "[0x02, 0, 0, 0, 0, 1]" "[0x02, 0, 0, 0, 0, 1]" "[7, 8]" "[9, 10]" "replicate 14 0"
      "replicate 14 0" "\<lparr>cfg_order = Big_Endian, cfg_unaligned = True, cfg_long64 = True\<rparr>"]
    ether_tests_are_bytewise [of "[0x02, 0, 0, 0, 0, 1]" "[0x02, 0, 0, 0, 0, 1]" "[7, 8]" "[9, 10]" "replicate 14 0"
      "replicate 14 0" "\<lparr>cfg_order = Little_Endian, cfg_unaligned = True, cfg_long64 = True\<rparr>"]
  by (simp add: numeral_eq_Suc)

text \<open>
  C27. An address of six bytes is a 48 bit integer, most significant byte first: converting it and back returns it, and
  converting any integer and back keeps its low 48 bits.  Increment and decrement add and subtract 1 modulo \<open>2\<^sup>4\<^sup>8\<close> and undo
  each other.  Every function that writes an address leaves an array of six bytes: a copy equals its source, a generated
  random address is a valid, locally assigned unicast address that differs from the random bytes in the two flag bits
  only, and is recorded as such in a device; a device that inherits an address takes over where it came from.
  A device has an address if the list of its addresses has it.
\<close>

theorem ether_addr_integers:
  assumes "length a = 6" and "length b = 6" and "length r = 6" and "length p = 2" and "\<forall>ha\<in>set (dev_addrs dev). length ha = 8"
  shows "u64_to_ether_addr (ether_addr_to_u64 a) b = a \<and> ether_addr_to_u64 (u64_to_ether_addr u b) = take_bit 48 u \<and>
    ether_addr_to_u64 (eth_addr_inc a) = take_bit 48 (ether_addr_to_u64 a + 1) \<and>
    ether_addr_to_u64 (eth_addr_dec a) = take_bit 48 (ether_addr_to_u64 a - 1) \<and>
    eth_addr_dec (eth_addr_inc a) = a \<and> eth_addr_inc (eth_addr_dec a) = a \<and>
    ether_addr_copy cfg b a = a \<and> eth_broadcast_addr a = replicate 6 0xff \<and> eth_zero_addr a = replicate 6 0 \<and>
    length (eth_random_addr r a) = 6 \<and> is_valid_ether_addr cfg (eth_random_addr r a) \<and>
    is_local_ether_addr (eth_random_addr r a) \<and> eth_random_addr r a ! 0 AND 0xfc = r ! 0 AND 0xfc \<and>
    tl (eth_random_addr r a) = tl r \<and>
    eth_hw_addr_random r (dev\<lparr>dev_addr := a\<rparr>) = dev\<lparr>dev_addr := eth_random_addr r a, dev_addr_assign_type := 1\<rparr> \<and>
    eth_hw_addr_inherit cfg (dev\<lparr>dev_addr := b\<rparr>) (src\<lparr>dev_addr := a\<rparr>) =
      dev\<lparr>dev_addr := a, dev_addr_assign_type := dev_addr_assign_type src\<rparr> \<and>
    (is_etherdev_addr cfg dev (a @ p) \<longleftrightarrow> a \<in> take 6 ` set (dev_addrs dev))"
proof -
  have "is_etherdev_addr cfg dev (a @ p) \<longleftrightarrow> a \<in> take 6 ` set (dev_addrs dev)"
    using assms equal_64bits_bytes [of "a @ p" _ cfg] by (auto simp: is_etherdev_addr_def etherdev_loop_iff)
  moreover have "eth_broadcast_addr a = replicate 6 0xff" "eth_zero_addr a = replicate 6 0"
    using assms(1) by (simp_all add: eth_broadcast_addr_def eth_zero_addr_def memcpy_at_def ETH_ALEN_def)
  moreover have "eth_hw_addr_random r (dev\<lparr>dev_addr := a\<rparr>) = dev\<lparr>dev_addr := eth_random_addr r a, dev_addr_assign_type := 1\<rparr>"
      "eth_hw_addr_inherit cfg (dev\<lparr>dev_addr := b\<rparr>) (src\<lparr>dev_addr := a\<rparr>) =
        dev\<lparr>dev_addr := a, dev_addr_assign_type := dev_addr_assign_type src\<rparr>"
    using copy_bytes [OF assms(2,1)]
    by (simp_all add: eth_hw_addr_random_def eth_hw_addr_inherit_def NET_ADDR_RANDOM_def Let_def)
  ultimately show ?thesis
    using from_to_u64(1) [OF assms(1,2)] to_from_u64 [OF assms(2)] inc_dec_u64(3,4) [OF assms(1)] inc_dec_inverse [OF assms(1)]
      copy_bytes [OF assms(2,1)] random_valid [OF assms(3,1)] by blast
qed

theorem ether_addr_integers_witness:
  "eth_addr_dec (eth_addr_inc (replicate 6 0xff)) = replicate 6 0xff \<and>
   is_valid_ether_addr \<lparr>cfg_order = Little_Endian, cfg_unaligned = False, cfg_long64 = True\<rparr>
     (eth_random_addr [0xff, 1, 2, 3, 4, 5] (replicate 6 0))"
  using ether_addr_integers [of "replicate 6 0xff" "replicate 6 0" "[0xff, 1, 2, 3, 4, 5]" "[0, 0]"
      "\<lparr>dev_addr = [], dev_addr_assign_type = 0, dev_addrs = []\<rparr>"]
    ether_addr_integers [of "replicate 6 0" "replicate 6 0" "[0xff, 1, 2, 3, 4, 5]" "[0, 0]"
      "\<lparr>dev_addr = [], dev_addr_assign_type = 0, dev_addrs = []\<rparr>"]
  by auto

end
