(* ===== verification/Spec2Isabelle.thy ===== *)
theory Spec2Isabelle
  imports Cec_Properties Xor_Block Ring_Properties Ecn_Properties List_Properties Min_Heap_Properties
    Rb_Properties Refcount_Properties Qdisc_Properties Codel_Properties Ether_Properties
begin

text \<open>
  A verification library for the C code of the repository: the kernel headers under
  \<open>src/com.silver-tree.ide-plugin/samples/include\<close> (called \<open>include\<close> below), which the device tree
  editor plugin ships as the sources its users work on.  The library covers the headers that hold
  code of some weight, not only declarations: message encoders and decoders, block routines, a lock
  protected ring, checksum and tunnel arithmetic, linked lists, search and interval trees, reference
  counters, packet queues with their delay control, hardware addresses.

  \<^bold>\<open>Parts, theories and sources\<close>

  \<^item> \<open>Prelude\<close>: shared types (\<open>u8\<close> to \<open>u64\<close> are words of that width, so \<open>+\<close> wraps as in C), array
    reads and writes with the bounds written out, \<open>stmts\<close> for a sequence of assignments, and the
    generic lemmas on words, lists and options the components share.

  \<^item> Consumer Electronics Control, \<open>include/uapi/linux/cec.h\<close> and \<open>cec-funcs.h\<close>: \<open>Cec_Base\<close> holds
    \<open>struct cec_msg\<close> (a record, the payload a list of 16 bytes), the accessors of \<open>cec.h\<close>, the
    constants, and the vocabulary of the encoders (\<open>put\<close>, \<open>set_len\<close>, ...), each of them one assignment of
    the source.  \<open>Cec_Control\<close>, \<open>Cec_System\<close> and \<open>Cec_Audio\<close> hold the encoders \<open>cec_msg_*\<close> and the
    decoders \<open>cec_ops_*\<close> in the order of \<open>cec-funcs.h\<close>, under their own names.  \<open>Cec_Framing\<close> shows for
    each encoder and every operand what frame it builds: the stores inside the array, the exact length, the opcode, the
    addressing and the announced reply, with the cut of operands that are too long.  \<open>Cec_Properties\<close> has the properties: the frames, that
    decoders recover what encoders wrote, and where the code falls short of that.

  \<^item> RAID, \<open>include/asm-generic/xor.h\<close> and \<open>linux/raid/xor.h\<close>: \<open>Xor_Block\<close> holds the sixteen unrolled
    routines as updates of one memory, so that blocks may overlap, and shows that they compute the
    word-wise xor.  \<open>xor_into\<close> xors any number of blocks into one by the routines of a template, four at a time, and
    a lost block of a stripe is reconstructed by it.  The locales \<open>xor_line_2\<close> to \<open>xor_line_5\<close> are
    the contract between a loop body and its loop.

  \<^item> Pointer ring, \<open>include/linux/ptr_ring.h\<close>, with the spin locks of \<open>linux/spinlock_api_smp.h\<close> on the
    queued lock of \<open>asm-generic/qspinlock.h\<close>:
    \<open>Ptr_Ring\<close> holds all operations, the locked and the raw ones, \<open>Ring_Fifo\<close> the representation of a
    queue by a ring, stated as a locale of bounded queues that the ring interprets, and
    \<open>Ring_Properties\<close> the outcomes of the operations, the critical sections they run in, the FIFO refinement over whole histories, the
    conservation of entries as an invariant of a step relation, and resizing of several rings.

  \<^item> Checksums, \<open>include/net/checksum.h\<close>: \<open>Checksum\<close> holds ones complement arithmetic, with the locale
    \<open>ones_sum\<close> interpreted at 16 and 32 bits, and the incremental updates.  \<open>Ecn\<close> and \<open>Ecn_Properties\<close>
    cover \<open>net/inet_ecn.h\<close>, \<open>net/dsfield.h\<close> and the VLAN parsing of \<open>linux/if_vlan.h\<close> they use: marking,
    encapsulation and decapsulation of tunnelled packets, and that checksums are kept.

  \<^item> Lists, \<open>include/linux/list.h\<close>: \<open>List_Head\<close> holds the operations on \<open>struct list_head\<close> as updates of
    a store of \<open>next\<close> and \<open>prev\<close> members, \<open>List_Rep\<close> what they do to the list of a head, \<open>List_Iter\<close> the
    iteration macros, \<open>Hlist\<close> the hash lists, \<open>List_Properties\<close> the properties.  The locales \<open>walk\<close> and
    \<open>cursor\<close> carry the loops; they are interpreted for both directions of a list and for hash lists.

  \<^item> Binary heap, \<open>include/linux/min_heap.h\<close>: \<open>Min_Heap\<close> holds the operations over an array of elements
    and shows that they keep the heap order; \<open>Min_Heap_Properties\<close> interprets the locale
    \<open>priority_queue\<close> with the heap and shows that heapifying and popping sorts.

  \<^item> Search trees, \<open>include/linux/rbtree.h\<close>, \<open>rbtree_augmented.h\<close> and \<open>interval_tree_generic.h\<close>: \<open>Rbtree\<close> holds linking,
    searching and the leftmost cache on a store of parent words and child pointers, \<open>Rb_Augmented\<close> removal, the callbacks for a
    maximum and the interval tree functions.  \<open>Rb_Rep\<close> relates a store to a tree and a place in it to a
    context, with the frame lemmas, \<open>Rb_Search\<close> treats the descents, \<open>Rb_Max\<close> the stored maxima, \<open>propagate\<close> and \<open>rotate\<close>,
    \<open>Rb_Erase\<close> removal, \<open>Interval\<close> the interval trees; \<open>Rb_Properties\<close> has the properties, among them that the iterators
    visit exactly the overlapping intervals.  The locale \<open>scan\<close> is the contract between a step to the next wanted node and the
    loop over such steps; matches of a key and overlapping intervals interpret it.

  \<^item> Reference counters, \<open>include/linux/refcount.h\<close> and \<open>kref.h\<close> on the generic atomic operations: \<open>Refcount\<close> holds the
    operations on 32 bit words, \<open>Refcount_Ops\<close> their effect on every value and the step relation \<open>rc_step\<close> of
    interleaved tasks, in which an operation that must saturate the counter does so in a second step, and
    \<open>Refcount_Properties\<close> the properties: bounds, saturation under interleaving, the lifetime of an object.

  \<^item> Queueing disciplines, \<open>include/net/sch_generic.h\<close> and \<open>net/pkt_sched.h\<close>: \<open>Qdisc\<close> holds the packet queue on a
    store of \<open>struct sk_buff\<close> objects linked through \<open>next\<close>, with its counters and the list of packets to free, and shows what each
    operation does to the list of packets.  \<open>Qdisc_Run\<close> holds \<open>qdisc_run\<close>, first as functions, then as the step relation
    \<open>run_step\<close> of processors that interleave their accesses to the lock and the flag \<open>MISSED\<close>, with the invariant \<open>run_inv\<close>.
    \<open>Qdisc_Properties\<close> has the properties: the queue refines a list, and no packet is left behind.

  \<^item> Controlled delay, \<open>include/net/codel.h\<close>, \<open>codel_impl.h\<close> and \<open>codel_qdisc.h\<close>: \<open>Codel\<close> holds the clock, the fixed point square
    root, the decision to drop and \<open>codel_dequeue\<close>, split along its branches, \<open>Codel_Law\<close> the arithmetic of the Newton step and the control law,
    \<open>Codel_Dequeue\<close> the locale \<open>codel_queue\<close>, what CoDel asks of the callbacks of its user, and in it that
    dequeueing returns and accounts for every packet.  \<open>Codel_Properties\<close> interprets the locale with the packet queue of a
    discipline and has the properties.

  \<^item> Ethernet addresses, \<open>include/linux/etherdevice.h\<close>: \<open>Etherdevice\<close> holds the tests, comparisons, copies and conversions
    with their loads of 16, 32 and 64 bits, \<open>Ether_Properties\<close> shows that they are those of the bytes.

  \<^bold>\<open>How the parts interact\<close>

  The ring calls the spin locks on one state record; tunnel code calls checksum updates on header
  words; the loops of the list macros call the list operations of their bodies; interval trees call
  augmented trees, which call back into the maxima of the interval tree; an object counts its references
  with a counter, which works by atomic operations.  CoDel takes packets from the queue of a discipline, moves those it
  drops to the list to free, and marks others by congestion notification, which adjusts their checksums.  CEC messages and the xor routines stand alone.

  \<^bold>\<open>What is a parameter\<close>

  The allocator, \<open>SMP_CACHE_BYTES\<close> and \<open>KMALLOC_MAX_SIZE\<close> of the ring (\<open>ring_env\<close>; an allocated array is
  zeroed, as \<open>__GFP_ZERO\<close> promises), the byte order of the machine, the bodies of loops over lists, and
  the callbacks of the heap (\<open>callbacks_ok\<close>: a strict weak order and an exchange).  Of \<open>lib/rbtree.c\<close>, which is not in
  the repository, the rebalancing functions (\<open>rebalances\<close> and \<open>aug_rebalances\<close>: they keep the nodes in order and the
  maxima right), \<open>rb_next\<close> (\<open>steps\<close>), \<open>rb_erase\<close> and \<open>rb_replace_node\<close> (\<open>erases\<close>, \<open>replaces\<close>); of \<open>lib/refcount.c\<close>
  \<open>refcount_warn_saturate\<close> (\<open>saturates\<close>).  Of the network code \<open>__qdisc_run\<close> (\<open>drains\<close>: it ends with an empty queue or
  schedules another run), the callbacks of CoDel (\<open>codel_queue\<close>), the value of \<open>ktime_get_ns\<close>, \<open>skb_copy_bits\<close>, the bytes of
  \<open>get_random_bytes\<close>, and the configuration the Ethernet functions choose their loads by.

  \<^bold>\<open>Loops\<close>

  Counting loops are recursive functions with a measure.  Loops whose end depends on the data (cleanup
  and resizing of a ring, the list macros, walks in a tree, compare and exchange, the drop loop of CoDel) are partial functions into \<open>option\<close>; the properties show
  that they return a value.  No fuel is used anywhere.

  \<^bold>\<open>Bounds\<close>

  The model is sequential, except for the interleaved operations on a reference counter and on a queueing discipline, whose
  memory is sequentially consistent: the memory
  order of \<open>READ_ONCE\<close>, \<open>smp_store_release\<close> and the like is not modelled, nor are other processors; a lock that is taken is
  held by the caller itself, who waits for ever (\<open>None\<close>).  Colours of tree nodes
  are kept in the parent words, but that a tree is balanced is not stated: it is up to \<open>lib/rbtree.c\<close>.  The index members of a ring are ints that the invariant keeps
  between 0 and \<open>size\<close>; pointers are 64 bit words.  The number of rings resized at once fits an int.
  Positions and offsets of the binary heap are computed in ints, with their overflow written out; \<open>heap_fits\<close> excludes it: at most
  \<open>2 ^ 30\<close> elements in less than 2 GiB.
  Of CoDel, the drop count and the length of the queue together stay below \<open>2\<^sup>3\<^sup>2\<close>, where \<open>count\<close> would wrap.  A packet put at the tail of
  an empty queue has no successor, since \<open>__qdisc_enqueue_tail\<close> does not write its link.

  \<^bold>\<open>Not modelled\<close>

  The Eclipse plugin itself is Java glue around the editor framework and is not part of this library.
  The other headers are declarations, register constants and device tree bindings, or code that
  calls into kernel parts that are not in the repository.  Of the headers above, \<open>struct\<close>s used only by
  ioctls, the read/write locks and the forms that only try a lock, and the checksum functions whose source is assembly are left out; of \<open>net/sch_generic.h\<close> the
  counters of one processor, requeueing through \<open>gso_skb\<close>, classes, filters and the tree of disciplines, which rest on
  \<open>net/sched\<close>; of \<open>linux/etherdevice.h\<close> the two functions that only call \<open>ether_crc\<close> or \<open>skb_put_padto\<close>.

  Headers with inline code that are left out although they could be treated alike: \<open>linux/skb_array.h\<close>, whose functions pass
  their arguments on to the ring, \<open>linux/llist.h\<close> and \<open>linux/list_bl.h\<close>, whose operations rest on atomic and bit lock primitives of the
  architecture, \<open>net/red.h\<close>, whose decision rests on random numbers, and the flag translations of \<open>linux/mii.h\<close>.
\<close>

end
